(* ===== verification/Storage_Caps.thy ===== *)
theory Storage_Caps
  imports Prelude
begin

text \<open>
  Storage contracts (\<open>core/src/shared/storage-capabilities.ts\<close>): what a cache or rate-limit
  provider declares it guarantees, what an operation requires, and the check between them.
  The types that only say what a declaration may hold are datatypes; declarations and
  requests that reach the validators untyped are \<open>jsv\<close> values. Plain objects only: a
  property with an accessor, which \<open>storageRequirements\<close> also refuses, is not represented.
\<close>

section \<open>Data\<close>

(* models packages/core/src/shared/storage-capabilities.ts:2-2 StorageKind *)
datatype storage_kind = CacheKind | RateLimitKind

(* models packages/core/src/shared/storage-capabilities.ts:3-3 StorageOperation *)
datatype storage_operation = OpGet | OpSet | OpHas | OpDelete | OpFlush | OpGetMany | OpSetMany
  | OpDeleteMany | OpHit

datatype locality = LProcess | LShared | LUnknown
datatype persistence = PEphemeral | PDurable | PUnknown
datatype consistency = CStrong | CEventual | CUnknown
datatype tri = TTrue | TFalse | TUnknown
datatype expiry = EMilliseconds | EUnknown

text \<open>\<open>operations = None\<close> is the literal \<open>'unknown'\<close>; \<open>durationUnit\<close> has one value only.\<close>

(* models packages/core/src/shared/storage-capabilities.ts:4-14 StorageCapabilities *)
record capabilities =
  c_kind :: storage_kind
  c_provider :: string
  c_locality :: locality
  c_persistence :: persistence
  c_consistency :: consistency
  c_atomic :: tri
  c_expiry :: expiry
  c_operations :: "storage_operation list option"

(* models packages/core/src/shared/storage-capabilities.ts:15-22 StorageRequirements *)
record requirements =
  r_shared :: bool
  r_durable :: bool
  r_strong :: bool
  r_atomic :: bool
  r_millis :: bool
  r_operations :: "storage_operation list option"

definition no_requirements :: requirements where
  "no_requirements = \<lparr>r_shared = False, r_durable = False, r_strong = False, r_atomic = False,
     r_millis = False, r_operations = None\<rparr>"

datatype capability_name = CapShared | CapDurable | CapStrong | CapAtomic | CapMillis | CapOperations

(* models packages/core/src/shared/storage-capabilities.ts:43-49 StorageCapabilityError *)
datatype caps_error = InvalidDeclaration | InvalidRequirements | CapabilityUnsupported capability_name

(* models packages/core/src/shared/storage-capabilities.ts:23-23 CACHE_OPERATIONS *)
definition CACHE_OPERATIONS :: "storage_operation list" where
  "CACHE_OPERATIONS = [OpGet, OpSet, OpHas, OpDelete, OpFlush, OpGetMany, OpSetMany, OpDeleteMany]"

(* models packages/core/src/shared/storage-capabilities.ts:24-24 OPERATIONS *)
definition OPERATIONS :: "storage_operation list" where
  "OPERATIONS = CACHE_OPERATIONS @ [OpHit]"

fun operation_name :: "storage_operation \<Rightarrow> string" where
  "operation_name OpGet = ''get''"
| "operation_name OpSet = ''set''"
| "operation_name OpHas = ''has''"
| "operation_name OpDelete = ''delete''"
| "operation_name OpFlush = ''flush''"
| "operation_name OpGetMany = ''getMany''"
| "operation_name OpSetMany = ''setMany''"
| "operation_name OpDeleteMany = ''deleteMany''"
| "operation_name OpHit = ''hit''"

definition parse_operation :: "jsv \<Rightarrow> storage_operation option" where
  "parse_operation v = (case v of
     JStr s \<Rightarrow> List.find (\<lambda>op. operation_name op = s) OPERATIONS | _ \<Rightarrow> None)"

fun kind_name :: "storage_kind \<Rightarrow> string" where
  "kind_name CacheKind = ''cache''"
| "kind_name RateLimitKind = ''rate-limit''"


section \<open>Built-in declarations\<close>

text \<open>\<open>/^[a-zA-Z0-9_.-]{1,128}$/\<close>\<close>

definition provider_name_ok :: "string \<Rightarrow> bool" where
  "provider_name_ok s \<longleftrightarrow> 1 \<le> length s \<and> length s \<le> 128 \<and>
     list_all (\<lambda>c. is_word c \<or> c = CHR ''.'' \<or> c = CHR ''-'') s"

(* models packages/core/src/shared/storage-capabilities.ts:26-41 storageCapabilities *)
definition storageCapabilities :: "storage_kind \<Rightarrow> string \<Rightarrow> capabilities" where
  "storageCapabilities kind provider =
     (let database = kind = CacheKind \<and> provider = ''database'';
          known = provider \<in> {''memory'', ''kv'', ''durable-object''} \<or>
            (kind = RateLimitKind \<and> provider = ''redis'')
      in \<lparr>c_kind = kind,
          c_provider = (if provider_name_ok provider then provider else ''unknown''),
          c_locality = (if known then if provider = ''memory'' then LProcess else LShared else LUnknown),
          c_persistence = (if provider = ''memory'' then PEphemeral
            else if known \<and> provider \<noteq> ''redis'' then PDurable else PUnknown),
          c_consistency = (if known then if provider = ''kv'' then CEventual else CStrong else CUnknown),
          c_atomic = (if kind = CacheKind then TFalse
            else if known then if provider \<noteq> ''kv'' then TTrue else TFalse else TUnknown),
          c_expiry = (if known \<or> database then EMilliseconds else EUnknown),
          c_operations = (if known \<or> database then
              if kind = RateLimitKind then Some [OpHit]
              else Some (filter (\<lambda>op. provider \<noteq> ''kv'' \<or> op \<noteq> OpFlush) CACHE_OPERATIONS)
            else None)\<rparr>)"


section \<open>Validators of untyped declarations\<close>

definition parse_locality :: "jsv \<Rightarrow> locality option" where
  "parse_locality v = (if v = JStr ''process'' then Some LProcess else if v = JStr ''shared'' then Some LShared
     else if v = JStr ''unknown'' then Some LUnknown else None)"

definition parse_persistence :: "jsv \<Rightarrow> persistence option" where
  "parse_persistence v = (if v = JStr ''ephemeral'' then Some PEphemeral
     else if v = JStr ''durable'' then Some PDurable else if v = JStr ''unknown'' then Some PUnknown else None)"

definition parse_consistency :: "jsv \<Rightarrow> consistency option" where
  "parse_consistency v = (if v = JStr ''strong'' then Some CStrong
     else if v = JStr ''eventual'' then Some CEventual else if v = JStr ''unknown'' then Some CUnknown else None)"

definition parse_tri :: "jsv \<Rightarrow> tri option" where
  "parse_tri v = (if v = JBool True then Some TTrue else if v = JBool False then Some TFalse
     else if v = JStr ''unknown'' then Some TUnknown else None)"

definition parse_expiry :: "jsv \<Rightarrow> expiry option" where
  "parse_expiry v = (if v = JStr ''milliseconds'' then Some EMilliseconds
     else if v = JStr ''unknown'' then Some EUnknown else None)"

definition allowed_operation :: "storage_kind \<Rightarrow> storage_operation \<Rightarrow> bool" where
  "allowed_operation kind op \<longleftrightarrow> (if kind = CacheKind then op \<in> set CACHE_OPERATIONS else op = OpHit)"

definition parse_operations :: "storage_kind \<Rightarrow> jsv \<Rightarrow> storage_operation list option option" where
  "parse_operations kind v = (case v of
     JStr s \<Rightarrow> if s = ''unknown'' then Some None else None
   | JArr vs \<Rightarrow>
       if length vs > 9 then None
       else (case those (map parse_operation vs) of
               None \<Rightarrow> None
             | Some ops \<Rightarrow> if list_all (allowed_operation kind) ops then Some (Some ops) else None)
   | _ \<Rightarrow> None)"

(* models packages/core/src/shared/storage-capabilities.ts:52-69 readStorageCapabilities *)
definition readStorageCapabilities :: "jsv \<Rightarrow> storage_kind \<Rightarrow> caps_error + capabilities" where
  "readStorageCapabilities d kind = (case d of
     JUndef \<Rightarrow> Inr (storageCapabilities kind ''custom'')
   | JObj ps \<Rightarrow>
      (case (jget d ''provider'', parse_locality (jget d ''locality''), parse_persistence (jget d ''persistence''),
             parse_consistency (jget d ''consistency''), parse_tri (jget d ''atomicIncrement''),
             parse_expiry (jget d ''expiryPrecision''), parse_operations kind (jget d ''operations'')) of
         (JStr p, Some l, Some pe, Some co, Some at, Some ex, Some ops) \<Rightarrow>
           if jget d ''kind'' = JStr (kind_name kind) \<and> provider_name_ok p \<and>
              \<not> (kind = CacheKind \<and> at = TTrue) \<and> jget d ''durationUnit'' = JStr ''milliseconds''
           then Inr \<lparr>c_kind = kind, c_provider = p, c_locality = l, c_persistence = pe, c_consistency = co,
                     c_atomic = at, c_expiry = ex, c_operations = ops\<rparr>
           else Inl InvalidDeclaration
       | _ \<Rightarrow> Inl InvalidDeclaration)
   | _ \<Rightarrow> Inl InvalidDeclaration)"

definition set_requirement :: "string \<Rightarrow> bool \<Rightarrow> requirements \<Rightarrow> requirements option" where
  "set_requirement k b r =
     (if k = ''shared'' then Some (r\<lparr>r_shared := b\<rparr>)
      else if k = ''durable'' then Some (r\<lparr>r_durable := b\<rparr>)
      else if k = ''strongConsistency'' then Some (r\<lparr>r_strong := b\<rparr>)
      else if k = ''atomicIncrement'' then Some (r\<lparr>r_atomic := b\<rparr>)
      else if k = ''millisecondExpiry'' then Some (r\<lparr>r_millis := b\<rparr>) else None)"

fun read_requirements :: "(string \<times> jsv) list \<Rightarrow> requirements \<Rightarrow> caps_error + requirements" where
  "read_requirements [] r = Inr r"
| "read_requirements ((k, v) # ps) r = (case v of
     JBool b \<Rightarrow> (case set_requirement k b r of
        None \<Rightarrow> Inl InvalidRequirements | Some r' \<Rightarrow> read_requirements ps r')
   | JArr vs \<Rightarrow>
       if k = ''operations'' \<and> length vs \<le> 9 then
         (case those (map parse_operation vs) of None \<Rightarrow> Inl InvalidRequirements
          | Some ops \<Rightarrow> read_requirements ps (r\<lparr>r_operations := Some ops\<rparr>))
       else Inl InvalidRequirements
   | _ \<Rightarrow> Inl InvalidRequirements)"

(* models packages/core/src/shared/storage-capabilities.ts:72-91 storageRequirements *)
definition storageRequirements :: "jsv \<Rightarrow> caps_error + requirements" where
  "storageRequirements v = (case v of
     JUndef \<Rightarrow> Inr no_requirements
   | JObj ps \<Rightarrow> read_requirements ps no_requirements
   | _ \<Rightarrow> Inl InvalidRequirements)"


section \<open>The check\<close>

definition unmet :: "capabilities \<Rightarrow> requirements \<Rightarrow> capability_name option" where
  "unmet c r =
     (if r_shared r \<and> c_locality c \<noteq> LShared then Some CapShared
      else if r_durable r \<and> c_persistence c \<noteq> PDurable then Some CapDurable
      else if r_strong r \<and> c_consistency c \<noteq> CStrong then Some CapStrong
      else if r_atomic r \<and> c_atomic c \<noteq> TTrue then Some CapAtomic
      else if r_millis r \<and> c_expiry c \<noteq> EMilliseconds then Some CapMillis
      else None)"

definition assert_required :: "capabilities \<Rightarrow> requirements \<Rightarrow> caps_error + unit" where
  "assert_required c r = (case unmet c r of
     Some n \<Rightarrow> Inl (CapabilityUnsupported n)
   | None \<Rightarrow>
      (case r_operations r of
         None \<Rightarrow> Inr ()
       | Some ops \<Rightarrow>
          if list_ex (\<lambda>op. case c_operations c of None \<Rightarrow> True | Some have \<Rightarrow> op \<notin> set have) ops
          then Inl (CapabilityUnsupported CapOperations) else Inr ()))"

(* models packages/core/src/shared/storage-capabilities.ts:93-104 assertStorageRequirements *)
definition assertStorageRequirements :: "capabilities \<Rightarrow> jsv \<Rightarrow> caps_error + unit" where
  "assertStorageRequirements c v = bindr (storageRequirements v) (assert_required c)"

text \<open>What a passed check promises, stated without the order of the tests.\<close>

definition satisfies :: "capabilities \<Rightarrow> requirements \<Rightarrow> bool" where
  "satisfies c r \<longleftrightarrow>
     (r_shared r \<longrightarrow> c_locality c = LShared) \<and> (r_durable r \<longrightarrow> c_persistence c = PDurable) \<and>
     (r_strong r \<longrightarrow> c_consistency c = CStrong) \<and> (r_atomic r \<longrightarrow> c_atomic c = TTrue) \<and>
     (r_millis r \<longrightarrow> c_expiry c = EMilliseconds) \<and>
     (case r_operations r of None \<Rightarrow> True | Some ops \<Rightarrow>
        ops = [] \<or> (case c_operations c of None \<Rightarrow> False | Some have \<Rightarrow> set ops \<subseteq> set have))"

lemma unmet_None_iff:
  "unmet c r = None \<longleftrightarrow> (r_shared r \<longrightarrow> c_locality c = LShared) \<and> (r_durable r \<longrightarrow> c_persistence c = PDurable) \<and>
     (r_strong r \<longrightarrow> c_consistency c = CStrong) \<and> (r_atomic r \<longrightarrow> c_atomic c = TTrue) \<and>
     (r_millis r \<longrightarrow> c_expiry c = EMilliseconds)"
  by (simp add: unmet_def)

lemma operations_ok_iff:
  "\<not> list_ex (\<lambda>op. case h of None \<Rightarrow> True | Some have \<Rightarrow> op \<notin> set have) ops \<longleftrightarrow>
     ops = [] \<or> (case h of None \<Rightarrow> False | Some have \<Rightarrow> set ops \<subseteq> set have)"
  by (cases h) (auto simp: list_ex_iff)

lemma assert_required_iff: "assert_required c r = Inr () \<longleftrightarrow> satisfies c r"
proof (cases "unmet c r")
  case None
  then have u: "satisfies c r \<longleftrightarrow> (case r_operations r of None \<Rightarrow> True | Some ops \<Rightarrow>
        ops = [] \<or> (case c_operations c of None \<Rightarrow> False | Some have \<Rightarrow> set ops \<subseteq> set have))"
    unfolding unmet_None_iff by (simp add: satisfies_def)
  show ?thesis
    using None operations_ok_iff [of "c_operations c"] unfolding u assert_required_def
    by (cases "r_operations r") auto
next
  case (Some n)
  then have "\<not> satisfies c r"
    using unmet_None_iff [of c r] by (auto simp: satisfies_def)
  with Some show ?thesis by (simp add: assert_required_def)
qed

text \<open>The guarantee check accepts exactly the requests that are well formed and whose every
  requested guarantee the declaration states, whatever the order in which the code tests
  them: an unknown trait never counts as support.\<close>

theorem assertStorageRequirements_iff:
  "assertStorageRequirements c v = Inr () \<longleftrightarrow> (\<exists>r. storageRequirements v = Inr r \<and> satisfies c r)"
  by (auto simp: assertStorageRequirements_def assert_required_iff)

lemma no_requirements_satisfied: "satisfies c no_requirements"
  by (simp add: satisfies_def no_requirements_def)

lemma assert_no_requirements [simp]: "assertStorageRequirements c JUndef = Inr ()"
  by (simp add: assertStorageRequirements_def storageRequirements_def assert_required_iff
      no_requirements_satisfied)

end
