(* ===== verification/Rate_Base.thy ===== *)
theory Rate_Base
  imports Storage_Caps
begin

text \<open>
  What the rate-limit stores of \<open>core/src/shared/rate-limit.ts\<close> share: windows, counters and
  their validation, keys (\<open>rate-limit-policy.ts\<close>), the guarded operation of
  \<open>rate-limit-io.ts\<close>, and the contract of a fixed-window counter store, stated as a locale
  that the memory, Durable Object and KV stores interpret.

  Clock readings (\<open>Date.now()\<close>) are arguments, one per reading.
\<close>

section \<open>Errors, counters, windows\<close>

datatype rl_error = EKey | ENamespace | EWindow | ETimeoutOption | ECancelled | ETimedOut | ECounter | EKv
  | ECaps caps_error | EConfig string

(* models packages/core/src/shared/rate-limit.ts:65-65 RateLimitCounter *)
record counter =
  count :: int
  resetAt :: int

(* models packages/core/src/shared/rate-limit.ts:64-64 MAX_ALARM_TIMESTAMP *)
definition MAX_ALARM :: int where
  "MAX_ALARM = 8640000000000000"

(* models packages/core/src/shared/rate-limit.ts:67-69 validWindow *)
fun validWindow :: "jnum \<Rightarrow> int \<Rightarrow> bool" where
  "validWindow (NInt w) now \<longleftrightarrow> safe_int w \<and> w > 0 \<and> w \<le> MAX_ALARM - now"
| "validWindow NonInt now \<longleftrightarrow> False"

(* models packages/core/src/shared/rate-limit.ts:71-75 assertWindow *)
definition assertWindow :: "jnum \<Rightarrow> int \<Rightarrow> rl_error + int" where
  "assertWindow w now = (if validWindow w now then (case w of NInt i \<Rightarrow> Inr i | NonInt \<Rightarrow> Inl EWindow) else Inl EWindow)"

definition counter_ok :: "int \<Rightarrow> int \<Rightarrow> bool" where
  "counter_ok c r \<longleftrightarrow> safe_int c \<and> c > 0 \<and> safe_int r \<and> r > 0 \<and> r \<le> MAX_ALARM"

(* models packages/core/src/shared/rate-limit.ts:94-104 readCounter *)
definition readCounter :: "jsv \<Rightarrow> rl_error + counter" where
  "readCounter v = (case v of
     JObj ps \<Rightarrow> (case (jget v ''count'', jget v ''resetAt'') of
         (JNum (NInt c), JNum (NInt r)) \<Rightarrow> if counter_ok c r then Inr \<lparr>count = c, resetAt = r\<rparr> else Inl ECounter
       | _ \<Rightarrow> Inl ECounter)
   | _ \<Rightarrow> Inl ECounter)"

text \<open>The object literal \<open>{ count, resetAt }\<close>.\<close>

definition counter_obj :: "int \<Rightarrow> int \<Rightarrow> jsv" where
  "counter_obj c r = JObj [(''count'', JNum (NInt c)), (''resetAt'', JNum (NInt r))]"

lemma readCounter_obj [simp]:
  "readCounter (counter_obj c r) = (if counter_ok c r then Inr \<lparr>count = c, resetAt = r\<rparr> else Inl ECounter)"
  by (simp add: readCounter_def counter_obj_def)

lemma readCounter_ok: "readCounter v = Inr c \<Longrightarrow> counter_ok (count c) (resetAt c)"
  by (auto simp: readCounter_def split: jsv.splits jnum.splits if_splits)


section \<open>Keys and namespaces\<close>

text \<open>Code units below 256 always encode, so the round trip through UTF-8 is the identity.\<close>

(* models packages/core/src/shared/rate-limit-policy.ts:3-8 assertRateLimitKey *)
definition assertRateLimitKey :: "jsv \<Rightarrow> rl_error + string" where
  "assertRateLimitKey v = (case v of
     JStr k \<Rightarrow> if trim k = [] \<or> utf8_length k > 512 then Inl EKey else Inr k
   | _ \<Rightarrow> Inl EKey)"

(* models packages/core/src/shared/rate-limit-policy.ts:10-14 rateLimitNamespace *)
definition rateLimitNamespace :: "jsv \<Rightarrow> rl_error + string" where
  "rateLimitNamespace v = (case v of
     JStr n \<Rightarrow> if utf8_length n > 512 then Inl ENamespace else Inr n | _ \<Rightarrow> Inl ENamespace)"

text \<open>\<open>JSON.stringify\<close> of a string: the two quoted characters, the short escapes and
  \<open>\u00XX\<close> for the other control characters.\<close>

definition hex_digit :: "nat \<Rightarrow> char" where
  "hex_digit n = (if n < 10 then char_of (48 + n) else char_of (87 + n))"

definition json_char :: "char \<Rightarrow> string" where
  "json_char c = (let n = code c; bs = CHR 0x5C in
     if c = CHR 0x22 then [bs, CHR 0x22] else if c = bs then [bs, bs]
     else if n = 8 then [bs, CHR ''b''] else if n = 9 then [bs, CHR ''t''] else if n = 10 then [bs, CHR ''n'']
     else if n = 12 then [bs, CHR ''f''] else if n = 13 then [bs, CHR ''r'']
     else if n < 32 then bs # ''u00'' @ [hex_digit (n div 16), hex_digit (n mod 16)] else [c])"

definition json_string :: "string \<Rightarrow> string" where
  "json_string s = CHR 0x22 # concat (map json_char s) @ [CHR 0x22]"

definition json_pair :: "string \<Rightarrow> string \<Rightarrow> string" where
  "json_pair a b = ''['' @ json_string a @ '','' @ json_string b @ '']''"

(* models packages/core/src/shared/rate-limit-policy.ts:16-20 rateLimitStorageKey *)
definition rateLimitStorageKey :: "string \<Rightarrow> string \<Rightarrow> rl_error + string" where
  "rateLimitStorageKey namespace key =
     (let framed = json_pair namespace key in if utf8_length framed > 512 then Inl EKey else Inr framed)"


text \<open>The framing is uniquely readable, so two different pairs never share a storage key.\<close>

lemma hex_digit_inj: "n < 16 \<Longrightarrow> m < 16 \<Longrightarrow> hex_digit n = hex_digit m \<Longrightarrow> n = m"
proof -
  assume n: "n < 16" "m < 16" and h: "hex_digit n = hex_digit m"
  have c: "(of_char (hex_digit k) :: nat) = (if k < 10 then 48 + k else 87 + k)" if "k < 16" for k
  proof (cases "k < 10")
    case True
    then have "(48 + k) mod 256 = 48 + k" by (intro mod_less) simp
    then show ?thesis using True by (simp add: hex_digit_def)
  next
    case False
    then have "(87 + k) mod 256 = 87 + k" using that by (intro mod_less) simp
    then show ?thesis using False by (simp add: hex_digit_def)
  qed
  have "(if n < 10 then 48 + n else 87 + n) = (if m < 10 then 48 + m else 87 + m)"
    using c [OF n(1)] c [OF n(2)] h by simp
  then show ?thesis by (simp split: if_split_asm)
qed

definition json_class :: "char \<Rightarrow> nat" where
  "json_class c = (let n = code c in
     if c = CHR 0x22 \<or> c = CHR 0x5C \<or> n \<in> {8, 9, 10, 12, 13} then 1 else if n < 32 then 2 else 0)"

lemma json_char_plain: "json_class c = 0 \<Longrightarrow> json_char c = [c] \<and> c \<noteq> CHR 0x22 \<and> c \<noteq> CHR 0x5C"
  by (auto simp: json_class_def json_char_def Let_def split: if_splits)

definition short_code :: "char \<Rightarrow> nat" where
  "short_code x = (if x = CHR ''b'' then 8 else if x = CHR ''t'' then 9 else if x = CHR ''n'' then 10
     else if x = CHR ''f'' then 12 else if x = CHR ''r'' then 13 else code x)"

lemma json_char_short: "json_class c = 1 \<Longrightarrow>
  \<exists>x. json_char c = [CHR 0x5C, x] \<and> x \<noteq> CHR ''u'' \<and> short_code x = code c"
  by (auto simp: json_class_def json_char_def short_code_def Let_def split: if_splits)

lemma json_char_long: "json_class c = 2 \<Longrightarrow> json_char c = CHR 0x5C # ''u00'' @
    [hex_digit (code c div 16), hex_digit (code c mod 16)] \<and> code c < 32"
  by (auto simp: json_class_def json_char_def Let_def split: if_splits)

lemma json_class_cases: "json_class c = 0 \<or> json_class c = 1 \<or> json_class c = 2"
  by (simp add: json_class_def Let_def)

lemma code_inj: "code c = code d \<longleftrightarrow> c = d"
  by (simp add: code_def)

text \<open>The class can be read off the encoding.\<close>

fun json_tag :: "string \<Rightarrow> nat" where
  "json_tag [] = 0"
| "json_tag (x # xs) = (if x \<noteq> CHR 0x5C then 0
     else case xs of [] \<Rightarrow> 1 | y # _ \<Rightarrow> if y = CHR ''u'' then 2 else 1)"

lemma json_tag_char: "json_tag (json_char c @ u) = json_class c"
proof -
  consider (plain) "json_class c = 0" | (short) "json_class c = 1" | (long) "json_class c = 2"
    using json_class_cases [of c] by auto
  then show ?thesis
  proof cases
    case plain
    then show ?thesis using json_char_plain [OF plain] by simp
  next
    case short
    then obtain x where "json_char c = [CHR 0x5C, x]" and "x \<noteq> CHR ''u''"
      using json_char_short [OF short] by (elim exE conjE)
    then show ?thesis using short by simp
  next
    case long
    then show ?thesis using json_char_long [OF long] by simp
  qed
qed

lemma json_char_hd: "\<exists>x xs. json_char c = x # xs \<and> x \<noteq> CHR 0x22"
proof -
  consider (plain) "json_class c = 0" | (short) "json_class c = 1" | (long) "json_class c = 2"
    using json_class_cases [of c] by auto
  then show ?thesis
  proof cases
    case plain
    then show ?thesis using json_char_plain [OF plain] by simp
  next
    case short
    then obtain x where "json_char c = [CHR 0x5C, x]"
      using json_char_short [OF short] by (elim exE conjE)
    then show ?thesis by simp
  next
    case long
    then show ?thesis using json_char_long [OF long] by simp
  qed
qed

lemma json_char_short_unique:
  assumes "json_class c = 1" and "json_class d = 1" and "json_char c = json_char d"
  shows "c = d"
proof -
  obtain x where x: "json_char c = [CHR 0x5C, x]" "short_code x = code c"
    using json_char_short [OF assms(1)] by (elim exE conjE)
  obtain y where y: "json_char d = [CHR 0x5C, y]" "short_code y = code d"
    using json_char_short [OF assms(2)] by (elim exE conjE)
  have "x = y" using x(1) y(1) assms(3) by simp
  then have "code c = code d" using x(2) y(2) by simp
  then show ?thesis using code_inj by blast
qed

lemma json_char_unique:
  assumes "json_char c @ u = json_char d @ v"
  shows "c = d \<and> u = v"
proof -
  have eqc: "json_class d = json_class c"
    using assms json_tag_char [of c u] json_tag_char [of d v] by simp
  consider (plain) "json_class c = 0" | (short) "json_class c = 1" | (long) "json_class c = 2"
    using json_class_cases [of c] by auto
  then show ?thesis
  proof cases
    case plain
    then show ?thesis using eqc assms json_char_plain [of c] json_char_plain [of d] by simp
  next
    case short
    then have sd: "json_class d = 1" using eqc by simp
    obtain x where x: "json_char c = [CHR 0x5C, x]"
      using json_char_short [OF short] by (elim exE conjE)
    obtain y where y: "json_char d = [CHR 0x5C, y]"
      using json_char_short [OF sd] by (elim exE conjE)
    have "json_char c = json_char d" "u = v" using assms x y by simp_all
    then show ?thesis using json_char_short_unique [OF short sd] by simp
  next
    case long
    then have lc: "json_class d = 2" using eqc by simp
    note C = json_char_long [OF long] and D = json_char_long [OF lc]
    have h: "hex_digit (code c div 16) = hex_digit (code d div 16)"
      "hex_digit (code c mod 16) = hex_digit (code d mod 16)" and uv: "u = v"
      using assms C D by simp_all
    have b: "code c div 16 < 16" "code d div 16 < 16" "code c mod 16 < 16" "code d mod 16 < 16"
      using C D by (simp_all add: div_less_iff_less_mult)
    have "code c div 16 = code d div 16" "code c mod 16 = code d mod 16"
      using hex_digit_inj [OF b(1,2) h(1)] hex_digit_inj [OF b(3,4) h(2)] by simp_all
    then have "code c = code d" by (metis div_mult_mod_eq)
    then show ?thesis using uv code_inj by blast
  qed
qed

lemma json_char_not_quote: "json_char c @ u \<noteq> CHR 0x22 # v"
  using json_char_hd [of c] by auto

lemma json_body_unique:
  "concat (map json_char a) @ CHR 0x22 # x = concat (map json_char b) @ CHR 0x22 # y \<Longrightarrow> a = b \<and> x = y"
proof (induction a arbitrary: b)
  case Nil
  show ?case
  proof (cases b)
    case (Cons d b')
    obtain y ys where "json_char d = y # ys" "y \<noteq> CHR 0x22" using json_char_hd by blast
    then show ?thesis using Nil Cons by simp
  qed (use Nil in simp)
next
  case (Cons c a)
  show ?case
  proof (cases b)
    case Nil
    obtain y ys where "json_char c = y # ys" "y \<noteq> CHR 0x22" using json_char_hd by blast
    then show ?thesis using Cons.prems Nil by simp
  next
    case (Cons d b')
    then have "c = d \<and> concat (map json_char a) @ CHR 0x22 # x = concat (map json_char b') @ CHR 0x22 # y"
      using Cons.prems json_char_unique by simp
    then show ?thesis using Cons.IH Cons by simp
  qed
qed

lemma json_pair_inj: "json_pair a b = json_pair c d \<longleftrightarrow> a = c \<and> b = d"
proof
  assume e: "json_pair a b = json_pair c d"
  then have "a = c \<and> '','' @ json_string b @ '']'' = '','' @ json_string d @ '']''"
    by (intro json_body_unique) (simp add: json_pair_def json_string_def)
  moreover from this have "b = d \<and> '']'' = '']''"
    by (intro json_body_unique) (simp add: json_string_def)
  ultimately show "a = c \<and> b = d" by simp
qed simp

lemma storage_key_inj:
  "rateLimitStorageKey n k = Inr f \<Longrightarrow> rateLimitStorageKey n j = Inr f \<Longrightarrow> k = j"
  by (auto simp: rateLimitStorageKey_def Let_def json_pair_inj split: if_splits)


section \<open>Guarded operations\<close>

(* models packages/core/src/shared/rate-limit-io.ts:7-14 RateLimitHitOptions *)
record hit_options =
  h_requires :: jsv
  h_aborted :: bool
  h_timeout :: "jnum option"

definition default_options :: hit_options where
  "default_options = \<lparr>h_requires = JUndef, h_aborted = False, h_timeout = None\<rparr>"

(* models packages/core/src/shared/rate-limit-io.ts:20-22 assertRateLimitNotAborted *)
definition assertRateLimitNotAborted :: "bool \<Rightarrow> rl_error + unit" where
  "assertRateLimitNotAborted aborted = guardr (\<not> aborted) ECancelled"

(* models packages/core/src/shared/rate-limit-io.ts:25-31 rateLimitTimeout *)
definition rateLimitTimeout :: "hit_options \<Rightarrow> rl_error + int" where
  "rateLimitTimeout opts = (case (case h_timeout opts of None \<Rightarrow> NInt 5000 | Some t \<Rightarrow> t) of
     NInt t \<Rightarrow> if safe_int t \<and> t > 0 \<and> t \<le> 2147483647 then Inr t else Inl ETimeoutOption
   | NonInt \<Rightarrow> Inl ETimeoutOption)"

text \<open>
  The race of \<open>runRateLimitOperation\<close> between the provider's work, the caller's abort and the
  deadline, as the event that settles it first. An abort before the queued work starts means
  the provider is never called; an abort or a deadline after that leaves the provider's effect
  in place (the counter may already have been charged).
\<close>

datatype op_event = Settles | AbortsFirst | AbortsLate | DeadlineFires

(* models packages/core/src/shared/rate-limit-io.ts:33-57 runRateLimitOperation *)
definition runRateLimitOperation ::
    "hit_options \<Rightarrow> op_event \<Rightarrow> ('s \<Rightarrow> (rl_error + 'a) \<times> 's) \<Rightarrow> 's \<Rightarrow> (rl_error + 'a) \<times> 's" where
  "runRateLimitOperation opts ev work s =
     (case bindr (rateLimitTimeout opts) (\<lambda>_. assertRateLimitNotAborted (h_aborted opts)) of
        Inl e \<Rightarrow> (Inl e, s)
      | Inr _ \<Rightarrow> (case ev of
          Settles \<Rightarrow> work s
        | AbortsFirst \<Rightarrow> (Inl ECancelled, s)
        | AbortsLate \<Rightarrow> (Inl ECancelled, snd (work s))
        | DeadlineFires \<Rightarrow> (Inl ETimedOut, snd (work s))))"

lemma default_requires [simp]: "h_requires default_options = JUndef"
  by (simp add: default_options_def)

lemma runRateLimitOperation_default [simp]:
  "runRateLimitOperation default_options Settles work s = work s"
  by (simp add: runRateLimitOperation_def rateLimitTimeout_def default_options_def
      assertRateLimitNotAborted_def safe_int_def MAX_SAFE_def)

lemma runRateLimitOperation_snd:
  "snd (runRateLimitOperation opts ev work s) = s \<or>
   snd (runRateLimitOperation opts ev work s) = snd (work s)"
  by (auto simp: runRateLimitOperation_def split: sum.splits op_event.splits)


section \<open>The contract of a counter store\<close>

text \<open>What the three tests on a key and a window admit.\<close>

definition admissible :: "string \<Rightarrow> int \<Rightarrow> int \<Rightarrow> bool" where
  "admissible k w t \<longleftrightarrow> assertRateLimitKey (JStr k) = Inr k \<and> validWindow (NInt w) t \<and> t > 0"

text \<open>
  A fixed-window store: a hit inside a live window adds one and keeps the deadline, any other
  hit starts a window, and a hit on one key changes another key's counter at most by
  forgetting it.
\<close>

locale fixed_window =
  fixes hit :: "'s \<Rightarrow> string \<Rightarrow> int \<Rightarrow> int \<Rightarrow> (rl_error + counter) \<times> 's"
    and look :: "'s \<Rightarrow> string \<Rightarrow> counter option"
    and inv :: "'s \<Rightarrow> bool"
    and adm :: "string \<Rightarrow> int \<Rightarrow> int \<Rightarrow> bool"
  assumes inv_hit: "inv s \<Longrightarrow> adm k w t \<Longrightarrow> inv (snd (hit s k w t))"
    and hit_live: "inv s \<Longrightarrow> adm k w t \<Longrightarrow> look s k = Some c \<Longrightarrow> t < resetAt c \<Longrightarrow> count c < MAX_SAFE \<Longrightarrow>
       fst (hit s k w t) = Inr (c\<lparr>count := count c + 1\<rparr>) \<and>
       look (snd (hit s k w t)) k = Some (c\<lparr>count := count c + 1\<rparr>)"
    and hit_fresh: "inv s \<Longrightarrow> adm k w t \<Longrightarrow> (\<And>c. look s k = Some c \<Longrightarrow> resetAt c \<le> t) \<Longrightarrow>
       fst (hit s k w t) = Inr \<lparr>count = 1, resetAt = t + w\<rparr> \<and>
       look (snd (hit s k w t)) k = Some \<lparr>count = 1, resetAt = t + w\<rparr>"
    and hit_other: "inv s \<Longrightarrow> adm k w t \<Longrightarrow> j \<noteq> k \<Longrightarrow> look (snd (hit s k w t)) j = Some c \<Longrightarrow> look s j = Some c"
begin

text \<open>A run of hits, each a key and a time, all with the same window; the replies in order.\<close>

fun run :: "int \<Rightarrow> 's \<Rightarrow> (string \<times> int) list \<Rightarrow> (rl_error + counter) list \<times> 's" where
  "run w s [] = ([], s)"
| "run w s ((k, t) # ks) =
     (let (r, s1) = hit s k w t; (rs, s2) = run w s1 ks in (r # rs, s2))"

lemma run_inv:
  "inv s \<Longrightarrow> (\<And>k t. (k, t) \<in> set ks \<Longrightarrow> adm k w t) \<Longrightarrow> inv (snd (run w s ks))"
proof (induction ks arbitrary: s)
  case (Cons kt ks)
  obtain k t where kt: "kt = (k, t)" by (cases kt)
  have "adm k w t" using Cons.prems(2) kt by auto
  then have "inv (snd (hit s k w t))" using inv_hit Cons.prems(1) by blast
  then show ?case using Cons kt by (simp add: split_beta)
qed simp

text \<open>Only hits on the key itself raise its counter.\<close>

definition credit :: "'s \<Rightarrow> string \<Rightarrow> int \<Rightarrow> int" where
  "credit s k t = (case look s k of None \<Rightarrow> 0 | Some c \<Rightarrow> if t < resetAt c then count c else 0)"

text \<open>A burst on one key inside a live window is counted without gaps.\<close>

lemma burst_live:
  assumes "inv s" and "look s k = Some c" and "\<And>t. t \<in> set ts \<Longrightarrow> adm k w t \<and> t < resetAt c"
    and "count c + int (length ts) \<le> MAX_SAFE"
  shows "fst (run w s (map (\<lambda>t. (k, t)) ts)) =
    map (\<lambda>i. Inr (c\<lparr>count := count c + 1 + int i\<rparr>)) [0..<length ts]"
  using assms
proof (induction ts arbitrary: s c)
  case (Cons t ts)
  let ?c = "c\<lparr>count := count c + 1\<rparr>" and ?s = "snd (hit s k w t)"
  have adm: "adm k w t" "t < resetAt c" using Cons.prems(3) by auto
  have lt: "count c < MAX_SAFE" using Cons.prems(4) by simp
  have h: "fst (hit s k w t) = Inr ?c" and l: "look ?s k = Some ?c"
    using hit_live [OF Cons.prems(1) adm(1) Cons.prems(2) adm(2) lt] by auto
  have i: "inv ?s" by (rule inv_hit [OF Cons.prems(1) adm(1)])
  have "fst (run w ?s (map (\<lambda>t. (k, t)) ts)) =
    map (\<lambda>i. Inr (?c\<lparr>count := count ?c + 1 + int i\<rparr>)) [0..<length ts]"
    by (rule Cons.IH [OF i l]) (use Cons.prems in auto)
  then have r: "fst (run w ?s (map (\<lambda>t. (k, t)) ts)) =
    map (\<lambda>i. Inr (c\<lparr>count := count c + 2 + int i\<rparr>)) [0..<length ts]"
    by (simp add: algebra_simps)
  have "map (\<lambda>i. Inr (c\<lparr>count := count c + 1 + int i\<rparr>)) [0..<length (t # ts)] =
    (Inr ?c :: rl_error + counter) # map (\<lambda>i. Inr (c\<lparr>count := count c + 2 + int i\<rparr>)) [0..<length ts]"
    by (simp add: upt_conv_Cons map_Suc_upt [symmetric] o_def algebra_simps del: upt_Suc)
  then show ?case using h r by (simp add: split_beta)
qed simp

text \<open>
  The quota theorem: after a first hit that starts a window, the replies of the whole burst
  count one, two, three and so on up to the window's end, so exactly the first \<open>max\<close>
  requests are within the limit.
\<close>

lemma burst_fresh:
  assumes "inv s" and "adm k w t" and "\<And>c. look s k = Some c \<Longrightarrow> resetAt c \<le> t"
    and "\<And>u. u \<in> set ts \<Longrightarrow> adm k w u \<and> u < t + w" and "1 + int (length ts) \<le> MAX_SAFE"
  shows "fst (run w s (map (\<lambda>t. (k, t)) (t # ts))) =
    map (\<lambda>i. Inr \<lparr>count = 1 + int i, resetAt = t + w\<rparr>) [0..<Suc (length ts)]"
proof -
  let ?c = "\<lparr>count = 1, resetAt = t + w\<rparr>" and ?s = "snd (hit s k w t)"
  have h: "fst (hit s k w t) = Inr ?c" and l: "look ?s k = Some ?c"
    using hit_fresh [OF assms(1-3)] by auto
  have "fst (run w ?s (map (\<lambda>t. (k, t)) ts)) =
    map (\<lambda>i. Inr (?c\<lparr>count := count ?c + 1 + int i\<rparr>)) [0..<length ts]"
    by (rule burst_live [OF inv_hit [OF assms(1,2)] l]) (use assms in auto)
  then have r: "fst (run w ?s (map (\<lambda>t. (k, t)) ts)) =
    map (\<lambda>i. Inr \<lparr>count = 2 + int i, resetAt = t + w\<rparr>) [0..<length ts]"
    by simp
  have "map (\<lambda>i. Inr \<lparr>count = 1 + int i, resetAt = t + w\<rparr>) [0..<Suc (length ts)] =
    (Inr ?c :: rl_error + counter) # map (\<lambda>i. Inr \<lparr>count = 2 + int i, resetAt = t + w\<rparr>) [0..<length ts]"
    by (simp add: upt_conv_Cons map_Suc_upt [symmetric] o_def algebra_simps del: upt_Suc)
  then show ?thesis using h r by (simp add: split_beta)
qed

end

text \<open>A store that never forgets: other keys are left alone.\<close>

locale exact_window = fixed_window +
  assumes hit_frame: "inv s \<Longrightarrow> adm k w t \<Longrightarrow> j \<noteq> k \<Longrightarrow> look (snd (hit s k w t)) j = look s j"
begin

text \<open>
  Any interleaving with other keys: the counter of a key after a run is the one its own hits
  alone produce.
\<close>

lemma interleaved:
  assumes "inv s" and "look s k = Some c" and "\<And>j t. (j, t) \<in> set ks \<Longrightarrow> adm j w t \<and> t < resetAt c"
    and "count c + int (length ks) \<le> MAX_SAFE"
  shows "look (snd (run w s ks)) k =
    Some (c\<lparr>count := count c + int (length (filter (\<lambda>h. fst h = k) ks))\<rparr>)"
  using assms
proof (induction ks arbitrary: s c)
  case (Cons jt ks)
  obtain j t where jt: "jt = (j, t)" by (cases jt)
  let ?s = "snd (hit s j w t)"
  have adm: "adm j w t" "t < resetAt c" using Cons.prems(3) jt by auto
  have i: "inv ?s" by (rule inv_hit [OF Cons.prems(1) adm(1)])
  show ?case
  proof (cases "j = k")
    case True
    have lt: "count c < MAX_SAFE" using Cons.prems(4) by simp
    have l: "look ?s k = Some (c\<lparr>count := count c + 1\<rparr>)"
      using hit_live [OF Cons.prems(1), of k w t c] adm True Cons.prems(2) lt by auto
    have "look (snd (run w ?s ks)) k = Some (c\<lparr>count := count c + 1\<rparr>
        \<lparr>count := count (c\<lparr>count := count c + 1\<rparr>) + int (length (filter (\<lambda>h. fst h = k) ks))\<rparr>)"
      by (rule Cons.IH [OF i l]) (use Cons.prems in auto)
    then show ?thesis using jt True by (simp add: split_beta algebra_simps)
  next
    case False
    have l: "look ?s k = Some c"
      using hit_frame [OF Cons.prems(1) adm(1)] False Cons.prems(2) by auto
    have "look (snd (run w ?s ks)) k =
        Some (c\<lparr>count := count c + int (length (filter (\<lambda>h. fst h = k) ks))\<rparr>)"
      by (rule Cons.IH [OF i l]) (use Cons.prems in auto)
    then show ?thesis using jt False by (simp add: split_beta)
  qed
qed simp

end

end
