(* ===== verification/Chains.thy ===== *)
theory Chains
  imports Prelude
begin

text \<open>
  Doubly linked lists through objects on a heap: \<open>dlinks pv nx p xs q\<close> says that the references \<open>xs\<close>
  are chained both ways by the fields \<open>pv\<close> and \<open>nx\<close>, with \<open>p\<close> before the first and \<open>q\<close> after the last.
  The fields are functions on references, so that one object can lie on several lists.
\<close>

fun hd_or :: "nat list \<Rightarrow> nat option \<Rightarrow> nat option" where
  "hd_or [] q = q"
| "hd_or (x # xs) q = Some x"

definition last_or :: "nat option \<Rightarrow> nat list \<Rightarrow> nat option" where
  "last_or p xs = (if xs = [] then p else Some (last xs))"

fun dlinks :: "(nat \<Rightarrow> nat option) \<Rightarrow> (nat \<Rightarrow> nat option) \<Rightarrow> nat option \<Rightarrow> nat list \<Rightarrow> nat option \<Rightarrow> bool" where
  "dlinks pv nx p [] q = True"
| "dlinks pv nx p (r # rs) q = (pv r = p \<and> nx r = hd_or rs q \<and> dlinks pv nx (Some r) rs q)"

lemma last_or_simps [simp]:
  "last_or p [] = p" "last_or p (x # xs) = last_or (Some x) xs" "last_or p (xs @ [x]) = Some x"
  by (auto simp: last_or_def)

lemma hd_or_append [simp]: "hd_or (xs @ ys) q = hd_or xs (hd_or ys q)"
  by (cases xs) auto

lemma hd_or_mem: "hd_or xs None = Some x \<Longrightarrow> x \<in> set xs"
  by (cases xs) auto

lemma last_or_mem: "last_or None xs = Some x \<Longrightarrow> x \<in> set xs"
  by (auto simp: last_or_def split: if_splits)

lemma hd_or_None [simp]: "hd_or xs None = None \<longleftrightarrow> xs = []" "last_or None xs = None \<longleftrightarrow> xs = []"
  "None = hd_or xs None \<longleftrightarrow> xs = []" "None = last_or None xs \<longleftrightarrow> xs = []"
  by (cases xs; simp add: last_or_def)+

lemma dlinks_append:
  "dlinks pv nx p (xs @ ys) q \<longleftrightarrow> dlinks pv nx p xs (hd_or ys q) \<and> dlinks pv nx (last_or p xs) ys q"
  by (induction xs arbitrary: p) auto

lemma dlinks_cong:
  "(\<And>r. r \<in> set xs \<Longrightarrow> pv' r = pv r \<and> nx' r = nx r) \<Longrightarrow> dlinks pv' nx' p xs q \<longleftrightarrow> dlinks pv nx p xs q"
  by (induction xs arbitrary: p) auto

text \<open>Only the first element's predecessor and the last element's successor see the ends.\<close>

lemma dlinks_set_prev:
  assumes "dlinks pv nx p (x # xs) q" and "x \<notin> set xs" and "pv' x = p'" and "nx' x = nx x"
    and "\<And>r. r \<in> set xs \<Longrightarrow> pv' r = pv r \<and> nx' r = nx r"
  shows "dlinks pv' nx' p' (x # xs) q"
  using assms dlinks_cong [of xs pv' pv nx' nx "Some x" q] by auto

lemma dlinks_set_next:
  assumes "dlinks pv nx p (xs @ [x]) q" and "x \<notin> set xs" and "nx' x = q'" and "pv' x = pv x"
    and "\<And>r. r \<in> set xs \<Longrightarrow> pv' r = pv r \<and> nx' r = nx r"
  shows "dlinks pv' nx' p (xs @ [x]) q'"
  using assms dlinks_cong [of xs pv' pv nx' nx p "Some x"] by (auto simp: dlinks_append)

lemma dlinks_ends:
  "dlinks pv nx p (ys @ r # zs) q \<Longrightarrow> pv r = last_or p ys \<and> nx r = hd_or zs q"
  by (simp add: dlinks_append)

text \<open>Taking an element out joins its neighbours.\<close>

lemma dlinks_remove:
  assumes c: "dlinks pv nx None (ys @ r # zs) None" and d: "distinct (ys @ r # zs)"
    and pv': "\<And>j. j \<in> set (ys @ zs) \<Longrightarrow> pv' j = (if nx r = Some j then pv r else pv j)"
    and nx': "\<And>j. j \<in> set (ys @ zs) \<Longrightarrow> nx' j = (if pv r = Some j then nx r else nx j)"
  shows "dlinks pv' nx' None (ys @ zs) None"
proof -
  have e: "pv r = last_or None ys" "nx r = hd_or zs None" and cs: "dlinks pv nx None ys (Some r)" "dlinks pv nx (Some r) zs None"
    using c by (simp_all add: dlinks_append)
  have "dlinks pv' nx' None ys (hd_or zs None)"
  proof (cases ys rule: rev_cases)
    case (snoc us u)
    show ?thesis unfolding snoc
      by (rule dlinks_set_next [OF cs(1) [unfolded snoc]])
        (use d e pv' nx' snoc in \<open>auto dest: hd_or_mem\<close>)
  qed simp
  moreover have "dlinks pv' nx' (last_or None ys) zs None"
  proof (cases zs)
    case (Cons z ws)
    show ?thesis unfolding Cons
      by (rule dlinks_set_prev [OF cs(2) [unfolded Cons]])
        (use d e pv' nx' Cons in \<open>auto dest: last_or_mem\<close>)
  qed simp
  ultimately show ?thesis by (simp add: dlinks_append)
qed

text \<open>A new element at the front or at the back.\<close>

lemma dlinks_push:
  assumes c: "dlinks pv nx None xs None" and d: "distinct xs" "r \<notin> set xs"
    and r: "pv' r = None" "nx' r = hd_or xs None"
    and j: "\<And>j. j \<in> set xs \<Longrightarrow> nx' j = nx j \<and> pv' j = (if hd_or xs None = Some j then Some r else pv j)"
  shows "dlinks pv' nx' None (r # xs) None"
proof (cases xs)
  case (Cons x us)
  have "dlinks pv' nx' (Some r) (x # us) None"
    by (rule dlinks_set_prev [OF c [unfolded Cons]]) (use d j Cons in auto)
  then show ?thesis using r Cons by simp
qed (use r in simp)

lemma dlinks_snoc:
  assumes c: "dlinks pv nx None xs None" and d: "distinct xs" "r \<notin> set xs"
    and r: "pv' r = last_or None xs" "nx' r = None"
    and j: "\<And>j. j \<in> set xs \<Longrightarrow> pv' j = pv j \<and> nx' j = (if last_or None xs = Some j then Some r else nx j)"
  shows "dlinks pv' nx' None (xs @ [r]) None"
proof (cases xs rule: rev_cases)
  case (snoc us x)
  have "dlinks pv' nx' None (us @ [x]) (Some r)"
    by (rule dlinks_set_next [OF c [unfolded snoc]]) (use d j snoc in auto)
  then show ?thesis using r snoc by (simp add: dlinks_append)
qed (use r in simp)

lemma dlinks_next_mem:
  assumes "dlinks pv nx None xs None" "r \<in> set xs" "nx r = Some j"
  shows "j \<in> set xs"
proof -
  obtain ys zs where xs: "xs = ys @ r # zs" using assms(2) by (meson split_list)
  with assms dlinks_ends [of pv nx None ys r zs None] show ?thesis by (auto dest: hd_or_mem)
qed

lemma dlinks_prev_mem:
  assumes "dlinks pv nx None xs None" "r \<in> set xs" "pv r = Some j"
  shows "j \<in> set xs"
proof -
  obtain ys zs where xs: "xs = ys @ r # zs" using assms(2) by (meson split_list)
  with assms dlinks_ends [of pv nx None ys r zs None] show ?thesis by (auto dest: last_or_mem)
qed

end
