(* ===== verification/Memory_Store.thy ===== *)
theory Memory_Store
  imports Rate_Base Chains "HOL-Library.While_Combinator" "HOL-Library.Sublist"
begin

text \<open>
  \<open>InMemoryRateLimitStore\<close> (\<open>core/src/shared/rate-limit.ts\<close>): a bounded map of counters whose
  buckets form a doubly linked list in window-start order, with an incremental sweep pointer.
  Bucket objects live in a heap of numbered records; \<open>undefined\<close> neighbours are \<open>None\<close>. A bucket
  taken out of the list stays in the heap, as the garbage object it is. The abstraction is the
  list of references from the oldest to the newest bucket.
\<close>

section \<open>State and operations\<close>

(* models packages/core/src/shared/rate-limit.ts:109-116 MemoryBucket *)
record bucket =
  b_key :: string
  b_count :: int
  b_reset :: int
  b_older :: "nat option"
  b_newer :: "nat option"

(* models packages/core/src/shared/rate-limit.ts:129-136 InMemoryRateLimitStore *)
record mem_store =
  m_heap :: "nat \<Rightarrow> bucket"
  m_next :: nat
  m_entries :: "(string \<times> nat) list"
  m_max :: nat
  m_oldest :: "nat option"
  m_newest :: "nat option"
  m_sweep :: "nat option"

(* models packages/core/src/shared/rate-limit.ts:107-107 MEMORY_SWEEP_BATCH *)
definition MEMORY_SWEEP_BATCH :: nat where
  "MEMORY_SWEEP_BATCH = 8"

definition new_bucket :: "string \<Rightarrow> int \<Rightarrow> nat option \<Rightarrow> bucket" where
  "new_bucket k reset older = \<lparr>b_key = k, b_count = 1, b_reset = reset, b_older = older, b_newer = None\<rparr>"

(* models packages/core/src/shared/rate-limit.ts:138-143 constructor *)
definition mem_create :: "jnum \<Rightarrow> rl_error + mem_store" where
  "mem_create n = (case n of
     NInt i \<Rightarrow> if safe_int i \<and> i \<ge> 1 \<and> i \<le> 100000
       then Inr \<lparr>m_heap = (\<lambda>_. new_bucket [] 0 None), m_next = 0, m_entries = [], m_max = nat i,
                m_oldest = None, m_newest = None, m_sweep = None\<rparr>
       else Inl (EConfig ''maxEntries'')
   | NonInt \<Rightarrow> Inl (EConfig ''maxEntries''))"

definition set_newer :: "nat \<Rightarrow> nat option \<Rightarrow> mem_store \<Rightarrow> mem_store" where
  "set_newer r v s = s\<lparr>m_heap := (m_heap s)(r := (m_heap s r)\<lparr>b_newer := v\<rparr>)\<rparr>"

definition set_older :: "nat \<Rightarrow> nat option \<Rightarrow> mem_store \<Rightarrow> mem_store" where
  "set_older r v s = s\<lparr>m_heap := (m_heap s)(r := (m_heap s r)\<lparr>b_older := v\<rparr>)\<rparr>"

(* models packages/core/src/shared/rate-limit.ts:195-201 remove *)
definition mem_remove :: "nat \<Rightarrow> mem_store \<Rightarrow> mem_store" where
  "mem_remove r s =
     (let s1 = (if m_sweep s = Some r then s\<lparr>m_sweep := b_newer (m_heap s r)\<rparr> else s);
          s2 = (case b_older (m_heap s1 r) of
                  Some p \<Rightarrow> set_newer p (b_newer (m_heap s1 r)) s1
                | None \<Rightarrow> s1\<lparr>m_oldest := b_newer (m_heap s1 r)\<rparr>);
          s3 = (case b_newer (m_heap s2 r) of
                  Some n \<Rightarrow> set_older n (b_older (m_heap s2 r)) s2
                | None \<Rightarrow> s2\<lparr>m_newest := b_older (m_heap s2 r)\<rparr>);
          s4 = set_older r None (set_newer r None s3)
      in s4\<lparr>m_entries := AList.delete (b_key (m_heap s4 r)) (m_entries s4)\<rparr>)"

text \<open>The \<open>while\<close> loop that drops expired buckets from the oldest end.\<close>

definition oldest_expired :: "int \<Rightarrow> mem_store \<Rightarrow> bool" where
  "oldest_expired now s = (case m_oldest s of None \<Rightarrow> False | Some r \<Rightarrow> now \<ge> b_reset (m_heap s r))"

definition drop_expired :: "int \<Rightarrow> mem_store \<Rightarrow> mem_store" where
  "drop_expired now = while (oldest_expired now)
     (\<lambda>s. case m_oldest s of None \<Rightarrow> s | Some r \<Rightarrow> mem_remove r s)"

text \<open>The bounded sweep: \<open>n\<close> buckets are left to examine.\<close>

fun sweep_batch :: "nat \<Rightarrow> int \<Rightarrow> mem_store \<Rightarrow> mem_store" where
  "sweep_batch 0 now s = s"
| "sweep_batch (Suc n) now s =
     (if length (m_entries s) \<ge> m_max s then
        (case (case m_sweep s of Some r \<Rightarrow> Some r | None \<Rightarrow> m_oldest s) of
           None \<Rightarrow> s
         | Some r \<Rightarrow>
             (let s1 = s\<lparr>m_sweep := b_newer (m_heap s r)\<rparr>;
                  s2 = (if now \<ge> b_reset (m_heap s1 r) then mem_remove r s1 else s1)
              in sweep_batch n now s2))
      else s)"

(* models packages/core/src/shared/rate-limit.ts:176-193 makeRoom *)
definition makeRoom :: "int \<Rightarrow> mem_store \<Rightarrow> mem_store" where
  "makeRoom now s =
     (let s1 = drop_expired now s;
          s2 = sweep_batch (min MEMORY_SWEEP_BATCH (length (m_entries s1))) now s1
      in (case m_oldest s2 of
            Some r \<Rightarrow> if length (m_entries s2) \<ge> m_max s2 then mem_remove r s2 else s2
          | None \<Rightarrow> s2))"

text \<open>\<open>prune\<close> walks the list with the successor read before a removal.\<close>

(* models packages/core/src/shared/rate-limit.ts:167-173 prune *)
definition mem_prune :: "int \<Rightarrow> mem_store \<Rightarrow> mem_store" where
  "mem_prune now s0 = snd (while (\<lambda>(cur, s). cur \<noteq> None)
     (\<lambda>(cur, s). case cur of None \<Rightarrow> (cur, s)
        | Some r \<Rightarrow> (b_newer (m_heap s r), if now \<ge> b_reset (m_heap s r) then mem_remove r s else s))
     (m_oldest s0, s0))"

text \<open>A new window joins the newest end.\<close>

definition mem_insert :: "string \<Rightarrow> int \<Rightarrow> mem_store \<Rightarrow> mem_store" where
  "mem_insert k reset s =
     (let r = m_next s;
          s1 = s\<lparr>m_heap := (m_heap s)(r := new_bucket k reset (m_newest s)), m_next := Suc r\<rparr>;
          s2 = (case m_newest s1 of Some n \<Rightarrow> set_newer n (Some r) s1 | None \<Rightarrow> s1\<lparr>m_oldest := Some r\<rparr>)
      in s2\<lparr>m_newest := Some r, m_entries := AList.update k r (m_entries s2)\<rparr>)"

text \<open>The body of \<open>hit\<close> after the argument checks.\<close>

definition mem_count :: "string \<Rightarrow> int \<Rightarrow> int \<Rightarrow> mem_store \<Rightarrow> (rl_error + counter) \<times> mem_store" where
  "mem_count k w now s =
     (case map_of (m_entries s) k of
        Some r \<Rightarrow>
          if now < b_reset (m_heap s r) then
            (case readCounter (counter_obj (b_count (m_heap s r) + 1) (b_reset (m_heap s r))) of
               Inl e \<Rightarrow> (Inl e, s)
             | Inr c \<Rightarrow> (Inr \<lparr>count = count c, resetAt = b_reset (m_heap s r)\<rparr>,
                        s\<lparr>m_heap := (m_heap s)(r := (m_heap s r)\<lparr>b_count := count c\<rparr>)\<rparr>))
          else (Inr \<lparr>count = 1, resetAt = now + w\<rparr>, mem_insert k (now + w) (mem_remove r s))
      | None \<Rightarrow>
          (Inr \<lparr>count = 1, resetAt = now + w\<rparr>,
           mem_insert k (now + w) (if length (m_entries s) \<ge> m_max s then makeRoom now s else s)))"

(* models packages/core/src/shared/rate-limit.ts:145-164 hit *)
definition mem_hit :: "jsv \<Rightarrow> jnum \<Rightarrow> hit_options \<Rightarrow> int \<Rightarrow> int \<Rightarrow> mem_store
    \<Rightarrow> (rl_error + counter) \<times> mem_store" where
  "mem_hit key window opts t0 now s =
     (let checks =
        (case assertStorageRequirements (storageCapabilities RateLimitKind ''memory'') (h_requires opts) of
           Inl e \<Rightarrow> Inl (ECaps e)
         | Inr _ \<Rightarrow>
           bindr (assertRateLimitKey key) (\<lambda>k.
           bindr (assertWindow window t0) (\<lambda>w.
           bindr (rateLimitTimeout opts) (\<lambda>_.
           bindr (assertRateLimitNotAborted (h_aborted opts)) (\<lambda>_. Inr (k, w))))))
      in case checks of Inl e \<Rightarrow> (Inl e, s) | Inr (k, w) \<Rightarrow> mem_count k w now s)"


section \<open>Linked segments\<close>

text \<open>
  \<open>links h p xs q\<close>: in the heap \<open>h\<close> the references \<open>xs\<close> are chained both ways, with \<open>p\<close> before
  the first and \<open>q\<close> after the last.
\<close>

abbreviation links :: "(nat \<Rightarrow> bucket) \<Rightarrow> nat option \<Rightarrow> nat list \<Rightarrow> nat option \<Rightarrow> bool" where
  "links h \<equiv> dlinks (\<lambda>r. b_older (h r)) (\<lambda>r. b_newer (h r))"


section \<open>Representation\<close>

text \<open>The data of a bucket, without its neighbours.\<close>

definition dat :: "mem_store \<Rightarrow> nat \<Rightarrow> string \<times> int \<times> int" where
  "dat s r = (b_key (m_heap s r), b_count (m_heap s r), b_reset (m_heap s r))"

text \<open>\<open>mem_rep s xs\<close>: the store is well formed and holds the buckets \<open>xs\<close>, oldest first.\<close>

definition mem_rep :: "mem_store \<Rightarrow> nat list \<Rightarrow> bool" where
  "mem_rep s xs \<longleftrightarrow>
     distinct xs \<and> (\<forall>r\<in>set xs. r < m_next s) \<and>
     links (m_heap s) None xs None \<and> m_oldest s = hd_or xs None \<and> m_newest s = last_or None xs \<and>
     distinct (map (\<lambda>r. b_key (m_heap s r)) xs) \<and>
     distinct (map fst (m_entries s)) \<and>
     set (m_entries s) = (\<lambda>r. (b_key (m_heap s r), r)) ` set xs \<and>
     (\<forall>r. m_sweep s = Some r \<longrightarrow> r \<in> set xs)"

lemma mem_rep_entry:
  assumes "mem_rep s xs"
  shows "map_of (m_entries s) k = Some r \<longleftrightarrow> r \<in> set xs \<and> b_key (m_heap s r) = k"
proof -
  have "map_of (m_entries s) k = Some r \<longleftrightarrow> (k, r) \<in> set (m_entries s)"
    using assms by (simp add: mem_rep_def)
  then show ?thesis using assms by (auto simp: mem_rep_def)
qed

lemma mem_rep_size: "mem_rep s xs \<Longrightarrow> length (m_entries s) = length xs"
proof -
  assume rep: "mem_rep s xs"
  have "distinct (m_entries s)" using rep by (auto simp: mem_rep_def distinct_map)
  then have "length (m_entries s) = card (set (m_entries s))" by (simp add: distinct_card)
  also have "\<dots> = card ((\<lambda>r. (b_key (m_heap s r), r)) ` set xs)" using rep by (simp add: mem_rep_def)
  also have "\<dots> = card (set xs)" by (rule card_image) (auto simp: inj_on_def)
  also have "\<dots> = length xs" using rep by (simp add: mem_rep_def distinct_card)
  finally show ?thesis .
qed

text \<open>Heap effect of a removal: neighbours are joined, the data of every bucket stays.\<close>

lemma set_newer_simps [simp]:
  "b_key (m_heap (set_newer r v s) j) = b_key (m_heap s j)"
  "b_count (m_heap (set_newer r v s) j) = b_count (m_heap s j)"
  "b_reset (m_heap (set_newer r v s) j) = b_reset (m_heap s j)"
  "b_older (m_heap (set_newer r v s) j) = b_older (m_heap s j)"
  "b_newer (m_heap (set_newer r v s) j) = (if j = r then v else b_newer (m_heap s j))"
  "m_next (set_newer r v s) = m_next s" "m_max (set_newer r v s) = m_max s"
  "m_entries (set_newer r v s) = m_entries s" "m_oldest (set_newer r v s) = m_oldest s"
  "m_newest (set_newer r v s) = m_newest s" "m_sweep (set_newer r v s) = m_sweep s"
  by (simp_all add: set_newer_def)

lemma set_older_simps [simp]:
  "b_key (m_heap (set_older r v s) j) = b_key (m_heap s j)"
  "b_count (m_heap (set_older r v s) j) = b_count (m_heap s j)"
  "b_reset (m_heap (set_older r v s) j) = b_reset (m_heap s j)"
  "b_newer (m_heap (set_older r v s) j) = b_newer (m_heap s j)"
  "b_older (m_heap (set_older r v s) j) = (if j = r then v else b_older (m_heap s j))"
  "m_next (set_older r v s) = m_next s" "m_max (set_older r v s) = m_max s"
  "m_entries (set_older r v s) = m_entries s" "m_oldest (set_older r v s) = m_oldest s"
  "m_newest (set_older r v s) = m_newest s" "m_sweep (set_older r v s) = m_sweep s"
  by (simp_all add: set_older_def)

text \<open>The four pointer steps of a removal, named so that each is simplified once.\<close>

definition rm_sweep :: "nat \<Rightarrow> mem_store \<Rightarrow> mem_store" where
  "rm_sweep r s = (if m_sweep s = Some r then s\<lparr>m_sweep := b_newer (m_heap s r)\<rparr> else s)"

definition rm_older :: "nat \<Rightarrow> mem_store \<Rightarrow> mem_store" where
  "rm_older r s = (case b_older (m_heap s r) of
     Some p \<Rightarrow> set_newer p (b_newer (m_heap s r)) s | None \<Rightarrow> s\<lparr>m_oldest := b_newer (m_heap s r)\<rparr>)"

definition rm_newer :: "nat \<Rightarrow> mem_store \<Rightarrow> mem_store" where
  "rm_newer r s = (case b_newer (m_heap s r) of
     Some n \<Rightarrow> set_older n (b_older (m_heap s r)) s | None \<Rightarrow> s\<lparr>m_newest := b_older (m_heap s r)\<rparr>)"

lemma mem_remove_steps:
  "mem_remove r s = (let s4 = set_older r None (set_newer r None (rm_newer r (rm_older r (rm_sweep r s))))
     in s4\<lparr>m_entries := AList.delete (b_key (m_heap s4 r)) (m_entries s4)\<rparr>)"
  by (simp only: mem_remove_def rm_sweep_def rm_older_def rm_newer_def Let_def)

lemma rm_sweep_simps [simp]:
  "m_heap (rm_sweep r s) = m_heap s" "m_next (rm_sweep r s) = m_next s" "m_max (rm_sweep r s) = m_max s"
  "m_entries (rm_sweep r s) = m_entries s" "m_oldest (rm_sweep r s) = m_oldest s"
  "m_newest (rm_sweep r s) = m_newest s"
  "m_sweep (rm_sweep r s) = (if m_sweep s = Some r then b_newer (m_heap s r) else m_sweep s)"
  by (simp_all add: rm_sweep_def)

lemma rm_older_simps [simp]:
  "b_key (m_heap (rm_older r s) j) = b_key (m_heap s j)"
  "b_count (m_heap (rm_older r s) j) = b_count (m_heap s j)"
  "b_reset (m_heap (rm_older r s) j) = b_reset (m_heap s j)"
  "b_older (m_heap (rm_older r s) j) = b_older (m_heap s j)"
  "b_newer (m_heap (rm_older r s) j) =
     (if b_older (m_heap s r) = Some j then b_newer (m_heap s r) else b_newer (m_heap s j))"
  "m_next (rm_older r s) = m_next s" "m_max (rm_older r s) = m_max s"
  "m_entries (rm_older r s) = m_entries s" "m_newest (rm_older r s) = m_newest s"
  "m_sweep (rm_older r s) = m_sweep s"
  "m_oldest (rm_older r s) = (if b_older (m_heap s r) = None then b_newer (m_heap s r) else m_oldest s)"
  by (cases "b_older (m_heap s r)"; simp add: rm_older_def)+

lemma rm_newer_simps [simp]:
  "b_key (m_heap (rm_newer r s) j) = b_key (m_heap s j)"
  "b_count (m_heap (rm_newer r s) j) = b_count (m_heap s j)"
  "b_reset (m_heap (rm_newer r s) j) = b_reset (m_heap s j)"
  "b_newer (m_heap (rm_newer r s) j) = b_newer (m_heap s j)"
  "b_older (m_heap (rm_newer r s) j) =
     (if b_newer (m_heap s r) = Some j then b_older (m_heap s r) else b_older (m_heap s j))"
  "m_next (rm_newer r s) = m_next s" "m_max (rm_newer r s) = m_max s"
  "m_entries (rm_newer r s) = m_entries s" "m_oldest (rm_newer r s) = m_oldest s"
  "m_sweep (rm_newer r s) = m_sweep s"
  "m_newest (rm_newer r s) = (if b_newer (m_heap s r) = None then b_older (m_heap s r) else m_newest s)"
  by (cases "b_newer (m_heap s r)"; simp add: rm_newer_def)+

lemma mem_remove_data [simp]:
  "b_key (m_heap (mem_remove r s) j) = b_key (m_heap s j)"
  "b_count (m_heap (mem_remove r s) j) = b_count (m_heap s j)"
  "b_reset (m_heap (mem_remove r s) j) = b_reset (m_heap s j)"
  "m_next (mem_remove r s) = m_next s" "m_max (mem_remove r s) = m_max s"
  by (simp_all add: mem_remove_steps Let_def)

lemma mem_remove_entries:
  "m_entries (mem_remove r s) = AList.delete (b_key (m_heap s r)) (m_entries s)"
  by (simp add: mem_remove_steps Let_def)

lemma mem_remove_ptrs:
  assumes "b_older (m_heap s r) \<noteq> Some r" and "b_newer (m_heap s r) \<noteq> Some r"
  shows "b_newer (m_heap (mem_remove r s) j) =
      (if j = r then None else if b_older (m_heap s r) = Some j then b_newer (m_heap s r) else b_newer (m_heap s j))"
    and "b_older (m_heap (mem_remove r s) j) =
      (if j = r then None else if b_newer (m_heap s r) = Some j then b_older (m_heap s r) else b_older (m_heap s j))"
    and "m_oldest (mem_remove r s) = (if b_older (m_heap s r) = None then b_newer (m_heap s r) else m_oldest s)"
    and "m_newest (mem_remove r s) = (if b_newer (m_heap s r) = None then b_older (m_heap s r) else m_newest s)"
    and "m_sweep (mem_remove r s) = (if m_sweep s = Some r then b_newer (m_heap s r) else m_sweep s)"
  using assms by (simp_all add: mem_remove_steps Let_def)

lemma last_or_cons_notNone: "last_or (Some x) xs \<noteq> None"
  by (simp add: last_or_def)

lemma mem_remove_links:
  assumes rep: "mem_rep s (ys @ r # zs)"
  shows "links (m_heap (mem_remove r s)) None (ys @ zs) None"
    and "m_oldest (mem_remove r s) = hd_or (ys @ zs) None"
    and "m_newest (mem_remove r s) = last_or None (ys @ zs)"
    and "m_sweep (mem_remove r s) = (if m_sweep s = Some r then hd_or zs None else m_sweep s)"
proof -
  have d: "distinct (ys @ r # zs)" and l: "links (m_heap s) None (ys @ r # zs) None"
    and o: "m_oldest s = hd_or (ys @ r # zs) None" and n: "m_newest s = last_or None (ys @ r # zs)"
    using rep by (auto simp: mem_rep_def)
  have ro: "b_older (m_heap s r) = last_or None ys" and rn: "b_newer (m_heap s r) = hd_or zs None"
    using dlinks_ends [OF l] by auto
  have "b_older (m_heap s r) \<noteq> Some r" "b_newer (m_heap s r) \<noteq> Some r"
    using d ro rn by (auto dest: last_or_mem hd_or_mem)
  note P = mem_remove_ptrs [OF this, unfolded ro rn]
  let ?h = "m_heap (mem_remove r s)"
  show "m_sweep (mem_remove r s) = (if m_sweep s = Some r then hd_or zs None else m_sweep s)"
    by (rule P(5))
  show "m_oldest (mem_remove r s) = hd_or (ys @ zs) None"
    using o by (cases ys) (simp_all add: P(3) last_or_cons_notNone)
  show "m_newest (mem_remove r s) = last_or None (ys @ zs)"
    using n by (cases zs) (simp_all add: P(4) last_or_def)
  show "links ?h None (ys @ zs) None"
    by (rule dlinks_remove [OF l d]) (use d ro rn in \<open>auto simp: P(1,2)\<close>)
qed

lemma mem_remove_rep:
  assumes rep: "mem_rep s xs" and r: "r \<in> set xs"
  shows "mem_rep (mem_remove r s) (remove1 r xs)"
proof -
  obtain ys zs where xs: "xs = ys @ r # zs" using r by (meson split_list)
  have d: "distinct xs" using rep by (simp add: mem_rep_def)
  have rm: "remove1 r xs = ys @ zs" using d xs by (simp add: remove1_append)
  note L = mem_remove_links [OF rep [unfolded xs]]
  have keys: "inj_on (\<lambda>j. b_key (m_heap s j)) (set xs)" using rep by (simp add: mem_rep_def distinct_map)
  have ent: "set (m_entries (mem_remove r s)) = (\<lambda>j. (b_key (m_heap s j), j)) ` set (ys @ zs)"
  proof -
    have "set (m_entries s) = (\<lambda>j. (b_key (m_heap s j), j)) ` set xs"
      and "distinct (map fst (m_entries s))" using rep by (auto simp: mem_rep_def)
    then have "set (m_entries (mem_remove r s)) =
        {p \<in> (\<lambda>j. (b_key (m_heap s j), j)) ` set xs. fst p \<noteq> b_key (m_heap s r)}"
      by (auto simp: mem_remove_entries AList.delete_eq)
    also have "\<dots> = (\<lambda>j. (b_key (m_heap s j), j)) ` set (ys @ zs)"
      using keys d xs by (auto simp: inj_on_def)
    finally show ?thesis .
  qed
  have zs_sw: "hd_or zs None = Some j \<Longrightarrow> j \<in> set zs" for j by (cases zs) auto
  show ?thesis unfolding rm mem_rep_def
    using rep xs L ent zs_sw by (auto simp: mem_rep_def mem_remove_entries distinct_delete)
qed

end
