(* ===== verification/Memory_Correct.thy ===== *)
theory Memory_Correct
  imports Memory_Store
begin

text \<open>
  Correctness of the in-memory store: every operation keeps the representation (so the two
  pointer chains, the map and the sweep pointer stay in step), the loops end and remove what
  they should, and the store meets the fixed-window contract.
\<close>

section \<open>Removals\<close>

text \<open>\<open>shrink s xs s' xs' E\<close>: \<open>s'\<close> is \<open>s\<close> without the buckets \<open>E\<close>; all bucket data is kept.\<close>

definition shrink :: "mem_store \<Rightarrow> nat list \<Rightarrow> mem_store \<Rightarrow> nat list \<Rightarrow> nat set \<Rightarrow> bool" where
  "shrink s xs s' xs' E \<longleftrightarrow>
     mem_rep s' xs' \<and> E \<subseteq> set xs \<and> xs' = filter (\<lambda>r. r \<notin> E) xs \<and>
     (\<forall>r. dat s' r = dat s r) \<and> m_next s' = m_next s \<and> m_max s' = m_max s"

lemma shrink_refl: "mem_rep s xs \<Longrightarrow> shrink s xs s xs {}"
  by (simp add: shrink_def)

lemma shrink_rep: "shrink s xs s' xs' E \<Longrightarrow> mem_rep s' xs'"
  unfolding shrink_def by (elim conjE)

lemma mem_rep_distinct: "mem_rep s xs \<Longrightarrow> distinct xs"
  unfolding mem_rep_def by (elim conjE)

lemma dat_remove [simp]: "dat (mem_remove r s) = dat s"
  by (rule ext) (simp add: dat_def)

lemma shrink_remove:
  assumes "shrink s xs s1 xs1 E" and "r \<in> set xs1"
  shows "shrink s xs (mem_remove r s1) (remove1 r xs1) (insert r E)"
proof -
  have "distinct xs1" by (rule mem_rep_distinct [OF shrink_rep [OF assms(1)]])
  then have "remove1 r xs1 = filter (\<lambda>j. j \<noteq> r) xs1" by (auto simp: distinct_remove1_removeAll removeAll_filter_not_eq intro!: filter_cong)
  then show ?thesis
    using assms mem_remove_rep [of s1 xs1 r] by (auto simp: shrink_def intro!: filter_cong)
qed

lemma newer_mem: "mem_rep s xs \<Longrightarrow> r \<in> set xs \<Longrightarrow> b_newer (m_heap s r) = Some j \<Longrightarrow> j \<in> set xs"
proof -
  assume rep: "mem_rep s xs" and r: "r \<in> set xs" and j: "b_newer (m_heap s r) = Some j"
  obtain ys zs where xs: "xs = ys @ r # zs" using r by (meson split_list)
  have "links (m_heap s) None xs None" using rep by (simp add: mem_rep_def)
  then have "b_newer (m_heap s r) = hd_or zs None" by (simp add: xs dlinks_append)
  with j xs show "j \<in> set xs" by (auto dest: hd_or_mem)
qed

lemma mem_rep_sweep:
  assumes "mem_rep s xs" and "r \<in> set xs"
  shows "mem_rep (s\<lparr>m_sweep := b_newer (m_heap s r)\<rparr>) xs"
  using assms newer_mem [OF assms] by (auto simp: mem_rep_def)

lemma shrink_sweep:
  assumes "shrink s xs s1 xs1 E" and "r \<in> set xs1"
  shows "shrink s xs (s1\<lparr>m_sweep := b_newer (m_heap s1 r)\<rparr>) xs1 E"
  using assms mem_rep_sweep [of s1 xs1 r] by (auto simp: shrink_def dat_def)

text \<open>A bucket whose window is over.\<close>

definition expired :: "int \<Rightarrow> mem_store \<Rightarrow> nat \<Rightarrow> bool" where
  "expired now s r \<longleftrightarrow> b_reset (m_heap s r) \<le> now"

lemma expired_shrink: "shrink s xs s' xs' E \<Longrightarrow> expired now s' r = expired now s r"
  by (simp add: shrink_def dat_def expired_def)

lemma oldest_mem: "mem_rep s xs \<Longrightarrow> m_oldest s = Some r \<Longrightarrow> xs \<noteq> [] \<and> hd xs = r"
  by (cases xs) (auto simp: mem_rep_def)

text \<open>
  The loop at the oldest end terminates, removes only expired buckets, and stops at a bucket
  that is still live.
\<close>

lemma drop_expired_shrink:
  assumes rep: "mem_rep s xs"
  shows "(\<exists>xs' E. shrink s xs (drop_expired now s) xs' E \<and> (\<forall>r\<in>E. expired now s r)) \<and>
    \<not> oldest_expired now (drop_expired now s)"
  unfolding drop_expired_def
proof (rule while_rule [where
      P = "\<lambda>s'. \<exists>xs' E. shrink s xs s' xs' E \<and> (\<forall>r\<in>E. expired now s r)" and
      r = "measure (\<lambda>s'. length (m_entries s'))"])
  show "\<exists>xs' E. shrink s xs s xs' E \<and> (\<forall>r\<in>E. expired now s r)"
    using shrink_refl [OF rep] by blast
next
  fix s1 assume inv: "\<exists>xs' E. shrink s xs s1 xs' E \<and> (\<forall>r\<in>E. expired now s r)" and b: "oldest_expired now s1"
  then obtain xs1 E r where sh: "shrink s xs s1 xs1 E" and E: "\<forall>r\<in>E. expired now s r"
    and r: "m_oldest s1 = Some r" and ex: "b_reset (m_heap s1 r) \<le> now"
    by (auto simp: oldest_expired_def split: option.splits)
  have rm: "r \<in> set xs1" using oldest_mem [OF shrink_rep [OF sh] r] by auto
  have "expired now s r" using ex expired_shrink [OF sh] by (simp add: expired_def)
  then show "\<exists>xs' E. shrink s xs (case m_oldest s1 of None \<Rightarrow> s1 | Some r \<Rightarrow> mem_remove r s1) xs' E \<and> (\<forall>r\<in>E. expired now s r)"
    using shrink_remove [OF sh rm] E r by auto
  have "length (m_entries (mem_remove r s1)) < length (m_entries s1)"
    using mem_rep_size [OF shrink_rep [OF sh]] mem_rep_size [OF mem_remove_rep [OF shrink_rep [OF sh] rm]] rm
      length_pos_if_in_set [OF rm]
    by (simp add: length_remove1)
  then show "(case m_oldest s1 of None \<Rightarrow> s1 | Some r \<Rightarrow> mem_remove r s1, s1) \<in> measure (\<lambda>s'. length (m_entries s'))"
    using r by simp
qed auto

lemma sweep_batch_shrink:
  assumes "shrink s xs s1 xs1 E" and "\<forall>r\<in>E. expired now s r"
  shows "\<exists>xs' E'. shrink s xs (sweep_batch n now s1) xs' E' \<and> (\<forall>r\<in>E'. expired now s r)"
  using assms
proof (induction n now s1 arbitrary: xs1 E rule: sweep_batch.induct)
  case (2 n now s1)
  let ?cur = "case m_sweep s1 of Some r \<Rightarrow> Some r | None \<Rightarrow> m_oldest s1"
  show ?case
  proof (cases "length (m_entries s1) \<ge> m_max s1 \<and> ?cur \<noteq> None")
    case False
    then show ?thesis using "2.prems" by (auto split: option.splits)
  next
    case True
    then obtain r where cur: "?cur = Some r" by auto
    have r: "r \<in> set xs1"
    proof (cases "m_sweep s1")
      case None
      then have "xs1 \<noteq> [] \<and> hd xs1 = r" using cur oldest_mem [OF shrink_rep [OF "2.prems"(1)]] by simp
      then show ?thesis by auto
    next
      case (Some j)
      then show ?thesis using cur shrink_rep [OF "2.prems"(1)] by (auto simp: mem_rep_def)
    qed
    let ?s2 = "s1\<lparr>m_sweep := b_newer (m_heap s1 r)\<rparr>"
    let ?s3 = "if now \<ge> b_reset (m_heap ?s2 r) then mem_remove r ?s2 else ?s2"
    have sh2: "shrink s xs ?s2 xs1 E" by (rule shrink_sweep [OF "2.prems"(1) r])
    have "\<exists>xs3 E3. shrink s xs ?s3 xs3 E3 \<and> (\<forall>r\<in>E3. expired now s r)"
    proof (cases "now \<ge> b_reset (m_heap ?s2 r)")
      case True
      then have "expired now s r" using expired_shrink [OF "2.prems"(1), of now r] by (simp add: expired_def)
      then show ?thesis using shrink_remove [OF sh2 r] True "2.prems"(2) by auto
    next
      case False
      then show ?thesis using sh2 "2.prems"(2) by auto
    qed
    then show ?thesis using "2.IH" [of r ?s2 ?s3] True cur by (auto simp: Let_def)
  qed
qed auto

lemma shrink_size: "shrink s xs s' xs' E \<Longrightarrow> mem_rep s xs \<Longrightarrow> length xs' + card E = length xs"
proof -
  assume sh: "shrink s xs s' xs' E" and rep: "mem_rep s xs"
  have d: "distinct xs" using rep by (simp add: mem_rep_def)
  have "{r \<in> set xs. r \<in> E} = E" using sh by (auto simp: shrink_def)
  then have "length (filter (\<lambda>r. r \<in> E) xs) = card E"
    using distinct_card [OF distinct_filter [OF d, of "\<lambda>r. r \<in> E"]] by simp
  then show ?thesis using sh sum_length_filter_compl [of "\<lambda>r. r \<in> E" xs] by (simp add: shrink_def)
qed

text \<open>What \<open>makeRoom\<close> does on a full store: it drops only expired buckets, or else exactly the
  bucket whose window started earliest.\<close>

lemma makeRoom_shrink:
  assumes rep: "mem_rep s xs" and full: "length xs = m_max s" and pos: "0 < m_max s"
  shows "\<exists>xs' E. shrink s xs (makeRoom now s) xs' E \<and> E \<noteq> {} \<and>
    ((\<forall>r\<in>E. expired now s r) \<or> E = {hd xs})"
proof -
  let ?s1 = "drop_expired now s"
  let ?s2 = "sweep_batch (min MEMORY_SWEEP_BATCH (length (m_entries ?s1))) now ?s1"
  obtain xs2 E where sh: "shrink s xs ?s2 xs2 E" and E: "\<forall>r\<in>E. expired now s r"
    using drop_expired_shrink [OF rep] sweep_batch_shrink by blast
  have size: "length (m_entries ?s2) = length xs2" by (rule mem_rep_size [OF shrink_rep [OF sh]])
  have max: "m_max ?s2 = m_max s" using sh by (simp add: shrink_def)
  have finE: "finite E" using sh by (auto simp: shrink_def intro: finite_subset)
  show ?thesis
  proof (cases "E = {}")
    case True
    then have xs2: "xs2 = xs" using sh by (simp add: shrink_def)
    then obtain r where r: "m_oldest ?s2 = Some r" and hd: "r = hd xs" and rm: "r \<in> set xs2"
      using shrink_rep [OF sh] full pos by (cases xs) (auto simp: mem_rep_def)
    have "makeRoom now s = mem_remove r ?s2"
      using r size max xs2 full by (simp add: makeRoom_def Let_def)
    then show ?thesis using shrink_remove [OF sh rm] True hd by auto
  next
    case False
    have "0 < card E" using False finE by (simp add: card_gt_0_iff)
    then have "length xs2 < m_max s" using shrink_size [OF sh rep] full by simp
    then have "makeRoom now s = ?s2"
      using size max by (auto simp: makeRoom_def Let_def split: option.splits)
    then show ?thesis using sh E False by auto
  qed
qed


section \<open>Insertion\<close>

lemma mem_insert_data:
  "b_key (m_heap (mem_insert k t s) j) = (if j = m_next s \<and> m_newest s \<noteq> Some j then k
     else if j = m_next s then k else b_key (m_heap s j))"
  "m_next (mem_insert k t s) = Suc (m_next s)" "m_max (mem_insert k t s) = m_max s"
  "m_entries (mem_insert k t s) = AList.update k (m_next s) (m_entries s)"
  "m_sweep (mem_insert k t s) = m_sweep s" "m_newest (mem_insert k t s) = Some (m_next s)"
  by (cases "m_newest s"; simp add: mem_insert_def Let_def new_bucket_def)+

lemma mem_insert_dat:
  "dat (mem_insert k t s) j = (if j = m_next s then (k, 1, t) else dat s j)"
  by (cases "m_newest s") (auto simp: mem_insert_def Let_def new_bucket_def dat_def)

lemma dat_key: "b_key (m_heap s j) = fst (dat s j)"
  by (simp add: dat_def)

lemma mem_insert_rep:
  assumes rep: "mem_rep s xs" and new: "k \<notin> fst ` set (m_entries s)"
  shows "mem_rep (mem_insert k t s) (xs @ [m_next s])"
proof -
  let ?s = "mem_insert k t s" and ?r = "m_next s"
  have fresh: "?r \<notin> set xs" using rep by (auto simp: mem_rep_def)
  have nw: "m_newest s = last_or None xs" and od: "m_oldest s = hd_or xs None"
    and lk: "links (m_heap s) None xs None" using rep by (auto simp: mem_rep_def)
  have keys: "b_key (m_heap ?s j) = (if j = ?r then k else b_key (m_heap s j))" for j
    unfolding dat_key mem_insert_dat by simp
  have older: "b_older (m_heap ?s j) = (if j = ?r then m_newest s else b_older (m_heap s j))" if "m_newest s \<noteq> Some ?r" for j
    using that by (cases "m_newest s") (auto simp: mem_insert_def Let_def new_bucket_def)
  have newer: "b_newer (m_heap ?s j) = (if j = ?r then None else if m_newest s = Some j then Some ?r else b_newer (m_heap s j))"
    if "m_newest s \<noteq> Some ?r" for j
    using that by (cases "m_newest s") (auto simp: mem_insert_def Let_def new_bucket_def)
  have nr: "m_newest s \<noteq> Some ?r" using fresh nw by (auto dest: last_or_mem)
  have oldest: "m_oldest ?s = hd_or (xs @ [?r]) None"
    using nw od by (cases xs rule: rev_cases; cases xs) (auto simp: mem_insert_def Let_def last_or_def)
  have "links (m_heap ?s) None (xs @ [?r]) None"
    by (rule dlinks_snoc [OF lk]) (use mem_rep_distinct [OF rep] fresh nw older [OF nr] newer [OF nr] in auto)
  moreover have ent: "m_entries ?s = m_entries s @ [(k, ?r)]"
    using new by (simp add: mem_insert_data update_new)
  moreover have "set (m_entries ?s) = (\<lambda>j. (b_key (m_heap ?s j), j)) ` set (xs @ [?r])"
  proof -
    have "(\<lambda>j. (b_key (m_heap ?s j), j)) ` set xs = (\<lambda>j. (b_key (m_heap s j), j)) ` set xs"
      by (rule image_cong) (use fresh in \<open>auto simp: keys\<close>)
    then show ?thesis using rep unfolding ent by (simp add: mem_rep_def keys)
  qed
  moreover have nk: "k \<notin> (\<lambda>j. b_key (m_heap s j)) ` set xs"
  proof -
    have "set (m_entries s) = (\<lambda>r. (b_key (m_heap s r), r)) ` set xs" using rep by (simp add: mem_rep_def)
    then have "fst ` set (m_entries s) = (\<lambda>j. b_key (m_heap s j)) ` set xs" by (simp add: image_image)
    with new show ?thesis by simp
  qed
  moreover have "distinct (map (\<lambda>j. b_key (m_heap ?s j)) (xs @ [?r]))"
  proof -
    have eq: "map (\<lambda>j. b_key (m_heap ?s j)) (xs @ [?r]) = map (\<lambda>j. b_key (m_heap s j)) xs @ [k]"
      using fresh by (auto simp: keys)
    have d: "distinct (map (\<lambda>j. b_key (m_heap s j)) xs)" using rep by (simp add: mem_rep_def)
    show ?thesis unfolding eq using nk d by simp
  qed
  moreover have "distinct (xs @ [?r])" using fresh mem_rep_distinct [OF rep] by simp
  moreover have "\<forall>r\<in>set (xs @ [?r]). r < m_next ?s" using rep by (auto simp: mem_rep_def mem_insert_data)
  moreover have "distinct (map fst (m_entries ?s))" using rep new unfolding ent by (simp add: mem_rep_def)
  moreover have "\<forall>r. m_sweep ?s = Some r \<longrightarrow> r \<in> set (xs @ [?r])"
    using rep by (simp add: mem_rep_def mem_insert_data)
  moreover have "m_newest ?s = last_or None (xs @ [?r])" by (simp add: mem_insert_data)
  ultimately show ?thesis
    using oldest unfolding mem_rep_def [of ?s] by blast
qed


section \<open>Lookup\<close>

text \<open>The abstraction to a map of counters.\<close>

definition mem_look :: "mem_store \<Rightarrow> string \<Rightarrow> counter option" where
  "mem_look s k = (case map_of (m_entries s) k of None \<Rightarrow> None
     | Some r \<Rightarrow> Some \<lparr>count = b_count (m_heap s r), resetAt = b_reset (m_heap s r)\<rparr>)"

lemma mem_look_Some:
  "mem_rep s xs \<Longrightarrow> mem_look s k = Some c \<longleftrightarrow> (\<exists>r\<in>set xs. dat s r = (k, count c, resetAt c))"
proof -
  assume rep: "mem_rep s xs"
  show ?thesis
  proof
    assume "mem_look s k = Some c"
    then obtain r where "map_of (m_entries s) k = Some r" and "c = \<lparr>count = b_count (m_heap s r), resetAt = b_reset (m_heap s r)\<rparr>"
      by (auto simp: mem_look_def split: option.splits)
    then show "\<exists>r\<in>set xs. dat s r = (k, count c, resetAt c)"
      by (intro bexI [of _ r]) (auto simp: mem_rep_entry [OF rep] dat_def)
  next
    assume "\<exists>r\<in>set xs. dat s r = (k, count c, resetAt c)"
    then obtain r where "r \<in> set xs" and d: "dat s r = (k, count c, resetAt c)" by blast
    then have "map_of (m_entries s) k = Some r" by (simp add: mem_rep_entry [OF rep] dat_def)
    then show "mem_look s k = Some c" using d by (simp add: mem_look_def dat_def)
  qed
qed

lemma mem_look_None: "mem_rep s xs \<Longrightarrow> mem_look s k = None \<longleftrightarrow> k \<notin> fst ` set (m_entries s)"
  by (auto simp: mem_look_def map_of_eq_None_iff split: option.splits) (metis map_of_eq_None_iff option.simps(3))

lemma option_eqI_Some: "(\<And>c. a = Some c \<longleftrightarrow> b = Some c) \<Longrightarrow> a = b"
  by (metis not_Some_eq)

lemma shrink_look:
  assumes sh: "shrink s xs s' xs' E" and rep: "mem_rep s xs"
  shows "mem_look s' k = (if k \<in> (\<lambda>r. fst (dat s r)) ` E then None else mem_look s k)"
proof (rule option_eqI_Some)
  fix c :: counter
  have E: "E \<subseteq> set xs" and xs': "xs' = filter (\<lambda>r. r \<notin> E) xs" and d: "\<And>r. dat s' r = dat s r"
    using sh unfolding shrink_def by auto
  have inj: "inj_on (\<lambda>r. fst (dat s r)) (set xs)"
    using rep by (simp add: mem_rep_def distinct_map dat_key)
  have "(\<exists>r\<in>set xs'. dat s r = (k, count c, resetAt c)) \<longleftrightarrow>
      k \<notin> (\<lambda>r. fst (dat s r)) ` E \<and> (\<exists>r\<in>set xs. dat s r = (k, count c, resetAt c))" (is "?l \<longleftrightarrow> ?r")
  proof
    assume ?l
    then obtain r where r: "r \<in> set xs" "r \<notin> E" and dr: "dat s r = (k, count c, resetAt c)" using xs' by auto
    have "k \<notin> (\<lambda>r. fst (dat s r)) ` E"
    proof
      assume "k \<in> (\<lambda>r. fst (dat s r)) ` E"
      then obtain j where j: "j \<in> E" "fst (dat s j) = k" by blast
      then have "j = r" using inj_onD [OF inj, of j r] r dr E by auto
      with j r show False by simp
    qed
    with r dr show ?r by blast
  next
    assume ?r
    then show ?l unfolding xs' by (force simp: image_iff)
  qed
  then show "mem_look s' k = Some c \<longleftrightarrow> (if k \<in> (\<lambda>r. fst (dat s r)) ` E then None else mem_look s k) = Some c"
    by (simp add: mem_look_Some [OF shrink_rep [OF sh]] mem_look_Some [OF rep] d)
qed

lemma mem_insert_look:
  assumes rep: "mem_rep s xs" and new: "mem_look s k = None"
  shows "mem_look (mem_insert k t s) j = (if j = k then Some \<lparr>count = 1, resetAt = t\<rparr> else mem_look s j)"
proof -
  have nk: "k \<notin> fst ` set (m_entries s)" using new mem_look_None [OF rep] by simp
  have fresh: "m_next s \<notin> set xs" using rep by (auto simp: mem_rep_def)
  note rep' = mem_insert_rep [OF rep nk, of t]
  show ?thesis
  proof (rule option_eqI_Some)
    fix c :: counter
    have "mem_look (mem_insert k t s) j = Some c \<longleftrightarrow>
        (j, count c, resetAt c) = (k, 1, t) \<or> (\<exists>r\<in>set xs. dat s r = (j, count c, resetAt c))"
      unfolding mem_look_Some [OF rep'] mem_insert_dat using fresh by auto
    also have "\<dots> \<longleftrightarrow> (if j = k then Some \<lparr>count = 1, resetAt = t\<rparr> else mem_look s j) = Some c"
      using mem_look_Some [OF rep, of j c] new by (cases c) (auto simp del: not_None_eq)
    finally show "mem_look (mem_insert k t s) j = Some c \<longleftrightarrow>
      (if j = k then Some \<lparr>count = 1, resetAt = t\<rparr> else mem_look s j) = Some c" .
  qed
qed


section \<open>A hit\<close>

definition mem_inv :: "mem_store \<Rightarrow> bool" where
  "mem_inv s \<longleftrightarrow> (\<exists>xs. mem_rep s xs \<and> length xs \<le> m_max s \<and> 0 < m_max s)"

text \<open>Raising the count of a bucket.\<close>

definition bump :: "nat \<Rightarrow> int \<Rightarrow> mem_store \<Rightarrow> mem_store" where
  "bump r c s = s\<lparr>m_heap := (m_heap s)(r := (m_heap s r)\<lparr>b_count := c\<rparr>)\<rparr>"

lemma bump_simps [simp]:
  "b_key (m_heap (bump r c s) j) = b_key (m_heap s j)" "b_reset (m_heap (bump r c s) j) = b_reset (m_heap s j)"
  "b_older (m_heap (bump r c s) j) = b_older (m_heap s j)" "b_newer (m_heap (bump r c s) j) = b_newer (m_heap s j)"
  "b_count (m_heap (bump r c s) j) = (if j = r then c else b_count (m_heap s j))"
  "m_next (bump r c s) = m_next s" "m_max (bump r c s) = m_max s" "m_entries (bump r c s) = m_entries s"
  "m_oldest (bump r c s) = m_oldest s" "m_newest (bump r c s) = m_newest s" "m_sweep (bump r c s) = m_sweep s"
  by (simp_all add: bump_def)

lemma bump_rep: "mem_rep s xs \<Longrightarrow> mem_rep (bump r c s) xs"
  using dlinks_cong [of xs "\<lambda>j. b_older (m_heap (bump r c s) j)" "\<lambda>j. b_older (m_heap s j)"
      "\<lambda>j. b_newer (m_heap (bump r c s) j)" "\<lambda>j. b_newer (m_heap s j)" None None] by (simp add: mem_rep_def)

lemma bump_look:
  assumes rep: "mem_rep s xs" and r: "map_of (m_entries s) k = Some r"
  shows "mem_look (bump r c s) j =
    (if j = k then Some \<lparr>count = c, resetAt = b_reset (m_heap s r)\<rparr> else mem_look s j)"
proof (cases "map_of (m_entries s) j")
  case (Some i)
  have ki: "b_key (m_heap s i) = j" and kr: "b_key (m_heap s r) = k"
    using mem_rep_entry [OF rep, of j i] mem_rep_entry [OF rep, of k r] Some r by simp_all
  show ?thesis
  proof (cases "i = r")
    case True
    then show ?thesis using ki kr Some by (simp add: mem_look_def)
  next
    case False
    then have "j \<noteq> k" using Some r by auto
    then show ?thesis using False Some by (simp add: mem_look_def)
  qed
qed (use r in \<open>auto simp: mem_look_def\<close>)

text \<open>The four outcomes of a hit.\<close>

inductive mem_outcome :: "string \<Rightarrow> int \<Rightarrow> int \<Rightarrow> mem_store \<Rightarrow> (rl_error + counter) \<times> mem_store \<Rightarrow> bool" where
  overflow: "map_of (m_entries s) k = Some r \<Longrightarrow> now < b_reset (m_heap s r) \<Longrightarrow>
     \<not> counter_ok (b_count (m_heap s r) + 1) (b_reset (m_heap s r)) \<Longrightarrow> mem_outcome k w now s (Inl ECounter, s)"
| live: "map_of (m_entries s) k = Some r \<Longrightarrow> now < b_reset (m_heap s r) \<Longrightarrow>
     counter_ok (b_count (m_heap s r) + 1) (b_reset (m_heap s r)) \<Longrightarrow>
     mem_outcome k w now s (Inr \<lparr>count = b_count (m_heap s r) + 1, resetAt = b_reset (m_heap s r)\<rparr>,
       bump r (b_count (m_heap s r) + 1) s)"
| renew: "map_of (m_entries s) k = Some r \<Longrightarrow> b_reset (m_heap s r) \<le> now \<Longrightarrow> mem_rep s xs \<Longrightarrow> r \<in> set xs \<Longrightarrow>
     shrink s xs s1 xs1 {r} \<Longrightarrow>
     mem_outcome k w now s (Inr \<lparr>count = 1, resetAt = now + w\<rparr>, mem_insert k (now + w) s1)"
| fresh: "map_of (m_entries s) k = None \<Longrightarrow> mem_rep s xs \<Longrightarrow> shrink s xs s1 xs1 E \<Longrightarrow>
     length xs1 < m_max s \<Longrightarrow> (length xs < m_max s \<Longrightarrow> E = {}) \<Longrightarrow>
     (\<forall>r\<in>E. expired now s r) \<or> E = {hd xs} \<Longrightarrow>
     mem_outcome k w now s (Inr \<lparr>count = 1, resetAt = now + w\<rparr>, mem_insert k (now + w) s1)"

lemma mem_count_outcome:
  assumes rep: "mem_rep s xs" and cap: "length xs \<le> m_max s" and pos: "0 < m_max s"
  shows "mem_outcome k w now s (mem_count k w now s)"
proof (cases "map_of (m_entries s) k")
  case None
  show ?thesis
  proof (cases "length xs = m_max s")
    case True
    obtain xs' E where sh: "shrink s xs (makeRoom now s) xs' E" and ne: "E \<noteq> {}"
      and E: "(\<forall>r\<in>E. expired now s r) \<or> E = {hd xs}"
      using makeRoom_shrink [OF rep True pos] by blast
    have "finite E" using sh by (auto simp: shrink_def intro: finite_subset)
    then have "0 < card E" using ne by (simp add: card_gt_0_iff)
    then have "length xs' < m_max s" using shrink_size [OF sh rep] True by simp
    then have "mem_outcome k w now s (Inr \<lparr>count = 1, resetAt = now + w\<rparr>, mem_insert k (now + w) (makeRoom now s))"
      by (intro mem_outcome.fresh [OF None rep sh]) (use True E in auto)
    then show ?thesis using None True mem_rep_size [OF rep] by (simp add: mem_count_def)
  next
    case False
    then have "mem_outcome k w now s (Inr \<lparr>count = 1, resetAt = now + w\<rparr>, mem_insert k (now + w) s)"
      by (intro mem_outcome.fresh [OF None rep shrink_refl [OF rep]]) (use cap in auto)
    then show ?thesis using None False cap mem_rep_size [OF rep] by (simp add: mem_count_def)
  qed
next
  case (Some r)
  show ?thesis
  proof (cases "now < b_reset (m_heap s r)")
    case True
    show ?thesis
    proof (cases "counter_ok (b_count (m_heap s r) + 1) (b_reset (m_heap s r))")
      case ok: True
      have "mem_count k w now s = (Inr \<lparr>count = b_count (m_heap s r) + 1, resetAt = b_reset (m_heap s r)\<rparr>,
          bump r (b_count (m_heap s r) + 1) s)"
        using Some True ok by (simp add: mem_count_def bump_def)
      then show ?thesis using mem_outcome.live [OF Some True ok] by simp
    next
      case bad: False
      then have "mem_count k w now s = (Inl ECounter, s)" using Some True by (simp add: mem_count_def)
      then show ?thesis using mem_outcome.overflow [OF Some True bad] by simp
    qed
  next
    case False
    have r: "r \<in> set xs" using mem_rep_entry [OF rep] Some by blast
    have "mem_outcome k w now s (Inr \<lparr>count = 1, resetAt = now + w\<rparr>, mem_insert k (now + w) (mem_remove r s))"
      by (rule mem_outcome.renew [OF Some _ rep r]) (use False shrink_remove [OF shrink_refl [OF rep] r] in auto)
    then show ?thesis using Some False by (simp add: mem_count_def)
  qed
qed

lemma shrink_no_key:
  assumes "shrink s xs s1 xs1 E" and "mem_rep s xs" and "mem_look s k = None \<or> (\<exists>r\<in>E. b_key (m_heap s r) = k)"
  shows "mem_look s1 k = None"
  using assms(3) shrink_look [OF assms(1,2), of k] by (auto simp: dat_key)

lemma mem_count_inv:
  assumes "mem_inv s"
  shows "mem_inv (snd (mem_count k w now s))"
proof -
  obtain xs where rep: "mem_rep s xs" and cap: "length xs \<le> m_max s" and pos: "0 < m_max s"
    using assms by (auto simp: mem_inv_def)
  have ins: "mem_inv (mem_insert k (now + w) s1)"
    if sh: "shrink s ys s1 ys1 E" and l: "length ys1 < m_max s" and none: "mem_look s1 k = None" for ys s1 ys1 E
  proof -
    have "mem_rep (mem_insert k (now + w) s1) (ys1 @ [m_next s1])"
      by (rule mem_insert_rep [OF shrink_rep [OF sh]]) (use none mem_look_None [OF shrink_rep [OF sh]] in simp)
    then show ?thesis using l pos sh unfolding mem_inv_def
      by (intro exI [of _ "ys1 @ [m_next s1]"]) (simp add: mem_insert_data shrink_def)
  qed
  from mem_count_outcome [OF rep cap pos, of k w now] show ?thesis
  proof cases
    case (live r)
    then show ?thesis using bump_rep [OF rep] cap pos by (auto simp: mem_inv_def)
  next
    case (renew r ys s1 ys1)
    have k: "b_key (m_heap s r) = k" using mem_rep_entry [OF renew(4)] renew(2) by blast
    have "length ys1 < m_max s"
      using shrink_size [OF renew(6,4)] mem_rep_size [OF renew(4)] mem_rep_size [OF rep] cap by simp
    with ins [OF renew(6)] shrink_no_key [OF renew(6,4), of k] k renew(1) show ?thesis by simp
  next
    case (fresh ys s1 ys1 E)
    have "mem_look s k = None" using fresh(2) by (simp add: mem_look_def)
    with ins [OF fresh(4,5)] shrink_no_key [OF fresh(4,3), of k] fresh(1) show ?thesis by simp
  qed (use assms in simp)
qed


section \<open>Pruning\<close>

definition prune_cond :: "nat option \<times> mem_store \<Rightarrow> bool" where
  "prune_cond = (\<lambda>(cur, s). cur \<noteq> None)"

definition prune_body :: "int \<Rightarrow> nat option \<times> mem_store \<Rightarrow> nat option \<times> mem_store" where
  "prune_body now = (\<lambda>(cur, s). case cur of None \<Rightarrow> (cur, s)
     | Some r \<Rightarrow> (b_newer (m_heap s r), if now \<ge> b_reset (m_heap s r) then mem_remove r s else s))"

lemma mem_prune_alt: "mem_prune now s = snd (while prune_cond (prune_body now) (m_oldest s, s))"
  by (simp add: mem_prune_def prune_cond_def prune_body_def)

text \<open>From any point of the walk, the loop ends and has removed the expired rest.\<close>

lemma prune_loop:
  assumes "shrink s xs s1 (ys @ zs) E"
  shows "shrink s xs (snd (while prune_cond (prune_body now) (hd_or zs None, s1)))
    (ys @ filter (\<lambda>r. \<not> expired now s r) zs) (E \<union> {r \<in> set zs. expired now s r})"
  using assms
proof (induction zs arbitrary: s1 ys E)
  case Nil
  then show ?case by (simp add: while_unfold prune_cond_def)
next
  case (Cons z zs)
  let ?s2 = "if now \<ge> b_reset (m_heap s1 z) then mem_remove z s1 else s1"
  have rep: "mem_rep s1 (ys @ z # zs)" by (rule shrink_rep [OF Cons.prems])
  have nx: "b_newer (m_heap s1 z) = hd_or zs None"
    using rep by (simp add: mem_rep_def dlinks_append)
  have d: "z \<notin> set ys" using mem_rep_distinct [OF rep] by simp
  have ez: "expired now s z \<longleftrightarrow> now \<ge> b_reset (m_heap s1 z)"
    using expired_shrink [OF Cons.prems, of now z] by (simp add: expired_def)
  have step: "while prune_cond (prune_body now) (hd_or (z # zs) None, s1) =
      while prune_cond (prune_body now) (hd_or zs None, ?s2)"
    by (subst while_unfold) (simp add: prune_cond_def prune_body_def nx)
  show ?case
  proof (cases "now \<ge> b_reset (m_heap s1 z)")
    case True
    have "shrink s xs (mem_remove z s1) (ys @ zs) (insert z E)"
      using shrink_remove [OF Cons.prems, of z] d by (simp add: remove1_append)
    from Cons.IH [OF this] show ?thesis unfolding step using True ez
      by (simp add: insert_commute Collect_disj_eq) (smt (verit, best) Collect_cong Un_def insert_def mem_Collect_eq)
  next
    case False
    have sh: "shrink s xs s1 ((ys @ [z]) @ zs) E" using Cons.prems by simp
    have "{r \<in> set (z # zs). expired now s r} = {r \<in> set zs. expired now s r}" using False ez by auto
    with Cons.IH [OF sh] show ?thesis unfolding step using False ez by simp
  qed
qed

lemma mem_prune_shrink:
  assumes "mem_rep s xs"
  shows "shrink s xs (mem_prune now s) (filter (\<lambda>r. \<not> expired now s r) xs) {r \<in> set xs. expired now s r}"
proof -
  have "shrink s xs s ([] @ xs) {}" using shrink_refl [OF assms] by simp
  from prune_loop [OF this, of now] show ?thesis
    using assms by (simp add: mem_prune_alt mem_rep_def)
qed


section \<open>The contract\<close>

definition counts_ok :: "mem_store \<Rightarrow> bool" where
  "counts_ok s \<longleftrightarrow> (\<forall>k c. mem_look s k = Some c \<longrightarrow> counter_ok (count c) (resetAt c))"

lemma shrink_look_mono: "shrink s xs s1 xs1 E \<Longrightarrow> mem_rep s xs \<Longrightarrow> mem_look s1 j = Some c \<Longrightarrow> mem_look s j = Some c"
  by (simp add: shrink_look split: if_splits)

text \<open>What a hit does to the map of counters: the caller's own entry is the reply, any other
  entry it leaves was there before.\<close>

lemma mem_count_look:
  assumes "mem_inv s"
  shows "fst (mem_count k w now s) = Inr c \<Longrightarrow> mem_look (snd (mem_count k w now s)) k = Some c"
    and "j \<noteq> k \<Longrightarrow> mem_look (snd (mem_count k w now s)) j = Some d \<Longrightarrow> mem_look s j = Some d"
proof -
  obtain xs where rep: "mem_rep s xs" and cap: "length xs \<le> m_max s" and pos: "0 < m_max s"
    using assms by (auto simp: mem_inv_def)
  let ?s = "snd (mem_count k w now s)"
  have "(fst (mem_count k w now s) = Inr c \<longrightarrow> mem_look ?s k = Some c) \<and>
      (j \<noteq> k \<longrightarrow> mem_look ?s j = Some d \<longrightarrow> mem_look s j = Some d)"
    using mem_count_outcome [OF rep cap pos, of k w now]
  proof cases
    case (live r)
    then show ?thesis by (auto simp: bump_look [OF rep live(2)])
  next
    case (renew r ys s1 ys1)
    have k: "b_key (m_heap s r) = k" using mem_rep_entry [OF renew(4)] renew(2) by blast
    have "mem_look s1 k = None" using shrink_no_key [OF renew(6,4), of k] k by simp
    then show ?thesis using renew(1) shrink_look_mono [OF renew(6,4)]
      by (simp add: mem_insert_look [OF shrink_rep [OF renew(6)]])
  next
    case (fresh ys s1 ys1 E)
    have "mem_look s k = None" using fresh(2) by (simp add: mem_look_def)
    then have "mem_look s1 k = None" using shrink_no_key [OF fresh(4,3), of k] by simp
    then show ?thesis using fresh(1) shrink_look_mono [OF fresh(4,3)]
      by (simp add: mem_insert_look [OF shrink_rep [OF fresh(4)]])
  qed simp
  then show "fst (mem_count k w now s) = Inr c \<Longrightarrow> mem_look ?s k = Some c"
    and "j \<noteq> k \<Longrightarrow> mem_look ?s j = Some d \<Longrightarrow> mem_look s j = Some d" by auto
qed

lemma mem_count_live:
  "mem_look s k = Some c \<Longrightarrow> now < resetAt c \<Longrightarrow> counter_ok (count c + 1) (resetAt c) \<Longrightarrow>
   fst (mem_count k w now s) = Inr (c\<lparr>count := count c + 1\<rparr>)"
  by (auto simp: mem_look_def mem_count_def split: option.splits)

lemma mem_count_fresh:
  "(\<And>c. mem_look s k = Some c \<Longrightarrow> resetAt c \<le> now) \<Longrightarrow> fst (mem_count k w now s) = Inr \<lparr>count = 1, resetAt = now + w\<rparr>"
  by (auto simp: mem_look_def mem_count_def split: option.splits)

lemma mem_hit_admissible:
  "admissible k w t \<Longrightarrow> mem_hit (JStr k) (NInt w) default_options t t s = mem_count k w t s"
  by (auto simp: mem_hit_def admissible_def default_options_def assertWindow_def rateLimitTimeout_def
      assertRateLimitNotAborted_def safe_int_def MAX_SAFE_def)

lemma admissible_reset: "admissible k w t \<Longrightarrow> counter_ok 1 (t + w)"
  by (auto simp: admissible_def counter_ok_def safe_int_def MAX_SAFE_def MAX_ALARM_def)

lemma counter_ok_Suc: "counter_ok c r \<Longrightarrow> c < MAX_SAFE \<Longrightarrow> counter_ok (c + 1) r"
  by (auto simp: counter_ok_def safe_int_def)

text \<open>The reply of a hit is either the caller's live counter plus one or a new window.\<close>

lemma mem_count_reply:
  "fst (mem_count k w now s) = Inr c \<Longrightarrow> counter_ok 1 (now + w) \<Longrightarrow> counter_ok (count c) (resetAt c)"
  by (auto simp: mem_count_def split: option.splits if_splits)

lemma mem_count_counts_ok:
  assumes "mem_inv s" and ok: "counts_ok s" and w: "counter_ok 1 (now + w)"
  shows "counts_ok (snd (mem_count k w now s))"
  unfolding counts_ok_def
proof (intro allI impI)
  fix j d assume l: "mem_look (snd (mem_count k w now s)) j = Some d"
  show "counter_ok (count d) (resetAt d)"
  proof (cases "fst (mem_count k w now s)")
    case (Inl e)
    then have "snd (mem_count k w now s) = s"
      by (auto simp: mem_count_def split: option.splits if_splits)
    then show ?thesis using l ok by (auto simp: counts_ok_def)
  next
    case (Inr c)
    show ?thesis
    proof (cases "j = k")
      case True
      then show ?thesis using mem_count_look(1) [OF assms(1) Inr] mem_count_reply [OF Inr w] l by simp
    next
      case False
      then show ?thesis using mem_count_look(2) [OF assms(1) False l] ok by (auto simp: counts_ok_def)
    qed
  qed
qed

interpretation mem: fixed_window
  "\<lambda>s k w t. mem_hit (JStr k) (NInt w) default_options t t s" mem_look "\<lambda>s. mem_inv s \<and> counts_ok s" admissible
proof unfold_locales
  fix s k w t assume i: "mem_inv s \<and> counts_ok s" and a: "admissible k w t"
  let ?h = "mem_hit (JStr k) (NInt w) default_options t t s"
  note h = mem_hit_admissible [OF a, of s]
  show "mem_inv (snd ?h) \<and> counts_ok (snd ?h)"
    unfolding h using i mem_count_inv mem_count_counts_ok admissible_reset [OF a] by blast
  show "fst ?h = Inr (c\<lparr>count := count c + 1\<rparr>) \<and> mem_look (snd ?h) k = Some (c\<lparr>count := count c + 1\<rparr>)"
    if l: "mem_look s k = Some c" and t: "t < resetAt c" and m: "count c < MAX_SAFE" for c
  proof -
    have "counter_ok (count c + 1) (resetAt c)" using i l counter_ok_Suc m by (auto simp: counts_ok_def)
    from mem_count_live [OF l t this] show ?thesis unfolding h using mem_count_look(1) i by blast
  qed
  show "fst ?h = Inr \<lparr>count = 1, resetAt = t + w\<rparr> \<and> mem_look (snd ?h) k = Some \<lparr>count = 1, resetAt = t + w\<rparr>"
    if "\<And>c. mem_look s k = Some c \<Longrightarrow> resetAt c \<le> t"
    unfolding h using mem_count_fresh [OF that] mem_count_look(1) i by blast
  show "mem_look s j = Some c" if "j \<noteq> k" and "mem_look (snd ?h) j = Some c" for j c
    using that mem_count_look(2) i unfolding h by blast
qed


section \<open>Properties\<close>

lemma mem_create_inv: "mem_create n = Inr s \<Longrightarrow> mem_inv s \<and> counts_ok s"
proof -
  assume c: "mem_create n = Inr s"
  then have e: "m_entries s = []" and m: "0 < m_max s" and o: "m_oldest s = None" "m_newest s = None" "m_sweep s = None"
    by (auto simp: mem_create_def split: jnum.splits if_splits)
  have "mem_rep s []" using e o by (simp add: mem_rep_def)
  with m have "mem_inv s" unfolding mem_inv_def by (intro exI [of _ "[]"]) simp
  then show ?thesis using e by (simp add: counts_ok_def mem_look_def)
qed

lemma mem_hit_snd: "snd (mem_hit key win opts t0 now s) = s \<or>
    (\<exists>k w. snd (mem_hit key win opts t0 now s) = snd (mem_count k w now s))"
  by (auto simp: mem_hit_def Let_def split: sum.splits)

text \<open>C3. Every hit, accepted or rejected and whatever the key, the window, the options and the
  clock, keeps the memory store well formed: both pointer chains, the map and the sweep
  pointer describe one list of distinct callers, and the store never holds more buckets than
  its capacity.\<close>

theorem mem_hit_invariant:
  assumes "mem_inv s"
  shows "mem_inv (snd (mem_hit key win opts t0 now s)) \<and>
    length (m_entries (snd (mem_hit key win opts t0 now s))) \<le> m_max (snd (mem_hit key win opts t0 now s))"
proof -
  have "mem_inv (snd (mem_hit key win opts t0 now s))"
    using mem_hit_snd [of key win opts t0 now s] mem_count_inv [OF assms] assms by auto
  then show ?thesis by (auto simp: mem_inv_def mem_rep_size)
qed

definition store1 :: mem_store where
  "store1 = \<lparr>m_heap = (\<lambda>_. new_bucket [] 0 None), m_next = 0, m_entries = [], m_max = 1,
     m_oldest = None, m_newest = None, m_sweep = None\<rparr>"

lemma store1_create: "mem_create (NInt 1) = Inr store1"
  by (simp add: mem_create_def store1_def safe_int_def MAX_SAFE_def)

theorem mem_hit_invariant_witness:
  "length (m_entries (snd (mem_hit (JStr ''a'') (NInt 10) default_options 5 5 store1))) \<le> 1 \<and> mem_inv store1"
proof -
  have i: "mem_inv store1" using mem_create_inv [OF store1_create] by simp
  have "m_max (snd (mem_hit (JStr ''a'') (NInt 10) default_options 5 5 store1)) = 1" by code_simp
  with mem_hit_invariant [OF i, of "JStr ''a''" "NInt 10" default_options 5 5] i show ?thesis by simp
qed

text \<open>\<open>prune\<close> terminates and removes exactly the callers whose window is over; every other
  counter is untouched and the store stays well formed.\<close>

theorem mem_prune_exact:
  assumes "mem_inv s"
  shows "mem_inv (mem_prune now s) \<and> mem_look (mem_prune now s) k =
    (case mem_look s k of None \<Rightarrow> None | Some c \<Rightarrow> if resetAt c \<le> now then None else Some c)"
proof -
  obtain xs where rep: "mem_rep s xs" and cap: "length xs \<le> m_max s" and pos: "0 < m_max s"
    using assms by (auto simp: mem_inv_def)
  note sh = mem_prune_shrink [OF rep, of now]
  let ?E = "{r \<in> set xs. expired now s r}"
  have "length (filter (\<lambda>r. \<not> expired now s r) xs) \<le> m_max s"
    using cap length_filter_le [of "\<lambda>r. \<not> expired now s r" xs] by linarith
  then have "mem_inv (mem_prune now s)"
    using sh pos unfolding mem_inv_def shrink_def by auto
  moreover have "k \<in> (\<lambda>r. fst (dat s r)) ` ?E \<longleftrightarrow> (\<exists>c. mem_look s k = Some c \<and> resetAt c \<le> now)"
  proof
    assume "k \<in> (\<lambda>r. fst (dat s r)) ` ?E"
    then obtain r where "r \<in> set xs" "b_reset (m_heap s r) \<le> now" "b_key (m_heap s r) = k"
      by (auto simp: expired_def dat_def)
    then show "\<exists>c. mem_look s k = Some c \<and> resetAt c \<le> now"
      by (intro exI [of _ "\<lparr>count = b_count (m_heap s r), resetAt = b_reset (m_heap s r)\<rparr>"])
        (auto simp: mem_look_Some [OF rep] dat_def)
  next
    assume "\<exists>c. mem_look s k = Some c \<and> resetAt c \<le> now"
    then show "k \<in> (\<lambda>r. fst (dat s r)) ` ?E"
      by (auto simp: mem_look_Some [OF rep] dat_def expired_def image_iff)
  qed
  ultimately show ?thesis using shrink_look [OF sh rep, of k] by (auto split: option.splits)
qed

theorem mem_prune_exact_witness:
  "mem_look (mem_prune 20 (snd (mem_count ''a'' 10 5 store1))) ''a'' = None \<and>
   mem_look (snd (mem_count ''a'' 10 5 store1)) ''a'' = Some \<lparr>count = 1, resetAt = 15\<rparr>"
proof -
  have i: "mem_inv (snd (mem_count ''a'' 10 5 store1))"
    using mem_count_inv mem_create_inv [OF store1_create] by blast
  have l: "mem_look (snd (mem_count ''a'' 10 5 store1)) ''a'' = Some \<lparr>count = 1, resetAt = 15\<rparr>" by code_simp
  show ?thesis using mem_prune_exact [OF i, of 20 "''a''"] l by simp
qed


lemma admissible_a: "admissible ''a'' 10 5" and admissible_b: "admissible ''b'' 10 6"
  by code_simp+


text \<open>Quota: a burst on one key of the memory store that starts a window is counted one, two,
  three and so on until the window ends, so exactly the first \<open>max\<close> requests of the window
  are within a limit of \<open>max\<close>.\<close>

theorem mem_burst_exact:
  assumes "mem_inv s" and "counts_ok s" and "admissible k w t" and "\<And>c. mem_look s k = Some c \<Longrightarrow> resetAt c \<le> t"
    and "\<And>u. u \<in> set ts \<Longrightarrow> admissible k w u \<and> u < t + w" and "1 + int (length ts) \<le> MAX_SAFE"
  shows "fst (mem.run w s (map (\<lambda>t. (k, t)) (t # ts))) =
    map (\<lambda>i. Inr \<lparr>count = 1 + int i, resetAt = t + w\<rparr>) [0..<Suc (length ts)]"
  using mem.burst_fresh assms by blast

lemma admissible_a_later: "u \<in> {6, 7} \<Longrightarrow> admissible ''a'' 10 u"
proof -
  have "admissible ''a'' 10 6 \<and> admissible ''a'' 10 7" by code_simp
  then show "u \<in> {6, 7} \<Longrightarrow> admissible ''a'' 10 u" by auto
qed

theorem mem_burst_exact_witness:
  "fst (mem.run 10 store1 [(''a'', 5), (''a'', 6), (''a'', 7)]) =
     [Inr \<lparr>count = 1, resetAt = 15\<rparr>, Inr \<lparr>count = 2, resetAt = 15\<rparr>, Inr \<lparr>count = 3, resetAt = 15\<rparr>]"
proof -
  have i: "mem_inv store1" "counts_ok store1" using mem_create_inv [OF store1_create] by auto
  have n: "mem_look store1 ''a'' = None" by code_simp
  have "fst (mem.run 10 store1 (map (\<lambda>t. (''a'', t)) (5 # [6, 7]))) =
    map (\<lambda>i. Inr \<lparr>count = 1 + int i, resetAt = 5 + 10\<rparr>) [0..<Suc (length [6 :: int, 7])]"
    by (rule mem_burst_exact [OF i admissible_a]) (use n admissible_a_later in \<open>auto simp: MAX_SAFE_def\<close>)
  then show ?thesis by (simp add: upt_conv_Cons numeral_2_eq_2)
qed

end
