(* ===== verification/Remote_Stores.thy ===== *)
theory Remote_Stores
  imports Rate_Base
begin

text \<open>
  The shared rate-limit stores of \<open>core/src/shared/rate-limit.ts\<close>: the Durable Object counter
  with its alarm, the store that routes each key to its own object, the KV store (read, then
  write) and the Redis store with its atomic script. Durable Object storage is a record of the
  one value and the one alarm the object uses; a transaction that throws leaves it unchanged.
\<close>

section \<open>The Durable Object\<close>

(* models packages/core/src/shared/rate-limit.ts:329-336 RateLimitDurableObject *)
record do_state =
  d_counter :: "jsv option"
  d_alarm :: "int option"

definition do_empty :: do_state where
  "do_empty = \<lparr>d_counter = None, d_alarm = None\<rparr>"

datatype do_reply = BadWindow | Throws rl_error | Replies counter

(* models packages/core/src/shared/rate-limit.ts:338-360 fetch *)
definition do_fetch :: "jnum option \<Rightarrow> int \<Rightarrow> int \<Rightarrow> do_state \<Rightarrow> do_reply \<times> do_state" where
  "do_fetch param t0 now s =
     (let windowMs = (case param of None \<Rightarrow> NInt 60000 | Some w \<Rightarrow> w) in
      if \<not> validWindow windowMs t0 then (BadWindow, s)
      else
        (case (case d_counter s of None \<Rightarrow> Inr None | Some v \<Rightarrow> bindr (readCounter v) (\<lambda>c. Inr (Some c))) of
           Inl e \<Rightarrow> (Throws e, s)
         | Inr previous \<Rightarrow>
            (case assertWindow windowMs now of
               Inl e \<Rightarrow> (Throws e, s)
             | Inr w \<Rightarrow>
                (case previous of
                   Some p \<Rightarrow>
                     if now < resetAt p then
                       (case readCounter (counter_obj (count p + 1) (resetAt p)) of
                          Inl e \<Rightarrow> (Throws e, s)
                        | Inr next \<Rightarrow> (Replies next, s\<lparr>d_counter := Some (counter_obj (count next) (resetAt next))\<rparr>))
                     else (Replies \<lparr>count = 1, resetAt = now + w\<rparr>,
                           s\<lparr>d_counter := Some (counter_obj 1 (now + w)), d_alarm := Some (now + w)\<rparr>)
                 | None \<Rightarrow> (Replies \<lparr>count = 1, resetAt = now + w\<rparr>,
                           s\<lparr>d_counter := Some (counter_obj 1 (now + w)), d_alarm := Some (now + w)\<rparr>)))))"

(* models packages/core/src/shared/rate-limit.ts:362-374 alarm *)
definition do_alarm :: "int \<Rightarrow> do_state \<Rightarrow> (rl_error + unit) \<times> do_state" where
  "do_alarm now s =
     (case (case d_counter s of None \<Rightarrow> Inr None | Some v \<Rightarrow> bindr (readCounter v) (\<lambda>c. Inr (Some c))) of
        Inl e \<Rightarrow> (Inl e, s)
      | Inr None \<Rightarrow> (Inr (), s\<lparr>d_counter := None, d_alarm := None\<rparr>)
      | Inr (Some c) \<Rightarrow>
          if now \<ge> resetAt c then (Inr (), s\<lparr>d_counter := None, d_alarm := None\<rparr>)
          else (Inr (), s\<lparr>d_alarm := Some (resetAt c)\<rparr>))"

text \<open>
  The life of an object: a request arrives (at a positive clock reading), or the platform fires the alarm. Firing clears the
  pending alarm before the handler runs, and may come late or, after a retry, early.
\<close>

inductive do_step :: "do_state \<Rightarrow> do_state \<Rightarrow> bool" where
  request: "0 < now \<Longrightarrow> do_step s (snd (do_fetch param t0 now s))"
| fire: "d_alarm s \<noteq> None \<Longrightarrow> do_step s (snd (do_alarm now (s\<lparr>d_alarm := None\<rparr>)))"

inductive do_reachable :: "do_state \<Rightarrow> bool" where
  do_init: "do_reachable do_empty"
| do_next: "do_reachable s \<Longrightarrow> do_step s s' \<Longrightarrow> do_reachable s'"

inductive_cases do_step_cases: "do_step s s'"

text \<open>The stored counter is valid and an alarm waits at its deadline.\<close>

definition do_inv :: "do_state \<Rightarrow> bool" where
  "do_inv s \<longleftrightarrow> (case d_counter s of None \<Rightarrow> d_alarm s = None
     | Some v \<Rightarrow> (\<exists>c r. v = counter_obj c r \<and> counter_ok c r \<and> d_alarm s = Some r))"

definition do_look :: "do_state \<Rightarrow> counter option" where
  "do_look s = (case d_counter s of None \<Rightarrow> None
     | Some v \<Rightarrow> (case readCounter v of Inl e \<Rightarrow> None | Inr c \<Rightarrow> Some c))"

lemma do_inv_cases:
  assumes "do_inv s"
  obtains (none) "d_counter s = None" "d_alarm s = None" "do_look s = None"
  | (some) c r where "d_counter s = Some (counter_obj c r)" "counter_ok c r" "d_alarm s = Some r"
      "do_look s = Some \<lparr>count = c, resetAt = r\<rparr>"
  using assms by (cases "d_counter s") (auto simp: do_inv_def do_look_def)

lemma validWindow_reset: "validWindow (NInt w) now \<Longrightarrow> now + w > 0 \<Longrightarrow> counter_ok 1 (now + w)"
  by (auto simp: counter_ok_def safe_int_def MAX_SAFE_def MAX_ALARM_def)

lemma assertWindow_Inr: "assertWindow x now = Inr w \<longleftrightarrow> x = NInt w \<and> validWindow (NInt w) now"
  by (cases x) (auto simp: assertWindow_def)

lemma do_fetch_live:
  assumes "validWindow (NInt w) now" and "d_counter s = Some (counter_obj c r)" and "counter_ok c r"
    and "now < r" and "counter_ok (c + 1) r"
  shows "do_fetch (Some (NInt w)) now now s =
    (Replies \<lparr>count = c + 1, resetAt = r\<rparr>, s\<lparr>d_counter := Some (counter_obj (c + 1) r)\<rparr>)"
  using assms by (simp add: do_fetch_def assertWindow_def)

lemma do_fetch_fresh:
  assumes "validWindow (NInt w) now" and "do_inv s" and "\<And>c. do_look s = Some c \<Longrightarrow> resetAt c \<le> now"
  shows "do_fetch (Some (NInt w)) now now s = (Replies \<lparr>count = 1, resetAt = now + w\<rparr>,
    s\<lparr>d_counter := Some (counter_obj 1 (now + w)), d_alarm := Some (now + w)\<rparr>)"
  using assms(2)
proof (cases rule: do_inv_cases)
  case none
  then show ?thesis using assms(1) by (simp add: do_fetch_def assertWindow_def)
next
  case (some c r)
  then have "r \<le> now" using assms(3) [of "\<lparr>count = c, resetAt = r\<rparr>"] by simp
  then show ?thesis using assms(1) some by (simp add: do_fetch_def assertWindow_def)
qed

text \<open>A request keeps the invariant when the clock is positive.\<close>

lemma do_fetch_inv:
  assumes "do_inv s" and "0 < now"
  shows "do_inv (snd (do_fetch param t0 now s))"
proof -
  let ?w = "case param of None \<Rightarrow> NInt 60000 | Some w \<Rightarrow> w"
  have fresh: "do_inv (s\<lparr>d_counter := Some (counter_obj 1 (now + w)), d_alarm := Some (now + w)\<rparr>)"
    if "assertWindow ?w now = Inr w" for w
    using that assms(2) validWindow_reset [of w now] by (auto simp: do_inv_def assertWindow_Inr)
  from assms(1) show ?thesis
  proof (cases rule: do_inv_cases)
    case none
    then show ?thesis using assms(1) fresh by (auto simp: do_fetch_def Let_def split: sum.splits)
  next
    case (some c r)
    have bump: "counter_ok (c + 1) r \<Longrightarrow> do_inv (s\<lparr>d_counter := Some (counter_obj (c + 1) r)\<rparr>)"
      using some by (auto simp: do_inv_def)
    show ?thesis using some assms(1) fresh bump by (auto simp: do_fetch_def Let_def split: sum.splits)
  qed
qed

lemma do_alarm_inv:
  assumes "do_inv s"
  shows "do_inv (snd (do_alarm now (s\<lparr>d_alarm := None\<rparr>)))"
  using assms
proof (cases rule: do_inv_cases)
  case (some c r)
  then show ?thesis by (auto simp: do_alarm_def do_inv_def)
qed (simp add: do_alarm_def do_inv_def)

lemma do_alarm_look:
  assumes "do_inv s"
  shows "do_look (snd (do_alarm now (s\<lparr>d_alarm := None\<rparr>))) =
    (case do_look s of None \<Rightarrow> None | Some c \<Rightarrow> if resetAt c \<le> now then None else Some c)"
  using assms
proof (cases rule: do_inv_cases)
  case (some c r)
  then show ?thesis by (auto simp: do_alarm_def do_look_def)
qed (simp add: do_alarm_def do_look_def)


section \<open>The store over Durable Objects\<close>

text \<open>\<open>idFromName(key)\<close> gives each key its own object. A non-success HTTP status becomes an
  error; the counter's JSON text reads back as the counter.\<close>

(* models packages/core/src/shared/rate-limit.ts:403-412 hit *)
definition dos_hit :: "jsv \<Rightarrow> jnum \<Rightarrow> hit_options \<Rightarrow> op_event \<Rightarrow> int \<Rightarrow> int \<Rightarrow> (string \<Rightarrow> do_state)
    \<Rightarrow> (rl_error + counter) \<times> (string \<Rightarrow> do_state)" where
  "dos_hit key window opts ev t0 now s =
     (case assertStorageRequirements (storageCapabilities RateLimitKind ''durable-object'') (h_requires opts) of
        Inl e \<Rightarrow> (Inl (ECaps e), s)
      | Inr _ \<Rightarrow>
        (case bindr (assertRateLimitKey key) (\<lambda>k. bindr (assertWindow window t0) (\<lambda>w. Inr (k, w))) of
           Inl e \<Rightarrow> (Inl e, s)
         | Inr (k, w) \<Rightarrow>
            runRateLimitOperation opts ev
              (\<lambda>s. let (r, d) = do_fetch (Some (NInt w)) now now (s k) in
                 ((case r of BadWindow \<Rightarrow> Inl (EConfig ''HTTP 400'') | Throws e \<Rightarrow> Inl (EConfig ''HTTP 500'')
                   | Replies c \<Rightarrow> readCounter (counter_obj (count c) (resetAt c))), s(k := d))) s))"

definition dos_look :: "(string \<Rightarrow> do_state) \<Rightarrow> string \<Rightarrow> counter option" where
  "dos_look s k = do_look (s k)"

definition dos_inv :: "(string \<Rightarrow> do_state) \<Rightarrow> bool" where
  "dos_inv s \<longleftrightarrow> (\<forall>k. do_inv (s k))"

lemma dos_hit_admissible:
  "admissible k w t \<Longrightarrow> dos_hit (JStr k) (NInt w) default_options Settles t t s =
    (let (r, d) = do_fetch (Some (NInt w)) t t (s k) in
     ((case r of BadWindow \<Rightarrow> Inl (EConfig ''HTTP 400'') | Throws e \<Rightarrow> Inl (EConfig ''HTTP 500'')
       | Replies c \<Rightarrow> readCounter (counter_obj (count c) (resetAt c))), s(k := d)))"
  by (simp add: dos_hit_def admissible_def assertWindow_def default_requires)

interpretation dos: exact_window "\<lambda>s k w t. dos_hit (JStr k) (NInt w) default_options Settles t t s" dos_look dos_inv admissible
proof unfold_locales
  fix s k w t assume i: "dos_inv s" and a: "admissible k w t"
  let ?h = "dos_hit (JStr k) (NInt w) default_options Settles t t s"
  note h = dos_hit_admissible [OF a, of s]
  have ik: "do_inv (s k)" and vw: "validWindow (NInt w) t" and t: "0 < t"
    using i a by (auto simp: dos_inv_def admissible_def)
  have ok1: "counter_ok 1 (t + w)" using validWindow_reset [OF vw] vw t by simp
  show "dos_inv (snd ?h)"
    using do_fetch_inv [OF ik t] i unfolding h by (simp add: dos_inv_def split_beta)
  show "fst ?h = Inr (c\<lparr>count := count c + 1\<rparr>) \<and> dos_look (snd ?h) k = Some (c\<lparr>count := count c + 1\<rparr>)"
    if l: "dos_look s k = Some c" and lt: "t < resetAt c" and m: "count c < MAX_SAFE" for c
    using ik
  proof (cases rule: do_inv_cases)
    case none
    then show ?thesis using l by (simp add: dos_look_def)
  next
    case (some n r)
    then have c: "c = \<lparr>count = n, resetAt = r\<rparr>" using l by (simp add: dos_look_def)
    then have ok: "counter_ok (n + 1) r" using some(2) m by (auto simp: counter_ok_def safe_int_def)
    have "do_fetch (Some (NInt w)) t t (s k) =
        (Replies \<lparr>count = n + 1, resetAt = r\<rparr>, (s k)\<lparr>d_counter := Some (counter_obj (n + 1) r)\<rparr>)"
      by (rule do_fetch_live [OF vw some(1,2)]) (use lt c ok in auto)
    then show ?thesis unfolding h using c ok by (simp add: dos_look_def do_look_def)
  qed
  show "fst ?h = Inr \<lparr>count = 1, resetAt = t + w\<rparr> \<and> dos_look (snd ?h) k = Some \<lparr>count = 1, resetAt = t + w\<rparr>"
    if "\<And>c. dos_look s k = Some c \<Longrightarrow> resetAt c \<le> t"
    using do_fetch_fresh [OF vw ik] that ok1 unfolding h by (simp add: dos_look_def do_look_def)
  show "dos_look s j = Some c" if "j \<noteq> k" and "dos_look (snd ?h) j = Some c" for j c
    using that unfolding h by (simp add: dos_look_def split_beta)
  show "dos_look (snd ?h) j = dos_look s j" if "j \<noteq> k" for j
    using that unfolding h by (simp add: dos_look_def split_beta)
qed


section \<open>The KV store\<close>

text \<open>
  An entry keeps what its text parses to (\<open>None\<close> when it is not JSON), the text's byte length
  and the time the namespace drops it. Reading after that time finds nothing.
\<close>

record kv_entry =
  e_parsed :: "jsv option"
  e_bytes :: nat
  e_expires :: int

type_synonym kv_state = "string \<Rightarrow> kv_entry option"

definition kv_get :: "kv_state \<Rightarrow> string \<Rightarrow> int \<Rightarrow> kv_entry option" where
  "kv_get s k now = (case s k of None \<Rightarrow> None | Some e \<Rightarrow> if now < e_expires e then Some e else None)"

definition counter_text :: "counter \<Rightarrow> string" where
  "counter_text c = CHR 0x7B # json_string ''count'' @ '':'' @ int_text (count c) @ '','' @
     json_string ''resetAt'' @ '':'' @ int_text (resetAt c) @ [CHR 0x7D]"

(* models packages/core/src/shared/rate-limit.ts:280-290 read *)
definition kv_read :: "kv_state \<Rightarrow> string \<Rightarrow> int \<Rightarrow> rl_error + counter option" where
  "kv_read s k now = (case kv_get s k now of
     None \<Rightarrow> Inr None
   | Some e \<Rightarrow> if e_bytes e > 8192 then Inl EKv
       else (case e_parsed e of None \<Rightarrow> Inl EKv
         | Some v \<Rightarrow> (case readCounter v of Inl _ \<Rightarrow> Inl EKv | Inr c \<Rightarrow> Inr (Some c))))"

text \<open>The part of \<open>hit\<close> between the read and the write, and the write.\<close>

definition kv_next :: "counter option \<Rightarrow> jnum \<Rightarrow> int \<Rightarrow> rl_error + counter" where
  "kv_next entry window now = bindr (assertWindow window now) (\<lambda>w.
     readCounter (case entry of
       Some c \<Rightarrow> if now < resetAt c then counter_obj (count c + 1) (resetAt c) else counter_obj 1 (now + w)
     | None \<Rightarrow> counter_obj 1 (now + w)))"

definition kv_ttl :: "counter \<Rightarrow> int \<Rightarrow> int" where
  "kv_ttl c now = max 60 (- ((now - resetAt c) div 1000))"

definition kv_put :: "kv_state \<Rightarrow> string \<Rightarrow> counter \<Rightarrow> int \<Rightarrow> kv_state" where
  "kv_put s k c now = s(k \<mapsto> \<lparr>e_parsed = Some (counter_obj (count c) (resetAt c)),
     e_bytes = utf8_length (counter_text c), e_expires = now + kv_ttl c now * 1000\<rparr>)"

text \<open>\<open>cut1\<close> and \<open>cut2\<close>: the signal is aborted after the read, after the write.\<close>

(* models packages/core/src/shared/rate-limit.ts:260-278 hit *)
definition kv_hit :: "string \<Rightarrow> jsv \<Rightarrow> jnum \<Rightarrow> hit_options \<Rightarrow> op_event \<Rightarrow> bool \<Rightarrow> bool \<Rightarrow> int \<Rightarrow> int \<Rightarrow> kv_state
    \<Rightarrow> (rl_error + counter) \<times> kv_state" where
  "kv_hit namespace key window opts ev cut1 cut2 t0 now s =
     (case assertStorageRequirements (storageCapabilities RateLimitKind ''kv'') (h_requires opts) of
        Inl e \<Rightarrow> (Inl (ECaps e), s)
      | Inr _ \<Rightarrow>
        (case bindr (assertRateLimitKey key) (\<lambda>k. bindr (assertWindow window t0) (\<lambda>w. Inr k)) of
           Inl e \<Rightarrow> (Inl e, s)
         | Inr k \<Rightarrow> runRateLimitOperation opts ev
             (\<lambda>s. case bindr (rateLimitStorageKey namespace k) (\<lambda>kvKey.
                    bindr (kv_read s kvKey now) (\<lambda>entry.
                    bindr (assertRateLimitNotAborted cut1) (\<lambda>_.
                    bindr (kv_next entry window now) (\<lambda>next. Inr (kvKey, next))))) of
                  Inl e \<Rightarrow> (Inl e, s)
                | Inr (kvKey, next) \<Rightarrow>
                   (bindr (assertRateLimitNotAborted cut2) (\<lambda>_. Inr next), kv_put s kvKey next now)) s))"

text \<open>The counter a key's entry holds, and the invariant of entries the store wrote itself.\<close>

definition kv_look :: "string \<Rightarrow> kv_state \<Rightarrow> string \<Rightarrow> counter option" where
  "kv_look namespace s k = (case rateLimitStorageKey namespace k of Inl _ \<Rightarrow> None
     | Inr f \<Rightarrow> (case s f of None \<Rightarrow> None
         | Some e \<Rightarrow> (case e_parsed e of None \<Rightarrow> None
             | Some v \<Rightarrow> (case readCounter v of Inl _ \<Rightarrow> None | Inr c \<Rightarrow> Some c))))"

definition kv_entry_ok :: "kv_entry \<Rightarrow> bool" where
  "kv_entry_ok e \<longleftrightarrow> e_bytes e \<le> 8192 \<and>
     (\<exists>c r. e_parsed e = Some (counter_obj c r) \<and> counter_ok c r \<and> r \<le> e_expires e)"

definition kv_inv :: "kv_state \<Rightarrow> bool" where
  "kv_inv s \<longleftrightarrow> (\<forall>f e. s f = Some e \<longrightarrow> kv_entry_ok e)"

definition kv_admissible :: "string \<Rightarrow> string \<Rightarrow> int \<Rightarrow> int \<Rightarrow> bool" where
  "kv_admissible namespace k w t \<longleftrightarrow> admissible k w t \<and>
     (case rateLimitStorageKey namespace k of Inl _ \<Rightarrow> False | Inr _ \<Rightarrow> True)"

lemma kv_admissible_iff: "kv_admissible n k w t \<longleftrightarrow> admissible k w t \<and> (\<exists>f. rateLimitStorageKey n k = Inr f)"
  by (simp add: kv_admissible_def split: sum.splits)

lemma assertRateLimitKey_Inr: "assertRateLimitKey (JStr k) = Inr j \<Longrightarrow> j = k"
  by (auto simp: assertRateLimitKey_def split: if_splits)

lemma kv_ttl_covers: "resetAt c \<le> now + kv_ttl c now * 1000"
proof -
  have "(now - resetAt c) div 1000 * 1000 \<le> now - resetAt c" by simp
  then have "resetAt c - now \<le> - ((now - resetAt c) div 1000) * 1000" by linarith
  also have "\<dots> \<le> kv_ttl c now * 1000" unfolding kv_ttl_def by (intro mult_right_mono max.cobounded2) simp
  finally show ?thesis by simp
qed

lemma nat_digits_length: "0 < d \<Longrightarrow> n < 10 ^ d \<Longrightarrow> length (nat_digits n) \<le> d"
proof (induction d arbitrary: n)
  case (Suc d)
  show ?case
  proof (cases "n < 10")
    case True
    then show ?thesis by (subst nat_digits.simps) simp
  next
    case False
    then have "d \<noteq> 0" using Suc.prems(2) by (cases d) simp_all
    moreover have "n div 10 < 10 ^ d" using Suc.prems(2) by (intro less_mult_imp_div_less) simp
    ultimately have "length (nat_digits (n div 10)) \<le> d" using Suc.IH by simp
    then show ?thesis using False by (subst nat_digits.simps) simp
  qed
qed simp

lemma int_text_length: "safe_int i \<Longrightarrow> length (int_text i) \<le> 17"
proof -
  assume s: "safe_int i"
  have "nat i < 10 ^ 16" "nat (- i) < 10 ^ 16"
    using s by (simp_all add: safe_int_def MAX_SAFE_def nat_less_iff)
  then have "length (nat_digits (nat i)) \<le> 16" "length (nat_digits (nat (- i))) \<le> 16"
    by (auto intro: nat_digits_length)
  then show ?thesis by (simp add: int_text_def)
qed

lemma utf8_length_le: "utf8_length s \<le> 2 * length s"
  by (induction s) (auto simp: utf8_length_def)

lemma counter_text_bytes: "counter_ok (count c) (resetAt c) \<Longrightarrow> utf8_length (counter_text c) \<le> 8192"
proof -
  assume ok: "counter_ok (count c) (resetAt c)"
  have "length (int_text (count c)) \<le> 17" "length (int_text (resetAt c)) \<le> 17"
    using ok int_text_length by (auto simp: counter_ok_def)
  moreover have "length (json_string ''count'') = 7" "length (json_string ''resetAt'') = 9" by code_simp+
  ultimately have "length (counter_text c) \<le> 100" by (simp add: counter_text_def)
  then show ?thesis using utf8_length_le [of "counter_text c"] by simp
qed

lemma kv_put_inv: "kv_inv s \<Longrightarrow> counter_ok (count c) (resetAt c) \<Longrightarrow> kv_inv (kv_put s f c now)"
  using kv_ttl_covers [of c now] counter_text_bytes [of c]
  by (auto simp: kv_inv_def kv_put_def kv_entry_ok_def)

lemma kv_next_ok: "kv_next entry w now = Inr c \<Longrightarrow> counter_ok (count c) (resetAt c)"
  by (auto simp: kv_next_def intro: readCounter_ok)

lemma kv_inv_cases:
  assumes "kv_inv s" and "rateLimitStorageKey namespace k = Inr f"
  obtains (none) "s f = None" "kv_look namespace s k = None"
  | (some) e c r where "s f = Some e" "e_bytes e \<le> 8192" "e_parsed e = Some (counter_obj c r)"
      "counter_ok c r" "r \<le> e_expires e" "kv_look namespace s k = Some \<lparr>count = c, resetAt = r\<rparr>"
proof (cases "s f")
  case None
  then show ?thesis using assms that(1) by (simp add: kv_look_def)
next
  case (Some e)
  have "kv_entry_ok e" using assms(1) Some by (simp add: kv_inv_def)
  then obtain c r where "e_bytes e \<le> 8192" "e_parsed e = Some (counter_obj c r)" "counter_ok c r" "r \<le> e_expires e"
    unfolding kv_entry_ok_def by (elim conjE exE)
  then show ?thesis using Some assms(2) that(2) [of e c r] by (simp add: kv_look_def)
qed

text \<open>What the read finds: the live counter, or an entry or absence that counts as expired.\<close>

lemma kv_read_inv:
  assumes "kv_inv s" and "rateLimitStorageKey namespace k = Inr f"
  shows "kv_read s f now = Inr (case kv_look namespace s k of None \<Rightarrow> None
    | Some c \<Rightarrow> (case s f of None \<Rightarrow> None | Some e \<Rightarrow> if now < e_expires e then Some c else None))"
  using assms
proof (cases rule: kv_inv_cases)
  case none
  then show ?thesis by (simp add: kv_read_def kv_get_def)
next
  case (some e c r)
  then show ?thesis by (simp add: kv_read_def kv_get_def)
qed

lemma kv_hit_default:
  assumes "admissible k w t" and "rateLimitStorageKey namespace k = Inr f"
  shows "kv_hit namespace (JStr k) (NInt w) default_options Settles False False t t s =
    (case bindr (kv_read s f t) (\<lambda>entry. kv_next entry (NInt w) t) of
       Inl e \<Rightarrow> (Inl e, s) | Inr c \<Rightarrow> (Inr c, kv_put s f c t))"
proof -
  have ab: "assertRateLimitNotAborted False = Inr ()" by (simp add: assertRateLimitNotAborted_def)
  have k: "assertRateLimitKey (JStr k) = Inr k" and w: "assertWindow (NInt w) t = Inr w"
    using assms(1) by (simp_all add: admissible_def assertWindow_def)
  show ?thesis
  proof (cases "kv_read s f t")
    case (Inl e)
    then show ?thesis using assms(2) ab k w by (simp add: kv_hit_def)
  next
    case (Inr x)
    then show ?thesis using assms(2) ab k w by (cases "kv_next x (NInt w) t") (simp_all add: kv_hit_def)
  qed
qed

lemma kv_put_look:
  "rateLimitStorageKey n k = Inr f \<Longrightarrow> counter_ok (count c) (resetAt c) \<Longrightarrow>
   kv_look n (kv_put s f c now) j = (if j = k then Some c else kv_look n s j)"
proof (cases "rateLimitStorageKey n j")
  case (Inr g)
  assume k: "rateLimitStorageKey n k = Inr f" and ok: "counter_ok (count c) (resetAt c)"
  show ?thesis
  proof (cases "g = f")
    case True
    then have "j = k" using storage_key_inj [OF k, of j] Inr by simp
    then show ?thesis using k ok by (simp add: kv_look_def kv_put_def)
  next
    case False
    then have "j \<noteq> k" using Inr k by auto
    then show ?thesis using False Inr by (simp add: kv_look_def kv_put_def)
  qed
next
  case (Inl e)
  assume "rateLimitStorageKey n k = Inr f"
  then have "j \<noteq> k" using Inl by auto
  then show ?thesis using Inl by (simp add: kv_look_def)
qed


lemma kv_hit_interp_live:
  assumes "kv_inv s" and "kv_admissible n k w t" and "kv_look n s k = Some c" and "t < resetAt c" and "count c < MAX_SAFE"
    and f: "rateLimitStorageKey n k = Inr f"
  shows "kv_hit n (JStr k) (NInt w) default_options Settles False False t t s =
    (Inr (c\<lparr>count := count c + 1\<rparr>), kv_put s f (c\<lparr>count := count c + 1\<rparr>) t)"
  using assms(1) f
proof (cases rule: kv_inv_cases)
  case none
  then show ?thesis using assms(3) by simp
next
  case (some e m r)
  then have c: "c = \<lparr>count = m, resetAt = r\<rparr>" using assms(3) by simp
  have ok: "counter_ok (m + 1) r" using some(4) assms(5) c by (auto simp: counter_ok_def safe_int_def)
  have a: "admissible k w t" and w: "assertWindow (NInt w) t = Inr w"
    using assms(2) by (auto simp: kv_admissible_iff admissible_def assertWindow_def)
  have "kv_read s f t = Inr (Some c)" using kv_read_inv [OF assms(1) f, of t] some assms(3,4) c by simp
  then show ?thesis using kv_hit_default [OF a f] w c ok assms(4) by (simp add: kv_next_def)
qed

lemma kv_hit_interp_fresh:
  assumes "kv_inv s" and "kv_admissible n k w t" and "\<And>c. kv_look n s k = Some c \<Longrightarrow> resetAt c \<le> t"
    and f: "rateLimitStorageKey n k = Inr f"
  shows "kv_hit n (JStr k) (NInt w) default_options Settles False False t t s =
    (Inr \<lparr>count = 1, resetAt = t + w\<rparr>, kv_put s f \<lparr>count = 1, resetAt = t + w\<rparr> t)"
proof -
  have a: "admissible k w t" and w: "assertWindow (NInt w) t = Inr w" and vw: "validWindow (NInt w) t" and t: "0 < t"
    using assms(2) by (auto simp: kv_admissible_iff admissible_def assertWindow_def)
  have ok: "counter_ok 1 (t + w)" using validWindow_reset [OF vw] vw t by simp
  obtain x where x: "kv_read s f t = Inr x" "\<And>c. x = Some c \<Longrightarrow> kv_look n s k = Some c"
    using kv_read_inv [OF assms(1) f, of t] by (cases "kv_look n s k"; cases "s f") (auto split: if_splits)
  have "kv_next x (NInt w) t = Inr \<lparr>count = 1, resetAt = t + w\<rparr>"
  proof (cases x)
    case None
    then show ?thesis using w ok by (simp add: kv_next_def)
  next
    case (Some c)
    then have "resetAt c \<le> t" using x(2) assms(3) by simp
    then show ?thesis using Some w ok by (simp add: kv_next_def)
  qed
  then show ?thesis using kv_hit_default [OF a f] x(1) by simp
qed

interpretation kvs: exact_window
  "\<lambda>s k w t. kv_hit n (JStr k) (NInt w) default_options Settles False False t t s" "kv_look n" kv_inv "kv_admissible n" for n
proof unfold_locales
  fix s k w t assume i: "kv_inv s" and a: "kv_admissible n k w t"
  let ?h = "kv_hit n (JStr k) (NInt w) default_options Settles False False t t s"
  obtain f where f: "rateLimitStorageKey n k = Inr f" and a': "admissible k w t" using a by (auto simp: kv_admissible_iff)
  obtain r where r: "kv_read s f t = Inr r" using kv_read_inv [OF i f] by blast
  have cases: "snd ?h = s \<or> (\<exists>c. counter_ok (count c) (resetAt c) \<and> snd ?h = kv_put s f c t)"
    using kv_hit_default [OF a' f, of s] r kv_next_ok [of r "NInt w" t] by (cases "kv_next r (NInt w) t") auto
  show "kv_inv (snd ?h)" using cases kv_put_inv [OF i] i by auto
  show "fst ?h = Inr (c\<lparr>count := count c + 1\<rparr>) \<and> kv_look n (snd ?h) k = Some (c\<lparr>count := count c + 1\<rparr>)"
    if l: "kv_look n s k = Some c" and lt: "t < resetAt c" and m: "count c < MAX_SAFE" for c
  proof -
    have "counter_ok (count c) (resetAt c)"
      using i f by (cases rule: kv_inv_cases) (use l in auto)
    then have "counter_ok (count c + 1) (resetAt c)" using m by (auto simp: counter_ok_def safe_int_def)
    then show ?thesis using kv_hit_interp_live [OF i a l lt m f] kv_put_look [OF f] by simp
  qed
  show "fst ?h = Inr \<lparr>count = 1, resetAt = t + w\<rparr> \<and> kv_look n (snd ?h) k = Some \<lparr>count = 1, resetAt = t + w\<rparr>"
    if "\<And>c. kv_look n s k = Some c \<Longrightarrow> resetAt c \<le> t"
  proof -
    have vw: "validWindow (NInt w) t" and t: "0 < t" using a' by (auto simp: admissible_def)
    have "counter_ok 1 (t + w)" using validWindow_reset [OF vw] vw t by simp
    then show ?thesis using kv_hit_interp_fresh [OF i a that f] kv_put_look [OF f] by simp
  qed
  show "kv_look n s j = Some c" if "j \<noteq> k" and "kv_look n (snd ?h) j = Some c" for j c
    using cases kv_put_look [OF f] that by auto
  show "kv_look n (snd ?h) j = kv_look n s j" if "j \<noteq> k" for j
    using cases kv_put_look [OF f] that by auto
qed


section \<open>The Redis store\<close>

text \<open>
  The script the store sends, over the three commands it calls. The server, its clock and the
  commands are parameters; \<open>PTTL\<close> answers in milliseconds.
\<close>

(* models packages/core/src/shared/rate-limit.ts:436-437 REDIS_RATE_LIMIT_SCRIPT *)
definition redis_script :: "(string \<Rightarrow> 's \<Rightarrow> int \<times> 's) \<Rightarrow> (string \<Rightarrow> int \<Rightarrow> 's \<Rightarrow> 's) \<Rightarrow> (string \<Rightarrow> 's \<Rightarrow> int)
    \<Rightarrow> string \<Rightarrow> int \<Rightarrow> 's \<Rightarrow> jsv \<times> 's" where
  "redis_script incr pexpire pttl k w s =
     (let (c, s1) = incr k s; s2 = (if c = 1 then pexpire k w s1 else s1)
      in (JObj [(''result'', JArr [JNum (NInt c), JNum (NInt (pttl k s2))])], s2))"

(* models packages/core/src/shared/rate-limit.ts:497-506 hit *)
definition redis_decode :: "jsv \<Rightarrow> int \<Rightarrow> rl_error + counter" where
  "redis_decode data now = (case data of
     JObj ps \<Rightarrow>
       if has_key ps ''error'' then Inl (EConfig ''invalid or error response'')
       else (case jget data ''result'' of
          JArr [c, JNum (NInt pttl)] \<Rightarrow>
            if safe_int pttl \<and> pttl \<ge> 0 then readCounter (JObj [(''count'', c), (''resetAt'', JNum (NInt (now + pttl)))])
            else Inl (EConfig ''invalid counter TTL'')
        | JArr [c, _] \<Rightarrow> Inl (EConfig ''invalid counter TTL'')
        | _ \<Rightarrow> Inl (EConfig ''invalid or error response''))
   | _ \<Rightarrow> Inl (EConfig ''invalid or error response''))"

text \<open>\<open>serve\<close> is the server's answer to the script; \<open>now\<close> is read after the reply arrives.\<close>

(* models packages/core/src/shared/rate-limit.ts:487-508 hit *)
definition redis_hit :: "(string \<Rightarrow> int \<Rightarrow> 's \<Rightarrow> jsv \<times> 's) \<Rightarrow> string \<Rightarrow> jsv \<Rightarrow> jnum \<Rightarrow> hit_options \<Rightarrow> op_event
    \<Rightarrow> int \<Rightarrow> int \<Rightarrow> 's \<Rightarrow> (rl_error + counter) \<times> 's" where
  "redis_hit serve namespace key window opts ev t0 now s =
     (case assertStorageRequirements (storageCapabilities RateLimitKind ''redis'') (h_requires opts) of
        Inl e \<Rightarrow> (Inl (ECaps e), s)
      | Inr _ \<Rightarrow>
        (case bindr (assertRateLimitKey key) (\<lambda>k. bindr (assertWindow window t0) (\<lambda>w. Inr (k, w))) of
           Inl e \<Rightarrow> (Inl e, s)
         | Inr (k, w) \<Rightarrow> runRateLimitOperation opts ev
             (\<lambda>s. case rateLimitStorageKey namespace k of
                Inl e \<Rightarrow> (Inl e, s)
              | Inr kvKey \<Rightarrow> (let (data, s') = serve kvKey w s in (redis_decode data now, s'))) s))"

text \<open>A successful reply is a valid counter whose deadline has not passed.\<close>

lemma redis_decode_ok:
  assumes "redis_decode data now = Inr c"
  shows "counter_ok (count c) (resetAt c) \<and> now \<le> resetAt c"
proof -
  obtain ps where d: "data = JObj ps" "\<not> has_key ps ''error''"
    using assms by (cases data) (auto simp: redis_decode_def split: if_splits)
  then obtain x p where r: "jget data ''result'' = JArr [x, JNum (NInt p)]"
    using assms by (auto simp: redis_decode_def split: jsv.splits list.splits jnum.splits)
  then have "p \<ge> 0" and c: "readCounter (JObj [(''count'', x), (''resetAt'', JNum (NInt (now + p)))]) = Inr c"
    using assms d by (auto simp: redis_decode_def split: if_splits)
  moreover have "resetAt c = now + p"
    using c by (auto simp: readCounter_def split: jsv.splits jnum.splits if_splits)
  ultimately show ?thesis using readCounter_ok [OF c] by simp
qed

lemma redis_decode_script:
  assumes "incr k s = (c, s1)"
  shows "redis_decode (fst (redis_script incr pexpire pttl k w s)) now =
    (let p = pttl k (if c = 1 then pexpire k w s1 else s1) in if safe_int p \<and> p \<ge> 0
       then (if counter_ok c (now + p) then Inr \<lparr>count = c, resetAt = now + p\<rparr> else Inl ECounter)
       else Inl (EConfig ''invalid counter TTL''))"
  using assms by (simp add: redis_script_def redis_decode_def has_key_def readCounter_def Let_def)


section \<open>Properties\<close>

text \<open>Whatever requests and alarm firings a rate-limit Durable Object has seen (late or early alarms
  included), a stored counter is valid and its alarm is set exactly at its deadline, and with no
  counter there is no alarm; firing the alarm next removes the counter if and only if its
  window is over.\<close>

theorem do_alarm_keeps_live_counter:
  assumes "do_reachable s"
  shows "(case d_counter s of None \<Rightarrow> d_alarm s = None
      | Some v \<Rightarrow> (\<exists>c. readCounter v = Inr c \<and> d_alarm s = Some (resetAt c))) \<and>
    do_look (snd (do_alarm now (s\<lparr>d_alarm := None\<rparr>))) =
      (case do_look s of None \<Rightarrow> None | Some c \<Rightarrow> if resetAt c \<le> now then None else Some c)"
proof -
  have i: "do_inv s"
    using assms
  proof (induction rule: do_reachable.induct)
    case (do_next s s')
    from do_next.hyps(2) show ?case
      by (cases rule: do_step_cases) (use do_next.IH do_fetch_inv do_alarm_inv in auto)
  qed (simp add: do_inv_def do_empty_def)
  moreover have "case d_counter s of None \<Rightarrow> d_alarm s = None
      | Some v \<Rightarrow> (\<exists>c. readCounter v = Inr c \<and> d_alarm s = Some (resetAt c))"
    using i by (cases rule: do_inv_cases) auto
  ultimately show ?thesis using do_alarm_look by simp
qed

lemma do_alarm_keeps_live_counter_witness:
  "let s = snd (do_fetch (Some (NInt 1000)) 5 5 do_empty) in
   do_look (snd (do_alarm 7 (s\<lparr>d_alarm := None\<rparr>))) = Some \<lparr>count = 1, resetAt = 1005\<rparr>"
proof -
  let ?s = "snd (do_fetch (Some (NInt 1000)) 5 5 do_empty)"
  have r: "do_reachable ?s" by (rule do_next [OF do_init request]) simp
  have l: "do_look ?s = Some \<lparr>count = 1, resetAt = 1005\<rparr>" by code_simp
  show ?thesis using do_alarm_keeps_live_counter [OF r, of 7] l by simp
qed

text \<open>With the Durable Object store, hits on many keys may interleave in any order: as long as the
  window of a key is open, its counter is the starting count plus the number of its own hits,
  whatever the other keys do.\<close>

theorem dos_interleaved_exact:
  assumes "dos_inv s" and "dos_look s k = Some c"
    and "\<And>j t. (j, t) \<in> set hits \<Longrightarrow> admissible j w t \<and> t < resetAt c"
    and "count c + int (length hits) \<le> MAX_SAFE"
  shows "dos_look (foldl (\<lambda>s (j, t). snd (dos_hit (JStr j) (NInt w) default_options Settles t t s)) s hits) k =
    Some (c\<lparr>count := count c + int (length (filter (\<lambda>h. fst h = k) hits))\<rparr>)"
proof -
  have run: "snd (dos.run w s hits) = foldl (\<lambda>s (j, t). snd (dos_hit (JStr j) (NInt w) default_options Settles t t s)) s hits" for s
    by (induction hits arbitrary: s) (auto simp: split_beta)
  show ?thesis using dos.interleaved [OF assms] by (simp add: run)
qed

lemma dos_interleaved_exact_witness:
  "dos_look (foldl (\<lambda>s (j, t). snd (dos_hit (JStr j) (NInt 1000) default_options Settles t t s))
     ((\<lambda>_. do_empty)(''a'' := \<lparr>d_counter = Some (counter_obj 2 900), d_alarm = Some 900\<rparr>))
     [(''b'', 10), (''a'', 20), (''b'', 30)]) ''a'' = Some \<lparr>count = 3, resetAt = 900\<rparr>"
proof -
  let ?s = "(\<lambda>_. do_empty)(''a'' := \<lparr>d_counter = Some (counter_obj 2 900), d_alarm = Some (900::int)\<rparr>)"
  let ?h = "[(''b'', 10), (''a'', 20), (''b'', 30)] :: (string \<times> int) list"
  have "counter_ok 2 900" by code_simp
  then have i: "dos_inv ?s" by (auto simp: dos_inv_def do_inv_def do_empty_def)
  have l: "dos_look ?s ''a'' = Some \<lparr>count = 2, resetAt = 900\<rparr>" by code_simp
  have a: "admissible ''a'' 1000 20" "admissible ''b'' 1000 10" "admissible ''b'' 1000 30" by code_simp+
  have b: "admissible j 1000 t \<and> t < resetAt \<lparr>count = 2, resetAt = 900\<rparr>" if "(j, t) \<in> set ?h" for j t
    using that a by auto
  have c: "count \<lparr>count = 2, resetAt = 900\<rparr> + int (length ?h) \<le> MAX_SAFE" by code_simp
  show ?thesis using dos_interleaved_exact [OF i l b c] by simp
qed

text \<open>A counter written by the KV store can be read back at every moment of its window: the storage
  TTL (at least sixty seconds, rounded up to seconds) never ends before the logical deadline,
  and the entry stays within the size the reader accepts.\<close>

theorem kv_counter_survives_window:
  assumes "kv_inv s" and "kv_hit n (JStr k) (NInt w) default_options Settles False False t0 t s = (Inr c, s')"
    and "rateLimitStorageKey n k = Inr f" and "t' < resetAt c"
  shows "kv_read s' f t' = Inr (Some c) \<and> kv_inv s'"
proof -
  have ab: "assertRateLimitNotAborted False = Inr ()" by (simp add: assertRateLimitNotAborted_def)
  obtain x where n: "kv_next x (NInt w) t = Inr c" and s': "s' = kv_put s f c t"
    using assms(2,3) ab
    by (auto simp: kv_hit_def bindr_Inl_iff dest!: assertRateLimitKey_Inr split: sum.splits)
  have ok: "counter_ok (count c) (resetAt c)" using kv_next_ok [OF n] .
  have i: "kv_inv s'" using kv_put_inv [OF assms(1) ok] s' by simp
  have "t' < t + kv_ttl c t * 1000" using kv_ttl_covers [of c t] assms(4) by linarith
  then have "kv_read s' f t' = Inr (Some c)"
    using s' ok counter_text_bytes [OF ok] by (simp add: kv_read_def kv_get_def kv_put_def)
  then show ?thesis using i by simp
qed

lemma kv_counter_survives_window_witness:
  "\<exists>c s' f. kv_hit ''rl:'' (JStr ''a'') (NInt 90500) default_options Settles False False 10 10 (\<lambda>_. None) = (Inr c, s') \<and>
     rateLimitStorageKey ''rl:'' ''a'' = Inr f \<and> kv_read s' f 90509 = Inr (Some c)"
proof -
  let ?r = "kv_hit ''rl:'' (JStr ''a'') (NInt 90500) default_options Settles False False 10 10 (\<lambda>_. None)"
  have r1: "fst ?r = Inr \<lparr>count = 1, resetAt = 90510\<rparr>" by code_simp
  then have r: "?r = (Inr \<lparr>count = 1, resetAt = 90510\<rparr>, snd ?r)" by (metis prod.collapse)
  have f: "rateLimitStorageKey ''rl:'' ''a'' = Inr (json_pair ''rl:'' ''a'')" by code_simp
  have i: "kv_inv (\<lambda>_. None)" by (simp add: kv_inv_def)
  show ?thesis using kv_counter_survives_window [OF i r f, of 90509] r f by auto
qed

text \<open>Two hits on one key that both read the KV entry before either writes it both reply the same
  count and leave that count stored: one of them is lost. (The store's documentation says it
  is approximate; this is the exact under-count.)\<close>

theorem kv_race_loses_one:
  assumes "kv_inv s" and "rateLimitStorageKey n k = Inr f" and "kv_look n s k = Some c"
    and "t1 < resetAt c" and "t2 < resetAt c" and "count c < MAX_SAFE"
    and "validWindow (NInt w) t1" and "validWindow (NInt w) t2"
  shows "bindr (kv_read s f t1) (\<lambda>entry. kv_next entry (NInt w) t1) = Inr (c\<lparr>count := count c + 1\<rparr>) \<and>
    bindr (kv_read s f t2) (\<lambda>entry. kv_next entry (NInt w) t2) = Inr (c\<lparr>count := count c + 1\<rparr>) \<and>
    kv_look n (kv_put (kv_put s f (c\<lparr>count := count c + 1\<rparr>) t1) f (c\<lparr>count := count c + 1\<rparr>) t2) k =
      Some (c\<lparr>count := count c + 1\<rparr>)"
proof -
  let ?c = "c\<lparr>count := count c + 1\<rparr>"
  have l: "\<exists>e. s f = Some e \<and> resetAt c \<le> e_expires e \<and> counter_ok (count c) (resetAt c)"
    using assms(1,2) by (cases rule: kv_inv_cases) (use assms(3) in auto)
  then have ok: "counter_ok (count ?c) (resetAt ?c)" using assms(6) by (auto simp: counter_ok_def safe_int_def)
  have r: "kv_read s f t = Inr (Some c)" if "t < resetAt c" for t
    using kv_read_inv [OF assms(1,2), of t] l assms(3) that by auto
  have n: "kv_next (Some c) (NInt w) t = Inr ?c" if "t < resetAt c" "validWindow (NInt w) t" for t
    using that ok by (simp add: kv_next_def assertWindow_def)
  have "kv_look n (kv_put (kv_put s f ?c t1) f ?c t2) k = Some ?c"
    using kv_put_look [OF assms(2) ok] by simp
  then show ?thesis
    by (simp only: r [OF assms(4)] r [OF assms(5)] bindr.simps n [OF assms(4,7)] n [OF assms(5,8)])
qed

lemma kv_race_loses_one_witness:
  "bindr (kv_read (kv_put (\<lambda>_. None) (json_pair ''rl:'' ''a'') \<lparr>count = 1, resetAt = 60010\<rparr> 10) (json_pair ''rl:'' ''a'') 21)
     (\<lambda>entry. kv_next entry (NInt 60000) 21) = Inr (\<lparr>count = 1, resetAt = 60010\<rparr>\<lparr>count := 1 + 1\<rparr>)"
proof -
  let ?c = "\<lparr>count = 1, resetAt = 60010\<rparr>"
  let ?s = "kv_put (\<lambda>_. None) (json_pair ''rl:'' ''a'') ?c 10"
  have e: "kv_inv (\<lambda>_. None)" by (simp add: kv_inv_def)
  have f: "rateLimitStorageKey ''rl:'' ''a'' = Inr (json_pair ''rl:'' ''a'')" by code_simp
  have ok: "counter_ok (count ?c) (resetAt ?c)" by code_simp
  have i: "kv_inv ?s" by (rule kv_put_inv [OF e ok])
  have l: "kv_look ''rl:'' ?s ''a'' = Some ?c" using kv_put_look [OF f ok] by simp
  have t: "20 < resetAt ?c" "21 < resetAt ?c" "count ?c < MAX_SAFE" by (simp_all add: MAX_SAFE_def)
  have w: "validWindow (NInt 60000) 20" "validWindow (NInt 60000) 21" by code_simp+
  have "count ?c = 1" by simp
  then show ?thesis
    using kv_race_loses_one [OF i f l t w] unfolding \<open>count ?c = 1\<close> by blast
qed

text \<open>A Redis hit replies the incremented count with the deadline its remaining time gives, sets the
  expiry only when the count is one, and rejects any time to live that is negative (a key
  without expiry) or that makes an invalid deadline: with the script's commands behaving as
  documented on a live key, the window is never extended by later hits.\<close>

theorem redis_live_hit:
  assumes "\<And>s. incr k s = (v s + 1, upd s)" and "\<And>s. pttl k (upd s) = pttl k s"
    and "1 \<le> v s" and "0 \<le> pttl k s" and "counter_ok (v s + 1) (now + pttl k s)" and "safe_int (pttl k s)"
    and "admissible k0 w t0" and "rateLimitStorageKey n k0 = Inr k"
  shows "redis_hit (redis_script incr pexpire pttl) n (JStr k0) (NInt w) default_options Settles t0 now s =
    (Inr \<lparr>count = v s + 1, resetAt = now + pttl k s\<rparr>, upd s)"
proof -
  have d: "redis_decode (fst (redis_script incr pexpire pttl k w s)) now = Inr \<lparr>count = v s + 1, resetAt = now + pttl k s\<rparr>"
    using redis_decode_script [where incr = incr and s = s and k = k and pexpire = pexpire and w = w and pttl = pttl and now = now, of "v s + 1" "upd s", OF assms(1)] assms by (simp add: Let_def)
  have u: "snd (redis_script incr pexpire pttl k w s) = upd s"
    using assms(1,3) by (simp add: redis_script_def)
  show ?thesis using d u assms(7,8)
    by (cases "redis_script incr pexpire pttl k w s")
       (simp add: redis_hit_def admissible_def assertWindow_def)
qed

lemma redis_live_hit_witness:
  "redis_hit (redis_script (\<lambda>k (c, e). (c + 1, (c + 1, e))) (\<lambda>k w (c, e). (c, w)) (\<lambda>k (c, e). e))
     ''rl:'' (JStr ''a'') (NInt 1000) default_options Settles 5 10 (3, 400) =
   (Inr \<lparr>count = 4, resetAt = 410\<rparr>, (4, 400))"
proof -
  have w: "admissible ''a'' 1000 5" by code_simp
  have f: "rateLimitStorageKey ''rl:'' ''a'' = Inr (json_pair ''rl:'' ''a'')" by code_simp
  have ok: "counter_ok (3 + 1) (10 + 400)" "safe_int 400" by code_simp+
  show ?thesis
    using redis_live_hit [where incr = "\<lambda>k (c, e). (c + 1, (c + 1, e))" and v = fst and upd = "\<lambda>(c, e). (c + 1, e)"
        and pttl = "\<lambda>k (c, e). e" and s = "(3, 400)" and now = 10, OF _ _ _ _ _ _ w f, of "\<lambda>k w (c, e). (c, w)"] ok
    by (simp add: split_beta)
qed

end
