(* ===== verification/Rate_Limit.thy ===== *)
theory Rate_Limit
  imports Memory_Correct Remote_Stores
begin

text \<open>
  The policy layer of \<open>core/src/shared/rate-limit.ts\<close>: option checks, the selection of a
  store from the request environment, the caller's identity, and the decision itself. The
  store's \<open>hit\<close>, the key function of the options and the URL parser are arguments.
\<close>

section \<open>Options and credentials\<close>

(* models packages/core/src/shared/rate-limit.ts:19-42 RateLimitOptions *)
definition rate_option_names :: "string list" where
  "rate_option_names = [''window'', ''max'', ''key'', ''message'', ''backendTimeoutMs'', ''requires'']"

text \<open>A \<open>JObj\<close> is an object whose prototype is \<open>Object.prototype\<close> or null.\<close>

(* models packages/core/src/shared/rate-limit.ts:77-83 assertRateLimitOptions *)
definition assertRateLimitOptions :: "jsv \<Rightarrow> rl_error + unit" where
  "assertRateLimitOptions v = (case v of
     JObj ps \<Rightarrow> guardr (\<forall>p \<in> set ps. fst p \<in> set rate_option_names) (EConfig ''options'')
   | _ \<Rightarrow> Inl (EConfig ''options''))"

text \<open>Values of an environment: plain values, or a binding with its identity and methods.\<close>

datatype env_value = EVal jsv | EBinding nat "string list"

type_synonym env_map = "(string \<times> env_value) list"

definition env_get :: "env_map \<Rightarrow> string \<Rightarrow> env_value" where
  "env_get e k = (case map_of e k of None \<Rightarrow> EVal JUndef | Some v \<Rightarrow> v)"

(* models packages/core/src/shared/rate-limit.ts:85-88 hasMethod *)
fun hasMethod :: "env_value \<Rightarrow> string \<Rightarrow> bool" where
  "hasMethod (EBinding r ms) m = (m \<in> set ms)"
| "hasMethod (EVal v) m = (case jget v m of JFun _ \<Rightarrow> True | _ \<Rightarrow> False)"

(* models packages/core/src/shared/rate-limit.ts:90-92 credential *)
fun credential :: "env_value \<Rightarrow> bool" where
  "credential (EVal (JStr s)) = (trim s \<noteq> [])"
| "credential _ = False"

text \<open>What the URL parser reports.\<close>

record parsed_url =
  u_protocol :: string
  u_hostname :: string
  u_username :: string
  u_password :: string
  u_href :: string

definition bad_url_char :: "char \<Rightarrow> bool" where
  "bad_url_char c \<longleftrightarrow> c = CHR 0x5C \<or> code c \<le> 32 \<or> code c = 127"

(* models packages/core/src/shared/rate-limit-policy.ts:22-32 redisEndpoint *)
definition redisEndpoint :: "(string \<Rightarrow> parsed_url option) \<Rightarrow> env_value \<Rightarrow> rl_error + string" where
  "redisEndpoint parse v = (case v of
     EVal (JStr s) \<Rightarrow>
       if \<not> starts_with s ''https://'' \<or> list_ex bad_url_char s \<or> utf8_length s > 2048
       then Inl (EConfig ''endpoint'')
       else (case parse s of
          None \<Rightarrow> Inl (EConfig ''endpoint'')
        | Some u \<Rightarrow> if u_protocol u \<noteq> ''https:'' \<or> u_hostname u = [] \<or> u_username u \<noteq> [] \<or> u_password u \<noteq> [] \<or>
              CHR ''?'' \<in> set s \<or> CHR ''#'' \<in> set s \<or> utf8_length (u_href u) > 2048
            then Inl (EConfig ''endpoint'') else Inr (u_href u))
   | _ \<Rightarrow> Inl (EConfig ''endpoint''))"

(* models packages/core/src/shared/rate-limit-policy.ts:34-38 redisToken *)
definition redisToken :: "env_value \<Rightarrow> rl_error + string" where
  "redisToken v = (case v of
     EVal (JStr s) \<Rightarrow> if s = [] \<or> length s > 8192 \<or> list_ex (\<lambda>c. code c \<le> 32 \<or> code c \<ge> 127) s
       then Inl (EConfig ''token'') else Inr s
   | _ \<Rightarrow> Inl (EConfig ''token''))"


section \<open>Store selection\<close>

datatype store_mode = MDurableObject | MRedis | MKv

(* models packages/core/src/shared/rate-limit.ts:533-538 StoreSelection *)
record selection =
  sel_mode :: store_mode
  sel_binding :: env_value
  sel_url :: env_value
  sel_token :: env_value

text \<open>A store object: its identity, and what it was made from.\<close>

datatype store = ProcessMemory | ManualStore nat | SelectedStore nat selection

text \<open>The three module variables; \<open>l_next\<close> supplies identities for new store objects. The
  process default is created on first use and is the same object ever after.\<close>

(* models packages/core/src/shared/rate-limit.ts:530-539 defaultStore *)
record limit_module =
  l_default :: bool
  l_manual :: "store option"
  l_configured :: "nat \<Rightarrow> (selection \<times> store) option"
  l_next :: nat

(* models packages/core/src/shared/rate-limit.ts:557-561 __resetRateLimitForTests *)
definition resetRateLimit :: "limit_module \<Rightarrow> limit_module" where
  "resetRateLimit m = m\<lparr>l_default := False, l_manual := None, l_configured := (\<lambda>_. None)\<rparr>"

(* models packages/core/src/shared/rate-limit.ts:546-549 setRateLimitStore *)
definition setRateLimitStore :: "env_value \<Rightarrow> limit_module \<Rightarrow> (rl_error + unit) \<times> limit_module" where
  "setRateLimitStore v m =
     (if \<not> hasMethod v ''hit'' then (Inl (EConfig ''store''), m)
      else (Inr (), m\<lparr>l_manual := Some (ManualStore (case v of EBinding r _ \<Rightarrow> r | _ \<Rightarrow> 0))\<rparr>))"

text \<open>The request environment: none, something that is not an object, or an object with its
  identity and current contents.\<close>

datatype env_arg = NoEnv | BadEnv | Env nat env_map

definition selection_of :: "env_map \<Rightarrow> string \<Rightarrow> rl_error + selection" where
  "selection_of e mode =
     (let none = EVal JUndef in
      if mode = ''durable-object'' \<or> mode = ''do'' then
        Inr \<lparr>sel_mode = MDurableObject, sel_binding = env_get e ''RATE_LIMIT_DO'', sel_url = none, sel_token = none\<rparr>
      else if mode = ''kv'' then
        Inr \<lparr>sel_mode = MKv, sel_binding = env_get e ''RATE_LIMITS'', sel_url = none, sel_token = none\<rparr>
      else if mode = ''redis'' \<or> mode = ''upstash'' then
        (let url = env_get e ''UPSTASH_REDIS_REST_URL''; token = env_get e ''UPSTASH_REDIS_REST_TOKEN'' in
         if \<not> credential url \<or> \<not> credential token then Inl (EConfig ''credentials'')
         else Inr \<lparr>sel_mode = MRedis, sel_binding = none, sel_url = url, sel_token = token\<rparr>)
      else Inl (EConfig ''mode''))"

text \<open>The constructors' checks; the namespace and the fetch function take their defaults here.\<close>

(* models packages/core/src/shared/rate-limit.ts:470-485 constructor *)
definition construct_store :: "(string \<Rightarrow> parsed_url option) \<Rightarrow> selection \<Rightarrow> rl_error + unit" where
  "construct_store parse sel = (case sel_mode sel of
     MDurableObject \<Rightarrow> guardr (hasMethod (sel_binding sel) ''idFromName'' \<and> hasMethod (sel_binding sel) ''get'') (EConfig ''RATE_LIMIT_DO'')
   | MKv \<Rightarrow> guardr (hasMethod (sel_binding sel) ''get'' \<and> hasMethod (sel_binding sel) ''put'') (EConfig ''RATE_LIMITS'')
   | MRedis \<Rightarrow> bindr (redisEndpoint parse (sel_url sel)) (\<lambda>u.
       bindr (redisToken (sel_token sel)) (\<lambda>t.
       guardr (credential (EVal (JStr u)) \<and> credential (EVal (JStr t))) (EConfig ''credentials''))))"

(* models packages/core/src/shared/rate-limit.ts:573-616 configureRateLimitFromEnv *)
definition configureRateLimitFromEnv ::
    "(string \<Rightarrow> parsed_url option) \<Rightarrow> env_arg \<Rightarrow> limit_module \<Rightarrow> (rl_error + store) \<times> limit_module" where
  "configureRateLimitFromEnv parse env m =
     (case l_manual m of
        Some st \<Rightarrow> (Inr st, m)
      | None \<Rightarrow> (case env of
          NoEnv \<Rightarrow> (Inr ProcessMemory, m\<lparr>l_default := True\<rparr>)
        | BadEnv \<Rightarrow> (Inl (EConfig ''environment''), m)
        | Env r e \<Rightarrow>
           (let raw = (if env_get e ''rateLimit'' = EVal JUndef then env_get e ''RATE_LIMIT'' else env_get e ''rateLimit'') in
            if raw = EVal JUndef then (Inr ProcessMemory, m\<lparr>l_default := True\<rparr>)
            else (case raw of
               EVal (JStr s) \<Rightarrow>
                 if trim s = [] then (Inl (EConfig ''backend''), m)
                 else (case selection_of e (to_lower (trim s)) of
                    Inl err \<Rightarrow> (Inl err, m)
                  | Inr sel \<Rightarrow>
                     (case l_configured m r of
                        Some (old, st) \<Rightarrow>
                          if old = sel then (Inr st, m)
                          else (case construct_store parse sel of
                             Inl err \<Rightarrow> (Inl err, m)
                           | Inr _ \<Rightarrow> (Inr (SelectedStore (l_next m) sel),
                               m\<lparr>l_configured := (l_configured m)(r \<mapsto> (sel, SelectedStore (l_next m) sel)), l_next := Suc (l_next m)\<rparr>))
                      | None \<Rightarrow> (case construct_store parse sel of
                             Inl err \<Rightarrow> (Inl err, m)
                           | Inr _ \<Rightarrow> (Inr (SelectedStore (l_next m) sel),
                               m\<lparr>l_configured := (l_configured m)(r \<mapsto> (sel, SelectedStore (l_next m) sel)), l_next := Suc (l_next m)\<rparr>))))
             | _ \<Rightarrow> (Inl (EConfig ''backend''), m)))))"


section \<open>The caller's identity\<close>

text \<open>The parts of a request the identity is read from. \<open>x_header\<close> answers for lower-case names.\<close>

record req_context =
  x_env :: env_arg
  x_user :: "string option"
  x_header :: "string \<Rightarrow> string option"
  x_recorded :: "string option"
  x_incoming :: "string option"
  x_request_id :: "string option"
  x_method :: string
  x_path :: string
  x_route_path :: "string option"
  x_aborted :: bool

definition header_name_char :: "char \<Rightarrow> bool" where
  "header_name_char c \<longleftrightarrow> is_digit c \<or> is_lower c \<or> c \<in> set ''!#$%&*+.^_|~-'' \<or> c = CHR 0x27 \<or> c = CHR 0x60"

(* models packages/core/src/shared/rate-limit.ts:636-645 trustedProxyHeader *)
definition trustedProxyHeader :: "env_arg \<Rightarrow> rl_error + string option" where
  "trustedProxyHeader env = (case env of
     Env r e \<Rightarrow>
      (let raw = (if env_get e ''rateLimitTrustProxy'' = EVal JUndef then env_get e ''RATE_LIMIT_TRUST_PROXY''
                  else env_get e ''rateLimitTrustProxy'') in
       if raw = EVal JUndef \<or> raw = EVal (JStr []) then Inr None
       else (let header = (case raw of EVal (JStr s) \<Rightarrow> to_lower (trim s) | _ \<Rightarrow> []) in
         if header = [] \<or> \<not> list_all header_name_char header then Inl (EConfig ''RATE_LIMIT_TRUST_PROXY'')
         else Inr (Some header)))
   | _ \<Rightarrow> Inr None)"

text \<open>A non-empty string, or nothing.\<close>

definition truthy :: "string option \<Rightarrow> string option" where
  "truthy s = (case s of Some [] \<Rightarrow> None | _ \<Rightarrow> s)"

(* models packages/core/src/shared/rate-limit.ts:647-656 socketAddress *)
definition socketAddress :: "req_context \<Rightarrow> string option" where
  "socketAddress c = (case truthy (x_recorded c) of Some a \<Rightarrow> Some a | None \<Rightarrow> truthy (x_incoming c))"

definition header_or_empty :: "req_context \<Rightarrow> string \<Rightarrow> string" where
  "header_or_empty c name = (case x_header c name of None \<Rightarrow> [] | Some v \<Rightarrow> v)"

definition last_hop :: "string \<Rightarrow> string" where
  "last_hop v = (case rev (filter (\<lambda>p. p \<noteq> []) (map trim (split_on CHR '','' v))) of [] \<Rightarrow> [] | h # _ \<Rightarrow> h)"

(* models packages/core/src/shared/rate-limit.ts:671-684 getClientIp *)
definition getClientIp :: "bool \<Rightarrow> req_context \<Rightarrow> rl_error + string" where
  "getClientIp workers c = bindr (trustedProxyHeader (x_env c)) (\<lambda>trusted.
     let value = (case trusted of
           Some h \<Rightarrow> if h = ''x-forwarded-for'' then last_hop (header_or_empty c h) else trim (header_or_empty c h)
         | None \<Rightarrow> if workers then trim (header_or_empty c ''cf-connecting-ip'') else [])
     in Inr (if value \<noteq> [] then value
             else (case socketAddress c of Some a \<Rightarrow> a | None \<Rightarrow> ''anonymous'')))"

(* models packages/core/src/shared/rate-limit.ts:691-694 defaultRateLimitKey *)
definition defaultRateLimitKey :: "bool \<Rightarrow> req_context \<Rightarrow> rl_error + string" where
  "defaultRateLimitKey workers c = (case truthy (x_user c) of
     Some u \<Rightarrow> Inr (''user:'' @ u)
   | None \<Rightarrow> bindr (getClientIp workers c) (\<lambda>ip. Inr (''ip:'' @ ip)))"


section \<open>The decision\<close>

record blocked =
  b_message :: string
  b_retryAfter :: int

text \<open>
  What a decision uses from outside: the store's declaration and its \<open>hit\<close>, the options' key
  function, and three clock readings (the window check, the provider's, the one for
  \<open>Retry-After\<close>).
\<close>

record 's limiter =
  lim_parse :: "string \<Rightarrow> parsed_url option"
  lim_workers :: bool
  lim_caps :: "store \<Rightarrow> jsv"
  lim_hit :: "store \<Rightarrow> string \<Rightarrow> int \<Rightarrow> hit_options \<Rightarrow> int \<Rightarrow> 's \<Rightarrow> (rl_error + jsv) \<times> 's"
  lim_key :: "nat \<Rightarrow> req_context \<Rightarrow> jsv"

definition ceil_div1000 :: "int \<Rightarrow> int" where
  "ceil_div1000 x = - ((- x) div 1000)"

definition jnum_of :: "jsv \<Rightarrow> jnum" where
  "jnum_of v = (case v of JNum n \<Rightarrow> n | _ \<Rightarrow> NonInt)"

definition opt_num :: "jsv \<Rightarrow> jnum option" where
  "opt_num v = (case v of JUndef \<Rightarrow> None | JNum n \<Rightarrow> Some n | _ \<Rightarrow> Some NonInt)"

definition lift_caps :: "caps_error + 'a \<Rightarrow> rl_error + 'a" where
  "lift_caps r = (case r of Inl e \<Rightarrow> Inl (ECaps e) | Inr x \<Rightarrow> Inr x)"

text \<open>The checks before the store is called: the counter key, the window and the maximum.\<close>

definition rate_plan :: "'s limiter \<Rightarrow> req_context \<Rightarrow> string \<Rightarrow> jsv \<Rightarrow> store \<Rightarrow> int \<Rightarrow> rl_error + (string \<times> int \<times> int \<times> string)" where
  "rate_plan L c scopeKey options st t0 =
     bindr (lift_caps (readStorageCapabilities (lim_caps L st) RateLimitKind)) (\<lambda>caps.
     bindr (lift_caps (storageRequirements (jget options ''requires''))) (\<lambda>req.
     bindr (lift_caps (assert_required caps req)) (\<lambda>_.
     let window = (case jget options ''window'' of JUndef \<Rightarrow> NInt 60000 | v \<Rightarrow> jnum_of v);
         max = (case jget options ''max'' of JUndef \<Rightarrow> NInt 60 | v \<Rightarrow> jnum_of v) in
     bindr (assertWindow window t0) (\<lambda>w.
     bindr (case max of NInt i \<Rightarrow> if safe_int i \<and> i \<ge> 0 then Inr i else Inl (EConfig ''max'') | NonInt \<Rightarrow> Inl (EConfig ''max'')) (\<lambda>mx.
     bindr (guardr (case jget options ''key'' of JUndef \<Rightarrow> True | JFun _ \<Rightarrow> True | _ \<Rightarrow> False) (EConfig ''key'')) (\<lambda>_.
     bindr (case jget options ''message'' of JUndef \<Rightarrow> Inr ''Too Many Requests'' | JStr m \<Rightarrow> Inr m | _ \<Rightarrow> Inl (EConfig ''message'')) (\<lambda>msg.
     bindr (assertRateLimitKey (JStr scopeKey)) (\<lambda>_.
     bindr (case jget options ''key'' of JFun f \<Rightarrow> assertRateLimitKey (lim_key L f c)
            | _ \<Rightarrow> bindr (defaultRateLimitKey (lim_workers L) c) (\<lambda>k. assertRateLimitKey (JStr k))) (\<lambda>caller.
     Inr (json_pair scopeKey caller, w, mx, msg))))))))))"

(* models packages/core/src/shared/rate-limit.ts:717-750 evaluateRateLimit *)
definition evaluateRateLimit ::
    "'s limiter \<Rightarrow> req_context \<Rightarrow> string \<Rightarrow> jsv \<Rightarrow> op_event \<Rightarrow> int \<Rightarrow> int \<Rightarrow> int \<Rightarrow> limit_module \<times> 's
     \<Rightarrow> (rl_error + blocked option) \<times> (limit_module \<times> 's)" where
  "evaluateRateLimit L c scopeKey options ev t0 t1 t2 ms =
     (case assertRateLimitOptions options of
        Inl e \<Rightarrow> (Inl e, ms)
      | Inr _ \<Rightarrow>
        (case configureRateLimitFromEnv (lim_parse L) (x_env c) (fst ms) of
           (Inl e, m) \<Rightarrow> (Inl e, (m, snd ms))
         | (Inr st, m) \<Rightarrow>
           (case rate_plan L c scopeKey options st t0 of
              Inl e \<Rightarrow> (Inl e, (m, snd ms))
            | Inr (key, w, mx, msg) \<Rightarrow>
              (let opts = \<lparr>h_requires = jget options ''requires'', h_aborted = x_aborted c, h_timeout = opt_num (jget options ''backendTimeoutMs'')\<rparr>;
                   (r, s) = runRateLimitOperation opts ev
                     (\<lambda>s. let (r, s') = lim_hit L st key w opts t1 s in (bindr r readCounter, s')) (snd ms)
               in (bindr r (\<lambda>counter. Inr (if count counter \<le> mx then None
                     else Some \<lparr>b_message = msg, b_retryAfter = max 1 (ceil_div1000 (resetAt counter - t2))\<rparr>)), (m, s))))))"

text \<open>The 429 response: its body and its \<open>Retry-After\<close> header.\<close>

record limited_response =
  lr_error :: string
  lr_request_id :: "string option"
  lr_retry_after :: string

(* models packages/core/src/shared/rate-limit.ts:702-714 enforceRateLimit *)
definition enforceRateLimit ::
    "'s limiter \<Rightarrow> req_context \<Rightarrow> string \<Rightarrow> jsv \<Rightarrow> op_event \<Rightarrow> int \<Rightarrow> int \<Rightarrow> int \<Rightarrow> limit_module \<times> 's
     \<Rightarrow> (rl_error + limited_response option) \<times> (limit_module \<times> 's)" where
  "enforceRateLimit L c scopeKey options ev t0 t1 t2 ms =
     (let (r, ms') = evaluateRateLimit L c scopeKey options ev t0 t1 t2 ms in
      (bindr r (\<lambda>b. Inr (case b of None \<Rightarrow> None
         | Some x \<Rightarrow> Some \<lparr>lr_error = b_message x, lr_request_id = truthy (x_request_id c), lr_retry_after = int_text (b_retryAfter x)\<rparr>)), ms'))"


section \<open>Declared limits\<close>

text \<open>
  A prototype chain is the list of its own metadata stores, nearest class first; a class
  without \<open>@RateLimit\<close> has none. \<open>chain\<close> is empty when the constructor is not a function.
\<close>

(* models packages/core/src/shared/rate-limit.ts:757-771 getRateLimitForAction *)
fun getRateLimitForAction :: "(string \<times> jsv) list option list \<Rightarrow> string \<Rightarrow> rl_error + jsv option" where
  "getRateLimitForAction [] action = Inr None"
| "getRateLimitForAction (own # chain) action =
     (if action = [] then Inr None
      else (case (case own of None \<Rightarrow> None | Some m \<Rightarrow> map_of m action) of
         Some options \<Rightarrow> bindr (assertRateLimitOptions options) (\<lambda>_. Inr (Some options))
       | None \<Rightarrow> getRateLimitForAction chain action))"

text \<open>The decorator writes into the class's own store only.\<close>

(* models packages/core/src/shared/rate-limit.ts:823-842 RateLimit *)
definition rateLimitDecorator :: "jsv \<Rightarrow> string \<Rightarrow> (string \<times> jsv) list option list \<Rightarrow> (string \<times> jsv) list option list" where
  "rateLimitDecorator opts key chain = (case chain of [] \<Rightarrow> []
     | own # rest \<Rightarrow> Some (AList.update key opts (case own of None \<Rightarrow> [] | Some m \<Rightarrow> m)) # rest)"

(* models packages/core/src/shared/rate-limit.ts:779-788 enforceMethodRateLimit *)
definition enforceMethodRateLimit ::
    "'s limiter \<Rightarrow> req_context \<Rightarrow> (string \<times> jsv) list option list \<Rightarrow> string \<Rightarrow> string \<Rightarrow> op_event \<Rightarrow> int \<Rightarrow> int \<Rightarrow> int
     \<Rightarrow> limit_module \<times> 's \<Rightarrow> (rl_error + limited_response option) \<times> (limit_module \<times> 's)" where
  "enforceMethodRateLimit L c chain action scopePrefix ev t0 t1 t2 ms =
     (case getRateLimitForAction chain action of
        Inl e \<Rightarrow> (Inl e, ms)
      | Inr None \<Rightarrow> (Inr None, ms)
      | Inr (Some options) \<Rightarrow> enforceRateLimit L c (scopePrefix @ '':'' @ action) options ev t0 t1 t2 ms)"

(* models packages/core/src/shared/rate-limit.ts:848-854 rateLimitRoute *)
definition rateLimitRoute :: "req_context \<Rightarrow> string" where
  "rateLimitRoute c = (case truthy (x_route_path c) of Some t \<Rightarrow> t | None \<Rightarrow> x_path c)"

datatype 'r guarded = Limited limited_response | Handled 'r

(* models packages/core/src/shared/rate-limit.ts:856-863 wrapHandler *)
definition wrapHandler ::
    "'s limiter \<Rightarrow> jsv \<Rightarrow> (req_context \<Rightarrow> 'r) \<Rightarrow> req_context \<Rightarrow> op_event \<Rightarrow> bool \<Rightarrow> int \<Rightarrow> int \<Rightarrow> int
     \<Rightarrow> limit_module \<times> 's \<Rightarrow> (rl_error + 'r guarded) \<times> (limit_module \<times> 's)" where
  "wrapHandler L options handler c ev aborted t0 t1 t2 ms =
     (let (r, ms') = enforceRateLimit L c (''route:'' @ x_method c @ '':'' @ rateLimitRoute c) options ev t0 t1 t2 ms in
      (bindr r (\<lambda>b. case b of Some resp \<Rightarrow> Inr (Limited resp)
         | None \<Rightarrow> bindr (assertRateLimitNotAborted aborted) (\<lambda>_. Inr (Handled (handler c)))), ms'))"

(* models packages/core/src/shared/rate-limit.ts:866-868 inspectRateLimitStore *)
definition inspectRateLimitStore :: "'s limiter \<Rightarrow> env_arg \<Rightarrow> limit_module \<Rightarrow> (rl_error + capabilities) \<times> limit_module" where
  "inspectRateLimitStore L env m =
     (let (r, m') = configureRateLimitFromEnv (lim_parse L) env m in
      (bindr r (\<lambda>st. lift_caps (readStorageCapabilities (lim_caps L st) RateLimitKind)), m'))"


section \<open>Lemmas\<close>

lemma trustedProxyHeader_env: "x_env c = x_env d \<Longrightarrow> trustedProxyHeader (x_env c) = trustedProxyHeader (x_env d)"
  by simp

lemma last_hop_prefix:
  assumes "CHR '','' \<notin> set hop" and "trim hop \<noteq> []"
  shows "last_hop (v @ '','' @ hop) = trim hop"
proof -
  have "split_on CHR '','' (v @ '','' @ hop) = split_on CHR '','' v @ [hop]" for v
  proof (induction v)
    case Nil
    then show ?case using split_on_no_sep [OF assms(1)] by simp
  next
    case (Cons x v)
    obtain p ps where "split_on CHR '','' v = p # ps" by (cases "split_on CHR '','' v") auto
    then show ?case using Cons by simp
  qed
  then show ?thesis using assms(2) by (simp add: last_hop_def)
qed

lemma evaluate_hit:
  assumes "assertRateLimitOptions options = Inr ()"
    and "configureRateLimitFromEnv (lim_parse L) (x_env c) m = (Inr st, m')"
    and "rate_plan L c scope options st t0 = Inr (key, w, mx, msg)"
    and "jget options ''requires'' = JUndef" and "jget options ''backendTimeoutMs'' = JUndef" and "\<not> x_aborted c"
  shows "evaluateRateLimit L c scope options Settles t0 t1 t2 (m, s) =
    (let (r, s') = lim_hit L st key w default_options t1 s in
     (bindr (bindr r readCounter) (\<lambda>counter. Inr (if count counter \<le> mx then None
        else Some \<lparr>b_message = msg, b_retryAfter = max 1 (ceil_div1000 (resetAt counter - t2))\<rparr>)), (m', s')))"
proof -
  have d: "\<lparr>h_requires = jget options ''requires'', h_aborted = x_aborted c, h_timeout = opt_num (jget options ''backendTimeoutMs'')\<rparr> = default_options"
    using assms(4-6) by (simp add: default_options_def opt_num_def)
  show ?thesis unfolding evaluateRateLimit_def assms(1) sum.case fst_conv snd_conv assms(2) prod.case assms(3) d Let_def
    by (simp add: split_beta)
qed

text \<open>The Durable Object store as the decision sees it: its reply crosses the boundary as an object.\<close>

definition dos_service :: "string \<Rightarrow> int \<Rightarrow> hit_options \<Rightarrow> int \<Rightarrow> (string \<Rightarrow> do_state) \<Rightarrow> (rl_error + jsv) \<times> (string \<Rightarrow> do_state)" where
  "dos_service key w opts t s =
     (let (r, s') = dos_hit (JStr key) (NInt w) opts Settles t t s in
      (bindr r (\<lambda>c. Inr (counter_obj (count c) (resetAt c))), s'))"



lemma dos_service_snd: "snd (dos_service k w op t s) = snd (dos_hit (JStr k) (NInt w) op Settles t t s)"
  by (simp add: dos_service_def split_beta)




section \<open>Properties\<close>


definition sample_context :: req_context where
  "sample_context = \<lparr>x_env = NoEnv, x_user = Some ''u1'', x_header = (\<lambda>_. None), x_recorded = None, x_incoming = None,
     x_request_id = None, x_method = ''GET'', x_path = ''/a'', x_route_path = None, x_aborted = False\<rparr>"

definition sample_limiter :: "(string \<Rightarrow> do_state) limiter" where
  "sample_limiter = \<lparr>lim_parse = (\<lambda>_. None), lim_workers = False, lim_caps = (\<lambda>_. JUndef),
     lim_hit = (\<lambda>_. dos_service), lim_key = (\<lambda>_ _. JUndef)\<rparr>"

definition sample_module :: limit_module where
  "sample_module = \<lparr>l_default = True, l_manual = None, l_configured = (\<lambda>_. None), l_next = 0\<rparr>"


text \<open>C8. A decision touches one budget only: whatever it answers, the counters of every other
  (scope, caller) pair are what they were, since the framed pair \<open>JSON.stringify([scope, caller])\<close>
  is different for different pairs.\<close>

theorem budgets_isolated:
  assumes "assertRateLimitOptions options = Inr ()"
    and "configureRateLimitFromEnv (lim_parse L) (x_env c) m = (Inr st, m')" and "lim_hit L st = dos_service"
    and "rate_plan L c scope options st t = Inr (json_pair scope caller, w, mx, msg)"
    and "admissible (json_pair scope caller) w t"
    and "jget options ''requires'' = JUndef" and "jget options ''backendTimeoutMs'' = JUndef" and "\<not> x_aborted c"
    and "dos_inv s" and "(scope', caller') \<noteq> (scope, caller)"
    and "evaluateRateLimit L c scope options Settles t t t2 (m, s) = (r, (m2, s2))"
  shows "dos_look s2 (json_pair scope' caller') = dos_look s (json_pair scope' caller') \<and> dos_inv s2"
proof -
  let ?k = "json_pair scope caller"
  have s2: "s2 = snd (dos_hit (JStr ?k) (NInt w) default_options Settles t t s)"
    using assms(11) unfolding evaluate_hit [OF assms(1,2,4,6-8)] assms(3) split_beta Let_def dos_service_snd by simp
  have "json_pair scope' caller' \<noteq> ?k" using assms(10) json_pair_inj by auto
  then show ?thesis using dos.hit_frame [OF assms(9,5)] dos.inv_hit [OF assms(9,5)] s2 by simp
qed

lemma budgets_isolated_witness:
  "dos_look (snd (snd (evaluateRateLimit sample_limiter sample_context ''a'' (JObj []) Settles 10 10 10 (sample_module, \<lambda>_. do_empty))))
     (json_pair ''b'' ''user:u1'') = None"
proof -
  let ?k = "json_pair ''a'' ''user:u1''"
  have o: "assertRateLimitOptions (JObj []) = Inr ()" by code_simp
  have cfg: "configureRateLimitFromEnv (lim_parse sample_limiter) (x_env sample_context) sample_module = (Inr ProcessMemory, sample_module)"
    by (simp add: configureRateLimitFromEnv_def sample_module_def sample_context_def)
  have h: "lim_hit sample_limiter ProcessMemory = dos_service" by (simp add: sample_limiter_def)
  have p: "rate_plan sample_limiter sample_context ''a'' (JObj []) ProcessMemory 10 = Inr (?k, 60000, 60, ''Too Many Requests'')"
    "admissible ?k 60000 10" by code_simp+
  have j: "jget (JObj []) ''requires'' = JUndef" "jget (JObj []) ''backendTimeoutMs'' = JUndef" "\<not> x_aborted sample_context"
    by (simp_all add: sample_context_def)
  have i: "dos_inv (\<lambda>_. do_empty)" by (simp add: dos_inv_def do_inv_def do_empty_def)
  have n: "(''b'', ''user:u1'') \<noteq> (''a'', ''user:u1'')" by simp
  have e: "evaluateRateLimit sample_limiter sample_context ''a'' (JObj []) Settles 10 10 10 (sample_module, \<lambda>_. do_empty) =
    (fst x, (fst (snd x), snd (snd x)))" if "x = evaluateRateLimit sample_limiter sample_context ''a'' (JObj []) Settles 10 10 10 (sample_module, \<lambda>_. do_empty)" for x
    using that by simp
  have "dos_look (\<lambda>_. do_empty) (json_pair ''b'' ''user:u1'') = None" by (simp add: dos_look_def do_look_def do_empty_def)
  then show ?thesis using budgets_isolated [OF o cfg h p j i n e [OF refl]] by simp
qed

text \<open>C10. Store selection never falls back: with no manual override and an explicit \<open>rateLimit\<close> value, a
  call gives either an error or a store of exactly the mode that value names, built from the
  binding or credentials the environment has now; and asking again with the same environment
  returns the very same store object and changes nothing.\<close>

theorem selection_never_falls_back:
  assumes "l_manual m = None" and "env_get e ''rateLimit'' = EVal (JStr v)"
    and "\<And>r sel st. l_configured m r = Some (sel, st) \<Longrightarrow> \<exists>i. st = SelectedStore i sel"
    and "configureRateLimitFromEnv parse (Env r e) m = (Inr st, m')"
  shows "(\<exists>i sel. st = SelectedStore i sel \<and> selection_of e (to_lower (trim v)) = Inr sel \<and> trim v \<noteq> []) \<and>
    configureRateLimitFromEnv parse (Env r e) m' = (Inr st, m')"
proof -
  have raw: "env_get e ''rateLimit'' \<noteq> EVal JUndef" using assms(2) by simp
  have t: "trim v \<noteq> []" using assms by (auto simp: configureRateLimitFromEnv_def)
  obtain sel where sel: "selection_of e (to_lower (trim v)) = Inr sel"
    using assms t by (cases "selection_of e (to_lower (trim v))") (auto simp: configureRateLimitFromEnv_def)
  let ?fresh = "SelectedStore (l_next m) sel"
  have unf: "(Inr st, m') = (case l_configured m r of
      Some (old, st) \<Rightarrow> if old = sel then (Inr st, m)
        else (case construct_store parse sel of Inl err \<Rightarrow> (Inl err, m)
          | Inr _ \<Rightarrow> (Inr ?fresh, m\<lparr>l_configured := (l_configured m)(r \<mapsto> (sel, ?fresh)), l_next := Suc (l_next m)\<rparr>))
    | None \<Rightarrow> (case construct_store parse sel of Inl err \<Rightarrow> (Inl err, m)
          | Inr _ \<Rightarrow> (Inr ?fresh, m\<lparr>l_configured := (l_configured m)(r \<mapsto> (sel, ?fresh)), l_next := Suc (l_next m)\<rparr>)))"
    using assms(4) by (simp add: configureRateLimitFromEnv_def assms(1,2) t sel)
  have "(l_configured m r = Some (sel, st) \<and> m' = m) \<or>
      (st = ?fresh \<and> m' = m\<lparr>l_configured := (l_configured m)(r \<mapsto> (sel, ?fresh)), l_next := Suc (l_next m)\<rparr>)"
    using unf by (cases "l_configured m r"; cases "construct_store parse sel") (auto split: if_splits)
  then show ?thesis
  proof (elim disjE exE conjE)
    assume c: "l_configured m r = Some (sel, st)" and m': "m' = m"
    then obtain i where "st = SelectedStore i sel" using assms(3) by blast
    then show ?thesis using assms(4) m' sel t by blast
  next
    assume st: "st = ?fresh" and m': "m' = m\<lparr>l_configured := (l_configured m)(r \<mapsto> (sel, ?fresh)), l_next := Suc (l_next m)\<rparr>"
    have "configureRateLimitFromEnv parse (Env r e) m' = (Inr st, m')"
      using assms(1,2) t sel by (simp add: configureRateLimitFromEnv_def m' st)
    then show ?thesis using st sel t by blast
  qed
qed

lemma selection_never_falls_back_witness:
  "let e = [(''rateLimit'', EVal (JStr '' KV '')), (''RATE_LIMITS'', EBinding 3 [''get'', ''put''])];
       (r, m') = configureRateLimitFromEnv (\<lambda>_. None) (Env 7 e) sample_module
   in configureRateLimitFromEnv (\<lambda>_. None) (Env 7 e) m' = (r, m')"
proof -
  let ?e = "[(''rateLimit'', EVal (JStr '' KV '')), (''RATE_LIMITS'', EBinding 3 [''get'', ''put''])]"
  let ?p = "configureRateLimitFromEnv (\<lambda>_. None) (Env 7 ?e) sample_module"
  have a: "l_manual sample_module = None" "env_get ?e ''rateLimit'' = EVal (JStr '' KV '')" by code_simp+
  have b: "\<And>r sel st. l_configured sample_module r = Some (sel, st) \<Longrightarrow> \<exists>i. st = SelectedStore i sel"
    by (simp add: sample_module_def)
  have "isl (fst ?p) = False" by code_simp
  then obtain st where st: "?p = (Inr st, snd ?p)" by (metis isl_def prod.collapse sum.collapse(2))
  show ?thesis using selection_never_falls_back [OF a b st] st by (simp add: Let_def split_beta)
qed

text \<open>C9. A client cannot choose its own bucket: the address depends only on the configuration, the
  transport address and the one header the deployment declares trusted, and for
  \<open>x-forwarded-for\<close> only on the last hop, so nothing a client puts before it matters.\<close>

theorem client_ip_noninterference:
  assumes "x_env c = x_env d" and "socketAddress c = socketAddress d"
    and "\<And>h. trustedProxyHeader (x_env c) = Inr (Some h) \<Longrightarrow>
      x_header c h = x_header d h \<or> (h = ''x-forwarded-for'' \<and> (\<exists>u v hop. CHR '','' \<notin> set hop \<and> trim hop \<noteq> [] \<and>
        x_header c h = Some (u @ '','' @ hop) \<and> x_header d h = Some (v @ '','' @ hop)))"
    and "workers \<Longrightarrow> x_header c ''cf-connecting-ip'' = x_header d ''cf-connecting-ip''"
  shows "getClientIp workers c = getClientIp workers d"
proof (cases "trustedProxyHeader (x_env c)")
  case (Inl e)
  then show ?thesis using assms(1) by (simp add: getClientIp_def)
next
  case (Inr tr)
  show ?thesis
  proof (cases tr)
    case None
    then show ?thesis using Inr assms(1,2,4) by (cases workers) (simp_all add: getClientIp_def header_or_empty_def Let_def)
  next
    case (Some h)
    have "(if h = ''x-forwarded-for'' then last_hop (header_or_empty c h) else trim (header_or_empty c h)) =
      (if h = ''x-forwarded-for'' then last_hop (header_or_empty d h) else trim (header_or_empty d h))"
      using assms(3) [of h] Inr Some last_hop_prefix by (auto simp: header_or_empty_def)
    then show ?thesis using Inr Some assms(1,2) by (simp add: getClientIp_def Let_def)
  qed
qed

lemma client_ip_noninterference_witness:
  "getClientIp False (sample_context\<lparr>x_env := Env 1 [(''RATE_LIMIT_TRUST_PROXY'', EVal (JStr ''X-Forwarded-For''))],
      x_header := (\<lambda>_. Some ''6.6.6.6, 1.2.3.4'')\<rparr>) =
   getClientIp False (sample_context\<lparr>x_env := Env 1 [(''RATE_LIMIT_TRUST_PROXY'', EVal (JStr ''X-Forwarded-For''))],
      x_header := (\<lambda>_. Some ''7.7.7.7, 8.8.8.8, 1.2.3.4'')\<rparr>)"
proof -
  let ?c = "sample_context\<lparr>x_env := Env 1 [(''RATE_LIMIT_TRUST_PROXY'', EVal (JStr ''X-Forwarded-For''))],
      x_header := (\<lambda>_. Some ''6.6.6.6, 1.2.3.4'')\<rparr>"
  let ?d = "sample_context\<lparr>x_env := Env 1 [(''RATE_LIMIT_TRUST_PROXY'', EVal (JStr ''X-Forwarded-For''))],
      x_header := (\<lambda>_. Some ''7.7.7.7, 8.8.8.8, 1.2.3.4'')\<rparr>"
  have t: "trustedProxyHeader (x_env ?c) = Inr (Some ''x-forwarded-for'')" by code_simp
  have h: "trim '' 1.2.3.4'' \<noteq> []" by code_simp
  have "x_header ?c h = Some (''6.6.6.6'' @ '','' @ '' 1.2.3.4'')" "x_header ?d h = Some (''7.7.7.7, 8.8.8.8'' @ '','' @ '' 1.2.3.4'')" for h
    by simp_all
  moreover have "CHR '','' \<notin> set '' 1.2.3.4''" by simp
  ultimately have hop: "\<exists>u v hop. CHR '','' \<notin> set hop \<and> trim hop \<noteq> [] \<and>
      x_header ?c h = Some (u @ '','' @ hop) \<and> x_header ?d h = Some (v @ '','' @ hop)" for h
    using h by blast
  have "socketAddress ?c = socketAddress ?d" by (simp add: socketAddress_def sample_context_def truthy_def)
  then show ?thesis
    by (intro client_ip_noninterference) (use t hop in simp_all)
qed

text \<open>The limit declared on the nearest class of the prototype chain wins: after decorating a method
  of a class, that class enforces exactly these options, its other methods and all its
  ancestors keep theirs.\<close>

theorem decorator_nearest_wins:
  assumes "chain \<noteq> []" and "action \<noteq> []" and "assertRateLimitOptions opts = Inr ()"
  shows "getRateLimitForAction (rateLimitDecorator opts action chain) action = Inr (Some opts) \<and>
    (\<forall>other. other \<noteq> action \<longrightarrow>
      getRateLimitForAction (rateLimitDecorator opts action chain) other = getRateLimitForAction chain other) \<and>
    tl (rateLimitDecorator opts action chain) = tl chain"
proof -
  obtain own rest where c: "chain = own # rest" using assms(1) by (cases chain) auto
  show ?thesis using assms(2,3) by (cases own) (auto simp: c rateLimitDecorator_def)
qed

lemma decorator_nearest_wins_witness:
  "getRateLimitForAction (rateLimitDecorator (JObj [(''max'', JNum (NInt 5))]) ''save''
     [None, Some [(''save'', JObj []), (''load'', JObj [])]]) ''save'' = Inr (Some (JObj [(''max'', JNum (NInt 5))]))"
  using decorator_nearest_wins [of "[None, Some [(''save'', JObj []), (''load'', JObj [])]]" "''save''" "JObj [(''max'', JNum (NInt 5))]"]
  by (simp add: assertRateLimitOptions_def rate_option_names_def)

end
