(* ===== verification/Cron.thy ===== *)
theory Cron
  imports Prelude
begin

text \<open>
  Schedule expressions: \<open>validateScheduleCron\<close> of \<open>core/src/schedules/cron.ts\<close>. The check is
  syntactic; the values a field selects are defined here to say what it guarantees.
\<close>

section \<open>The validator\<close>

(* models packages/core/src/schedules/cron.ts:1-1 MONTHS *)
definition MONTHS :: "string list" where
  "MONTHS = [''JAN'', ''FEB'', ''MAR'', ''APR'', ''MAY'', ''JUN'', ''JUL'', ''AUG'', ''SEP'', ''OCT'', ''NOV'', ''DEC'']"

(* models packages/core/src/schedules/cron.ts:2-2 WEEKDAYS *)
definition WEEKDAYS :: "string list" where
  "WEEKDAYS = [''SUN'', ''MON'', ''TUE'', ''WED'', ''THU'', ''FRI'', ''SAT'']"

datatype cron_error = InvalidSchedule

text \<open>\<open>replace(/\s+/g, ' ')\<close>.\<close>

fun collapse_ws :: "string \<Rightarrow> string" where
  "collapse_ws [] = []"
| "collapse_ws (c # cs) =
     (if is_ws c then (case cs of [] \<Rightarrow> '' '' | d # _ \<Rightarrow> if is_ws d then collapse_ws cs else CHR '' '' # collapse_ws cs)
      else c # collapse_ws cs)"

text \<open>\<open>/^\d{1,2}$/\<close> and \<open>Number\<close> of such a text.\<close>

definition one_two_digits :: "string \<Rightarrow> bool" where
  "one_two_digits s \<longleftrightarrow> (length s = 1 \<or> length s = 2) \<and> list_all is_digit s"

definition digits_value :: "string \<Rightarrow> nat" where
  "digits_value s = foldl (\<lambda>n c. 10 * n + (code c - 48)) 0 s"

fun index_of :: "'a list \<Rightarrow> 'a \<Rightarrow> nat option" where
  "index_of [] y = None"
| "index_of (x # xs) y = (if x = y then Some 0 else map_option Suc (index_of xs y))"

(* models packages/core/src/schedules/cron.ts:9-9 limits *)
definition cron_limits :: "(nat \<times> nat) list" where
  "cron_limits = [(0, 59), (0, 23), (1, 31), (1, 12), (1, 7)]"

definition cron_names :: "nat \<Rightarrow> string list" where
  "cron_names index = (if index = 3 then MONTHS else if index = 4 then WEEKDAYS else [])"

(* models packages/core/src/schedules/cron.ts:13-18 number *)
definition cron_number :: "string list \<Rightarrow> nat \<Rightarrow> nat \<Rightarrow> string \<Rightarrow> cron_error + nat" where
  "cron_number names lo hi part = (case index_of names part of
     Some i \<Rightarrow> Inr (i + 1)
   | None \<Rightarrow> if \<not> one_two_digits part then Inl InvalidSchedule
       else (let r = digits_value part in if r < lo \<or> r > hi then Inl InvalidSchedule else Inr r))"

(* models packages/core/src/schedules/cron.ts:19-27 item *)
definition cron_item :: "string list \<Rightarrow> nat \<Rightarrow> nat \<Rightarrow> string \<Rightarrow> cron_error + unit" where
  "cron_item names lo hi item =
     (let segments = split_on CHR ''/'' item; base = hd segments in
      if length segments > 2 \<or> base = [] then Inl InvalidSchedule
      else if length segments = 2 \<and> (\<not> one_two_digits (segments ! 1) \<or> digits_value (segments ! 1) < 1 \<or>
                digits_value (segments ! 1) > hi - lo + 1) then Inl InvalidSchedule
      else if base = ''*'' then Inr ()
      else (let range = split_on CHR ''-'' base in
        if length range > 2 \<or> [] \<in> set range then Inl InvalidSchedule
        else bindr (cron_number names lo hi (range ! 0)) (\<lambda>start.
             bindr (if length range = 2 then cron_number names lo hi (range ! 1) else Inr hi) (\<lambda>end'.
             guardr (start \<le> end') InvalidSchedule))))"

definition cron_field :: "nat \<Rightarrow> string \<Rightarrow> cron_error + unit" where
  "cron_field index field = (let (lo, hi) = cron_limits ! index in
     bindr (mapr (cron_item (cron_names index) lo hi) (split_on CHR '','' field)) (\<lambda>_. Inr ()))"

(* models packages/core/src/schedules/cron.ts:5-30 validateScheduleCron *)
definition validateScheduleCron :: "jsv \<Rightarrow> cron_error + string" where
  "validateScheduleCron raw = (case raw of
     JStr s \<Rightarrow>
       if length s > 256 then Inl InvalidSchedule
       else (let expression = collapse_ws (to_upper (trim s)); fields = split_on CHR '' '' expression in
         if length fields \<noteq> 5 then Inl InvalidSchedule
         else bindr (mapr (\<lambda>i. cron_field i (fields ! i)) [0..<5]) (\<lambda>_. Inr expression))
   | _ \<Rightarrow> Inl InvalidSchedule)"


section \<open>What an item selects\<close>

definition number_value :: "string list \<Rightarrow> string \<Rightarrow> nat" where
  "number_value names part = (case index_of names part of Some i \<Rightarrow> i + 1 | None \<Rightarrow> digits_value part)"

definition item_values :: "string list \<Rightarrow> nat \<Rightarrow> nat \<Rightarrow> string \<Rightarrow> nat set" where
  "item_values names lo hi item =
     (let segments = split_on CHR ''/'' item; base = hd segments;
          step = (if length segments = 2 then digits_value (segments ! 1) else 1);
          range = split_on CHR ''-'' base;
          start = (if base = ''*'' then lo else number_value names (range ! 0));
          end' = (if base = ''*'' then hi else if length range = 2 then number_value names (range ! 1) else hi)
      in {v. start \<le> v \<and> v \<le> end' \<and> step dvd (v - start)})"

definition field_values :: "nat \<Rightarrow> string \<Rightarrow> nat set" where
  "field_values index field = (let (lo, hi) = cron_limits ! index in
     (\<Union>item \<in> set (split_on CHR '','' field). item_values (cron_names index) lo hi item))"

lemma index_of_less: "index_of xs y = Some i \<Longrightarrow> i < length xs"
  by (induction xs arbitrary: i) (auto split: if_splits)

lemma cron_number_bounds:
  assumes "cron_number names lo hi part = Inr n" and "lo \<le> 1" and "names = [] \<or> length names \<le> hi"
  shows "n = number_value names part \<and> lo \<le> n \<and> n \<le> hi"
  using assms index_of_less [of names part]
  by (auto simp: cron_number_def number_value_def Let_def split: option.splits if_splits)

lemma cron_number_nonames:
  assumes "cron_number [] lo hi part = Inr n"
  shows "n = number_value [] part \<and> lo \<le> n \<and> n \<le> hi"
  using assms by (auto simp: cron_number_def number_value_def Let_def split: if_splits)

lemma cron_number_ok:
  assumes "cron_number names lo hi part = Inr n" and "names = [] \<or> lo \<le> 1 \<and> length names \<le> hi"
  shows "n = number_value names part \<and> lo \<le> n \<and> n \<le> hi"
  using assms cron_number_bounds cron_number_nonames by blast

lemma cron_item_values:
  assumes "cron_item names lo hi item = Inr ()" and "names = [] \<or> lo \<le> 1 \<and> length names \<le> hi" and "lo \<le> hi"
  shows "item_values names lo hi item \<noteq> {} \<and> item_values names lo hi item \<subseteq> {lo..hi}"
proof (cases "hd (split_on CHR ''/'' item) = ''*''")
  case True
  then have "item_values names lo hi item \<subseteq> {lo..hi}" by (auto simp: item_values_def Let_def)
  moreover have "lo \<in> item_values names lo hi item" using True assms(3) by (simp add: item_values_def Let_def)
  ultimately show ?thesis by blast
next
  case False
  let ?range = "split_on CHR ''-'' (hd (split_on CHR ''/'' item))"
  obtain a b where a: "cron_number names lo hi (?range ! 0) = Inr a"
    and b: "(if length ?range = 2 then cron_number names lo hi (?range ! 1) else Inr hi) = Inr b" and ab: "a \<le> b"
    using assms(1) False by (auto simp: cron_item_def Let_def split: if_splits)
  have va: "a = number_value names (?range ! 0)" "lo \<le> a" using cron_number_ok [OF a assms(2)] by auto
  have vb: "b = (if length ?range = 2 then number_value names (?range ! 1) else hi)" "b \<le> hi"
    using b cron_number_ok [OF _ assms(2)] by (auto split: if_splits)
  have v: "item_values names lo hi item = {v. a \<le> v \<and> v \<le> b \<and>
      (if length (split_on CHR ''/'' item) = 2 then digits_value (split_on CHR ''/'' item ! 1) else 1) dvd (v - a)}"
    using False va(1) vb(1) by (simp add: item_values_def Let_def)
  have "a \<in> item_values names lo hi item" using v ab by simp
  moreover have "item_values names lo hi item \<subseteq> {lo..hi}" using v va(2) vb(2) by auto
  ultimately show ?thesis by blast
qed

text \<open>An accepted schedule is normalised to exactly five fields, and every item of every field
  selects at least one value and only values in that field's range (minute, hour, day, month,
  weekday), names included: no accepted schedule has an item that can never fire or that a
  provider would have to reject for its bounds.\<close>

theorem cron_items_in_range:
  assumes "validateScheduleCron raw = Inr e"
  shows "length (split_on CHR '' '' e) = 5 \<and>
    (\<forall>i<5. \<forall>item \<in> set (split_on CHR '','' (split_on CHR '' '' e ! i)).
       let (lo, hi) = cron_limits ! i; vs = item_values (cron_names i) lo hi item in vs \<noteq> {} \<and> vs \<subseteq> {lo..hi})"
proof -
  let ?fields = "split_on CHR '' '' e"
  obtain ys where five: "length ?fields = 5" and ys: "mapr (\<lambda>i. cron_field i (?fields ! i)) [0..<5] = Inr ys"
    using assms by (auto simp: validateScheduleCron_def Let_def split: jsv.splits if_splits)
  have item: "let (lo, hi) = cron_limits ! i; vs = item_values (cron_names i) lo hi item in vs \<noteq> {} \<and> vs \<subseteq> {lo..hi}"
    if i: "i < 5" and m: "item \<in> set (split_on CHR '','' (?fields ! i))" for i item
  proof -
    obtain lo hi where l: "cron_limits ! i = (lo, hi)" by (cases "cron_limits ! i")
    have "i = 0 \<or> i = 1 \<or> i = 2 \<or> i = 3 \<or> i = 4" using i by auto
    then have lim: "lo \<le> hi" "cron_names i = [] \<or> lo \<le> 1 \<and> length (cron_names i) \<le> hi"
      using l by (auto simp: cron_limits_def cron_names_def MONTHS_def WEEKDAYS_def)
    have "cron_field i (?fields ! i) = Inr (ys ! i)" using mapr_Inr_nth [OF ys, of i] i by simp
    then obtain zs where zs: "mapr (cron_item (cron_names i) lo hi) (split_on CHR '','' (?fields ! i)) = Inr zs"
      by (auto simp: cron_field_def l)
    obtain n where n: "n < length (split_on CHR '','' (?fields ! i))" "split_on CHR '','' (?fields ! i) ! n = item"
      using m by (auto simp: in_set_conv_nth)
    then have "cron_item (cron_names i) lo hi item = Inr ()" using mapr_Inr_nth [OF zs n(1)] by simp
    then show ?thesis using cron_item_values [OF _ lim(2,1)] l by simp
  qed
  then show ?thesis using five by blast
qed

lemma cron_items_in_range_witness:
  "length (split_on CHR '' '' ''*/15 9-17 1,15 JAN-JUN/2 MON'') = 5"
proof -
  have "validateScheduleCron (JStr '' */15  9-17 1,15 jan-Jun/2 Mon '') = Inr ''*/15 9-17 1,15 JAN-JUN/2 MON''" by code_simp
  then show ?thesis by (rule cron_items_in_range [THEN conjunct1])
qed

end
