(* ===== verification/Route_Ids.thy ===== *)
theory Route_Ids
  imports Prelude "HOL-Library.Product_Lexorder" "HOL-Library.Multiset"
begin

text \<open>
  Route identity: \<open>framework/src/route-ids.ts\<close>. File paths become route patterns by a few
  regular-expression replacements, written here as matchers; the page that owns each public
  route is selected, and the component ids both the server and the client derive are computed
  from the sorted paths. \<open>localeCompare\<close> is an argument, since it depends on the host's locale.
\<close>

section \<open>Replacements\<close>

text \<open>A matcher answers with the replacement and the rest of the text. Every expression used
  here matches at least one character.\<close>

fun replace_matches :: "(string \<Rightarrow> (string \<times> string) option) \<Rightarrow> string \<Rightarrow> string" where
  "replace_matches m [] = []"
| "replace_matches m (c # cs) = (case m (c # cs) of
     None \<Rightarrow> c # replace_matches m cs
   | Some (r, rest) \<Rightarrow> if length rest \<le> length cs then r @ replace_matches m rest else c # replace_matches m cs)"

fun count_matches :: "(string \<Rightarrow> (string \<times> string) option) \<Rightarrow> string \<Rightarrow> nat" where
  "count_matches m [] = 0"
| "count_matches m (c # cs) = (case m (c # cs) of
     None \<Rightarrow> count_matches m cs
   | Some (r, rest) \<Rightarrow> if length rest \<le> length cs then Suc (count_matches m rest) else count_matches m cs)"

text \<open>\<open>open [^stop]+ stop\<close>: the body between two delimiters.\<close>

definition delimited :: "string \<Rightarrow> char \<Rightarrow> string \<Rightarrow> (string \<times> string) option" where
  "delimited op stop s = (if starts_with s op
     then (let t = drop (length op) s; body = takeWhile (\<lambda>c. c \<noteq> stop) t; rest = dropWhile (\<lambda>c. c \<noteq> stop) t
           in if body \<noteq> [] \<and> rest \<noteq> [] then Some (body, tl rest) else None)
     else None)"

definition group_match :: "string \<Rightarrow> (string \<times> string) option" where
  "group_match s = map_option (\<lambda>(b, rest). ([], rest)) (delimited ''/('' CHR '')'' s)"

definition catch_all_match :: "string \<Rightarrow> (string \<times> string) option" where
  "catch_all_match s = map_option (\<lambda>(b, rest). (CHR '':'' # b @ [CHR 0x7B] @ ''.+'' @ [CHR 0x7D], rest)) (delimited ''[...'' CHR '']'' s)"

definition dynamic_match :: "string \<Rightarrow> (string \<times> string) option" where
  "dynamic_match s = map_option (\<lambda>(b, rest). (CHR '':'' # b, rest)) (delimited ''['' CHR '']'' s)"

definition catch_suffix :: string where
  "catch_suffix = [CHR 0x7B] @ ''.+'' @ [CHR 0x7D]"

definition strip_suffix :: "string \<Rightarrow> string \<Rightarrow> string" where
  "strip_suffix suf s = (if ends_with s suf then take (length s - length suf) s else s)"

text \<open>\<open>/\.(a|b|c)$/\<close>: at most one of the suffixes is removed.\<close>

fun strip_one_of :: "string list \<Rightarrow> string \<Rightarrow> string" where
  "strip_one_of [] s = s"
| "strip_one_of (x # xs) s = (if ends_with s x then strip_suffix x s else strip_one_of xs s)"

datatype route_error = UnsupportedSegment string | DuplicateRoute string "string list" | MissingParameter string

(* models packages/framework/src/route-ids.ts:19-19 APP_FILE_PATH *)
definition APP_FILE_PATH :: string where
  "APP_FILE_PATH = ''/src/App''"

(* models packages/framework/src/route-ids.ts:17-17 APP_ROUTE_ID *)
definition APP_ROUTE_ID :: string where
  "APP_ROUTE_ID = ''cossack_app''"


section \<open>Ancestry\<close>

fun layout_walk :: "string \<Rightarrow> string list \<Rightarrow> string list \<Rightarrow> string list" where
  "layout_walk directory [] available = []"
| "layout_walk directory (part # parts) available =
     (let directory' = directory @ ''/'' @ part; layout = directory' @ ''/layout.ts''
      in (if layout \<in> set available then [layout] else []) @ layout_walk directory' parts available)"

(* models packages/framework/src/route-ids.ts:22-34 resolveLayoutPaths *)
definition resolveLayoutPaths :: "string \<Rightarrow> string list \<Rightarrow> string list" where
  "resolveLayoutPaths pageFilePath available =
     (let parts = split_on CHR ''/'' (replace_first ''/src/pages/'' [] pageFilePath)
      in (if ''/src/pages/layout.ts'' \<in> set available then [''/src/pages/layout.ts''] else []) @
         layout_walk ''/src/pages'' (butlast parts) available)"

text \<open>The two kinds of boundary page.\<close>

datatype boundary = B404 | BError

fun boundary_name :: "boundary \<Rightarrow> string" where
  "boundary_name B404 = ''404''"
| "boundary_name BError = ''error''"

definition special_candidate :: "string list \<Rightarrow> boundary \<Rightarrow> nat \<Rightarrow> string" where
  "special_candidate parts type index =
     (let directory = join_with ''/'' (take index parts)
      in ''/src/pages/'' @ (if directory \<noteq> [] then directory @ ''/'' else []) @ boundary_name type @ ''/index.ts'')"

(* models packages/framework/src/route-ids.ts:37-46 resolveNearestSpecialPage *)
definition resolveNearestSpecialPage :: "string \<Rightarrow> string list \<Rightarrow> boundary \<Rightarrow> string option" where
  "resolveNearestSpecialPage pageFilePath pageKeys type =
     (let parts = split_on CHR ''/'' (replace_first ''/src/pages/'' [] pageFilePath)
      in List.find (\<lambda>c. c \<in> set pageKeys) (map (special_candidate parts type) (rev [0..<length parts])))"


section \<open>Patterns\<close>

(* models packages/framework/src/route-ids.ts:48-48 classifyRoute *)
datatype route_kind = KPage | KApi | K404 | KError

(* models packages/framework/src/route-ids.ts:48-53 classifyRoute *)
definition classifyRoute :: "string \<Rightarrow> route_kind" where
  "classifyRoute pattern =
     (if ends_with pattern ''/404'' then K404
      else if ends_with pattern ''/error'' then KError
      else if pattern = ''/api'' \<or> starts_with pattern ''/api/'' then KApi
      else KPage)"

definition is_boundary :: "route_kind \<Rightarrow> bool" where
  "is_boundary k \<longleftrightarrow> k = K404 \<or> k = KError"

text \<open>The callback of the static-parameter replacement: the key, and the rest of the pattern.\<close>

definition static_token :: "string \<Rightarrow> (string \<times> string) option" where
  "static_token s = (case delimited ''[...'' CHR '']'' s of
     Some t \<Rightarrow> Some t
   | None \<Rightarrow> (case delimited ''['' CHR '']'' s of
       Some t \<Rightarrow> Some t
     | None \<Rightarrow> (case s of [] \<Rightarrow> None | c # t \<Rightarrow>
         if c = CHR '':'' \<and> takeWhile is_word t \<noteq> [] then Some (takeWhile is_word t, dropWhile is_word t) else None)))"

(* models packages/framework/src/route-ids.ts:56-65 resolveStaticRoutePath *)
fun resolveStaticRoutePath :: "string \<Rightarrow> (string \<times> string) list \<Rightarrow> route_error + string" where
  "resolveStaticRoutePath [] params = Inr []"
| "resolveStaticRoutePath (c # cs) params = (case static_token (c # cs) of
     None \<Rightarrow> bindr (resolveStaticRoutePath cs params) (\<lambda>r. Inr (c # r))
   | Some (key, rest) \<Rightarrow>
      if length rest \<le> length cs then
        (case map_of params key of
           None \<Rightarrow> Inl (MissingParameter key)
         | Some v \<Rightarrow> if v = [] then Inl (MissingParameter key) else bindr (resolveStaticRoutePath rest params) (\<lambda>r. Inr (v @ r)))
      else bindr (resolveStaticRoutePath cs params) (\<lambda>r. Inr (c # r)))"

(* models packages/framework/src/route-ids.ts:71-87 filePathToRoutePath *)
definition filePathToRoutePath :: "string \<Rightarrow> string" where
  "filePathToRoutePath filePath =
     (let r1 = replace_first ''/src/pages/'' ''/'' filePath;
          r2 = replace_first ''/index.ts'' [] r1;
          r3 = replace_first ''/index.mdx'' [] r2;
          r4 = replace_first ''/index.md'' [] r3;
          r5 = strip_one_of [''.ts'', ''.md'', ''.mdx''] r4;
          route = replace_matches group_match r5
      in if route = ''/index'' \<or> route = [] then ''/'' else route)"

(* models packages/framework/src/route-ids.ts:99-117 filePathToHttpRoute *)
definition filePathToHttpRoute :: "string \<Rightarrow> route_error + string" where
  "filePathToHttpRoute filePath =
     (if contains filePath ''[['' then Inl (UnsupportedSegment filePath)
      else (let r1 = replace_first ''/src/pages'' [] filePath;
                r2 = strip_one_of [''.ts'', ''.js'', ''.md'', ''.mdx''] r1;
                r3 = strip_suffix ''/index'' r2;
                r4 = replace_matches group_match r3;
                r5 = replace_matches catch_all_match r4;
                route = replace_matches dynamic_match r5
            in Inr (if route = ''/index'' then ''/'' else if route = [] then ''/'' else route)))"


section \<open>The order of registration\<close>

(* models packages/framework/src/route-ids.ts:133-138 segmentSpecificity *)
definition segmentSpecificity :: "string \<Rightarrow> int" where
  "segmentSpecificity segment =
     (if segment = [] then 0
      else if ends_with segment ''*'' \<or> ends_with segment catch_suffix then 2
      else if starts_with segment '':'' then 1 else 0)"

fun compare_segments :: "string list \<Rightarrow> string list \<Rightarrow> int" where
  "compare_segments (a # as) (b # bs) =
     (if a = b then compare_segments as bs
      else if segmentSpecificity a - segmentSpecificity b \<noteq> 0 then segmentSpecificity a - segmentSpecificity b
      else if a < b then - 1 else 1)"
| "compare_segments as bs = int (length as) - int (length bs)"

(* models packages/framework/src/route-ids.ts:150-161 compareHttpRoutes *)
definition compareHttpRoutes :: "string \<Rightarrow> string \<Rightarrow> int" where
  "compareHttpRoutes a b = compare_segments (split_on CHR ''/'' a) (split_on CHR ''/'' b)"


section \<open>The owner of each public route\<close>

(* models packages/framework/src/route-ids.ts:163-165 routeGroupCount *)
definition routeGroupCount :: "string \<Rightarrow> nat" where
  "routeGroupCount filePath = count_matches group_match filePath"

definition param_match :: "string \<Rightarrow> (string \<times> string) option" where
  "param_match s = (case s of [] \<Rightarrow> None | c # t \<Rightarrow>
     (let body = takeWhile (\<lambda>c. c \<noteq> CHR ''/'') t in
      if c = CHR '':'' \<and> body \<noteq> [] then Some (if ends_with body catch_suffix then '':*'' else '':param'', dropWhile (\<lambda>c. c \<noteq> CHR ''/'') t)
      else None))"

(* models packages/framework/src/route-ids.ts:172-177 pageRouteCollisionKey *)
definition pageRouteCollisionKey :: "string \<Rightarrow> route_error + string" where
  "pageRouteCollisionKey filePath = bindr (filePathToHttpRoute filePath) (\<lambda>r. Inr (replace_matches param_match r))"

text \<open>The first loop: boundaries apart, other pages under their collision key.\<close>

fun collect_candidates :: "string list \<Rightarrow> (string \<times> string list) list \<Rightarrow> string list
    \<Rightarrow> route_error + ((string \<times> string list) list \<times> string list)" where
  "collect_candidates [] cands bounds = Inr (cands, bounds)"
| "collect_candidates (path # paths) cands bounds =
     bindr (filePathToHttpRoute path) (\<lambda>r.
       if is_boundary (classifyRoute r) then collect_candidates paths cands (bounds @ [path])
       else bindr (pageRouteCollisionKey path) (\<lambda>key.
         collect_candidates paths
           (AList.update key ((case map_of cands key of None \<Rightarrow> [] | Some ps \<Rightarrow> ps) @ [path]) cands) bounds))"

definition precedence :: "(string \<Rightarrow> string \<Rightarrow> int) \<Rightarrow> string \<Rightarrow> string \<Rightarrow> int" where
  "precedence localeCompare a b =
     (let d = int (routeGroupCount a) - int (routeGroupCount b) in if d \<noteq> 0 then d else localeCompare a b)"

definition pick_owner :: "(string \<Rightarrow> string \<Rightarrow> int) \<Rightarrow> string \<times> string list \<Rightarrow> route_error + string" where
  "pick_owner localeCompare = (\<lambda>(route, paths).
     let sorted = sort_by (precedence localeCompare) paths;
         tied = filter (\<lambda>p. routeGroupCount p = routeGroupCount (hd sorted)) sorted
     in if length tied > 1 then Inl (DuplicateRoute route tied) else Inr (hd sorted))"

text \<open>\<open>Array.prototype.sort\<close> without a comparator compares code units.\<close>

definition str_cmp :: "string \<Rightarrow> string \<Rightarrow> int" where
  "str_cmp a b = (if a = b then 0 else if a < b then - 1 else 1)"

(* models packages/framework/src/route-ids.ts:185-215 resolvePageRouteFiles *)
definition resolvePageRouteFiles :: "(string \<Rightarrow> string \<Rightarrow> int) \<Rightarrow> string list \<Rightarrow> route_error + string list" where
  "resolvePageRouteFiles localeCompare pageKeys =
     bindr (collect_candidates pageKeys [] []) (\<lambda>(cands, bounds).
     bindr (mapr (pick_owner localeCompare) cands) (\<lambda>owners.
     Inr (sort_by str_cmp (uniq bounds @ owners))))"


section \<open>Component ids\<close>

definition digit36 :: "nat \<Rightarrow> char" where
  "digit36 n = (if n < 10 then char_of (48 + n) else char_of (87 + n))"

fun text36 :: "nat \<Rightarrow> string" where
  "text36 n = (if n < 36 then [digit36 n] else text36 (n div 36) @ [digit36 (n mod 36)])"

declare text36.simps [simp del]

definition component_id :: "nat \<Rightarrow> string" where
  "component_id index = ''cmp_'' @ text36 index"

(* models packages/framework/src/route-ids.ts:311-318 RouteIdMaps *)
record route_maps =
  routeIdMap :: "(string \<times> string) list"
  routePathToIdMap :: "(string \<times> string) list"
  routePathToFilePathMap :: "(string \<times> string) list"

fun assign_ids :: "nat \<Rightarrow> string list \<Rightarrow> route_maps \<Rightarrow> route_maps" where
  "assign_ids index [] m = m"
| "assign_ids index (path # paths) m =
     assign_ids (Suc index) paths (m\<lparr>routeIdMap := AList.update (component_id index) path (routeIdMap m),
       routePathToIdMap := AList.update path (component_id index) (routePathToIdMap m)\<rparr>)"

definition public_page :: "string \<Rightarrow> bool" where
  "public_page path = (case filePathToHttpRoute path of Inl _ \<Rightarrow> False | Inr r \<Rightarrow> \<not> is_boundary (classifyRoute r))"

definition page_paths :: "string list \<Rightarrow> (string \<times> string) list \<Rightarrow> (string \<times> string) list" where
  "page_paths pages m = foldl (\<lambda>m path. if public_page path then AList.update (filePathToRoutePath path) path m else m) m pages"

definition layout_paths :: "string list \<Rightarrow> (string \<times> string) list \<Rightarrow> (string \<times> string) list" where
  "layout_paths layouts m = foldl (\<lambda>m path. if has_key m (filePathToRoutePath path) then m
     else AList.update (filePathToRoutePath path) path m) m layouts"

(* models packages/framework/src/route-ids.ts:402-432 computeRouteIds *)
definition computeRouteIds :: "(string \<Rightarrow> string \<Rightarrow> int) \<Rightarrow> string list \<Rightarrow> string list \<Rightarrow> route_error + route_maps" where
  "computeRouteIds localeCompare pageKeys layoutKeys =
     bindr (resolvePageRouteFiles localeCompare pageKeys) (\<lambda>resolved.
       let m0 = \<lparr>routeIdMap = [(APP_ROUTE_ID, APP_FILE_PATH)], routePathToIdMap = [], routePathToFilePathMap = []\<rparr>;
           m1 = assign_ids 0 (sort_by str_cmp (resolved @ layoutKeys)) m0
       in Inr (m1\<lparr>routePathToFilePathMap := layout_paths (sort_by str_cmp layoutKeys) (page_paths resolved [])\<rparr>))"

end
