(* ===== verification/Route_Order.thy ===== *)
theory Route_Order
  imports Route_Ids
begin

text \<open>
  Properties of the route identities of \<open>framework/src/route-ids.ts\<close>: the registration order is
  linear, the owner of a public route and the component ids depend on the set of files only,
  and the nearest boundary page is the deepest one.
\<close>

section \<open>Sorting by code units\<close>

lemma insert_by_str_cmp: "insert_by str_cmp x xs = insort x xs"
  by (induction xs) (auto simp: str_cmp_def)

lemma sort_by_str_cmp: "sort_by str_cmp xs = sort xs"
  by (induction xs) (simp_all add: insert_by_str_cmp)

lemma mset_insert_by [simp]: "mset (insert_by cmp x xs) = add_mset x (mset xs)"
  by (induction xs) auto

lemma mset_sort_by [simp]: "mset (sort_by cmp xs) = mset xs"
  by (induction xs) auto

lemma sort_by_empty: "sort_by cmp xs = [] \<longleftrightarrow> xs = []"
  using length_sort_by [of cmp xs] by (metis length_0_conv)

lemma filter_length_mset: "mset xs = mset ys \<Longrightarrow> length (filter P xs) = length (filter P ys)"
  by (metis mset_filter size_mset)


section \<open>The order of registration\<close>

definition route_key :: "string \<Rightarrow> (int \<times> string) list" where
  "route_key r = map (\<lambda>s. (segmentSpecificity s, s)) (split_on CHR ''/'' r)"

lemma Nil_less_map: "[] < map f bs \<longleftrightarrow> bs \<noteq> []"
  by (cases bs) auto

lemma compare_segments_less:
  "compare_segments as bs < 0 \<longleftrightarrow> map (\<lambda>s. (segmentSpecificity s, s)) as < map (\<lambda>s. (segmentSpecificity s, s)) bs"
proof (induction as bs rule: compare_segments.induct)
  case (1 a as b bs)
  then show ?case by (auto simp: less_prod_def)
qed (auto simp: Nil_less_map)

lemma compare_segments_zero: "compare_segments as bs = 0 \<longleftrightarrow> as = bs"
  by (induction as bs rule: compare_segments.induct) auto

lemma split_on_inj: "split_on c a = split_on c b \<longleftrightarrow> a = b"
  using join_split_on by metis

lemma route_key_inj: "route_key a = route_key b \<longleftrightarrow> a = b"
proof
  assume "route_key a = route_key b"
  then have "map snd (route_key a) = map snd (route_key b)" by simp
  then show "a = b" by (simp add: route_key_def o_def split_on_inj)
qed simp

text \<open>Registration order is a strict linear order, whatever order the files were found in: comparing
  two patterns is comparing their segment lists lexicographically by (specificity rank, text),
  so it is transitive, total and only equal patterns tie; at the first segment where two
  patterns differ, a literal comes before a parameter and a parameter before a catch-all.\<close>

theorem compareHttpRoutes_linear:
  "(compareHttpRoutes a b < 0 \<longleftrightarrow> route_key a < route_key b) \<and>
   (compareHttpRoutes a b = 0 \<longleftrightarrow> a = b) \<and>
   (compareHttpRoutes a b > 0 \<longleftrightarrow> route_key b < route_key a)"
proof -
  have l: "compareHttpRoutes x y < 0 \<longleftrightarrow> route_key x < route_key y" for x y
    by (simp add: compareHttpRoutes_def compare_segments_less route_key_def)
  have z: "compareHttpRoutes a b = 0 \<longleftrightarrow> a = b"
    by (simp add: compareHttpRoutes_def compare_segments_zero split_on_inj)
  have "compareHttpRoutes a b > 0 \<longleftrightarrow> \<not> route_key a < route_key b \<and> a \<noteq> b"
    using l [of a b] z by linarith
  also have "\<dots> \<longleftrightarrow> route_key b < route_key a"
    using route_key_inj [of a b] by (metis not_less_iff_gr_or_eq)
  finally show ?thesis using l z by blast
qed


section \<open>Owners\<close>

text \<open>The page's pattern and collision key, when it has a pattern.\<close>

definition http_of :: "string \<Rightarrow> string" where
  "http_of p = (case filePathToHttpRoute p of Inl _ \<Rightarrow> [] | Inr r \<Rightarrow> r)"

definition key_of :: "string \<Rightarrow> string" where
  "key_of p = replace_matches param_match (http_of p)"

definition boundary_page :: "string \<Rightarrow> bool" where
  "boundary_page p \<longleftrightarrow> is_boundary (classifyRoute (http_of p))"

definition routable :: "string \<Rightarrow> bool" where
  "routable p \<longleftrightarrow> \<not> contains p ''[[''"

lemma http_routable: "routable p \<Longrightarrow> filePathToHttpRoute p = Inr (http_of p)"
  by (simp add: routable_def http_of_def filePathToHttpRoute_def Let_def)

lemma http_not_routable: "\<not> routable p \<Longrightarrow> filePathToHttpRoute p = Inl (UnsupportedSegment p)"
  by (simp add: routable_def filePathToHttpRoute_def)

definition rivals :: "string list \<Rightarrow> string \<Rightarrow> string list" where
  "rivals ks k = filter (\<lambda>p. \<not> boundary_page p \<and> key_of p = k) ks"

text \<open>What the loop leaves behind, from any intermediate state.\<close>

lemma collect_candidates_ok:
  assumes "collect_candidates ks cands bounds = Inr (c', b')"
  shows "(\<forall>p \<in> set ks. routable p) \<and> b' = bounds @ filter boundary_page ks \<and>
    (\<forall>k. map_of c' k = (if rivals ks k = [] then map_of cands k
       else Some ((case map_of cands k of None \<Rightarrow> [] | Some ps \<Rightarrow> ps) @ rivals ks k)))"
  using assms
proof (induction ks arbitrary: cands bounds)
  case (Cons p ks)
  have r: "routable p" using Cons.prems http_not_routable [of p] by (cases "routable p") auto
  note h = http_routable [OF r]
  show ?case
  proof (cases "boundary_page p")
    case True
    then have "collect_candidates ks cands (bounds @ [p]) = Inr (c', b')"
      using Cons.prems h by (simp add: boundary_page_def)
    from Cons.IH [OF this] show ?thesis using True r by (simp add: rivals_def)
  next
    case False
    let ?c = "AList.update (key_of p) ((case map_of cands (key_of p) of None \<Rightarrow> [] | Some ps \<Rightarrow> ps) @ [p]) cands"
    have "collect_candidates ks ?c bounds = Inr (c', b')"
      using Cons.prems h False by (simp add: boundary_page_def pageRouteCollisionKey_def key_of_def)
    from Cons.IH [OF this] show ?thesis using False r by (auto simp: rivals_def)
  qed
qed (simp add: rivals_def)

lemma collect_candidates_keys:
  assumes "collect_candidates ks cands bounds = Inr (c', b')" and "distinct (map fst cands)"
  shows "distinct (map fst c')"
  using assms
proof (induction ks arbitrary: cands bounds)
  case (Cons p ks)
  then show ?case by (auto split: if_splits intro: distinct_update)
qed simp

lemma collect_candidates_total:
  assumes "\<forall>p \<in> set ks. routable p"
  shows "\<exists>c' b'. collect_candidates ks cands bounds = Inr (c', b')"
  using assms
proof (induction ks arbitrary: cands bounds)
  case (Cons p ks)
  then have h: "filePathToHttpRoute p = Inr (http_of p)" using http_routable by simp
  show ?case using Cons h by (auto simp: pageRouteCollisionKey_def)
qed simp

text \<open>The unique rival with the fewest route groups.\<close>

definition owner_of :: "string list \<Rightarrow> string \<Rightarrow> bool" where
  "owner_of ps q \<longleftrightarrow> q \<in> set ps \<and> (\<forall>p \<in> set ps. routeGroupCount q \<le> routeGroupCount p) \<and>
     length (filter (\<lambda>p. routeGroupCount p = routeGroupCount q) ps) = 1"

lemma insert_by_hd:
  "insert_by cmp x (y # ys) = x # y # ys \<and> cmp x y \<le> 0 \<or> (\<exists>zs. insert_by cmp x (y # ys) = y # zs) \<and> \<not> cmp x y \<le> 0"
  by simp

lemma precedence_groups:
  "precedence lc a b \<le> 0 \<Longrightarrow> routeGroupCount a \<le> routeGroupCount b"
  "\<not> precedence lc a b \<le> 0 \<Longrightarrow> routeGroupCount b \<le> routeGroupCount a"
  by (auto simp: precedence_def Let_def split: if_splits)

lemma sorted_hd_min:
  "xs \<noteq> [] \<Longrightarrow> p \<in> set xs \<Longrightarrow> routeGroupCount (hd (sort_by (precedence lc) xs)) \<le> routeGroupCount p"
proof (induction xs arbitrary: p)
  case (Cons x xs)
  show ?case
  proof (cases xs)
    case Nil
    then show ?thesis using Cons.prems by simp
  next
    case (Cons x' xs')
    then have ne: "sort_by (precedence lc) xs \<noteq> []" by (simp only: sort_by_empty) simp
    then obtain y ys where s: "sort_by (precedence lc) xs = y # ys" by (cases "sort_by (precedence lc) xs") auto
    have m: "q \<in> set xs \<Longrightarrow> routeGroupCount y \<le> routeGroupCount q" for q
      using Cons.IH [of q] s Cons by auto
    show ?thesis
    proof (cases "precedence lc x y \<le> 0")
      case True
      have "routeGroupCount x \<le> routeGroupCount y" using precedence_groups(1) [OF True] .
      then show ?thesis using True s m Cons.prems(2) by fastforce
    next
      case False
      have "routeGroupCount y \<le> routeGroupCount x" using precedence_groups(2) [OF False] .
      then show ?thesis using False s m Cons.prems(2) by fastforce
    qed
  qed
qed simp

lemma owner_of_unique: "owner_of ps q \<Longrightarrow> owner_of ps q' \<Longrightarrow> q = q'"
proof -
  assume o: "owner_of ps q" "owner_of ps q'"
  then have e: "routeGroupCount q = routeGroupCount q'" by (meson le_antisym owner_of_def)
  let ?F = "filter (\<lambda>p. routeGroupCount p = routeGroupCount q) ps"
  have "q \<in> set ?F" "q' \<in> set ?F" "length ?F = 1" using o e by (auto simp: owner_of_def)
  then show ?thesis by (cases ?F) auto
qed

lemma owner_of_mset:
  assumes "mset ps = mset ps'"
  shows "owner_of ps q \<longleftrightarrow> owner_of ps' q"
proof -
  have "set ps = set ps'" using assms by (metis set_mset_mset)
  then show ?thesis using filter_length_mset [OF assms] by (simp add: owner_of_def)
qed

lemma pick_owner_iff:
  assumes "ps \<noteq> []"
  shows "pick_owner lc (k, ps) = Inr q \<longleftrightarrow> owner_of ps q"
proof -
  let ?s = "sort_by (precedence lc) ps"
  let ?F = "\<lambda>xs q. filter (\<lambda>p. routeGroupCount p = routeGroupCount q) xs"
  have ne: "?s \<noteq> []" using assms by (simp only: sort_by_empty) simp
  have hin: "hd ?s \<in> set ps" using ne by (metis hd_in_set set_sort_by)
  have hmin: "p \<in> set ps \<Longrightarrow> routeGroupCount (hd ?s) \<le> routeGroupCount p" for p
    using sorted_hd_min [OF assms] .
  have len: "length (?F ?s q) = length (?F ps q)" for q by (intro filter_length_mset) simp
  have pos: "length (?F ps (hd ?s)) > 0" using hin by (auto simp: filter_empty_conv)
  have one: "(n :: nat) > 0 \<Longrightarrow> n = 1 \<longleftrightarrow> \<not> n > 1" for n by linarith
  have own: "owner_of ps (hd ?s) \<longleftrightarrow> \<not> length (?F ?s (hd ?s)) > 1"
    unfolding owner_of_def len one [OF pos] using hin hmin by blast
  show ?thesis
  proof
    assume "pick_owner lc (k, ps) = Inr q"
    then show "owner_of ps q" using own by (auto simp: pick_owner_def Let_def split: if_splits)
  next
    assume o: "owner_of ps q"
    have "routeGroupCount (hd ?s) = routeGroupCount q"
      using o hmin hin by (meson le_antisym owner_of_def)
    then have "owner_of ps (hd ?s)" using o hin by (simp add: owner_of_def)
    then show "pick_owner lc (k, ps) = Inr q"
      using own owner_of_unique [OF o] by (simp add: pick_owner_def Let_def)
  qed
qed

text \<open>The whole selection, as a specification that names neither the order of the files nor the locale.\<close>

definition owners_spec :: "string list \<Rightarrow> string list \<Rightarrow> bool" where
  "owners_spec ks rs \<longleftrightarrow> (\<forall>p \<in> set ks. routable p) \<and> sorted rs \<and>
     (\<exists>own. (\<forall>k. rivals ks k \<noteq> [] \<longrightarrow> owner_of (rivals ks k) (own k)) \<and>
        mset rs = mset_set {p \<in> set ks. boundary_page p} +
          mset_set (own ` {k. rivals ks k \<noteq> []}))"

lemma rivals_key: "q \<in> set (rivals ks k) \<Longrightarrow> key_of q = k \<and> \<not> boundary_page q \<and> q \<in> set ks"
  by (auto simp: rivals_def)

lemma finite_rival_keys: "finite {k. rivals ks k \<noteq> []}"
proof -
  have "{k. rivals ks k \<noteq> []} \<subseteq> key_of ` set ks" by (force simp: rivals_def filter_empty_conv)
  then show ?thesis using finite_surj by blast
qed

lemma resolve_spec:
  assumes "resolvePageRouteFiles lc ks = Inr rs"
  shows "owners_spec ks rs"
proof -
  obtain c b owners where c: "collect_candidates ks [] [] = Inr (c, b)" and o: "mapr (pick_owner lc) c = Inr owners"
    and rs: "rs = sort (uniq b @ owners)"
    using assms by (auto simp: resolvePageRouteFiles_def sort_by_str_cmp)
  note ok = collect_candidates_ok [OF c]
  have dist: "distinct (map fst c)" using collect_candidates_keys [OF c] by simp
  have cm: "map_of c k = (if rivals ks k = [] then None else Some (rivals ks k))" for k using ok by simp
  have dom: "set (map fst c) = {k. rivals ks k \<noteq> []}"
    using cm by (auto simp: dom_map_of_conv_image_fst [symmetric] domIff split: if_splits)
  define own where "own k = (THE q. owner_of (rivals ks k) q)" for k
  have entry: "snd e = rivals ks (fst e) \<and> snd e \<noteq> []" if "e \<in> set c" for e
    using that cm [of "fst e"] map_of_is_SomeI [OF dist, of "fst e" "snd e"] by (auto split: if_splits)
  have sel: "owner_of (rivals ks (fst (c ! i))) (owners ! i)" if "i < length c" for i
  proof -
    have "pick_owner lc (c ! i) = Inr (owners ! i)" using mapr_Inr_nth [OF o that] .
    then show ?thesis using pick_owner_iff [of "snd (c ! i)" lc "fst (c ! i)" "owners ! i"] entry [OF nth_mem [OF that]] by (cases "c ! i") simp
  qed
  have own_eq: "own (fst (c ! i)) = owners ! i" if "i < length c" for i
    unfolding own_def using sel [OF that] owner_of_unique by blast
  have lens: "length owners = length c" using mapr_Inr_length [OF o] .
  have ow: "owners = map own (map fst c)"
    by (rule nth_equalityI) (use own_eq lens in auto)
  have own_ok: "owner_of (rivals ks k) (own k)" if "rivals ks k \<noteq> []" for k
  proof -
    have "k \<in> set (map fst c)" using dom that by simp
    then obtain i where "i < length c" "fst (c ! i) = k" by (auto simp: in_set_conv_nth)
    then show ?thesis using sel own_eq by metis
  qed
  have inj: "inj_on own {k. rivals ks k \<noteq> []}"
    by (rule inj_onI) (metis (mono_tags) own_ok rivals_key owner_of_def mem_Collect_eq)
  have m1: "mset owners = mset_set (own ` {k. rivals ks k \<noteq> []})"
  proof -
    have "mset owners = image_mset own (mset (map fst c))" unfolding ow by (simp add: multiset.map_comp)
    also have "mset (map fst c) = mset_set {k. rivals ks k \<noteq> []}" using dom dist by (metis mset_set_set)
    finally show ?thesis using image_mset_mset_set [OF inj] by simp
  qed
  have m2: "mset (uniq b) = mset_set {p \<in> set ks. boundary_page p}"
  proof -
    have "set (uniq b) = {p \<in> set ks. boundary_page p}" using ok by auto
    then show ?thesis by (metis distinct_uniq mset_set_set)
  qed
  show ?thesis unfolding owners_spec_def rs using ok own_ok m1 m2 by auto
qed

lemma resolve_spec_unique:
  assumes "owners_spec ks rs" and "owners_spec ks' rs'" and "mset ks = mset ks'"
  shows "rs = rs'"
proof -
  have set: "set ks = set ks'" using assms(3) by (metis set_mset_mset)
  have riv: "mset (rivals ks k) = mset (rivals ks' k)" for k
    using assms(3) by (simp add: rivals_def mset_filter)
  have ne: "rivals ks k = [] \<longleftrightarrow> rivals ks' k = []" for k using riv [of k] by auto
  obtain own where own: "\<And>k. rivals ks k \<noteq> [] \<Longrightarrow> owner_of (rivals ks k) (own k)"
    and m: "mset rs = mset_set {p \<in> set ks. boundary_page p} + mset_set (own ` {k. rivals ks k \<noteq> []})"
    using assms(1) by (auto simp: owners_spec_def)
  obtain own' where own': "\<And>k. rivals ks' k \<noteq> [] \<Longrightarrow> owner_of (rivals ks' k) (own' k)"
    and m': "mset rs' = mset_set {p \<in> set ks'. boundary_page p} + mset_set (own' ` {k. rivals ks' k \<noteq> []})"
    using assms(2) by (auto simp: owners_spec_def)
  have "own k = own' k" if "rivals ks k \<noteq> []" for k
    using own [OF that] own' [of k] that ne owner_of_mset [OF riv] owner_of_unique by metis
  then have "own ` {k. rivals ks k \<noteq> []} = own' ` {k. rivals ks' k \<noteq> []}" using ne by (auto intro!: image_cong)
  then have "mset rs = mset rs'" using m m' set by simp
  moreover have "sorted rs" "sorted rs'" using assms(1,2) by (auto simp: owners_spec_def)
  ultimately show ?thesis by (metis properties_for_sort)
qed

lemma resolve_complete:
  assumes "owners_spec ks rs"
  shows "resolvePageRouteFiles lc ks = Inr rs"
proof -
  have r: "\<forall>p \<in> set ks. routable p" using assms by (simp add: owners_spec_def)
  obtain own where own: "\<And>k. rivals ks k \<noteq> [] \<Longrightarrow> owner_of (rivals ks k) (own k)"
    using assms by (auto simp: owners_spec_def)
  obtain c b where c: "collect_candidates ks [] [] = Inr (c, b)" using collect_candidates_total [OF r] by blast
  have cm: "map_of c k = (if rivals ks k = [] then None else Some (rivals ks k))" for k
    using collect_candidates_ok [OF c] by simp
  have dist: "distinct (map fst c)" using collect_candidates_keys [OF c] by simp
  have "pick_owner lc e = Inr (own (fst e))" if e: "e \<in> set c" for e
  proof -
    have "snd e = rivals ks (fst e) \<and> snd e \<noteq> []"
      using e cm [of "fst e"] map_of_is_SomeI [OF dist, of "fst e" "snd e"] by (auto split: if_splits)
    then show ?thesis using pick_owner_iff [of "snd e" lc "fst e" "own (fst e)"] own [of "fst e"] by (cases e) simp
  qed
  then have "mapr (pick_owner lc) c = Inr (map (\<lambda>e. own (fst e)) c)" by (rule mapr_total)
  then obtain rs' where rs': "resolvePageRouteFiles lc ks = Inr rs'"
    using c by (simp add: resolvePageRouteFiles_def)
  then have "rs' = rs" using resolve_spec_unique [OF resolve_spec [OF rs'] assms refl] by simp
  then show ?thesis using rs' by simp
qed

lemma resolve_order_independent:
  assumes "resolvePageRouteFiles lc ks = Inr rs" and "mset ks = mset ks'"
  shows "resolvePageRouteFiles lc' ks' = Inr rs"
proof -
  have s: "owners_spec ks rs" by (rule resolve_spec [OF assms(1)])
  have set: "set ks = set ks'" using assms(2) by (metis set_mset_mset)
  have riv: "mset (rivals ks k) = mset (rivals ks' k)" for k
    using assms(2) by (simp add: rivals_def mset_filter)
  have ne: "rivals ks k = [] \<longleftrightarrow> rivals ks' k = []" for k using riv [of k] by auto
  have "owners_spec ks' rs"
    using s unfolding owners_spec_def set ne using owner_of_mset [OF riv] by simp
  then show ?thesis by (rule resolve_complete)
qed


text \<open>The page that owns each public route is a function of the set of files: listing the files in
  another order, or comparing names under another locale, gives the same owners, and succeeds
  or fails with the same files. In a successful selection every page's collision key has
  exactly one owner, the page with strictly the fewest route groups.\<close>

theorem owners_order_independent:
  assumes "resolvePageRouteFiles localeCompare pageKeys = Inr owners" and "mset pageKeys = mset pageKeys'"
  shows "resolvePageRouteFiles localeCompare' pageKeys' = Inr owners \<and>
    (\<forall>p \<in> set pageKeys. boundary_page p \<longrightarrow> p \<in> set owners) \<and>
    (\<forall>p \<in> set pageKeys. \<not> boundary_page p \<longrightarrow>
      (\<exists>q \<in> set owners. key_of q = key_of p \<and> \<not> boundary_page q \<and>
        (p \<noteq> q \<longrightarrow> routeGroupCount q < routeGroupCount p)))"
proof -
  have s: "owners_spec pageKeys owners" by (rule resolve_spec [OF assms(1)])
  then obtain own where own: "\<And>k. rivals pageKeys k \<noteq> [] \<Longrightarrow> owner_of (rivals pageKeys k) (own k)"
    and m: "mset owners = mset_set {p \<in> set pageKeys. boundary_page p} + mset_set (own ` {k. rivals pageKeys k \<noteq> []})"
    by (auto simp: owners_spec_def)
  have set: "set owners = {p \<in> set pageKeys. boundary_page p} \<union> own ` {k. rivals pageKeys k \<noteq> []}"
    using arg_cong [OF m, of set_mset] finite_rival_keys [of pageKeys] by simp
  have "\<exists>q \<in> set owners. key_of q = key_of p \<and> \<not> boundary_page q \<and>
        (p \<noteq> q \<longrightarrow> routeGroupCount q < routeGroupCount p)" if p: "p \<in> set pageKeys" "\<not> boundary_page p" for p
  proof -
    let ?r = "rivals pageKeys (key_of p)"
    have pr: "p \<in> set ?r" using p by (simp add: rivals_def)
    then have ne: "?r \<noteq> []" by auto
    define q where "q = own (key_of p)"
    have o: "owner_of ?r q" using own [OF ne] q_def by simp
    have qr: "q \<in> set ?r" using o by (simp add: owner_of_def)
    have "routeGroupCount q < routeGroupCount p" if "p \<noteq> q"
    proof (rule ccontr)
      assume "\<not> routeGroupCount q < routeGroupCount p"
      then have "routeGroupCount p = routeGroupCount q" using o pr by (auto simp: owner_of_def intro: le_antisym)
      then have "p \<in> set (filter (\<lambda>x. routeGroupCount x = routeGroupCount q) ?r)"
        "q \<in> set (filter (\<lambda>x. routeGroupCount x = routeGroupCount q) ?r)" using pr qr by auto
      moreover have "length (filter (\<lambda>x. routeGroupCount x = routeGroupCount q) ?r) = 1" using o by (simp add: owner_of_def)
      ultimately show False using that by (cases "filter (\<lambda>x. routeGroupCount x = routeGroupCount q) ?r") auto
    qed
    then show ?thesis using rivals_key [OF qr] set ne q_def by blast
  qed
  then show ?thesis using resolve_order_independent [OF assms] set by blast
qed

lemma owners_order_independent_witness:
  "resolvePageRouteFiles (\<lambda>_ _. 0)
     [''/src/pages/blog/[slug]/index.ts'', ''/src/pages/(a)/blog/[id]/index.ts'', ''/src/pages/404/index.ts'', ''/src/pages/index.ts''] =
   Inr [''/src/pages/404/index.ts'', ''/src/pages/blog/[slug]/index.ts'', ''/src/pages/index.ts'']"
proof -
  let ?a = "[''/src/pages/index.ts'', ''/src/pages/404/index.ts'', ''/src/pages/(a)/blog/[id]/index.ts'', ''/src/pages/blog/[slug]/index.ts'']"
  have r: "resolvePageRouteFiles str_cmp ?a =
    Inr [''/src/pages/404/index.ts'', ''/src/pages/blog/[slug]/index.ts'', ''/src/pages/index.ts'']" by code_simp
  have m: "mset ?a = mset [''/src/pages/blog/[slug]/index.ts'', ''/src/pages/(a)/blog/[id]/index.ts'', ''/src/pages/404/index.ts'', ''/src/pages/index.ts'']"
    by (simp add: add_mset_commute)
  show ?thesis using owners_order_independent [OF r m] by blast
qed


section \<open>Component ids\<close>

definition value36 :: "string \<Rightarrow> nat" where
  "value36 s = foldl (\<lambda>n c. 36 * n + (if code c < 58 then code c - 48 else code c - 87)) 0 s"

lemma digit36_value: "n < 36 \<Longrightarrow> (if code (digit36 n) < 58 then code (digit36 n) - 48 else code (digit36 n) - 87) = n"
  by (auto simp: digit36_def code_def)

lemma value36_text: "value36 (text36 n) = n"
proof (induction n rule: text36.induct)
  case (1 n)
  have d: "(if code (digit36 (n mod 36)) < 58 then code (digit36 (n mod 36)) - 48 else code (digit36 (n mod 36)) - 87) = n mod 36"
    by (rule digit36_value) simp
  show ?case
  proof (cases "n < 36")
    case True
    then show ?thesis using digit36_value [OF True] by (subst text36.simps) (simp add: value36_def)
  next
    case False
    then have "value36 (text36 (n div 36)) = n div 36" using 1 by simp
    then show ?thesis using False d by (subst text36.simps) (simp add: value36_def)
  qed
qed

lemma component_id_inj: "component_id i = component_id j \<longleftrightarrow> i = j"
  using value36_text by (auto simp: component_id_def) metis

lemma component_id_not_app: "component_id i \<noteq> APP_ROUTE_ID"
  by (simp add: component_id_def APP_ROUTE_ID_def)

lemma assign_ids_maps:
  assumes "distinct paths"
  shows "(\<forall>i. map_of (routeIdMap (assign_ids n paths m)) (component_id (n + i)) =
      (if i < length paths then Some (paths ! i) else map_of (routeIdMap m) (component_id (n + i)))) \<and>
    (\<forall>i<n. map_of (routeIdMap (assign_ids n paths m)) (component_id i) = map_of (routeIdMap m) (component_id i)) \<and>
    map_of (routeIdMap (assign_ids n paths m)) APP_ROUTE_ID = map_of (routeIdMap m) APP_ROUTE_ID \<and>
    (\<forall>i<length paths. map_of (routePathToIdMap (assign_ids n paths m)) (paths ! i) = Some (component_id (n + i))) \<and>
    (\<forall>p. p \<notin> set paths \<longrightarrow> map_of (routePathToIdMap (assign_ids n paths m)) p = map_of (routePathToIdMap m) p)"
  using assms
proof (induction paths arbitrary: n m)
  case (Cons q qs)
  let ?m = "m\<lparr>routeIdMap := AList.update (component_id n) q (routeIdMap m),
       routePathToIdMap := AList.update q (component_id n) (routePathToIdMap m)\<rparr>"
  have d: "distinct qs" and nq: "q \<notin> set qs" using Cons.prems by auto
  note IH = Cons.IH [OF d, of "Suc n" ?m]
  have a: "map_of (routeIdMap (assign_ids (Suc n) qs ?m)) (component_id (n + i)) =
      (if i < length (q # qs) then Some ((q # qs) ! i) else map_of (routeIdMap m) (component_id (n + i)))" for i
  proof (cases i)
    case 0
    then show ?thesis using IH component_id_inj by simp
  next
    case (Suc j)
    have "map_of (routeIdMap (assign_ids (Suc n) qs ?m)) (component_id (Suc n + j)) =
        (if j < length qs then Some (qs ! j) else map_of (routeIdMap ?m) (component_id (Suc n + j)))"
      using IH by blast
    then show ?thesis using Suc component_id_inj [of "Suc n + j" n] by simp
  qed
  have b: "map_of (routeIdMap (assign_ids (Suc n) qs ?m)) (component_id i) = map_of (routeIdMap m) (component_id i)" if "i < n" for i
  proof -
    have "map_of (routeIdMap (assign_ids (Suc n) qs ?m)) (component_id i) = map_of (routeIdMap ?m) (component_id i)"
      using IH that by simp
    then show ?thesis using component_id_inj [of i n] that by simp
  qed
  have c: "map_of (routePathToIdMap (assign_ids (Suc n) qs ?m)) ((q # qs) ! i) = Some (component_id (n + i))"
    if "i < length (q # qs)" for i
  proof (cases i)
    case 0
    then show ?thesis using IH nq by simp
  next
    case (Suc j)
    then have "map_of (routePathToIdMap (assign_ids (Suc n) qs ?m)) (qs ! j) = Some (component_id (Suc n + j))"
      using IH that by simp
    then show ?thesis using Suc by simp
  qed
  have e: "map_of (routeIdMap (assign_ids (Suc n) qs ?m)) APP_ROUTE_ID = map_of (routeIdMap m) APP_ROUTE_ID"
    using IH component_id_not_app [of n] by simp
  have f: "map_of (routePathToIdMap (assign_ids (Suc n) qs ?m)) p = map_of (routePathToIdMap m) p" if "p \<notin> set (q # qs)" for p
    using IH that by simp
  show ?case using a b c e f by simp
qed simp

lemma distinct_owners:
  assumes "resolvePageRouteFiles lc ks = Inr rs"
  shows "distinct rs"
proof -
  obtain own where own: "\<And>k. rivals ks k \<noteq> [] \<Longrightarrow> owner_of (rivals ks k) (own k)"
    and m: "mset rs = mset_set {p \<in> set ks. boundary_page p} + mset_set (own ` {k. rivals ks k \<noteq> []})"
    using resolve_spec [OF assms] by (auto simp: owners_spec_def)
  have "{p \<in> set ks. boundary_page p} \<inter> own ` {k. rivals ks k \<noteq> []} = {}"
    using own rivals_key by (fastforce simp: owner_of_def)
  then have "mset rs = mset_set ({p \<in> set ks. boundary_page p} \<union> own ` {k. rivals ks k \<noteq> []})"
    using m finite_rival_keys [of ks] by (simp add: mset_set_Union)
  moreover have "finite ({p \<in> set ks. boundary_page p} \<union> own ` {k. rivals ks k \<noteq> []})"
    using finite_rival_keys [of ks] by simp
  ultimately show ?thesis
    by (metis distinct_sorted_list_of_set mset_eq_imp_distinct_iff mset_set_set set_sorted_list_of_set)
qed

lemma assign_ids_other:
  "(\<And>i. i < length paths \<Longrightarrow> cid \<noteq> component_id (n + i)) \<Longrightarrow>
   map_of (routeIdMap (assign_ids n paths m)) cid = map_of (routeIdMap m) cid"
proof (induction paths arbitrary: n m)
  case (Cons q qs)
  have "cid \<noteq> component_id (Suc n + i)" if "i < length qs" for i using Cons.prems [of "Suc i"] that by simp
  moreover have "cid \<noteq> component_id n" using Cons.prems [of 0] by simp
  ultimately show ?case using Cons.IH [of "Suc n"] by simp
qed simp

lemma sort_mset: "mset xs = mset ys \<Longrightarrow> sort xs = sort (ys :: string list)"
  by (metis mset_sort properties_for_sort sorted_sort)

text \<open>C4. The server and the client agree on component ids: the id maps computed from the same page and
  layout files are identical, in whatever order the two builds list them and under whatever
  locale they run.\<close>

theorem route_ids_agree:
  assumes "computeRouteIds localeCompare pageKeys layoutKeys = Inr maps"
    and "mset pageKeys = mset pageKeys'" and "mset layoutKeys = mset layoutKeys'"
  shows "computeRouteIds localeCompare' pageKeys' layoutKeys' = Inr maps"
proof -
  obtain rs where r: "resolvePageRouteFiles localeCompare pageKeys = Inr rs"
    using assms(1) by (auto simp: computeRouteIds_def)
  have r': "resolvePageRouteFiles localeCompare' pageKeys' = Inr rs"
    by (rule resolve_order_independent [OF r assms(2)])
  have "sort (rs @ layoutKeys) = sort (rs @ layoutKeys')" "sort layoutKeys = sort layoutKeys'"
    using assms(3) by (auto intro: sort_mset)
  then show ?thesis using assms(1) r r' by (simp add: computeRouteIds_def sort_by_str_cmp)
qed

lemma route_ids_agree_witness:
  "map_of (case computeRouteIds (\<lambda>_ _. 0) [''/src/pages/index.ts'', ''/src/pages/about/index.ts''] [''/src/pages/layout.ts''] of
     Inr m \<Rightarrow> routePathToIdMap m | Inl _ \<Rightarrow> []) ''/src/pages/layout.ts'' = Some ''cmp_2''"
proof -
  let ?a = "[''/src/pages/about/index.ts'', ''/src/pages/index.ts'']"
  have "map_of (case computeRouteIds str_cmp ?a [''/src/pages/layout.ts''] of
     Inr m \<Rightarrow> routePathToIdMap m | Inl _ \<Rightarrow> []) ''/src/pages/layout.ts'' = Some ''cmp_2''" by code_simp
  then obtain m where m: "computeRouteIds str_cmp ?a [''/src/pages/layout.ts''] = Inr m"
    and v: "map_of (routePathToIdMap m) ''/src/pages/layout.ts'' = Some ''cmp_2''"
    by (cases "computeRouteIds str_cmp ?a [''/src/pages/layout.ts'']") auto
  have "mset ?a = mset [''/src/pages/index.ts'', ''/src/pages/about/index.ts'']" by (simp add: add_mset_commute)
  then have "computeRouteIds (\<lambda>_ _. 0) [''/src/pages/index.ts'', ''/src/pages/about/index.ts''] [''/src/pages/layout.ts''] = Inr m"
    using route_ids_agree [OF m _ refl] by blast
  then show ?thesis using v by simp
qed

text \<open>Component ids are a bijection: every owner page and every layout has an id of its own, looking
  the id up gives the file back, no id is the reserved one of the application, and the
  reserved id still names the application component.\<close>

theorem route_ids_bijective:
  assumes "computeRouteIds localeCompare pageKeys layoutKeys = Inr maps"
    and "distinct layoutKeys" and "set pageKeys \<inter> set layoutKeys = {}"
  shows "(map_of (routePathToIdMap maps) p = Some cid \<longleftrightarrow> map_of (routeIdMap maps) cid = Some p \<and> cid \<noteq> APP_ROUTE_ID) \<and>
    map_of (routeIdMap maps) APP_ROUTE_ID = Some APP_FILE_PATH"
proof -
  let ?m0 = "\<lparr>routeIdMap = [(APP_ROUTE_ID, APP_FILE_PATH)], routePathToIdMap = [], routePathToFilePathMap = []\<rparr>"
  obtain rs where r: "resolvePageRouteFiles localeCompare pageKeys = Inr rs"
    and maps: "routeIdMap maps = routeIdMap (assign_ids 0 (sort (rs @ layoutKeys)) ?m0)"
      "routePathToIdMap maps = routePathToIdMap (assign_ids 0 (sort (rs @ layoutKeys)) ?m0)"
    using assms(1) by (auto simp: computeRouteIds_def sort_by_str_cmp)
  have "set rs \<subseteq> set pageKeys"
  proof -
    obtain own where own: "\<And>k. rivals pageKeys k \<noteq> [] \<Longrightarrow> owner_of (rivals pageKeys k) (own k)"
      and m: "mset rs = mset_set {p \<in> set pageKeys. boundary_page p} + mset_set (own ` {k. rivals pageKeys k \<noteq> []})"
      using resolve_spec [OF r] by (auto simp: owners_spec_def)
    have "set rs = {p \<in> set pageKeys. boundary_page p} \<union> own ` {k. rivals pageKeys k \<noteq> []}"
      using arg_cong [OF m, of set_mset] finite_rival_keys [of pageKeys] by simp
    then show ?thesis using own rivals_key by (fastforce simp: owner_of_def)
  qed
  then have d: "distinct (sort (rs @ layoutKeys))" using distinct_owners [OF r] assms(2,3) by auto
  let ?ps = "sort (rs @ layoutKeys)"
  note A = assign_ids_maps [OF d, of 0 ?m0]
  have fwd: "map_of (routeIdMap maps) cid = Some p \<and> cid \<noteq> APP_ROUTE_ID" if "map_of (routePathToIdMap maps) p = Some cid"
  proof -
    have "p \<in> set ?ps" using A that maps by (metis map_of.simps(1) option.simps(3) route_maps.select_convs(2))
    then obtain i where i: "i < length ?ps" "?ps ! i = p" unfolding in_set_conv_nth by (elim exE conjE)
    then have "cid = component_id i" using A that maps by (metis add_0 option.inject)
    then show ?thesis using A i maps component_id_not_app by (metis add_0)
  qed
  have bwd: "map_of (routePathToIdMap maps) p = Some cid" if "map_of (routeIdMap maps) cid = Some p" "cid \<noteq> APP_ROUTE_ID"
  proof -
    have "\<exists>i < length ?ps. cid = component_id i"
    proof (rule ccontr)
      assume "\<not> ?thesis"
      then have "map_of (routeIdMap maps) cid = map_of (routeIdMap ?m0) cid"
        unfolding maps(1) by (intro assign_ids_other) auto
      then show False using that by simp
    qed
    then obtain i where i: "i < length ?ps" "cid = component_id i" by blast
    then have "p = ?ps ! i" using A that maps by (metis add_0 option.inject)
    then show ?thesis using A i maps by (metis add_0)
  qed
  have "map_of (routeIdMap maps) APP_ROUTE_ID = Some APP_FILE_PATH" using A maps by simp
  then show ?thesis using fwd bwd by blast
qed

lemma route_ids_bijective_witness:
  "case computeRouteIds str_cmp [''/src/pages/index.ts''] [''/src/pages/layout.ts''] of
     Inr m \<Rightarrow> map_of (routeIdMap m) ''cmp_1'' = Some ''/src/pages/layout.ts'' | Inl _ \<Rightarrow> False"
proof -
  have "case computeRouteIds str_cmp [''/src/pages/index.ts''] [''/src/pages/layout.ts''] of
     Inr m \<Rightarrow> map_of (routePathToIdMap m) ''/src/pages/layout.ts'' = Some ''cmp_1'' | Inl _ \<Rightarrow> False" by code_simp
  then obtain m where m: "computeRouteIds str_cmp [''/src/pages/index.ts''] [''/src/pages/layout.ts''] = Inr m"
    and v: "map_of (routePathToIdMap m) ''/src/pages/layout.ts'' = Some ''cmp_1''"
    by (auto split: sum.splits)
  have "map_of (routeIdMap m) ''cmp_1'' = Some ''/src/pages/layout.ts''"
    using route_ids_bijective [OF m, of "''/src/pages/layout.ts''" "''cmp_1''"] v by simp
  then show ?thesis by (simp add: m)
qed

end
