(* ===== verification/Route_Urls.thy ===== *)
theory Route_Urls
  imports Route_Ids
begin

text \<open>
  URLs of routes. From \<open>core/src/shared/routes.ts\<close>: the parameters of a pattern and the builder
  that fills them in. From \<open>core/src/shared/transport-routes.ts\<close>: the reserved transport paths.
  From \<open>framework/src/route-ids.ts\<close>: the prefix matcher and the resolver that chooses the page
  for an unknown path. \<open>decodeURIComponent\<close> is an argument that may fail.
\<close>

section \<open>Percent encoding\<close>

definition hex_upper :: "nat \<Rightarrow> char" where
  "hex_upper n = (if n < 10 then char_of (48 + n) else char_of (55 + n))"

definition pct_byte :: "nat \<Rightarrow> string" where
  "pct_byte n = [CHR ''%'', hex_upper (n div 16), hex_upper (n mod 16)]"

definition uri_unreserved :: "char \<Rightarrow> bool" where
  "uri_unreserved c \<longleftrightarrow> is_alnum c \<or> c \<in> set ''-_.!~*()'' \<or> c = CHR 0x27"

definition encode_char :: "char \<Rightarrow> string" where
  "encode_char c = (if uri_unreserved c then [c] else if code c < 128 then pct_byte (code c)
     else pct_byte (192 + code c div 64) @ pct_byte (128 + code c mod 64))"

text \<open>\<open>encodeURIComponent\<close>.\<close>

definition encodeURIComponent :: "string \<Rightarrow> string" where
  "encodeURIComponent s = concat (map encode_char s)"


section \<open>Route parameters\<close>

(* models packages/core/src/shared/routes.ts:2-5 RouteParameter *)
record route_parameter =
  rp_name :: string
  rp_catchAll :: bool

(* models packages/core/src/shared/routes.ts:40-45 RouteUrlError *)
datatype url_error = RouteUnknown | PatternUnsupported | ParameterInvalid "string option"

definition percent_dot :: "string \<Rightarrow> (string \<times> string) option" where
  "percent_dot s = (if starts_with s ''%2e'' \<or> starts_with s ''%2E'' then Some (''.'', drop 3 s) else None)"

definition literal_ok :: "string \<Rightarrow> bool" where
  "literal_ok segment \<longleftrightarrow> (let normalized = replace_matches percent_dot segment in
     normalized \<noteq> ''.'' \<and> normalized \<noteq> ''..'' \<and>
     \<not> list_ex (\<lambda>c. c \<in> set '':*[]'' \<or> c = CHR 0x7B \<or> c = CHR 0x7D \<or> is_ws c) segment)"

definition name_start :: "char \<Rightarrow> bool" where
  "name_start c \<longleftrightarrow> is_lower c \<or> is_upper c \<or> c = CHR ''_''"

definition param_name_ok :: "string \<Rightarrow> bool" where
  "param_name_ok n \<longleftrightarrow> (case n of [] \<Rightarrow> False
     | c # cs \<Rightarrow> name_start c \<and> list_all (\<lambda>c. is_alnum c \<or> c = CHR ''_'' \<or> c = CHR ''-'') cs)"

text \<open>The segment expression: a colon, a name, and possibly the catch-all suffix.\<close>

definition parse_param :: "string \<Rightarrow> route_parameter option" where
  "parse_param segment = (let body = tl segment; catch = ends_with body catch_suffix;
       name = (if catch then take (length body - 4) body else body) in
     if param_name_ok name then Some \<lparr>rp_name = name, rp_catchAll = catch\<rparr> else None)"

fun collect_params :: "string list \<Rightarrow> route_parameter list \<Rightarrow> url_error + route_parameter list" where
  "collect_params [] result = Inr result"
| "collect_params (segment # segments) result =
     (if \<not> starts_with segment '':'' then
        (if literal_ok segment then collect_params segments result else Inl PatternUnsupported)
      else (case parse_param segment of
         None \<Rightarrow> Inl PatternUnsupported
       | Some p \<Rightarrow> if rp_name p \<in> set (map rp_name result) then Inl PatternUnsupported
           else collect_params segments (result @ [p])))"

(* models packages/core/src/shared/routes.ts:48-69 routeParameters *)
definition routeParameters :: "string \<Rightarrow> url_error + route_parameter list" where
  "routeParameters pattern =
     (if \<not> starts_with pattern ''/'' \<or> list_ex (\<lambda>c. c = CHR ''?'' \<or> c = CHR ''#'' \<or> c = CHR 0x5C) pattern \<or> contains pattern ''//''
      then Inl PatternUnsupported
      else collect_params (split_on CHR ''/'' pattern) [])"


section \<open>The builder\<close>

type_synonym route_registry = "(string \<times> (string \<times> route_parameter list)) list"

(* models packages/core/src/shared/routes.ts:72-73 createRouteBuilder *)
fun createRouteBuilder :: "(string \<times> string) list \<Rightarrow> url_error + route_registry" where
  "createRouteBuilder [] = Inr []"
| "createRouteBuilder ((name, pattern) # rest) =
     bindr (routeParameters pattern) (\<lambda>ps. bindr (createRouteBuilder rest) (\<lambda>r. Inr ((name, (pattern, ps)) # r)))"

definition encode_segment :: "string \<Rightarrow> jsv \<Rightarrow> url_error + string" where
  "encode_segment name v = (case v of
     JStr s \<Rightarrow> if s = [] \<or> s = ''.'' \<or> s = ''..'' then Inl (ParameterInvalid (Some name)) else Inr (encodeURIComponent s)
   | _ \<Rightarrow> Inl (ParameterInvalid (Some name)))"

definition encode_parameter :: "(string \<times> jsv) list \<Rightarrow> route_parameter \<Rightarrow> url_error + (string \<times> string)" where
  "encode_parameter given p = (case map_of given (rp_name p) of
     None \<Rightarrow> Inl (ParameterInvalid (Some (rp_name p)))
   | Some v \<Rightarrow>
      (case (if rp_catchAll p then v else JArr [v]) of
         JArr vs \<Rightarrow> if vs = [] then Inl (ParameterInvalid (Some (rp_name p)))
           else bindr (mapr (encode_segment (rp_name p)) vs) (\<lambda>es. Inr (rp_name p, join_with ''/'' es))
       | _ \<Rightarrow> Inl (ParameterInvalid (Some (rp_name p)))))"

definition fill_segment :: "(string \<times> string) list \<Rightarrow> string \<Rightarrow> string" where
  "fill_segment values segment = (if \<not> starts_with segment '':'' then segment
     else (case map_of values (takeWhile (\<lambda>c. c \<noteq> CHR 0x7B \<and> c \<noteq> CHR 0x7D) (tl segment)) of Some v \<Rightarrow> v | None \<Rightarrow> ''undefined''))"

(* models packages/core/src/shared/routes.ts:74-106 build *)
definition build_url :: "route_registry \<Rightarrow> string \<Rightarrow> jsv list \<Rightarrow> url_error + string" where
  "build_url reg name args = (case map_of reg name of
     None \<Rightarrow> Inl RouteUnknown
   | Some (pattern, parameters) \<Rightarrow>
      if parameters = [] then (if args \<noteq> [] then Inl (ParameterInvalid None) else Inr pattern)
      else (case args of
         [JObj given] \<Rightarrow>
           if length given \<noteq> length parameters \<or> list_ex (\<lambda>f. fst f \<notin> set (map rp_name parameters)) given
           then Inl (ParameterInvalid None)
           else bindr (mapr (encode_parameter given) parameters) (\<lambda>values.
             Inr (join_with ''/'' (map (fill_segment values) (split_on CHR ''/'' pattern))))
       | _ \<Rightarrow> Inl (ParameterInvalid None)))"


section \<open>Transport paths\<close>

datatype transport_route = TRpc | TUpload | TSse | TWebsocket

(* models packages/core/src/shared/transport-routes.ts:13-22 TRANSPORT_ROUTES *)
fun transport_pattern :: "transport_route \<Rightarrow> string" where
  "transport_pattern TRpc = ''/crpc''"
| "transport_pattern TUpload = ''/upload''"
| "transport_pattern TSse = ''/sse/:componentRouteId''"
| "transport_pattern TWebsocket = ''/ws/:id''"

definition all_transport_routes :: "transport_route list" where
  "all_transport_routes = [TRpc, TUpload, TSse, TWebsocket]"

(* models packages/core/src/shared/transport-routes.ts:33-44 ReservedTransportPath *)
record reserved_path =
  rv_path :: string
  rv_exact :: bool
  rv_route :: string

definition dynamic_segment :: "string \<Rightarrow> bool" where
  "dynamic_segment s \<longleftrightarrow> starts_with s '':'' \<or> CHR ''*'' \<in> set s"

(* models packages/core/src/shared/transport-routes.ts:51-58 reservation *)
definition reservation :: "transport_route \<Rightarrow> reserved_path" where
  "reservation name = (let route = transport_pattern name; segments = split_on CHR ''/'' route;
       literal = takeWhile (\<lambda>s. \<not> dynamic_segment s) segments in
     if literal = segments then \<lparr>rv_path = route, rv_exact = True, rv_route = route\<rparr>
     else \<lparr>rv_path = join_with ''/'' literal, rv_exact = False, rv_route = route\<rparr>)"

(* models packages/core/src/shared/transport-routes.ts:60-62 RESERVED_TRANSPORT_PATHS *)
definition RESERVED_TRANSPORT_PATHS :: "reserved_path list" where
  "RESERVED_TRANSPORT_PATHS = map reservation all_transport_routes"

definition reserved_matches :: "string \<Rightarrow> reserved_path \<Rightarrow> bool" where
  "reserved_matches path r \<longleftrightarrow> (if rv_exact r then path = rv_path r else starts_with path (rv_path r @ ''/''))"

definition strip_slashes :: "string \<Rightarrow> string" where
  "strip_slashes s = rev (dropWhile (\<lambda>c. c = CHR ''/'') (rev s))"

(* models packages/core/src/shared/transport-routes.ts:69-73 findReservedTransportPath *)
definition findReservedTransportPath :: "string \<Rightarrow> reserved_path option" where
  "findReservedTransportPath pattern =
     List.find (reserved_matches (if length pattern > 1 then strip_slashes pattern else pattern)) RESERVED_TRANSPORT_PATHS"

(* models packages/core/src/shared/transport-routes.ts:80-86 isTransportPath *)
definition isTransportPath :: "string \<Rightarrow> transport_route list \<Rightarrow> bool" where
  "isTransportPath pathname names =
     list_ex (reserved_matches pathname)
       (if names \<noteq> [] then filter (\<lambda>r. list_ex (\<lambda>n. transport_pattern n = rv_route r) names) RESERVED_TRANSPORT_PATHS
        else RESERVED_TRANSPORT_PATHS)"

fun index_of_sub :: "string \<Rightarrow> string \<Rightarrow> nat option" where
  "index_of_sub p [] = (if p = [] then Some 0 else None)"
| "index_of_sub p (c # s) = (if starts_with (c # s) p then Some 0 else map_option Suc (index_of_sub p s))"

(* models packages/core/src/shared/transport-routes.ts:93-99 transportPath *)
definition transportPath :: "transport_route \<Rightarrow> string option \<Rightarrow> string option" where
  "transportPath name param = (case index_of_sub ''/:'' (transport_pattern name) of
     None \<Rightarrow> Some (transport_pattern name)
   | Some i \<Rightarrow> (case param of None \<Rightarrow> None | Some v \<Rightarrow> Some (take i (transport_pattern name) @ ''/'' @ encodeURIComponent v)))"

text \<open>The reserved-path reports of a build: routes under \<open>/assets\<close> and at a transport endpoint.\<close>

record route_fact =
  rf_pattern :: string
  rf_file :: string
  rf_addressable :: bool

datatype reserved_report = AssetsReserved string | TransportReserved string string

(* models packages/framework/src/static-asset-routing.ts:65-71 checkStaticAssetNamespace *)
definition checkStaticAssetNamespace :: "route_fact list \<Rightarrow> reserved_report list" where
  "checkStaticAssetNamespace routes = map (\<lambda>r. AssetsReserved (rf_file r))
     (filter (\<lambda>r. rf_addressable r \<and> (rf_pattern r = ''/assets'' \<or> starts_with (rf_pattern r) ''/assets/'')) routes)"

(* models packages/framework/src/reserved-paths.ts:34-50 checkTransportRouteNamespace *)
definition checkTransportRouteNamespace :: "route_fact list \<Rightarrow> reserved_report list" where
  "checkTransportRouteNamespace routes = concat (map (\<lambda>r.
     if \<not> rf_addressable r then []
     else (case findReservedTransportPath (rf_pattern r) of None \<Rightarrow> []
       | Some v \<Rightarrow> [TransportReserved (rf_file r) (if rv_exact v then rv_path v else rv_path v @ ''/'')])) routes)"

(* models packages/framework/src/reserved-paths.ts:53-56 checkReservedPaths *)
definition checkReservedPaths :: "route_fact list \<Rightarrow> reserved_report list" where
  "checkReservedPaths routes = checkStaticAssetNamespace routes @ checkTransportRouteNamespace routes"


section \<open>Prefix matching\<close>

datatype seg = Lit string | Param | CatchAll

definition seg_of :: "string \<Rightarrow> seg" where
  "seg_of s = (if \<not> starts_with s '':'' then Lit s else if ends_with s catch_suffix then CatchAll else Param)"

definition seg_rank :: "seg \<Rightarrow> nat" where
  "seg_rank g = (case g of Lit _ \<Rightarrow> 0 | Param \<Rightarrow> 1 | CatchAll \<Rightarrow> 2)"

definition seg_name :: "string \<Rightarrow> string" where
  "seg_name s = (if ends_with s catch_suffix then take (length s - 5) (tl s) else tl s)"

definition newline :: "char \<Rightarrow> bool" where
  "newline c \<longleftrightarrow> code c = 10 \<or> code c = 13"

definition at_boundary :: "string \<Rightarrow> bool" where
  "at_boundary rest \<longleftrightarrow> (case rest of [] \<Rightarrow> True | c # _ \<Rightarrow> c = CHR ''/'')"

text \<open>
  The expression \<open>/s1/s2(?=/|$)\<close> with the backtracking of the engine: a parameter takes
  everything up to the next slash (a shorter match can be followed by nothing), a catch-all
  takes as much as it can, then less. The result is the captures and what is left.
\<close>

fun try_lengths :: "(nat \<Rightarrow> 'a option) \<Rightarrow> nat \<Rightarrow> 'a option" where
  "try_lengths f 0 = None"
| "try_lengths f (Suc n) = (case f (Suc n) of Some r \<Rightarrow> Some r | None \<Rightarrow> try_lengths f n)"

definition eat_slash :: "string \<Rightarrow> string option" where
  "eat_slash s = (case s of [] \<Rightarrow> None | c # t \<Rightarrow> if c = CHR ''/'' then Some t else None)"

fun match_segments :: "seg list \<Rightarrow> string \<Rightarrow> (string list \<times> string) option" where
  "match_segments [] s = (if at_boundary s then Some ([], s) else None)"
| "match_segments (g # gs) s =
     (let continue = (\<lambda>cap rest. if gs = [] then (if at_boundary rest then Some (cap, rest) else None)
        else (case eat_slash rest of None \<Rightarrow> None
          | Some t \<Rightarrow> (case match_segments gs t of None \<Rightarrow> None | Some (caps, r) \<Rightarrow> Some (cap @ caps, r))))
      in (case g of
         Lit l \<Rightarrow> if starts_with s l then continue [] (drop (length l) s) else None
       | Param \<Rightarrow> (let v = takeWhile (\<lambda>c. c \<noteq> CHR ''/'') s in if v = [] then None else continue [v] (drop (length v) s))
       | CatchAll \<Rightarrow> try_lengths (\<lambda>n. continue [take n s] (drop n s)) (length (takeWhile (\<lambda>c. \<not> newline c) s))))"

record prefix_result =
  pr_params :: "(string \<times> string) list"
  pr_depth :: nat

definition pattern_segments :: "string \<Rightarrow> string list" where
  "pattern_segments pattern = (if pattern = ''/'' then [] else split_on CHR ''/'' (drop 1 pattern))"

definition bind_params :: "(string \<Rightarrow> string option) \<Rightarrow> string list \<Rightarrow> string list \<Rightarrow> (string \<times> string) list" where
  "bind_params decode names caps = foldl (\<lambda>m (n, v). AList.update n (case decode v of Some d \<Rightarrow> d | None \<Rightarrow> v) m) [] (zip names caps)"

definition prefix_ranks :: "string \<Rightarrow> nat list" where
  "prefix_ranks pattern = map (\<lambda>s. seg_rank (seg_of s)) (pattern_segments pattern)"

(* models packages/framework/src/route-ids.ts:225-246 prefixMatcher *)
definition prefix_match :: "(string \<Rightarrow> string option) \<Rightarrow> string \<Rightarrow> string \<Rightarrow> prefix_result option" where
  "prefix_match decode pattern pathname =
     (let segments = pattern_segments pattern; names = map seg_name (filter (\<lambda>s. starts_with s '':'') segments) in
      if segments = [] \<or> join_with ''/'' segments = [] then Some \<lparr>pr_params = [], pr_depth = 0\<rparr>
      else (case eat_slash pathname of
         None \<Rightarrow> None
       | Some s \<Rightarrow> (case match_segments (map seg_of segments) s of
           None \<Rightarrow> None
         | Some (caps, rest) \<Rightarrow> Some \<lparr>pr_params = bind_params decode names caps,
             pr_depth = length (filter (\<lambda>p. p \<noteq> []) (split_on CHR ''/'' (take (length pathname - length rest) pathname)))\<rparr>)))"


section \<open>The page for an unknown path\<close>

(* models packages/framework/src/route-ids.ts:217-223 NotFoundSelection *)
record not_found =
  nf_path :: string
  nf_params :: "(string \<times> string) list"
  nf_scope :: string
  nf_ambiguous :: bool

record nf_scope_entry =
  sc_source :: string
  sc_dirDepth :: nat
  sc_pattern :: string

record nf_match =
  ma_source :: string
  ma_params :: "(string \<times> string) list"
  ma_depth :: nat
  ma_ranks :: "nat list"
  ma_groups :: nat

definition http_pattern :: "string \<Rightarrow> string" where
  "http_pattern p = (case filePathToHttpRoute p of Inl _ \<Rightarrow> [] | Inr r \<Rightarrow> r)"

definition dir_index :: "string \<Rightarrow> string" where
  "dir_index directory = ''/src/pages/'' @ (if directory \<noteq> [] then directory @ ''/'' else []) @ ''index.ts''"

definition branch_scopes :: "string \<Rightarrow> nf_scope_entry list" where
  "branch_scopes path =
     (let boundary = classifyRoute (http_pattern path) = K404;
          parts = split_on CHR ''/'' (drop (length ''/src/pages/'') path);
          directories = (if boundary then butlast (butlast parts) else butlast parts);
          scopes = map (\<lambda>depth. let source = dir_index (join_with ''/'' (take depth directories)) in
            \<lparr>sc_source = source, sc_dirDepth = depth, sc_pattern = http_pattern source\<rparr>) [0..<length directories + 1]
      in if boundary then scopes
         else scopes @ [\<lparr>sc_source = path, sc_dirDepth = length directories, sc_pattern = http_pattern path\<rparr>])"

fun rank_cmp :: "nat list \<Rightarrow> nat list \<Rightarrow> int" where
  "rank_cmp (a # as) (b # bs) = (if a \<noteq> b then int a - int b else rank_cmp as bs)"
| "rank_cmp _ _ = 0"

definition nf_compare :: "nf_match \<Rightarrow> nf_match \<Rightarrow> int" where
  "nf_compare a b = (if ma_depth a \<noteq> ma_depth b then int (ma_depth b) - int (ma_depth a)
     else if rank_cmp (ma_ranks a) (ma_ranks b) \<noteq> 0 then rank_cmp (ma_ranks a) (ma_ranks b)
     else int (ma_groups a) - int (ma_groups b))"

text \<open>The best scope of one branch: the deepest match, the later directory on a tie.\<close>

fun best_scope :: "(string \<Rightarrow> string option) \<Rightarrow> string \<Rightarrow> nat \<Rightarrow> nf_scope_entry list \<Rightarrow> (nat \<times> nf_match) option \<Rightarrow> (nat \<times> nf_match) option" where
  "best_scope decode pathname groups [] best = best"
| "best_scope decode pathname groups (sc # scs) best =
     best_scope decode pathname groups scs
       (case prefix_match decode (sc_pattern sc) pathname of
          None \<Rightarrow> best
        | Some m \<Rightarrow> (let cand = Some (sc_dirDepth sc, \<lparr>ma_source = sc_source sc, ma_params = pr_params m, ma_depth = pr_depth m,
                ma_ranks = prefix_ranks (sc_pattern sc), ma_groups = groups\<rparr>) in
            (case best of None \<Rightarrow> cand
             | Some (d, b) \<Rightarrow> if pr_depth m > ma_depth b \<or> pr_depth m = ma_depth b \<and> sc_dirDepth sc \<ge> d then cand else best)))"

definition directory_of :: "string \<Rightarrow> string list" where
  "directory_of source = butlast (split_on CHR ''/'' source)"

fun common_prefix :: "'a list \<Rightarrow> 'a list \<Rightarrow> 'a list" where
  "common_prefix (a # as) (b # bs) = (if a = b then a # common_prefix as bs else [])"
| "common_prefix _ _ = []"

definition owns_below :: "nf_match \<Rightarrow> nf_match \<Rightarrow> bool" where
  "owns_below m other \<longleftrightarrow> starts_with (join_with ''/'' (directory_of (ma_source other))) (join_with ''/'' (directory_of (ma_source m)) @ ''/'')"

definition nf_branches :: "string list \<Rightarrow> string list" where
  "nf_branches effective = filter (\<lambda>p. classifyRoute (http_pattern p) \<noteq> KError) effective"

(* models packages/framework/src/route-ids.ts:254-309 createNotFoundResolver *)
definition notFoundResolver :: "(string \<Rightarrow> string option) \<Rightarrow> string list \<Rightarrow> string \<Rightarrow> not_found option" where
  "notFoundResolver decode effective pathname =
     (if \<not> starts_with pathname ''/'' then None
      else (let found = map (\<lambda>path. best_scope decode pathname (routeGroupCount path) (branch_scopes path) None) (nf_branches effective);
                matches = sort_by nf_compare (map (\<lambda>b. snd (the b)) (filter (\<lambda>b. b \<noteq> None) found)) in
        if matches = [] then None
        else (let ranked = filter (\<lambda>m. nf_compare m (hd matches) = 0) matches;
                  winners = filter (\<lambda>m. \<not> list_ex (owns_below m) ranked) ranked;
                  directories = map (\<lambda>m. directory_of (ma_source m)) winners;
                  common = foldl common_prefix (hd directories) (tl directories);
                  scope = join_with ''/'' common; anchor = scope @ ''/index.ts'' in
          (case resolveNearestSpecialPage anchor effective B404 of
             None \<Rightarrow> None
           | Some path \<Rightarrow>
              (let ambiguous = list_ex (\<lambda>d. join_with ''/'' d \<noteq> scope) directories in
               Some \<lparr>nf_path = path,
                 nf_params = (if ambiguous then (case prefix_match decode (http_pattern anchor) pathname of None \<Rightarrow> [] | Some m \<Rightarrow> pr_params m)
                              else ma_params (hd winners)),
                 nf_scope = scope, nf_ambiguous = ambiguous\<rparr>)))))"

(* models packages/framework/src/route-ids.ts:254-255 createNotFoundResolver *)
definition createNotFoundResolver ::
    "(string \<Rightarrow> string option) \<Rightarrow> (string \<Rightarrow> string \<Rightarrow> int) \<Rightarrow> string list \<Rightarrow> route_error + (string \<Rightarrow> not_found option)" where
  "createNotFoundResolver decode localeCompare pageKeys =
     bindr (resolvePageRouteFiles localeCompare pageKeys) (\<lambda>effective. Inr (notFoundResolver decode effective))"


section \<open>The routes manifest\<close>

(* models packages/framework/src/route-ids.ts:448-461 RouteDescriptor *)
record route_descriptor =
  rd_name :: string
  rd_pattern :: string
  rd_filePath :: string
  rd_routeId :: "string option"
  rd_kind :: route_kind
  rd_addressable :: bool
  rd_parameters :: "route_parameter list"
  rd_layouts :: "string list"
  rd_error :: "string option"
  rd_notFound :: "string option"

datatype manifest_error = ManifestRoute route_error | ManifestUrl url_error

definition lift_error :: "('e \<Rightarrow> 'f) \<Rightarrow> 'e + 'a \<Rightarrow> 'f + 'a" where
  "lift_error f r = (case r of Inl e \<Rightarrow> Inl (f e) | Inr x \<Rightarrow> Inr x)"

definition describe_route :: "string list \<Rightarrow> string list \<Rightarrow> route_maps \<Rightarrow> string \<Rightarrow> manifest_error + route_descriptor" where
  "describe_route pageKeys layoutKeys maps filePath =
     bindr (lift_error ManifestRoute (filePathToHttpRoute filePath)) (\<lambda>pattern.
     bindr (lift_error ManifestUrl (routeParameters pattern)) (\<lambda>parameters.
     Inr \<lparr>rd_name = filePathToRoutePath filePath, rd_pattern = pattern, rd_filePath = filePath,
       rd_routeId = map_of (routePathToIdMap maps) filePath, rd_kind = classifyRoute pattern,
       rd_addressable = (\<not> is_boundary (classifyRoute pattern)), rd_parameters = parameters,
       rd_layouts = resolveLayoutPaths filePath layoutKeys,
       rd_error = resolveNearestSpecialPage filePath pageKeys BError,
       rd_notFound = resolveNearestSpecialPage filePath pageKeys B404\<rparr>))"

(* models packages/framework/src/route-ids.ts:467-491 buildRoutesManifest *)
definition buildRoutesManifest :: "(string \<Rightarrow> string \<Rightarrow> int) \<Rightarrow> string list \<Rightarrow> string list \<Rightarrow> route_maps
    \<Rightarrow> manifest_error + (string list \<times> string list \<times> route_descriptor list)" where
  "buildRoutesManifest localeCompare pageKeys layoutKeys maps =
     bindr (lift_error ManifestRoute (resolvePageRouteFiles localeCompare pageKeys)) (\<lambda>resolved.
     bindr (mapr (describe_route pageKeys layoutKeys maps) resolved) (\<lambda>routes.
     Inr (resolved, sort_by str_cmp layoutKeys, routes)))"


section \<open>Module preloads\<close>

(* models packages/framework/src/route-ids.ts:363-374 collect *)
record manifest_entry =
  me_file :: "string option"
  me_imports :: "string list"

text \<open>
  \<open>collect\<close> recurses along imports. It marks the file of an entry, but asks whether the import's
  key was marked; the fuel bounds the recursion depth, \<open>None\<close> is running out of it.
\<close>

fun collect_modules :: "nat \<Rightarrow> (string \<Rightarrow> manifest_entry option) \<Rightarrow> string \<Rightarrow> string list \<Rightarrow> string list option"
  and collect_imports :: "nat \<Rightarrow> (string \<Rightarrow> manifest_entry option) \<Rightarrow> string list \<Rightarrow> string list \<Rightarrow> string list option" where
  "collect_modules 0 mf key acc = None"
| "collect_modules (Suc n) mf key acc = (case mf key of
     None \<Rightarrow> Some acc
   | Some e \<Rightarrow> collect_imports n mf (me_imports e)
       (case me_file e of Some f \<Rightarrow> if f \<in> set acc then acc else acc @ [f] | None \<Rightarrow> acc))"
| "collect_imports n mf [] acc = Some acc"
| "collect_imports n mf (i # is) acc =
     (if i \<in> set acc then collect_imports n mf is acc
      else (case collect_modules n mf i acc of None \<Rightarrow> None | Some acc' \<Rightarrow> collect_imports n mf is acc'))"

text \<open>The entry client's imports are collected without that test.\<close>

fun collect_all :: "nat \<Rightarrow> (string \<Rightarrow> manifest_entry option) \<Rightarrow> string list \<Rightarrow> string list \<Rightarrow> string list option" where
  "collect_all n mf [] acc = Some acc"
| "collect_all n mf (i # is) acc =
     (case collect_modules n mf i acc of None \<Rightarrow> None | Some acc' \<Rightarrow> collect_all n mf is acc')"

definition preload_href :: "(string \<Rightarrow> manifest_entry option) \<Rightarrow> string option \<Rightarrow> string \<Rightarrow> string list" where
  "preload_href mf entryFile key = (case (case mf key of None \<Rightarrow> None | Some e \<Rightarrow> me_file e) of
     Some f \<Rightarrow> if Some f \<noteq> entryFile then [CHR ''/'' # f] else []
   | None \<Rightarrow> if starts_with key ''assets/'' \<and> Some key \<noteq> entryFile then [CHR ''/'' # key] else [])"

(* models packages/framework/src/route-ids.ts:356-394 getModulePreloads *)
definition getModulePreloads :: "nat \<Rightarrow> bool \<Rightarrow> (string \<Rightarrow> manifest_entry option) \<Rightarrow> string \<Rightarrow> string list option" where
  "getModulePreloads fuel dev mf pagePath =
     (if pagePath = [] \<or> dev then Some []
      else (let key = (if starts_with pagePath ''/'' then drop 1 pagePath else pagePath);
                entry = mf ''src/client/entry-client.ts'';
                entryFile = (case entry of None \<Rightarrow> None | Some e \<Rightarrow> me_file e) in
        (case collect_modules fuel mf key [] of
           None \<Rightarrow> None
         | Some acc \<Rightarrow> (case collect_all fuel mf (case entry of None \<Rightarrow> [] | Some e \<Rightarrow> me_imports e) acc of
             None \<Rightarrow> None
           | Some collected \<Rightarrow> Some (concat (map (preload_href mf entryFile) collected))))))"

end
