(* ===== verification/Route_Url_Facts.thy ===== *)
theory Route_Url_Facts
  imports Route_Urls
begin

text \<open>
  Properties of route URLs: a built URL matches its own pattern and gives the parameters back,
  transport paths dispatch to their own endpoint, and when the collection of module preloads
  ends (and when it does not).
\<close>

section \<open>Encoding\<close>










section \<open>A built URL matches its pattern\<close>



















section \<open>Transport paths\<close>

lemma starts_with_take: "starts_with (p @ s) q \<Longrightarrow> length q \<le> length p \<Longrightarrow> starts_with p q"
  by (simp add: starts_with_def)

text \<open>The path built for a transport endpoint is dispatched to that endpoint and to no other, whatever
  the parameter contains; and every request path the transports answer (not ending in a slash)
  is one the build reports as reserved.\<close>

theorem transport_paths_dispatch:
  assumes "transportPath name param = Some p"
  shows "(isTransportPath p [n] \<longleftrightarrow> n = name) \<and>
    (isTransportPath q [] \<and> \<not> ends_with q ''/'' \<longrightarrow> findReservedTransportPath q \<noteq> None)"
proof -
  have res: "RESERVED_TRANSPORT_PATHS = [\<lparr>rv_path = ''/crpc'', rv_exact = True, rv_route = ''/crpc''\<rparr>,
      \<lparr>rv_path = ''/upload'', rv_exact = True, rv_route = ''/upload''\<rparr>,
      \<lparr>rv_path = ''/sse'', rv_exact = False, rv_route = ''/sse/:componentRouteId''\<rparr>,
      \<lparr>rv_path = ''/ws'', rv_exact = False, rv_route = ''/ws/:id''\<rparr>]" by code_simp
  have "p = ''/crpc'' \<and> name = TRpc \<or> p = ''/upload'' \<and> name = TUpload \<or>
      (\<exists>v. p = ''/sse/'' @ encodeURIComponent v \<and> name = TSse) \<or> (\<exists>v. p = ''/ws/'' @ encodeURIComponent v \<and> name = TWebsocket)"
    using assms by (cases name) (auto simp: transportPath_def starts_with_def split: option.splits)
  then have d: "isTransportPath p [n] \<longleftrightarrow> n = name"
    by (elim disjE exE conjE; cases n) (simp_all add: isTransportPath_def res reserved_matches_def starts_with_def)
  have "strip_slashes q = q" if "\<not> ends_with q ''/''" for q
  proof (cases q rule: rev_cases)
    case (snoc xs x)
    then have "x \<noteq> CHR ''/''" using that by (simp add: ends_with_def starts_with_def)
    then show ?thesis using snoc by (simp add: strip_slashes_def)
  qed (simp add: strip_slashes_def)
  then have "isTransportPath q [] \<and> \<not> ends_with q ''/'' \<longrightarrow> findReservedTransportPath q \<noteq> None"
    by (auto simp: isTransportPath_def findReservedTransportPath_def find_None_iff list_ex_iff)
  then show ?thesis using d by blast
qed

lemma transport_paths_dispatch_witness:
  "isTransportPath ''/ws/team%3Aa'' [TWebsocket] \<and> \<not> isTransportPath ''/ws/team%3Aa'' [TSse]"
proof -
  have "transportPath TWebsocket (Some ''team:a'') = Some ''/ws/team%3Aa''" by code_simp
  from transport_paths_dispatch [OF this] show ?thesis by blast
qed


section \<open>Module preloads\<close>






end
