(* ===== verification/Optimistic.thy ===== *)
theory Optimistic
  imports Prelude "HOL-Library.Finite_Map"
begin

text \<open>
  The ledger of optimistic updates: \<open>core/src/shared/optimistic-state.ts\<close>. A component's fields
  hold plain trees; \<open>equal\<close> of the source is equality of trees (objects are finite maps, so the
  order of keys does not matter) and \<open>copy\<close> is the identity, since trees here are immutable
  values. Numbers are exact integers. Trees within the depth limit are meant, so the copy never
  fails. The flags \<open>writing\<close> and \<open>capturing\<close> of the source are true exactly while \<open>write\<close> or a
  handler runs; both run to their end here, and a setter they call notes nothing.
\<close>

section \<open>Values, operations, fields\<close>

datatype tree = TUndef | TNull | TBool bool | TNum int | TStr string | TArr "tree list" | TObj "(string, tree) fmap"

(* models packages/core/src/shared/optimistic-state.ts:5-5 OptimisticOperation *)
datatype operation = Increment int | Append tree | Remove tree

(* models packages/core/src/shared/optimistic-state.ts:137-142 OptimisticEditError *)
datatype edit_error = NotNumber | NotArray | Mixed string | NotCaptured | NotField string | BadValue | HandlerThrew

(* models packages/core/src/shared/optimistic-state.ts:6-6 Change *)
record change =
  ch_seq :: nat
  ch_value :: tree
  ch_ops :: "operation list option"

(* models packages/core/src/shared/optimistic-state.ts:7-7 Field *)
record field =
  f_base :: tree
  f_seq :: nat
  f_changes :: "(nat \<times> change) list"
  f_displayed :: tree
  f_local :: "change option"

text \<open>A call carries an identity of its own (\<open>oc_id\<close>), as the object does in the source.\<close>

(* models packages/core/src/shared/optimistic-state.ts:8-16 OptimisticCall *)
record call =
  oc_id :: nat
  oc_seq :: nat
  oc_name :: string
  oc_fields :: "string list"
  oc_requestId :: "string option"

(* models packages/core/src/shared/optimistic-state.ts:18-18 Ledger *)
record ledger =
  l_clock :: nat
  l_calls :: "call list"
  l_fields :: "(string \<times> field) list"

text \<open>A component: its live fields, its ledger while calls are pending, the edits that survived
  settlement, the loading counts, and the next identity.\<close>

record component =
  c_live :: "string \<Rightarrow> tree"
  c_ledger :: "ledger option"
  c_settled :: "(string \<times> tree) list"
  c_loading :: "(string \<times> nat) list"
  c_next :: nat

definition apply_operation :: "tree \<Rightarrow> operation \<Rightarrow> edit_error + tree" where
  "apply_operation v op = (case op of
     Increment n \<Rightarrow> (case v of TNum i \<Rightarrow> Inr (TNum (i + n)) | _ \<Rightarrow> Inl NotNumber)
   | Append x \<Rightarrow> (case v of TArr xs \<Rightarrow> Inr (TArr (xs @ [x])) | _ \<Rightarrow> Inl NotArray)
   | Remove x \<Rightarrow> (case v of TArr xs \<Rightarrow> Inr (TArr (remove1 x xs)) | _ \<Rightarrow> Inl NotArray))"

(* models packages/core/src/shared/optimistic-state.ts:167-184 applyOperations *)
fun applyOperations :: "tree \<Rightarrow> operation list \<Rightarrow> edit_error + tree" where
  "applyOperations v [] = Inr v"
| "applyOperations v (op # ops) = bindr (apply_operation v op) (\<lambda>v'. applyOperations v' ops)"


section \<open>Writing a field\<close>

fun apply_changes :: "change list \<Rightarrow> tree \<Rightarrow> edit_error + tree" where
  "apply_changes [] v = Inr v"
| "apply_changes (ch # chs) v =
     bindr (case ch_ops ch of Some ops \<Rightarrow> applyOperations v ops | None \<Rightarrow> Inr (ch_value ch)) (apply_changes chs)"

definition all_changes :: "field \<Rightarrow> change list" where
  "all_changes f = map snd (f_changes f) @ (case f_local f of None \<Rightarrow> [] | Some ch \<Rightarrow> [ch])"

definition ordered_changes :: "field \<Rightarrow> change list" where
  "ordered_changes f = filter (\<lambda>ch. ch_seq ch > f_seq f)
     (sort_by (\<lambda>a b. int (ch_seq a) - int (ch_seq b)) (all_changes f))"

text \<open>The value a field should show: newer contributions over the confirmed base, in order.\<close>

definition field_view :: "field \<Rightarrow> edit_error + tree" where
  "field_view f = apply_changes (ordered_changes f) (f_base f)"

definition put_field :: "string \<Rightarrow> field \<Rightarrow> component \<Rightarrow> component" where
  "put_field key f c = (case c_ledger c of None \<Rightarrow> c
     | Some l \<Rightarrow> c\<lparr>c_ledger := Some (l\<lparr>l_fields := AList.update key f (l_fields l)\<rparr>)\<rparr>)"

definition get_field :: "string \<Rightarrow> component \<Rightarrow> field option" where
  "get_field key c = (case c_ledger c of None \<Rightarrow> None | Some l \<Rightarrow> map_of (l_fields l) key)"

text \<open>\<open>write\<close>: the field object keeps what was changed in it even when the operations do not apply.\<close>

(* models packages/core/src/shared/optimistic-state.ts:220-238 write *)
definition write_field :: "string \<Rightarrow> field \<Rightarrow> component \<Rightarrow> (edit_error + unit) \<times> component" where
  "write_field key f c = (case field_view f of
     Inl e \<Rightarrow> (Inl e, put_field key f c)
   | Inr v \<Rightarrow> (Inr (), put_field key (f\<lparr>f_displayed := v\<rparr>) (c\<lparr>c_live := (c_live c)(key := v)\<rparr>)))"

(* models packages/core/src/shared/optimistic-state.ts:241-248 noteOptimisticWrite *)
definition noteOptimisticWrite :: "string \<Rightarrow> component \<Rightarrow> component" where
  "noteOptimisticWrite key c = (case c_ledger c of None \<Rightarrow> c
     | Some l \<Rightarrow> (case map_of (l_fields l) key of None \<Rightarrow> c
        | Some f \<Rightarrow> let v = c_live c key; n = Suc (l_clock l) in
            c\<lparr>c_ledger := Some (l\<lparr>l_clock := n, l_fields := AList.update key
               (f\<lparr>f_local := Some \<lparr>ch_seq = n, ch_value = v, ch_ops = None\<rparr>, f_displayed := v\<rparr>) (l_fields l)\<rparr>)\<rparr>))"

(* models packages/core/src/shared/optimistic-state.ts:250-252 observeExternal *)
definition observeExternal :: "string \<Rightarrow> component \<Rightarrow> component" where
  "observeExternal key c = (case get_field key c of None \<Rightarrow> c
     | Some f \<Rightarrow> if c_live c key \<noteq> f_displayed f then noteOptimisticWrite key c else c)"

text \<open>A component setter: store, then note. In-place mutation stores without noting.\<close>

definition user_set :: "string \<Rightarrow> tree \<Rightarrow> component \<Rightarrow> component" where
  "user_set key v c = noteOptimisticWrite key (c\<lparr>c_live := (c_live c)(key := v)\<rparr>)"


section \<open>Handlers\<close>

text \<open>What a synchronous handler does: assign a field, use an operation helper, or throw.\<close>

datatype handler_act = HSet string tree | HOp string operation | HThrow

(* models packages/core/src/shared/optimistic-state.ts:17-17 Capture *)
record capture =
  cap_live :: "string \<Rightarrow> tree"
  cap_ops :: "(string \<times> operation list) list"

definition ops_of :: "capture \<Rightarrow> string \<Rightarrow> operation list" where
  "ops_of cap key = (case map_of (cap_ops cap) key of None \<Rightarrow> [] | Some os \<Rightarrow> os)"

text \<open>\<open>operationValue\<close>: finite plain data, so \<open>undefined\<close> nowhere.\<close>

(* models packages/core/src/shared/optimistic-state.ts:145-165 operationValue *)
primrec plain_tree :: "tree \<Rightarrow> bool" where
  "plain_tree TUndef = False"
| "plain_tree TNull = True"
| "plain_tree (TBool b) = True"
| "plain_tree (TNum i) = True"
| "plain_tree (TStr s) = True"
| "plain_tree (TArr ts) = list_all (\<lambda>b. b) (map plain_tree ts)"
| "plain_tree (TObj m) = fmpred (\<lambda>_ b. b) (fmmap plain_tree m)"

definition operation_value_ok :: "operation \<Rightarrow> bool" where
  "operation_value_ok op = (case op of Increment _ \<Rightarrow> True | Append v \<Rightarrow> plain_tree v | Remove v \<Rightarrow> plain_tree v)"

(* models packages/core/src/shared/optimistic-state.ts:193-209 recordOptimisticOperation *)
definition recordOptimisticOperation ::
    "(string \<times> tree) list \<Rightarrow> string \<Rightarrow> operation \<Rightarrow> capture \<Rightarrow> edit_error + capture" where
  "recordOptimisticOperation before key op cap = (case map_of before key of
     None \<Rightarrow> Inl (NotField key)
   | Some v \<Rightarrow>
      bindr (applyOperations v (ops_of cap key)) (\<lambda>expected.
      if cap_live cap key \<noteq> expected then Inl (Mixed key)
      else if \<not> operation_value_ok op then Inl BadValue
      else bindr (apply_operation (cap_live cap key) op) (\<lambda>next.
        Inr (cap\<lparr>cap_live := (cap_live cap)(key := next), cap_ops := AList.update key (ops_of cap key @ [op]) (cap_ops cap)\<rparr>))))"

text \<open>Running a handler: whether it failed, and what it left behind.\<close>

fun run_handler :: "(string \<times> tree) list \<Rightarrow> handler_act list \<Rightarrow> capture \<Rightarrow> bool \<times> capture" where
  "run_handler before [] cap = (False, cap)"
| "run_handler before (HSet key v # acts) cap = run_handler before acts (cap\<lparr>cap_live := (cap_live cap)(key := v)\<rparr>)"
| "run_handler before (HOp key op # acts) cap = (case recordOptimisticOperation before key op cap of
     Inl e \<Rightarrow> (True, cap) | Inr cap' \<Rightarrow> run_handler before acts cap')"
| "run_handler before (HThrow # acts) cap = (True, cap)"

text \<open>
  Collecting the contributions: for every field the handler changed, its ledger entry and the
  call's change. The result also says whether a mixture of assignments and operations was found.
\<close>

fun collect_contributions :: "call \<Rightarrow> (string \<times> tree) list \<Rightarrow> capture \<Rightarrow> component \<Rightarrow> string list \<Rightarrow> bool
    \<Rightarrow> bool \<times> string list \<times> component" where
  "collect_contributions k [] cap c keys failed = (failed, keys, c)"
| "collect_contributions k ((key, v) # rest) cap c keys failed =
     (let operations = map_of (cap_ops cap) key; next = c_live c key in
      if operations = None \<and> v = next then collect_contributions k rest cap c keys failed
      else (let f = (case get_field key c of Some f \<Rightarrow> f
                | None \<Rightarrow> \<lparr>f_base = v, f_seq = 0, f_changes = [], f_displayed = v, f_local = None\<rparr>);
                bad = (case operations of None \<Rightarrow> False | Some os \<Rightarrow> applyOperations v os \<noteq> Inr next) in
        if bad then collect_contributions k rest cap (put_field key f c) (keys @ [key]) True
        else collect_contributions k rest cap
          (put_field key (f\<lparr>f_changes := AList.update (oc_id k) \<lparr>ch_seq = oc_seq k, ch_value = next, ch_ops = operations\<rparr> (f_changes f),
             f_displayed := next\<rparr>) c) (keys @ [key]) failed))"

text \<open>Taking a call's contribution out of its fields again, after a failing handler.\<close>

fun withdraw :: "nat \<Rightarrow> string list \<Rightarrow> component \<Rightarrow> (edit_error + unit) \<times> component" where
  "withdraw k [] c = (Inr (), c)"
| "withdraw k (key # keys) c = (case get_field key c of
     None \<Rightarrow> withdraw k keys c
   | Some f \<Rightarrow> (case write_field key (f\<lparr>f_changes := AList.delete k (f_changes f)\<rparr>) c of
       (Inl e, c') \<Rightarrow> (Inl e, c') | (Inr _, c') \<Rightarrow> withdraw k keys c'))"

fun observe_all :: "string list \<Rightarrow> component \<Rightarrow> component" where
  "observe_all [] c = c"
| "observe_all (key # keys) c = observe_all keys (observeExternal key c)"

definition ledger_or_new :: "component \<Rightarrow> ledger" where
  "ledger_or_new c = (case c_ledger c of Some l \<Rightarrow> l | None \<Rightarrow> \<lparr>l_clock = 0, l_calls = [], l_fields = []\<rparr>)"

definition register_call :: "call \<Rightarrow> component \<Rightarrow> component" where
  "register_call k c = (case c_ledger c of None \<Rightarrow> c
     | Some l \<Rightarrow> c\<lparr>c_ledger := Some (l\<lparr>l_clock := oc_seq k, l_calls := l_calls l @ [k]\<rparr>), c_next := Suc (oc_id k)\<rparr>)"

definition set_call :: "call \<Rightarrow> component \<Rightarrow> component" where
  "set_call k c = (case c_ledger c of None \<Rightarrow> c
     | Some l \<Rightarrow> c\<lparr>c_ledger := Some (l\<lparr>l_calls := map (\<lambda>x. if oc_id x = oc_id k then k else x) (l_calls l)\<rparr>)\<rparr>)"

definition owned_keys :: "component \<Rightarrow> string list" where
  "owned_keys c = (case c_ledger c of None \<Rightarrow> [] | Some l \<Rightarrow> map fst (l_fields l))"

text \<open>\<open>handler\<close> is \<open>None\<close> for a call without one; \<open>keys\<close> are the component's reactive fields.\<close>

(* models packages/core/src/shared/optimistic-state.ts:254-294 beginOptimisticCall *)
definition beginOptimisticCall :: "string \<Rightarrow> handler_act list option \<Rightarrow> string list \<Rightarrow> component
    \<Rightarrow> (edit_error + call) \<times> component" where
  "beginOptimisticCall name handler keys c0 =
     (let c1 = c0\<lparr>c_ledger := Some (ledger_or_new c0)\<rparr>;
          c2 = observe_all (owned_keys c1) c1;
          k = \<lparr>oc_id = c_next c2, oc_seq = Suc (l_clock (ledger_or_new c2)), oc_name = name, oc_fields = [], oc_requestId = None\<rparr>;
          c3 = register_call k c2
      in (case handler of
         None \<Rightarrow> (Inr k, c3)
       | Some acts \<Rightarrow>
          (let before = map (\<lambda>key. (key, c_live c3 key)) (uniq keys);
               (failed1, cap) = run_handler before acts \<lparr>cap_live = c_live c3, cap_ops = []\<rparr>;
               (failed, used, c4) = collect_contributions k before cap (c3\<lparr>c_live := cap_live cap\<rparr>) [] failed1
           in if failed then (case withdraw (oc_id k) used c4 of (Inl e, c5) \<Rightarrow> (Inl e, c5) | (Inr _, c5) \<Rightarrow> (Inr k, c5))
              else (let k' = k\<lparr>oc_fields := used\<rparr> in (Inr k', set_call k' c4)))))"


section \<open>Server state and settlement\<close>

definition call_active :: "call \<Rightarrow> component \<Rightarrow> bool" where
  "call_active k c = (case c_ledger c of None \<Rightarrow> False | Some l \<Rightarrow> oc_id k \<in> set (map oc_id (l_calls l)))"

(* models packages/core/src/shared/optimistic-state.ts:31-34 optimisticCallForRequest *)
definition optimisticCallForRequest :: "jsv \<Rightarrow> component \<Rightarrow> call option" where
  "optimisticCallForRequest requestId c = (case requestId of
     JStr r \<Rightarrow> (case c_ledger c of None \<Rightarrow> None | Some l \<Rightarrow> List.find (\<lambda>k. oc_requestId k = Some r) (l_calls l))
   | _ \<Rightarrow> None)"

(* models packages/core/src/shared/optimistic-state.ts:311-314 ownsOptimisticField *)
definition ownsOptimisticField :: "string \<Rightarrow> call option \<Rightarrow> component \<Rightarrow> bool" where
  "ownsOptimisticField key k c \<longleftrightarrow> c_ledger c \<noteq> None \<and> (case k of None \<Rightarrow> True | Some k \<Rightarrow> call_active k c) \<and> get_field key c \<noteq> None"

definition confirm_base :: "tree \<Rightarrow> call option \<Rightarrow> field \<Rightarrow> field" where
  "confirm_base v k f = (let f1 = f\<lparr>f_base := v\<rparr> in (case k of
     None \<Rightarrow> f1
   | Some k \<Rightarrow> (let f2 = f1\<lparr>f_seq := oc_seq k\<rparr> in (case f_local f of
        Some loc \<Rightarrow> if oc_seq k \<ge> ch_seq loc then f2\<lparr>f_local := None\<rparr> else f2
      | None \<Rightarrow> f2))))"

(* models packages/core/src/shared/optimistic-state.ts:317-332 applyOptimisticState *)
definition applyOptimisticState :: "string \<Rightarrow> tree \<Rightarrow> call option \<Rightarrow> bool \<Rightarrow> component \<Rightarrow> (edit_error + bool) \<times> component" where
  "applyOptimisticState key v k echo c0 =
     (if \<not> ownsOptimisticField key k c0 then (Inr False, c0)
      else (let c = observeExternal key c0 in (case get_field key c of
          None \<Rightarrow> (Inr False, c)
        | Some f \<Rightarrow>
           (let f' = (if \<not> echo \<and> (case k of None \<Rightarrow> True | Some k \<Rightarrow> oc_seq k \<ge> f_seq f) then confirm_base v k f else f)
            in (case write_field key f' c of (Inl e, c') \<Rightarrow> (Inl e, c') | (Inr _, c') \<Rightarrow> (Inr True, c'))))))"

text \<open>The settlement of one field, before its final write.\<close>

definition settle_field :: "call \<Rightarrow> bool \<Rightarrow> field \<Rightarrow> field" where
  "settle_field k success f =
     (let ch = map_of (f_changes f) (oc_id k); has_ops = (case ch of Some x \<Rightarrow> ch_ops x \<noteq> None | None \<Rightarrow> False);
          f1 = (case ch of
             Some x \<Rightarrow> if success \<and> ch_ops x = None \<and> oc_seq k > f_seq f then f\<lparr>f_base := ch_value x, f_seq := oc_seq k\<rparr> else f
           | None \<Rightarrow> f);
          f2 = (case f_local f1 of
             Some loc \<Rightarrow> if success \<and> \<not> has_ops \<and> oc_seq k \<ge> ch_seq loc then f1\<lparr>f_local := None\<rparr> else f1
           | None \<Rightarrow> f1)
      in if \<not> success \<or> \<not> has_ops then f2\<lparr>f_changes := AList.delete (oc_id k) (f_changes f2)\<rparr> else f2)"

fun settle_fields :: "call \<Rightarrow> bool \<Rightarrow> string list \<Rightarrow> component \<Rightarrow> component" where
  "settle_fields k success [] c = c"
| "settle_fields k success (key # keys) c =
     (let c1 = observeExternal key c in (case get_field key c1 of
        None \<Rightarrow> settle_fields k success keys c1
      | Some f \<Rightarrow> settle_fields k success keys (snd (write_field key (settle_field k success f) c1))))"

text \<open>The last call: edits newer than the confirmed state are remembered, the ledger goes.\<close>

fun settle_edits :: "(string \<times> field) list \<Rightarrow> (string \<times> tree) list \<Rightarrow> (string \<times> tree) list" where
  "settle_edits [] m = m"
| "settle_edits ((key, f) # fs) m = settle_edits fs
     (case f_local f of
        Some loc \<Rightarrow> if ch_seq loc > f_seq f then AList.update key (f_base f) m else AList.delete key m
      | None \<Rightarrow> AList.delete key m)"

(* models packages/core/src/shared/optimistic-state.ts:334-370 finishOptimisticCall *)
definition finishOptimisticCall :: "call \<Rightarrow> bool \<Rightarrow> component \<Rightarrow> component" where
  "finishOptimisticCall k success c0 =
     (if \<not> call_active k c0 then c0
      else (case c_ledger c0 of None \<Rightarrow> c0
        | Some l \<Rightarrow>
          (let c1 = c0\<lparr>c_ledger := Some (l\<lparr>l_calls := filter (\<lambda>x. oc_id x \<noteq> oc_id k) (l_calls l)\<rparr>)\<rparr>;
               c2 = settle_fields k success (oc_fields k) c1
           in (case c_ledger c2 of None \<Rightarrow> c2
             | Some l2 \<Rightarrow> if l_calls l2 \<noteq> [] then c2
                 else c2\<lparr>c_ledger := None, c_settled := settle_edits (l_fields l2) (c_settled c2)\<rparr>))))"

(* models packages/core/src/shared/optimistic-state.ts:26-28 resetOptimisticSnapshotHistory *)
definition resetOptimisticSnapshotHistory :: "component \<Rightarrow> component" where
  "resetOptimisticSnapshotHistory c = c\<lparr>c_settled := []\<rparr>"

(* models packages/core/src/shared/optimistic-state.ts:50-57 acceptSettledOptimisticSnapshot *)
definition acceptSettledOptimisticSnapshot :: "string \<Rightarrow> tree \<Rightarrow> bool \<Rightarrow> component \<Rightarrow> bool \<times> component" where
  "acceptSettledOptimisticSnapshot key v authoritative c = (case map_of (c_settled c) key of
     None \<Rightarrow> (True, c)
   | Some x \<Rightarrow> if \<not> authoritative \<and> x = v then (False, c) else (True, c\<lparr>c_settled := AList.delete key (c_settled c)\<rparr>))"

fun confirm_keys :: "call \<Rightarrow> string list \<Rightarrow> component \<Rightarrow> (edit_error + unit) \<times> component" where
  "confirm_keys k [] c = (Inr (), c)"
| "confirm_keys k (key # keys) c = (case get_field key c of
     None \<Rightarrow> confirm_keys k keys c
   | Some f \<Rightarrow> if map_of (f_changes f) (oc_id k) = None then confirm_keys k keys c
      else (let c1 = observeExternal key c in (case get_field key c1 of
          None \<Rightarrow> confirm_keys k keys c1
        | Some f1 \<Rightarrow> (case write_field key (f1\<lparr>f_changes := AList.delete (oc_id k) (f_changes f1)\<rparr>) c1 of
            (Inl e, c2) \<Rightarrow> (Inl e, c2) | (Inr _, c2) \<Rightarrow> confirm_keys k keys c2))))"

(* models packages/core/src/shared/optimistic-state.ts:37-47 confirmOptimisticFields *)
definition confirmOptimisticFields :: "call \<Rightarrow> string list \<Rightarrow> component \<Rightarrow> (edit_error + unit) \<times> component" where
  "confirmOptimisticFields k keys c = (if call_active k c then confirm_keys k keys c else (Inr (), c))"

definition request_value :: "component \<Rightarrow> string \<times> tree \<Rightarrow> string \<times> tree" where
  "request_value c = (\<lambda>(key, v). (key, case get_field key c of None \<Rightarrow> v
     | Some f \<Rightarrow> (case f_local f of Some loc \<Rightarrow> ch_value loc | None \<Rightarrow> f_base f)))"

(* models packages/core/src/shared/optimistic-state.ts:297-308 optimisticRequestState *)
definition optimisticRequestState :: "(string \<times> tree) list \<Rightarrow> component \<Rightarrow> (string \<times> tree) list \<times> component" where
  "optimisticRequestState state c = (case c_ledger c of None \<Rightarrow> (state, c)
     | Some l \<Rightarrow> let c' = observe_all (map fst (l_fields l)) c in (map (request_value c') state, c'))"


section \<open>Loading counts\<close>

definition loading_count :: "component \<Rightarrow> string \<Rightarrow> nat" where
  "loading_count c name = (case map_of (c_loading c) name of None \<Rightarrow> 0 | Some n \<Rightarrow> n)"

(* models packages/core/src/shared/optimistic-state.ts:60-72 ownRpcLoading *)
definition ownRpcLoading :: "string \<Rightarrow> component \<Rightarrow> component" where
  "ownRpcLoading name c = c\<lparr>c_loading := AList.update name (loading_count c name + 1) (c_loading c)\<rparr>"

text \<open>The function it returns; \<open>released\<close> is its own flag.\<close>

definition releaseLoading :: "string \<Rightarrow> bool \<Rightarrow> component \<Rightarrow> bool \<times> component" where
  "releaseLoading name released c =
     (if released then (True, c)
      else (True, c\<lparr>c_loading := (if loading_count c name > 1 then AList.update name (loading_count c name - 1) (c_loading c)
        else AList.delete name (c_loading c))\<rparr>))"

(* models packages/core/src/shared/optimistic-state.ts:373-375 hasOptimisticCalls *)
definition hasOptimisticCalls :: "string \<Rightarrow> component \<Rightarrow> bool" where
  "hasOptimisticCalls name c \<longleftrightarrow> loading_count c name > 0 \<or>
     (case c_ledger c of None \<Rightarrow> False | Some l \<Rightarrow> list_ex (\<lambda>k. oc_name k = name) (l_calls l))"

end
