(* ===== verification/Optimistic_Facts.thy ===== *)
theory Optimistic_Facts
  imports Optimistic
begin

text \<open>
  Properties of the optimistic ledger: what a component shows is its confirmed state with the
  pending contributions on top, in every reachable state; a rejected call leaves no trace; and
  concurrent operations on one field compose.
\<close>

section \<open>Order of contributions\<close>

lemma insert_by_seq: "insert_by (\<lambda>a b. int (ch_seq a) - int (ch_seq b)) x ys = insort_key ch_seq x ys"
  by (induction ys) auto

lemma sort_by_seq: "sort_by (\<lambda>a b. int (ch_seq a) - int (ch_seq b)) xs = sort_key ch_seq xs"
  by (induction xs) (simp_all add: insert_by_seq)

lemma ordered_alt: "ordered_changes f = filter (\<lambda>ch. ch_seq ch > f_seq f) (sort_key ch_seq (all_changes f))"
  by (simp add: ordered_changes_def sort_by_seq)

lemma insort_key_last: "f y \<le> f x \<Longrightarrow> insort_key f y (xs @ [x]) = insort_key f y xs @ [x]"
  by (induction xs) auto

lemma insort_key_greatest: "(\<And>y. y \<in> set xs \<Longrightarrow> f y < f x) \<Longrightarrow> insort_key f x xs = xs @ [x]"
proof (induction xs)
  case (Cons a xs)
  have "\<not> f x \<le> f a" using Cons.prems [of a] by (simp add: not_le)
  then show ?case using Cons by simp
qed simp

lemma sort_key_newest:
  "(\<And>y. y \<in> set xs \<union> set zs \<Longrightarrow> f y < f x) \<Longrightarrow> sort_key f (xs @ x # zs) = sort_key f (xs @ zs) @ [x]"
proof (induction xs)
  case Nil
  then show ?case using insort_key_greatest [of "sort_key f zs" f x] by simp
next
  case (Cons y xs)
  then show ?case by (simp add: insort_key_last less_imp_le)
qed

lemma apply_changes_append:
  "apply_changes (xs @ ys) v = bindr (apply_changes xs v) (apply_changes ys)"
proof (induction xs arbitrary: v)
  case (Cons x xs)
  then show ?case by (cases "case ch_ops x of Some ops \<Rightarrow> applyOperations v ops | None \<Rightarrow> Inr (ch_value x)") auto
qed simp


section \<open>The invariant\<close>

definition field_ok :: "nat \<Rightarrow> nat \<Rightarrow> field \<Rightarrow> bool" where
  "field_ok n m f \<longleftrightarrow> (\<forall>ch \<in> set (all_changes f). ch_seq ch \<le> n) \<and> f_seq f \<le> n \<and>
     distinct (map fst (f_changes f)) \<and> (\<forall>i \<in> set (map fst (f_changes f)). i < m) \<and>
     (\<forall>v. field_view f = Inr v \<longrightarrow> f_displayed f = v)"

definition opt_inv :: "component \<Rightarrow> bool" where
  "opt_inv c \<longleftrightarrow> (case c_ledger c of None \<Rightarrow> True
     | Some l \<Rightarrow> distinct (map fst (l_fields l)) \<and> (\<forall>(key, f) \<in> set (l_fields l). field_ok (l_clock l) (c_next c) f) \<and>
         (\<forall>k \<in> set (l_calls l). oc_seq k \<le> l_clock l \<and> oc_id k < c_next c))"

lemma opt_inv_field: "opt_inv c \<Longrightarrow> c_ledger c = Some l \<Longrightarrow> get_field key c = Some f \<Longrightarrow> field_ok (l_clock l) (c_next c) f"
  by (auto simp: opt_inv_def get_field_def dest!: map_of_SomeD)

lemma set_update_subset: "set (AList.update k v m) \<subseteq> insert (k, v) (set m)"
  by (induction m) auto

lemma opt_inv_put:
  assumes "opt_inv c" and "c_ledger c = Some l" and "field_ok (l_clock l) (c_next c) f"
  shows "opt_inv (put_field key f c)"
proof -
  have "distinct (map fst (AList.update key f (l_fields l)))"
    using assms(1,2) distinct_update by (auto simp: opt_inv_def)
  moreover have "\<forall>(key, f) \<in> set (AList.update key f (l_fields l)). field_ok (l_clock l) (c_next c) f"
    using assms set_update_subset [of key f "l_fields l"] by (fastforce simp: opt_inv_def)
  ultimately show ?thesis using assms(1,2) by (auto simp: opt_inv_def put_field_def)
qed

lemma opt_inv_live [simp]: "opt_inv (c\<lparr>c_live := h\<rparr>) = opt_inv c"
  by (simp add: opt_inv_def split: option.split)

lemma opt_inv_settled [simp]: "opt_inv (c\<lparr>c_settled := h\<rparr>) = opt_inv c"
  by (simp add: opt_inv_def split: option.split)

lemma all_changes_displayed [simp]: "all_changes (f\<lparr>f_displayed := v\<rparr>) = all_changes f"
  by (simp add: all_changes_def)

lemma view_displayed [simp]: "field_view (f\<lparr>f_displayed := v\<rparr>) = field_view f"
  by (simp add: field_view_def ordered_changes_def)

text \<open>The part of the invariant that \<open>write\<close> needs; it provides the rest.\<close>

definition field_pre :: "nat \<Rightarrow> nat \<Rightarrow> field \<Rightarrow> bool" where
  "field_pre n m f \<longleftrightarrow> (\<forall>ch \<in> set (all_changes f). ch_seq ch \<le> n) \<and> f_seq f \<le> n \<and>
     distinct (map fst (f_changes f)) \<and> (\<forall>i \<in> set (map fst (f_changes f)). i < m)"

lemma field_ok_pre: "field_ok n m f \<longleftrightarrow> field_pre n m f \<and> (\<forall>v. field_view f = Inr v \<longrightarrow> f_displayed f = v)"
  by (auto simp: field_ok_def field_pre_def)

lemma field_pre_displayed [simp]: "field_pre n m (f\<lparr>f_displayed := v\<rparr>) = field_pre n m f"
  by (simp add: field_pre_def)

lemma write_inv:
  assumes "opt_inv c" and "c_ledger c = Some l" and "field_pre (l_clock l) (c_next c) f"
  shows "opt_inv (snd (write_field key f c))"
proof (cases "field_view f")
  case (Inl e)
  then have "field_ok (l_clock l) (c_next c) f" using assms(3) by (simp add: field_ok_pre)
  then show ?thesis using opt_inv_put [OF assms(1,2)] Inl by (simp add: write_field_def)
next
  case (Inr v)
  let ?c = "c\<lparr>c_live := (c_live c)(key := v)\<rparr>"
  have "field_ok (l_clock l) (c_next ?c) (f\<lparr>f_displayed := v\<rparr>)" using assms(3) Inr by (simp add: field_ok_pre)
  moreover have "opt_inv ?c" "c_ledger ?c = Some l" using assms(1,2) by simp_all
  ultimately show ?thesis using opt_inv_put [of ?c l] Inr by (simp add: write_field_def)
qed

lemma put_ledger: "c_ledger c = Some l \<Longrightarrow> c_ledger (put_field key f c) = Some (l\<lparr>l_fields := AList.update key f (l_fields l)\<rparr>)"
  by (simp add: put_field_def)

lemma put_get: "c_ledger c \<noteq> None \<Longrightarrow> get_field j (put_field key f c) = (if j = key then Some f else get_field j c)"
  by (auto simp: put_field_def get_field_def)

lemma put_live [simp]: "c_live (put_field key f c) = c_live c"
  by (simp add: put_field_def split: option.splits)

lemma put_next [simp]: "c_next (put_field key f c) = c_next c"
  by (simp add: put_field_def split: option.splits)

lemma view_newest:
  assumes "ch_seq ch > f_seq f" and "\<And>x. x \<in> set xs \<union> set zs \<Longrightarrow> ch_seq x < ch_seq ch" and "all_changes f = xs @ ch # zs"
  shows "field_view f = bindr (apply_changes (filter (\<lambda>ch. ch_seq ch > f_seq f) (sort_key ch_seq (xs @ zs))) (f_base f))
    (apply_changes [ch])"
proof -
  have "sort_key ch_seq (xs @ ch # zs) = sort_key ch_seq (xs @ zs) @ [ch]" using sort_key_newest [of xs zs ch_seq ch] assms(2) by blast
  then show ?thesis using assms(1,3) by (simp add: field_view_def ordered_alt apply_changes_append)
qed

lemma apply_single_value: "ch_ops ch = None \<Longrightarrow> apply_changes [ch] v = Inr (ch_value ch)"
  by simp

lemma note_inv:
  assumes "opt_inv c"
  shows "opt_inv (noteOptimisticWrite key c)"
proof (cases "c_ledger c")
  case (Some l)
  show ?thesis
  proof (cases "map_of (l_fields l) key")
    case f: (Some f)
    let ?n = "Suc (l_clock l)" and ?v = "c_live c key"
    let ?ch = "\<lparr>ch_seq = ?n, ch_value = ?v, ch_ops = None\<rparr>"
    let ?f = "f\<lparr>f_local := Some ?ch, f_displayed := ?v\<rparr>"
    let ?l = "l\<lparr>l_clock := ?n\<rparr>" and ?c = "c\<lparr>c_ledger := Some (l\<lparr>l_clock := Suc (l_clock l)\<rparr>)\<rparr>"
    have fo: "field_ok (l_clock l) (c_next c) f" using opt_inv_field [OF assms Some, of key] f Some by (simp add: get_field_def)
    have mono: "field_ok ?n (c_next c) g" if "field_ok (l_clock l) (c_next c) g" for g
      using that by (auto simp: field_ok_def)
    have ic: "opt_inv ?c" using assms Some mono by (fastforce simp: opt_inv_def)
    have lt: "\<And>x. x \<in> set (map snd (f_changes f)) \<Longrightarrow> ch_seq x < ?n"
      using fo by (auto simp: field_ok_def all_changes_def less_Suc_eq_le)
    have fs: "f_seq f \<le> l_clock l" using fo by (simp add: field_ok_def)
    have view: "field_view ?f = bindr (apply_changes (filter (\<lambda>ch. ch_seq ch > f_seq ?f) (sort_key ch_seq (map snd (f_changes f) @ []))) (f_base ?f)) (apply_changes [?ch])"
      by (rule view_newest) (use lt fs in \<open>auto simp: all_changes_def\<close>)
    have "field_ok ?n (c_next c) ?f"
    proof -
      have "\<And>i x. (i, x) \<in> set (f_changes f) \<Longrightarrow> ch_seq x \<le> ?n" using lt by (force simp: less_imp_le)
      then have "field_pre ?n (c_next c) ?f" using fo by (auto simp: field_ok_def field_pre_def all_changes_def)
      moreover have "field_view ?f = Inr v \<longrightarrow> f_displayed ?f = v" for v
        unfolding view by (auto simp: apply_single_value)
      ultimately show ?thesis by (simp add: field_ok_pre)
    qed
    then have "opt_inv (put_field key ?f ?c)" using opt_inv_put [OF ic, of ?l] by simp
    then show ?thesis using Some f by (simp add: noteOptimisticWrite_def put_field_def Let_def)
  qed (use assms Some in \<open>simp add: noteOptimisticWrite_def\<close>)
qed (use assms in \<open>simp add: noteOptimisticWrite_def\<close>)

lemma observe_inv: "opt_inv c \<Longrightarrow> opt_inv (observeExternal key c)"
  by (simp add: observeExternal_def note_inv split: option.splits)

lemma observe_all_inv: "opt_inv c \<Longrightarrow> opt_inv (observe_all keys c)"
  by (induction keys arbitrary: c) (simp_all add: observe_inv)

lemma note_ledger: "c_ledger c = Some l \<Longrightarrow>
  \<exists>l'. c_ledger (noteOptimisticWrite key c) = Some l' \<and> l_calls l' = l_calls l \<and> l_clock l \<le> l_clock l' \<and> map fst (l_fields l') = map fst (l_fields l)"
  by (auto simp: noteOptimisticWrite_def Let_def update_keys map_of_eq_None_iff split: option.splits)

lemma observe_ledger: "c_ledger c = Some l \<Longrightarrow>
  \<exists>l'. c_ledger (observeExternal key c) = Some l' \<and> l_calls l' = l_calls l \<and> l_clock l \<le> l_clock l' \<and> map fst (l_fields l') = map fst (l_fields l)"
  using note_ledger by (auto simp: observeExternal_def split: option.splits)

lemma note_same [simp]: "c_live (noteOptimisticWrite key c) = c_live c" "c_next (noteOptimisticWrite key c) = c_next c"
  "c_settled (noteOptimisticWrite key c) = c_settled c"
  by (simp_all add: noteOptimisticWrite_def Let_def split: option.splits)

lemma observe_same [simp]: "c_live (observeExternal key c) = c_live c" "c_next (observeExternal key c) = c_next c"
  by (simp_all add: observeExternal_def split: option.splits)


text \<open>Every owned field outside \<open>X\<close> shows its view.\<close>

definition synced :: "string set \<Rightarrow> component \<Rightarrow> bool" where
  "synced X c \<longleftrightarrow> (\<forall>key f v. get_field key c = Some f \<longrightarrow> field_view f = Inr v \<longrightarrow> key \<notin> X \<longrightarrow> c_live c key = v)"

lemma syncedD: "synced X c \<Longrightarrow> get_field key c = Some f \<Longrightarrow> field_view f = Inr v \<Longrightarrow> key \<notin> X \<Longrightarrow> c_live c key = v"
  by (auto simp: synced_def)

lemma write_get:
  assumes "c_ledger c \<noteq> None"
  shows "get_field j (snd (write_field key f c)) = (if j = key
    then Some (case field_view f of Inl _ \<Rightarrow> f | Inr v \<Rightarrow> f\<lparr>f_displayed := v\<rparr>) else get_field j c)"
proof (cases "field_view f")
  case (Inr v)
  then show ?thesis using assms put_get [of "c\<lparr>c_live := (c_live c)(key := v)\<rparr>" j key "f\<lparr>f_displayed := v\<rparr>"]
    by (simp add: write_field_def get_field_def)
qed (use assms put_get [of c j key f] in \<open>simp add: write_field_def\<close>)

lemma write_live: "c_live (snd (write_field key f c)) = (c_live c)(key := (case field_view f of Inl _ \<Rightarrow> c_live c key | Inr v \<Rightarrow> v))"
  by (simp add: write_field_def split: sum.split)

lemma write_ledger: "c_ledger c = Some l \<Longrightarrow>
  \<exists>g. c_ledger (snd (write_field key f c)) = Some (l\<lparr>l_fields := AList.update key g (l_fields l)\<rparr>)"
  by (auto simp: write_field_def put_field_def split: sum.split)

lemma write_next [simp]: "c_next (snd (write_field key f c)) = c_next c"
  by (simp add: write_field_def split: sum.split)

lemma write_synced:
  assumes "synced X c" and "c_ledger c \<noteq> None"
  shows "synced (X - {key}) (snd (write_field key f c))"
  using assms(1) unfolding synced_def write_get [OF assms(2)] write_live by (auto split: sum.splits)

lemma note_get:
  assumes "c_ledger c = Some l"
  shows "get_field j (noteOptimisticWrite key c) = (if j = key
    then map_option (\<lambda>f. f\<lparr>f_local := Some \<lparr>ch_seq = Suc (l_clock l), ch_value = c_live c key, ch_ops = None\<rparr>, f_displayed := c_live c key\<rparr>) (get_field j c)
    else get_field j c)"
  using assms by (auto simp: noteOptimisticWrite_def get_field_def Let_def split: option.split)

lemma note_view:
  assumes "field_ok n m f"
  shows "\<exists>r :: edit_error + tree. field_view (f\<lparr>f_local := Some \<lparr>ch_seq = Suc n, ch_value = v, ch_ops = None\<rparr>, f_displayed := v\<rparr>) = bindr r (\<lambda>_. Inr v)"
proof -
  let ?ch = "\<lparr>ch_seq = Suc n, ch_value = v, ch_ops = None\<rparr>"
  let ?f = "f\<lparr>f_local := Some ?ch, f_displayed := v\<rparr>"
  have lt: "\<And>x. x \<in> set (map snd (f_changes f)) \<Longrightarrow> ch_seq x < Suc n" and fs: "f_seq f \<le> n"
    using assms by (auto simp: field_ok_def all_changes_def less_Suc_eq_le)
  have "field_view ?f = bindr (apply_changes (filter (\<lambda>ch. ch_seq ch > f_seq ?f) (sort_key ch_seq (map snd (f_changes f) @ []))) (f_base ?f)) (apply_changes [?ch])"
    by (rule view_newest) (use lt fs in \<open>auto simp: all_changes_def\<close>)
  moreover have "apply_changes [?ch] = (\<lambda>_. Inr v)" by (rule ext) simp
  ultimately show ?thesis by metis
qed

lemma note_synced:
  assumes "opt_inv c" and "synced X c"
  shows "synced (X - {key}) (noteOptimisticWrite key c)"
proof (cases "c_ledger c")
  case (Some l)
  show ?thesis unfolding synced_def
  proof (intro allI impI)
    fix j f v assume g: "get_field j (noteOptimisticWrite key c) = Some f" and v: "field_view f = Inr v" and j: "j \<notin> X - {key}"
    show "c_live (noteOptimisticWrite key c) j = v"
    proof (cases "j = key")
      case True
      then obtain f0 where f0: "get_field key c = Some f0"
        and f: "f = f0\<lparr>f_local := Some \<lparr>ch_seq = Suc (l_clock l), ch_value = c_live c key, ch_ops = None\<rparr>, f_displayed := c_live c key\<rparr>"
        using g note_get [OF Some, of j key] by (cases "get_field key c") auto
      obtain r :: "edit_error + tree" where "field_view f = bindr r (\<lambda>_. Inr (c_live c key))"
        using note_view [OF opt_inv_field [OF assms(1) Some f0]] f by blast
      then show ?thesis using v True by (cases r) auto
    next
      case False
      then show ?thesis using g v j note_get [OF Some, of j key] syncedD [OF assms(2)] by simp
    qed
  qed
qed (use assms in \<open>simp add: noteOptimisticWrite_def synced_def get_field_def\<close>)

lemma observe_synced: "opt_inv c \<Longrightarrow> synced X c \<Longrightarrow> synced X (observeExternal key c)"
  using note_synced [of c X key] by (auto simp: observeExternal_def synced_def split: option.split)

lemma observe_this:
  assumes "c_ledger c = Some l" and "get_field key (observeExternal key c) = Some f"
  shows "f_displayed f = c_live c key"
proof (cases "get_field key c")
  case (Some f0)
  then show ?thesis using assms note_get [OF assms(1), of key key] by (auto simp: observeExternal_def split: if_splits)
qed (use assms in \<open>simp add: observeExternal_def\<close>)

lemma observe_other:
  assumes "c_ledger c = Some l" and "j \<noteq> key"
  shows "get_field j (observeExternal key c) = get_field j c"
  using assms note_get [OF assms(1), of j key] by (auto simp: observeExternal_def split: option.split)

lemma observe_all_ledger: "c_ledger c = Some l \<Longrightarrow>
  \<exists>l'. c_ledger (observe_all ks c) = Some l' \<and> l_calls l' = l_calls l \<and> map fst (l_fields l') = map fst (l_fields l)"
proof (induction ks arbitrary: c l)
  case (Cons k ks)
  obtain l1 where "c_ledger (observeExternal k c) = Some l1" "l_calls l1 = l_calls l" "map fst (l_fields l1) = map fst (l_fields l)"
    using observe_ledger [OF Cons.prems] by blast
  then show ?case using Cons.IH [of "observeExternal k c" l1] by auto
qed simp

lemma observe_all_same [simp]: "c_live (observe_all ks c) = c_live c" "c_next (observe_all ks c) = c_next c"
  by (induction ks arbitrary: c) simp_all

lemma observe_all_displayed:
  assumes "c_ledger c = Some l" and "\<And>key f. key \<notin> set ks \<Longrightarrow> get_field key c = Some f \<Longrightarrow> f_displayed f = c_live c key"
  shows "get_field key (observe_all ks c) = Some f \<Longrightarrow> f_displayed f = c_live c key"
  using assms
proof (induction ks arbitrary: c l)
  case (Cons k ks)
  obtain l1 where l1: "c_ledger (observeExternal k c) = Some l1" using observe_ledger [OF Cons.prems(2)] by blast
  have "f_displayed f = c_live (observeExternal k c) key"
  proof (rule Cons.IH [OF _ l1])
    show "get_field key (observe_all ks (observeExternal k c)) = Some f" using Cons.prems(1) by simp
    show "f_displayed g = c_live (observeExternal k c) j" if "j \<notin> set ks" "get_field j (observeExternal k c) = Some g" for j g
      using that observe_this [OF Cons.prems(2)] observe_other [OF Cons.prems(2)] Cons.prems(3) by (cases "j = k") auto
  qed
  then show ?case by simp
qed simp


text \<open>The fields the ledger owns.\<close>

lemma owned_iff: "j \<in> set (owned_keys c) \<longleftrightarrow> (\<exists>f. get_field j c = Some f)"
proof (cases "c_ledger c")
  case (Some l)
  have "j \<in> fst ` set (l_fields l) \<longleftrightarrow> map_of (l_fields l) j \<noteq> None" by (simp add: map_of_eq_None_iff)
  then show ?thesis using Some by (auto simp: owned_keys_def get_field_def)
qed (simp add: owned_keys_def get_field_def)

lemma owned_put: "set (owned_keys (put_field key f c)) \<subseteq> insert key (set (owned_keys c))"
  by (auto simp: owned_iff put_field_def get_field_def split: option.splits if_splits)

lemma owned_note [simp]: "set (owned_keys (noteOptimisticWrite key c)) = set (owned_keys c)"
  by (auto simp: owned_iff noteOptimisticWrite_def get_field_def Let_def split: option.splits if_splits)

lemma owned_observe [simp]: "set (owned_keys (observeExternal key c)) = set (owned_keys c)"
  by (simp add: observeExternal_def split: option.split)

lemma owned_observe_all [simp]: "set (owned_keys (observe_all ks c)) = set (owned_keys c)"
  by (induction ks arbitrary: c) simp_all

lemma owned_register [simp]: "owned_keys (register_call k c) = owned_keys c"
  by (simp add: owned_keys_def register_call_def split: option.split)

lemma owned_set_call [simp]: "owned_keys (set_call k c) = owned_keys c"
  by (simp add: owned_keys_def set_call_def split: option.split)

lemma owned_live [simp]: "owned_keys (c\<lparr>c_live := h\<rparr>) = owned_keys c"
  by (simp add: owned_keys_def)

lemma owned_ledger: "owned_keys (c\<lparr>c_ledger := Some (ledger_or_new c)\<rparr>) = owned_keys c"
  by (simp add: owned_keys_def ledger_or_new_def split: option.split)


section \<open>Beginning a call\<close>

lemma view_ordered: "field_view f = apply_changes (filter (\<lambda>ch. ch_seq ch > f_seq f) (sort_key ch_seq (all_changes f))) (f_base f)"
  by (simp add: field_view_def ordered_alt)

lemma bindr_nil: "bindr r (apply_changes []) = r"
  by (cases r) simp_all

text \<open>Adding a call's change, newer than all others, to a field.\<close>

lemma view_contribution:
  assumes "\<And>ch. ch \<in> set (all_changes f) \<Longrightarrow> ch_seq ch < n" and "f_seq f < n" and "i \<notin> fst ` set (f_changes f)"
  shows "field_view (f\<lparr>f_changes := AList.update i \<lparr>ch_seq = n, ch_value = x, ch_ops = os\<rparr> (f_changes f), f_displayed := d\<rparr>) =
    bindr (field_view f) (\<lambda>w. case os of Some ops \<Rightarrow> applyOperations w ops | None \<Rightarrow> Inr x)"
proof -
  let ?ch = "\<lparr>ch_seq = n, ch_value = x, ch_ops = os\<rparr>" and ?loc = "case f_local f of None \<Rightarrow> [] | Some ch \<Rightarrow> [ch]"
  let ?f = "f\<lparr>f_changes := AList.update i ?ch (f_changes f), f_displayed := d\<rparr>"
  have all: "all_changes ?f = map snd (f_changes f) @ ?ch # ?loc"
    using update_new [OF assms(3)] by (simp add: all_changes_def split: option.split)
  have "field_view ?f = bindr (apply_changes (filter (\<lambda>ch. ch_seq ch > f_seq ?f) (sort_key ch_seq (map snd (f_changes f) @ ?loc))) (f_base ?f)) (apply_changes [?ch])"
    by (rule view_newest [OF _ _ all]) (use assms(1,2) in \<open>auto simp: all_changes_def\<close>)
  moreover have "apply_changes [?ch] = (\<lambda>w. case os of Some ops \<Rightarrow> applyOperations w ops | None \<Rightarrow> Inr x)"
    by (rule ext) (simp add: bindr_nil split: option.split)
  ultimately show ?thesis by (simp add: view_ordered all_changes_def)
qed

text \<open>A field the call can still be added to, with the value it shows.\<close>

definition addable :: "call \<Rightarrow> tree \<Rightarrow> field \<Rightarrow> bool" where
  "addable k v f \<longleftrightarrow> (\<forall>ch \<in> set (all_changes f). ch_seq ch < oc_seq k) \<and> f_seq f < oc_seq k \<and>
     oc_id k \<notin> fst ` set (f_changes f) \<and> (\<forall>w. field_view f = Inr w \<longrightarrow> w = v)"

definition fresh_field :: "tree \<Rightarrow> field" where
  "fresh_field v = \<lparr>f_base = v, f_seq = 0, f_changes = [], f_displayed = v, f_local = None\<rparr>"

lemma fresh_addable: "0 < oc_seq k \<Longrightarrow> addable k v (fresh_field v)"
  by (simp add: addable_def fresh_field_def all_changes_def field_view_def ordered_changes_def)

definition contribution :: "call \<Rightarrow> tree \<Rightarrow> operation list option \<Rightarrow> field \<Rightarrow> field" where
  "contribution k next os f = f\<lparr>f_changes := AList.update (oc_id k) \<lparr>ch_seq = oc_seq k, ch_value = next, ch_ops = os\<rparr> (f_changes f),
     f_displayed := next\<rparr>"

lemma contribution_view:
  assumes "addable k v f" and "case os of None \<Rightarrow> True | Some ops \<Rightarrow> applyOperations v ops = Inr next"
  shows "field_view (contribution k next os f) = Inr w \<Longrightarrow> w = next"
proof -
  assume a: "field_view (contribution k next os f) = Inr w"
  have "field_view (contribution k next os f) = bindr (field_view f) (\<lambda>w. case os of Some ops \<Rightarrow> applyOperations w ops | None \<Rightarrow> Inr next)"
    unfolding contribution_def by (rule view_contribution) (use assms(1) in \<open>auto simp: addable_def\<close>)
  then have "bindr (field_view f) (\<lambda>w. case os of Some ops \<Rightarrow> applyOperations w ops | None \<Rightarrow> Inr next) = Inr w"
    using a by simp
  then obtain w0 where "field_view f = Inr w0" and "(case os of Some ops \<Rightarrow> applyOperations w0 ops | None \<Rightarrow> Inr next) = Inr w"
    unfolding bindr_Inr_iff by (elim exE conjE)
  then show "w = next" using assms by (auto simp: addable_def split: option.splits)
qed

lemma contribution_all: "addable k v f \<Longrightarrow> set (all_changes (contribution k next os f)) =
    insert \<lparr>ch_seq = oc_seq k, ch_value = next, ch_ops = os\<rparr> (set (all_changes f))"
  using update_new [of "oc_id k" "f_changes f"] by (auto simp: contribution_def all_changes_def addable_def)

lemma contribution_ok:
  assumes "addable k v f" and "field_pre n m f" and "oc_seq k \<le> n" and "oc_id k < m"
    and "case os of None \<Rightarrow> True | Some ops \<Rightarrow> applyOperations v ops = Inr next"
  shows "field_ok n m (contribution k next os f)"
proof -
  have "field_pre n m (contribution k next os f)"
    using assms(2,3,4) contribution_all [OF assms(1), of "next" os]
    by (auto simp: field_pre_def contribution_def distinct_update dest!: set_update_subset [THEN subsetD])
  moreover have "f_displayed (contribution k next os f) = next" by (simp add: contribution_def)
  ultimately show ?thesis using contribution_view [OF assms(1,5)] by (auto simp: field_ok_pre)
qed

lemma fresh_ok: "field_ok n m (fresh_field v)"
  by (simp add: field_ok_def fresh_field_def all_changes_def field_view_def ordered_changes_def)

text \<open>One field of the collecting loop.\<close>

definition the_field :: "tree \<Rightarrow> string \<Rightarrow> component \<Rightarrow> field" where
  "the_field v key c = (case get_field key c of Some f \<Rightarrow> f | None \<Rightarrow> fresh_field v)"

lemma collect_step:
  "collect_contributions k ((key, v) # rest) cap c keys failed =
     (let operations = map_of (cap_ops cap) key; next = c_live c key in
      if operations = None \<and> v = next then collect_contributions k rest cap c keys failed
      else if (case operations of None \<Rightarrow> False | Some os \<Rightarrow> applyOperations v os \<noteq> Inr next)
        then collect_contributions k rest cap (put_field key (the_field v key c) c) (keys @ [key]) True
        else collect_contributions k rest cap (put_field key (contribution k next operations (the_field v key c)) c) (keys @ [key]) failed)"
  by (simp only: collect_contributions.simps the_field_def fresh_field_def contribution_def Let_def)

declare collect_contributions.simps(2) [simp del]

lemma collect_unchanged:
  assumes "map_of (cap_ops cap) key = None \<and> v = c_live c key"
  shows "collect_contributions k ((key, v) # rest) cap c keys failed = collect_contributions k rest cap c keys failed"
  unfolding collect_step Let_def by (simp only: assms if_True HOL.simp_thms)

lemma collect_bad:
  assumes "\<not> (map_of (cap_ops cap) key = None \<and> v = c_live c key)"
    and "case map_of (cap_ops cap) key of None \<Rightarrow> False | Some os \<Rightarrow> applyOperations v os \<noteq> Inr (c_live c key)"
  shows "collect_contributions k ((key, v) # rest) cap c keys failed =
    collect_contributions k rest cap (put_field key (the_field v key c) c) (keys @ [key]) True"
  unfolding collect_step Let_def using assms by (simp only: if_True if_False)

lemma collect_good:
  assumes "\<not> (map_of (cap_ops cap) key = None \<and> v = c_live c key)"
    and "\<not> (case map_of (cap_ops cap) key of None \<Rightarrow> False | Some os \<Rightarrow> applyOperations v os \<noteq> Inr (c_live c key))"
  shows "collect_contributions k ((key, v) # rest) cap c keys failed =
    collect_contributions k rest cap (put_field key (contribution k (c_live c key) (map_of (cap_ops cap) key) (the_field v key c)) c) (keys @ [key]) failed"
  unfolding collect_step Let_def using assms by (simp only: if_False)

text \<open>What holds while the loop runs: processed fields show their view, unless the handler failed
  and the field is among those to withdraw.\<close>

definition collecting :: "call \<Rightarrow> (string \<times> tree) list \<Rightarrow> string set \<Rightarrow> string list \<Rightarrow> bool \<Rightarrow> component \<Rightarrow> bool" where
  "collecting k rest X keys failed c \<longleftrightarrow> opt_inv c \<and>
     (\<exists>l. c_ledger c = Some l \<and> oc_seq k = l_clock l \<and> 0 < oc_seq k \<and> oc_id k < c_next c) \<and>
     (\<forall>(key, v) \<in> set rest. \<forall>f. get_field key c = Some f \<longrightarrow> addable k v f) \<and>
     synced (X \<union> fst ` set rest \<union> (if failed then set keys else {})) c"

lemma collecting_loop:
  assumes "collecting k rest X keys failed c" and "distinct (map fst rest)"
  shows "case collect_contributions k rest cap c keys failed of (failed', keys', c') \<Rightarrow>
    collecting k [] X keys' failed' c' \<and> c_live c' = c_live c \<and> (c_ledger c' = None \<longleftrightarrow> c_ledger c = None) \<and>
    map_option l_calls (c_ledger c') = map_option l_calls (c_ledger c)"
  using assms
proof (induction rest arbitrary: keys failed c)
  case (Cons kv rest)
  obtain key v where kv: "kv = (key, v)" by (cases kv)
  let ?os = "map_of (cap_ops cap) key" and ?n = "c_live c key"
  obtain l where inv: "opt_inv c" and l: "c_ledger c = Some l" "oc_seq k = l_clock l" "0 < oc_seq k" "oc_id k < c_next c"
    and add: "\<And>j w f. (j, w) \<in> set ((key, v) # rest) \<Longrightarrow> get_field j c = Some f \<Longrightarrow> addable k w f"
    and syn: "synced (X \<union> fst ` set ((key, v) # rest) \<union> (if failed then set keys else {})) c"
    using Cons.prems(1) kv by (fastforce simp: collecting_def)
  have nk: "key \<notin> fst ` set rest" and d: "distinct (map fst rest)" using Cons.prems(2) kv by auto
  have addF: "addable k v (the_field v key c)"
    using add [of key v] fresh_addable [OF l(3)] by (auto simp: the_field_def split: option.split)
  have okF: "field_ok (l_clock l) (c_next c) (the_field v key c)"
    using opt_inv_field [OF inv l(1)] fresh_ok by (auto simp: the_field_def split: option.split)
  have put: "collecting k rest X keys' failed' (put_field key g c)"
    if g: "field_ok (l_clock l) (c_next c) g"
      and s: "\<And>w. field_view g = Inr w \<Longrightarrow> ?n = w \<or> failed' \<and> key \<in> set keys'"
      and ks: "set keys \<subseteq> set keys'" and ff: "failed \<Longrightarrow> failed'" for g keys' failed'
  proof -
    have ge: "get_field j (put_field key g c) = (if j = key then Some g else get_field j c)" for j
      using put_get [of c] l(1) by simp
    have "synced (X \<union> fst ` set rest \<union> (if failed' then set keys' else {})) (put_field key g c)"
      unfolding synced_def
    proof (intro allI impI)
      fix j f w assume f: "get_field j (put_field key g c) = Some f" "field_view f = Inr w"
        and j: "j \<notin> X \<union> fst ` set rest \<union> (if failed' then set keys' else {})"
      show "c_live (put_field key g c) j = w"
      proof (cases "j = key")
        case True
        then have "field_view g = Inr w" using f ge by simp
        then show ?thesis using s [of w] j True by auto
      next
        case False
        have "j \<notin> (if failed then set keys else {})" using j ks ff by (cases failed) auto
        then have "j \<notin> X \<union> fst ` set ((key, v) # rest) \<union> (if failed then set keys else {})" using j False by simp
        then show ?thesis using syncedD [OF syn _ f(2)] f(1) ge False by simp
      qed
    qed
    moreover have "addable k w f" if "(j, w) \<in> set rest" "get_field j (put_field key g c) = Some f" for j w f
      using that add [of j w f] nk unfolding ge by (auto simp: image_iff split: if_splits)
    ultimately show ?thesis
      using opt_inv_put [OF inv l(1) g] put_ledger [OF l(1), of key g] l by (auto simp: collecting_def)
  qed
  show ?case
  proof (cases "?os = None \<and> v = ?n")
    case True
    have s: "synced (X \<union> fst ` set rest \<union> (if failed then set keys else {})) c"
      unfolding synced_def
    proof (intro allI impI)
      fix j f w assume f: "get_field j c = Some f" "field_view f = Inr w" and j: "j \<notin> X \<union> fst ` set rest \<union> (if failed then set keys else {})"
      show "c_live c j = w"
      proof (cases "j = key")
        case True
        then have "addable k v f" using add [of key v] f by simp
        then show ?thesis using f \<open>?os = None \<and> v = ?n\<close> True by (auto simp: addable_def)
      next
        case False
        then show ?thesis using syncedD [OF syn f] j by auto
      qed
    qed
    have "collecting k rest X keys failed c" using inv l s add by (auto simp: collecting_def)
    from Cons.IH [OF this d] show ?thesis unfolding kv collect_unchanged [OF True] .
  next
    case changed: False
    show ?thesis
    proof (cases "case ?os of None \<Rightarrow> False | Some os \<Rightarrow> applyOperations v os \<noteq> Inr ?n")
      case True
      have "collecting k rest X (keys @ [key]) True (put_field key (the_field v key c) c)"
        by (rule put [OF okF]) auto
      from Cons.IH [OF this d] show ?thesis
        unfolding kv collect_bad [OF changed True] using put_ledger [OF l(1)] l(1) by (simp add: split_beta)
    next
      case False
      then have os: "case ?os of None \<Rightarrow> True | Some ops \<Rightarrow> applyOperations v ops = Inr ?n" by (auto split: option.splits)
      have "collecting k rest X (keys @ [key]) failed (put_field key (contribution k ?n ?os (the_field v key c)) c)"
      proof (rule put)
        show "field_ok (l_clock l) (c_next c) (contribution k ?n ?os (the_field v key c))"
          by (rule contribution_ok [OF addF _ _ l(4) os]) (use okF l(2) in \<open>auto simp: field_ok_pre\<close>)
      qed (use contribution_view [OF addF os] in auto)
      from Cons.IH [OF this d] show ?thesis
        unfolding kv collect_good [OF changed False] using put_ledger [OF l(1)] l(1) by (simp add: split_beta)
    qed
  qed
qed (simp add: collecting_def)


section \<open>Every step keeps the invariant\<close>

lemma set_delete_subset: "set (AList.delete k m) \<subseteq> set m"
  by (induction m) auto

lemma delete_pre: "field_ok n m f \<Longrightarrow> field_pre n m (f\<lparr>f_changes := AList.delete i (f_changes f)\<rparr>)"
  using set_delete_subset [of i "f_changes f"]
  by (fastforce simp: field_ok_def field_pre_def all_changes_def distinct_delete)

text \<open>The ledger survives a write.\<close>

lemma write_ledger_same: "c_ledger c = Some l \<Longrightarrow> \<exists>l'. c_ledger (snd (write_field key f c)) = Some l' \<and>
    l_clock l' = l_clock l \<and> l_calls l' = l_calls l"
  using write_ledger [of c l key f] by auto

definition sound :: "string set \<Rightarrow> component \<Rightarrow> bool" where
  "sound X c \<longleftrightarrow> opt_inv c \<and> synced X c"

lemma sound_no_ledger: "c_ledger c = None \<Longrightarrow> sound X c"
  by (simp add: sound_def opt_inv_def synced_def get_field_def)

lemma sound_write:
  assumes "sound X c" and "c_ledger c = Some l" and "field_pre (l_clock l) (c_next c) f"
  shows "sound (X - {key}) (snd (write_field key f c))"
  using assms write_inv [OF _ assms(2,3)] write_synced [of X c key f] by (simp add: sound_def)

lemma sound_mono: "sound X c \<Longrightarrow> X \<subseteq> Y \<Longrightarrow> sound Y c"
  by (auto simp: sound_def synced_def)

lemma sound_note: "sound X c \<Longrightarrow> sound (X - {key}) (noteOptimisticWrite key c)"
  by (simp add: sound_def note_inv note_synced)

lemma sound_observe: "sound X c \<Longrightarrow> sound X (observeExternal key c)"
  by (simp add: sound_def observe_inv observe_synced)

lemma sound_observe_all: "sound X c \<Longrightarrow> sound X (observe_all ks c)"
  by (induction ks arbitrary: c) (simp_all add: sound_observe)

lemma withdraw_sound:
  assumes "sound (X \<union> set ks) c" and "c_ledger c = Some l" and "withdraw i ks c = (Inr u, c')"
  shows "sound X c' \<and> (\<exists>l'. c_ledger c' = Some l' \<and> l_clock l' = l_clock l \<and> l_calls l' = l_calls l) \<and> c_next c' = c_next c"
  using assms
proof (induction ks arbitrary: c l)
  case (Cons key ks)
  show ?case
  proof (cases "get_field key c")
    case None
    have "c_live c j = v" if "get_field j c = Some f" "field_view f = Inr v" "j \<notin> X \<union> set ks" for j f v
      using Cons.prems(1) None that by (cases "j = key") (auto simp: sound_def synced_def)
    then have "sound (X \<union> set ks) c" using Cons.prems(1) by (simp add: sound_def synced_def)
    then show ?thesis using Cons.IH [OF _ Cons.prems(2)] Cons.prems(3) None by simp
  next
    case (Some f)
    let ?f = "f\<lparr>f_changes := AList.delete i (f_changes f)\<rparr>"
    have pre: "field_pre (l_clock l) (c_next c) ?f"
      using opt_inv_field [OF _ Cons.prems(2) Some] Cons.prems(1) delete_pre by (simp add: sound_def)
    have "sound (X \<union> set (key # ks) - {key}) (snd (write_field key ?f c))" by (rule sound_write [OF Cons.prems(1,2) pre])
    then have s: "sound (X \<union> set ks) (snd (write_field key ?f c))" by (rule sound_mono) auto
    obtain l' where l': "c_ledger (snd (write_field key ?f c)) = Some l'" "l_clock l' = l_clock l" "l_calls l' = l_calls l"
      using write_ledger_same [OF Cons.prems(2)] by blast
    have "withdraw i ks (snd (write_field key ?f c)) = (Inr u, c')"
      using Cons.prems(3) Some by (simp split: prod.splits sum.splits)
    from Cons.IH [OF s l'(1) this] show ?thesis using l' by simp
  qed
qed simp

lemma register_sound:
  assumes "sound X c" and "c_ledger c = Some l" and "oc_seq k = Suc (l_clock l)" and "oc_id k = c_next c"
  shows "sound X (register_call k c)"
proof -
  have mono: "field_ok (Suc (l_clock l)) (Suc (c_next c)) g" if "field_ok (l_clock l) (c_next c) g" for g
    using that by (auto simp: field_ok_def le_SucI less_SucI)
  have "opt_inv (register_call k c)"
    using assms mono by (fastforce simp: sound_def opt_inv_def register_call_def)
  moreover have "get_field j (register_call k c) = get_field j c" "c_live (register_call k c) = c_live c" for j
    using assms(2) by (simp_all add: register_call_def get_field_def)
  ultimately show ?thesis using assms(1) by (simp add: sound_def synced_def)
qed

text \<open>The state in which the handler runs.\<close>

lemma begin_prepared:
  fixes c0 :: component and name :: string
  assumes "sound X c0"
  defines "c1 \<equiv> c0\<lparr>c_ledger := Some (ledger_or_new c0)\<rparr>"
  defines "c2 \<equiv> observe_all (owned_keys c1) c1"
  defines "k \<equiv> \<lparr>oc_id = c_next c2, oc_seq = Suc (l_clock (ledger_or_new c2)), oc_name = name, oc_fields = [], oc_requestId = None\<rparr>"
  defines "c3 \<equiv> register_call k c2"
  shows "sound X c3" and "\<exists>l. c_ledger c3 = Some l \<and> oc_seq k = l_clock l \<and> 0 < oc_seq k \<and> oc_id k < c_next c3 \<and> k \<in> set (l_calls l)"
    and "get_field key c3 = Some f \<Longrightarrow> f_displayed f = c_live c3 key \<and> addable k (c_live c3 key) f"
    and "c_live c3 = c_live c0"
proof -
  have s1: "sound X c1" using assms(1)
    by (cases "c_ledger c0") (auto simp: c1_def ledger_or_new_def sound_def opt_inv_def synced_def get_field_def)
  have l1: "c_ledger c1 = Some (ledger_or_new c0)" by (simp add: c1_def)
  have s2: "sound X c2" unfolding c2_def by (rule sound_observe_all [OF s1])
  obtain l2 where l2: "c_ledger c2 = Some l2" using observe_all_ledger [OF l1] c2_def by blast
  have n2: "ledger_or_new c2 = l2" by (simp add: ledger_or_new_def l2)
  have disp: "f_displayed f = c_live c2 key" if "get_field key c2 = Some f" for key f
  proof -
    have "f_displayed f = c_live c1 key"
    proof (rule observe_all_displayed [OF l1])
      show "get_field key (observe_all (owned_keys c1) c1) = Some f" using that c2_def by simp
      show "f_displayed g = c_live c1 j" if "j \<notin> set (owned_keys c1)" "get_field j c1 = Some g" for j g
        using that l1 by (force simp: owned_keys_def get_field_def dest: map_of_SomeD)
    qed
    then show ?thesis by (simp add: c2_def)
  qed
  have l3: "c_ledger c3 = Some (l2\<lparr>l_clock := Suc (l_clock l2), l_calls := l_calls l2 @ [k]\<rparr>)"
    by (simp add: c3_def register_call_def l2 k_def n2)
  have g3: "get_field j c3 = get_field j c2" for j using l2 l3 by (simp add: get_field_def)
  have live3: "c_live c3 = c_live c2" by (simp add: c3_def register_call_def split: option.split)
  show "sound X c3" unfolding c3_def by (rule register_sound [OF s2 l2]) (simp_all add: k_def n2)
  show "\<exists>l. c_ledger c3 = Some l \<and> oc_seq k = l_clock l \<and> 0 < oc_seq k \<and> oc_id k < c_next c3 \<and> k \<in> set (l_calls l)"
    using l3 l2 by (simp add: c3_def register_call_def k_def n2)
  show "f_displayed f = c_live c3 key \<and> addable k (c_live c3 key) f" if "get_field key c3 = Some f"
  proof -
    have f: "get_field key c2 = Some f" using that g3 by simp
    have ok: "field_ok (l_clock l2) (c_next c2) f" using opt_inv_field [OF _ l2 f] s2 by (simp add: sound_def)
    then have "c_next c2 \<notin> fst ` set (f_changes f)" by (auto simp: field_ok_def)
    then show ?thesis using ok disp [OF f] live3
      by (auto simp: addable_def field_ok_def k_def n2 less_Suc_eq_le le_SucI)
  qed
  show "c_live c3 = c_live c0" by (simp add: live3 c2_def c1_def)
qed

lemma synced_after_handler:
  assumes "synced X c" and "\<And>j f. get_field j c = Some f \<Longrightarrow> j \<in> K"
  shows "synced (X \<union> K \<union> Y) (c\<lparr>c_live := h\<rparr>)"
  using assms by (auto simp: synced_def get_field_def)

lemma set_call_sound:
  assumes "sound X c" and "\<exists>l. c_ledger c = Some l \<and> oc_seq k \<le> l_clock l \<and> oc_id k < c_next c"
  shows "sound X (set_call k c)"
proof -
  have "get_field j (set_call k c) = get_field j c" "c_live (set_call k c) = c_live c" for j
    by (simp_all add: set_call_def get_field_def split: option.split)
  moreover have "opt_inv (set_call k c)"
    using assms by (auto simp: sound_def opt_inv_def set_call_def)
  ultimately show ?thesis using assms(1) by (simp add: sound_def synced_def)
qed

lemma begin_sound:
  assumes "sound X c0" and "beginOptimisticCall name handler keys c0 = (Inr k, c)"
    and "set (owned_keys c0) \<subseteq> set keys"
  shows "sound X c"
proof -
  let ?c1 = "c0\<lparr>c_ledger := Some (ledger_or_new c0)\<rparr>"
  let ?c2 = "observe_all (owned_keys ?c1) ?c1"
  let ?k = "\<lparr>oc_id = c_next ?c2, oc_seq = Suc (l_clock (ledger_or_new ?c2)), oc_name = name, oc_fields = [], oc_requestId = None\<rparr>"
  let ?c3 = "register_call ?k ?c2"
  note prep = begin_prepared [OF assms(1), where name = name]
  show ?thesis
  proof (cases handler)
    case None
    have "beginOptimisticCall name None keys c0 = (Inr ?k, ?c3)" by (simp only: beginOptimisticCall_def Let_def option.case)
    from assms(2) [unfolded None this] have "?c3 = c" by (rule prod.inject [THEN iffD1, THEN conjunct2])
    then show ?thesis using prep(1) by (simp only:)
  next
    case (Some acts)
    let ?before = "map (\<lambda>key. (key, c_live ?c3 key)) (uniq keys)"
    obtain failed1 cap where cap: "run_handler ?before acts \<lparr>cap_live = c_live ?c3, cap_ops = []\<rparr> = (failed1, cap)"
      by (rule prod.exhaust)
    let ?c3' = "?c3\<lparr>c_live := cap_live cap\<rparr>"
    obtain failed used c4 where col: "collect_contributions ?k ?before cap ?c3' [] failed1 = (failed, used, c4)"
      by (rule prod_cases3)
    obtain l where l: "c_ledger ?c3 = Some l" "oc_seq ?k = l_clock l" "0 < oc_seq ?k" "oc_id ?k < c_next ?c3" using prep(2) by blast
    have gf: "get_field j ?c3' = get_field j ?c3" for j by (simp add: get_field_def)
    have keys_ok: "j \<in> set keys" if "get_field j ?c3 = Some f" for j f
      using that assms(3) owned_iff [of j ?c3] by (auto simp: owned_ledger)
    have start: "collecting ?k ?before X [] failed1 ?c3'"
    proof -
      have "synced (X \<union> fst ` set ?before \<union> (if failed1 then set [] else {})) ?c3'"
        unfolding synced_def gf using keys_ok by (auto simp: image_image)
      moreover have "addable ?k v f" if "(j, v) \<in> set ?before" "get_field j ?c3' = Some f" for j v f
        using that prep(3) gf by auto
      ultimately show ?thesis using prep(1) l by (auto simp: collecting_def sound_def)
    qed
    have "distinct (map fst ?before)" by (simp add: o_def)
    from collecting_loop [OF start this, of cap] col
    have c4: "collecting ?k [] X used failed c4" "map_option l_calls (c_ledger c4) = map_option l_calls (c_ledger ?c3)" by auto
    then obtain l4 where l4: "c_ledger c4 = Some l4" "oc_seq ?k = l_clock l4" "oc_id ?k < c_next c4" by (auto simp: collecting_def)
    have out: "beginOptimisticCall name handler keys c0 = (if failed
        then (case withdraw (oc_id ?k) used c4 of (Inl e, c5) \<Rightarrow> (Inl e, c5) | (Inr _, c5) \<Rightarrow> (Inr ?k, c5))
        else (Inr (?k\<lparr>oc_fields := used\<rparr>), set_call (?k\<lparr>oc_fields := used\<rparr>) c4))"
      using Some cap col by (simp add: beginOptimisticCall_def Let_def)
    show ?thesis
    proof (cases failed)
      case True
      have "sound (X \<union> set used) c4" using c4(1) True by (simp add: collecting_def sound_def)
      moreover obtain u where "withdraw (oc_id ?k) used c4 = (Inr u, c)"
        using assms(2) out True by (auto split: prod.splits sum.splits)
      ultimately show ?thesis using withdraw_sound [OF _ l4(1)] by blast
    next
      case False
      then have "sound X c4" using c4(1) by (simp add: collecting_def sound_def)
      moreover have "c = set_call (?k\<lparr>oc_fields := used\<rparr>) c4" using trans [OF assms(2) [symmetric] out] False by simp
      ultimately show ?thesis using set_call_sound [of X c4 "?k\<lparr>oc_fields := used\<rparr>"] l4 by simp
    qed
  qed
qed


text \<open>Server state, settlement, confirmation.\<close>

lemma confirm_base_pre:
  assumes "field_ok n m f" and "\<And>k. q = Some k \<Longrightarrow> oc_seq k \<le> n"
  shows "field_pre n m (confirm_base v q f)"
  using assms by (auto simp: confirm_base_def field_ok_def field_pre_def all_changes_def Let_def split: option.splits)

lemma pre_shrink:
  assumes "field_pre n m f" and "set (f_changes g) \<subseteq> set (f_changes f)" and "distinct (map fst (f_changes g))"
    and "f_local g = f_local f \<or> f_local g = None" and "f_seq g \<le> n"
  shows "field_pre n m g"
proof -
  have "set (all_changes g) \<subseteq> set (all_changes f)"
    using assms(2,4) by (auto simp: all_changes_def split: option.splits)
  then show ?thesis using assms by (auto simp: field_pre_def)
qed

lemma settle_shape:
  shows "f_changes (settle_field k success f) = f_changes f \<or> f_changes (settle_field k success f) = AList.delete (oc_id k) (f_changes f)"
    and "f_local (settle_field k success f) = f_local f \<or> f_local (settle_field k success f) = None"
    and "f_seq (settle_field k success f) = f_seq f \<or> f_seq (settle_field k success f) = oc_seq k"
  by (simp_all add: settle_field_def Let_def split: option.split)

lemma settle_pre:
  assumes "field_ok n m f" and "oc_seq k \<le> n"
  shows "field_pre n m (settle_field k success f)"
proof (rule pre_shrink)
  show p: "field_pre n m f" using assms(1) by (simp add: field_ok_pre)
  show "set (f_changes (settle_field k success f)) \<subseteq> set (f_changes f)"
    using settle_shape(1) [of k success f] set_delete_subset [of "oc_id k" "f_changes f"] by (elim disjE) simp_all
  show "distinct (map fst (f_changes (settle_field k success f)))"
    using settle_shape(1) [of k success f] p distinct_delete [of "f_changes f" "oc_id k"] by (elim disjE) (simp_all add: field_pre_def)
  show "f_local (settle_field k success f) = f_local f \<or> f_local (settle_field k success f) = None" by (rule settle_shape(2))
  show "f_seq (settle_field k success f) \<le> n"
    using settle_shape(3) [of k success f] p assms(2) by (auto simp: field_pre_def)
qed

definition known_call :: "call \<Rightarrow> component \<Rightarrow> bool" where
  "known_call k c \<longleftrightarrow> (call_active k c \<longrightarrow> (case c_ledger c of None \<Rightarrow> False | Some l \<Rightarrow> k \<in> set (l_calls l)))"

lemma known_seq: "sound X c \<Longrightarrow> known_call k c \<Longrightarrow> call_active k c \<Longrightarrow> c_ledger c = Some l \<Longrightarrow> oc_seq k \<le> l_clock l"
  by (auto simp: sound_def opt_inv_def known_call_def)

lemma apply_sound:
  assumes "sound X c" and "\<And>k. q = Some k \<Longrightarrow> known_call k c"
  shows "sound X (snd (applyOptimisticState key v q echo c))"
proof (cases "ownsOptimisticField key q c")
  case True
  then obtain l where l: "c_ledger c = Some l" by (auto simp: ownsOptimisticField_def)
  let ?c = "observeExternal key c"
  obtain l' where l': "c_ledger ?c = Some l'" "l_calls l' = l_calls l" "l_clock l \<le> l_clock l'" using observe_ledger [OF l] by blast
  have s: "sound X ?c" by (rule sound_observe [OF assms(1)])
  have seq: "oc_seq k \<le> l_clock l'" if "q = Some k" for k
    using known_seq [OF assms(1) assms(2) [OF that] _ l] True l'(3) that by (auto simp: ownsOptimisticField_def intro: le_trans)
  show ?thesis
  proof (cases "get_field key ?c")
    case None
    then show ?thesis using True s by (simp add: applyOptimisticState_def Let_def)
  next
    case (Some f)
    have ok: "field_ok (l_clock l') (c_next ?c) f" using opt_inv_field [OF _ l'(1) Some] s by (simp add: sound_def)
    let ?f = "if \<not> echo \<and> (case q of None \<Rightarrow> True | Some k \<Rightarrow> oc_seq k \<ge> f_seq f) then confirm_base v q f else f"
    have "field_pre (l_clock l') (c_next ?c) ?f" using confirm_base_pre [OF ok seq, of q v] ok by (auto simp: field_ok_pre)
    from sound_write [OF s l'(1) this, of key] have "sound X (snd (write_field key ?f ?c))" by (rule sound_mono) auto
    moreover have "snd (applyOptimisticState key v q echo c) = snd (write_field key ?f ?c)"
      using True Some by (simp add: applyOptimisticState_def Let_def split: prod.split sum.split)
    ultimately show ?thesis by simp
  qed
qed (use assms(1) in \<open>simp add: applyOptimisticState_def\<close>)

lemma settle_fields_sound:
  assumes "sound X c" and "c_ledger c = Some l" and "oc_seq k \<le> l_clock l"
  shows "sound X (settle_fields k success ks c)"
  using assms
proof (induction ks arbitrary: c l)
  case (Cons key ks)
  let ?c = "observeExternal key c"
  obtain l' where l': "c_ledger ?c = Some l'" "l_clock l \<le> l_clock l'" using observe_ledger [OF Cons.prems(2)] by blast
  have s: "sound X ?c" by (rule sound_observe [OF Cons.prems(1)])
  have seq: "oc_seq k \<le> l_clock l'" using Cons.prems(3) l'(2) by simp
  show ?case
  proof (cases "get_field key ?c")
    case None
    then show ?thesis using Cons.IH [OF s l'(1) seq] by (simp add: Let_def)
  next
    case (Some f)
    let ?c2 = "snd (write_field key (settle_field k success f) ?c)"
    have "field_ok (l_clock l') (c_next ?c) f" using opt_inv_field [OF _ l'(1) Some] s by (simp add: sound_def)
    from sound_write [OF s l'(1) settle_pre [OF this seq], of key success] have s2: "sound X ?c2" by (rule sound_mono) auto
    obtain l2 where "c_ledger ?c2 = Some l2" "l_clock l2 = l_clock l'" using write_ledger_same [OF l'(1)] by blast
    then show ?thesis using Cons.IH [OF s2] seq Some by (simp add: Let_def)
  qed
qed simp

lemma finish_sound:
  assumes "sound X c" and "known_call k c"
  shows "sound X (finishOptimisticCall k success c)"
proof (cases "call_active k c")
  case True
  then obtain l where l: "c_ledger c = Some l" by (auto simp: call_active_def split: option.splits)
  let ?l = "l\<lparr>l_calls := filter (\<lambda>x. oc_id x \<noteq> oc_id k) (l_calls l)\<rparr>"
  let ?c1 = "c\<lparr>c_ledger := Some ?l\<rparr>"
  have s1: "sound X ?c1" using assms(1) l by (auto simp: sound_def opt_inv_def synced_def get_field_def)
  have "oc_seq k \<le> l_clock ?l" using known_seq [OF assms True l] by simp
  then have s2: "sound X (settle_fields k success (oc_fields k) ?c1)" using settle_fields_sound [OF s1, of ?l] by simp
  show ?thesis
    using True l s2 sound_no_ledger by (simp add: finishOptimisticCall_def Let_def split: option.split)
qed (use assms(1) in \<open>simp add: finishOptimisticCall_def\<close>)

lemma confirm_sound:
  assumes "sound X c" and "c_ledger c = Some l"
  shows "sound X (snd (confirm_keys k ks c))"
  using assms
proof (induction ks arbitrary: c l)
  case (Cons key ks)
  let ?c = "observeExternal key c"
  obtain l' where l': "c_ledger ?c = Some l'" using observe_ledger [OF Cons.prems(2)] by blast
  have s: "sound X ?c" by (rule sound_observe [OF Cons.prems(1)])
  show ?case
  proof (cases "get_field key c")
    case None
    then show ?thesis using Cons.IH [OF Cons.prems] by simp
  next
    case f0: (Some f0)
    show ?thesis
    proof (cases "map_of (f_changes f0) (oc_id k) = None")
      case True
      then show ?thesis using Cons.IH [OF Cons.prems] f0 by simp
    next
      case False
      show ?thesis
      proof (cases "get_field key ?c")
        case None
        obtain y where "map_of (f_changes f0) (oc_id k) = Some y" using False by blast
        then show ?thesis using Cons.IH [OF s l'] f0 None by (simp add: Let_def)
      next
        case (Some f)
        let ?f = "f\<lparr>f_changes := AList.delete (oc_id k) (f_changes f)\<rparr>"
        have "field_ok (l_clock l') (c_next ?c) f" using opt_inv_field [OF _ l' Some] s by (simp add: sound_def)
        from sound_write [OF s l' delete_pre [OF this], of key "oc_id k"]
        have s2: "sound X (snd (write_field key ?f ?c))" by (rule sound_mono) auto
        obtain l2 where "c_ledger (snd (write_field key ?f ?c)) = Some l2" using write_ledger_same [OF l'] by blast
        then show ?thesis using Cons.IH [OF s2] f0 False Some s2
          by (auto simp: Let_def split: prod.split sum.split)
      qed
    qed
  qed
qed simp


section \<open>Reachable states\<close>

text \<open>
  The life of a component with reactive fields \<open>keys\<close>: setters, in-place mutation, calls that
  begin, server state for a call or for all, confirmations, settlement, building a request.
  \<open>X\<close> collects the fields mutated behind the setters' back. A step whose exception leaves the
  library in the middle of a handler's rollback is not continued.
\<close>

inductive opt_reach :: "string list \<Rightarrow> string set \<Rightarrow> component \<Rightarrow> bool" for keys where
  opt_start: "c_ledger c = None \<Longrightarrow> opt_reach keys {} c"
| opt_set: "opt_reach keys X c \<Longrightarrow> opt_reach keys X (user_set key v c)"
| opt_mutate: "opt_reach keys X c \<Longrightarrow> opt_reach keys (insert key X) (c\<lparr>c_live := (c_live c)(key := v)\<rparr>)"
| opt_begin: "opt_reach keys X c \<Longrightarrow> beginOptimisticCall name handler keys c = (Inr k, c') \<Longrightarrow> opt_reach keys X c'"
| opt_apply: "opt_reach keys X c \<Longrightarrow> (\<And>k. q = Some k \<Longrightarrow> known_call k c) \<Longrightarrow> opt_reach keys X (snd (applyOptimisticState key v q echo c))"
| opt_finish: "opt_reach keys X c \<Longrightarrow> known_call k c \<Longrightarrow> opt_reach keys X (finishOptimisticCall k success c)"
| opt_confirm: "opt_reach keys X c \<Longrightarrow> opt_reach keys X (snd (confirmOptimisticFields k ks c))"
| opt_request: "opt_reach keys X c \<Longrightarrow> opt_reach keys X (snd (optimisticRequestState state c))"


text \<open>No step adds a field the component does not have.\<close>

lemma owned_write: "set (owned_keys (snd (write_field key f c))) \<subseteq> insert key (set (owned_keys c))"
  using owned_put [of key f c]
    owned_put [of key "f\<lparr>f_displayed := v\<rparr>" "c\<lparr>c_live := h\<rparr>" for v h]
  by (auto simp: write_field_def split: sum.split)

lemma owned_write_got: "get_field key c = Some g \<Longrightarrow> set (owned_keys (snd (write_field key f c))) \<subseteq> set (owned_keys c)"
  using owned_write [of key f c] owned_iff [of key c] by blast

lemma owned_withdraw: "set (owned_keys (snd (withdraw k ks c))) \<subseteq> set (owned_keys c)"
proof (induction ks arbitrary: c)
  case (Cons key ks)
  show ?case
  proof (cases "get_field key c")
    case None
    then show ?thesis using Cons.IH [of c] by simp
  next
    case (Some f)
    let ?w = "write_field key (f\<lparr>f_changes := AList.delete k (f_changes f)\<rparr>) c"
    have sub: "set (owned_keys (snd ?w)) \<subseteq> set (owned_keys c)" by (rule owned_write_got [OF Some])
    then have "set (owned_keys (snd (withdraw k ks (snd ?w)))) \<subseteq> set (owned_keys c)" using Cons.IH [of "snd ?w"] by blast
    then show ?thesis using sub Some by (simp add: prod.case_eq_if split: sum.split)
  qed
qed simp

lemma owned_collect:
  "set (owned_keys (snd (snd (collect_contributions k rest cap c used failed)))) \<subseteq> fst ` set rest \<union> set (owned_keys c)"
proof (induction rest arbitrary: c used failed)
  case (Cons kv rest)
  obtain key v where kv: "kv = (key, v)" by (rule prod.exhaust)
  have step: "set (owned_keys (snd (snd (collect_contributions k rest cap (put_field key f c) used' failed'))))
      \<subseteq> insert key (fst ` set rest \<union> set (owned_keys c))" for f used' failed'
    using Cons.IH [of "put_field key f c" used' failed'] owned_put [of key f c] by blast
  have "collect_contributions k (kv # rest) cap c used failed = collect_contributions k rest cap c used failed \<or>
      (\<exists>f used' failed'. collect_contributions k (kv # rest) cap c used failed
         = collect_contributions k rest cap (put_field key f c) used' failed')"
    unfolding kv collect_contributions.simps Let_def by (simp split: if_split) blast
  then show ?case
  proof (elim disjE exE)
    assume "collect_contributions k (kv # rest) cap c used failed = collect_contributions k rest cap c used failed"
    then show ?thesis using Cons.IH [of c used failed] by (auto simp only: list.set image_insert)
  next
    fix f used' failed'
    assume "collect_contributions k (kv # rest) cap c used failed = collect_contributions k rest cap (put_field key f c) used' failed'"
    then show ?thesis using step [of f used' failed'] kv by (simp only: list.set image_insert fst_conv Un_insert_left)
  qed
qed simp

lemma owned_settle: "set (owned_keys (settle_fields k success ks c)) \<subseteq> set (owned_keys c)"
proof (induction ks arbitrary: c)
  case (Cons key ks)
  show ?case
  proof (cases "get_field key (observeExternal key c)")
    case None
    then show ?thesis using Cons.IH [of "observeExternal key c"] by (simp add: Let_def)
  next
    case (Some f)
    then show ?thesis
      using Cons.IH owned_write_got [OF Some, of "settle_field k success f"] by (fastforce simp: Let_def)
  qed
qed simp

lemma owned_confirm: "set (owned_keys (snd (confirm_keys k ks c))) \<subseteq> set (owned_keys c)"
proof (induction ks arbitrary: c)
  case (Cons key ks)
  let ?o = "observeExternal key c"
  show ?case
  proof (cases "get_field key ?o")
    case None
    then show ?thesis using Cons.IH [of c] Cons.IH [of ?o] by (auto simp: Let_def split: option.split)
  next
    case (Some f)
    let ?w = "write_field key (f\<lparr>f_changes := AList.delete (oc_id k) (f_changes f)\<rparr>) ?o"
    have sub: "set (owned_keys (snd ?w)) \<subseteq> set (owned_keys c)" using owned_write_got [OF Some] by simp
    then have "set (owned_keys (snd (confirm_keys k ks (snd ?w)))) \<subseteq> set (owned_keys c)" using Cons.IH [of "snd ?w"] by blast
    then show ?thesis using Cons.IH [of c] sub Some
      by (simp add: Let_def prod.case_eq_if split: option.split sum.split)
  qed
qed simp

end
