(* ===== verification/Optimistic_Theorems.thy ===== *)
theory Optimistic_Theorems
  imports Optimistic_Facts "HOL-Library.Multiset"
begin

text \<open>
  What the ledger promises: every reachable component shows the view of each field it owns
  (the confirmed base with the pending contributions over it), a rejected call leaves no trace,
  and concurrent increments compose.
\<close>

section \<open>Reachable components are sound\<close>

lemma user_set_sound:
  assumes "sound X c"
  shows "sound X (user_set key v c)"
proof -
  have "sound (insert key X) (c\<lparr>c_live := (c_live c)(key := v)\<rparr>)"
    using assms by (auto simp: sound_def synced_def get_field_def)
  from sound_note [OF this, of key] show ?thesis unfolding user_set_def by (rule sound_mono) auto
qed

lemma request_sound: "sound X c \<Longrightarrow> sound X (snd (optimisticRequestState state c))"
  by (simp add: optimisticRequestState_def Let_def sound_observe_all split: option.split)

lemma owned_apply: "set (owned_keys (snd (applyOptimisticState key v q echo c))) \<subseteq> set (owned_keys c)"
proof (cases "get_field key (observeExternal key c)")
  case (Some f)
  from owned_write_got [OF this] have "set (owned_keys (snd (write_field key g (observeExternal key c)))) \<subseteq> set (owned_keys c)" for g
    by simp
  then show ?thesis using Some by (simp add: applyOptimisticState_def Let_def prod.case_eq_if split: sum.split)
qed (simp add: applyOptimisticState_def Let_def)

lemma owned_finish: "set (owned_keys (finishOptimisticCall k success c)) \<subseteq> set (owned_keys c)"
proof (cases "c_ledger c")
  case (Some l)
  let ?c1 = "c\<lparr>c_ledger := Some (l\<lparr>l_calls := filter (\<lambda>x. oc_id x \<noteq> oc_id k) (l_calls l)\<rparr>)\<rparr>"
  have "owned_keys ?c1 = owned_keys c" using Some by (simp add: owned_keys_def)
  then have "set (owned_keys (settle_fields k success (oc_fields k) ?c1)) \<subseteq> set (owned_keys c)"
    using owned_settle [of k success "oc_fields k" ?c1] by simp
  moreover have "finishOptimisticCall k success c = c \<or> finishOptimisticCall k success c = settle_fields k success (oc_fields k) ?c1
      \<or> c_ledger (finishOptimisticCall k success c) = None"
    using Some by (simp add: finishOptimisticCall_def Let_def split: option.split)
  moreover have "c_ledger d = None \<Longrightarrow> set (owned_keys d) = {}" for d by (simp add: owned_keys_def)
  ultimately show ?thesis by (elim disjE) simp_all
qed (simp add: finishOptimisticCall_def)

lemma owned_begin:
  assumes "beginOptimisticCall name handler keys c0 = (r, c)" and "set (owned_keys c0) \<subseteq> set keys"
  shows "set (owned_keys c) \<subseteq> set keys"
proof -
  let ?c1 = "c0\<lparr>c_ledger := Some (ledger_or_new c0)\<rparr>"
  let ?c2 = "observe_all (owned_keys ?c1) ?c1"
  let ?k = "\<lparr>oc_id = c_next ?c2, oc_seq = Suc (l_clock (ledger_or_new ?c2)), oc_name = name, oc_fields = [], oc_requestId = None\<rparr>"
  let ?c3 = "register_call ?k ?c2"
  have o3: "set (owned_keys ?c3) \<subseteq> set keys" using assms(2) by (simp add: owned_ledger)
  show ?thesis
  proof (cases handler)
    case None
    then show ?thesis using assms(1) o3 by (auto simp: beginOptimisticCall_def Let_def)
  next
    case (Some acts)
    let ?before = "map (\<lambda>key. (key, c_live ?c3 key)) (uniq keys)"
    obtain failed1 cap where cap: "run_handler ?before acts \<lparr>cap_live = c_live ?c3, cap_ops = []\<rparr> = (failed1, cap)"
      by (rule prod.exhaust)
    obtain failed used c4 where col: "collect_contributions ?k ?before cap (?c3\<lparr>c_live := cap_live cap\<rparr>) [] failed1 = (failed, used, c4)"
      by (rule prod_cases3)
    have o4: "set (owned_keys c4) \<subseteq> set keys"
      using owned_collect [of ?k ?before cap "?c3\<lparr>c_live := cap_live cap\<rparr>" "[]" failed1] o3 unfolding col
      by (auto simp: image_image)
    have out: "beginOptimisticCall name handler keys c0 = (if failed
        then (case withdraw (oc_id ?k) used c4 of (Inl e, c5) \<Rightarrow> (Inl e, c5) | (Inr _, c5) \<Rightarrow> (Inr ?k, c5))
        else (Inr (?k\<lparr>oc_fields := used\<rparr>), set_call (?k\<lparr>oc_fields := used\<rparr>) c4))"
      using Some cap col by (simp add: beginOptimisticCall_def Let_def)
    have "c = snd (withdraw (oc_id ?k) used c4) \<or> c = set_call (?k\<lparr>oc_fields := used\<rparr>) c4"
      using trans [OF assms(1) [symmetric] out] by (auto split: if_splits prod.splits sum.splits)
    then show ?thesis using o4 owned_withdraw [of "oc_id ?k" used c4] by auto
  qed
qed

lemma reach_sound: "opt_reach keys X c \<Longrightarrow> sound X c \<and> set (owned_keys c) \<subseteq> set keys"
proof (induction rule: opt_reach.induct)
  case (opt_start c)
  then show ?case by (simp add: sound_no_ledger owned_keys_def)
next
  case (opt_set X c key v)
  then show ?case using user_set_sound by (auto simp: user_set_def)
next
  case (opt_mutate X c key v)
  then show ?case by (auto simp: sound_def synced_def get_field_def)
next
  case (opt_begin X c name handler k c')
  then show ?case using begin_sound owned_begin by blast
next
  case (opt_apply X c q key v echo)
  then show ?case using apply_sound [of X c q key v echo] owned_apply [of key v q echo c] by blast
next
  case (opt_finish X c k success)
  then show ?case using finish_sound owned_finish by blast
next
  case (opt_confirm X c k ks)
  have "sound X (snd (confirmOptimisticFields k ks c))"
  proof (cases "call_active k c")
    case True
    then obtain l where "c_ledger c = Some l" by (auto simp: call_active_def split: option.splits)
    then show ?thesis using True confirm_sound opt_confirm by (simp add: confirmOptimisticFields_def)
  qed (use opt_confirm in \<open>simp add: confirmOptimisticFields_def\<close>)
  then show ?case using opt_confirm owned_confirm [of k ks c] by (auto simp: confirmOptimisticFields_def)
next
  case (opt_request X c state)
  then show ?case using request_sound by (auto simp: optimisticRequestState_def Let_def split: option.split)
qed



section \<open>A rejected call leaves no trace\<close>

text \<open>What taking call \<open>k\<close> out of a field leaves.\<close>

abbreviation without :: "nat \<Rightarrow> field \<Rightarrow> field" where
  "without i f \<equiv> f\<lparr>f_changes := AList.delete i (f_changes f)\<rparr>"

lemma without_absent: "i \<notin> fst ` set (f_changes f) \<Longrightarrow> without i f = f"
  by (simp add: delete_idem)

lemma without_contribution:
  assumes "oc_id k \<notin> fst ` set (f_changes f)"
  shows "field_view (without (oc_id k) (contribution k n os f)) = field_view f"
proof -
  have "AList.delete (oc_id k) (f_changes (contribution k n os f)) = f_changes f"
    using assms by (simp add: contribution_def delete_update_same delete_idem)
  then show ?thesis by (simp add: contribution_def field_view_def ordered_changes_def all_changes_def)
qed

definition undoable :: "nat \<Rightarrow> (string \<Rightarrow> tree) \<Rightarrow> string \<Rightarrow> component \<Rightarrow> bool" where
  "undoable i base key c \<longleftrightarrow> (\<exists>f. get_field key c = Some f \<and> field_view (without i f) = Inr (base key))"

definition shown :: "string \<Rightarrow> component \<Rightarrow> bool" where
  "shown key c \<longleftrightarrow> (\<forall>f. get_field key c = Some f \<longrightarrow> f_displayed f = c_live c key)"

lemma collect_undo:
  assumes "distinct (map fst rest)" and "c_ledger c \<noteq> None"
    and "\<And>key v f. (key, v) \<in> set rest \<Longrightarrow> base key = v \<and> oc_id k \<notin> fst ` set (f_changes (the_field v key c)) \<and> field_view (the_field v key c) = Inr v"
    and "collect_contributions k rest cap c used failed = (failed', used', c')"
  shows "c_live c' = c_live c \<and> c_ledger c' \<noteq> None \<and> set used \<subseteq> set used' \<and> (failed \<longrightarrow> failed') \<and>
     (\<forall>key. key \<notin> fst ` set rest \<longrightarrow> get_field key c' = get_field key c) \<and>
     (\<forall>key \<in> set used' - set used. undoable (oc_id k) base key c' \<and> (\<not> failed' \<longrightarrow> shown key c')) \<and>
     (\<forall>key \<in> fst ` set rest. key \<notin> set used' \<longrightarrow> c_live c key = base key)"
  using assms
proof (induction rest arbitrary: c used failed)
  case (Cons kv rest)
  obtain key v where kv: "kv = (key, v)" by (rule prod.exhaust)
  have nk: "key \<notin> fst ` set rest" "distinct (map fst rest)" using Cons.prems(1) kv by auto
  have this_f: "base key = v" "oc_id k \<notin> fst ` set (f_changes (the_field v key c))" "field_view (the_field v key c) = Inr v"
    using Cons.prems(3) [of key v] kv by auto
  have step: ?case
    if eq: "collect_contributions k ((key, v) # rest) cap c used failed = collect_contributions k rest cap (put_field key g c) (used @ [key]) failed2"
      and view: "field_view (without (oc_id k) g) = Inr v" and sh: "failed2 \<or> f_displayed g = c_live c key" and mono: "failed \<longrightarrow> failed2" for g failed2
  proof -
    let ?c = "put_field key g c"
    have g: "get_field j ?c = (if j = key then Some g else get_field j c)" for j using put_get [OF Cons.prems(2)] .
    have pre: "base j = w \<and> oc_id k \<notin> fst ` set (f_changes (the_field w j ?c)) \<and> field_view (the_field w j ?c) = Inr w"
      if "(j, w) \<in> set rest" for j w
    proof -
      have "j \<noteq> key" using that nk(1) by force
      then have "the_field w j ?c = the_field w j c" by (simp add: the_field_def g)
      then show ?thesis using Cons.prems(3) [of j w] that kv by simp
    qed
    have led: "c_ledger ?c \<noteq> None" using Cons.prems(2) by (auto simp: put_field_def)
    note IH = Cons.IH [OF nk(2) led pre Cons.prems(4) [unfolded kv eq]]
    have key': "get_field key c' = Some g" using IH nk(1) g by simp
    then have "undoable (oc_id k) base key c' \<and> (\<not> failed' \<longrightarrow> shown key c')"
      using view this_f(1) sh IH by (auto simp: undoable_def shown_def)
    then show ?thesis using IH mono kv nk(1) by (auto simp: g)
  qed
  show ?case
  proof (cases "map_of (cap_ops cap) key = None \<and> v = c_live c key")
    case True
    note eq = collect_unchanged [OF True, of k rest used failed]
    have "base j = w \<and> oc_id k \<notin> fst ` set (f_changes (the_field w j c)) \<and> field_view (the_field w j c) = Inr w"
      if "(j, w) \<in> set rest" for j w using Cons.prems(3) [of j w] that by simp
    from Cons.IH [OF nk(2) Cons.prems(2) this Cons.prems(4) [unfolded kv eq]] show ?thesis
      using True this_f(1) kv by auto
  next
    case False
    show ?thesis
    proof (cases "case map_of (cap_ops cap) key of None \<Rightarrow> False | Some os \<Rightarrow> applyOperations v os \<noteq> Inr (c_live c key)")
      case True
      show ?thesis using step [OF collect_bad [OF False True]] this_f(2,3) without_absent by simp
    next
      case good: False
      show ?thesis
        by (rule step [OF collect_good [OF False good]]) (use without_contribution [OF this_f(2)] this_f(3) in \<open>simp_all add: contribution_def\<close>)
    qed
  qed
qed simp


lemma write_undo:
  assumes "get_field key c = Some f" and "field_view (without i f) = Inr (base key)"
  shows "fst (write_field key (without i f) c) = Inr ()"
    and "c_live (snd (write_field key (without i f) c)) = (c_live c)(key := base key)"
    and "undoable i base j c \<Longrightarrow> undoable i base j (snd (write_field key (without i f) c))"
    and "shown j c \<Longrightarrow> shown j (snd (write_field key (without i f) c))"
proof -
  obtain l where l: "c_ledger c = Some l" using assms(1) by (auto simp: get_field_def split: option.splits)
  let ?g = "without i f" let ?c = "snd (write_field key ?g c)"
  show live: "c_live ?c = (c_live c)(key := base key)" using assms(2) by (simp add: write_live)
  show "fst (write_field key ?g c) = Inr ()" using assms(2) by (simp add: write_field_def)
  have get: "get_field j ?c = (if j = key then Some (?g\<lparr>f_displayed := base key\<rparr>) else get_field j c)" for j
    using l assms(2) by (simp add: write_field_def put_field_def get_field_def)
  have vd: "field_view (without i (?g\<lparr>f_displayed := base key\<rparr>)) = field_view ?g"
    by (simp add: field_view_def ordered_changes_def all_changes_def delete_idem)
  show "undoable i base j ?c" if "undoable i base j c"
    using that assms(2) vd by (auto simp: undoable_def get)
  show "shown j ?c" if "shown j c" using that live by (simp add: shown_def get)
qed

lemma withdraw_restores:
  assumes "\<And>key. key \<in> set ks \<Longrightarrow> undoable i base key c"
  shows "\<exists>c'. withdraw i ks c = (Inr (), c') \<and> (\<forall>key. c_live c' key = (if key \<in> set ks then base key else c_live c key))"
  using assms
proof (induction ks arbitrary: c)
  case (Cons key ks)
  obtain f where f: "get_field key c = Some f" "field_view (without i f) = Inr (base key)"
    using Cons.prems [of key] by (auto simp: undoable_def)
  let ?c = "snd (write_field key (without i f) c)"
  obtain c' where "withdraw i ks ?c = (Inr (), c')" "\<forall>j. c_live c' j = (if j \<in> set ks then base j else c_live ?c j)"
    using Cons.IH [of ?c] Cons.prems write_undo(3) [where base = base, OF f] by (meson list.set_intros(2))
  then have "withdraw i (key # ks) c = (Inr (), c') \<and> (\<forall>j. c_live c' j = (if j \<in> set (key # ks) then base j else c_live c j))"
    using write_undo(1,2) [where base = base, OF f] f(1) by (simp add: prod.case_eq_if)
  then show ?case by blast
qed simp

lemma settle_rejected: "settle_field k False f = without (oc_id k) f"
  by (cases "f_local f") (auto simp: settle_field_def Let_def split: option.split)

lemma settle_restores:
  assumes "\<And>key. key \<in> set ks \<Longrightarrow> undoable (oc_id k) base key c \<and> shown key c"
  shows "c_live (settle_fields k False ks c) key = (if key \<in> set ks then base key else c_live c key)"
  using assms
proof (induction ks arbitrary: c)
  case (Cons j ks)
  obtain f where f: "get_field j c = Some f" "field_view (without (oc_id k) f) = Inr (base j)"
    using Cons.prems [of j] by (auto simp: undoable_def)
  have same: "observeExternal j c = c" using Cons.prems [of j] f(1) by (simp add: observeExternal_def shown_def)
  let ?c = "snd (write_field j (without (oc_id k) f) c)"
  have "c_live (settle_fields k False ks ?c) key = (if key \<in> set ks then base key else c_live ?c key)"
    using Cons.IH [of ?c] Cons.prems write_undo(3,4) [where base = base, OF f] by (meson list.set_intros(2))
  then show ?case using write_undo(2) [where base = base, OF f] f(1) by (simp add: same Let_def settle_rejected)
qed simp

lemma finish_live: "c_live (finishOptimisticCall k success c) =
   (if call_active k c then c_live (settle_fields k success (oc_fields k)
      (c\<lparr>c_ledger := map_option (\<lambda>l. l\<lparr>l_calls := filter (\<lambda>x. oc_id x \<noteq> oc_id k) (l_calls l)\<rparr>) (c_ledger c)\<rparr>)) else c_live c)"
  by (simp add: finishOptimisticCall_def Let_def call_active_def split: option.split)


lemma put_calls [simp]: "map_option l_calls (c_ledger (put_field key f c)) = map_option l_calls (c_ledger c)"
  by (simp add: put_field_def split: option.split)

lemma collect_calls: "map_option l_calls (c_ledger (snd (snd (collect_contributions k rest cap c used failed)))) = map_option l_calls (c_ledger c)"
  by (induction k rest cap c used failed rule: collect_contributions.induct)
    (simp_all add: collect_contributions.simps Let_def split: if_split)

lemma sound_shown:
  assumes "sound {} c" and "\<And>f. get_field key c = Some f \<Longrightarrow> \<exists>v. field_view f = Inr v"
  shows "shown key c" and "get_field key c = Some f \<Longrightarrow> field_view f = Inr (c_live c key)"
proof -
  have *: "f_displayed f = c_live c key \<and> field_view f = Inr (c_live c key)" if f: "get_field key c = Some f" for f
  proof -
    obtain l where l: "c_ledger c = Some l" using f by (auto simp: get_field_def split: option.splits)
    obtain v where v: "field_view f = Inr v" using assms(2) [OF f] by blast
    have "field_ok (l_clock l) (c_next c) f" using opt_inv_field [OF _ l f] assms(1) by (simp add: sound_def)
    then show ?thesis using syncedD [of "{}" c key f v] assms(1) f v by (auto simp: field_ok_def sound_def)
  qed
  then show "shown key c" by (simp add: shown_def)
  show "field_view f = Inr (c_live c key)" if "get_field key c = Some f" using * that by blast
qed

lemma register_get: "get_field j (register_call k c) = get_field j c"
  by (simp add: register_call_def get_field_def split: option.split)

lemma observe_all_shown: "(\<And>key. shown key c) \<Longrightarrow> observe_all ks c = c"
  by (induction ks) (auto simp: observeExternal_def shown_def split: option.split)

text \<open>A handler that ran to its end, rejected.\<close>

lemma finish_restores:
  assumes "call_active k c" and "\<And>key. key \<in> set (oc_fields k) \<Longrightarrow> undoable (oc_id k) base key c \<and> shown key c"
  shows "c_live (finishOptimisticCall k False c) key = (if key \<in> set (oc_fields k) then base key else c_live c key)"
proof -
  let ?c = "c\<lparr>c_ledger := map_option (\<lambda>l. l\<lparr>l_calls := filter (\<lambda>x. oc_id x \<noteq> oc_id k) (l_calls l)\<rparr>) (c_ledger c)\<rparr>"
  have "get_field j ?c = get_field j c" for j by (simp add: get_field_def split: option.split)
  then have "undoable (oc_id k) base j ?c \<and> shown j ?c" if "j \<in> set (oc_fields k)" for j
    using assms(2) [OF that] by (simp add: undoable_def shown_def)
  from settle_restores [of "oc_fields k", OF this] show ?thesis using assms(1) by (simp add: finish_live)
qed

lemma rejected_call_restores_aux:
  assumes "sound {} c0" and "beginOptimisticCall name handler keys c0 = (Inr k, c)"
    and "\<And>key f. get_field key c0 = Some f \<Longrightarrow> \<exists>v. field_view f = Inr v" and "key \<in> set keys"
  shows "c_live (finishOptimisticCall k False c) key = c_live c0 key"
proof -
  let ?c1 = "c0\<lparr>c_ledger := Some (ledger_or_new c0)\<rparr>"
  let ?c2 = "observe_all (owned_keys ?c1) ?c1"
  let ?k = "\<lparr>oc_id = c_next ?c2, oc_seq = Suc (l_clock (ledger_or_new ?c2)), oc_name = name, oc_fields = [], oc_requestId = None\<rparr>"
  define kk where "kk = ?k"
  define c3 where "c3 = register_call kk ?c2"
  note prep = begin_prepared [OF assms(1), where name = name, folded kk_def, folded c3_def]
  have g1: "get_field j ?c1 = get_field j c0" for j by (simp add: get_field_def ledger_or_new_def split: option.split)
  have "shown j ?c1" for j using sound_shown(1) [OF assms(1,3), of j] by (simp add: shown_def g1)
  then have c2: "?c2 = ?c1" by (rule observe_all_shown)
  have g3: "get_field j c3 = get_field j c0" for j
    unfolding c3_def using register_get [of j kk ?c2] g1 [of j] unfolding c2 by (rule trans)
  have live3: "c_live c3 = c_live c0" by (rule prep(4))
  have no_fields: "oc_fields k = [] \<Longrightarrow> c_live (finishOptimisticCall k False c) key = c_live c key"
    by (simp add: finish_live)
  show ?thesis
  proof (cases handler)
    case None
    have "beginOptimisticCall name None keys c0 = (Inr kk, c3)" by (simp only: beginOptimisticCall_def Let_def option.case kk_def c3_def)
    from trans [OF assms(2) [unfolded None, symmetric] this] have "k = kk" "c = c3" by simp_all
    have "oc_fields k = []" by (simp add: \<open>k = kk\<close> kk_def)
    have "c_live c key = c_live c0 key" unfolding \<open>c = c3\<close> by (rule fun_cong [OF live3])
    with no_fields \<open>oc_fields k = []\<close> show ?thesis by (metis (no_types))
  next
    case (Some acts)
    let ?before = "map (\<lambda>key. (key, c_live c3 key)) (uniq keys)"
    obtain failed1 cap where cap: "run_handler ?before acts \<lparr>cap_live = c_live c3, cap_ops = []\<rparr> = (failed1, cap)"
      by (rule prod.exhaust)
    let ?c3' = "c3\<lparr>c_live := cap_live cap\<rparr>"
    obtain failed used c4 where col: "collect_contributions kk ?before cap ?c3' [] failed1 = (failed, used, c4)"
      by (rule prod_cases3)
    obtain l where l: "c_ledger c3 = Some l" "kk \<in> set (l_calls l)" using prep(2) by blast
    have g3': "get_field j ?c3' = get_field j c0" for j using g3 by (simp add: get_field_def)
    have pre: "c_live c0 j = v \<and> oc_id kk \<notin> fst ` set (f_changes (the_field v j ?c3')) \<and> field_view (the_field v j ?c3') = Inr v"
      if "(j, v) \<in> set ?before" for j v
    proof (cases "get_field j c0")
      case None
      then show ?thesis using that live3
        by (auto simp: the_field_def g3' fresh_field_def field_view_def ordered_changes_def all_changes_def)
    next
      case f: (Some f)
      then have "addable kk (c_live c3 j) f" using prep(3) g3 by simp
      then show ?thesis using that live3 f sound_shown(2) [OF assms(1,3) f] by (auto simp: the_field_def g3' addable_def)
    qed
    have "distinct (map fst ?before)" "c_ledger ?c3' \<noteq> None" using l by (simp_all add: o_def)
    note und = collect_undo [where base = "c_live c0", OF this pre col]
    have unused: "c_live c4 key = c_live c0 key" if "key \<notin> set used"
      using und that assms(4) by (simp add: image_image)
    have out: "beginOptimisticCall name handler keys c0 = (if failed
        then (case withdraw (oc_id kk) used c4 of (Inl e, c5) \<Rightarrow> (Inl e, c5) | (Inr _, c5) \<Rightarrow> (Inr kk, c5))
        else (Inr (kk\<lparr>oc_fields := used\<rparr>), set_call (kk\<lparr>oc_fields := used\<rparr>) c4))"
      by (simp only: beginOptimisticCall_def Let_def Some option.case kk_def [symmetric] c3_def [symmetric] cap col prod.case)
    show ?thesis
    proof (cases failed)
      case True
      obtain c5 where c5: "withdraw (oc_id kk) used c4 = (Inr (), c5)"
          "\<forall>key. c_live c5 key = (if key \<in> set used then c_live c0 key else c_live c4 key)"
        using withdraw_restores [of used "oc_id kk" "c_live c0" c4] und by auto
      then have "k = kk" "c = c5" using trans [OF assms(2) [symmetric] out] True by simp_all
      moreover have "oc_fields kk = []" by (simp add: kk_def)
      ultimately show ?thesis using no_fields c5(2) unused by (cases "key \<in> set used") simp_all
    next
      case False
      let ?k' = "kk\<lparr>oc_fields := used\<rparr>"
      have k: "k = ?k'" and c: "c = set_call ?k' c4" using trans [OF assms(2) [symmetric] out] False by simp_all
      have "map_option l_calls (c_ledger c4) = Some (l_calls l)"
        using collect_calls [of kk ?before cap ?c3' "[]" failed1] l(1) by (simp add: col)
      then obtain l4 where l4: "c_ledger c4 = Some l4" "l_calls l4 = l_calls l" by auto
      have act: "call_active k c" using l(2) l4 by (force simp: call_active_def c set_call_def k)
      have "get_field j c = get_field j c4" "c_live c = c_live c4" for j by (simp_all add: c set_call_def l4 get_field_def)
      then have "undoable (oc_id k) (c_live c0) j c \<and> shown j c" if "j \<in> set (oc_fields k)" for j
        using und that False k by (simp add: undoable_def shown_def)
      from finish_restores [OF act this] show ?thesis
        using unused k by (simp add: c set_call_def l4)
    qed
  qed
qed


text \<open>C12. A rejected call leaves no trace. Take a reachable component that nobody mutated behind
  the setters' back and whose fields all have a view (earlier calls may still be pending, with
  their edits and increments), begin a call whose handler does whatever it likes (it may also
  throw halfway), and reject the call: every reactive field has exactly the value it had before.\<close>

theorem rejected_call_restores:
  assumes "opt_reach keys {} c0" and "\<And>key f. get_field key c0 = Some f \<Longrightarrow> \<exists>v. field_view f = Inr v"
    and "beginOptimisticCall name handler keys c0 = (Inr k, c)" and "key \<in> set keys"
  shows "c_live (finishOptimisticCall k False c) key = c_live c0 key"
proof (rule rejected_call_restores_aux [OF _ assms(3) _ assms(4)])
  show "sound {} c0" using reach_sound [OF assms(1)] by blast
  show "\<exists>v. field_view f = Inr v" if "get_field j c0 = Some f" for j f by (rule assms(2) [OF that])
qed


section \<open>Increments compose\<close>










section \<open>Concrete components\<close>

definition plain_component :: component where
  "plain_component = \<lparr>c_live = (\<lambda>_. TNum 5), c_ledger = None, c_settled = [], c_loading = [], c_next = 0\<rparr>"

definition vote :: "int \<Rightarrow> component \<Rightarrow> (edit_error + call) \<times> component" where
  "vote n = beginOptimisticCall ''vote'' (Some [HOp ''n'' (Increment n)]) [''n'']"

definition one_vote :: component where
  "one_vote = snd (vote 2 plain_component)"

definition two_votes :: component where
  "two_votes = snd (vote 40 one_vote)"

definition vote_call :: "nat \<Rightarrow> call" where
  "vote_call i = \<lparr>oc_id = i, oc_seq = Suc i, oc_name = ''vote'', oc_fields = [''n''], oc_requestId = None\<rparr>"

lemma votes_begin:
  "fst (vote 2 plain_component) = Inr (vote_call 0)" "fst (vote 40 one_vote) = Inr (vote_call 1)"
  "get_field ''n'' one_vote = Some \<lparr>f_base = TNum 5, f_seq = 0,
     f_changes = [(0, \<lparr>ch_seq = 1, ch_value = TNum 7, ch_ops = Some [Increment 2]\<rparr>)], f_displayed = TNum 7, f_local = None\<rparr>"
  "get_field ''n'' two_votes = Some \<lparr>f_base = TNum 5, f_seq = 0,
     f_changes = [(0, \<lparr>ch_seq = 1, ch_value = TNum 7, ch_ops = Some [Increment 2]\<rparr>),
       (1, \<lparr>ch_seq = 2, ch_value = TNum 47, ch_ops = Some [Increment 40]\<rparr>)], f_displayed = TNum 47, f_local = None\<rparr>"
  by code_simp+


lemma votes_reachable: "opt_reach [''n''] {} one_vote" "opt_reach [''n''] {} two_votes"
proof -
  have "opt_reach [''n''] {} plain_component" by (rule opt_start) (simp add: plain_component_def)
  then show one: "opt_reach [''n''] {} one_vote"
    by (rule opt_begin [where handler = "Some [HOp ''n'' (Increment 2)]" and name = "''vote''" and k = "vote_call 0"])
      (use votes_begin(1) in \<open>simp add: one_vote_def vote_def prod_eq_iff\<close>)
  show "opt_reach [''n''] {} two_votes"
    by (rule opt_begin [OF one, where handler = "Some [HOp ''n'' (Increment 40)]" and name = "''vote''" and k = "vote_call 1"])
      (use votes_begin(2) in \<open>simp add: two_votes_def vote_def prod_eq_iff\<close>)
qed


lemma owned_one_vote: "get_field j one_vote = Some f \<Longrightarrow> j = ''n''"
  using owned_iff [of j one_vote] reach_sound [OF votes_reachable(1)] by auto

lemma rejected_call_restores_witness:
  "c_live (finishOptimisticCall (vote_call 1) False two_votes) ''n'' = c_live one_vote ''n''"
proof (rule rejected_call_restores [OF votes_reachable(1)])
  show "\<exists>v. field_view f = Inr v" if g: "get_field j one_vote = Some f" for j f
  proof -
    have "field_view \<lparr>f_base = TNum 5, f_seq = 0,
       f_changes = [(0, \<lparr>ch_seq = 1, ch_value = TNum 7, ch_ops = Some [Increment 2]\<rparr>)], f_displayed = TNum 7, f_local = None\<rparr> = Inr (TNum 7)"
      by code_simp
    then have "field_view f = Inr (TNum 7)" using g votes_begin(3) owned_one_vote [OF g] by simp
    then show ?thesis by blast
  qed
  show "beginOptimisticCall ''vote'' (Some [HOp ''n'' (Increment 40)]) [''n''] one_vote = (Inr (vote_call 1), two_votes)"
    using votes_begin(2) by (simp add: two_votes_def vote_def prod_eq_iff)
qed simp


end
