(* ===== verification/Sql_Text.thy ===== *)
theory Sql_Text
  imports Prelude
begin

text \<open>
  SQL text and bound values: the dialects (\<open>database/src/dialect/dialects.ts\<close>), fragments and
  their compilation (\<open>database/src/sql/fragment.ts\<close>), the tag's constructors
  (\<open>database/src/sql/tag.ts\<close>) and the value codec (\<open>database/src/codec.ts\<close>). A date is the text
  \<open>toISOString\<close> gives for it (24 characters for the years 0 to 9999).
\<close>

section \<open>Errors\<close>

(* models packages/database/src/adapter/types.ts:4-4 DialectName *)
datatype dialect = Sqlite | Postgres | Mysql

(* models packages/database/src/errors.ts:8-52 ORMError *)
datatype orm_error = ConfigurationError | MetadataError | ScopeError | QueryError
  | UnsupportedCapabilityError string dialect | DestructiveSchemaChangeError "string list"
  | MigrationError string | TypeError | PlainError string


section \<open>Dialects\<close>

(* models packages/database/src/dialect/dialects.ts:4-6 doubleQuote *)
definition doubleQuote :: "string \<Rightarrow> string" where
  "doubleQuote s = [CHR 0x22] @ replace_all (CHR 0x22) [CHR 0x22, CHR 0x22] s @ [CHR 0x22]"

(* models packages/database/src/dialect/dialects.ts:8-10 backtick *)
definition backtick :: "string \<Rightarrow> string" where
  "backtick s = [CHR 0x60] @ replace_all (CHR 0x60) [CHR 0x60, CHR 0x60] s @ [CHR 0x60]"

(* models packages/database/src/dialect/dialects.ts:12-27 sqliteTypes *)
definition sqliteTypes :: "(string \<times> string) list" where
  "sqliteTypes = [(''string'', ''varchar''), (''varchar'', ''varchar''), (''text'', ''text''), (''integer'', ''integer''),
     (''bigint'', ''bigint''), (''decimal'', ''decimal''), (''boolean'', ''boolean''), (''datetime'', ''datetime''),
     (''date'', ''date''), (''json'', ''json''), (''enum'', ''text''), (''blob'', ''blob''), (''binary'', ''blob''), (''uuid'', ''text'')]"

(* models packages/database/src/dialect/dialects.ts:29-44 postgresTypes *)
definition postgresTypes :: "(string \<times> string) list" where
  "postgresTypes = [(''string'', ''varchar''), (''varchar'', ''varchar''), (''text'', ''text''), (''integer'', ''integer''),
     (''bigint'', ''bigint''), (''decimal'', ''numeric''), (''boolean'', ''boolean''), (''datetime'', ''timestamptz''),
     (''date'', ''date''), (''json'', ''jsonb''), (''enum'', ''varchar''), (''blob'', ''bytea''), (''binary'', ''bytea''), (''uuid'', ''uuid'')]"

(* models packages/database/src/dialect/dialects.ts:46-61 mysqlTypes *)
definition mysqlTypes :: "(string \<times> string) list" where
  "mysqlTypes = [(''string'', ''varchar''), (''varchar'', ''varchar''), (''text'', ''text''), (''integer'', ''int''),
     (''bigint'', ''bigint''), (''decimal'', ''decimal''), (''boolean'', ''boolean''), (''datetime'', ''datetime''),
     (''date'', ''date''), (''json'', ''json''), (''enum'', ''varchar''), (''blob'', ''blob''), (''binary'', ''blob''), (''uuid'', ''char'')]"

record type_options =
  to_length :: "int option"
  to_precision :: "int option"
  to_scale :: "int option"

definition no_options :: type_options where
  "no_options = \<lparr>to_length = None, to_precision = None, to_scale = None\<rparr>"

definition parens :: "string \<Rightarrow> string" where
  "parens s = ''('' @ s @ '')''"

(* models packages/database/src/dialect/dialects.ts:63-82 typeMapper *)
definition typeMapper :: "(string \<times> string) list \<Rightarrow> bool \<Rightarrow> string \<Rightarrow> type_options \<Rightarrow> orm_error + string" where
  "typeMapper types is_mysql t opts =
     (let base = (case map_of types t of Some b \<Rightarrow> b
        | None \<Rightarrow> if starts_with t ''custom:'' then drop 7 t else [])
      in if base = [] then Inl ConfigurationError
      else if t = ''varchar'' \<or> t = ''string''
        then Inr (base @ parens (int_text (case to_length opts of Some n \<Rightarrow> n | None \<Rightarrow> 255)))
      else if t = ''decimal'' then Inr (case to_precision opts of None \<Rightarrow> base
        | Some p \<Rightarrow> base @ parens (int_text p @ '','' @ int_text (case to_scale opts of Some s \<Rightarrow> s | None \<Rightarrow> 0)))
      else if t = ''uuid'' \<and> is_mysql then Inr (base @ ''(36)'')
      else if t = ''datetime'' \<and> is_mysql then Inr (base @ ''(3)'')
      else if t = ''enum'' \<and> is_mysql then Inr (base @ ''(255)'')
      else Inr base)"

(* models packages/database/src/adapter/types.ts:72-77 DialectCapabilities *)
record dialect_capabilities =
  cp_returning :: bool
  cp_generatedIdentity :: bool
  cp_arrays :: bool
  cp_schemas :: bool

(* models packages/database/src/adapter/types.ts:79-85 Dialect *)
record dialect_object =
  d_name :: dialect
  d_capabilities :: dialect_capabilities
  d_placeholder :: "nat \<Rightarrow> string"
  d_quoteIdentifier :: "string \<Rightarrow> string"
  d_mapType :: "string \<Rightarrow> type_options \<Rightarrow> orm_error + string"

(* models packages/database/src/dialect/dialects.ts:84-90 sqliteDialect *)
definition sqliteDialect :: dialect_object where
  "sqliteDialect = \<lparr>d_name = Sqlite,
     d_capabilities = \<lparr>cp_returning = True, cp_generatedIdentity = False, cp_arrays = False, cp_schemas = False\<rparr>,
     d_placeholder = (\<lambda>_. ''?''), d_quoteIdentifier = doubleQuote, d_mapType = typeMapper sqliteTypes False\<rparr>"

(* models packages/database/src/dialect/dialects.ts:92-98 postgresDialect *)
definition postgresDialect :: dialect_object where
  "postgresDialect = \<lparr>d_name = Postgres,
     d_capabilities = \<lparr>cp_returning = True, cp_generatedIdentity = True, cp_arrays = True, cp_schemas = True\<rparr>,
     d_placeholder = (\<lambda>i. ''$'' @ nat_digits i), d_quoteIdentifier = doubleQuote, d_mapType = typeMapper postgresTypes False\<rparr>"

(* models packages/database/src/dialect/dialects.ts:100-106 mysqlDialect *)
definition mysqlDialect :: dialect_object where
  "mysqlDialect = \<lparr>d_name = Mysql,
     d_capabilities = \<lparr>cp_returning = False, cp_generatedIdentity = True, cp_arrays = False, cp_schemas = True\<rparr>,
     d_placeholder = (\<lambda>_. ''?''), d_quoteIdentifier = backtick, d_mapType = typeMapper mysqlTypes True\<rparr>"

(* models packages/database/src/dialect/dialects.ts:108-112 dialectFor *)
definition dialectFor :: "dialect \<Rightarrow> dialect_object" where
  "dialectFor name = (if name = Postgres then postgresDialect else if name = Mysql then mysqlDialect else sqliteDialect)"

abbreviation quoteIdentifier :: "dialect \<Rightarrow> string \<Rightarrow> string" where
  "quoteIdentifier d \<equiv> d_quoteIdentifier (dialectFor d)"

abbreviation placeholder :: "dialect \<Rightarrow> nat \<Rightarrow> string" where
  "placeholder d \<equiv> d_placeholder (dialectFor d)"

abbreviation mapType :: "dialect \<Rightarrow> string \<Rightarrow> type_options \<Rightarrow> orm_error + string" where
  "mapType d \<equiv> d_mapType (dialectFor d)"


section \<open>Values\<close>

(* models packages/database/src/adapter/types.ts:6-6 DatabaseValue *)
datatype db_value = VUndef | VNull | VStr string | VNum jnum | VBig int | VBool bool | VDate string | VBytes "nat list"
  | VArr "db_value list"

(* models packages/database/src/codec.ts:9-12 encodeDateTime *)
definition encodeDateTime :: "string \<Rightarrow> dialect \<Rightarrow> string" where
  "encodeDateTime ts d = (if d = Postgres then ts else take 10 ts @ '' '' @ take 12 (drop 11 ts))"


section \<open>Fragments\<close>

(* models packages/database/src/sql/fragment.ts:8-13 SQLNode *)
datatype sql_node = SText string | SValue db_value | SIdent "string list" | SUnsafe string | SFrag "sql_node list"

(* models packages/database/src/sql/fragment.ts:29-31 SQLFragment.append *)
definition append_fragment :: "sql_node list \<Rightarrow> sql_node list \<Rightarrow> sql_node list" where
  "append_fragment nodes fragment = nodes @ [SFrag fragment]"

definition bound_value :: "dialect \<Rightarrow> db_value \<Rightarrow> db_value" where
  "bound_value d v = (case v of VUndef \<Rightarrow> VNull | VDate ts \<Rightarrow> VStr (encodeDateTime ts d) | _ \<Rightarrow> v)"

definition quote_path :: "dialect \<Rightarrow> string list \<Rightarrow> string" where
  "quote_path d path = join_with ''.'' (map (quoteIdentifier d) path)"

text \<open>\<open>visit\<close>, on the text so far and the parameters so far.\<close>

fun visit :: "dialect \<Rightarrow> sql_node list \<Rightarrow> string \<times> db_value list \<Rightarrow> string \<times> db_value list" where
  "visit d [] st = st"
| "visit d (SText s # ns) (t, ps) = visit d ns (t @ s, ps)"
| "visit d (SUnsafe s # ns) (t, ps) = visit d ns (t @ s, ps)"
| "visit d (SIdent path # ns) (t, ps) = visit d ns (t @ quote_path d path, ps)"
| "visit d (SFrag ms # ns) st = visit d ns (visit d ms st)"
| "visit d (SValue v # ns) (t, ps) =
     visit d ns (t @ placeholder d (length ps + 1), ps @ [bound_value d v])"

(* models packages/database/src/sql/fragment.ts:45-69 compileSQL *)
definition compileSQL :: "sql_node list \<Rightarrow> dialect \<Rightarrow> string \<times> db_value list" where
  "compileSQL nodes d = visit d nodes ([], [])"


section \<open>The tag\<close>

(* models packages/database/src/sql/tag.ts:11-15 SQLInterpolation *)
datatype interpolation = IVal db_value | IFrag "sql_node list" | IArr "db_value list"

fun value_list :: "db_value list \<Rightarrow> sql_node list" where
  "value_list [] = []"
| "value_list [v] = [SValue v]"
| "value_list (v # w # vs) = SValue v # SText '', '' # value_list (w # vs)"

definition interpolate :: "interpolation \<Rightarrow> orm_error + sql_node list" where
  "interpolate i = (case i of IFrag ns \<Rightarrow> Inr [SFrag ns]
     | IArr vs \<Rightarrow> if vs = [] then Inl ConfigurationError else Inr (value_list vs)
     | IVal v \<Rightarrow> Inr [SValue v])"

(* models packages/database/src/sql/tag.ts:36-60 nodesFor *)
fun nodesFor :: "string list \<Rightarrow> interpolation list \<Rightarrow> orm_error + sql_node list" where
  "nodesFor [] vals = Inr []"
| "nodesFor (s # ss) [] = bindr (nodesFor ss []) (\<lambda>ns. Inr ((if s = [] then [] else [SText s]) @ ns))"
| "nodesFor (s # ss) (i # is) = bindr (interpolate i) (\<lambda>vs. bindr (nodesFor ss is) (\<lambda>ns.
     Inr ((if s = [] then [] else [SText s]) @ vs @ ns)))"

(* models packages/database/src/sql/tag.ts:84-89 sql.id *)
definition sql_id :: "string list \<Rightarrow> orm_error + sql_node list" where
  "sql_id path = (if path = [] \<or> list_ex (\<lambda>p. p = []) path then Inl ConfigurationError else Inr [SIdent path])"

text \<open>An item of \<open>join\<close>: an array is not spread here, it is bound as one value (\<open>VArr\<close>).\<close>

definition join_item :: "interpolation \<Rightarrow> sql_node list" where
  "join_item i = (case i of IFrag ns \<Rightarrow> [SFrag ns] | IVal v \<Rightarrow> [SValue v] | IArr vs \<Rightarrow> [SValue (VArr vs)])"

fun join_nodes :: "sql_node list \<Rightarrow> interpolation list \<Rightarrow> sql_node list" where
  "join_nodes sep [] = []"
| "join_nodes sep [i] = join_item i"
| "join_nodes sep (i # j # is) = join_item i @ [SFrag sep] @ join_nodes sep (j # is)"

(* models packages/database/src/sql/tag.ts:90-104 sql.join *)
definition sql_join :: "interpolation list \<Rightarrow> sql_node list option \<Rightarrow> orm_error + sql_node list" where
  "sql_join vals sep = (if vals = [] then Inl ConfigurationError
     else Inr (join_nodes (case sep of Some s \<Rightarrow> s | None \<Rightarrow> [SText '', '']) vals))"

text \<open>Rows are objects: their keys in order, with the value of each.\<close>

fun ident_list :: "string list \<Rightarrow> sql_node list" where
  "ident_list [] = []"
| "ident_list [c] = [SIdent [c]]"
| "ident_list (c # c' # cs) = SIdent [c] # SText '', '' # ident_list (c' # cs)"

definition row_value :: "(string \<times> db_value) list \<Rightarrow> string \<Rightarrow> db_value" where
  "row_value row c = (case map_of row c of Some v \<Rightarrow> v | None \<Rightarrow> VUndef)"

definition row_nodes :: "string list \<Rightarrow> (string \<times> db_value) list \<Rightarrow> sql_node list" where
  "row_nodes columns row = [SText ''(''] @ value_list (map (row_value row) columns) @ [SText '')'']"

fun rows_nodes :: "string list \<Rightarrow> (string \<times> db_value) list list \<Rightarrow> sql_node list" where
  "rows_nodes columns [] = []"
| "rows_nodes columns [r] = row_nodes columns r"
| "rows_nodes columns (r # r' # rs) = row_nodes columns r @ [SText '', ''] @ rows_nodes columns (r' # rs)"

definition nul_joined :: "string list \<Rightarrow> string" where
  "nul_joined cs = join_with [CHR 0x00] cs"

(* models packages/database/src/sql/tag.ts:105-133 sql.values *)
definition sql_values :: "(string \<times> db_value) list list \<Rightarrow> orm_error + sql_node list" where
  "sql_values rows = (case rows of [] \<Rightarrow> Inl ConfigurationError
   | first # _ \<Rightarrow> (let columns = map fst first in
      if columns = [] then Inl ConfigurationError
      else if list_ex (\<lambda>row. nul_joined (map fst row) \<noteq> nul_joined columns) rows then Inl ConfigurationError
      else Inr ([SText ''(''] @ ident_list columns @ [SText '') VALUES ''] @ rows_nodes columns rows)))"

end
