(* ===== verification/Sql_Text_Facts.thy ===== *)
theory Sql_Text_Facts
  imports Sql_Text
begin

text \<open>
  What the SQL layer promises: the text of a query never depends on the values bound in it,
  every value is bound exactly once and in order, and a quoted identifier is read back as one
  token with its own name, whatever characters the name holds.
\<close>

section \<open>Values never reach the text\<close>

text \<open>Replacing every bound value of a fragment by \<open>null\<close>.\<close>

fun erase_node :: "sql_node \<Rightarrow> sql_node" where
  "erase_node (SValue v) = SValue VNull"
| "erase_node (SFrag ns) = SFrag (map erase_node ns)"
| "erase_node n = n"

definition erase :: "sql_node list \<Rightarrow> sql_node list" where
  "erase ns = map erase_node ns"

fun node_values :: "sql_node \<Rightarrow> db_value list" where
  "node_values (SValue v) = [v]"
| "node_values (SFrag ns) = concat (map node_values ns)"
| "node_values n = []"

definition fragment_values :: "sql_node list \<Rightarrow> db_value list" where
  "fragment_values ns = concat (map node_values ns)"

lemma visit_parameters: "snd (visit d ns st) = snd st @ map (bound_value d) (fragment_values ns)"
  by (induction d ns st rule: visit.induct) (auto simp: fragment_values_def)

lemma visit_erase:
  "length ps' = length ps \<Longrightarrow> fst (visit d (erase ns) (t, ps')) = fst (visit d ns (t, ps))"
proof (induction d ns "(t, ps)" arbitrary: t ps ps' rule: visit.induct)
  case (5 d ms ns t ps)
  have f: "fst (visit d (erase ms) (t, ps')) = fst (visit d ms (t, ps))"
    using 5 by blast
  have "length (snd (visit d (erase ms) (t, ps'))) = length (snd (visit d ms (t, ps)))"
  proof -
    have "length (fragment_values (erase ms)) = length (fragment_values ms)"
    proof (induction ms)
      case (Cons m ms)
      have "length (node_values (erase_node n)) = length (node_values n)" for n
        by (induction n) (auto simp: length_concat o_def cong: map_cong)
      then show ?case using Cons by (simp add: fragment_values_def erase_def)
    qed (simp add: fragment_values_def erase_def)
    then show ?thesis using 5(3) by (simp add: visit_parameters)
  qed
  moreover obtain t' q' where "visit d (erase ms) (t, ps') = (t', q')" by (rule prod.exhaust)
  moreover obtain u q where "visit d ms (t, ps) = (u, q)" by (rule prod.exhaust)
  ultimately show ?case using f 5(2) by (simp add: erase_def)
qed (simp_all add: erase_def)

text \<open>C15. SQL injection through values is impossible by construction: the text that
  \<open>compileSQL\<close> produces is the same whatever values are interpolated, and the parameters are
  exactly the interpolated values, each once, in the order of the template (\<open>undefined\<close> as null,
  dates as the dialect's text).\<close>

theorem compile_values_apart:
  "fst (compileSQL nodes d) = fst (compileSQL (erase nodes) d) \<and>
   snd (compileSQL nodes d) = map (bound_value d) (fragment_values nodes)"
  unfolding compileSQL_def using visit_erase [of "[]" "[]" d nodes "[]"] visit_parameters [of d nodes "([], [])"] by simp


section \<open>Reading quoted identifiers back\<close>

text \<open>
  How every dialect reads a quoted identifier, after its opening quote: a doubled quote stands
  for itself, a single one closes the identifier. The result is the name and the rest of the text.
\<close>

fun lex_quoted :: "char \<Rightarrow> string \<Rightarrow> (string \<times> string) option" where
  "lex_quoted q [] = None"
| "lex_quoted q [c] = (if c = q then Some ([], []) else None)"
| "lex_quoted q (c # c' # s) =
     (if c = q then if c' = q then map_option (\<lambda>(a, r). (q # a, r)) (lex_quoted q s) else Some ([], c' # s)
      else map_option (\<lambda>(a, r). (c # a, r)) (lex_quoted q (c' # s)))"

definition quote_with :: "char \<Rightarrow> string \<Rightarrow> string" where
  "quote_with q s = q # replace_all q [q, q] s @ [q]"

lemma replace_all_simps [simp]:
  "replace_all q r [] = []" "replace_all q r (c # s) = (if c = q then r else [c]) @ replace_all q r s"
  by (simp_all add: replace_all_def)

lemma lex_quoted_other: "c \<noteq> q \<Longrightarrow> s \<noteq> [] \<Longrightarrow> lex_quoted q (c # s) = map_option (\<lambda>(a, r). (c # a, r)) (lex_quoted q s)"
  by (cases s) auto

lemma lex_quoted_quote:
  assumes "rest = [] \<or> hd rest \<noteq> q"
  shows "lex_quoted q (replace_all q [q, q] s @ q # rest) = Some (s, rest)"
proof (induction s)
  case Nil
  then show ?case using assms by (cases rest) auto
next
  case (Cons c s)
  then show ?case by (cases "c = q") (simp_all add: lex_quoted_other)
qed

lemma lex_quoted_shorter: "lex_quoted q s = Some (a, r) \<Longrightarrow> length r < length s"
proof (induction q s arbitrary: a r rule: lex_quoted.induct)
  case (3 q c c' s)
  then show ?case by (fastforce split: if_splits)
qed (auto split: if_splits)

text \<open>A dotted path of quoted identifiers.\<close>

function read_path :: "char \<Rightarrow> string \<Rightarrow> (string list \<times> string) option" where
  "read_path q [] = None"
| "read_path q (c # s) = (if c \<noteq> q then None
     else (case lex_quoted q s of None \<Rightarrow> None
       | Some (a, r) \<Rightarrow> if r \<noteq> [] \<and> hd r = CHR ''.'' then map_option (\<lambda>(p, u). (a # p, u)) (read_path q (tl r))
         else Some ([a], r)))"
  by pat_completeness auto
termination
  by (relation "measure (\<lambda>(q, s). length s)") (auto dest!: lex_quoted_shorter simp: diff_less_mono2)

definition quote_char :: "dialect \<Rightarrow> char" where
  "quote_char d = (if d = Mysql then CHR 0x60 else CHR 0x22)"

lemma quoteIdentifier_with: "quoteIdentifier d s = quote_with (quote_char d) s"
  by (cases d) (simp_all add: dialectFor_def postgresDialect_def mysqlDialect_def sqliteDialect_def
    doubleQuote_def backtick_def quote_with_def quote_char_def)

lemma quote_char_not_dot: "quote_char d \<noteq> CHR ''.''"
  by (simp add: quote_char_def)

lemma read_path_one:
  assumes "rest = [] \<or> hd rest \<noteq> q"
  shows "read_path q (quote_with q a @ rest) =
    (if rest \<noteq> [] \<and> hd rest = CHR ''.'' then map_option (\<lambda>(p, u). (a # p, u)) (read_path q (tl rest)) else Some ([a], rest))"
  using lex_quoted_quote [OF assms, of a] by (simp add: quote_with_def)

text \<open>Identifiers cannot break out of their quotes: reading the text of a path back with the
  dialect's own rule for quoted names gives exactly the path that was written, whatever
  characters (quotes, dots, blanks) its parts contain, and stops exactly where the path ends.\<close>

theorem quoted_path_reads_back:
  assumes "path \<noteq> []" and "rest = [] \<or> hd rest \<noteq> quote_char d \<and> hd rest \<noteq> CHR ''.''"
  shows "read_path (quote_char d) (quote_path d path @ rest) = Some (path, rest)"
  using assms(1)
proof (induction path)
  case (Cons a path)
  let ?q = "quote_char d"
  show ?case
  proof (cases path)
    case Nil
    have "rest = [] \<or> hd rest \<noteq> ?q" using assms(2) by blast
    from read_path_one [OF this, of a] show ?thesis
      using Nil assms(2) by (auto simp: quote_path_def quoteIdentifier_with)
  next
    case (Cons b bs)
    let ?r = "CHR ''.'' # quote_path d path @ rest"
    have "quote_path d (a # path) @ rest = quote_with ?q a @ ?r"
      using Cons by (simp add: quote_path_def quoteIdentifier_with)
    moreover have "?r = [] \<or> hd ?r \<noteq> ?q" using quote_char_not_dot [of d] by simp
    ultimately have "read_path ?q (quote_path d (a # path) @ rest) = map_option (\<lambda>(p, u). (a # p, u)) (read_path ?q (quote_path d path @ rest))"
      using read_path_one [of ?r ?q a] by simp
    then show ?thesis using Cons.IH Cons by simp
  qed
qed simp

lemma quoted_path_reads_back_witness:
  "read_path (CHR 0x22) (quote_path Postgres [''a'' @ [CHR 0x22] @ ''; DROP'', ''b.c''] @ '' = 1'')
    = Some ([''a'' @ [CHR 0x22] @ ''; DROP'', ''b.c''], '' = 1'')"
proof -
  have q: "quote_char Postgres = CHR 0x22" by (simp add: quote_char_def)
  have "''= 1'' = [] \<or> hd '' = 1'' \<noteq> quote_char Postgres \<and> hd '' = 1'' \<noteq> CHR ''.''" unfolding q by simp
  from quoted_path_reads_back [of "[''a'' @ [CHR 0x22] @ ''; DROP'', ''b.c'']" "'' = 1''" Postgres] this
  show ?thesis unfolding q by simp
qed


section \<open>Rows of values\<close>

lemma value_list_values: "fragment_values (value_list vs) = vs"
  by (induction vs rule: value_list.induct) (simp_all add: fragment_values_def)

lemma ident_list_values: "fragment_values (ident_list cs) = []"
  by (induction cs rule: ident_list.induct) (simp_all add: fragment_values_def)

lemma fragment_values_append [simp]: "fragment_values (xs @ ys) = fragment_values xs @ fragment_values ys"
  by (simp add: fragment_values_def)

lemma fragment_values_text [simp]: "fragment_values (SText t # ns) = fragment_values ns" "fragment_values [] = []"
  by (simp_all add: fragment_values_def)

lemma row_nodes_values: "fragment_values (row_nodes cs r) = map (row_value r) cs"
  by (simp add: row_nodes_def value_list_values)

lemma rows_nodes_values: "fragment_values (rows_nodes cs rows) = concat (map (\<lambda>r. map (row_value r) cs) rows)"
  by (induction cs rows rule: rows_nodes.induct) (simp_all add: row_nodes_values)

lemma row_value_all: "distinct (map fst r) \<Longrightarrow> map (row_value r) (map fst r) = map snd r"
proof -
  assume d: "distinct (map fst r)"
  have "row_value r k = v" if "(k, v) \<in> set r" for k v using that d by (simp add: row_value_def)
  then show ?thesis by (auto intro!: map_cong)
qed

lemma nul_joined_inj:
  assumes "\<And>c. c \<in> set cs \<Longrightarrow> CHR 0x00 \<notin> set c" and "\<And>c. c \<in> set ds \<Longrightarrow> CHR 0x00 \<notin> set c"
    and "cs \<noteq> []" and "ds \<noteq> []" and "nul_joined cs = nul_joined ds"
  shows "cs = ds"
proof -
  have "cs = split_on (CHR 0x00) (nul_joined cs)"
    unfolding nul_joined_def by (rule split_join_with [symmetric]) (use assms in blast)+
  also have "\<dots> = split_on (CHR 0x00) (nul_joined ds)" by (simp only: assms(5))
  also have "\<dots> = ds" unfolding nul_joined_def by (rule split_join_with) (use assms in blast)+
  finally show ?thesis .
qed

text \<open>\<open>sql.values\<close> on rows whose keys hold no NUL character: it accepts exactly the
  non-empty lists of rows with the same columns in the same order (at least one), and then binds
  the cells row by row in column order, each exactly once.\<close>

theorem sql_values_exact:
  assumes "\<And>row. row \<in> set rows \<Longrightarrow> row \<noteq> [] \<and> distinct (map fst row) \<and> (\<forall>c \<in> fst ` set row. CHR 0x00 \<notin> set c)"
  shows "(case sql_values rows of
      Inl e \<Rightarrow> e = ConfigurationError \<and> (rows = [] \<or> (\<exists>row \<in> set rows. map fst row \<noteq> map fst (hd rows)))
    | Inr ns \<Rightarrow> rows \<noteq> [] \<and> (\<forall>row \<in> set rows. map fst row = map fst (hd rows)) \<and>
        fragment_values ns = concat (map (map snd) rows))"
proof (cases rows)
  case (Cons first rs)
  let ?cols = "map fst first"
  have ne: "?cols \<noteq> []" using assms [of first] Cons by simp
  have same: "nul_joined (map fst row) \<noteq> nul_joined ?cols \<longleftrightarrow> map fst row \<noteq> ?cols" if "row \<in> set rows" for row
    using nul_joined_inj [of "map fst row" ?cols] assms [OF that] assms [of first] Cons ne by auto
  show ?thesis
  proof (cases "\<exists>row \<in> set rows. map fst row \<noteq> ?cols")
    case True
    then have "list_ex (\<lambda>row. nul_joined (map fst row) \<noteq> nul_joined ?cols) rows" using same by (auto simp: list_ex_iff)
    then show ?thesis using True Cons ne by (simp add: sql_values_def)
  next
    case False
    then have eq: "map fst row = ?cols" if "row \<in> set rows" for row using that by blast
    have "map (row_value row) ?cols = map snd row" if "row \<in> set rows" for row
      using row_value_all [of row] assms [OF that] eq [OF that] by simp
    then have "concat (map (\<lambda>r. map (row_value r) ?cols) rows) = concat (map (map snd) rows)"
      by (intro arg_cong [of _ _ concat] map_cong) simp_all
    moreover have "\<not> list_ex (\<lambda>row. nul_joined (map fst row) \<noteq> nul_joined ?cols) rows"
      using same eq by (auto simp: list_ex_iff)
    ultimately have "sql_values rows = Inr ([SText ''(''] @ ident_list ?cols @ [SText '') VALUES ''] @ rows_nodes ?cols rows)"
      and cells: "concat (map (\<lambda>r. map (row_value r) ?cols) rows) = concat (map (map snd) rows)"
      using Cons ne by (simp_all only: sql_values_def Let_def list.case if_False)
    moreover have "fragment_values ([SText ''(''] @ ident_list ?cols @ [SText '') VALUES ''] @ rows_nodes ?cols rows) = concat (map (map snd) rows)"
      using cells by (simp only: fragment_values_append fragment_values_text ident_list_values rows_nodes_values append_Nil)
    moreover have "rows \<noteq> []" "hd rows = first" using Cons by simp_all
    ultimately show ?thesis using eq by (simp only: sum.case) blast
  qed
qed (simp add: sql_values_def)

lemma sql_values_exact_witness:
  "case sql_values [[(''a'', VNull), (''b'', VBool True)], [(''a'', VStr ''x''), (''b'', VNull)]] of
     Inl e \<Rightarrow> False | Inr ns \<Rightarrow> fragment_values ns = [VNull, VBool True, VStr ''x'', VNull]"
proof -
  let ?rows = "[[(''a'', VNull), (''b'', VBool True)], [(''a'', VStr ''x''), (''b'', VNull)]]"
  have "row \<noteq> [] \<and> distinct (map fst row) \<and> (\<forall>c \<in> fst ` set row. CHR 0x00 \<notin> set c)" if "row \<in> set ?rows" for row
    using that by auto
  from sql_values_exact [of ?rows, OF this] show ?thesis by (cases "sql_values ?rows") simp_all
qed

end
