(* ===== verification/Schema_Model.thy ===== *)
theory Schema_Model
  imports Sql_Text
begin

text \<open>
  The database schema and its DDL: \<open>database/src/schema/types.ts\<close>, \<open>operations.ts\<close>,
  \<open>ddl.ts\<close> and \<open>builder.ts\<close>. A column default is null, a number (its decimal text), a boolean or
  a string. Capability messages are shortened to their subject.
\<close>

section \<open>Schemas\<close>

datatype default_value = DNull | DNum string | DBool bool | DStr string

datatype generated = NotGenerated | Increment | Identity | UuidGen

(* models packages/database/src/schema/types.ts:18-41 ColumnSchema *)
record column_schema =
  co_propertyName :: string
  co_columnName :: string
  co_logicalType :: string
  co_databaseType :: "string option"
  co_nullable :: bool
  co_primary :: bool
  co_generated :: generated
  co_unique :: bool
  co_length :: "int option"
  co_precision :: "int option"
  co_scale :: "int option"
  co_default :: "default_value option"
  co_enumValues :: "string list option"
  co_array :: "bool option"
  co_renamedFrom :: "string option"
  co_insert :: bool
  co_update :: bool
  co_select :: bool
  co_createDate :: "bool option"
  co_updateDate :: "bool option"
  co_deleteDate :: "bool option"
  co_version :: "bool option"

(* models packages/database/src/schema/types.ts:43-43 RelationKind *)
datatype relation_kind = OneToOne | OneToMany | ManyToOne | ManyToMany

datatype on_delete = Cascade | SetNull | Restrict | NoAction

record join_table =
  jt_name :: string
  jt_joinColumn :: string
  jt_inverseJoinColumn :: string
  jt_referencedColumn :: string
  jt_referencedProperty :: string
  jt_referencedLogicalType :: string
  jt_inverseReferencedColumn :: string
  jt_inverseReferencedProperty :: string
  jt_inverseReferencedLogicalType :: string

(* models packages/database/src/schema/types.ts:45-71 RelationSchema *)
record relation_schema =
  re_propertyName :: string
  re_kind :: relation_kind
  re_targetEntity :: string
  re_targetTableName :: "string option"
  re_inverseProperty :: "string option"
  re_owner :: bool
  re_nullable :: bool
  re_physical :: bool
  re_joinColumn :: "string option"
  re_joinProperty :: "string option"
  re_referencedColumn :: "string option"
  re_referencedProperty :: "string option"
  re_joinTable :: "join_table option"
  re_cascade :: "string list"
  re_onDelete :: "on_delete option"

(* models packages/database/src/schema/types.ts:73-77 IndexSchema *)
record index_schema =
  ix_name :: string
  ix_columns :: "string list"
  ix_unique :: bool

(* models packages/database/src/schema/types.ts:79-87 EntitySchema *)
record entity_schema =
  en_modelName :: string
  en_tableName :: string
  en_renamedFrom :: "string option"
  en_columns :: "column_schema list"
  en_relations :: "relation_schema list"
  en_indexes :: "index_schema list"
  en_virtual :: bool

(* models packages/database/src/schema/types.ts:89-95 OrmSchema *)
record orm_schema =
  sc_dialect :: "dialect option"
  sc_entities :: "entity_schema list"

(* models packages/database/src/schema/operations.ts:3-12 SchemaOperation *)
datatype schema_operation =
    CreateTable entity_schema
  | DropTable string
  | RenameTable string string
  | AddColumn string column_schema
  | DropColumn string string
  | RenameColumn string string string
  | AlterColumn string column_schema column_schema
  | CreateIndex string index_schema
  | DropIndex string string

(* models packages/database/src/schema/operations.ts:14-18 SchemaDiff *)
record schema_diff =
  sd_operations :: "schema_operation list"
  sd_destructive :: "schema_operation list"
  sd_empty :: bool


section \<open>DDL\<close>

text \<open>The values that stand for themselves: a call without arguments, or a \<open>CURRENT_\<close> keyword with
  an optional one-digit precision.\<close>

definition empty_call :: "string \<Rightarrow> bool" where
  "empty_call v \<longleftrightarrow> length v \<ge> 3 \<and> drop (length v - 2) v = ''()'' \<and> list_all is_word (take (length v - 2) v)"

definition current_keyword :: "string \<Rightarrow> bool" where
  "current_keyword v \<longleftrightarrow> list_ex (\<lambda>k. v = k \<or>
      (length v = length k + 3 \<and> starts_with v (k @ ''('') \<and> is_digit (v ! (length k + 1)) \<and> drop (length k + 2) v = '')''))
     [''CURRENT_TIMESTAMP'', ''CURRENT_DATE'', ''CURRENT_TIME'']"

definition quoted_text :: "string \<Rightarrow> string" where
  "quoted_text s = [CHR 0x27] @ replace_all (CHR 0x27) [CHR 0x27, CHR 0x27] s @ [CHR 0x27]"

(* models packages/database/src/schema/ddl.ts:6-12 literal *)
definition ddl_literal :: "default_value \<Rightarrow> string" where
  "ddl_literal v = (case v of DNull \<Rightarrow> ''NULL'' | DNum t \<Rightarrow> t | DBool b \<Rightarrow> (if b then ''TRUE'' else ''FALSE'')
     | DStr s \<Rightarrow> if empty_call s \<or> current_keyword s then s else quoted_text s)"

definition datetime_precision :: "string \<Rightarrow> char option" where
  "datetime_precision t = (if length t = 11 \<and> to_lower (take 9 t) = ''datetime('' \<and> is_digit (t ! 9) \<and> t ! 10 = CHR '')''
     then Some (t ! 9) else None)"

(* models packages/database/src/schema/ddl.ts:18-24 columnDefault *)
definition columnDefault :: "default_value \<Rightarrow> string \<Rightarrow> dialect \<Rightarrow> string" where
  "columnDefault def t d = (case if d = Mysql then datetime_precision t else None of
     Some p \<Rightarrow> (case def of DStr s \<Rightarrow> if to_upper s = ''CURRENT_TIMESTAMP'' then ''CURRENT_TIMESTAMP('' @ [p] @ '')'' else ddl_literal def
        | _ \<Rightarrow> ddl_literal def)
   | None \<Rightarrow> ddl_literal def)"

definition column_type :: "column_schema \<Rightarrow> dialect \<Rightarrow> orm_error + string" where
  "column_type c d = bindr
     (case co_databaseType c of Some t \<Rightarrow> Inr t
      | None \<Rightarrow> mapType d (co_logicalType c) \<lparr>to_length = co_length c, to_precision = co_precision c, to_scale = co_scale c\<rparr>)
     (\<lambda>t. if co_array c = Some True
          then (if cp_arrays (d_capabilities (dialectFor d)) then Inr (t @ ''[]'') else Inl (UnsupportedCapabilityError ''array columns'' d))
          else Inr t)"

definition generated_parts :: "column_schema \<Rightarrow> dialect \<Rightarrow> orm_error + string list" where
  "generated_parts c d = (case co_generated c of
     Increment \<Rightarrow> (case d of
         Sqlite \<Rightarrow> if \<not> co_primary c \<or> co_logicalType c \<noteq> ''integer''
           then Inl (UnsupportedCapabilityError ''SQLite increment requires an integer primary key'' d) else Inr [''AUTOINCREMENT'']
       | Mysql \<Rightarrow> Inr [''AUTO_INCREMENT'']
       | Postgres \<Rightarrow> Inr [''GENERATED BY DEFAULT AS IDENTITY''])
   | Identity \<Rightarrow> if d \<noteq> Postgres then Inl (UnsupportedCapabilityError ''identity columns'' d) else Inr [''GENERATED BY DEFAULT AS IDENTITY'']
   | _ \<Rightarrow> Inr [])"

(* models packages/database/src/schema/ddl.ts:26-54 columnDDL *)
definition columnDDL :: "column_schema \<Rightarrow> dialect \<Rightarrow> orm_error + string" where
  "columnDDL c d =
     bindr (column_type c d) (\<lambda>t.
     bindr (generated_parts c d) (\<lambda>gen. Inr (join_with '' ''
       ([quoteIdentifier d (co_columnName c), t]
        @ (if co_primary c then [''PRIMARY KEY''] else [])
        @ gen
        @ (if co_nullable c then [] else [''NOT NULL''])
        @ (if co_unique c then [''UNIQUE''] else [])
        @ (case co_default c of None \<Rightarrow> [] | Some def \<Rightarrow> [''DEFAULT'', columnDefault def t d])
        @ (case co_enumValues c of Some (v # vs) \<Rightarrow>
             [''CHECK ('' @ quoteIdentifier d (co_columnName c) @ '' IN ('' @
                join_with '', '' (map (\<lambda>x. ddl_literal (DStr x)) (v # vs)) @ ''))''] | _ \<Rightarrow> [])))))"

definition on_delete_text :: "on_delete \<Rightarrow> string" where
  "on_delete_text a = (case a of Cascade \<Rightarrow> ''CASCADE'' | SetNull \<Rightarrow> ''SET NULL'' | Restrict \<Rightarrow> ''RESTRICT'' | NoAction \<Rightarrow> ''NO ACTION'')"

definition relation_target :: "relation_schema \<Rightarrow> string" where
  "relation_target r = (case re_targetTableName r of Some t \<Rightarrow> t | None \<Rightarrow> re_targetEntity r)"

text \<open>An empty column name counts as absent.\<close>

definition truthy :: "string option \<Rightarrow> bool" where
  "truthy s \<longleftrightarrow> (case s of Some t \<Rightarrow> t \<noteq> [] | None \<Rightarrow> False)"

(* models packages/database/src/schema/ddl.ts:56-67 foreignKeys *)
definition foreignKeys :: "entity_schema \<Rightarrow> dialect \<Rightarrow> string list" where
  "foreignKeys e d = map (\<lambda>r. join_with '' ''
       ([''FOREIGN KEY ('' @ quoteIdentifier d (the (re_joinColumn r)) @ '')'',
         ''REFERENCES '' @ quoteIdentifier d (relation_target r) @ '' ('' @ quoteIdentifier d (the (re_referencedColumn r)) @ '')'']
        @ (case re_onDelete r of Some a \<Rightarrow> [''ON DELETE '' @ on_delete_text a] | None \<Rightarrow> [])))
     (filter (\<lambda>r. re_owner r \<and> re_physical r \<and> truthy (re_joinColumn r) \<and> truthy (re_referencedColumn r)) (en_relations e))"

definition createIndexDDL :: "string \<Rightarrow> index_schema \<Rightarrow> dialect \<Rightarrow> string" where
  "createIndexDDL table ix d = ''CREATE'' @ (if ix_unique ix then '' UNIQUE'' else []) @ '' INDEX '' @ quoteIdentifier d (ix_name ix)
     @ '' ON '' @ quoteIdentifier d table @ '' ('' @ join_with '', '' (map (quoteIdentifier d) (ix_columns ix)) @ '')''"

definition newline :: string where
  "newline = [CHR 0x0A]"

definition joinTableDDL :: "entity_schema \<Rightarrow> relation_schema \<Rightarrow> join_table \<Rightarrow> dialect \<Rightarrow> orm_error + string" where
  "joinTableDDL e r j d = (let q = quoteIdentifier d in
     bindr (mapType d (jt_referencedLogicalType j) no_options) (\<lambda>t1.
     bindr (mapType d (jt_inverseReferencedLogicalType j) no_options) (\<lambda>t2. Inr (
       ''CREATE TABLE '' @ q (jt_name j) @ '' ('' @ newline @
       ''  '' @ q (jt_joinColumn j) @ '' '' @ t1 @ '' NOT NULL,'' @ newline @
       ''  '' @ q (jt_inverseJoinColumn j) @ '' '' @ t2 @ '' NOT NULL,'' @ newline @
       ''  PRIMARY KEY ('' @ q (jt_joinColumn j) @ '', '' @ q (jt_inverseJoinColumn j) @ ''),'' @ newline @
       ''  FOREIGN KEY ('' @ q (jt_joinColumn j) @ '') REFERENCES '' @ q (en_tableName e) @ '' ('' @ q (jt_referencedColumn j) @ '') ON DELETE CASCADE,'' @ newline @
       ''  FOREIGN KEY ('' @ q (jt_inverseJoinColumn j) @ '') REFERENCES '' @ q (relation_target r) @ '' ('' @ q (jt_inverseReferencedColumn j) @ '') ON DELETE CASCADE'' @ newline @
       '')''))))"

definition owned_joins :: "entity_schema \<Rightarrow> (relation_schema \<times> join_table) list" where
  "owned_joins e = concat (map (\<lambda>r. if re_owner r then (case re_joinTable r of Some j \<Rightarrow> [(r, j)] | None \<Rightarrow> []) else []) (en_relations e))"

(* models packages/database/src/schema/ddl.ts:69-95 createTableDDL *)
definition createTableDDL :: "entity_schema \<Rightarrow> dialect \<Rightarrow> orm_error + string list" where
  "createTableDDL e d =
     bindr (mapr (\<lambda>c. columnDDL c d) (en_columns e)) (\<lambda>cols.
     bindr (mapr (\<lambda>(r, j). joinTableDDL e r j d) (owned_joins e)) (\<lambda>joins.
     Inr ([''CREATE TABLE '' @ quoteIdentifier d (en_tableName e) @ '' ('' @ newline @ ''  '' @
             join_with ('','' @ newline @ ''  '') (cols @ foreignKeys e d) @ newline @ '')'']
          @ map (\<lambda>ix. createIndexDDL (en_tableName e) ix d) (en_indexes e) @ joins)))"

text \<open>A column without the fields an \<open>alter-column\<close> may change.\<close>

definition without_type :: "column_schema \<Rightarrow> column_schema" where
  "without_type c = c\<lparr>co_logicalType := [], co_databaseType := None, co_length := None, co_precision := None, co_scale := None, co_array := None\<rparr>"

definition alterColumnDDL :: "string \<Rightarrow> column_schema \<Rightarrow> column_schema \<Rightarrow> dialect \<Rightarrow> orm_error + string list" where
  "alterColumnDDL table before after d = (let q = quoteIdentifier d in
     if d = Sqlite then Inl (UnsupportedCapabilityError ''direct SQLite alter column'' d)
     else if without_type before \<noteq> without_type after then Inl (UnsupportedCapabilityError ''alter column changes'' d)
     else if d = Mysql then bindr (columnDDL (after\<lparr>co_primary := False, co_unique := False\<rparr>) d)
       (\<lambda>t. Inr [''ALTER TABLE '' @ q table @ '' MODIFY COLUMN '' @ t])
     else bindr (column_type after d)
       (\<lambda>t. Inr [''ALTER TABLE '' @ q table @ '' ALTER COLUMN '' @ q (co_columnName after) @ '' TYPE '' @ t]))"

(* models packages/database/src/schema/ddl.ts:97-143 renderOperation *)
definition renderOperation :: "schema_operation \<Rightarrow> dialect \<Rightarrow> orm_error + string list" where
  "renderOperation op d = (let q = quoteIdentifier d in (case op of
     CreateTable e \<Rightarrow> createTableDDL e d
   | DropTable t \<Rightarrow> Inr [''DROP TABLE '' @ q t]
   | RenameTable f t \<Rightarrow> Inr [''ALTER TABLE '' @ q f @ '' RENAME TO '' @ q t]
   | AddColumn t c \<Rightarrow> bindr (columnDDL c d) (\<lambda>x. Inr [''ALTER TABLE '' @ q t @ '' ADD COLUMN '' @ x])
   | DropColumn t c \<Rightarrow> Inr [''ALTER TABLE '' @ q t @ '' DROP COLUMN '' @ q c]
   | RenameColumn t f c \<Rightarrow> Inr [''ALTER TABLE '' @ q t @ '' RENAME COLUMN '' @ q f @ '' TO '' @ q c]
   | AlterColumn t b a \<Rightarrow> alterColumnDDL t b a d
   | CreateIndex t ix \<Rightarrow> Inr [createIndexDDL t ix d]
   | DropIndex t i \<Rightarrow> Inr [if d = Mysql then ''DROP INDEX '' @ q i @ '' ON '' @ q t else ''DROP INDEX '' @ q i]))"


section \<open>The builder\<close>

text \<open>The queue of a builder; the database is a parameter: \<open>exec\<close> runs one statement.\<close>

datatype queued = QOp schema_operation | QRaw "sql_node list"

(* models packages/database/src/schema/builder.ts:11-14 SchemaBuilder.createTable *)
definition build_createTable :: "entity_schema \<Rightarrow> queued list \<Rightarrow> queued list" where
  "build_createTable e queue = queue @ [QOp (CreateTable e)]"

(* models packages/database/src/schema/builder.ts:16-19 SchemaBuilder.dropTable *)
definition build_dropTable :: "string \<Rightarrow> queued list \<Rightarrow> queued list" where
  "build_dropTable t queue = queue @ [QOp (DropTable t)]"

(* models packages/database/src/schema/builder.ts:21-24 SchemaBuilder.renameTable *)
definition build_renameTable :: "string \<Rightarrow> string \<Rightarrow> queued list \<Rightarrow> queued list" where
  "build_renameTable f t queue = queue @ [QOp (RenameTable f t)]"

(* models packages/database/src/schema/builder.ts:26-29 SchemaBuilder.addColumn *)
definition build_addColumn :: "string \<Rightarrow> column_schema \<Rightarrow> queued list \<Rightarrow> queued list" where
  "build_addColumn t c queue = queue @ [QOp (AddColumn t c)]"

(* models packages/database/src/schema/builder.ts:31-34 SchemaBuilder.dropColumn *)
definition build_dropColumn :: "string \<Rightarrow> string \<Rightarrow> queued list \<Rightarrow> queued list" where
  "build_dropColumn t c queue = queue @ [QOp (DropColumn t c)]"

(* models packages/database/src/schema/builder.ts:36-39 SchemaBuilder.raw *)
definition build_raw :: "sql_node list \<Rightarrow> queued list \<Rightarrow> queued list" where
  "build_raw f queue = queue @ [QRaw f]"

definition build_statements :: "queued list \<Rightarrow> dialect \<Rightarrow> orm_error + sql_node list list" where
  "build_statements queue d = bindr (mapr (\<lambda>q. case q of QRaw f \<Rightarrow> Inr [f]
     | QOp op \<Rightarrow> bindr (renderOperation op d) (\<lambda>ts. Inr (map (\<lambda>t. [SUnsafe t]) ts))) queue) (\<lambda>xs. Inr (concat xs))"

fun run_statements :: "(string \<times> db_value list \<Rightarrow> 's \<Rightarrow> (orm_error + unit) \<times> 's) \<Rightarrow> dialect \<Rightarrow> sql_node list list \<Rightarrow> 's
    \<Rightarrow> (orm_error + unit) \<times> 's" where
  "run_statements exec d [] s = (Inr (), s)"
| "run_statements exec d (f # fs) s = (case exec (compileSQL f d) s of
     (Inl e, s') \<Rightarrow> (Inl e, s') | (Inr _, s') \<Rightarrow> run_statements exec d fs s')"

(* models packages/database/src/schema/builder.ts:45-52 SchemaBuilder.execute *)
definition build_execute :: "(string \<times> db_value list \<Rightarrow> 's \<Rightarrow> (orm_error + unit) \<times> 's) \<Rightarrow> dialect \<Rightarrow> queued list \<Rightarrow> 's
    \<Rightarrow> (orm_error + unit) \<times> 's" where
  "build_execute exec d queue s = (case build_statements queue d of Inl e \<Rightarrow> (Inl e, s)
     | Inr fs \<Rightarrow> run_statements exec d fs s)"

end
