(* ===== verification/Schema_Diff.thy ===== *)
theory Schema_Diff
  imports Schema_Model
begin

text \<open>
  Comparing two schemas and undoing a comparison: \<open>database/src/schema/diff.ts\<close>. The JSON text
  that the code compares is the record it was made from; tables, columns and indexes in a JS
  \<open>Map\<close> are association lists.
\<close>

section \<open>Comparable columns\<close>

(* models packages/database/src/schema/diff.ts:5-22 sqliteStorageType *)
definition sqliteStorageType :: "string \<Rightarrow> string" where
  "sqliteStorageType t =
     (if t = ''integer'' \<or> t = ''bigint'' \<or> t = ''boolean'' then ''integer''
      else if t = ''decimal'' then ''numeric''
      else if t = ''blob'' then ''blob''
      else if starts_with t ''custom:'' then (let declared = to_lower (drop 7 t) in
         if contains declared ''int'' then ''integer''
         else if contains declared ''char'' \<or> contains declared ''clob'' \<or> contains declared ''text'' then ''text''
         else if contains declared ''blob'' \<or> declared = [] then ''blob''
         else if contains declared ''real'' \<or> contains declared ''floa'' \<or> contains declared ''doub'' then ''real''
         else ''numeric'')
      else ''text'')"

definition all_digits :: "string \<Rightarrow> bool" where
  "all_digits s \<longleftrightarrow> s \<noteq> [] \<and> list_all is_digit s"

text \<open>The digits in \<open>keyword(digits)\<close>.\<close>

definition keyword_digits :: "string \<Rightarrow> string \<Rightarrow> string option" where
  "keyword_digits k t = (if starts_with (to_lower t) (k @ ''('') \<and> ends_with t '')'' \<and>
       all_digits (take (length t - length k - 2) (drop (length k + 1) t)) \<and> length t > length k + 2
     then Some (take (length t - length k - 2) (drop (length k + 1) t)) else None)"

(* models packages/database/src/schema/diff.ts:25-31 normalizeDefault *)
definition normalizeDefault :: "default_value option \<Rightarrow> default_value option" where
  "normalizeDefault v = (case v of Some (DStr s) \<Rightarrow>
     (let t = trim s in
      if to_lower t = ''now()'' \<or> to_lower t = ''current_timestamp'' \<or> to_lower t = ''transaction_timestamp()''
        then Some (DStr ''CURRENT_TIMESTAMP'')
      else (case keyword_digits ''current_timestamp'' t of Some p \<Rightarrow> Some (DStr (''CURRENT_TIMESTAMP('' @ p @ '')''))
        | None \<Rightarrow> (case keyword_digits ''now'' t of Some p \<Rightarrow> Some (DStr (''CURRENT_TIMESTAMP('' @ p @ '')''))
            | None \<Rightarrow> v)))
   | _ \<Rightarrow> v)"

(* models packages/database/src/schema/diff.ts:38-41 enforcesUnique *)
definition enforcesUnique :: "index_schema list \<Rightarrow> column_schema \<Rightarrow> bool" where
  "enforcesUnique indexes c \<longleftrightarrow> co_unique c \<or> list_ex (\<lambda>ix. ix_unique ix \<and> ix_columns ix = [co_columnName c]) indexes"

text \<open>What \<open>comparableColumn\<close> serialises.\<close>

record comparable =
  cm_logicalType :: string
  cm_nullable :: bool
  cm_primary :: bool
  cm_generated :: generated
  cm_unique :: bool
  cm_length :: "int option"
  cm_precision :: "int option"
  cm_scale :: "int option"
  cm_default :: "default_value option"
  cm_enumValues :: "string list option"
  cm_array :: "bool option"

definition default_text :: "default_value option \<Rightarrow> string" where
  "default_text v = (case v of None \<Rightarrow> ''undefined'' | Some DNull \<Rightarrow> ''null'' | Some (DNum t) \<Rightarrow> t
     | Some (DBool b) \<Rightarrow> (if b then ''true'' else ''false'') | Some (DStr s) \<Rightarrow> s)"

definition boolean_default :: "default_value option \<Rightarrow> default_value option" where
  "boolean_default v =
     (if v = Some (DBool True) \<or> v = Some (DNum ''1'') \<or> v = Some (DStr ''1'') \<or> to_lower (default_text v) = ''true'' then Some (DBool True)
      else if v = Some (DBool False) \<or> v = Some (DNum ''0'') \<or> v = Some (DStr ''0'') \<or> to_lower (default_text v) = ''false'' then Some (DBool False)
      else v)"

definition or_else :: "'a option \<Rightarrow> 'a \<Rightarrow> 'a option" where
  "or_else v x = (case v of None \<Rightarrow> Some x | Some y \<Rightarrow> Some y)"

(* models packages/database/src/schema/diff.ts:43-92 comparableColumn *)
definition comparableColumn :: "column_schema \<Rightarrow> dialect option \<Rightarrow> bool \<Rightarrow> comparable" where
  "comparableColumn c d unique =
     (let lt0 = (if d = Some Sqlite then sqliteStorageType (co_logicalType c) else co_logicalType c);
          len0 = (if d = Some Sqlite \<or> co_logicalType c = ''enum'' then None else co_length c);
          gen0 = (if d = Some Sqlite \<and> co_primary c \<and> lt0 = ''integer'' \<and> (co_generated c = NotGenerated \<or> co_generated c = Increment)
            then NotGenerated else co_generated c);
          gen = (if d = Some Postgres \<and> gen0 = Identity then Increment else gen0);
          is_uuid = (d = Some Mysql \<and> lt0 = ''uuid'');
          lt = (if is_uuid then ''varchar'' else lt0);
          len = (if is_uuid then or_else (co_length c) 36 else len0);
          is_dec = (d = Some Mysql \<and> lt = ''decimal'');
          prec = (if is_dec then or_else (co_precision c) 10 else co_precision c);
          scal = (if is_dec then or_else (co_scale c) 0 else co_scale c);
          norm = (if co_logicalType c = ''boolean'' then boolean_default (co_default c) else normalizeDefault (co_default c));
          def = (if d = Some Mysql \<and> lt = ''datetime'' \<and> norm = Some (DStr ''CURRENT_TIMESTAMP(3)'')
            then Some (DStr ''CURRENT_TIMESTAMP'') else norm)
      in \<lparr>cm_logicalType = lt, cm_nullable = co_nullable c, cm_primary = co_primary c, cm_generated = gen, cm_unique = unique,
          cm_length = len, cm_precision = prec, cm_scale = scal, cm_default = def, cm_enumValues = co_enumValues c, cm_array = co_array c\<rparr>)"


section \<open>The difference\<close>

(* models packages/database/src/schema/diff.ts:94-98 findExistingEntity *)
definition findExistingEntity :: "orm_schema \<Rightarrow> entity_schema \<Rightarrow> entity_schema option" where
  "findExistingEntity existing desired =
     List.find (\<lambda>e. en_tableName e = en_tableName desired \<or> Some (en_tableName e) = en_renamedFrom desired) (sc_entities existing)"

definition find_existing_column :: "entity_schema \<Rightarrow> column_schema \<Rightarrow> column_schema option" where
  "find_existing_column source c =
     List.find (\<lambda>x. co_columnName x = co_columnName c \<or> Some (co_columnName x) = co_renamedFrom c) (en_columns source)"

text \<open>A length that is absent is unlimited.\<close>

definition shorter :: "int option \<Rightarrow> int option \<Rightarrow> bool" where
  "shorter a b \<longleftrightarrow> (case (a, b) of (None, _) \<Rightarrow> False | (Some x, None) \<Rightarrow> True | (Some x, Some y) \<Rightarrow> x < y)"

definition destructive_alter :: "column_schema \<Rightarrow> column_schema \<Rightarrow> bool" where
  "destructive_alter before after \<longleftrightarrow> co_nullable before \<and> \<not> co_nullable after \<or> co_logicalType before \<noteq> co_logicalType after
     \<or> shorter (co_length after) (co_length before)"

text \<open>Each step yields its operations with a mark on the destructive ones.\<close>

definition column_operations :: "dialect option \<Rightarrow> entity_schema \<Rightarrow> entity_schema \<Rightarrow> column_schema \<Rightarrow> (schema_operation \<times> bool) list" where
  "column_operations d source target c = (case find_existing_column source c of
     None \<Rightarrow> [(AddColumn (en_tableName target) c, False)]
   | Some x \<Rightarrow>
      (if co_columnName x \<noteq> co_columnName c then [(RenameColumn (en_tableName target) (co_columnName x) (co_columnName c), False)] else [])
      @ (if comparableColumn x d (enforcesUnique (en_indexes source) x) \<noteq> comparableColumn c d (enforcesUnique (en_indexes target) c)
         then [(AlterColumn (en_tableName target) x c, destructive_alter x c)] else []))"

definition matched_columns :: "entity_schema \<Rightarrow> entity_schema \<Rightarrow> string list" where
  "matched_columns source target = concat (map (\<lambda>c. case find_existing_column source c of
     None \<Rightarrow> [] | Some x \<Rightarrow> [co_columnName x]) (en_columns target))"

definition drop_columns :: "entity_schema \<Rightarrow> entity_schema \<Rightarrow> (schema_operation \<times> bool) list" where
  "drop_columns source target = map (\<lambda>x. (DropColumn (en_tableName target) (co_columnName x), True))
     (filter (\<lambda>x. co_columnName x \<notin> set (matched_columns source target)) (en_columns source))"

definition index_map :: "index_schema list \<Rightarrow> (string \<times> index_schema) list" where
  "index_map ixs = fold (\<lambda>ix m. AList.update (ix_name ix) ix m) ixs []"

definition index_operations :: "entity_schema \<Rightarrow> entity_schema \<Rightarrow> (schema_operation \<times> bool) list" where
  "index_operations source target = (let desired = index_map (en_indexes target); existing = index_map (en_indexes source);
       table = en_tableName target in
     concat (map (\<lambda>(name, ix). (case map_of existing name of
         None \<Rightarrow> [(CreateIndex table ix, False)]
       | Some previous \<Rightarrow> if previous \<noteq> ix then [(DropIndex table name, False), (CreateIndex table ix, False)] else [])) desired)
     @ map (\<lambda>(name, ix). (DropIndex table name, False)) (filter (\<lambda>(name, ix). map_of desired name = None) existing))"

definition entity_operations :: "dialect option \<Rightarrow> entity_schema option \<Rightarrow> entity_schema \<Rightarrow> (schema_operation \<times> bool) list" where
  "entity_operations d found target = (case found of
     None \<Rightarrow> [(CreateTable target, False)]
   | Some source \<Rightarrow>
      (if en_tableName source \<noteq> en_tableName target then [(RenameTable (en_tableName source) (en_tableName target), False)] else [])
      @ concat (map (column_operations d source target) (en_columns target))
      @ drop_columns source target
      @ index_operations source target)"

definition join_names :: "entity_schema \<Rightarrow> string list" where
  "join_names e = map (\<lambda>(r, j). jt_name j) (owned_joins e)"

definition matched_tables :: "orm_schema \<Rightarrow> orm_schema \<Rightarrow> string list" where
  "matched_tables existing desired = concat (map join_names (sc_entities desired))
     @ concat (map (\<lambda>e. case findExistingEntity existing e of None \<Rightarrow> [] | Some x \<Rightarrow> [en_tableName x]) (sc_entities desired))"

definition drop_tables :: "orm_schema \<Rightarrow> orm_schema \<Rightarrow> (schema_operation \<times> bool) list" where
  "drop_tables existing desired = map (\<lambda>e. (DropTable (en_tableName e), True))
     (filter (\<lambda>e. en_tableName e \<notin> set (matched_tables existing desired)) (sc_entities existing))"

definition all_operations :: "orm_schema \<Rightarrow> orm_schema \<Rightarrow> (schema_operation \<times> bool) list" where
  "all_operations existing desired = (let d = (case sc_dialect existing of Some x \<Rightarrow> Some x | None \<Rightarrow> sc_dialect desired) in
     concat (map (\<lambda>e. entity_operations d (findExistingEntity existing e) e) (sc_entities desired))
     @ drop_tables existing desired)"

(* models packages/database/src/schema/diff.ts:208-220 describeOperation *)
definition describeOperation :: "schema_operation \<Rightarrow> string" where
  "describeOperation op = (case op of
     CreateTable e \<Rightarrow> ''create table '' @ en_tableName e
   | DropTable t \<Rightarrow> ''drop table '' @ t
   | RenameTable f t \<Rightarrow> ''rename table '' @ f @ '' to '' @ t
   | AddColumn t c \<Rightarrow> ''add '' @ t @ ''.'' @ co_columnName c
   | DropColumn t c \<Rightarrow> ''drop '' @ t @ ''.'' @ c
   | RenameColumn t f c \<Rightarrow> ''rename '' @ t @ ''.'' @ f @ '' to '' @ c
   | AlterColumn t b a \<Rightarrow> ''alter '' @ t @ ''.'' @ co_columnName a
   | CreateIndex t ix \<Rightarrow> ''create index '' @ ix_name ix
   | DropIndex t i \<Rightarrow> ''drop index '' @ i)"

(* models packages/database/src/schema/diff.ts:100-206 diffSchemas *)
definition diffSchemas :: "orm_schema \<Rightarrow> orm_schema \<Rightarrow> bool \<Rightarrow> orm_error + schema_diff" where
  "diffSchemas existing desired allowDestructive =
     (let marked = all_operations existing desired; operations = map fst marked; destructive = map fst (filter snd marked) in
      if destructive \<noteq> [] \<and> \<not> allowDestructive then Inl (DestructiveSchemaChangeError (map describeOperation destructive))
      else Inr \<lparr>sd_operations = operations, sd_destructive = destructive, sd_empty = (operations = [])\<rparr>)"


section \<open>The reverse\<close>

definition previousEntity :: "orm_schema \<Rightarrow> string \<Rightarrow> orm_error + entity_schema" where
  "previousEntity previous t = (case List.find (\<lambda>e. en_tableName e = t) (sc_entities previous) of
     Some e \<Rightarrow> Inr e | None \<Rightarrow> Inl (PlainError ''missing previous table''))"

definition reverse_operation :: "orm_schema \<Rightarrow> schema_operation \<Rightarrow> orm_error + schema_operation list" where
  "reverse_operation previous op = (case op of
     CreateTable e \<Rightarrow> Inr (map DropTable (join_names e) @ [DropTable (en_tableName e)])
   | DropTable t \<Rightarrow> bindr (previousEntity previous t) (\<lambda>e. Inr [CreateTable e])
   | RenameTable f t \<Rightarrow> Inr [RenameTable t f]
   | AddColumn t c \<Rightarrow> Inr [DropColumn t (co_columnName c)]
   | DropColumn t c \<Rightarrow> bindr (previousEntity previous t) (\<lambda>e. (case List.find (\<lambda>x. co_columnName x = c) (en_columns e) of
         Some x \<Rightarrow> Inr [AddColumn t x] | None \<Rightarrow> Inl (PlainError ''missing previous column'')))
   | RenameColumn t f c \<Rightarrow> Inr [RenameColumn t c f]
   | AlterColumn t b a \<Rightarrow> Inr [AlterColumn t a b]
   | CreateIndex t ix \<Rightarrow> Inr [DropIndex t (ix_name ix)]
   | DropIndex t i \<Rightarrow> bindr (previousEntity previous t) (\<lambda>e. (case List.find (\<lambda>x. ix_name x = i) (en_indexes e) of
         Some x \<Rightarrow> Inr [CreateIndex t x] | None \<Rightarrow> Inl (PlainError ''missing previous index''))))"

(* models packages/database/src/schema/diff.ts:222-296 reverseSchemaOperations *)
definition reverseSchemaOperations :: "schema_operation list \<Rightarrow> orm_schema \<Rightarrow> orm_error + schema_operation list" where
  "reverseSchemaOperations operations previous = bindr (mapr (reverse_operation previous) (rev operations)) (\<lambda>xs. Inr (concat xs))"

end
