(* ===== verification/Schema_Apply.thy ===== *)
theory Schema_Apply
  imports Schema_Diff
begin

text \<open>
  What a schema operation does to a database, as the abstract specification that the schema
  comparison is measured against: a database maps table names to tables, a table maps column and
  index names to their definitions. An operation fails where the databases reject it: a name that
  is taken or missing, an index over a missing column, a dropped column that an index still uses.
\<close>

section \<open>Databases\<close>

record table =
  ta_columns :: "string \<Rightarrow> column_schema option"
  ta_indexes :: "string \<Rightarrow> index_schema option"

type_synonym database = "string \<Rightarrow> table option"

definition columns_map :: "column_schema list \<Rightarrow> string \<Rightarrow> column_schema option" where
  "columns_map cs = map_of (map (\<lambda>c. (co_columnName c, c)) cs)"

definition indexes_map :: "index_schema list \<Rightarrow> string \<Rightarrow> index_schema option" where
  "indexes_map ixs = map_of (map (\<lambda>i. (ix_name i, i)) ixs)"

definition table_of :: "entity_schema \<Rightarrow> table" where
  "table_of e = \<lparr>ta_columns = columns_map (en_columns e), ta_indexes = indexes_map (en_indexes e)\<rparr>"

definition db_of :: "orm_schema \<Rightarrow> database" where
  "db_of s = map_of (map (\<lambda>e. (en_tableName e, table_of e)) (sc_entities s))"

definition plain_column :: "string \<Rightarrow> string \<Rightarrow> column_schema" where
  "plain_column name t = \<lparr>co_propertyName = name, co_columnName = name, co_logicalType = t, co_databaseType = None, co_nullable = False,
     co_primary = False, co_generated = NotGenerated, co_unique = False, co_length = None, co_precision = None, co_scale = None,
     co_default = None, co_enumValues = None, co_array = None, co_renamedFrom = None, co_insert = True, co_update = True,
     co_select = True, co_createDate = None, co_updateDate = None, co_deleteDate = None, co_version = None\<rparr>"

definition join_table_of :: "join_table \<Rightarrow> table" where
  "join_table_of j = \<lparr>ta_columns = columns_map [plain_column (jt_joinColumn j) (jt_referencedLogicalType j),
     plain_column (jt_inverseJoinColumn j) (jt_inverseReferencedLogicalType j)], ta_indexes = (\<lambda>_. None)\<rparr>"

definition entity_ok :: "entity_schema \<Rightarrow> bool" where
  "entity_ok e \<longleftrightarrow> distinct (map co_columnName (en_columns e)) \<and> distinct (map ix_name (en_indexes e)) \<and>
     list_all (\<lambda>ix. set (ix_columns ix) \<subseteq> set (map co_columnName (en_columns e))) (en_indexes e)"


section \<open>Operations\<close>

definition create_index :: "index_schema \<Rightarrow> table \<Rightarrow> table option" where
  "create_index ix t = (if ta_indexes t (ix_name ix) \<noteq> None \<or> list_ex (\<lambda>c. ta_columns t c = None) (ix_columns ix) then None
     else Some (t\<lparr>ta_indexes := (ta_indexes t)(ix_name ix := Some ix)\<rparr>))"

definition drop_index :: "string \<Rightarrow> table \<Rightarrow> table option" where
  "drop_index i t = (if ta_indexes t i = None then None else Some (t\<lparr>ta_indexes := (ta_indexes t)(i := None)\<rparr>))"

definition add_column :: "column_schema \<Rightarrow> table \<Rightarrow> table option" where
  "add_column c t = (if ta_columns t (co_columnName c) \<noteq> None then None
     else Some (t\<lparr>ta_columns := (ta_columns t)(co_columnName c := Some c)\<rparr>))"

definition uses_column :: "string \<Rightarrow> table \<Rightarrow> bool" where
  "uses_column c t \<longleftrightarrow> (\<exists>i ix. ta_indexes t i = Some ix \<and> c \<in> set (ix_columns ix))"

definition drop_column :: "string \<Rightarrow> table \<Rightarrow> table option" where
  "drop_column c t = (if ta_columns t c = None \<or> uses_column c t then None
     else Some (t\<lparr>ta_columns := (ta_columns t)(c := None)\<rparr>))"

definition rename_in_index :: "string \<Rightarrow> string \<Rightarrow> index_schema \<Rightarrow> index_schema" where
  "rename_in_index f c ix = ix\<lparr>ix_columns := map (\<lambda>z. if z = f then c else z) (ix_columns ix)\<rparr>"

definition rename_column :: "string \<Rightarrow> string \<Rightarrow> table \<Rightarrow> table option" where
  "rename_column f c t = (if ta_columns t f = None \<or> ta_columns t c \<noteq> None then None
     else Some (t\<lparr>ta_columns := (ta_columns t)(f := None, c := ta_columns t f),
       ta_indexes := (\<lambda>i. map_option (rename_in_index f c) (ta_indexes t i))\<rparr>))"

definition alter_column :: "column_schema \<Rightarrow> table \<Rightarrow> table option" where
  "alter_column after t = (if ta_columns t (co_columnName after) = None then None
     else Some (t\<lparr>ta_columns := (ta_columns t)(co_columnName after := Some after)\<rparr>))"

definition create_table :: "entity_schema \<Rightarrow> database \<Rightarrow> database option" where
  "create_table e db = (if \<not> entity_ok e \<or> \<not> distinct (en_tableName e # join_names e)
       \<or> list_ex (\<lambda>n. db n \<noteq> None) (en_tableName e # join_names e) then None
     else Some ((db ++ map_of (map (\<lambda>(r, j). (jt_name j, join_table_of j)) (owned_joins e)))(en_tableName e := Some (table_of e))))"

definition on_table :: "string \<Rightarrow> (table \<Rightarrow> table option) \<Rightarrow> database \<Rightarrow> database option" where
  "on_table n f db = (case db n of None \<Rightarrow> None | Some t \<Rightarrow> map_option (\<lambda>t'. db(n := Some t')) (f t))"

definition apply_op :: "schema_operation \<Rightarrow> database \<Rightarrow> database option" where
  "apply_op op db = (case op of
     CreateTable e \<Rightarrow> create_table e db
   | DropTable n \<Rightarrow> if db n = None then None else Some (db(n := None))
   | RenameTable f n \<Rightarrow> if db f = None \<or> db n \<noteq> None then None else Some (db(f := None, n := db f))
   | AddColumn n c \<Rightarrow> on_table n (add_column c) db
   | DropColumn n c \<Rightarrow> on_table n (drop_column c) db
   | RenameColumn n f c \<Rightarrow> on_table n (rename_column f c) db
   | AlterColumn n b a \<Rightarrow> on_table n (alter_column a) db
   | CreateIndex n ix \<Rightarrow> on_table n (create_index ix) db
   | DropIndex n i \<Rightarrow> on_table n (drop_index i) db)"

fun apply_all :: "schema_operation list \<Rightarrow> database \<Rightarrow> database option" where
  "apply_all [] db = Some db"
| "apply_all (op # ops) db = Option.bind (apply_op op db) (apply_all ops)"

lemma apply_all_append: "apply_all (xs @ ys) db = Option.bind (apply_all xs db) (apply_all ys)"
  by (induction xs arbitrary: db) (auto split: bind_splits)

lemma apply_all_step: "apply_op op db = Some db' \<Longrightarrow> apply_all ops db' = Some db'' \<Longrightarrow> apply_all (op # ops) db = Some db''"
  by simp

text \<open>Operations on one table.\<close>

definition table_step :: "schema_operation \<Rightarrow> table \<Rightarrow> table option" where
  "table_step op t = (case op of AddColumn n c \<Rightarrow> add_column c t | DropColumn n c \<Rightarrow> drop_column c t
     | RenameColumn n f c \<Rightarrow> rename_column f c t | AlterColumn n b a \<Rightarrow> alter_column a t
     | CreateIndex n ix \<Rightarrow> create_index ix t | DropIndex n i \<Rightarrow> drop_index i t | _ \<Rightarrow> None)"

definition within :: "string \<Rightarrow> schema_operation \<Rightarrow> bool" where
  "within n op \<longleftrightarrow> (case op of AddColumn m c \<Rightarrow> m = n | DropColumn m c \<Rightarrow> m = n | RenameColumn m f c \<Rightarrow> m = n
     | AlterColumn m b a \<Rightarrow> m = n | CreateIndex m ix \<Rightarrow> m = n | DropIndex m i \<Rightarrow> m = n | _ \<Rightarrow> False)"

fun table_steps :: "schema_operation list \<Rightarrow> table \<Rightarrow> table option" where
  "table_steps [] t = Some t"
| "table_steps (op # ops) t = Option.bind (table_step op t) (table_steps ops)"

lemma table_steps_append: "table_steps (xs @ ys) t = Option.bind (table_steps xs t) (table_steps ys)"
  by (induction xs arbitrary: t) (auto split: bind_splits)

lemma apply_within: "within n op \<Longrightarrow> apply_op op db = on_table n (table_step op) db"
  by (cases op) (simp_all add: within_def apply_op_def table_step_def [abs_def] on_table_def)

lemma apply_all_within:
  assumes "\<And>op. op \<in> set ops \<Longrightarrow> within n op" and "db n = Some t" and "table_steps ops t = Some t'"
  shows "apply_all ops db = Some (db(n := Some t'))"
  using assms
proof (induction ops arbitrary: db t)
  case Nil
  then show ?case by (simp add: fun_upd_idem)
next
  case (Cons op ops)
  obtain t1 where t1: "table_step op t = Some t1" "table_steps ops t1 = Some t'"
    using Cons.prems(3) by (auto split: bind_splits)
  have "within n op" using Cons.prems(1) by simp
  then have "apply_op op db = Some (db(n := Some t1))" using Cons.prems(2) t1(1) by (simp add: apply_within on_table_def)
  moreover have "apply_all ops (db(n := Some t1)) = Some ((db(n := Some t1))(n := Some t'))"
    by (rule Cons.IH) (use Cons.prems(1) t1(2) in simp_all)
  ultimately show ?case by (auto simp: fun_eq_iff)
qed

end
