(* ===== verification/Schema_Diff_Facts.thy ===== *)
theory Schema_Diff_Facts
  imports Schema_Apply
begin

text \<open>
  The schema comparison is correct: the operations it emits take the existing database to the
  desired one. The conditions under which that holds are spelled out; where the code runs into
  trouble outside them, the last section says so.
\<close>

section \<open>Conditions\<close>

text \<open>Rename hints over the existing names \<open>E\<close>: a hint that names an existing thing other than its
  owner names nothing the desired schema declares, its owner is new, and no other hint names it.\<close>

definition hints_ok :: "string list \<Rightarrow> (string \<times> string option) list \<Rightarrow> bool" where
  "hints_ok E ds \<longleftrightarrow> distinct (map fst ds) \<and>
     (\<forall>(n, h) \<in> set ds. case h of None \<Rightarrow> True | Some old \<Rightarrow> old \<in> set E \<and> old \<noteq> n \<longrightarrow>
        n \<notin> set E \<and> old \<notin> fst ` set ds \<and> (\<forall>(n', h') \<in> set ds. h' = Some old \<longrightarrow> n' = n))"

definition entity_diffable :: "entity_schema \<Rightarrow> entity_schema \<Rightarrow> bool" where
  "entity_diffable source target \<longleftrightarrow> entity_ok source \<and> entity_ok target \<and>
     hints_ok (map co_columnName (en_columns source)) (map (\<lambda>c. (co_columnName c, co_renamedFrom c)) (en_columns target)) \<and>
     (\<forall>ix \<in> set (en_indexes source). \<forall>z \<in> set (ix_columns ix). z \<in> set (matched_columns source target)) \<and>
     (\<forall>c \<in> set (en_columns target). case find_existing_column source c of None \<Rightarrow> True | Some x \<Rightarrow> co_unique c \<longrightarrow>
        co_unique x \<or> (\<exists>ix \<in> set (en_indexes target). ix_unique ix \<and> ix_columns ix = [co_columnName c]))"

lemma hints_okD: "hints_ok E ds \<Longrightarrow> (n, Some old) \<in> set ds \<Longrightarrow> old \<in> set E \<Longrightarrow> old \<noteq> n \<Longrightarrow>
    n \<notin> set E \<and> old \<notin> fst ` set ds \<and> (\<forall>(n', h') \<in> set ds. h' = Some old \<longrightarrow> n' = n)"
  unfolding hints_ok_def by (drule conjunct2, drule bspec, assumption) simp

lemma entity_unique: "entity_diffable source target \<Longrightarrow> c \<in> set (en_columns target) \<Longrightarrow> find_existing_column source c = Some x \<Longrightarrow>
    co_unique c \<Longrightarrow> co_unique x \<or> (\<exists>ix \<in> set (en_indexes target). ix_unique ix \<and> ix_columns ix = [co_columnName c])"
  unfolding entity_diffable_def by (elim conjE, drule bspec, assumption) simp

lemma find_by_hint:
  assumes "List.find (\<lambda>x. nm x = n \<or> Some (nm x) = h) xs = Some x" and "hints_ok (map nm xs) ds" and "(n, h) \<in> set ds"
  shows "x \<in> set xs \<and> (nm x = n \<or> h = Some (nm x) \<and> nm x \<noteq> n \<and> n \<notin> set (map nm xs) \<and> nm x \<notin> fst ` set ds
    \<and> (\<forall>(n', h') \<in> set ds. h' = Some (nm x) \<longrightarrow> n' = n))"
proof -
  have x: "x \<in> set xs" "nm x = n \<or> Some (nm x) = h" using find_Some_iff2 [OF assms(1)] by auto
  show ?thesis
  proof (cases "nm x = n")
    case False
    then have h: "h = Some (nm x)" using x(2) by auto
    moreover have "nm x \<in> set (map nm xs)" using x(1) by simp
    ultimately have "n \<notin> set (map nm xs) \<and> nm x \<notin> fst ` set ds \<and> (\<forall>(n', h') \<in> set ds. h' = Some (nm x) \<longrightarrow> n' = n)"
      using hints_okD [OF assms(2), of n "nm x"] assms(3) False h by blast
    then show ?thesis using x h False by blast
  qed (use x in simp)
qed

lemma find_none_hint: "List.find (\<lambda>x. nm x = n \<or> Some (nm x) = h) xs = None \<Longrightarrow> n \<notin> set (map nm xs)"
  by (auto simp: find_None_iff)

lemma map_of_names:
  assumes "distinct (map nm xs)"
  shows "map_of (map (\<lambda>x. (nm x, x)) xs) n = List.find (\<lambda>x. nm x = n) xs"
  using assms by (induction xs) auto

lemma columns_map_find: "distinct (map co_columnName cs) \<Longrightarrow> columns_map cs n = List.find (\<lambda>c. co_columnName c = n) cs"
  unfolding columns_map_def by (rule map_of_names)

lemma columns_map_Some: "distinct (map co_columnName cs) \<Longrightarrow> columns_map cs n = Some c \<longleftrightarrow> c \<in> set cs \<and> co_columnName c = n"
  unfolding columns_map_def by (subst map_of_eq_Some_iff) (auto simp: o_def)

lemma columns_map_None: "columns_map cs n = None \<longleftrightarrow> n \<notin> co_columnName ` set cs"
  unfolding columns_map_def by (auto simp: map_of_eq_None_iff image_image)

lemma indexes_map_Some: "distinct (map ix_name cs) \<Longrightarrow> indexes_map cs n = Some c \<longleftrightarrow> c \<in> set cs \<and> ix_name c = n"
  unfolding indexes_map_def by (subst map_of_eq_Some_iff) (auto simp: o_def)

lemma indexes_map_None: "indexes_map cs n = None \<longleftrightarrow> n \<notin> ix_name ` set cs"
  unfolding indexes_map_def by (auto simp: map_of_eq_None_iff image_image)

lemma index_map_list: "distinct (map ix_name ixs) \<Longrightarrow> index_map ixs = map (\<lambda>i. (ix_name i, i)) ixs"
proof -
  have "distinct (map ix_name ixs) \<Longrightarrow> set (map ix_name ixs) \<inter> fst ` set m = {} \<Longrightarrow>
      fold (\<lambda>ix m. AList.update (ix_name ix) ix m) ixs m = m @ map (\<lambda>i. (ix_name i, i)) ixs" for m
    by (induction ixs arbitrary: m) (auto simp: update_new)
  from this [of "[]"] show "distinct (map ix_name ixs) \<Longrightarrow> ?thesis" by (simp add: index_map_def)
qed


section \<open>The columns\<close>

text \<open>What a desired column ends as.\<close>

definition final_column :: "dialect option \<Rightarrow> entity_schema \<Rightarrow> entity_schema \<Rightarrow> column_schema \<Rightarrow> column_schema" where
  "final_column d source target c = (case find_existing_column source c of None \<Rightarrow> c
     | Some x \<Rightarrow> if comparableColumn x d (enforcesUnique (en_indexes source) x)
         \<noteq> comparableColumn c d (enforcesUnique (en_indexes target) c) then c else x)"

text \<open>The columns once the desired columns \<open>pre\<close> have been treated.\<close>

definition matched_by :: "entity_schema \<Rightarrow> column_schema list \<Rightarrow> string set" where
  "matched_by source pre = {co_columnName x | x c. c \<in> set pre \<and> find_existing_column source c = Some x}"

definition columns_after :: "dialect option \<Rightarrow> entity_schema \<Rightarrow> entity_schema \<Rightarrow> column_schema list \<Rightarrow> string \<Rightarrow> column_schema option" where
  "columns_after d source target pre n = (case columns_map pre n of Some c \<Rightarrow> Some (final_column d source target c)
     | None \<Rightarrow> if n \<in> matched_by source pre then None else columns_map (en_columns source) n)"

definition indexes_after :: "entity_schema \<Rightarrow> entity_schema \<Rightarrow> (string \<Rightarrow> index_schema option) \<Rightarrow> bool" where
  "indexes_after source target I \<longleftrightarrow> (\<forall>n. I n = None \<longleftrightarrow> indexes_map (en_indexes source) n = None) \<and>
     (\<forall>n ix ix'. indexes_map (en_indexes source) n = Some ix \<and> I n = Some ix' \<longrightarrow>
        set (ix_columns ix') \<subseteq> set (ix_columns ix) \<union> co_columnName ` set (en_columns target) \<and>
        (set (ix_columns ix) \<subseteq> co_columnName ` set (en_columns target) \<longrightarrow> ix' = ix))"


lemma columns_map_snoc:
  assumes "co_columnName c \<notin> co_columnName ` set pre"
  shows "columns_map (pre @ [c]) n = (if n = co_columnName c then Some c else columns_map pre n)"
  using assms by (induction pre) (auto simp: columns_map_def)

lemma matched_by_snoc: "matched_by source (pre @ [c]) = matched_by source pre \<union> (case find_existing_column source c of None \<Rightarrow> {} | Some x \<Rightarrow> {co_columnName x})"
  by (auto simp: matched_by_def split: option.split)

lemma rename_in_index_idle: "f \<notin> set (ix_columns ix) \<Longrightarrow> rename_in_index f c ix = ix"
proof -
  assume "f \<notin> set (ix_columns ix)"
  then have "map (\<lambda>z. if z = f then c else z) (ix_columns ix) = ix_columns ix" by (intro map_idI) auto
  then show ?thesis by (simp add: rename_in_index_def)
qed

lemma indexes_after_rename:
  assumes "indexes_after source target I" and "f \<notin> co_columnName ` set (en_columns target)" and "c \<in> co_columnName ` set (en_columns target)"
  shows "indexes_after source target (\<lambda>i. map_option (rename_in_index f c) (I i))"
  unfolding indexes_after_def
proof (intro conjI allI impI)
  show "map_option (rename_in_index f c) (I n) = None \<longleftrightarrow> indexes_map (en_indexes source) n = None" for n
    using assms(1) by (simp add: indexes_after_def)
  fix n ix ix'
  assume "indexes_map (en_indexes source) n = Some ix \<and> map_option (rename_in_index f c) (I n) = Some ix'"
  then obtain ix0 where ix0: "indexes_map (en_indexes source) n = Some ix" "I n = Some ix0" "ix' = rename_in_index f c ix0" by auto
  then have sub: "set (ix_columns ix0) \<subseteq> set (ix_columns ix) \<union> co_columnName ` set (en_columns target)"
    and keep: "set (ix_columns ix) \<subseteq> co_columnName ` set (en_columns target) \<Longrightarrow> ix0 = ix"
    using assms(1) by (auto simp: indexes_after_def)
  show "set (ix_columns ix') \<subseteq> set (ix_columns ix) \<union> co_columnName ` set (en_columns target)"
    using sub assms(3) by (auto simp: ix0(3) rename_in_index_def)
  assume all: "set (ix_columns ix) \<subseteq> co_columnName ` set (en_columns target)"
  then have "f \<notin> set (ix_columns ix)" using assms(2) by blast
  then show "ix' = ix" using keep [OF all] rename_in_index_idle by (simp add: ix0(3))
qed

lemma names_distinct:
  assumes ok: "entity_diffable source target"
  shows "distinct (map co_columnName (en_columns source))" "distinct (map co_columnName (en_columns target))"
  "distinct (map ix_name (en_indexes source))" "distinct (map ix_name (en_indexes target))"
  using ok by (auto simp: entity_diffable_def entity_ok_def)

lemma found:
  assumes ok: "entity_diffable source target" and "c \<in> set (en_columns target)" and "find_existing_column source c = Some x"
  shows "x \<in> set (en_columns source)" "co_columnName x = co_columnName c \<or>
    (co_renamedFrom c = Some (co_columnName x) \<and> co_columnName x \<noteq> co_columnName c \<and> co_columnName c \<notin> co_columnName ` set (en_columns source)
     \<and> co_columnName x \<notin> co_columnName ` set (en_columns target) \<and>
     (\<forall>c' \<in> set (en_columns target). co_renamedFrom c' = Some (co_columnName x) \<longrightarrow> co_columnName c' = co_columnName c))"
proof -
  have "hints_ok (map co_columnName (en_columns source)) (map (\<lambda>c. (co_columnName c, co_renamedFrom c)) (en_columns target))"
    using ok by (simp add: entity_diffable_def)
  from find_by_hint [OF assms(3) [unfolded find_existing_column_def] this, of] assms(2)
  show "x \<in> set (en_columns source)" "co_columnName x = co_columnName c \<or>
    (co_renamedFrom c = Some (co_columnName x) \<and> co_columnName x \<noteq> co_columnName c \<and> co_columnName c \<notin> co_columnName ` set (en_columns source)
     \<and> co_columnName x \<notin> co_columnName ` set (en_columns target) \<and>
     (\<forall>c' \<in> set (en_columns target). co_renamedFrom c' = Some (co_columnName x) \<longrightarrow> co_columnName c' = co_columnName c))"
    by (auto simp: image_image)
qed

lemma matched_once:
  assumes ok: "entity_diffable source target" and "c \<in> set (en_columns target)" and "c' \<in> set (en_columns target)" and "co_columnName c \<noteq> co_columnName c'"
    and "find_existing_column source c = Some x" and "find_existing_column source c' = Some x'"
  shows "co_columnName x \<noteq> co_columnName x'"
proof
  assume eq: "co_columnName x = co_columnName x'"
  have mem: "co_columnName c \<in> co_columnName ` set (en_columns target)" "co_columnName c' \<in> co_columnName ` set (en_columns target)"
    using assms(2,3) by simp_all
  show False using found(2) [OF ok assms(2,5)] found(2) [OF ok assms(3,6)] eq assms(3,4) mem by metis
qed

lemma column_step:
  assumes ok: "entity_diffable source target" and split: "en_columns target = pre @ c # suf"
    and cols: "ta_columns t = columns_after d source target pre" and idx: "indexes_after source target (ta_indexes t)"
  shows "\<exists>t'. table_steps (map fst (column_operations d source target c)) t = Some t' \<and>
    ta_columns t' = columns_after d source target (pre @ [c]) \<and> indexes_after source target (ta_indexes t')"
proof -
  have c: "c \<in> set (en_columns target)" using split by simp
  have new: "co_columnName c \<notin> co_columnName ` set pre" using names_distinct(2) [OF ok] split by auto
  have pre_none: "columns_map pre (co_columnName c) = None" using new by (simp add: columns_map_None)
  have pre_sub: "co_columnName ` set pre \<subseteq> co_columnName ` set (en_columns target)" using split by auto
  note after = columns_map_snoc [OF new] matched_by_snoc
  show ?thesis
  proof (cases "find_existing_column source c")
    case None
    then have "co_columnName c \<notin> co_columnName ` set (en_columns source)"
      using find_none_hint [of co_columnName "co_columnName c"] by (auto simp: find_existing_column_def)
    then have "ta_columns t (co_columnName c) = None"
      by (simp add: cols columns_after_def pre_none columns_map_None)
    then have "table_steps (map fst (column_operations d source target c)) t = Some (t\<lparr>ta_columns := (ta_columns t)(co_columnName c := Some c)\<rparr>)"
      using None by (simp add: column_operations_def table_step_def add_column_def)
    moreover have "(ta_columns t)(co_columnName c := Some c) = columns_after d source target (pre @ [c])"
      by (rule ext) (simp add: cols columns_after_def after None final_column_def)
    ultimately show ?thesis using idx by auto
  next
    case (Some x)
    note x = found [OF ok c Some]
    have nd: "co_columnName x \<notin> co_columnName ` set pre" using x(2) new pre_sub by auto
    have pn: "columns_map pre (co_columnName x) = None" using nd by (simp add: columns_map_None)
    have "co_columnName x \<notin> matched_by source pre"
    proof
      assume "co_columnName x \<in> matched_by source pre"
      then obtain c' x' where c': "c' \<in> set pre" "find_existing_column source c' = Some x'" "co_columnName x = co_columnName x'"
        by (auto simp: matched_by_def)
      have "co_columnName c \<noteq> co_columnName c'" using c'(1) new by (metis image_eqI)
      then show False using matched_once [OF ok c _ _ Some c'(2)] c'(1,3) split by auto
    qed
    then have have_x: "ta_columns t (co_columnName x) = Some x"
      using pn x(1) names_distinct(1) [OF ok] by (simp add: cols columns_after_def columns_map_Some)
    have res: "columns_after d source target (pre @ [c]) = (ta_columns t)(co_columnName x := None, co_columnName c := Some (final_column d source target c))"
      by (rule ext) (use pn in \<open>auto simp: cols columns_after_def after Some split: option.split\<close>)
    let ?ren = "if co_columnName x \<noteq> co_columnName c then [RenameColumn (en_tableName target) (co_columnName x) (co_columnName c)] else []"
    let ?differ = "comparableColumn x d (enforcesUnique (en_indexes source) x) \<noteq> comparableColumn c d (enforcesUnique (en_indexes target) c)"
    have ops: "map fst (column_operations d source target c) = ?ren @ (if ?differ then [AlterColumn (en_tableName target) x c] else [])"
      by (simp add: column_operations_def Some)
    obtain t1 where t1: "table_steps ?ren t = Some t1"
        "ta_columns t1 = (ta_columns t)(co_columnName x := None, co_columnName c := Some x)" "indexes_after source target (ta_indexes t1)"
    proof (cases "co_columnName x = co_columnName c")
      case True
      then show ?thesis using that [of t] idx have_x by (simp add: fun_upd_idem)
    next
      case False
      have "co_columnName c \<notin> co_columnName ` set (en_columns source)" using x(2) False by blast
      then have "ta_columns t (co_columnName c) = None" by (simp add: cols columns_after_def pre_none columns_map_None)
      moreover have "indexes_after source target (\<lambda>i. map_option (rename_in_index (co_columnName x) (co_columnName c)) (ta_indexes t i))"
      proof (rule indexes_after_rename [OF idx])
        show "co_columnName x \<notin> co_columnName ` set (en_columns target)" using x(2) False by blast
        show "co_columnName c \<in> co_columnName ` set (en_columns target)" using c by simp
      qed
      moreover have "table_steps ?ren t = rename_column (co_columnName x) (co_columnName c) t"
        using False by (simp add: table_step_def split: bind_split)
      ultimately show ?thesis
        using that [of "the (rename_column (co_columnName x) (co_columnName c) t)"] have_x
        by (simp add: rename_column_def)
    qed
    have "final_column d source target c = (if ?differ then c else x)" by (simp add: final_column_def Some)
    then have fin: "columns_after d source target (pre @ [c]) = (ta_columns t1)(co_columnName c := Some (if ?differ then c else x))"
      by (simp only: res t1(2) fun_upd_upd)
    show ?thesis
    proof (cases ?differ)
      case True
      have "alter_column c t1 = Some (t1\<lparr>ta_columns := (ta_columns t1)(co_columnName c := Some c)\<rparr>)"
        by (simp add: alter_column_def t1(2))
      then have "table_steps (map fst (column_operations d source target c)) t = Some (t1\<lparr>ta_columns := (ta_columns t1)(co_columnName c := Some c)\<rparr>)"
        using True by (simp add: ops table_steps_append t1(1) table_step_def)
      then show ?thesis using fin True t1(3) by auto
    next
      case False
      have "columns_after d source target (pre @ [c]) = ta_columns t1"
        using fin False by (simp only: if_False t1(2) fun_upd_upd)
      moreover have "table_steps (map fst (column_operations d source target c)) t = Some t1"
        using False by (simp add: ops table_steps_append t1(1))
      ultimately show ?thesis using t1(3) by auto
    qed
  qed
qed

lemma columns_phase:
  assumes ok: "entity_diffable source target" and "en_columns target = pre @ suf"
    and "ta_columns t = columns_after d source target pre" and "indexes_after source target (ta_indexes t)"
  shows "\<exists>t'. table_steps (map fst (concat (map (column_operations d source target) suf))) t = Some t' \<and>
    ta_columns t' = columns_after d source target (en_columns target) \<and> indexes_after source target (ta_indexes t')"
  using assms(2-)
proof (induction suf arbitrary: pre t)
  case (Cons c suf)
  obtain t1 where t1: "table_steps (map fst (column_operations d source target c)) t = Some t1"
      "ta_columns t1 = columns_after d source target (pre @ [c])" "indexes_after source target (ta_indexes t1)"
    using column_step [OF ok Cons.prems] by blast
  from Cons.IH [of "pre @ [c]" t1] Cons.prems(1) t1 show ?case by (simp add: table_steps_append)
qed simp


lemma drop_steps:
  assumes "distinct xs" and "\<And>x. x \<in> set xs \<Longrightarrow> ta_columns t x \<noteq> None \<and> \<not> uses_column x t"
  shows "table_steps (map (DropColumn n) xs) t = Some (t\<lparr>ta_columns := (\<lambda>c. if c \<in> set xs then None else ta_columns t c)\<rparr>)"
  using assms
proof (induction xs arbitrary: t)
  case (Cons x xs)
  let ?t = "t\<lparr>ta_columns := (ta_columns t)(x := None)\<rparr>"
  have "drop_column x t = Some ?t" using Cons.prems(2) [of x] by (auto simp: drop_column_def)
  moreover have "table_steps (map (DropColumn n) xs) ?t = Some (?t\<lparr>ta_columns := (\<lambda>c. if c \<in> set xs then None else ta_columns ?t c)\<rparr>)"
  proof (rule Cons.IH)
    show "distinct xs" using Cons.prems(1) by simp
    show "ta_columns ?t y \<noteq> None \<and> \<not> uses_column y ?t" if "y \<in> set xs" for y
      using Cons.prems(2) [of y] that Cons.prems(1) by (auto simp: uses_column_def)
  qed
  moreover have "(\<lambda>c. if c \<in> set xs then None else ta_columns ?t c) = (\<lambda>c. if c \<in> set (x # xs) then None else ta_columns t c)"
    by (rule ext) simp
  ultimately show ?case by (simp add: table_step_def)
qed simp

lemma drop_index_steps:
  assumes "distinct xs" and "\<And>x. x \<in> set xs \<Longrightarrow> ta_indexes t x \<noteq> None"
  shows "table_steps (map (DropIndex n) xs) t = Some (t\<lparr>ta_indexes := (\<lambda>c. if c \<in> set xs then None else ta_indexes t c)\<rparr>)"
  using assms
proof (induction xs arbitrary: t)
  case (Cons x xs)
  let ?t = "t\<lparr>ta_indexes := (ta_indexes t)(x := None)\<rparr>"
  have "drop_index x t = Some ?t" using Cons.prems(2) [of x] by (auto simp: drop_index_def)
  moreover have "table_steps (map (DropIndex n) xs) ?t = Some (?t\<lparr>ta_indexes := (\<lambda>c. if c \<in> set xs then None else ta_indexes ?t c)\<rparr>)"
    by (rule Cons.IH) (use Cons.prems in auto)
  moreover have "(\<lambda>c. if c \<in> set xs then None else ta_indexes ?t c) = (\<lambda>c. if c \<in> set (x # xs) then None else ta_indexes t c)"
    by (rule ext) simp
  ultimately show ?case by (simp add: table_step_def)
qed simp

lemma matched_set: "set (matched_columns source target) = matched_by source (en_columns target)"
  by (auto simp: matched_columns_def matched_by_def split: option.splits) force

text \<open>An existing column with a desired name is matched.\<close>

lemma same_name_matched:
  assumes ok: "entity_diffable source target" and "c \<in> set (en_columns target)" and "co_columnName c \<in> co_columnName ` set (en_columns source)"
  shows "co_columnName c \<in> matched_by source (en_columns target)"
proof -
  obtain x where x: "find_existing_column source c = Some x"
    using find_none_hint [of co_columnName "co_columnName c" "co_renamedFrom c" "en_columns source"] assms(3)
    by (cases "find_existing_column source c") (auto simp: find_existing_column_def)
  have "co_columnName x = co_columnName c" using found(2) [OF ok assms(2) x] assms(3) by blast
  moreover have "co_columnName x \<in> matched_by source (en_columns target)" using x assms(2) by (auto simp: matched_by_def)
  ultimately show ?thesis by simp
qed

definition desired_columns :: "dialect option \<Rightarrow> entity_schema \<Rightarrow> entity_schema \<Rightarrow> string \<Rightarrow> column_schema option" where
  "desired_columns d source target n = map_option (final_column d source target) (columns_map (en_columns target) n)"

lemma drop_phase:
  assumes ok: "entity_diffable source target" and cols: "ta_columns t = columns_after d source target (en_columns target)"
    and idx: "indexes_after source target (ta_indexes t)"
  shows "table_steps (map fst (drop_columns source target)) t = Some (t\<lparr>ta_columns := desired_columns d source target\<rparr>)"
proof -
  let ?drop = "filter (\<lambda>x. co_columnName x \<notin> set (matched_columns source target)) (en_columns source)"
  let ?names = "map co_columnName ?drop"
  have ops: "map fst (drop_columns source target) = map (DropColumn (en_tableName target)) ?names"
    by (simp add: drop_columns_def o_def)
  have not_desired: "z \<notin> co_columnName ` set (en_columns target)" if "z \<in> set ?names" for z
  proof
    assume "z \<in> co_columnName ` set (en_columns target)"
    then obtain c where c: "c \<in> set (en_columns target)" "z = co_columnName c" by blast
    have "z \<in> co_columnName ` set (en_columns source)" "z \<notin> matched_by source (en_columns target)"
      using that by (auto simp: matched_set)
    then show False using same_name_matched [OF ok c(1)] c(2) by simp
  qed
  have pre: "ta_columns t z \<noteq> None \<and> \<not> uses_column z t" if z: "z \<in> set ?names" for z
  proof
    have "columns_map (en_columns target) z = None" using not_desired [OF z] by (simp add: columns_map_None)
    moreover have "columns_map (en_columns source) z \<noteq> None" using z by (auto simp: columns_map_None)
    ultimately show "ta_columns t z \<noteq> None" using z by (auto simp: cols columns_after_def matched_set)
    show "\<not> uses_column z t"
    proof
      assume "uses_column z t"
      then obtain i ix' where i: "ta_indexes t i = Some ix'" "z \<in> set (ix_columns ix')" by (auto simp: uses_column_def)
      have "ta_indexes t i = None \<longleftrightarrow> indexes_map (en_indexes source) i = None" using idx unfolding indexes_after_def by blast
      then obtain ix where ix: "indexes_map (en_indexes source) i = Some ix" using i(1) by auto
      then have "ix \<in> set (en_indexes source)" using names_distinct(3) [OF ok] indexes_map_Some by blast
      then have "set (ix_columns ix) \<subseteq> set (matched_columns source target)" using ok by (auto simp: entity_diffable_def)
      moreover have "set (ix_columns ix') \<subseteq> set (ix_columns ix) \<union> co_columnName ` set (en_columns target)"
        using idx ix i(1) by (auto simp: indexes_after_def)
      ultimately show False using i(2) z not_desired [OF z] by auto
    qed
  qed
  have "distinct ?names" using names_distinct(1) [OF ok] by (simp add: distinct_map_filter)
  note drop_steps [OF this pre, of "en_tableName target"]
  moreover have "(if n \<in> set ?names then None else ta_columns t n) = desired_columns d source target n" for n
  proof (cases "columns_map (en_columns target) n")
    case None
    have "columns_map (en_columns source) n = None" if "n \<notin> set ?names" "n \<notin> matched_by source (en_columns target)"
      using that by (auto simp: columns_map_None matched_set)
    then show ?thesis using None by (auto simp: desired_columns_def cols columns_after_def)
  next
    case (Some c)
    then have "n \<notin> set ?names" using not_desired columns_map_None [of "en_columns target" n] by auto
    then show ?thesis using Some by (simp add: desired_columns_def cols columns_after_def)
  qed
  ultimately show ?thesis unfolding ops by presburger
qed



section \<open>The indexes\<close>

definition indexes_so_far :: "(string \<Rightarrow> index_schema option) \<Rightarrow> index_schema list \<Rightarrow> string \<Rightarrow> index_schema option" where
  "indexes_so_far I pre n = (case indexes_map pre n of Some ix \<Rightarrow> Some ix | None \<Rightarrow> I n)"

definition index_step :: "entity_schema \<Rightarrow> entity_schema \<Rightarrow> index_schema \<Rightarrow> schema_operation list" where
  "index_step source target ix = (case indexes_map (en_indexes source) (ix_name ix) of
     None \<Rightarrow> [CreateIndex (en_tableName target) ix]
   | Some previous \<Rightarrow> if previous \<noteq> ix then [DropIndex (en_tableName target) (ix_name ix), CreateIndex (en_tableName target) ix] else [])"

lemma index_operations_alt:
  assumes ok: "entity_diffable source target"
  shows "map fst (index_operations source target) = concat (map (index_step source target) (en_indexes target))
    @ map (DropIndex (en_tableName target)) (filter (\<lambda>n. indexes_map (en_indexes target) n = None) (map ix_name (en_indexes source)))"
proof -
  note lists = index_map_list [OF names_distinct(3) [OF ok]] index_map_list [OF names_distinct(4) [OF ok]]
  have "concat (map (\<lambda>i. map fst (case map_of (map (\<lambda>i. (ix_name i, i)) (en_indexes source)) (ix_name i) of
         None \<Rightarrow> [(CreateIndex (en_tableName target) i, False)]
       | Some previous \<Rightarrow> if previous \<noteq> i then [(DropIndex (en_tableName target) (ix_name i), False), (CreateIndex (en_tableName target) i, False)] else [])) xs)
    = concat (map (index_step source target) xs)" for xs
    by (rule arg_cong [of _ _ concat], rule map_cong) (auto simp: index_step_def indexes_map_def split: option.split)
  then show ?thesis
    by (simp add: index_operations_def Let_def lists map_concat o_def filter_map indexes_map_def)
qed

lemma indexes_map_snoc:
  assumes "ix_name c \<notin> ix_name ` set pre"
  shows "indexes_map (pre @ [c]) n = (if n = ix_name c then Some c else indexes_map pre n)"
  using assms by (induction pre) (auto simp: indexes_map_def)

lemma index_one:
  assumes ok: "entity_diffable source target" and split: "en_indexes target = pre @ ix # suf"
    and idx: "ta_indexes t = indexes_so_far I pre" and after: "indexes_after source target I"
    and cols: "\<And>c. c \<in> set (en_columns target) \<Longrightarrow> ta_columns t (co_columnName c) \<noteq> None"
  shows "table_steps (index_step source target ix) t = Some (t\<lparr>ta_indexes := indexes_so_far I (pre @ [ix])\<rparr>)"
proof -
  have mem: "ix \<in> set (en_indexes target)" using split by simp
  have new: "ix_name ix \<notin> ix_name ` set pre" using names_distinct(4) [OF ok] split by auto
  have here: "ta_indexes t (ix_name ix) = I (ix_name ix)" using new by (simp add: idx indexes_so_far_def indexes_map_None [THEN iffD2])
  have sub: "set (ix_columns ix) \<subseteq> co_columnName ` set (en_columns target)"
    using ok mem by (auto simp: entity_diffable_def entity_ok_def list_all_iff)
  have present: "\<not> list_ex (\<lambda>c. ta_columns t c = None) (ix_columns ix)" using sub cols by (auto simp: list_ex_iff)
  have upd: "(ta_indexes t)(ix_name ix := Some ix) = indexes_so_far I (pre @ [ix])"
    by (rule ext) (simp add: idx indexes_so_far_def indexes_map_snoc [OF new])
  show ?thesis
  proof (cases "indexes_map (en_indexes source) (ix_name ix)")
    case None
    then have "ta_indexes t (ix_name ix) = None" using after by (simp add: here indexes_after_def)
    then show ?thesis using None present upd by (simp add: index_step_def table_step_def create_index_def)
  next
    case (Some previous)
    then obtain ix' where ix': "I (ix_name ix) = Some ix'" using after by (cases "I (ix_name ix)") (auto simp: indexes_after_def)
    show ?thesis
    proof (cases "previous = ix")
      case True
      have "ix' = ix" using after Some ix' sub True by (auto simp: indexes_after_def)
      then have "(ta_indexes t)(ix_name ix := Some ix) = ta_indexes t" using here ix' by (simp add: fun_upd_idem)
      then show ?thesis using Some True upd by (simp add: index_step_def)
    next
      case False
      let ?t = "t\<lparr>ta_indexes := (ta_indexes t)(ix_name ix := None)\<rparr>"
      have "drop_index (ix_name ix) t = Some ?t" using here ix' by (simp add: drop_index_def)
      moreover have "create_index ix ?t = Some (?t\<lparr>ta_indexes := (ta_indexes ?t)(ix_name ix := Some ix)\<rparr>)"
        using present by (simp add: create_index_def)
      ultimately show ?thesis using Some False upd by (simp add: index_step_def table_step_def)
    qed
  qed
qed

lemma index_list:
  assumes ok: "entity_diffable source target" and "en_indexes target = pre @ suf"
    and "ta_indexes t = indexes_so_far I pre" and after: "indexes_after source target I"
    and "\<And>c. c \<in> set (en_columns target) \<Longrightarrow> ta_columns t (co_columnName c) \<noteq> None"
  shows "table_steps (concat (map (index_step source target) suf)) t = Some (t\<lparr>ta_indexes := indexes_so_far I (en_indexes target)\<rparr>)"
  using assms(2,3,5)
proof (induction suf arbitrary: pre t)
  case (Cons ix suf)
  let ?t = "t\<lparr>ta_indexes := indexes_so_far I (pre @ [ix])\<rparr>"
  have "table_steps (index_step source target ix) t = Some ?t"
    by (rule index_one [OF ok Cons.prems(1,2) after]) (rule Cons.prems(3))
  moreover have "table_steps (concat (map (index_step source target) suf)) ?t = Some (?t\<lparr>ta_indexes := indexes_so_far I (en_indexes target)\<rparr>)"
    by (rule Cons.IH [of "pre @ [ix]"]) (use Cons.prems in auto)
  ultimately show ?case by (simp add: table_steps_append)
qed simp

lemma index_phase:
  assumes ok: "entity_diffable source target" and after: "indexes_after source target (ta_indexes t)"
    and cols: "\<And>c. c \<in> set (en_columns target) \<Longrightarrow> ta_columns t (co_columnName c) \<noteq> None"
  shows "table_steps (map fst (index_operations source target)) t = Some (t\<lparr>ta_indexes := indexes_map (en_indexes target)\<rparr>)"
proof -
  let ?I = "ta_indexes t" let ?t = "t\<lparr>ta_indexes := indexes_so_far ?I (en_indexes target)\<rparr>"
  let ?gone = "filter (\<lambda>n. indexes_map (en_indexes target) n = None) (map ix_name (en_indexes source))"
  have start: "ta_indexes t = indexes_so_far ?I []" by (rule ext) (simp add: indexes_so_far_def indexes_map_def)
  have one: "table_steps (concat (map (index_step source target) (en_indexes target))) t = Some ?t"
    by (rule index_list [OF ok _ start after]) (use cols in auto)
  have "table_steps (map (DropIndex (en_tableName target)) ?gone) ?t
      = Some (?t\<lparr>ta_indexes := (\<lambda>c. if c \<in> set ?gone then None else ta_indexes ?t c)\<rparr>)"
  proof (rule drop_index_steps)
    show "distinct ?gone" using names_distinct(3) [OF ok] by simp
    show "ta_indexes ?t x \<noteq> None" if "x \<in> set ?gone" for x
    proof -
      have "indexes_map (en_indexes target) x = None" "x \<in> ix_name ` set (en_indexes source)" using that by auto
      moreover have "indexes_map (en_indexes source) x \<noteq> None" using calculation(2) by (simp add: indexes_map_None)
      ultimately show ?thesis using after by (simp add: indexes_so_far_def indexes_after_def)
    qed
  qed
  moreover have "(if n \<in> set ?gone then None else ta_indexes ?t n) = indexes_map (en_indexes target) n" for n
  proof (cases "indexes_map (en_indexes target) n")
    case None
    then have "?I n = None" if "n \<notin> set ?gone"
      using that after by (auto simp: indexes_after_def indexes_map_None)
    then show ?thesis using None by (auto simp: indexes_so_far_def)
  qed (simp add: indexes_so_far_def)
  ultimately show ?thesis unfolding index_operations_alt [OF ok] by (simp add: table_steps_append one)
qed



section \<open>One entity\<close>

definition table_unique :: "table \<Rightarrow> string \<Rightarrow> column_schema \<Rightarrow> bool" where
  "table_unique t n x \<longleftrightarrow> co_unique x \<or> (\<exists>i ix. ta_indexes t i = Some ix \<and> ix_unique ix \<and> ix_columns ix = [n])"

text \<open>The parts of a column that no dialect lets differ.\<close>

definition same_shape :: "column_schema \<Rightarrow> column_schema \<Rightarrow> bool" where
  "same_shape x c \<longleftrightarrow> co_nullable x = co_nullable c \<and> co_primary x = co_primary c \<and> co_enumValues x = co_enumValues c
     \<and> co_array x = co_array c"

lemma comparable_shape: "comparableColumn x d u = comparableColumn y d' v \<Longrightarrow> same_shape x y"
  by (simp add: comparableColumn_def same_shape_def Let_def)

text \<open>A table is what the entity asks for: its indexes, its column names, and for every column the
  same comparable definition, uniqueness by an index included.\<close>

definition same_table :: "dialect option \<Rightarrow> table \<Rightarrow> entity_schema \<Rightarrow> bool" where
  "same_table d t e \<longleftrightarrow> ta_indexes t = indexes_map (en_indexes e) \<and>
     (\<forall>n. ta_columns t n = None \<longleftrightarrow> n \<notin> co_columnName ` set (en_columns e)) \<and>
     (\<forall>c \<in> set (en_columns e). \<exists>x. ta_columns t (co_columnName c) = Some x \<and>
        comparableColumn x d (table_unique t (co_columnName c) x) = comparableColumn c d (enforcesUnique (en_indexes e) c) \<and>
        same_shape x c)"

lemma comparable_unique: "comparableColumn x d u = comparableColumn y d' v \<Longrightarrow> u = v"
  by (simp add: comparableColumn_def Let_def)

lemma enforces_alt: "distinct (map ix_name ixs) \<Longrightarrow> ta_indexes t = indexes_map ixs \<Longrightarrow>
  table_unique t (co_columnName c) x \<longleftrightarrow> co_unique x \<or> (\<exists>ix \<in> set ixs. ix_unique ix \<and> ix_columns ix = [co_columnName c])"
  by (auto simp: table_unique_def indexes_map_Some)

lemma same_table_new: "entity_ok e \<Longrightarrow> same_table d (table_of e) e"
  by (auto simp: same_table_def same_shape_def table_of_def columns_map_None columns_map_Some entity_ok_def enforces_alt
      enforcesUnique_def list_ex_iff)

lemma final_same:
  assumes ok: "entity_diffable source target" and c: "c \<in> set (en_columns target)" and idx: "ta_indexes t = indexes_map (en_indexes target)"
  shows "comparableColumn (final_column d source target c) d (table_unique t (co_columnName c) (final_column d source target c))
    = comparableColumn c d (enforcesUnique (en_indexes target) c)"
proof -
  note tu = enforces_alt [OF names_distinct(4) [OF ok] idx]
  have self: "table_unique t (co_columnName c) c = enforcesUnique (en_indexes target) c"
    by (simp add: tu enforcesUnique_def list_ex_iff)
  show ?thesis
  proof (cases "find_existing_column source c")
    case None
    then show ?thesis using self by (simp add: final_column_def)
  next
    case (Some x)
    show ?thesis
    proof (cases "comparableColumn x d (enforcesUnique (en_indexes source) x) = comparableColumn c d (enforcesUnique (en_indexes target) c)")
      case True
      have "co_unique c \<Longrightarrow> co_unique x \<or> (\<exists>ix \<in> set (en_indexes target). ix_unique ix \<and> ix_columns ix = [co_columnName c])"
        by (rule entity_unique [OF ok c Some])
      moreover have "enforcesUnique (en_indexes source) x = enforcesUnique (en_indexes target) c" by (rule comparable_unique [OF True])
      ultimately have "table_unique t (co_columnName c) x = enforcesUnique (en_indexes target) c"
        unfolding tu by (auto simp: enforcesUnique_def list_ex_iff)
      moreover have "enforcesUnique (en_indexes source) x = enforcesUnique (en_indexes target) c" by (rule comparable_unique [OF True])
      ultimately show ?thesis using True Some by (simp add: final_column_def)
    next
      case False
      then show ?thesis using Some self by (simp add: final_column_def)
    qed
  qed
qed

lemma entity_steps:
  assumes ok: "entity_diffable source target"
  shows "\<exists>t'. table_steps (map fst (concat (map (column_operations d source target) (en_columns target)) @ drop_columns source target
      @ index_operations source target)) (table_of source) = Some t' \<and> same_table d t' target"
proof -
  have c0: "ta_columns (table_of source) = columns_after d source target []"
    by (rule ext) (simp add: table_of_def columns_after_def columns_map_def matched_by_def)
  have i0: "indexes_after source target (ta_indexes (table_of source))" by (auto simp: indexes_after_def table_of_def)
  obtain t1 where t1: "table_steps (map fst (concat (map (column_operations d source target) (en_columns target)))) (table_of source) = Some t1"
      "ta_columns t1 = columns_after d source target (en_columns target)" "indexes_after source target (ta_indexes t1)"
    using columns_phase [OF ok _ c0 i0] by auto
  let ?t2 = "t1\<lparr>ta_columns := desired_columns d source target\<rparr>"
  have t2: "table_steps (map fst (drop_columns source target)) t1 = Some ?t2" by (rule drop_phase [OF ok t1(2,3)])
  have mem: "columns_map (en_columns target) (co_columnName c) = Some c" if "c \<in> set (en_columns target)" for c
    using that names_distinct(2) [OF ok] by (simp add: columns_map_Some)
  let ?t3 = "?t2\<lparr>ta_indexes := indexes_map (en_indexes target)\<rparr>"
  have "table_steps (map fst (index_operations source target)) ?t2 = Some ?t3"
    by (rule index_phase [OF ok]) (use t1(3) mem in \<open>simp_all add: desired_columns_def\<close>)
  then have "table_steps (map fst (concat (map (column_operations d source target) (en_columns target)) @ drop_columns source target
      @ index_operations source target)) (table_of source) = Some ?t3"
    using t1(1) t2 by (simp add: table_steps_append)
  moreover have "same_table d ?t3 target"
    using mem final_same [OF ok, of _ ?t3 d] comparable_shape [OF final_same [OF ok, of _ ?t3 d]]
    by (simp add: same_table_def desired_columns_def columns_map_None)
  ultimately show ?thesis by blast
qed

end
