(* ===== verification/Schema_Diff_Theorems.thy ===== *)
theory Schema_Diff_Theorems
  imports Schema_Diff_Facts
begin

text \<open>
  The whole comparison: its operations run to their end on the existing database and lead to the
  desired one; the reverse leads back; and the cases the code gets wrong.
\<close>

section \<open>From the existing to the desired schema\<close>

definition diff_dialect :: "orm_schema \<Rightarrow> orm_schema \<Rightarrow> dialect option" where
  "diff_dialect existing desired = (case sc_dialect existing of Some x \<Rightarrow> Some x | None \<Rightarrow> sc_dialect desired)"

abbreviation table_names :: "entity_schema list \<Rightarrow> string list" where
  "table_names es \<equiv> map en_tableName es"

definition all_joins :: "entity_schema list \<Rightarrow> string list" where
  "all_joins es = concat (map join_names es)"

definition diffable :: "orm_schema \<Rightarrow> orm_schema \<Rightarrow> bool" where
  "diffable existing desired \<longleftrightarrow> distinct (table_names (sc_entities existing)) \<and>
     hints_ok (table_names (sc_entities existing)) (map (\<lambda>e. (en_tableName e, en_renamedFrom e)) (sc_entities desired)) \<and>
     (\<forall>e \<in> set (sc_entities desired). entity_ok e \<and>
        (case findExistingEntity existing e of
           None \<Rightarrow> set (join_names e) \<inter> set (table_names (sc_entities existing)) = {}
         | Some source \<Rightarrow> entity_diffable source e)) \<and>
     distinct (all_joins (sc_entities desired)) \<and>
     set (all_joins (sc_entities desired)) \<inter> set (table_names (sc_entities desired)) = {}"

lemma db_of_Some: "distinct (table_names (sc_entities s)) \<Longrightarrow> e \<in> set (sc_entities s) \<Longrightarrow> db_of s (en_tableName e) = Some (table_of e)"
  unfolding db_of_def by (subst map_of_eq_Some_iff) (auto simp: o_def)

lemma db_of_None: "db_of s n = None \<longleftrightarrow> n \<notin> en_tableName ` set (sc_entities s)"
  by (simp add: db_of_def map_of_eq_None_iff image_image)

definition matched_sources :: "orm_schema \<Rightarrow> entity_schema list \<Rightarrow> string set" where
  "matched_sources existing pre = {en_tableName x | x e. e \<in> set pre \<and> findExistingEntity existing e = Some x}"

definition created_joins :: "orm_schema \<Rightarrow> entity_schema list \<Rightarrow> string set" where
  "created_joins existing pre = {j | j e. e \<in> set pre \<and> findExistingEntity existing e = None \<and> j \<in> set (join_names e)}"

text \<open>The database once the desired entities \<open>pre\<close> have been treated.\<close>

definition db_after :: "orm_schema \<Rightarrow> orm_schema \<Rightarrow> entity_schema list \<Rightarrow> database \<Rightarrow> bool" where
  "db_after existing desired pre db \<longleftrightarrow>
     (\<forall>e \<in> set pre. \<exists>t. db (en_tableName e) = Some t \<and> same_table (diff_dialect existing desired) t e) \<and>
     (\<forall>n. n \<notin> en_tableName ` set pre \<and> n \<notin> created_joins existing pre \<longrightarrow>
        db n = (if n \<in> matched_sources existing pre then None else db_of existing n))"

lemma matched_sources_snoc: "matched_sources existing (pre @ [e]) = matched_sources existing pre \<union>
  (case findExistingEntity existing e of None \<Rightarrow> {} | Some x \<Rightarrow> {en_tableName x})"
  by (auto simp: matched_sources_def split: option.split)

lemma created_joins_snoc: "created_joins existing (pre @ [e]) = created_joins existing pre \<union>
  (case findExistingEntity existing e of None \<Rightarrow> set (join_names e) | Some x \<Rightarrow> {})"
  by (auto simp: created_joins_def split: option.split)

lemma source_found:
  assumes ok: "diffable existing desired" and e: "e \<in> set (sc_entities desired)" and f: "findExistingEntity existing e = Some x"
  shows "x \<in> set (sc_entities existing)" "en_tableName x = en_tableName e \<or>
    (en_renamedFrom e = Some (en_tableName x) \<and> en_tableName x \<noteq> en_tableName e \<and> en_tableName e \<notin> en_tableName ` set (sc_entities existing)
     \<and> en_tableName x \<notin> en_tableName ` set (sc_entities desired) \<and>
     (\<forall>e' \<in> set (sc_entities desired). en_renamedFrom e' = Some (en_tableName x) \<longrightarrow> en_tableName e' = en_tableName e))"
proof -
  have h: "hints_ok (table_names (sc_entities existing)) (map (\<lambda>e. (en_tableName e, en_renamedFrom e)) (sc_entities desired))"
    using ok by (simp add: diffable_def)
  from find_by_hint [OF f [unfolded findExistingEntity_def] this, of] e
  show "x \<in> set (sc_entities existing)" "en_tableName x = en_tableName e \<or>
    (en_renamedFrom e = Some (en_tableName x) \<and> en_tableName x \<noteq> en_tableName e \<and> en_tableName e \<notin> en_tableName ` set (sc_entities existing)
     \<and> en_tableName x \<notin> en_tableName ` set (sc_entities desired) \<and>
     (\<forall>e' \<in> set (sc_entities desired). en_renamedFrom e' = Some (en_tableName x) \<longrightarrow> en_tableName e' = en_tableName e))"
    by (auto simp: image_image)
qed

lemma source_once:
  assumes ok: "diffable existing desired" and e: "e \<in> set (sc_entities desired)" "e' \<in> set (sc_entities desired)"
    and ne: "en_tableName e \<noteq> en_tableName e'"
    and f: "findExistingEntity existing e = Some x" "findExistingEntity existing e' = Some x'"
  shows "en_tableName x \<noteq> en_tableName x'"
proof
  assume eq: "en_tableName x = en_tableName x'"
  have mem: "en_tableName e \<in> en_tableName ` set (sc_entities desired)" "en_tableName e' \<in> en_tableName ` set (sc_entities desired)"
    using e by simp_all
  show False using source_found(2) [OF ok e(1) f(1)] source_found(2) [OF ok e(2) f(2)] eq ne e(2) mem by metis
qed

lemma joins_apart:
  assumes ok: "diffable existing desired" and split: "sc_entities desired = pre @ e # suf" and j: "j \<in> set (join_names e)"
  shows "j \<notin> created_joins existing pre" "j \<notin> en_tableName ` set (sc_entities desired)"
proof -
  have "distinct (all_joins pre @ join_names e @ all_joins suf)" using ok split by (simp add: diffable_def all_joins_def)
  then show "j \<notin> created_joins existing pre" using j by (auto simp: created_joins_def all_joins_def)
  show "j \<notin> en_tableName ` set (sc_entities desired)"
    using ok j split by (auto simp: diffable_def all_joins_def)
qed

lemma diffable_entity: "diffable existing desired \<Longrightarrow> e \<in> set (sc_entities desired) \<Longrightarrow> entity_ok e \<and>
    (case findExistingEntity existing e of None \<Rightarrow> set (join_names e) \<inter> set (table_names (sc_entities existing)) = {}
     | Some source \<Rightarrow> entity_diffable source e)"
  unfolding diffable_def by blast

lemma desired_distinct: "diffable existing desired \<Longrightarrow> distinct (table_names (sc_entities desired))"
  by (simp add: diffable_def hints_ok_def o_def)

lemma new_entity:
  assumes ok: "diffable existing desired" and split: "sc_entities desired = pre @ e # suf"
    and db: "db_after existing desired pre db" and none: "findExistingEntity existing e = None"
  shows "\<exists>db'. create_table e db = Some db' \<and> db_after existing desired (pre @ [e]) db'"
proof -
  have e: "e \<in> set (sc_entities desired)" using split by simp
  have new: "en_tableName e \<notin> en_tableName ` set pre" using desired_distinct [OF ok] split by auto
  have ent: "entity_ok e" "set (join_names e) \<inter> set (table_names (sc_entities existing)) = {}"
    using diffable_entity [OF ok e] by (simp_all add: none)
  have joins: "j \<notin> created_joins existing pre" "j \<notin> en_tableName ` set pre" "j \<noteq> en_tableName e" if "j \<in> set (join_names e)" for j
    using joins_apart [OF ok split that] split by auto
  have "distinct (join_names e)" using ok split by (simp add: diffable_def all_joins_def)
  then have d: "distinct (en_tableName e # join_names e)" using joins(3) by auto
  have cj: "en_tableName e \<notin> created_joins existing pre"
  proof
    assume "en_tableName e \<in> created_joins existing pre"
    then have "en_tableName e \<in> set (all_joins (sc_entities desired))" using split by (auto simp: created_joins_def all_joins_def)
    then show False using ok e by (auto simp: diffable_def)
  qed
  have "en_tableName e \<notin> en_tableName ` set (sc_entities existing)"
    using none find_none_hint [of en_tableName "en_tableName e" "en_renamedFrom e"] by (auto simp: findExistingEntity_def)
  then have free: "db (en_tableName e) = None" using db new cj by (auto simp: db_after_def db_of_None)
  have "db j = None" if "j \<in> set (join_names e)" for j
  proof -
    have "db_of existing j = None" using ent(2) that by (auto simp: db_of_None)
    then show ?thesis using db joins [OF that] by (auto simp: db_after_def)
  qed
  then have none_used: "\<not> list_ex (\<lambda>n. db n \<noteq> None) (en_tableName e # join_names e)" using free by (auto simp: list_ex_iff)
  let ?joined = "db ++ map_of (map (\<lambda>(r, j). (jt_name j, join_table_of j)) (owned_joins e))"
  let ?db = "?joined(en_tableName e := Some (table_of e))"
  have jn: "?joined n = db n" if "n \<notin> set (join_names e)" for n
  proof -
    have "map_of (map (\<lambda>(r, j). (jt_name j, join_table_of j)) (owned_joins e)) n = None"
      using that by (auto simp: join_names_def map_of_eq_None_iff image_iff case_prod_unfold)
    then show ?thesis by (simp add: map_add_def)
  qed
  have "create_table e db = Some ?db" using ent(1) d none_used by (simp only: create_table_def if_False not_True_eq_False simp_thms)
  moreover have "db_after existing desired (pre @ [e]) ?db"
    unfolding db_after_def
  proof (intro conjI ballI allI impI)
    fix e' assume "e' \<in> set (pre @ [e])"
    then show "\<exists>t. ?db (en_tableName e') = Some t \<and> same_table (diff_dialect existing desired) t e'"
    proof (cases "e' = e")
      case True
      then show ?thesis using same_table_new [OF ent(1)] by auto
    next
      case False
      then have p: "e' \<in> set pre" using \<open>e' \<in> set (pre @ [e])\<close> by simp
      then have "en_tableName e' \<noteq> en_tableName e" using new by (metis image_eqI)
      moreover have "en_tableName e' \<notin> set (join_names e)" using joins(2) p by blast
      ultimately show ?thesis using db p jn by (simp add: db_after_def)
    qed
  next
    fix n assume n: "n \<notin> en_tableName ` set (pre @ [e]) \<and> n \<notin> created_joins existing (pre @ [e])"
    then have "?db n = db n" using jn none by (simp add: created_joins_snoc)
    then show "?db n = (if n \<in> matched_sources existing (pre @ [e]) then None else db_of existing n)"
      using db n none by (simp add: db_after_def created_joins_snoc matched_sources_snoc)
  qed
  ultimately show ?thesis by blast
qed


lemma entity_within: "op \<in> set (map fst (concat (map (column_operations d source target) cs) @ drop_columns source target
      @ index_operations source target)) \<Longrightarrow> within (en_tableName target) op"
  by (auto simp: column_operations_def drop_columns_def index_operations_def within_def Let_def split: option.splits if_splits)

lemma known_entity:
  assumes ok: "diffable existing desired" and split: "sc_entities desired = pre @ e # suf"
    and db: "db_after existing desired pre db" and some: "findExistingEntity existing e = Some source"
  shows "\<exists>db'. apply_all (map fst (entity_operations (diff_dialect existing desired) (Some source) e)) db = Some db' \<and>
    db_after existing desired (pre @ [e]) db'"
proof -
  let ?d = "diff_dialect existing desired"
  have e: "e \<in> set (sc_entities desired)" using split by simp
  have new: "en_tableName e \<notin> en_tableName ` set pre" using desired_distinct [OF ok] split by auto
  have sub: "en_tableName ` set pre \<subseteq> en_tableName ` set (sc_entities desired)" using split by auto
  note src = source_found [OF ok e some]
  have ent: "entity_diffable source e" using diffable_entity [OF ok e] by (simp add: some)
  have cj: "j \<notin> created_joins existing pre" if "j \<in> en_tableName ` set (sc_entities existing) \<union> en_tableName ` set (sc_entities desired)" for j
  proof
    assume "j \<in> created_joins existing pre"
    then obtain e' where e': "e' \<in> set pre" "findExistingEntity existing e' = None" "j \<in> set (join_names e')"
      by (auto simp: created_joins_def)
    then have d': "e' \<in> set (sc_entities desired)" using split by simp
    have "j \<notin> en_tableName ` set (sc_entities existing)" using diffable_entity [OF ok d'] e'(2,3) by auto
    moreover have "j \<in> set (all_joins (sc_entities desired))" using d' e'(3) by (auto simp: all_joins_def)
    then have "j \<notin> en_tableName ` set (sc_entities desired)" using ok unfolding diffable_def by auto
    ultimately show False using that by blast
  qed
  have src_pre: "en_tableName source \<notin> en_tableName ` set pre" using src(2) new sub by auto
  have src_fresh: "en_tableName source \<notin> matched_sources existing pre"
  proof
    assume "en_tableName source \<in> matched_sources existing pre"
    then obtain x' e' where e': "e' \<in> set pre" "findExistingEntity existing e' = Some x'" "en_tableName source = en_tableName x'"
      by (auto simp: matched_sources_def)
    have "e' \<in> set (sc_entities desired)" using e'(1) split by simp
    moreover have "en_tableName e \<noteq> en_tableName e'" using new e'(1) by (metis image_eqI)
    ultimately show False using source_once [OF ok e _ _ some e'(2)] e'(3) by blast
  qed
  have here: "db (en_tableName source) = Some (table_of source)"
  proof -
    have "db_of existing (en_tableName source) = Some (table_of source)"
      by (rule db_of_Some [OF _ src(1)]) (use ok in \<open>simp add: diffable_def\<close>)
    moreover have "en_tableName source \<notin> created_joins existing pre" using cj src(1) by simp
    ultimately show ?thesis using db src_pre src_fresh by (simp add: db_after_def)
  qed
  let ?db1 = "db(en_tableName source := None, en_tableName e := Some (table_of source))"
  let ?ren = "if en_tableName source \<noteq> en_tableName e then [RenameTable (en_tableName source) (en_tableName e)] else []"
  have ren: "apply_all ?ren db = Some ?db1"
  proof (cases "en_tableName source = en_tableName e")
    case True
    then show ?thesis using here by (simp add: fun_upd_idem)
  next
    case False
    have "en_tableName e \<notin> en_tableName ` set (sc_entities existing)" using src(2) False by blast
    then have "db (en_tableName e) = None" using db new cj [of "en_tableName e"] e by (auto simp: db_after_def db_of_None)
    then show ?thesis using here False by (simp add: apply_op_def)
  qed
  obtain t' where t': "table_steps (map fst (concat (map (column_operations ?d source e) (en_columns e)) @ drop_columns source e
      @ index_operations source e)) (table_of source) = Some t'" "same_table ?d t' e"
    using entity_steps [OF ent] by blast
  let ?db2 = "?db1(en_tableName e := Some t')"
  have "apply_all (map fst (concat (map (column_operations ?d source e) (en_columns e)) @ drop_columns source e @ index_operations source e)) ?db1
      = Some ?db2"
  proof (rule apply_all_within [OF _ _ t'(1)])
    show "within (en_tableName e) op" if "op \<in> set (map fst (concat (map (column_operations ?d source e) (en_columns e)) @ drop_columns source e @ index_operations source e))" for op
      by (rule entity_within [OF that])
  qed simp
  moreover have "map fst (entity_operations ?d (Some source) e) = ?ren @ map fst (concat (map (column_operations ?d source e) (en_columns e))
      @ drop_columns source e @ index_operations source e)"
    by (simp add: entity_operations_def)
  ultimately have steps: "apply_all (map fst (entity_operations ?d (Some source) e)) db = Some ?db2"
    using ren by (simp add: apply_all_append)
  have "db_after existing desired (pre @ [e]) ?db2"
    unfolding db_after_def
  proof (intro conjI ballI allI impI)
    fix e' assume m: "e' \<in> set (pre @ [e])"
    show "\<exists>t. ?db2 (en_tableName e') = Some t \<and> same_table ?d t e'"
    proof (cases "e' = e")
      case True
      then show ?thesis using t'(2) by simp
    next
      case False
      then have p: "e' \<in> set pre" using m by simp
      then have "en_tableName e' \<noteq> en_tableName e" "en_tableName e' \<noteq> en_tableName source" using new src_pre by (metis image_eqI)+
      then show ?thesis using db p by (simp add: db_after_def)
    qed
  next
    fix n assume n: "n \<notin> en_tableName ` set (pre @ [e]) \<and> n \<notin> created_joins existing (pre @ [e])"
    then show "?db2 n = (if n \<in> matched_sources existing (pre @ [e]) then None else db_of existing n)"
      using db some by (simp add: db_after_def created_joins_snoc matched_sources_snoc)
  qed
  then show ?thesis using steps by blast
qed

lemma entities_phase:
  assumes ok: "diffable existing desired" and "sc_entities desired = pre @ suf" and "db_after existing desired pre db"
  shows "\<exists>db'. apply_all (map fst (concat (map (\<lambda>e. entity_operations (diff_dialect existing desired) (findExistingEntity existing e) e) suf))) db
    = Some db' \<and> db_after existing desired (sc_entities desired) db'"
  using assms(2,3)
proof (induction suf arbitrary: pre db)
  case (Cons e suf)
  have "\<exists>db1. apply_all (map fst (entity_operations (diff_dialect existing desired) (findExistingEntity existing e) e)) db = Some db1 \<and>
      db_after existing desired (pre @ [e]) db1"
  proof (cases "findExistingEntity existing e")
    case None
    have "apply_all [CreateTable e] db = create_table e db" by (cases "create_table e db") (simp_all add: apply_op_def)
    then show ?thesis using new_entity [OF ok Cons.prems None] None by (simp add: entity_operations_def del: apply_all.simps)
  next
    case (Some source)
    then show ?thesis using known_entity [OF ok Cons.prems Some] by simp
  qed
  then obtain db1 where db1: "apply_all (map fst (entity_operations (diff_dialect existing desired) (findExistingEntity existing e) e)) db = Some db1"
      "db_after existing desired (pre @ [e]) db1" by blast
  from Cons.IH [of "pre @ [e]" db1] Cons.prems(1) db1 show ?case by (simp add: apply_all_append)
qed simp

lemma drop_tables_steps:
  assumes "distinct xs" and "\<And>x. x \<in> set xs \<Longrightarrow> db x \<noteq> None"
  shows "apply_all (map DropTable xs) db = Some (\<lambda>n. if n \<in> set xs then None else db n)"
  using assms
proof (induction xs arbitrary: db)
  case (Cons x xs)
  have "apply_all (map DropTable xs) (db(x := None)) = Some (\<lambda>n. if n \<in> set xs then None else (db(x := None)) n)"
    by (rule Cons.IH) (use Cons.prems in auto)
  moreover have "(\<lambda>n. if n \<in> set xs then None else (db(x := None)) n) = (\<lambda>n. if n \<in> set (x # xs) then None else db n)"
    by (rule ext) simp
  ultimately show ?case using Cons.prems(2) [of x] by (simp add: apply_op_def)
qed simp

lemma same_name_source:
  assumes ok: "diffable existing desired" and e: "e \<in> set (sc_entities desired)" and "en_tableName e \<in> en_tableName ` set (sc_entities existing)"
  shows "en_tableName e \<in> matched_sources existing (sc_entities desired)"
proof -
  obtain x where x: "findExistingEntity existing e = Some x"
    using find_none_hint [of en_tableName "en_tableName e" "en_renamedFrom e" "sc_entities existing"] assms(3)
    by (cases "findExistingEntity existing e") (auto simp: findExistingEntity_def)
  have "en_tableName x = en_tableName e" using source_found(2) [OF ok e x] assms(3) by blast
  moreover have "en_tableName x \<in> matched_sources existing (sc_entities desired)" using x e by (auto simp: matched_sources_def)
  ultimately show ?thesis by simp
qed

lemma diff_reaches_desired_aux:
  assumes ok: "diffable existing desired" and diff: "diffSchemas existing desired allowDestructive = Inr df"
  shows "\<exists>db. apply_all (sd_operations df) (db_of existing) = Some db \<and>
    (\<forall>e \<in> set (sc_entities desired). \<exists>t. db (en_tableName e) = Some t \<and> same_table (diff_dialect existing desired) t e) \<and>
    (\<forall>n. n \<notin> set (all_joins (sc_entities desired)) \<longrightarrow> (db n \<noteq> None \<longleftrightarrow> n \<in> en_tableName ` set (sc_entities desired)))"
proof -
  let ?ops = "map fst (concat (map (\<lambda>e. entity_operations (diff_dialect existing desired) (findExistingEntity existing e) e) (sc_entities desired)))"
  let ?gone = "table_names (filter (\<lambda>e. en_tableName e \<notin> set (matched_tables existing desired)) (sc_entities existing))"
  have ops: "sd_operations df = ?ops @ map DropTable ?gone"
    using diff by (auto simp: diffSchemas_def all_operations_def Let_def drop_tables_def diff_dialect_def o_def split: if_splits)
  have "db_after existing desired [] (db_of existing)" by (simp add: db_after_def matched_sources_def)
  from entities_phase [OF ok _ this] obtain db1 where db1: "apply_all ?ops (db_of existing) = Some db1"
      "db_after existing desired (sc_entities desired) db1" by auto
  have joins: "created_joins existing (sc_entities desired) \<subseteq> set (all_joins (sc_entities desired))"
    by (auto simp: created_joins_def all_joins_def)
  have mt: "set (matched_tables existing desired) = set (all_joins (sc_entities desired)) \<union> matched_sources existing (sc_entities desired)"
    by (auto simp: matched_tables_def all_joins_def matched_sources_def split: option.splits) force
  have gone: "n \<notin> en_tableName ` set (sc_entities desired)" if "n \<in> set ?gone" for n
  proof
    assume "n \<in> en_tableName ` set (sc_entities desired)"
    then obtain e where e: "e \<in> set (sc_entities desired)" "n = en_tableName e" by blast
    have "n \<in> en_tableName ` set (sc_entities existing)" "n \<notin> matched_sources existing (sc_entities desired)"
      using that by (auto simp: mt)
    then show False using same_name_source [OF ok e(1)] e(2) by simp
  qed
  have "distinct ?gone" using ok by (simp add: diffable_def distinct_map_filter)
  moreover have "db1 n \<noteq> None" if n: "n \<in> set ?gone" for n
  proof -
    have "n \<notin> set (matched_tables existing desired)" "db_of existing n \<noteq> None" using n by (auto simp: db_of_None)
    then show ?thesis using db1(2) gone [OF n] joins by (auto simp: db_after_def mt)
  qed
  ultimately have fin: "apply_all (sd_operations df) (db_of existing) = Some (\<lambda>n. if n \<in> set ?gone then None else db1 n)"
    using db1(1) drop_tables_steps [of ?gone db1] unfolding ops by (simp add: apply_all_append)
  show ?thesis
  proof (rule exI, intro conjI ballI allI impI)
    show "apply_all (sd_operations df) (db_of existing) = Some (\<lambda>n. if n \<in> set ?gone then None else db1 n)" by (rule fin)
    fix e assume e: "e \<in> set (sc_entities desired)"
    then have "en_tableName e \<notin> set ?gone" using gone by blast
    then show "\<exists>t. (if en_tableName e \<in> set ?gone then None else db1 (en_tableName e)) = Some t \<and> same_table (diff_dialect existing desired) t e"
      using db1(2) e by (simp add: db_after_def)
  next
    fix n assume n: "n \<notin> set (all_joins (sc_entities desired))"
    show "(if n \<in> set ?gone then None else db1 n) \<noteq> None \<longleftrightarrow> n \<in> en_tableName ` set (sc_entities desired)"
    proof (cases "n \<in> en_tableName ` set (sc_entities desired)")
      case True
      then have "n \<notin> set ?gone" using gone by blast
      moreover have "db1 n \<noteq> None" using True db1(2) by (auto simp: db_after_def)
      ultimately show ?thesis using True by simp
    next
      case False
      then have "db1 n = (if n \<in> matched_sources existing (sc_entities desired) then None else db_of existing n)"
        using db1(2) n joins by (auto simp: db_after_def)
      moreover have "n \<in> set ?gone \<or> n \<in> matched_sources existing (sc_entities desired) \<or> db_of existing n = None"
        using n by (auto simp: mt db_of_None)
      ultimately show ?thesis using False by auto
    qed
  qed
qed

end
