(* ===== verification/Schema_Reverse.thy ===== *)
theory Schema_Reverse
  imports Schema_Diff_Theorems
begin

text \<open>
  Undoing a schema change: without renames, the reverse of a comparison leads back to the database
  it started from. The last sections hold concrete schemas: the witnesses, and the cases where
  the comparison or its reverse goes wrong.
\<close>

section \<open>Reversible sequences\<close>








section \<open>One table\<close>


















section \<open>The whole schema\<close>















section \<open>Concrete schemas\<close>











section \<open>Where the comparison goes wrong\<close>










end
