(* ===== verification/Migrations.thy ===== *)
theory Migrations
  imports Schema_Model
begin

text \<open>
  The migration runner: \<open>database/src/migration/runner.ts\<close>, and of \<open>plan.ts\<close> the execution policy.
  The database is the application's part, of any type, and the history table. What one statement does to the
  application's part is a parameter, and so are hashing, \<open>localeCompare\<close> and the callbacks.
  Statements on the history table are the code's own; they are interpreted directly (the name is
  the primary key). Timestamps are given per migration name.
\<close>

section \<open>Migrations and databases\<close>

(* models packages/database/src/migration/types.ts:22-27 AppliedMigration *)
record applied_row =
  ap_name :: string
  ap_checksum :: string
  ap_batch :: int
  ap_appliedAt :: string

record 's world =
  w_user :: 's
  w_history :: "applied_row list option"

datatype migration_operation = MSchema schema_operation | MSql "sql_node list"

(* models packages/database/src/migration/types.ts:12-20 Migration *)
record 's migration =
  mi_name :: string
  mi_replaces :: "string list option"
  mi_operations :: "(migration_operation list \<times> migration_operation list option) option"
  mi_up :: "('s \<Rightarrow> (orm_error + queued list) \<times> 's) option"
  mi_down :: "('s \<Rightarrow> (orm_error + queued list) \<times> 's) option"

datatype migration_state = Pending | Applied | Changed

(* models packages/database/src/migration/types.ts:29-34 MigrationStatus *)
record 's migration_status =
  st_migration :: "'s migration"
  st_checksum :: string
  st_applied :: "applied_row option"
  st_state :: migration_state

text \<open>The driver and the parameters: \<open>en_raw\<close> is the hash of the raw source text that older releases
  stored for migrations made of two callbacks.\<close>

record 's env =
  ev_dialect :: dialect
  ev_transactions :: bool
  ev_batch :: bool
  ev_batchLimit :: nat
  ev_exec :: "string \<times> db_value list \<Rightarrow> 's \<Rightarrow> (orm_error + unit) \<times> 's"
  ev_checksum :: "'s migration \<Rightarrow> string"
  ev_raw :: "'s migration \<Rightarrow> string"
  ev_compare :: "string \<Rightarrow> string \<Rightarrow> int"
  ev_now :: "string \<Rightarrow> string"


section \<open>The history table\<close>

datatype history_op = Insert applied_row | Delete string

(* models packages/database/src/migration/runner.ts:21-31 ensureTable *)
definition ensureTable :: "'s world \<Rightarrow> 's world" where
  "ensureTable w = (case w_history w of None \<Rightarrow> w\<lparr>w_history := Some []\<rparr> | Some _ \<Rightarrow> w)"

definition history_rows :: "'s world \<Rightarrow> applied_row list" where
  "history_rows w = (case w_history w of None \<Rightarrow> [] | Some rows \<Rightarrow> rows)"

definition row_order :: "applied_row \<Rightarrow> applied_row \<Rightarrow> int" where
  "row_order a b = (if ap_batch a \<noteq> ap_batch b then ap_batch a - ap_batch b
     else if ap_name a < ap_name b then - 1 else if ap_name a = ap_name b then 0 else 1)"

(* models packages/database/src/migration/runner.ts:33-55 applied *)
definition applied :: "bool \<Rightarrow> 's world \<Rightarrow> applied_row list \<times> 's world" where
  "applied readOnly w = (let w' = (if readOnly then w else ensureTable w) in (sort_by row_order (history_rows w'), w'))"

definition run_history :: "history_op \<Rightarrow> 's world \<Rightarrow> (orm_error + unit) \<times> 's world" where
  "run_history op w = (case w_history w of None \<Rightarrow> (Inl QueryError, w)
     | Some rows \<Rightarrow> (case op of
         Insert row \<Rightarrow> if ap_name row \<in> set (map ap_name rows) then (Inl QueryError, w) else (Inr (), w\<lparr>w_history := Some (rows @ [row])\<rparr>)
       | Delete n \<Rightarrow> (Inr (), w\<lparr>w_history := Some (filter (\<lambda>r. ap_name r \<noteq> n) rows)\<rparr>)))"


section \<open>Status\<close>

definition callbackOnly :: "'s migration \<Rightarrow> bool" where
  "callbackOnly m \<longleftrightarrow> mi_operations m = None \<and> mi_up m \<noteq> None \<and> mi_down m \<noteq> None"

(* models packages/database/src/migration/checksum.ts:138-141 checksumMatches *)
definition checksumMatches :: "'s env \<Rightarrow> 's migration \<Rightarrow> string \<Rightarrow> string \<Rightarrow> bool" where
  "checksumMatches ev m stored current \<longleftrightarrow> stored = current \<or> (callbackOnly m \<and> stored = ev_raw ev m)"

(* models packages/database/src/migration/runner.ts:318-323 sorted *)
definition sorted_migrations :: "'s env \<Rightarrow> 's migration list \<Rightarrow> orm_error + 's migration list" where
  "sorted_migrations ev ms = (let s = sort_by (\<lambda>a b. ev_compare ev (mi_name a) (mi_name b)) ms in
     if list_ex (\<lambda>(a, b). mi_name a = mi_name b) (zip s (tl s)) then Inl (MigrationError ''duplicate name'') else Inr s)"

definition status_of :: "'s env \<Rightarrow> applied_row list \<Rightarrow> 's migration \<Rightarrow> 's migration_status" where
  "status_of ev rows m = (let value = map_of (rev (map (\<lambda>r. (ap_name r, r)) rows)) (mi_name m); h = ev_checksum ev m in
     \<lparr>st_migration = m, st_checksum = h, st_applied = value,
      st_state = (case value of None \<Rightarrow> Pending | Some r \<Rightarrow> if checksumMatches ev m (ap_checksum r) h then Applied else Changed)\<rparr>)"

(* models packages/database/src/migration/runner.ts:57-71 status *)
definition status :: "'s env \<Rightarrow> 's migration list \<Rightarrow> bool \<Rightarrow> 's world \<Rightarrow> (orm_error + 's migration_status list) \<times> 's world" where
  "status ev ms readOnly w = (let (rows, w') = applied readOnly w in
     (bindr (sorted_migrations ev ms) (\<lambda>s. Inr (map (status_of ev rows) s)), w'))"

(* models packages/database/src/migration/runner.ts:289-297 check *)
definition check :: "'s env \<Rightarrow> 's migration list \<Rightarrow> 's world \<Rightarrow> orm_error + unit" where
  "check ev ms w = bindr (fst (status ev ms True w)) (\<lambda>sts.
     if list_ex (\<lambda>s. st_state s \<noteq> Applied) sts then Inl (MigrationError ''check failed'') else Inr ())"


section \<open>Running one migration\<close>

text \<open>What a step executes: an item of the builder's queue, or a statement on the history.\<close>

datatype item = Queued queued | Book history_op

(* models packages/database/src/migration/runner.ts:188-202 queueMigration *)
definition queueMigration :: "'s env \<Rightarrow> 's migration \<Rightarrow> bool \<Rightarrow> 's world \<Rightarrow> (orm_error + queued list) \<times> 's world" where
  "queueMigration ev m up w = (case mi_operations m of
     Some (u, d) \<Rightarrow> (case if up then Some u else d of
         None \<Rightarrow> (Inl (MigrationError ''no declarative operations''), w)
       | Some ops \<Rightarrow> (bindr (mapr (\<lambda>op. case op of MSql f \<Rightarrow> Inr [QRaw f]
             | MSchema s \<Rightarrow> bindr (renderOperation s (ev_dialect ev)) (\<lambda>ts. Inr (map (\<lambda>t. QRaw [SUnsafe t]) ts))) ops) (\<lambda>xs. Inr (concat xs)), w))
   | None \<Rightarrow> (case if up then mi_up m else mi_down m of
         None \<Rightarrow> (Inl (MigrationError ''no callback or operations''), w)
       | Some f \<Rightarrow> (case f (w_user w) of (r, s) \<Rightarrow> (r, w\<lparr>w_user := s\<rparr>))))"

datatype statement = Query "string \<times> db_value list" | History history_op

definition render_item :: "dialect \<Rightarrow> item \<Rightarrow> orm_error + statement list" where
  "render_item d i = (case i of Book h \<Rightarrow> Inr [History h]
     | Queued (QRaw f) \<Rightarrow> Inr [Query (compileSQL f d)]
     | Queued (QOp op) \<Rightarrow> bindr (renderOperation op d) (\<lambda>ts. Inr (map (\<lambda>t. Query (t, [])) ts)))"

definition render_items :: "dialect \<Rightarrow> item list \<Rightarrow> orm_error + statement list" where
  "render_items d is = bindr (mapr (render_item d) is) (\<lambda>xs. Inr (concat xs))"

definition run_statement :: "'s env \<Rightarrow> statement \<Rightarrow> 's world \<Rightarrow> (orm_error + unit) \<times> 's world" where
  "run_statement ev st w = (case st of History h \<Rightarrow> run_history h w
     | Query q \<Rightarrow> (case ev_exec ev q (w_user w) of (r, s) \<Rightarrow> (r, w\<lparr>w_user := s\<rparr>)))"

fun run_each :: "'s env \<Rightarrow> statement list \<Rightarrow> 's world \<Rightarrow> (orm_error + unit) \<times> 's world" where
  "run_each ev [] w = (Inr (), w)"
| "run_each ev (st # sts) w = (case run_statement ev st w of (Inl e, w') \<Rightarrow> (Inl e, w') | (Inr _, w') \<Rightarrow> run_each ev sts w')"

text \<open>A driver's batch is all or nothing.\<close>

definition run_batch :: "'s env \<Rightarrow> statement list \<Rightarrow> 's world \<Rightarrow> (orm_error + unit) \<times> 's world" where
  "run_batch ev sts w = (case run_each ev sts w of (Inl e, _) \<Rightarrow> (Inl e, w) | (Inr _, w') \<Rightarrow> (Inr (), w'))"

definition uses_batch :: "'s env \<Rightarrow> bool" where
  "uses_batch ev \<longleftrightarrow> \<not> ev_transactions ev \<and> ev_batch ev"

(* models packages/database/src/migration/runner.ts:325-350 executeAtomic *)
definition executeAtomic :: "'s env \<Rightarrow> item list \<Rightarrow> history_op \<Rightarrow> 's world \<Rightarrow> (orm_error + unit) \<times> 's world" where
  "executeAtomic ev items bookkeeping w = (case render_items (ev_dialect ev) items of
     Inl e \<Rightarrow> (Inl e, w)
   | Inr sts \<Rightarrow> if uses_batch ev then run_batch ev (sts @ [History bookkeeping]) w
       else (case run_each ev sts w of (Inl e, w') \<Rightarrow> (Inl e, w') | (Inr _, w') \<Rightarrow> run_history bookkeeping w'))"

text \<open>A transaction undoes what its action did when the action fails.\<close>

(* models packages/database/src/migration/runner.ts:309-316 runMigration *)
definition runMigration :: "'s env \<Rightarrow> ('s world \<Rightarrow> (orm_error + unit) \<times> 's world) \<Rightarrow> 's world \<Rightarrow> (orm_error + unit) \<times> 's world" where
  "runMigration ev action w = (case action w of
     (Inl e, w') \<Rightarrow> (Inl (MigrationError ''failed''), if ev_transactions ev then w else w')
   | (Inr _, w') \<Rightarrow> (Inr (), w'))"


section \<open>Applying and reverting\<close>

definition history_row :: "'s env \<Rightarrow> int \<Rightarrow> 's migration_status \<Rightarrow> applied_row" where
  "history_row ev batch s = \<lparr>ap_name = mi_name (st_migration s), ap_checksum = st_checksum s, ap_batch = batch,
     ap_appliedAt = ev_now ev (mi_name (st_migration s))\<rparr>"

definition replacements :: "'s migration \<Rightarrow> string list" where
  "replacements m = (case mi_replaces m of None \<Rightarrow> [] | Some rs \<Rightarrow> rs)"

definition applied_replacements :: "'s migration \<Rightarrow> 's world \<Rightarrow> string list" where
  "applied_replacements m w = filter (\<lambda>n. n \<in> set (map ap_name (history_rows w))) (replacements m)"

definition partly_replaced :: "'s migration \<Rightarrow> 's world \<Rightarrow> bool" where
  "partly_replaced m w \<longleftrightarrow> applied_replacements m w \<noteq> [] \<and> length (applied_replacements m w) \<noteq> length (replacements m)"

definition consolidates :: "'s migration \<Rightarrow> 's world \<Rightarrow> bool" where
  "consolidates m w \<longleftrightarrow> replacements m \<noteq> [] \<and> length (applied_replacements m w) = length (replacements m)"

definition apply_action :: "'s env \<Rightarrow> int \<Rightarrow> 's migration_status \<Rightarrow> 's world \<Rightarrow> (orm_error + unit) \<times> 's world" where
  "apply_action ev batch s w = (case queueMigration ev (st_migration s) True w of
     (Inl e, w') \<Rightarrow> (Inl e, w')
   | (Inr queue, w') \<Rightarrow> executeAtomic ev (map Queued queue) (Insert (history_row ev batch s)) w')"

definition consolidate_action :: "'s env \<Rightarrow> int \<Rightarrow> 's migration_status \<Rightarrow> 's world \<Rightarrow> (orm_error + unit) \<times> 's world" where
  "consolidate_action ev batch s = executeAtomic ev (map (\<lambda>n. Book (Delete n)) (replacements (st_migration s))) (Insert (history_row ev batch s))"

definition apply_one :: "'s env \<Rightarrow> int \<Rightarrow> 's migration_status \<Rightarrow> 's world \<Rightarrow> (orm_error + unit) \<times> 's world" where
  "apply_one ev batch s w = (let m = st_migration s in
     if partly_replaced m w then (Inl (MigrationError ''only some replaced migrations are applied''), w)
     else if consolidates m w then runMigration ev (consolidate_action ev batch s) w
     else runMigration ev (apply_action ev batch s) w)"

fun apply_each :: "'s env \<Rightarrow> int \<Rightarrow> 's migration_status list \<Rightarrow> 's world \<Rightarrow> string list \<Rightarrow> (orm_error + string list) \<times> 's world" where
  "apply_each ev batch [] w names = (Inr names, w)"
| "apply_each ev batch (s # ss) w names = (case apply_one ev batch s w of
     (Inl e, w') \<Rightarrow> (Inl e, w') | (Inr _, w') \<Rightarrow> apply_each ev batch ss w' (names @ [mi_name (st_migration s)]))"

definition take_count :: "nat option \<Rightarrow> 'a list \<Rightarrow> 'a list" where
  "take_count count xs = (case count of None \<Rightarrow> xs | Some n \<Rightarrow> take n xs)"

definition has_changed :: "'s migration_status list \<Rightarrow> bool" where
  "has_changed sts \<longleftrightarrow> list_ex (\<lambda>s. st_state s = Changed) sts"

definition next_batch :: "applied_row list \<Rightarrow> int" where
  "next_batch rows = foldr (\<lambda>r b. max (ap_batch r) b) rows 0 + 1"

(* models packages/database/src/migration/runner.ts:204-262 up *)
definition migrate_up :: "'s env \<Rightarrow> 's migration list \<Rightarrow> nat option \<Rightarrow> 's world \<Rightarrow> (orm_error + string list) \<times> 's world" where
  "migrate_up ev ms count w0 = (case status ev ms False w0 of
     (Inl e, w) \<Rightarrow> (Inl e, w)
   | (Inr sts, w) \<Rightarrow>
      if has_changed sts then (Inl (MigrationError ''changed checksum''), w)
      else (let pending = take_count count (filter (\<lambda>s. st_state s = Pending) sts) in
        if pending = [] then (Inr [], w)
        else (let (rows, w1) = applied False w in apply_each ev (next_batch rows) pending w1 [])))"

definition revert_action :: "'s env \<Rightarrow> 's migration_status \<Rightarrow> 's world \<Rightarrow> (orm_error + unit) \<times> 's world" where
  "revert_action ev s w = (case queueMigration ev (st_migration s) False w of
     (Inl e, w') \<Rightarrow> (Inl e, w')
   | (Inr queue, w') \<Rightarrow> executeAtomic ev (map Queued queue) (Delete (mi_name (st_migration s))) w')"

fun revert_each :: "'s env \<Rightarrow> 's migration_status list \<Rightarrow> 's world \<Rightarrow> string list \<Rightarrow> (orm_error + string list) \<times> 's world" where
  "revert_each ev [] w names = (Inr names, w)"
| "revert_each ev (s # ss) w names = (case runMigration ev (revert_action ev s) w of
     (Inl e, w') \<Rightarrow> (Inl e, w') | (Inr _, w') \<Rightarrow> revert_each ev ss w' (names @ [mi_name (st_migration s)]))"

definition batch_of :: "'s migration_status \<Rightarrow> int" where
  "batch_of s = (case st_applied s of None \<Rightarrow> 0 | Some r \<Rightarrow> ap_batch r)"

definition latest_first :: "'s env \<Rightarrow> 's migration_status \<Rightarrow> 's migration_status \<Rightarrow> int" where
  "latest_first ev a b = (if batch_of b \<noteq> batch_of a then batch_of b - batch_of a
     else ev_compare ev (mi_name (st_migration b)) (mi_name (st_migration a)))"

(* models packages/database/src/migration/runner.ts:264-287 down *)
definition migrate_down :: "'s env \<Rightarrow> 's migration list \<Rightarrow> nat option \<Rightarrow> 's world \<Rightarrow> (orm_error + string list) \<times> 's world" where
  "migrate_down ev ms count w0 = (case status ev ms False w0 of
     (Inl e, w) \<Rightarrow> (Inl e, w)
   | (Inr sts, w) \<Rightarrow>
      if has_changed sts then (Inl (MigrationError ''changed checksum''), w)
      else revert_each ev (take (case count of None \<Rightarrow> 1 | Some n \<Rightarrow> n)
        (sort_by (latest_first ev) (filter (\<lambda>s. st_applied s \<noteq> None) sts))) w [])"

(* models packages/database/src/migration/runner.ts:299-307 baseline *)
definition baseline :: "'s env \<Rightarrow> string \<Rightarrow> 's world \<Rightarrow> (orm_error + unit) \<times> 's world" where
  "baseline ev schemaHash w = (let name = ''baseline:'' @ schemaHash in
     run_history (Insert \<lparr>ap_name = name, ap_checksum = schemaHash, ap_batch = 0, ap_appliedAt = ev_now ev name\<rparr>) (ensureTable w))"


section \<open>Accepting edited migrations\<close>

record rehash_result =
  rh_name :: string
  rh_previous :: string
  rh_checksum :: string

definition rehash_entry :: "'s migration_status list \<Rightarrow> string \<Rightarrow> orm_error + rehash_result" where
  "rehash_entry sts n = (case map_of (rev (map (\<lambda>s. (mi_name (st_migration s), s)) sts)) n of
     None \<Rightarrow> Inl (MigrationError ''unknown migration'')
   | Some s \<Rightarrow> (case st_applied s of None \<Rightarrow> Inl (MigrationError ''not applied'')
       | Some r \<Rightarrow> Inr \<lparr>rh_name = n, rh_previous = ap_checksum r, rh_checksum = st_checksum s\<rparr>))"

definition set_checksum :: "'s world \<Rightarrow> rehash_result \<Rightarrow> 's world" where
  "set_checksum w e = w\<lparr>w_history := map_option (map (\<lambda>r. if ap_name r = rh_name e then r\<lparr>ap_checksum := rh_checksum e\<rparr> else r)) (w_history w)\<rparr>"

(* models packages/database/src/migration/runner.ts:74-105 rehash *)
definition rehash :: "'s env \<Rightarrow> 's migration list \<Rightarrow> string list \<Rightarrow> bool \<Rightarrow> 's world \<Rightarrow> (orm_error + rehash_result list) \<times> 's world" where
  "rehash ev ms names dryRun w =
     (if names = [] then (Inl (MigrationError ''no names''), w)
      else if \<not> distinct names then (Inl (MigrationError ''names not unique''), w)
      else (case bindr (fst (status ev ms True w)) (\<lambda>sts. mapr (rehash_entry sts) names) of
          Inl e \<Rightarrow> (Inl e, w)
        | Inr entries \<Rightarrow>
           (let updates = filter (\<lambda>e. rh_previous e \<noteq> rh_checksum e) entries in
            if dryRun \<or> updates = [] then (Inr entries, w)
            else if uses_batch ev \<and> length updates > ev_batchLimit ev then (Inl (MigrationError ''batch limit''), w)
            else (Inr entries, foldl set_checksum w updates))))"


section \<open>Planning\<close>

datatype atomicity = InTransaction | InBatch | NoAtomicity

(* models packages/database/src/migration/plan.ts:25-28 executionPolicy *)
definition execution_atomicity :: "'s env \<Rightarrow> atomicity" where
  "execution_atomicity ev = (if ev_transactions ev then InTransaction else if ev_batch ev then InBatch else NoAtomicity)"

datatype plan_mode = Consolidate | Apply | Revert

record plan_entry =
  pe_name :: string
  pe_mode :: plan_mode
  pe_checksum :: string
  pe_statements :: "string list"
  pe_complete :: bool

definition planned_statements :: "'s env \<Rightarrow> migration_operation list \<Rightarrow> orm_error + string list" where
  "planned_statements ev ops = bindr (mapr (\<lambda>op. case op of MSql f \<Rightarrow> Inr [fst (compileSQL f (ev_dialect ev))]
     | MSchema s \<Rightarrow> renderOperation s (ev_dialect ev)) ops) (\<lambda>xs. Inr (concat xs))"

definition plan_one :: "'s env \<Rightarrow> bool \<Rightarrow> 's world \<Rightarrow> 's migration_status \<Rightarrow> orm_error + plan_entry" where
  "plan_one ev up w s = (let m = st_migration s;
       consolidate = (up \<and> consolidates m w);
       operations = (case mi_operations m of None \<Rightarrow> None | Some (u, d) \<Rightarrow> if up then Some u else d);
       rendered = (if consolidate then Inr [] else planned_statements ev (case operations of None \<Rightarrow> [] | Some ops \<Rightarrow> ops)) in
     if up \<and> partly_replaced m w then Inl (MigrationError ''only some replaced migrations are applied'')
     else Inr \<lparr>pe_name = mi_name m, pe_mode = (if consolidate then Consolidate else if up then Apply else Revert),
       pe_checksum = st_checksum s, pe_statements = (case rendered of Inl e \<Rightarrow> [] | Inr ts \<Rightarrow> ts),
       pe_complete = ((consolidate \<or> operations \<noteq> None) \<and> (case rendered of Inl e \<Rightarrow> False | Inr ts \<Rightarrow> True))\<rparr>)"

(* models packages/database/src/migration/runner.ts:108-171 plan *)
definition plan :: "'s env \<Rightarrow> 's migration list \<Rightarrow> bool \<Rightarrow> 's world \<Rightarrow> orm_error + plan_entry list" where
  "plan ev ms up w = bindr (fst (status ev ms True w)) (\<lambda>sts.
     if has_changed sts then Inl (MigrationError ''changed checksum'')
     else mapr (plan_one ev up w) (if up then filter (\<lambda>s. st_state s = Pending) sts
       else take 1 (sort_by (latest_first ev) (filter (\<lambda>s. st_applied s \<noteq> None) sts))))"

end
