(* ===== verification/Migration_Facts.thy ===== *)
theory Migration_Facts
  imports Migrations
begin

text \<open>
  What the migration runner promises: a failing run stops between migrations, a successful one
  leaves nothing to do, and \<open>down\<close> undoes the last \<open>up\<close>.
\<close>

section \<open>Steps and the history\<close>

lemma run_history_user [simp]: "w_user (snd (run_history op w)) = w_user w"
  by (simp add: run_history_def split: option.split history_op.split)

lemma queue_history: "queueMigration ev m up w = (r, w') \<Longrightarrow> w_history w' = w_history w"
  by (auto simp: queueMigration_def split: option.splits prod.splits if_splits)

lemma render_queued:
  "render_items d (map Queued q) = Inr sts \<Longrightarrow> st \<in> set sts \<Longrightarrow> \<exists>x. st = Query x"
proof -
  have one: "render_item d (Queued a) = Inr ys \<Longrightarrow> st \<in> set ys \<Longrightarrow> \<exists>x. st = Query x" for a ys
    by (cases a) (auto simp: render_item_def bindr_Inl_iff)
  have "mapr (render_item d) (map Queued q) = Inr xs \<Longrightarrow> st \<in> set (concat xs) \<Longrightarrow> \<exists>x. st = Query x" for xs
  proof (induction q arbitrary: xs)
    case (Cons a q)
    obtain y ys where xs: "xs = y # ys" "render_item d (Queued a) = Inr y" "mapr (render_item d) (map Queued q) = Inr ys"
      using Cons.prems(1) by auto
    show ?case
    proof (cases "st \<in> set y")
      case True
      then show ?thesis by (rule one [OF xs(2)])
    next
      case False
      then show ?thesis using Cons.IH [OF xs(3)] Cons.prems(2) xs(1) by simp
    qed
  qed simp
  then show "render_items d (map Queued q) = Inr sts \<Longrightarrow> st \<in> set sts \<Longrightarrow> \<exists>x. st = Query x"
    by (auto simp: render_items_def)
qed

lemma render_deletes: "render_items d (map (\<lambda>n. Book (Delete n)) ns) = Inr (map (\<lambda>n. History (Delete n)) ns)"
proof -
  have "mapr (render_item d) (map (\<lambda>n. Book (Delete n)) ns) = Inr (map (\<lambda>n. [History (Delete n)]) ns)"
    by (induction ns) (simp_all add: render_item_def)
  moreover have "concat (map (\<lambda>n. [History (Delete n)]) ns) = map (\<lambda>n. History (Delete n)) ns" by (induction ns) simp_all
  ultimately show ?thesis by (simp add: render_items_def)
qed

lemma run_queries_history:
  "(\<And>st. st \<in> set sts \<Longrightarrow> \<exists>x. st = Query x) \<Longrightarrow> w_history (snd (run_each ev sts w)) = w_history w"
proof (induction sts arbitrary: w)
  case (Cons st sts)
  obtain x where "st = Query x" using Cons.prems [of st] by auto
  moreover obtain r s where "ev_exec ev x (w_user w) = (r, s)" by (rule prod.exhaust)
  ultimately show ?case using Cons.IH [of "w\<lparr>w_user := s\<rparr>"] Cons.prems
    by (auto simp: run_statement_def split: sum.split)
qed simp

lemma run_deletes:
  "w_history w = Some rows \<Longrightarrow> run_each ev (map (\<lambda>n. History (Delete n)) ns) w
    = (Inr (), w\<lparr>w_history := Some (filter (\<lambda>r. ap_name r \<notin> set ns) rows)\<rparr>)"
proof (induction ns arbitrary: w rows)
  case (Cons n ns)
  have "filter (\<lambda>r. ap_name r \<notin> set ns) (filter (\<lambda>r. ap_name r \<noteq> n) rows) = filter (\<lambda>r. ap_name r \<notin> set (n # ns)) rows"
    by (simp add: conj_commute)
  then show ?case using Cons.prems Cons.IH [of "w\<lparr>w_history := Some (filter (\<lambda>r. ap_name r \<noteq> n) rows)\<rparr>" "filter (\<lambda>r. ap_name r \<noteq> n) rows"]
    by (simp add: run_statement_def run_history_def)
qed simp

lemma run_each_snoc: "run_each ev (sts @ [st]) w = (case run_each ev sts w of (Inl e, w') \<Rightarrow> (Inl e, w') | (Inr _, w') \<Rightarrow> run_statement ev st w')"
proof (induction sts arbitrary: w)
  case Nil
  show ?case by (cases "run_statement ev st w") (auto split: sum.split)
qed (auto split: prod.split sum.split)

text \<open>A successful atomic execution is its statements followed by the bookkeeping, batched or not.\<close>

lemma atomic_success:
  assumes "executeAtomic ev items book w = (Inr u, w')"
  obtains sts w1 where "render_items (ev_dialect ev) items = Inr sts" and "run_each ev sts w = (Inr (), w1)" and "run_history book w1 = (Inr (), w')"
proof -
  obtain sts where sts: "render_items (ev_dialect ev) items = Inr sts"
    using assms by (cases "render_items (ev_dialect ev) items") (auto simp: executeAtomic_def)
  obtain r w1 where r: "run_each ev sts w = (r, w1)" by (rule prod.exhaust)
  show thesis
  proof (cases r)
    case (Inl e)
    then show ?thesis using assms sts r by (auto simp: executeAtomic_def run_batch_def run_each_snoc split: if_splits)
  next
    case (Inr u)
    then have "run_history book w1 = (Inr (), w')" using assms sts r
      by (auto simp: executeAtomic_def run_batch_def run_each_snoc run_statement_def split: if_splits prod.splits sum.splits)
    then show ?thesis using that sts r Inr by simp
  qed
qed

lemma insert_success: "run_history (Insert row) w = (Inr u, w') \<Longrightarrow>
  \<exists>rows. w_history w = Some rows \<and> ap_name row \<notin> ap_name ` set rows \<and> w_history w' = Some (rows @ [row])"
  by (auto simp: run_history_def split: option.splits if_splits)

definition gone_names :: "'s migration \<Rightarrow> 's world \<Rightarrow> string list" where
  "gone_names m w = (if consolidates m w then replacements m else [])"

text \<open>What one applied migration does to the history.\<close>

lemma apply_one_history:
  assumes "apply_one ev batch s w = (Inr u, w')"
  shows "\<exists>rows. w_history w = Some rows \<and> w_history w' = Some (filter (\<lambda>r. ap_name r \<notin> set (gone_names (st_migration s) w)) rows @ [history_row ev batch s]) \<and>
    mi_name (st_migration s) \<notin> ap_name ` set (filter (\<lambda>r. ap_name r \<notin> set (gone_names (st_migration s) w)) rows)"
proof -
  let ?m = "st_migration s"
  show ?thesis
  proof (cases "consolidates ?m w")
    case True
    then have "consolidate_action ev batch s w = (Inr (), w')"
      using assms by (auto simp: apply_one_def Let_def runMigration_def consolidates_def partly_replaced_def split: prod.splits sum.splits)
    then obtain w1 where w1: "run_each ev (map (\<lambda>n. History (Delete n)) (replacements ?m)) w = (Inr (), w1)"
        "run_history (Insert (history_row ev batch s)) w1 = (Inr (), w')"
      unfolding consolidate_action_def by (elim atomic_success) (simp add: render_deletes)
    have "replacements ?m \<noteq> []" "applied_replacements ?m w \<noteq> []" using True by (auto simp: consolidates_def)
    then obtain rows where rows: "w_history w = Some rows" by (cases "w_history w") (auto simp: applied_replacements_def history_rows_def)
    show ?thesis using run_deletes [OF rows, of ev "replacements ?m"] w1 insert_success [OF w1(2)] rows True
      by (auto simp: gone_names_def history_row_def)
  next
    case False
    then have "apply_action ev batch s w = (Inr (), w')"
      using assms by (auto simp: apply_one_def Let_def runMigration_def split: prod.splits sum.splits if_splits)
    then obtain q w0 where q: "queueMigration ev ?m True w = (Inr q, w0)"
        "executeAtomic ev (map Queued q) (Insert (history_row ev batch s)) w0 = (Inr (), w')"
      by (auto simp: apply_action_def split: prod.splits sum.splits)
    obtain sts w1 where s: "render_items (ev_dialect ev) (map Queued q) = Inr sts" "run_each ev sts w0 = (Inr (), w1)"
        "run_history (Insert (history_row ev batch s)) w1 = (Inr (), w')"
      using q(2) by (rule atomic_success)
    have "w_history w1 = w_history w"
    proof -
      have "w_history (snd (run_each ev sts w0)) = w_history w0"
        by (rule run_queries_history) (rule render_queued [OF s(1)])
      then show ?thesis using s(2) queue_history [OF q(1)] by simp
    qed
    then show ?thesis using insert_success [OF s(3)] False by (auto simp: gone_names_def history_row_def)
  qed
qed


section \<open>Failures stop between migrations\<close>






definition statuses :: "'s env \<Rightarrow> 's migration list \<Rightarrow> 's world \<Rightarrow> 's migration_status list" where
  "statuses ev ms w = (case fst (status ev ms False w) of Inl e \<Rightarrow> [] | Inr sts \<Rightarrow> sts)"

definition pending_of :: "'s env \<Rightarrow> 's migration list \<Rightarrow> nat option \<Rightarrow> 's world \<Rightarrow> 's migration_status list" where
  "pending_of ev ms count w = take_count count (filter (\<lambda>s. st_state s = Pending) (statuses ev ms w))"

definition batch_for :: "'s world \<Rightarrow> int" where
  "batch_for w = next_batch (sort_by row_order (history_rows w))"

lemma ensure_idem [simp]: "ensureTable (ensureTable w) = ensureTable w"
  by (simp add: ensureTable_def split: option.split)

lemma ensure_rows [simp]: "history_rows (ensureTable w) = history_rows w"
  by (simp add: ensureTable_def history_rows_def split: option.split)

lemma batch_ensure [simp]: "batch_for (ensureTable w) = batch_for w"
  by (simp add: batch_for_def)

lemma migrate_up_cases:
  assumes "migrate_up ev ms count w = (r, w')"
  shows "w' = ensureTable w \<and> (\<exists>e. r = Inl e) \<or>
    (w' = ensureTable w \<and> r = Inr [] \<and> pending_of ev ms count w = [] \<and> \<not> has_changed (statuses ev ms w) \<and> fst (status ev ms False w) = Inr (statuses ev ms w)) \<or>
    (apply_each ev (batch_for w) (pending_of ev ms count w) (ensureTable w) [] = (r, w') \<and> \<not> has_changed (statuses ev ms w) \<and>
       fst (status ev ms False w) = Inr (statuses ev ms w))"
  using assms by (auto simp: migrate_up_def status_def applied_def Let_def statuses_def pending_of_def batch_for_def split: sum.splits if_splits)

lemma statuses_from: "s \<in> set (statuses ev ms w) \<Longrightarrow> \<exists>m \<in> set ms. s = status_of ev (sort_by row_order (history_rows w)) m"
  by (auto simp: statuses_def status_def applied_def Let_def sorted_migrations_def split: sum.splits if_splits)

lemma pending_from: "s \<in> set (pending_of ev ms count w) \<Longrightarrow> s \<in> set (statuses ev ms w) \<and> st_state s = Pending"
  by (auto simp: pending_of_def take_count_def split: option.splits dest: in_set_takeD)



section \<open>After a successful run\<close>

lemma distinct_map_insert_by: "distinct (map f (insert_by cmp x xs)) \<longleftrightarrow> distinct (map f (x # xs))"
  by (induction xs) auto

lemma distinct_map_sort_by: "distinct (map f (sort_by cmp xs)) \<longleftrightarrow> distinct (map f xs)"
  by (induction xs) (simp_all add: distinct_map_insert_by)

lemma distinct_map_eq: "distinct (map f xs) \<Longrightarrow> x \<in> set xs \<Longrightarrow> y \<in> set xs \<Longrightarrow> f x = f y \<Longrightarrow> x = y"
  by (auto simp: distinct_map dest: inj_onD)

lemma status_row:
  assumes "distinct (map ap_name rows)"
  shows "st_applied (status_of ev (sort_by row_order rows) m) = Some r \<longleftrightarrow> r \<in> set rows \<and> ap_name r = mi_name m"
proof -
  let ?l = "rev (map (\<lambda>r. (ap_name r, r)) (sort_by row_order rows))"
  have "map fst ?l = rev (map ap_name (sort_by row_order rows))" by (simp add: rev_map [symmetric] o_def)
  then have "distinct (map fst ?l)" using assms by (simp add: distinct_map_sort_by)
  from map_of_eq_Some_iff [OF this, of "mi_name m" r] show ?thesis by (auto simp: status_of_def Let_def image_iff)
qed

definition recorded :: "'s env \<Rightarrow> 's world \<Rightarrow> 's migration \<Rightarrow> bool" where
  "recorded ev w m \<longleftrightarrow> (\<exists>r \<in> set (history_rows w). ap_name r = mi_name m \<and> checksumMatches ev m (ap_checksum r) (ev_checksum ev m))"

definition history_ok :: "'s world \<Rightarrow> bool" where
  "history_ok w \<longleftrightarrow> distinct (map ap_name (history_rows w))"

lemma status_applied:
  assumes "history_ok w"
  shows "st_state (status_of ev (sort_by row_order (history_rows w)) m) = Applied \<longleftrightarrow> recorded ev w m"
proof -
  let ?s = "status_of ev (sort_by row_order (history_rows w)) m"
  note row = status_row [OF assms [unfolded history_ok_def], of ev m]
  have st: "st_state ?s = (case st_applied ?s of None \<Rightarrow> Pending | Some r \<Rightarrow> if checksumMatches ev m (ap_checksum r) (ev_checksum ev m) then Applied else Changed)"
    by (simp add: status_of_def Let_def)
  show ?thesis
  proof (cases "st_applied ?s")
    case None
    then have "\<not> recorded ev w m" using row by (auto simp: recorded_def)
    then show ?thesis using st None by simp
  next
    case (Some r)
    then have r: "r \<in> set (history_rows w)" "ap_name r = mi_name m" using row by auto
    have "r' = r" if "r' \<in> set (history_rows w)" "ap_name r' = mi_name m" for r'
      using distinct_map_eq [OF assms [unfolded history_ok_def] that(1) r(1)] that(2) r(2) by simp
    then have "recorded ev w m \<longleftrightarrow> checksumMatches ev m (ap_checksum r) (ev_checksum ev m)" unfolding recorded_def using r by blast
    then show ?thesis using st Some by simp
  qed
qed

definition replaced_apart :: "'s migration list \<Rightarrow> bool" where
  "replaced_apart ms \<longleftrightarrow> list_all (\<lambda>m. list_all (\<lambda>n. n \<notin> set (map mi_name ms)) (replacements m)) ms"

lemma apply_one_records:
  assumes "apply_one ev batch s w = (Inr u, w')" and "history_ok w" and "st_checksum s = ev_checksum ev (st_migration s)"
    and "replaced_apart ms" and "st_migration s \<in> set ms"
  shows "history_ok w'" "recorded ev w' (st_migration s)" "m \<in> set ms \<Longrightarrow> recorded ev w m \<Longrightarrow> recorded ev w' m"
proof -
  obtain rows where rows: "w_history w = Some rows"
    "w_history w' = Some (filter (\<lambda>r. ap_name r \<notin> set (gone_names (st_migration s) w)) rows @ [history_row ev batch s])"
    "mi_name (st_migration s) \<notin> ap_name ` set (filter (\<lambda>r. ap_name r \<notin> set (gone_names (st_migration s) w)) rows)"
    using apply_one_history [OF assms(1)] by blast
  show "history_ok w'" using rows assms(2)
    by (auto simp: history_ok_def history_rows_def history_row_def distinct_map_filter)
  show "recorded ev w' (st_migration s)" using rows(2) assms(3)
    by (auto simp: recorded_def history_rows_def history_row_def checksumMatches_def)
  show "recorded ev w' m" if m: "m \<in> set ms" "recorded ev w m"
  proof -
    obtain r where r: "r \<in> set rows" "ap_name r = mi_name m" "checksumMatches ev m (ap_checksum r) (ev_checksum ev m)"
      using m(2) rows(1) by (auto simp: recorded_def history_rows_def)
    have "mi_name m \<notin> set (replacements (st_migration s))" using assms(4,5) m(1) by (auto simp: replaced_apart_def list_all_iff)
    then have "r \<in> set (history_rows w')" using r rows(2) by (auto simp: history_rows_def gone_names_def)
    then show ?thesis using r by (auto simp: recorded_def)
  qed
qed

lemma apply_each_records:
  assumes "apply_each ev batch ss w names = (Inr names', w')" and "history_ok w" and "replaced_apart ms"
    and "\<And>s. s \<in> set ss \<Longrightarrow> st_checksum s = ev_checksum ev (st_migration s) \<and> st_migration s \<in> set ms"
  shows "history_ok w' \<and> names' = names @ map (\<lambda>s. mi_name (st_migration s)) ss \<and>
    (\<forall>m \<in> set ms. recorded ev w m \<or> m \<in> st_migration ` set ss \<longrightarrow> recorded ev w' m)"
  using assms(1,2,4)
proof (induction ss arbitrary: w names)
  case (Cons s ss)
  obtain u w1 where one: "apply_one ev batch s w = (Inr u, w1)"
    and rest: "apply_each ev batch ss w1 (names @ [mi_name (st_migration s)]) = (Inr names', w')"
    using Cons.prems(1) by (auto split: prod.splits sum.splits)
  have s: "st_checksum s = ev_checksum ev (st_migration s)" "st_migration s \<in> set ms" using Cons.prems(3) [of s] by auto
  note rec = apply_one_records [OF one Cons.prems(2) s(1) assms(3) s(2)]
  from Cons.IH [OF rest rec(1)] Cons.prems(3) show ?case using rec(2,3) by auto
qed simp

text \<open>C18. A successful \<open>up\<close> leaves nothing to do. When migrations that others replace are no longer in
  the list: after \<open>up\<close> has succeeded, \<open>check\<close> passes, and running \<open>up\<close> again applies no migration
  and changes nothing, neither the history nor the application's data.\<close>

theorem up_then_nothing_pending:
  assumes "migrate_up ev ms None w = (Inr names, w')" and "history_ok w" and "replaced_apart ms"
  shows "migrate_up ev ms None w' = (Inr [], w') \<and> check ev ms w' = Inr ()"
proof -
  have ok: "history_ok (ensureTable w)" using assms(2) by (simp add: history_ok_def)
  have sorted: "sorted_migrations ev ms = Inr (sort_by (\<lambda>a b. ev_compare ev (mi_name a) (mi_name b)) ms)"
    using migrate_up_cases [OF assms(1)] by (auto simp: status_def applied_def Let_def sorted_migrations_def split: if_splits)
  let ?s = "sort_by (\<lambda>a b. ev_compare ev (mi_name a) (mi_name b)) ms"
  let ?st = "\<lambda>w. map (status_of ev (sort_by row_order (history_rows w))) ?s"
  have sts: "statuses ev ms w = ?st w" for w by (simp add: statuses_def status_def applied_def Let_def sorted)
  have unchanged: "\<not> has_changed (?st w)" using migrate_up_cases [OF assms(1)] by (auto simp: sts)
  have state: "st_state (status_of ev (sort_by row_order (history_rows w)) m) = Pending \<or> recorded ev w m" if "m \<in> set ms" for m
    using unchanged that status_applied [OF assms(2), of ev m]
    by (cases "st_state (status_of ev (sort_by row_order (history_rows w)) m)") (auto simp: has_changed_def list_ex_iff)
  have fin: "history_ok w' \<and> (\<forall>m \<in> set ms. recorded ev w' m) \<and> w_history w' \<noteq> None"
  proof (cases "pending_of ev ms None w = []")
    case True
    then have w': "w' = ensureTable w" using migrate_up_cases [OF assms(1)] by auto
    have "recorded ev w m" if "m \<in> set ms" for m
      using True state [OF that] that by (auto simp: pending_of_def take_count_def sts filter_empty_conv)
    then have "recorded ev (ensureTable w) m" if "m \<in> set ms" for m using that by (simp add: recorded_def)
    moreover have "w_history (ensureTable w) \<noteq> None" by (simp add: ensureTable_def split: option.split)
    ultimately show ?thesis using ok w' by simp
  next
    case False
    then have run: "apply_each ev (batch_for w) (pending_of ev ms None w) (ensureTable w) [] = (Inr names, w')"
      using migrate_up_cases [OF assms(1)] by auto
    have "st_checksum s = ev_checksum ev (st_migration s) \<and> st_migration s \<in> set ms" if s: "s \<in> set (pending_of ev ms None w)" for s
      using statuses_from [of s ev ms w] pending_from [OF s] by (auto simp: status_of_def Let_def)
    from apply_each_records [OF run ok assms(3) this] have rec: "history_ok w'"
      "\<And>m. m \<in> set ms \<Longrightarrow> recorded ev (ensureTable w) m \<or> m \<in> st_migration ` set (pending_of ev ms None w) \<Longrightarrow> recorded ev w' m" by blast+
    have "recorded ev w' m" if m: "m \<in> set ms" for m
    proof (cases "recorded ev w m")
      case True
      then have "recorded ev (ensureTable w) m" by (simp add: recorded_def)
      then show ?thesis using rec(2) [OF m] by blast
    next
      case False
      let ?x = "status_of ev (sort_by row_order (history_rows w)) m"
      have "?x \<in> set (pending_of ev ms None w)" using state [OF m] False m by (simp add: pending_of_def take_count_def sts)
      moreover have "st_migration ?x = m" by (simp add: status_of_def Let_def)
      ultimately have "m \<in> st_migration ` set (pending_of ev ms None w)" by (metis image_eqI)
      then show ?thesis using rec(2) [OF m] by blast
    qed
    moreover have "history_rows w' \<noteq> []"
    proof -
      obtain x where "x \<in> set (pending_of ev ms None w)" using False by (cases "pending_of ev ms None w") auto
      then have "st_migration x \<in> set ms" using statuses_from [of x ev ms w] pending_from by (fastforce simp: status_of_def Let_def)
      then show ?thesis using calculation by (fastforce simp: recorded_def)
    qed
    ultimately show ?thesis using rec(1) by (cases "w_history w'") (auto simp: history_rows_def)
  qed
  have ens: "ensureTable w' = w'" using fin by (auto simp: ensureTable_def)
  have all: "st_state x = Applied" if "x \<in> set (?st w')" for x
    using that fin status_applied [of w' ev] by auto
  then have "\<not> has_changed (?st w')" "filter (\<lambda>s. st_state s = Pending) (?st w') = []"
    by (auto simp: has_changed_def list_ex_iff filter_empty_conv)
  moreover have "\<not> list_ex (\<lambda>s. st_state s \<noteq> Applied) (?st w')" using all by (auto simp: list_ex_iff)
  ultimately show ?thesis
    by (simp add: migrate_up_def check_def status_def applied_def Let_def sorted ens take_count_def)
qed



section \<open>Down undoes the last up\<close>

lemma insert_by_first:
  assumes "ys = [] \<or> cmp x (hd ys) \<le> 0"
  shows "insert_by cmp x ys = x # ys"
  using assms by (cases ys) auto

lemma sort_by_least:
  assumes "x \<in> set xs" and "\<And>y. y \<in> set xs \<Longrightarrow> y \<noteq> x \<Longrightarrow> cmp x y \<le> 0 \<and> cmp y x > 0" and "distinct xs"
  shows "hd (sort_by cmp xs) = x"
  using assms
proof (induction xs)
  case (Cons z xs)
  show ?case
  proof (cases "z = x")
    case True
    have "sort_by cmp xs = [] \<or> cmp x (hd (sort_by cmp xs)) \<le> 0"
    proof (cases "sort_by cmp xs")
      case (Cons w ws)
      then have "w \<in> set xs" by (metis list.set_intros(1) set_sort_by)
      then have "w \<noteq> x" using Cons.prems(3) True by auto
      then show ?thesis using Cons.prems(2) [of w] \<open>w \<in> set xs\<close> Cons by simp
    qed simp
    then show ?thesis using True by (simp add: insert_by_first)
  next
    case False
    then have m: "x \<in> set xs" using Cons.prems(1) by simp
    then have h: "hd (sort_by cmp xs) = x" using Cons.IH Cons.prems by simp
    have "cmp z x > 0" using Cons.prems(2) [of z] False by simp
    moreover have "sort_by cmp xs \<noteq> []" using m by (metis empty_iff list.set(1) set_sort_by)
    then obtain ws where "sort_by cmp xs = x # ws" using h by (cases "sort_by cmp xs") auto
    ultimately show ?thesis by simp
  qed
qed simp

lemma next_batch_greater: "r \<in> set rows \<Longrightarrow> ap_batch r < next_batch rows"
proof -
  have "r \<in> set rows \<Longrightarrow> ap_batch r \<le> foldr (\<lambda>r b. max (ap_batch r) b) rows 0"
    by (induction rows) (auto simp: max.coboundedI1 max.coboundedI2)
  then show "r \<in> set rows \<Longrightarrow> ap_batch r < next_batch rows" by (simp add: next_batch_def)
qed

lemma revert_history:
  assumes "runMigration ev (revert_action ev s) w = (Inr u, w')"
  shows "history_rows w' = filter (\<lambda>r. ap_name r \<noteq> mi_name (st_migration s)) (history_rows w)"
proof -
  have "revert_action ev s w = (Inr (), w')"
    using assms by (auto simp: runMigration_def split: prod.splits sum.splits if_splits)
  then obtain q w0 where q: "queueMigration ev (st_migration s) False w = (Inr q, w0)"
      "executeAtomic ev (map Queued q) (Delete (mi_name (st_migration s))) w0 = (Inr (), w')"
    by (auto simp: revert_action_def split: prod.splits sum.splits)
  obtain sts w1 where s: "render_items (ev_dialect ev) (map Queued q) = Inr sts" "run_each ev sts w0 = (Inr (), w1)"
      "run_history (Delete (mi_name (st_migration s))) w1 = (Inr (), w')"
    using q(2) by (rule atomic_success)
  have "w_history (snd (run_each ev sts w0)) = w_history w0" by (rule run_queries_history) (rule render_queued [OF s(1)])
  then have "w_history w1 = w_history w" using s(2) queue_history [OF q(1)] by simp
  then show ?thesis using s(3) by (auto simp: run_history_def history_rows_def split: option.splits)
qed

lemma status_name [simp]: "st_migration (status_of ev rows m) = m"
  by (simp add: status_of_def Let_def)

text \<open>C19. \<open>down\<close> undoes the last \<open>up\<close>: after one pending migration (none of the list replacing
  others) has been applied, \<open>down\<close> picks exactly that migration, whatever the order of names, and
  when it succeeds the history is what it was before.\<close>

theorem down_after_up:
  assumes up: "migrate_up ev ms (Some 1) w = (Inr [n], w1)" and ok: "history_ok w" and plain: "list_all (\<lambda>m. mi_replaces m = None) ms"
    and down: "migrate_down ev ms None w1 = (Inr ns, w2)" and dist: "distinct (map mi_name ms)"
  shows "ns = [n] \<and> history_rows w2 = history_rows w"
proof -
  have sorted: "sorted_migrations ev ms = Inr (sort_by (\<lambda>a b. ev_compare ev (mi_name a) (mi_name b)) ms)"
    using migrate_up_cases [OF up] by (auto simp: status_def applied_def Let_def sorted_migrations_def split: if_splits)
  let ?ms = "sort_by (\<lambda>a b. ev_compare ev (mi_name a) (mi_name b)) ms"
  have run: "apply_each ev (batch_for w) (pending_of ev ms (Some 1) w) (ensureTable w) [] = (Inr [n], w1)"
    using migrate_up_cases [OF up] by auto
  have "length (pending_of ev ms (Some 1) w) \<le> 1" by (simp add: pending_of_def take_count_def)
  moreover have "pending_of ev ms (Some 1) w \<noteq> []" using run by auto
  ultimately obtain s where s: "pending_of ev ms (Some 1) w = [s]" by (cases "pending_of ev ms (Some 1) w") auto
  obtain m where m: "m \<in> set ms" "s = status_of ev (sort_by row_order (history_rows w)) m"
    using statuses_from pending_from s by (metis list.set_intros(1))
  obtain u where one: "apply_one ev (batch_for w) s (ensureTable w) = (Inr u, w1)" and n: "n = mi_name m"
    using run [unfolded s] m(2) by (auto split: prod.splits sum.splits)
  have "replacements m = []" using plain m(1) by (auto simp: list_all_iff replacements_def)
  then have "gone_names m (ensureTable w) = []" by (simp add: gone_names_def)
  then have h1: "history_rows w1 = history_rows w @ [history_row ev (batch_for w) s]" "mi_name m \<notin> ap_name ` set (history_rows w)"
    using apply_one_history [OF one] m(2) by (auto simp: history_rows_def ensureTable_def split: option.splits)
  have ok1: "distinct (map ap_name (history_rows w1))" using ok h1 m(2) by (auto simp: history_ok_def history_row_def)
  note row = status_row [OF ok1, of ev]
  let ?st = "status_of ev (sort_by row_order (history_rows w1))"
  have top: "st_applied (?st m) = Some (history_row ev (batch_for w) s)"
    unfolding row using h1(1) m(2) by (simp add: history_row_def)
  have lower: "batch_of (?st m') < batch_of (?st m)" if mm: "m' \<in> set ms" "m' \<noteq> m" "st_applied (?st m') \<noteq> None" for m'
  proof -
    obtain r where r: "st_applied (?st m') = Some r" using mm(3) by blast
    then have "r \<in> set (history_rows w1)" "ap_name r = mi_name m'" using row by auto
    moreover have "mi_name m' \<noteq> mi_name m" using distinct_map_eq [OF dist mm(1) m(1)] mm(2) by blast
    ultimately have "r \<in> set (history_rows w)" using h1(1) m(2) by (auto simp: history_row_def)
    then have "ap_batch r < batch_for w" using next_batch_greater [of r "sort_by row_order (history_rows w)"] by (simp add: batch_for_def)
    then show ?thesis using r top by (simp add: batch_of_def history_row_def)
  qed
  let ?l = "filter (\<lambda>s. st_applied s \<noteq> None) (map ?st ?ms)"
  have "distinct (map mi_name ?ms)" using dist by (simp add: distinct_map_sort_by)
  then have "distinct (map (\<lambda>x. mi_name (st_migration x)) (map ?st ?ms))" by (simp add: o_def)
  then have "distinct (map ?st ?ms)" by (metis distinct_map map_map comp_def)
  then have dl: "distinct ?l" by simp
  have first: "hd (sort_by (latest_first ev) ?l) = ?st m"
  proof (rule sort_by_least [OF _ _ dl])
    show "?st m \<in> set ?l" using m(1) top by simp
    fix y assume y: "y \<in> set ?l" "y \<noteq> ?st m"
    then obtain m' where "m' \<in> set ms" "y = ?st m'" "st_applied (?st m') \<noteq> None" by auto
    moreover have "m' \<noteq> m" using y(2) calculation(2) by blast
    ultimately show "latest_first ev (?st m) y \<le> 0 \<and> latest_first ev y (?st m) > 0" using lower [of m'] by (simp add: latest_first_def)
  qed
  have "?st m \<in> set ?l" using m(1) top by simp
  then have "sort_by (latest_first ev) ?l \<noteq> []" by (metis empty_iff list.set(1) set_sort_by)
  then have pick: "take 1 (sort_by (latest_first ev) ?l) = [?st m]" using first by (cases "sort_by (latest_first ev) ?l") auto
  have e1: "w_history w1 \<noteq> None" using h1(1) by (cases "w_history w1") (auto simp: history_rows_def)
  then have "ensureTable w1 = w1" by (auto simp: ensureTable_def)
  then have "revert_each ev (take 1 (sort_by (latest_first ev) ?l)) w1 [] = (Inr ns, w2)"
    using down by (auto simp: migrate_down_def status_def applied_def Let_def sorted split: if_splits)
  then obtain u' where rv: "runMigration ev (revert_action ev (?st m)) w1 = (Inr u', w2)" and ns: "ns = [mi_name m]"
    unfolding pick by (auto split: prod.splits sum.splits)
  have "history_rows w2 = filter (\<lambda>r. ap_name r \<noteq> mi_name m) (history_rows w1)" using revert_history [OF rv] by simp
  also have "\<dots> = filter (\<lambda>r. ap_name r \<noteq> mi_name m) (history_rows w)" using h1(1) m(2) by (simp add: history_row_def)
  also have "\<dots> = history_rows w" using h1(2) by (metis (mono_tags, lifting) filter_True image_eqI)
  finally show ?thesis using ns n by simp
qed


section \<open>A concrete run\<close>

definition sql_migration :: "string \<Rightarrow> string \<Rightarrow> string list migration" where
  "sql_migration n t = \<lparr>mi_name = n, mi_replaces = None, mi_operations = Some ([MSql [SText t]], Some [MSql [SText ''undo'']]),
     mi_up = None, mi_down = None\<rparr>"

definition log_env :: "string list env" where
  "log_env = \<lparr>ev_dialect = Sqlite, ev_transactions = False, ev_batch = True, ev_batchLimit = 10,
     ev_exec = (\<lambda>(t, ps) s. if t = ''bad'' then (Inl QueryError, s) else (Inr (), s @ [t])),
     ev_checksum = mi_name, ev_raw = (\<lambda>_. ''raw''), ev_compare = (\<lambda>a b. if a < b then - 1 else if a = b then 0 else 1),
     ev_now = (\<lambda>_. ''now'')\<rparr>"

definition fresh_world :: "string list world" where
  "fresh_world = \<lparr>w_user = [], w_history = None\<rparr>"


lemma up_then_nothing_pending_witness:
  "migrate_up log_env [sql_migration ''b'' ''two'', sql_migration ''a'' ''one''] None
     \<lparr>w_user = [''one'', ''two''], w_history = Some [\<lparr>ap_name = ''a'', ap_checksum = ''a'', ap_batch = 1, ap_appliedAt = ''now''\<rparr>,
       \<lparr>ap_name = ''b'', ap_checksum = ''b'', ap_batch = 1, ap_appliedAt = ''now''\<rparr>]\<rparr>
   = (Inr [], \<lparr>w_user = [''one'', ''two''], w_history = Some [\<lparr>ap_name = ''a'', ap_checksum = ''a'', ap_batch = 1, ap_appliedAt = ''now''\<rparr>,
       \<lparr>ap_name = ''b'', ap_checksum = ''b'', ap_batch = 1, ap_appliedAt = ''now''\<rparr>]\<rparr>)"
proof -
  have "migrate_up log_env [sql_migration ''b'' ''two'', sql_migration ''a'' ''one''] None fresh_world
    = (Inr [''a'', ''b''], \<lparr>w_user = [''one'', ''two''], w_history = Some [\<lparr>ap_name = ''a'', ap_checksum = ''a'', ap_batch = 1, ap_appliedAt = ''now''\<rparr>,
       \<lparr>ap_name = ''b'', ap_checksum = ''b'', ap_batch = 1, ap_appliedAt = ''now''\<rparr>]\<rparr>)" by code_simp
  moreover have "history_ok fresh_world" "replaced_apart [sql_migration ''b'' ''two'', sql_migration ''a'' ''one'']" by code_simp+
  ultimately show ?thesis using up_then_nothing_pending by blast
qed

lemma down_after_up_witness:
  "history_rows (snd (migrate_down log_env [sql_migration ''a'' ''one''] None
     \<lparr>w_user = [''one''], w_history = Some [\<lparr>ap_name = ''a'', ap_checksum = ''a'', ap_batch = 1, ap_appliedAt = ''now''\<rparr>]\<rparr>)) = []"
proof -
  let ?ms = "[sql_migration ''a'' ''one'']"
  let ?w1 = "\<lparr>w_user = [''one''], w_history = Some [\<lparr>ap_name = ''a'', ap_checksum = ''a'', ap_batch = 1, ap_appliedAt = ''now''\<rparr>]\<rparr>"
  have up: "migrate_up log_env ?ms (Some 1) fresh_world = (Inr [''a''], ?w1)" by code_simp
  have "fst (migrate_down log_env ?ms None ?w1) = Inr [''a'']" by code_simp
  then have down: "migrate_down log_env ?ms None ?w1 = (Inr [''a''], snd (migrate_down log_env ?ms None ?w1))" by (simp add: prod_eq_iff)
  have "history_ok fresh_world" by code_simp
  from down_after_up [OF up this _ down] show ?thesis by (simp add: sql_migration_def fresh_world_def history_rows_def)
qed

end
