(* ===== verification/Rpc_Stream.thy ===== *)
theory Rpc_Stream
  imports Prelude "HOL-Library.Word"
begin

text \<open>
  The client side of the streamed RPC protocol (\<open>core/src/shared/rpc-stream.ts\<close>): validation of
  frames, the incremental reader of newline-separated frames with its one growing buffer, and the
  reader of bodies that an action owns.

  A body is what its reader delivers, read by read: a chunk of bytes, the end, a failure, or the
  discovery that the call was aborted. \<open>TextDecoder\<close> followed by \<open>JSON.parse\<close> is the parameter
  \<open>parse\<close>, any partial function from bytes to values. A generator is what it yields and how it
  ends; one whose reader delivers no more is still waiting.
\<close>

section \<open>Errors\<close>

text \<open>The status of a reply is set on errors of the HTTP transport.\<close>

(* models packages/core/src/shared/rpc-stream.ts:16-30 RpcError *)
record rpc_error =
  re_code :: string
  re_message :: string
  re_requestId :: "string option"
  re_status :: "int option"

definition rpc_error :: "string \<Rightarrow> string \<Rightarrow> string option \<Rightarrow> rpc_error" where
  "rpc_error c m r = \<lparr>re_code = c, re_message = m, re_requestId = r, re_status = None\<rparr>"

definition uncertain_codes :: "string list" where
  "uncertain_codes = [''COSSACK_RPC_NETWORK_FAILED'', ''COSSACK_RPC_TRANSPORT_CLOSED'', ''COSSACK_RPC_TIMEOUT'',
     ''COSSACK_RPC_CANCELLED'', ''COSSACK_RPC_RESPONSE_INVALID'', ''COSSACK_RPC_RESPONSE_TOO_LARGE'',
     ''COSSACK_RPC_STREAM_INVALID'', ''COSSACK_RPC_STREAM_TOO_LARGE'', ''COSSACK_RPC_STREAM_TRUNCATED'',
     ''COSSACK_RPC_BUFFER_EXCEEDED'', ''COSSACK_RPC_INTERNAL_ERROR'']"

definition server_status :: "rpc_error \<Rightarrow> bool" where
  "server_status e \<longleftrightarrow> (case re_status e of None \<Rightarrow> False | Some n \<Rightarrow> n \<ge> 500)"

text \<open>\<open>None\<close> is an error that is no \<open>RpcError\<close>.\<close>

(* models packages/core/src/shared/rpc-stream.ts:33-43 isUncertainRpcError *)
definition isUncertainRpcError :: "rpc_error option \<Rightarrow> bool" where
  "isUncertainRpcError err = (case err of None \<Rightarrow> False
   | Some e \<Rightarrow>
      if re_code e \<in> set uncertain_codes then True
      else if re_code e = ''COSSACK_RPC_SERIALIZATION_FAILED'' then re_requestId e \<noteq> None \<or> server_status e
      else re_code e = ''COSSACK_RPC_FAILED'' \<and> server_status e)"


section \<open>Frames\<close>

definition MAX_FRAME :: nat where
  "MAX_FRAME = 1024 * 1024"

definition MAX_NATIVE :: nat where
  "MAX_NATIVE = 1024 * 1024"

definition nonblank :: "jsv \<Rightarrow> bool" where
  "nonblank v = (case v of JStr s \<Rightarrow> trim s \<noteq> [] | _ \<Rightarrow> False)"

definition is_jstr :: "jsv \<Rightarrow> bool" where
  "is_jstr v = (case v of JStr _ \<Rightarrow> True | _ \<Rightarrow> False)"

definition is_jobj :: "jsv \<Rightarrow> bool" where
  "is_jobj v = (case v of JObj _ \<Rightarrow> True | _ \<Rightarrow> False)"

definition frame_ok :: "jsv \<Rightarrow> bool" where
  "frame_ok f \<longleftrightarrow> is_jobj f \<and> jget f ''v'' = JNum (NInt 1) \<and> nonblank (jget f ''requestId'')
     \<and> jget f ''type'' \<in> {JStr ''yield'', JStr ''done'', JStr ''error''}
     \<and> (if jget f ''type'' = JStr ''error''
        then nonblank (jget f ''code'') \<and> is_jstr (jget f ''message'')
          \<and> (jget f ''fieldErrors'' \<noteq> JUndef \<longrightarrow> is_jobj (jget f ''fieldErrors''))
        else is_jobj (jget f ''state'') \<and> (jget f ''scopeState'' \<noteq> JUndef \<longrightarrow> is_jobj (jget f ''scopeState'')))"

(* models packages/core/src/shared/rpc-stream.ts:56-69 validateRpcFrame *)
definition validateRpcFrame :: "jsv \<Rightarrow> rpc_error + jsv" where
  "validateRpcFrame f = (if frame_ok f then Inr f
     else Inl (rpc_error ''COSSACK_RPC_STREAM_INVALID'' ''Unsupported or malformed RPC stream frame.'' None))"

type_synonym byte = "8 word"

definition newline :: byte where
  "newline = 10"

(* models packages/core/src/shared/rpc-stream.ts:45-53 parseFrame *)
definition parseFrame :: "(byte list \<Rightarrow> jsv option) \<Rightarrow> byte list \<Rightarrow> rpc_error + jsv" where
  "parseFrame parse bytes = (case parse bytes of
     None \<Rightarrow> Inl (rpc_error ''COSSACK_RPC_STREAM_INVALID'' ''Invalid RPC stream frame.'' None)
   | Some f \<Rightarrow> validateRpcFrame f)"

definition frame_request :: "jsv \<Rightarrow> string" where
  "frame_request f = (case jget f ''requestId'' of JStr s \<Rightarrow> s | _ \<Rightarrow> [])"

definition is_yield :: "jsv \<Rightarrow> bool" where
  "is_yield f \<longleftrightarrow> jget f ''type'' = JStr ''yield''"


section \<open>The buffer\<close>

text \<open>A \<open>Uint8Array\<close> has a fixed length; writing past its end is a \<open>RangeError\<close>.\<close>

definition set_bytes :: "byte list \<Rightarrow> byte list \<Rightarrow> nat \<Rightarrow> byte list option" where
  "set_bytes buf part off = (if off + length part \<le> length buf
     then Some (take off buf @ part @ drop (off + length part) buf) else None)"

definition grown_buffer :: "nat \<Rightarrow> byte list \<Rightarrow> byte list" where
  "grown_buffer n kept = kept @ replicate (n - length kept) 0"

record stream =
  ss_buffer :: "byte list"
  ss_size :: nat
  ss_terminal :: bool
  ss_completion :: "jsv option"
  ss_requestId :: "string option"

text \<open>What the body of the reader can throw: an \<open>RpcError\<close> or anything else.\<close>

datatype stream_failure = Rpc rpc_error | OtherFailure

definition stream_error :: "string \<Rightarrow> string \<Rightarrow> stream \<Rightarrow> stream_failure" where
  "stream_error c m s = Rpc (rpc_error c m (ss_requestId s))"

(* models packages/core/src/shared/rpc-stream.ts:86-101 readRpcStream.append *)
definition append_part :: "byte list \<Rightarrow> stream \<Rightarrow> stream_failure + stream" where
  "append_part part s =
     (if ss_terminal s \<and> part \<noteq> [] then Inl (stream_error ''COSSACK_RPC_STREAM_INVALID'' ''RPC stream contains data after its result.'' s)
      else (let nextSize = ss_size s + length part in
        if nextSize > MAX_FRAME then Inl (stream_error ''COSSACK_RPC_STREAM_TOO_LARGE'' ''RPC stream frame exceeds the byte limit.'' s)
        else (let buf = (if nextSize > length (ss_buffer s)
                then grown_buffer (min MAX_FRAME (max nextSize (2 * length (ss_buffer s)))) (take (ss_size s) (ss_buffer s))
                else ss_buffer s)
          in (case set_bytes buf part (ss_size s) of
                None \<Rightarrow> Inl OtherFailure
              | Some buf' \<Rightarrow> Inr (s\<lparr>ss_buffer := buf', ss_size := nextSize\<rparr>)))))"

(* models packages/core/src/shared/rpc-stream.ts:102-112 readRpcStream.decode *)
definition decode_frame :: "(byte list \<Rightarrow> jsv option) \<Rightarrow> stream \<Rightarrow> stream_failure + jsv \<times> stream" where
  "decode_frame parse s =
     (if ss_terminal s then Inl (stream_error ''COSSACK_RPC_STREAM_INVALID'' ''RPC stream contains frames after its result.'' s)
      else (case parseFrame parse (take (ss_size s) (ss_buffer s)) of
          Inl e \<Rightarrow> Inl (Rpc e)
        | Inr f \<Rightarrow>
           if ss_terminal s \<or> (ss_requestId s \<noteq> None \<and> Some (frame_request f) \<noteq> ss_requestId s)
           then Inl (stream_error ''COSSACK_RPC_STREAM_INVALID'' ''RPC stream contains inconsistent frames.'' s)
           else Inr (f, s\<lparr>ss_size := 0, ss_requestId := Some (frame_request f), ss_terminal := \<not> is_yield f\<rparr>)))"

text \<open>The \<open>catch\<close> clause: an \<open>RpcError\<close> gets the request's id if one is known by then, anything
  else is a network failure.\<close>

(* models packages/core/src/shared/rpc-stream.ts:136-139 readRpcStream *)
definition rethrow :: "string option \<Rightarrow> stream_failure \<Rightarrow> rpc_error" where
  "rethrow r e = (case e of
     Rpc c \<Rightarrow> c\<lparr>re_requestId := (case r of None \<Rightarrow> re_requestId c | Some x \<Rightarrow> Some x)\<rparr>
   | OtherFailure \<Rightarrow> rpc_error ''COSSACK_RPC_NETWORK_FAILED''
       ''RPC stream failed. The server outcome is unknown and is never retried.'' r)"

definition catching :: "stream \<Rightarrow> stream_failure + 'a \<Rightarrow> rpc_error + 'a" where
  "catching s r = (case r of Inl e \<Rightarrow> Inl (rethrow (ss_requestId s) e) | Inr x \<Rightarrow> Inr x)"

text \<open>The loop over one chunk: \<open>part\<close> is \<open>value.subarray(start, i)\<close>. What it yields comes first.\<close>

(* models packages/core/src/shared/rpc-stream.ts:119-128 readRpcStream *)
fun read_chunk :: "(byte list \<Rightarrow> jsv option) \<Rightarrow> byte list \<Rightarrow> byte list \<Rightarrow> stream \<Rightarrow> jsv list \<times> (rpc_error + stream)" where
  "read_chunk parse part [] s = ([], catching s (append_part part s))"
| "read_chunk parse part (b # bs) s =
     (if b \<noteq> newline then read_chunk parse (part @ [b]) bs s
      else (case catching s (bindr (append_part part s) (decode_frame parse)) of
          Inl e \<Rightarrow> ([], Inl e)
        | Inr (f, s') \<Rightarrow>
           if is_yield f then (let (ys, r) = read_chunk parse [] bs s' in (f # ys, r))
           else read_chunk parse [] bs (s'\<lparr>ss_completion := Some f\<rparr>)))"


section \<open>The reader\<close>

text \<open>One turn of the loop; the abort may be seen before or after the read.\<close>

datatype read_event = RChunk "byte list" | REof | RFails | RAborted

datatype outcome = Returned | Threw rpc_error | Waiting

(* models packages/core/src/shared/rpc-stream.ts:130-134 readRpcStream *)
definition finish_stream :: "stream \<Rightarrow> stream_failure + jsv option" where
  "finish_stream s =
     (if ss_size s \<noteq> 0 then Inl (stream_error ''COSSACK_RPC_STREAM_TRUNCATED'' ''RPC stream ended inside a frame.'' s)
      else if \<not> ss_terminal s then Inl (stream_error ''COSSACK_RPC_STREAM_TRUNCATED'' ''RPC stream ended without a result.'' s)
      else Inr (ss_completion s))"

fun read_loop :: "(byte list \<Rightarrow> jsv option) \<Rightarrow> read_event list \<Rightarrow> stream \<Rightarrow> jsv list \<times> outcome" where
  "read_loop parse [] s = ([], Waiting)"
| "read_loop parse (ev # evs) s = (case ev of
     RAborted \<Rightarrow> ([], Threw (rethrow (ss_requestId s) (stream_error ''COSSACK_RPC_CANCELLED'' ''RPC call was cancelled.'' s)))
   | RFails \<Rightarrow> ([], Threw (rethrow (ss_requestId s) OtherFailure))
   | REof \<Rightarrow> (case catching s (finish_stream s) of
        Inl e \<Rightarrow> ([], Threw e)
      | Inr completion \<Rightarrow> (case completion of None \<Rightarrow> [] | Some f \<Rightarrow> [f], Returned))
   | RChunk value \<Rightarrow> (case read_chunk parse [] value s of
        (ys, Inl e) \<Rightarrow> (ys, Threw e)
      | (ys, Inr s') \<Rightarrow> (let (zs, r) = read_loop parse evs s' in (ys @ zs, r))))"

definition start_stream :: "string option \<Rightarrow> stream" where
  "start_stream r = \<lparr>ss_buffer = replicate 4096 0, ss_size = 0, ss_terminal = False, ss_completion = None, ss_requestId = r\<rparr>"

text \<open>The id header: an empty one counts as absent. A reply without a body fails at once.\<close>

(* models packages/core/src/shared/rpc-stream.ts:72-147 readRpcStream *)
definition readRpcStream :: "(byte list \<Rightarrow> jsv option) \<Rightarrow> string option \<Rightarrow> read_event list option \<Rightarrow> jsv list \<times> outcome" where
  "readRpcStream parse header body =
     (let requestId = (if header = Some [] then None else header) in
      (case body of
         None \<Rightarrow> ([], Threw (rpc_error ''COSSACK_RPC_STREAM_INVALID'' ''RPC stream has no response body.'' requestId))
       | Some evs \<Rightarrow> read_loop parse evs (start_stream requestId)))"


section \<open>Bodies that the action owns\<close>

text \<open>\<open>Inr None\<close> is a response without a body. Failures of the reader pass through unwrapped.\<close>

datatype native_failure = NativeRpc rpc_error | NativeReader

datatype native_outcome = NativeBody "byte list option" | NativeThrew native_failure | NativeWaiting

definition native_append :: "byte list \<Rightarrow> byte list \<times> nat \<Rightarrow> (byte list \<times> nat) option" where
  "native_append value bs = (let size = snd bs + length value;
       buf = (if size > length (fst bs) then grown_buffer (min MAX_NATIVE (max size (2 * length (fst bs)))) (fst bs) else fst bs)
     in map_option (\<lambda>b. (b, size)) (set_bytes buf value (size - length value)))"

fun native_loop :: "string option \<Rightarrow> int \<Rightarrow> read_event list \<Rightarrow> byte list \<times> nat \<Rightarrow> native_outcome" where
  "native_loop r status [] bs = NativeWaiting"
| "native_loop r status (ev # evs) bs = (case ev of
     RAborted \<Rightarrow> NativeThrew (NativeRpc (rpc_error ''COSSACK_RPC_CANCELLED'' ''RPC call was cancelled.'' r))
   | RFails \<Rightarrow> NativeThrew NativeReader
   | REof \<Rightarrow> NativeBody (if snd bs = 0 \<and> status \<in> {204, 205, 304} then None else Some (take (snd bs) (fst bs)))
   | RChunk value \<Rightarrow>
      if snd bs + length value > MAX_NATIVE
      then NativeThrew (NativeRpc (rpc_error ''COSSACK_RPC_RESPONSE_TOO_LARGE''
        ''Native RPC response exceeds the byte limit. Use an HTTP endpoint for larger or continuous bodies.'' r))
      else (case native_append value bs of
          None \<Rightarrow> NativeThrew NativeReader
        | Some bs' \<Rightarrow> native_loop r status evs bs'))"

(* models packages/core/src/shared/rpc-stream.ts:154-192 readRpcNativeResponse *)
definition readRpcNativeResponse :: "string option \<Rightarrow> int \<Rightarrow> bool \<Rightarrow> read_event list option \<Rightarrow> native_outcome" where
  "readRpcNativeResponse r status aborted body =
     (if aborted then NativeThrew (NativeRpc (rpc_error ''COSSACK_RPC_CANCELLED'' ''RPC call was cancelled.'' r))
      else (case body of None \<Rightarrow> NativeBody None | Some evs \<Rightarrow> native_loop r status evs (replicate 4096 0, 0)))"

end
