(* ===== verification/Rpc_Stream_Facts.thy ===== *)
theory Rpc_Stream_Facts
  imports Rpc_Stream
begin

text \<open>
  What the stream reader promises. The reference reader works on the whole body, line by line,
  without chunks or a buffer; the incremental reader computes the same whatever the chunks are.
  The buffer always has room, frames that are yielded are well formed and of one request, and a
  result is yielded only when the body has ended behind it.
\<close>

section \<open>A reference reader\<close>

definition threw :: "string option \<Rightarrow> string \<Rightarrow> string \<Rightarrow> jsv list \<times> outcome" where
  "threw r c m = ([], Threw (rpc_error c m r))"

text \<open>\<open>t\<close>: the result has been read and is \<open>c\<close>. The last line is what follows the last newline.\<close>

fun read_lines :: "(byte list \<Rightarrow> jsv option) \<Rightarrow> bool \<Rightarrow> jsv option \<Rightarrow> string option \<Rightarrow> byte list list \<Rightarrow> jsv list \<times> outcome" where
  "read_lines parse t c r [] = ([], Waiting)"
| "read_lines parse t c r (l # ls) =
     (if t \<and> l \<noteq> [] then threw r ''COSSACK_RPC_STREAM_INVALID'' ''RPC stream contains data after its result.''
      else if length l > MAX_FRAME then threw r ''COSSACK_RPC_STREAM_TOO_LARGE'' ''RPC stream frame exceeds the byte limit.''
      else if ls = [] then
        (if l \<noteq> [] then threw r ''COSSACK_RPC_STREAM_TRUNCATED'' ''RPC stream ended inside a frame.''
         else if \<not> t then threw r ''COSSACK_RPC_STREAM_TRUNCATED'' ''RPC stream ended without a result.''
         else (case c of None \<Rightarrow> [] | Some f \<Rightarrow> [f], Returned))
      else if t then threw r ''COSSACK_RPC_STREAM_INVALID'' ''RPC stream contains frames after its result.''
      else (case parseFrame parse l of
          Inl e \<Rightarrow> threw r (re_code e) (re_message e)
        | Inr f \<Rightarrow>
           if r \<noteq> None \<and> Some (frame_request f) \<noteq> r
           then threw r ''COSSACK_RPC_STREAM_INVALID'' ''RPC stream contains inconsistent frames.''
           else if is_yield f then (let (ys, out) = read_lines parse False c (Some (frame_request f)) ls in (f # ys, out))
           else read_lines parse True (Some f) (Some (frame_request f)) ls))"

definition read_body :: "(byte list \<Rightarrow> jsv option) \<Rightarrow> stream \<Rightarrow> byte list \<Rightarrow> jsv list \<times> outcome" where
  "read_body parse s rest = read_lines parse (ss_terminal s) (ss_completion s) (ss_requestId s) (split_on newline rest)"


section \<open>The buffer holds the current line\<close>

text \<open>\<open>stream_rep s cur\<close>: the bytes of the line being read are \<open>cur\<close>, and no line follows the result.\<close>

definition stream_rep :: "stream \<Rightarrow> byte list \<Rightarrow> bool" where
  "stream_rep s cur \<longleftrightarrow> ss_size s = length cur \<and> length cur \<le> length (ss_buffer s) \<and> length (ss_buffer s) \<le> MAX_FRAME
     \<and> take (length cur) (ss_buffer s) = cur \<and> (ss_terminal s \<longrightarrow> cur = []) \<and> newline \<notin> set cur"

lemma stream_rep_start: "stream_rep (start_stream r) []"
  by (simp add: stream_rep_def start_stream_def MAX_FRAME_def)

lemma set_bytes_room:
  assumes "length cur + length part \<le> length buf" "take (length cur) buf = cur"
  shows "\<exists>buf'. set_bytes buf part (length cur) = Some buf' \<and> length buf' = length buf
    \<and> take (length cur + length part) buf' = cur @ part"
  using assms by (simp add: set_bytes_def)

lemma append_in_room:
  assumes "stream_rep s cur" "newline \<notin> set part" "ss_terminal s \<longrightarrow> part = []" "length cur + length part \<le> MAX_FRAME"
  shows "\<exists>s'. append_part part s = Inr s' \<and> stream_rep s' (cur @ part) \<and> ss_terminal s' = ss_terminal s
    \<and> ss_completion s' = ss_completion s \<and> ss_requestId s' = ss_requestId s"
proof -
  let ?next = "length cur + length part"
  let ?buf = "if ?next > length (ss_buffer s)
    then grown_buffer (min MAX_FRAME (max ?next (2 * length (ss_buffer s)))) cur else ss_buffer s"
  have room: "?next \<le> length ?buf" "take (length cur) ?buf = cur" and fit: "length ?buf \<le> MAX_FRAME"
    using assms by (auto simp: stream_rep_def grown_buffer_def)
  obtain buf' where "set_bytes ?buf part (length cur) = Some buf'" "length buf' = length ?buf" "take ?next buf' = cur @ part"
    using set_bytes_room [OF room] by blast
  then show ?thesis using assms room fit
    by (intro exI [of _ "s\<lparr>ss_buffer := buf', ss_size := ?next\<rparr>"]) (auto simp: append_part_def stream_rep_def Let_def)
qed

lemma append_after_result:
  "stream_rep s cur \<Longrightarrow> ss_terminal s \<Longrightarrow> part \<noteq> [] \<Longrightarrow>
    append_part part s = Inl (stream_error ''COSSACK_RPC_STREAM_INVALID'' ''RPC stream contains data after its result.'' s)"
  by (simp add: append_part_def)

lemma append_too_large:
  "stream_rep s cur \<Longrightarrow> ss_terminal s \<longrightarrow> part = [] \<Longrightarrow> length cur + length part > MAX_FRAME \<Longrightarrow>
    append_part part s = Inl (stream_error ''COSSACK_RPC_STREAM_TOO_LARGE'' ''RPC stream frame exceeds the byte limit.'' s)"
  by (auto simp: append_part_def stream_rep_def)

text \<open>The two ways in which a line that has only begun already decides the outcome.\<close>

lemma split_begun: "c \<notin> set l \<Longrightarrow> \<exists>l' ls. split_on c (l @ z) = (l @ l') # ls"
proof (induction l)
  case Nil
  then show ?case by (cases "split_on c z") auto
next
  case (Cons x l)
  then obtain l' ls where "split_on c (l @ z) = (l @ l') # ls" by auto
  with Cons.prems show ?case by auto
qed

lemma body_after_result:
  assumes "ss_terminal s" "l \<noteq> []" "newline \<notin> set l"
  shows "read_body parse s (l @ z) = threw (ss_requestId s) ''COSSACK_RPC_STREAM_INVALID'' ''RPC stream contains data after its result.''"
  using split_begun [OF assms(3), of z] assms(1,2) by (auto simp: read_body_def)

lemma body_too_large:
  assumes "\<not> ss_terminal s" "length l > MAX_FRAME" "newline \<notin> set l"
  shows "read_body parse s (l @ z) = threw (ss_requestId s) ''COSSACK_RPC_STREAM_TOO_LARGE'' ''RPC stream frame exceeds the byte limit.''"
  using split_begun [OF assms(3), of z] assms(1,2) by (auto simp: read_body_def)

lemma rethrow_stream_error [simp]: "rethrow (ss_requestId s) (stream_error c m s) = rpc_error c m (ss_requestId s)"
  by (simp add: rethrow_def stream_error_def rpc_error_def split: option.splits)

lemma rethrow_parse: "parseFrame parse l = Inl e \<Longrightarrow> rethrow r (Rpc e) = rpc_error (re_code e) (re_message e) r"
  by (auto simp: parseFrame_def validateRpcFrame_def rethrow_def rpc_error_def split: option.splits if_splits)


section \<open>One part of a chunk\<close>

text \<open>
  Appending a part either fails, and then as the reference reader does on any body that begins
  with the line so far, or leaves the buffer with the longer line.
\<close>

lemma append_agrees:
  assumes "stream_rep s cur" "newline \<notin> set part"
  shows "case catching s (append_part part s) of
      Inl e \<Rightarrow> (\<forall>rest. read_body parse s (cur @ part @ rest) = ([], Threw e))
    | Inr s' \<Rightarrow> stream_rep s' (cur @ part) \<and> ss_terminal s' = ss_terminal s \<and> ss_completion s' = ss_completion s
        \<and> ss_requestId s' = ss_requestId s"
proof -
  have cur: "newline \<notin> set cur" "ss_terminal s \<longrightarrow> cur = []" using assms(1) by (auto simp: stream_rep_def)
  consider "ss_terminal s" "part \<noteq> []" | "ss_terminal s \<longrightarrow> part = []" "length cur + length part > MAX_FRAME"
    | "ss_terminal s \<longrightarrow> part = []" "length cur + length part \<le> MAX_FRAME" by linarith
  then show ?thesis
  proof cases
    case 1
    then show ?thesis using cur assms body_after_result [of s part parse]
      by (simp add: append_after_result [OF assms(1)] catching_def threw_def)
  next
    case 2
    then have "\<not> ss_terminal s" using cur by (auto simp: MAX_FRAME_def)
    moreover have "read_body parse s ((cur @ part) @ rest) = threw (ss_requestId s) ''COSSACK_RPC_STREAM_TOO_LARGE'' ''RPC stream frame exceeds the byte limit.''" for rest
      by (rule body_too_large) (use 2 cur assms(2) calculation in auto)
    ultimately show ?thesis using append_too_large [OF assms(1) 2] by (simp add: catching_def threw_def)
  next
    case 3
    show ?thesis using append_in_room [OF assms 3] by (auto simp: catching_def)
  qed
qed


text \<open>\<open>prepend\<close> puts earlier yields before those of the rest.\<close>

definition prepend :: "jsv list \<Rightarrow> jsv list \<times> outcome \<Rightarrow> jsv list \<times> outcome" where
  "prepend ys r = (ys @ fst r, snd r)"

lemma prepend_simps [simp]: "prepend [] r = r" "prepend ys (prepend zs r) = prepend (ys @ zs) r" "prepend ys (zs, out) = (ys @ zs, out)"
  by (simp_all add: prepend_def)

lemma let_prepend: "(let (zs, out) = r in (ys @ zs, out)) = prepend ys r" "(let (zs, out) = r in (y # zs, out)) = prepend [y] r"
  by (simp_all add: prepend_def split: prod.splits)

definition after_frame :: "jsv \<Rightarrow> stream \<Rightarrow> stream" where
  "after_frame f s = (if is_yield f then s else s\<lparr>ss_completion := Some f\<rparr>)"

lemma stream_rep_empty: "stream_rep s cur \<Longrightarrow> ss_size s' = 0 \<Longrightarrow> ss_buffer s' = ss_buffer s \<Longrightarrow> stream_rep s' []"
  by (auto simp: stream_rep_def)

lemma decode_agrees:
  assumes "stream_rep s cur"
  shows "case catching s (decode_frame parse s) of
      Inl e \<Rightarrow> (\<forall>rest. read_body parse s (cur @ newline # rest) = ([], Threw e))
    | Inr (f, s') \<Rightarrow> stream_rep (after_frame f s') [] \<and>
        (\<forall>rest. read_body parse s (cur @ newline # rest) = prepend (if is_yield f then [f] else []) (read_body parse (after_frame f s') rest))"
proof -
  have cur: "newline \<notin> set cur" "ss_terminal s \<longrightarrow> cur = []" "take (ss_size s) (ss_buffer s) = cur" "\<not> MAX_FRAME < length cur"
    using assms by (auto simp: stream_rep_def)
  have lines: "split_on newline (cur @ newline # rest) = cur # split_on newline rest" for rest
    by (rule split_on_append [OF cur(1)])
  show ?thesis
  proof (cases "ss_terminal s")
    case True
    then show ?thesis using cur by (simp add: decode_frame_def catching_def read_body_def threw_def MAX_FRAME_def)
  next
    case False
    show ?thesis
    proof (cases "parseFrame parse cur")
      case (Inl e)
      then show ?thesis using cur False
        by (simp add: decode_frame_def catching_def read_body_def lines threw_def rethrow_parse)
    next
      case (Inr f)
      then show ?thesis using cur False stream_rep_empty [OF assms]
        by (auto simp: decode_frame_def catching_def read_body_def lines threw_def after_frame_def let_prepend)
    qed
  qed
qed

lemma read_body_cong:
  "ss_terminal s' = ss_terminal s \<Longrightarrow> ss_completion s' = ss_completion s \<Longrightarrow> ss_requestId s' = ss_requestId s \<Longrightarrow>
    read_body parse s' = read_body parse s"
  by (rule ext) (simp add: read_body_def)

lemma catching_bindr: "catching s (bindr a f) = (case catching s a of Inl e \<Rightarrow> Inl e | Inr x \<Rightarrow> catching s (f x))"
  by (cases a) (simp_all add: catching_def)

lemma catching_cong: "ss_requestId s' = ss_requestId s \<Longrightarrow> catching s' = catching s"
  by (rule ext) (simp add: catching_def split: sum.split)

lemma append_agrees_Inr:
  assumes "stream_rep s cur" "newline \<notin> set part" "catching s (append_part part s) = Inr s'"
  shows "stream_rep s' (cur @ part)" "read_body parse s' = read_body parse s"
    "(catching s' :: stream_failure + 'a \<Rightarrow> rpc_error + 'a) = catching s"
proof -
  have same: "stream_rep s' (cur @ part)" "ss_terminal s' = ss_terminal s" "ss_completion s' = ss_completion s"
      "ss_requestId s' = ss_requestId s"
    using append_agrees [OF assms(1,2), of parse] assms(3) by simp_all
  show "stream_rep s' (cur @ part)" by (rule same(1))
  show "read_body parse s' = read_body parse s" by (rule read_body_cong [OF same(2-4)])
  show "(catching s' :: stream_failure + 'a \<Rightarrow> rpc_error + 'a) = catching s" by (rule catching_cong [OF same(4)])
qed

lemma read_chunk_agrees:
  assumes "stream_rep s cur" "newline \<notin> set part"
  shows "case read_chunk parse part bs s of
      (ys, Inl e) \<Rightarrow> (\<forall>rest. read_body parse s (cur @ part @ bs @ rest) = (ys, Threw e))
    | (ys, Inr s') \<Rightarrow> (\<exists>cur'. stream_rep s' cur' \<and>
        (\<forall>rest. read_body parse s (cur @ part @ bs @ rest) = prepend ys (read_body parse s' (cur' @ rest))))"
  using assms
proof (induction parse part bs s arbitrary: cur rule: read_chunk.induct)
  case (1 parse part s)
  show ?case
  proof (cases "catching s (append_part part s)")
    case (Inl e)
    then show ?thesis using append_agrees [OF 1, of parse] by simp
  next
    case (Inr s')
    note s' = append_agrees_Inr [OF 1 Inr]
    have "stream_rep s' (cur @ part) \<and>
        (\<forall>rest. read_body parse s (cur @ part @ [] @ rest) = prepend [] (read_body parse s' ((cur @ part) @ rest)))" using s'(1,2) by simp
    then show ?thesis unfolding read_chunk.simps Inr prod.case sum.case by (rule exI)
  qed
next
  case (2 parse part b bs s)
  show ?case
  proof (cases "b = newline")
    case False
    then show ?thesis using "2.IH"(1) [OF False, of cur] "2.prems" unfolding append_Cons by simp
  next
    case True
    show ?thesis
    proof (cases "catching s (append_part part s)")
      case (Inl e)
      then show ?thesis using append_agrees [OF "2.prems", of parse] True by (simp add: catching_bindr)
    next
      case (Inr s1)
      note s1 = append_agrees_Inr [OF "2.prems" Inr]
      note dec = decode_agrees [OF s1(1), of parse, unfolded s1(2,3)]
      show ?thesis
      proof (cases "catching s (decode_frame parse s1)")
        case (Inl e)
        then show ?thesis using dec True Inr by (simp add: catching_bindr)
      next
        case (Inr fs)
        obtain f s2 where fs: "fs = (f, s2)" by (cases fs)
        let ?s3 = "after_frame f s2"
        have d: "stream_rep ?s3 []" "\<And>rest. read_body parse s (cur @ part @ newline # rest)
            = prepend (if is_yield f then [f] else []) (read_body parse ?s3 rest)"
          using dec Inr fs by simp_all
        have all: "catching s (bindr (append_part part s) (decode_frame parse)) = Inr (f, s2)"
          using \<open>catching s (append_part part s) = Inr s1\<close> Inr fs by (simp add: catching_bindr)
        have step: "read_chunk parse part (b # bs) s = (let (ys, r) = read_chunk parse [] bs ?s3 in ((if is_yield f then [f] else []) @ ys, r))"
          using True all by (simp add: after_frame_def split: prod.splits)
        have ih: "case read_chunk parse [] bs ?s3 of
            (ys, Inl e) \<Rightarrow> (\<forall>rest. read_body parse ?s3 (bs @ rest) = (ys, Threw e))
          | (ys, Inr s') \<Rightarrow> (\<exists>cur'. stream_rep s' cur' \<and>
              (\<forall>rest. read_body parse ?s3 (bs @ rest) = prepend ys (read_body parse s' (cur' @ rest))))"
        proof (cases "is_yield f")
          case yes: True
          then have e: "?s3 = s2" by (simp add: after_frame_def)
          then show ?thesis unfolding e using "2.IH"(2) [OF _ all refl yes, of "[]"] True d(1) [unfolded e] by simp
        next
          case no: False
          then have e: "?s3 = s2\<lparr>ss_completion := Some f\<rparr>" by (simp add: after_frame_def)
          then show ?thesis unfolding e using "2.IH"(3) [OF _ all refl no, of "[]"] True d(1) [unfolded e] by simp
        qed
        show ?thesis using ih unfolding step using True
          by (auto simp: d(2) split: prod.splits sum.splits)
      qed
    qed
  qed
qed



section \<open>The whole body\<close>

lemma finish_agrees:
  assumes "stream_rep s cur"
  shows "read_loop parse [REof] s = read_body parse s cur"
proof -
  have "newline \<notin> set cur" "\<not> MAX_FRAME < length cur" "ss_terminal s \<longrightarrow> cur = []" "ss_size s = length cur"
    using assms by (auto simp: stream_rep_def)
  then show ?thesis
    by (auto simp: read_body_def split_on_no_sep finish_stream_def catching_def threw_def MAX_FRAME_def)
qed

lemma read_loop_agrees:
  "stream_rep s cur \<Longrightarrow> read_loop parse (map RChunk cs @ [REof]) s = read_body parse s (cur @ concat cs)"
proof (induction cs arbitrary: s cur)
  case Nil
  then show ?case using finish_agrees by simp
next
  case (Cons c cs)
  obtain ys r where rc: "read_chunk parse [] c s = (ys, r)" by (cases "read_chunk parse [] c s")
  note agrees = read_chunk_agrees [OF Cons.prems, of "[]" parse c, unfolded rc prod.case append_Nil]
  show ?case
  proof (cases r)
    case (Inl e)
    then show ?thesis using agrees rc by simp
  next
    case (Inr s')
    then obtain cur' where c: "stream_rep s' cur'"
        "\<And>rest. read_body parse s (cur @ c @ rest) = prepend ys (read_body parse s' (cur' @ rest))"
      using agrees by auto
    then show ?thesis using rc Inr Cons.IH [OF c(1)] by (simp add: let_prepend)
  qed
qed

text \<open>C23. Chunk boundaries do not matter. For every reply whose body arrives in full, in whatever chunks
  the network delivers it, the incremental reader with its growing buffer yields exactly the frames,
  and ends with exactly the result or the error (its code, message and request id), of the reference
  reader, which splits the whole body at the newlines.\<close>

theorem stream_chunks_irrelevant:
  "readRpcStream parse header (Some (map RChunk cs @ [REof]))
   = read_lines parse False None (if header = Some [] then None else header) (split_on newline (concat cs))"
  using read_loop_agrees [OF stream_rep_start, of parse cs]
  by (simp add: readRpcStream_def read_body_def start_stream_def)


section \<open>What is yielded\<close>

text \<open>\<open>of_request r fs r'\<close>: with the id \<open>r\<close> known before, the frames have one id, known as \<open>r'\<close> after.\<close>

definition of_request :: "string option \<Rightarrow> jsv list \<Rightarrow> string option \<Rightarrow> bool" where
  "of_request r fs r' \<longleftrightarrow> (\<exists>x. (\<forall>f \<in> set fs. frame_request f = x) \<and> (r = None \<or> r = Some x)
     \<and> (r' = Some x \<or> r' = None \<and> r = None \<and> fs = []))"

lemma of_request_Nil [simp]: "of_request r [] r"
  by (cases r) (auto simp: of_request_def)

lemma of_request_ex [simp]: "Ex (of_request r [])"
  by (rule exI) (rule of_request_Nil)

lemma of_request_single [simp]: "Ex (of_request (Some (frame_request f)) [f])"
  by (rule exI [of _ "Some (frame_request f)"]) (simp add: of_request_def)

lemma of_request_append: "of_request r fs r' \<Longrightarrow> of_request r' gs r'' \<Longrightarrow> of_request r (fs @ gs) r''"
  by (auto simp: of_request_def)

definition stream_inv :: "stream \<Rightarrow> bool" where
  "stream_inv s \<longleftrightarrow> (\<exists>cur. stream_rep s cur) \<and> (case ss_completion s of None \<Rightarrow> \<not> ss_terminal s
     | Some f \<Rightarrow> ss_terminal s \<and> frame_ok f \<and> \<not> is_yield f \<and> ss_requestId s = Some (frame_request f))"

definition network_code :: string where
  "network_code = ''COSSACK_RPC_NETWORK_FAILED''"

definition chunk_ok :: "string option \<Rightarrow> jsv list \<Rightarrow> rpc_error + stream \<Rightarrow> bool" where
  "chunk_ok r ys res \<longleftrightarrow> (\<forall>f \<in> set ys. frame_ok f \<and> is_yield f) \<and> (case res of
     Inl e \<Rightarrow> re_code e \<noteq> network_code \<and> (\<exists>r'. of_request r ys r')
   | Inr s' \<Rightarrow> stream_inv s' \<and> of_request r ys (ss_requestId s'))"

lemma parse_code: "parseFrame parse l = Inl e \<Longrightarrow> re_code e = ''COSSACK_RPC_STREAM_INVALID''"
  by (auto simp: parseFrame_def validateRpcFrame_def rpc_error_def split: option.splits if_splits)

lemma parse_ok: "parseFrame parse l = Inr f \<Longrightarrow> frame_ok f"
  by (auto simp: parseFrame_def validateRpcFrame_def split: option.splits if_splits)

lemma rethrow_code: "re_code (rethrow r (Rpc e)) = re_code e"
  by (simp add: rethrow_def)

lemma decode_code: "catching s0 (decode_frame parse s) = Inl e \<Longrightarrow> re_code e \<noteq> network_code"
  by (auto simp: decode_frame_def catching_def stream_error_def rethrow_code rpc_error_def network_code_def
      dest: parse_code split: if_splits sum.splits)

lemma decode_frame_ok:
  assumes "catching s0 (decode_frame parse s) = Inr (f, s')"
  shows "frame_ok f" "\<not> ss_terminal s" "of_request (ss_requestId s) [f] (ss_requestId s')" "ss_requestId s' = Some (frame_request f)"
    "ss_terminal s' = (\<not> is_yield f)" "ss_completion s' = ss_completion s"
  using assms by (auto simp: decode_frame_def catching_def of_request_def dest: parse_ok split: if_splits sum.splits)

lemma append_code:
  assumes "stream_rep s cur" "newline \<notin> set part" "catching s (append_part part s) = Inl e"
  shows "re_code e \<noteq> network_code"
proof -
  consider "ss_terminal s" "part \<noteq> []" | "ss_terminal s \<longrightarrow> part = []" "length cur + length part > MAX_FRAME"
    | "ss_terminal s \<longrightarrow> part = []" "length cur + length part \<le> MAX_FRAME" by linarith
  then show ?thesis
  proof cases
    case 1
    then show ?thesis using append_after_result [OF assms(1)] assms(3) by (auto simp: catching_def rpc_error_def network_code_def)
  next
    case 2
    then show ?thesis using append_too_large [OF assms(1)] assms(3) by (auto simp: catching_def rpc_error_def network_code_def)
  next
    case 3
    then show ?thesis using append_in_room [OF assms(1,2)] assms(3) by (auto simp: catching_def)
  qed
qed

lemma append_inv:
  assumes "stream_inv s" "newline \<notin> set part" "append_part part s = Inr s'"
  shows "stream_inv s'" "ss_requestId s' = ss_requestId s"
proof -
  obtain cur where cur: "stream_rep s cur" using assms(1) by (auto simp: stream_inv_def)
  have "catching s (append_part part s) = Inr s'" using assms(3) by (simp add: catching_def)
  then have "stream_rep s' (cur @ part) \<and> ss_terminal s' = ss_terminal s \<and> ss_completion s' = ss_completion s \<and> ss_requestId s' = ss_requestId s"
    using append_agrees [OF cur assms(2), of "\<lambda>_. None"] by simp
  then show "stream_inv s'" "ss_requestId s' = ss_requestId s"
    using assms(1) by (auto simp: stream_inv_def split: option.splits)
qed

lemma decode_inv:
  assumes "stream_inv s" "catching s0 (decode_frame parse s) = Inr (f, s')"
  shows "stream_inv (after_frame f s')"
proof -
  note f = decode_frame_ok [OF assms(2)]
  obtain cur where "stream_rep s cur" using assms(1) by (auto simp: stream_inv_def)
  moreover have "ss_size s' = 0" "ss_buffer s' = ss_buffer s"
    using assms(2) by (auto simp: decode_frame_def catching_def split: if_splits sum.splits)
  ultimately have "stream_rep (after_frame f s') []" using stream_rep_empty [of s cur "after_frame f s'"] by (simp add: after_frame_def)
  then show ?thesis using f assms(1) by (auto simp: stream_inv_def after_frame_def split: option.splits)
qed

lemma chunk_ok_prepend:
  "frame_ok f \<Longrightarrow> is_yield f \<Longrightarrow> of_request r [f] r' \<Longrightarrow> chunk_ok r' ys res \<Longrightarrow> chunk_ok r (f # ys) res"
  using of_request_append [of r "[f]" r' ys] by (auto simp: chunk_ok_def split: sum.splits)

lemma chunk_ok_later: "of_request r [f] r' \<Longrightarrow> chunk_ok r' ys res \<Longrightarrow> chunk_ok r ys res"
  by (fastforce simp: chunk_ok_def of_request_def split: sum.splits)

lemma read_chunk_ok:
  assumes "stream_inv s" "newline \<notin> set part" "read_chunk parse part bs s = (ys, res)"
  shows "chunk_ok (ss_requestId s) ys res"
  using assms
proof (induction parse part bs s arbitrary: ys res rule: read_chunk.induct)
  case (1 parse part s)
  obtain cur where "stream_rep s cur" using "1.prems"(1) by (auto simp: stream_inv_def)
  note code = append_code [OF this "1.prems"(2)]
  show ?case
  proof (cases "append_part part s")
    case (Inl e)
    then show ?thesis using code "1.prems"(3) by (auto simp: chunk_ok_def catching_def)
  next
    case (Inr s')
    then show ?thesis using append_inv [OF "1.prems"(1,2) Inr] "1.prems"(3) by (auto simp: chunk_ok_def catching_def)
  qed
next
  case (2 parse part b bs s)
  obtain cur where cur: "stream_rep s cur" using "2.prems"(1) by (auto simp: stream_inv_def)
  show ?case
  proof (cases "b = newline")
    case False
    then show ?thesis using "2.IH"(1) [OF False] "2.prems" by simp
  next
    case True
    show ?thesis
    proof (cases "catching s (bindr (append_part part s) (decode_frame parse))")
      case (Inl e)
      then have "re_code e \<noteq> network_code"
        using append_code [OF cur "2.prems"(2)] decode_code by (auto simp: catching_bindr split: sum.splits)
      then show ?thesis using Inl "2.prems"(3) True by (auto simp: chunk_ok_def)
    next
      case (Inr fs)
      obtain f s2 where fs: "fs = (f, s2)" by (cases fs)
      obtain s1 where s1: "append_part part s = Inr s1" "catching s (decode_frame parse s1) = Inr (f, s2)"
        using Inr fs by (cases "append_part part s") (auto simp: catching_def)
      note app = append_inv [OF "2.prems"(1,2) s1(1)]
      note inv = decode_inv [OF app(1) s1(2)]
      note d = decode_frame_ok [OF s1(2), unfolded app(2)]
      have rid: "ss_requestId (after_frame f s2) = ss_requestId s2" by (simp add: after_frame_def)
      obtain zs r where rest: "read_chunk parse [] bs (after_frame f s2) = (zs, r)" by fastforce
      show ?thesis
      proof (cases "is_yield f")
        case yes: True
        then have e: "after_frame f s2 = s2" by (simp add: after_frame_def)
        have "chunk_ok (ss_requestId s2) zs r"
          using "2.IH"(2) [OF _ Inr fs [symmetric] yes] True inv rest unfolding e by simp
        then show ?thesis using chunk_ok_prepend [OF d(1) yes d(3)] "2.prems"(3) True Inr fs yes rest e by auto
      next
        case no: False
        then have e: "after_frame f s2 = s2\<lparr>ss_completion := Some f\<rparr>" by (simp add: after_frame_def)
        have "chunk_ok (ss_requestId s2) zs r"
          using "2.IH"(3) [OF _ Inr fs [symmetric] no] True inv rest unfolding e by simp
        then show ?thesis using chunk_ok_later [OF d(3)] "2.prems"(3) True Inr fs no rest e by auto
      qed
    qed
  qed
qed


lemma start_inv: "stream_inv (start_stream r)"
  using stream_rep_start by (auto simp: stream_inv_def start_stream_def)

definition ended_by_eof :: "read_event list \<Rightarrow> bool" where
  "ended_by_eof evs \<longleftrightarrow> (\<exists>cs rest. evs = map RChunk cs @ REof # rest)"

lemma ended_by_eof_chunk: "ended_by_eof evs \<Longrightarrow> ended_by_eof (RChunk c # evs)"
  unfolding ended_by_eof_def by (metis append_Cons list.simps(9))

text \<open>What a run of the reader yields, whatever happens to the body.\<close>

definition yields_ok :: "string option \<Rightarrow> read_event list \<Rightarrow> jsv list \<Rightarrow> outcome \<Rightarrow> bool" where
  "yields_ok r evs fs out \<longleftrightarrow> (\<forall>f \<in> set fs. frame_ok f) \<and> (\<exists>r'. of_request r fs r') \<and> (\<forall>f \<in> set (butlast fs). is_yield f)
     \<and> (out = Returned \<longleftrightarrow> fs \<noteq> [] \<and> \<not> is_yield (last fs)) \<and> (out = Returned \<longrightarrow> ended_by_eof evs)
     \<and> (\<forall>e. out = Threw e \<and> re_code e = network_code \<longrightarrow> RFails \<in> set evs)"

lemma yields_ok_chunk:
  assumes "chunk_ok r ys (Inr s')" "yields_ok (ss_requestId s') evs zs out"
  shows "yields_ok r (RChunk c # evs) (ys @ zs) out"
proof -
  have "of_request r ys (ss_requestId s')" using assms(1) by (simp add: chunk_ok_def)
  moreover obtain r1 where "of_request (ss_requestId s') zs r1" using assms(2) by (auto simp: yields_ok_def)
  ultimately obtain r' where "of_request r (ys @ zs) r'" using of_request_append by blast
  moreover have "butlast (ys @ zs) = (if zs = [] then butlast ys else ys @ butlast zs)" by (simp add: butlast_append)
  moreover have "ys = [] \<or> is_yield (last ys)" using assms(1) unfolding chunk_ok_def by (metis last_in_set)
  ultimately show ?thesis using assms ended_by_eof_chunk
    by (auto simp: chunk_ok_def yields_ok_def dest: in_set_butlastD)
qed

lemma read_loop_ok: "stream_inv s \<Longrightarrow> read_loop parse evs s = (fs, out) \<Longrightarrow> yields_ok (ss_requestId s) evs fs out"
proof (induction evs arbitrary: s fs out)
  case Nil
  then show ?case by (auto simp: yields_ok_def)
next
  case (Cons ev evs)
  show ?case
  proof (cases ev)
    case (RChunk c)
    obtain ys r where rc: "read_chunk parse [] c s = (ys, r)" by fastforce
    have ok: "chunk_ok (ss_requestId s) ys r" by (rule read_chunk_ok [OF Cons.prems(1) _ rc]) simp
    show ?thesis
    proof (cases r)
      case (Inl e)
      then show ?thesis using ok Cons.prems(2) RChunk rc by (auto simp: chunk_ok_def yields_ok_def dest: in_set_butlastD)
    next
      case (Inr s')
      obtain zs o' where rest: "read_loop parse evs s' = (zs, o')" by fastforce
      then have "yields_ok (ss_requestId s') evs zs o'" using Cons.IH ok Inr by (auto simp: chunk_ok_def)
      then show ?thesis using yields_ok_chunk ok Cons.prems(2) RChunk rc Inr rest by auto
    qed
  next
    case REof
    have "ended_by_eof (ev # evs)" unfolding ended_by_eof_def REof by (rule exI [of _ "[]"]) simp
    then show ?thesis using Cons.prems REof
      by (auto simp: finish_stream_def catching_def yields_ok_def stream_inv_def rpc_error_def network_code_def split: if_splits option.splits)
  qed (use Cons.prems in \<open>auto simp: yields_ok_def rpc_error_def network_code_def\<close>)
qed

text \<open>Whatever the network does - any chunks, an end, a failure or an abort at any point, repeated or
  missing - the frames that reach the consumer are well formed and all of one request, the one the
  reply names if it names one; all but the last are yields; the stream returns normally exactly when
  the last one is a result, and then only if the body ended right behind it; and a network failure
  is reported only if the reader failed, never because the buffer ran out of room.\<close>

theorem stream_yields_typed:
  assumes "readRpcStream parse header (Some evs) = (fs, out)"
  shows "(\<forall>f \<in> set fs. frame_ok f) \<and> (\<exists>x. (\<forall>f \<in> set fs. frame_request f = x) \<and> (header \<in> {None, Some [], Some x}))
     \<and> (\<forall>f \<in> set (butlast fs). is_yield f)
     \<and> (out = Returned \<longleftrightarrow> fs \<noteq> [] \<and> \<not> is_yield (last fs))
     \<and> (out = Returned \<longrightarrow> (\<exists>cs rest. evs = map RChunk cs @ REof # rest))
     \<and> (\<forall>e. out = Threw e \<and> re_code e = ''COSSACK_RPC_NETWORK_FAILED'' \<longrightarrow> RFails \<in> set evs)"
proof -
  let ?r = "if header = Some [] then None else header"
  have "yields_ok ?r evs fs out"
    using read_loop_ok [OF start_inv, of parse evs ?r fs out] assms by (simp add: readRpcStream_def start_stream_def)
  then show ?thesis by (auto simp: yields_ok_def of_request_def ended_by_eof_def network_code_def split: if_splits)
qed

text \<open>A one-letter decoder stands for JSON here.\<close>

definition letter_frame :: "byte list \<Rightarrow> jsv option" where
  "letter_frame l = (if l = [121] then Some (JObj [(''v'', JNum (NInt 1)), (''type'', JStr ''yield''), (''requestId'', JStr ''r''), (''state'', JObj [])])
     else if l = [100] then Some (JObj [(''v'', JNum (NInt 1)), (''type'', JStr ''done''), (''requestId'', JStr ''r''), (''state'', JObj [])])
     else None)"

lemma stream_yields_typed_witness:
  "\<exists>x. \<forall>f \<in> set (fst (readRpcStream letter_frame None (Some [RChunk [121], RChunk [10, 121, 10, 100, 10], REof]))). frame_request f = x"
proof -
  have "readRpcStream letter_frame None (Some [RChunk [121], RChunk [10, 121, 10, 100, 10], REof])
    = (fst (readRpcStream letter_frame None (Some [RChunk [121], RChunk [10, 121, 10, 100, 10], REof])),
       snd (readRpcStream letter_frame None (Some [RChunk [121], RChunk [10, 121, 10, 100, 10], REof])))" by simp
  from stream_yields_typed [OF this] show ?thesis by blast
qed


section \<open>Bodies that the action owns\<close>

text \<open>\<open>native_rep bs got\<close>: the buffer holds what has been read.\<close>

definition native_rep :: "byte list \<times> nat \<Rightarrow> byte list \<Rightarrow> bool" where
  "native_rep bs got \<longleftrightarrow> snd bs = length got \<and> length got \<le> length (fst bs) \<and> length (fst bs) \<le> MAX_NATIVE
     \<and> take (length got) (fst bs) = got"

lemma native_append_room:
  assumes "native_rep bs got" "length got + length value \<le> MAX_NATIVE"
  shows "\<exists>bs'. native_append value bs = Some bs' \<and> native_rep bs' (got @ value)"
proof -
  let ?next = "length got + length value"
  let ?buf = "if ?next > length (fst bs) then grown_buffer (min MAX_NATIVE (max ?next (2 * length (fst bs)))) (fst bs) else fst bs"
  have room: "?next \<le> length ?buf" "take (length got) ?buf = got" and fit: "length ?buf \<le> MAX_NATIVE"
    using assms by (auto simp: native_rep_def grown_buffer_def)
  obtain buf' where "set_bytes ?buf value (length got) = Some buf'" "length buf' = length ?buf" "take ?next buf' = got @ value"
    using set_bytes_room [OF room] by blast
  then show ?thesis using assms room fit
    by (intro exI [of _ "(buf', ?next)"]) (auto simp: native_append_def native_rep_def Let_def)
qed

lemma native_loop_exact:
  "native_rep bs got \<Longrightarrow> native_loop r status (map RChunk cs @ [REof]) bs =
    (if length got + length (concat cs) > MAX_NATIVE
     then NativeThrew (NativeRpc (rpc_error ''COSSACK_RPC_RESPONSE_TOO_LARGE''
       ''Native RPC response exceeds the byte limit. Use an HTTP endpoint for larger or continuous bodies.'' r))
     else NativeBody (if got @ concat cs = [] \<and> status \<in> {204, 205, 304} then None else Some (got @ concat cs)))"
proof (induction cs arbitrary: bs got)
  case Nil
  then show ?case by (auto simp: native_rep_def)
next
  case (Cons c cs)
  show ?case
  proof (cases "length got + length c > MAX_NATIVE")
    case True
    then show ?thesis using Cons.prems by (simp add: native_rep_def)
  next
    case False
    then obtain bs' where bs': "native_append c bs = Some bs'" "native_rep bs' (got @ c)"
      using native_append_room [OF Cons.prems, of c] by (metis not_less)
    have "snd bs = length got" using Cons.prems by (simp add: native_rep_def)
    then show ?thesis using Cons.IH [OF bs'(2)] bs'(1) False by (auto simp: add.assoc)
  qed
qed

text \<open>C38. A response that an action owns is delivered whole or not at all: within the byte limit the call
  gets exactly the bytes that arrived, whatever the chunks and however often the buffer grew; one
  byte more and it gets the error, without an out-of-range write and with no partial body.\<close>

theorem native_body_exact:
  "readRpcNativeResponse r status False (Some (map RChunk cs @ [REof])) =
    (if length (concat cs) > MAX_NATIVE
     then NativeThrew (NativeRpc (rpc_error ''COSSACK_RPC_RESPONSE_TOO_LARGE''
       ''Native RPC response exceeds the byte limit. Use an HTTP endpoint for larger or continuous bodies.'' r))
     else NativeBody (if concat cs = [] \<and> status \<in> {204, 205, 304} then None else Some (concat cs)))"
proof -
  have "native_rep (replicate 4096 0, 0) []" by (simp add: native_rep_def MAX_NATIVE_def)
  from native_loop_exact [OF this, of r status cs] show ?thesis by (simp add: readRpcNativeResponse_def)
qed

end
