(* ===== verification/Realtime.thy ===== *)
theory Realtime
  imports Rpc_Stream
begin

text \<open>
  The browser's WebSocket connection of a component (\<open>core/src/shared/transport-connections.ts\<close>):
  planning a connection, opening it, reconnecting after a loss with a bounded delay, closing it for
  good, and the calls that wait for frames on it.

  Every socket ever opened keeps its record in a list; the closure variables of \<open>connect\<close> are
  fields of that record, and so is what the browser keeps (the ready state, whether the handlers
  are still attached). A handler is a function on the world; the browser's rules about which event
  can happen when are the predicate \<open>possible\<close>. The rest of the component is a value of type
  \<open>'c\<close>, changed by what \<open>app\<close> says: the state applier and the user's own methods. Rendering
  (\<open>requestUpdate\<close>), times of status changes and log lines are not represented.
\<close>

section \<open>State\<close>

text \<open>Where an attempt goes: target and query. Query values are as untyped as the page's state is.\<close>

(* models packages/core/src/shared/transport-connections.ts:124-127 RealtimeConnectionPlan *)
record conn_plan =
  pl_target :: jsv
  pl_query :: "(string \<times> jsv) list"

datatype ready_state = NetConnecting | NetOpen | NetClosing | NetClosed

text \<open>A timer holds its delay and the number of the attempt it starts.\<close>

record socket =
  so_first :: conn_plan
  so_plan :: conn_plan
  so_ready :: ready_state
  so_attempt :: nat
  so_closed :: bool
  so_timer :: "(nat \<times> nat) option"
  so_pinging :: bool
  so_intentional :: bool
  so_attached :: bool
  so_disposer :: bool
  so_pending :: "string list"

datatype conn_state = CsConnecting | CsOpen | CsReconnecting | CsClosed

(* models packages/core/src/shared/transport-connections.ts:66-77 RealtimeConnectionStatus *)
record conn_status =
  rs_state :: conn_state
  rs_attempts :: nat
  rs_lastEventId :: "jsv option"
  rs_lastError :: "string option"
  rs_resynced :: bool

(* models packages/core/src/shared/transport-connections.ts:85-90 realtimeStatus *)
definition fresh_status :: conn_status where
  "fresh_status = \<lparr>rs_state = CsConnecting, rs_attempts = 0, rs_lastEventId = None, rs_lastError = None, rs_resynced = False\<rparr>"

text \<open>What a waiting call's sink is given: a frame with its size, or a local failure.\<close>

datatype sink_event = SinkFrame jsv nat | SinkFailed string

text \<open>What a user's method does besides changing the component.\<close>

datatype user_act = UNothing | UDisconnect | UDestroy

text \<open>What the connection plan reads of the component: the page's state now, the registry id of a
  realtime child, the descriptor (\<open>None\<close> for \<open>undefined\<close>, \<open>Some None\<close> for \<open>null\<close>), the layout's id.\<close>

record owner =
  ow_component :: "string option"
  ow_descriptor :: "(bool \<times> string) option option"
  ow_routeId :: jsv

record 'c app =
  ap_owner :: owner
  ap_stringify :: "jsv \<Rightarrow> string"
  ap_reset :: "'c \<Rightarrow> 'c"
  ap_apply :: "jsv \<Rightarrow> 'c \<Rightarrow> 'c"
  ap_optimistic :: "string \<Rightarrow> 'c \<Rightarrow> bool"
  ap_client :: "string \<Rightarrow> bool"
  ap_handlers :: "string \<Rightarrow> string list"
  ap_has :: "string \<Rightarrow> bool"
  ap_method :: "string \<Rightarrow> jsv list \<Rightarrow> 'c \<Rightarrow> 'c \<times> user_act"

record 'c rtw =
  rt_sockets :: "socket list"
  rt_current :: "nat option"
  rt_destroyed :: bool
  rt_status :: conn_status
  rt_page :: jsv
  rt_loading :: "(string \<times> int) list"
  rt_log :: "(nat \<times> string \<times> sink_event) list"
  rt_app :: 'c

definition sock :: "'c rtw \<Rightarrow> nat \<Rightarrow> socket" where
  "sock w i = rt_sockets w ! i"

definition upd :: "nat \<Rightarrow> (socket \<Rightarrow> socket) \<Rightarrow> 'c rtw \<Rightarrow> 'c rtw" where
  "upd i f w = w\<lparr>rt_sockets := (rt_sockets w)[i := f (sock w i)]\<rparr>"

definition set_status :: "(conn_status \<Rightarrow> conn_status) \<Rightarrow> 'c rtw \<Rightarrow> 'c rtw" where
  "set_status f w = w\<lparr>rt_status := f (rt_status w)\<rparr>"


section \<open>Waiting calls\<close>

(* models packages/core/src/shared/transport-connections.ts:25-34 failPendingSocketCalls *)
definition failPendingSocketCalls :: "nat \<Rightarrow> 'c rtw \<Rightarrow> 'c rtw" where
  "failPendingSocketCalls i w =
     (upd i (\<lambda>s. s\<lparr>so_pending := []\<rparr>) w)
       \<lparr>rt_log := rt_log w @ map (\<lambda>r. (i, r, SinkFailed ''COSSACK_RPC_TRANSPORT_CLOSED'')) (so_pending (sock w i))\<rparr>"

definition settle_pending :: "nat \<Rightarrow> string \<Rightarrow> 'c rtw \<Rightarrow> 'c rtw" where
  "settle_pending i r = upd i (\<lambda>s. s\<lparr>so_pending := filter (\<lambda>x. x \<noteq> r) (so_pending s)\<rparr>)"

definition emit :: "nat \<Rightarrow> string \<Rightarrow> sink_event \<Rightarrow> 'c rtw \<Rightarrow> 'c rtw" where
  "emit i r e w = w\<lparr>rt_log := rt_log w @ [(i, r, e)]\<rparr>"

text \<open>\<open>bytes\<close> is the UTF-8 length of the received text. The result says whether the message was consumed.\<close>

(* models packages/core/src/shared/transport-connections.ts:42-63 routeSocketFrame *)
definition routeSocketFrame :: "nat \<Rightarrow> jsv \<Rightarrow> nat \<Rightarrow> 'c rtw \<Rightarrow> bool \<times> 'c rtw" where
  "routeSocketFrame i data bytes w = (case jget data ''requestId'' of
     JStr r \<Rightarrow>
       (True, if r \<notin> set (so_pending (sock w i)) then w
        else (case validateRpcFrame data of
            Inl e \<Rightarrow> settle_pending i r (emit i r (SinkFailed (re_code e)) w)
          | Inr f \<Rightarrow>
             if bytes > MAX_FRAME then settle_pending i r (emit i r (SinkFailed ''COSSACK_RPC_STREAM_TOO_LARGE'') w)
             else (let w' = emit i r (SinkFrame f bytes) w in if is_yield f then w' else settle_pending i r w')))
   | _ \<Rightarrow> (False, w))"


section \<open>Planning\<close>

definition truthy :: "jsv \<Rightarrow> bool" where
  "truthy v = (case v of JUndef \<Rightarrow> False | JNull \<Rightarrow> False | JBool b \<Rightarrow> b | JStr s \<Rightarrow> s \<noteq> [] | JNum n \<Rightarrow> n \<noteq> NInt 0 | _ \<Rightarrow> True)"

definition or_js :: "jsv \<Rightarrow> jsv \<Rightarrow> jsv" where
  "or_js a b = (if truthy a then a else b)"

text \<open>\<open>undefined\<close> and \<open>null\<close> have no properties; \<open>?.\<close> gives \<open>undefined\<close> for them.\<close>

definition params_text :: "'c app \<Rightarrow> jsv \<Rightarrow> jsv" where
  "params_text ap page = JStr (ap_stringify ap (or_js (jget (jget page ''metadata'') ''params'') (JObj [])))"

(* models packages/core/src/shared/transport-connections.ts:130-138 currentPage *)
definition currentPage :: "'c app \<Rightarrow> jsv \<Rightarrow> (string \<times> jsv) list option" where
  "currentPage ap page = (case jget page ''componentRouteId'' of
     JStr r \<Rightarrow> Some [(''page'', JStr r),
       (''pathname'', or_js (jget (jget page ''metadata'') ''pathname'') (or_js (jget page ''pathname'') (JStr []))),
       (''params'', params_text ap page)]
   | _ \<Rightarrow> None)"

datatype planned = NoPlan | PlanError string | Plan conn_plan

definition not_authorized :: planned where
  "not_authorized = PlanError ''The server did not authorize a realtime connection for this component.''"

definition page_plan :: "'c app \<Rightarrow> jsv \<Rightarrow> string option \<Rightarrow> planned" where
  "page_plan ap page given =
     (let target = (case given of Some t \<Rightarrow> JStr t | None \<Rightarrow> jget page ''realtimeTarget'');
          routePath = or_js (jget page ''routePath'') (or_js (jget (jget page ''metadata'') ''routePath'')
            (jget (jget page ''metadata'') ''componentPath''))
      in if \<not> truthy target \<or> \<not> truthy routePath then NoPlan
         else Plan \<lparr>pl_target = target, pl_query = [(''routePath'', routePath),
           (''pathname'', or_js (jget (jget page ''metadata'') ''pathname'') (JStr [])), (''params'', params_text ap page)]\<rparr>)"

(* models packages/core/src/shared/transport-connections.ts:152-187 planRealtimeConnection *)
definition planRealtimeConnection :: "'c app \<Rightarrow> jsv \<Rightarrow> planned" where
  "planRealtimeConnection ap page = (case ow_component (ap_owner ap) of
     Some c \<Rightarrow>
       (case (jget (jget page ''realtimeComponents'') c, currentPage ap page) of
          (JStr t, Some q) \<Rightarrow> if t = [] then not_authorized else Plan \<lparr>pl_target = JStr t, pl_query = (''component'', JStr c) # q\<rparr>
        | _ \<Rightarrow> not_authorized)
   | None \<Rightarrow>
       (case ow_descriptor (ap_owner ap) of
          Some None \<Rightarrow> not_authorized
        | Some (Some (True, t)) \<Rightarrow>
            (case (currentPage ap page, ow_routeId (ap_owner ap)) of
               (Some q, JStr l) \<Rightarrow> Plan \<lparr>pl_target = JStr t, pl_query = (''layout'', JStr l) # q\<rparr>
             | _ \<Rightarrow> PlanError ''The layout has no realtime route identity.'')
        | Some (Some (False, t)) \<Rightarrow> page_plan ap page (Some t)
        | None \<Rightarrow> page_plan ap page None))"


section \<open>Opening and closing\<close>

(* models packages/core/src/shared/transport-connections.ts:102-104 realtimeReconnectDelay *)
definition realtimeReconnectDelay :: "nat \<Rightarrow> nat" where
  "realtimeReconnectDelay attempts = min 30000 (500 * 2 ^ min (attempts - 1) 6)"

definition ownsSocket :: "nat \<Rightarrow> 'c rtw \<Rightarrow> bool" where
  "ownsSocket i w \<longleftrightarrow> rt_current w = Some i \<and> \<not> so_intentional (sock w i) \<and> \<not> rt_destroyed w"

definition isCurrent :: "nat \<Rightarrow> 'c rtw \<Rightarrow> bool" where
  "isCurrent i w \<longleftrightarrow> \<not> so_closed (sock w i) \<and> ownsSocket i w"

text \<open>\<open>ws.close()\<close> starts the closing handshake unless the socket is closing or closed already.\<close>

definition net_close :: "socket \<Rightarrow> socket" where
  "net_close s = (if so_ready s = NetClosed then s else s\<lparr>so_ready := NetClosing\<rparr>)"

text \<open>The disposer that \<open>connect\<close> registers for its socket.\<close>

(* models packages/core/src/shared/transport-connections.ts:342-351 socketDisposers *)
definition dispose_socket :: "nat \<Rightarrow> 'c rtw \<Rightarrow> 'c rtw" where
  "dispose_socket i w = upd i net_close (failPendingSocketCalls i
     (upd i (\<lambda>s. s\<lparr>so_closed := True, so_intentional := True, so_pinging := False, so_timer := None, so_disposer := False,
        so_attached := False\<rparr>) w))"

(* models packages/core/src/shared/transport-connections.ts:109-121 disconnectWebSocket *)
definition disconnectWebSocket :: "'c rtw \<Rightarrow> 'c rtw" where
  "disconnectWebSocket w = (case rt_current w of None \<Rightarrow> w
   | Some i \<Rightarrow>
      (let w1 = set_status (\<lambda>s. s\<lparr>rs_state := CsClosed\<rparr>) (w\<lparr>rt_current := None\<rparr>) in
       if so_disposer (sock w i) then dispose_socket i w1
       else upd i net_close (failPendingSocketCalls i (upd i (\<lambda>s. s\<lparr>so_intentional := True\<rparr>) w1))))"

text \<open>One attempt: it goes where the page is now, or where the first attempt went if there is no plan now.\<close>

definition attempt_plan :: "'c app \<Rightarrow> jsv \<Rightarrow> conn_plan \<Rightarrow> nat \<Rightarrow> conn_plan" where
  "attempt_plan ap page first attempt = (if attempt = 0 then first
     else (case planRealtimeConnection ap page of Plan p \<Rightarrow> p | _ \<Rightarrow> first))"

(* models packages/core/src/shared/transport-connections.ts:216-228 connect *)
definition connect :: "'c app \<Rightarrow> conn_plan \<Rightarrow> nat \<Rightarrow> 'c rtw \<Rightarrow> 'c rtw" where
  "connect ap first attempt w =
     (let s = \<lparr>so_first = first, so_plan = attempt_plan ap (rt_page w) first attempt, so_ready = NetConnecting, so_attempt = attempt,
            so_closed = False, so_timer = None, so_pinging = True, so_intentional = False, so_attached = True, so_disposer = True,
            so_pending = []\<rparr>
      in set_status (\<lambda>st. if attempt = 0 then st\<lparr>rs_state := CsConnecting, rs_attempts := 0\<rparr>
             else st\<lparr>rs_state := CsReconnecting, rs_attempts := attempt\<rparr>)
           (w\<lparr>rt_sockets := rt_sockets w @ [s], rt_current := Some (length (rt_sockets w))\<rparr>))"

(* models packages/core/src/shared/transport-connections.ts:195-204 connectWebSocket *)
definition connectWebSocket :: "'c app \<Rightarrow> 'c rtw \<Rightarrow> 'c rtw" where
  "connectWebSocket ap w0 =
     (if rt_destroyed w0 then w0
      else (let w = disconnectWebSocket w0 in
        (case planRealtimeConnection ap (rt_page w) of
           NoPlan \<Rightarrow> w
         | PlanError e \<Rightarrow> set_status (\<lambda>s. s\<lparr>rs_state := CsClosed, rs_attempts := 0, rs_lastError := Some e\<rparr>) w
         | Plan p \<Rightarrow> connect ap p 0 w)))"

text \<open>Destruction: the phase changes first, then the connection is released.\<close>

definition destroy_component :: "'c rtw \<Rightarrow> 'c rtw" where
  "destroy_component w = disconnectWebSocket (w\<lparr>rt_destroyed := True\<rparr>)"


section \<open>Handlers of a socket\<close>

(* models packages/core/src/shared/transport-connections.ts:230-235 connect.onopen *)
definition on_open :: "'c app \<Rightarrow> nat \<Rightarrow> 'c rtw \<Rightarrow> 'c rtw" where
  "on_open ap i w = (if \<not> isCurrent i w then w
     else set_status (\<lambda>s. s\<lparr>rs_state := CsOpen, rs_attempts := 0, rs_lastError := None\<rparr>)
       ((upd i (\<lambda>s. s\<lparr>so_attempt := 0\<rparr>) w)\<lparr>rt_app := ap_reset ap (rt_app w)\<rparr>))"

(* models packages/core/src/shared/transport-connections.ts:312-333 connect.onclose *)
definition on_close :: "nat \<Rightarrow> 'c rtw \<Rightarrow> 'c rtw" where
  "on_close i w0 =
     (if so_closed (sock w0 i) then w0
      else (let w = failPendingSocketCalls i (upd i (\<lambda>s. s\<lparr>so_closed := True, so_pinging := False\<rparr>) w0) in
        if rt_current w \<noteq> Some i then w
        else if so_intentional (sock w i) \<or> rt_destroyed w then set_status (\<lambda>s. s\<lparr>rs_state := CsClosed\<rparr>) w
        else (let n = so_attempt (sock w i) + 1 in
          upd i (\<lambda>s. s\<lparr>so_timer := Some (realtimeReconnectDelay n, n)\<rparr>)
            (set_status (\<lambda>s. s\<lparr>rs_state := CsReconnecting, rs_attempts := n,
               rs_lastError := Some ''WebSocket closed before the component was destroyed.''\<rparr>) w))))"

(* models packages/core/src/shared/transport-connections.ts:335-341 connect.onerror *)
definition on_error :: "nat \<Rightarrow> 'c rtw \<Rightarrow> 'c rtw" where
  "on_error i w = (if \<not> isCurrent i w then w
     else set_status (\<lambda>s. s\<lparr>rs_lastError := Some ''WebSocket error; the connection is closed or reconnecting.''\<rparr>)
       (upd i (\<lambda>s. s\<lparr>so_pinging := False\<rparr>) w))"

text \<open>The reconnect timer.\<close>

(* models packages/core/src/shared/transport-connections.ts:329-333 reconnectTimer *)
definition on_timer :: "'c app \<Rightarrow> nat \<Rightarrow> 'c rtw \<Rightarrow> 'c rtw" where
  "on_timer ap i w = (case so_timer (sock w i) of None \<Rightarrow> w
   | Some (d, n) \<Rightarrow> (let w1 = upd i (\<lambda>s. s\<lparr>so_timer := None\<rparr>) w in
       if ownsSocket i w1 then connect ap (so_first (sock w i)) n w1 else w1))"


section \<open>Messages\<close>

definition act :: "user_act \<Rightarrow> 'c rtw \<Rightarrow> 'c rtw" where
  "act a w = (case a of UNothing \<Rightarrow> w | UDisconnect \<Rightarrow> disconnectWebSocket w | UDestroy \<Rightarrow> destroy_component w)"

definition call_method :: "'c app \<Rightarrow> string \<Rightarrow> jsv list \<Rightarrow> 'c rtw \<Rightarrow> 'c rtw" where
  "call_method ap m args w = (let (c, a) = ap_method ap m args (rt_app w) in act a (w\<lparr>rt_app := c\<rparr>))"

text \<open>\<open>f(...payload)\<close>: what can be spread; anything else throws, which ends the handler.\<close>

definition spread :: "jsv \<Rightarrow> jsv list option" where
  "spread v = (case v of JArr xs \<Rightarrow> Some xs | JStr s \<Rightarrow> Some (map (\<lambda>c. JStr [c]) s) | _ \<Rightarrow> None)"

(* models packages/core/src/shared/transport-connections.ts:288-296 connect.onmessage *)
fun run_handlers :: "'c app \<Rightarrow> nat \<Rightarrow> jsv \<Rightarrow> string list \<Rightarrow> 'c rtw \<Rightarrow> 'c rtw" where
  "run_handlers ap i payload [] w = w"
| "run_handlers ap i payload (h # hs) w =
     (if \<not> isCurrent i w then w
      else if ap_has ap h then (case spread payload of
          None \<Rightarrow> w | Some args \<Rightarrow> run_handlers ap i payload hs (call_method ap h args w))
      else run_handlers ap i payload hs w)"

definition finish_loading :: "string \<Rightarrow> 'c rtw \<Rightarrow> 'c rtw" where
  "finish_loading a w = (case map_of (rt_loading w) a of None \<Rightarrow> w
   | Some n \<Rightarrow> if n = 0 then w else if n - 1 \<le> 0 then w\<lparr>rt_loading := AList.delete a (rt_loading w)\<rparr>
       else w\<lparr>rt_loading := AList.update a (n - 1) (rt_loading w)\<rparr>)"

(* models packages/core/src/shared/transport-connections.ts:250-265 connect.onmessage *)
definition revoke :: "nat \<Rightarrow> 'c rtw \<Rightarrow> 'c rtw" where
  "revoke i w =
     (let w1 = upd i (\<lambda>s. s\<lparr>so_closed := True, so_pinging := False, so_timer := None, so_intentional := True\<rparr>) w;
          w2 = (if rt_current w1 = Some i then w1\<lparr>rt_current := None\<rparr> else w1);
          w3 = failPendingSocketCalls i (upd i (\<lambda>s. s\<lparr>so_disposer := False, so_attached := False\<rparr>) w2)
      in set_status (\<lambda>s. s\<lparr>rs_state := CsClosed, rs_attempts := 0,
            rs_lastError := Some ''Realtime authorization changed. Reload the page to reconnect.''\<rparr>) (upd i net_close w3))"

definition text_of :: "jsv \<Rightarrow> string option" where
  "text_of v = (case v of JStr s \<Rightarrow> Some s | _ \<Rightarrow> None)"

(* models packages/core/src/shared/transport-connections.ts:270-300 connect.onmessage *)
definition broadcast :: "'c app \<Rightarrow> nat \<Rightarrow> jsv \<Rightarrow> 'c rtw \<Rightarrow> 'c rtw" where
  "broadcast ap i data w =
     (if jget data ''type'' = JStr ''state-update'' then w\<lparr>rt_app := ap_apply ap (or_js (jget data ''state'') (JObj [])) (rt_app w)\<rparr>
      else if jget data ''type'' = JStr ''action-complete'' then (case text_of (jget data ''action'') of
          None \<Rightarrow> w | Some a \<Rightarrow> if ap_optimistic ap a (rt_app w) then w else finish_loading a w)
      else if jget data ''type'' = JStr ''client-action'' then (case text_of (jget data ''action'') of
          None \<Rightarrow> w
        | Some a \<Rightarrow> if ap_client ap a \<and> ap_has ap a then (case spread (jget data ''payload'') of
              None \<Rightarrow> w | Some args \<Rightarrow> call_method ap a args w) else w)
      else if jget data ''type'' = JStr ''event'' then (case text_of (jget data ''eventName'') of
          None \<Rightarrow> w | Some e \<Rightarrow> run_handlers ap i (jget data ''payload'') (ap_handlers ap e) w)
      else w)"

definition is_jarr :: "jsv \<Rightarrow> bool" where
  "is_jarr v = (case v of JArr _ \<Rightarrow> True | _ \<Rightarrow> False)"

text \<open>Received data: the heartbeat's answer, text that is no JSON, or a value and the size of its text.\<close>

datatype socket_data = Pong | Malformed | Parsed jsv nat

(* models packages/core/src/shared/transport-connections.ts:236-301 connect.onmessage *)
definition on_message :: "'c app \<Rightarrow> nat \<Rightarrow> socket_data \<Rightarrow> 'c rtw \<Rightarrow> 'c rtw" where
  "on_message ap i d w = (if \<not> isCurrent i w then w
     else (case d of Pong \<Rightarrow> w | Malformed \<Rightarrow> w
       | Parsed data bytes \<Rightarrow>
          if \<not> (is_jobj data \<or> is_jarr data) then w
          else if jget data ''type'' = JStr ''authorization-error'' \<and> jget data ''code'' = JStr ''COSSACK_REALTIME_AUTH_CHANGED''
          then revoke i w
          else (let (consumed, w') = routeSocketFrame i data bytes w in
            if consumed then w' else if text_of (jget data ''type'') = None then w' else broadcast ap i data w')))"


section \<open>Events\<close>

text \<open>
  What can happen: events of a socket, its timer, and what the application does - open or close
  the connection, destroy the component, navigate, start a call on the open socket, cancel one.
\<close>

datatype rt_event = NetOpened nat | NetMessage nat socket_data | NetClosedEv nat | NetErrored nat | TimerFires nat
  | AppConnect | AppDisconnect | AppDestroy | AppNavigate jsv | AppCall string | AppCancel nat string

definition attached_event :: "nat \<Rightarrow> ('c rtw \<Rightarrow> 'c rtw) \<Rightarrow> 'c rtw \<Rightarrow> 'c rtw" where
  "attached_event i h w = (if so_attached (sock w i) then h w else w)"

definition set_ready :: "nat \<Rightarrow> ready_state \<Rightarrow> 'c rtw \<Rightarrow> 'c rtw" where
  "set_ready i r = upd i (\<lambda>s. s\<lparr>so_ready := r\<rparr>)"

text \<open>A new call enters itself under its fresh id on the current socket, which it found open.\<close>

definition start_call :: "string \<Rightarrow> 'c rtw \<Rightarrow> 'c rtw" where
  "start_call r w = (case rt_current w of None \<Rightarrow> w
   | Some i \<Rightarrow> if so_ready (sock w i) = NetOpen then upd i (\<lambda>s. s\<lparr>so_pending := so_pending s @ [r]\<rparr>) w else w)"

fun handle :: "'c app \<Rightarrow> rt_event \<Rightarrow> 'c rtw \<Rightarrow> 'c rtw" where
  "handle ap (NetOpened i) w = attached_event i (on_open ap i) (set_ready i NetOpen w)"
| "handle ap (NetMessage i d) w = attached_event i (on_message ap i d) w"
| "handle ap (NetClosedEv i) w = attached_event i (on_close i) (set_ready i NetClosed w)"
| "handle ap (NetErrored i) w = attached_event i (on_error i) w"
| "handle ap (TimerFires i) w = on_timer ap i w"
| "handle ap AppConnect w = connectWebSocket ap w"
| "handle ap AppDisconnect w = disconnectWebSocket w"
| "handle ap AppDestroy w = destroy_component w"
| "handle ap (AppNavigate page) w = w\<lparr>rt_page := page\<rparr>"
| "handle ap (AppCall r) w = start_call r w"
| "handle ap (AppCancel i r) w = settle_pending i r w"

text \<open>
  The browser opens a connecting socket once, delivers messages until the socket is closed and
  reports the close once; a timer fires if it is set. Ids of calls are fresh.
\<close>

fun possible :: "rt_event \<Rightarrow> 'c rtw \<Rightarrow> bool" where
  "possible (NetOpened i) w = (i < length (rt_sockets w) \<and> so_ready (sock w i) = NetConnecting)"
| "possible (NetMessage i d) w = (i < length (rt_sockets w) \<and> so_ready (sock w i) \<in> {NetOpen, NetClosing})"
| "possible (NetClosedEv i) w = (i < length (rt_sockets w) \<and> so_ready (sock w i) \<noteq> NetClosed)"
| "possible (NetErrored i) w = (i < length (rt_sockets w) \<and> so_ready (sock w i) \<noteq> NetClosed)"
| "possible (TimerFires i) w = (i < length (rt_sockets w) \<and> so_timer (sock w i) \<noteq> None)"
| "possible (AppCall r) w = (r \<notin> fst ` snd ` set (rt_log w) \<and> (\<forall>s \<in> set (rt_sockets w). r \<notin> set (so_pending s)))"
| "possible (AppCancel i r) w = (i < length (rt_sockets w))"
| "possible _ w = True"

definition start_world :: "jsv \<Rightarrow> 'c \<Rightarrow> 'c rtw" where
  "start_world page c = \<lparr>rt_sockets = [], rt_current = None, rt_destroyed = False, rt_status = fresh_status, rt_page = page,
     rt_loading = [], rt_log = [], rt_app = c\<rparr>"

inductive reachable :: "'c app \<Rightarrow> 'c rtw \<Rightarrow> bool" for ap where
  start: "reachable ap (start_world page c)"
| step: "reachable ap w \<Longrightarrow> possible ev w \<Longrightarrow> reachable ap (handle ap ev w)"

end
