(* ===== verification/Realtime_Facts.thy ===== *)
theory Realtime_Facts
  imports Realtime
begin

text \<open>
  The connection's invariant and what follows from it: there is one live socket at most, a lost
  connection always has its retry armed, no call waits on a dead socket, every call is settled once,
  and retries end with an open connection as soon as one is accepted.
\<close>

section \<open>Reading updated worlds\<close>

lemma upd_simps [simp]:
  "length (rt_sockets (upd i f w)) = length (rt_sockets w)" "rt_current (upd i f w) = rt_current w"
  "rt_destroyed (upd i f w) = rt_destroyed w" "rt_status (upd i f w) = rt_status w" "rt_page (upd i f w) = rt_page w"
  "rt_log (upd i f w) = rt_log w" "rt_app (upd i f w) = rt_app w" "rt_loading (upd i f w) = rt_loading w"
  "rt_sockets (upd i f w) = (rt_sockets w)[i := f (sock w i)]"
  by (simp_all add: upd_def)

lemma sock_upd [simp]: "sock (upd i f w) j = (if i = j \<and> i < length (rt_sockets w) then f (sock w i) else sock w j)"
  by (cases "i < length (rt_sockets w)"; cases "i = j") (simp_all add: sock_def upd_def list_update_beyond)

lemma sock_frame [simp]:
  "sock (w\<lparr>rt_current := c\<rparr>) j = sock w j" "sock (w\<lparr>rt_destroyed := d\<rparr>) j = sock w j" "sock (w\<lparr>rt_status := st\<rparr>) j = sock w j"
  "sock (w\<lparr>rt_page := p\<rparr>) j = sock w j" "sock (w\<lparr>rt_log := l\<rparr>) j = sock w j" "sock (w\<lparr>rt_app := a\<rparr>) j = sock w j"
  "sock (w\<lparr>rt_loading := ld\<rparr>) j = sock w j"
  by (simp_all add: sock_def)

lemma set_status_simps [simp]:
  "rt_sockets (set_status f w) = rt_sockets w" "rt_current (set_status f w) = rt_current w"
  "rt_destroyed (set_status f w) = rt_destroyed w" "rt_status (set_status f w) = f (rt_status w)"
  "rt_page (set_status f w) = rt_page w" "rt_log (set_status f w) = rt_log w" "sock (set_status f w) j = sock w j"
  by (simp_all add: set_status_def sock_def)

lemma net_close_simps [simp]:
  "so_closed (net_close s) = so_closed s" "so_timer (net_close s) = so_timer s" "so_pinging (net_close s) = so_pinging s"
  "so_intentional (net_close s) = so_intentional s" "so_attached (net_close s) = so_attached s" "so_disposer (net_close s) = so_disposer s"
  "so_pending (net_close s) = so_pending s" "so_attempt (net_close s) = so_attempt s" "so_first (net_close s) = so_first s"
  "so_ready (net_close s) \<in> {NetClosing, NetClosed}"
  by (auto simp: net_close_def)

lemma fail_simps [simp]:
  "length (rt_sockets (failPendingSocketCalls i w)) = length (rt_sockets w)" "rt_current (failPendingSocketCalls i w) = rt_current w"
  "rt_destroyed (failPendingSocketCalls i w) = rt_destroyed w" "rt_status (failPendingSocketCalls i w) = rt_status w"
  "sock (failPendingSocketCalls i w) j = (if i = j \<and> i < length (rt_sockets w) then (sock w i)\<lparr>so_pending := []\<rparr> else sock w j)"
  "rt_page (failPendingSocketCalls i w) = rt_page w"
  by (simp_all add: failPendingSocketCalls_def)

lemma settle_simps [simp]:
  "length (rt_sockets (settle_pending i r w)) = length (rt_sockets w)" "rt_current (settle_pending i r w) = rt_current w"
  "rt_destroyed (settle_pending i r w) = rt_destroyed w" "rt_status (settle_pending i r w) = rt_status w" "rt_log (settle_pending i r w) = rt_log w"
  "sock (settle_pending i r w) j = (if i = j \<and> i < length (rt_sockets w)
     then (sock w i)\<lparr>so_pending := filter (\<lambda>x. x \<noteq> r) (so_pending (sock w i))\<rparr> else sock w j)"
  by (simp_all add: settle_pending_def)

lemma emit_simps [simp]:
  "rt_sockets (emit i r e w) = rt_sockets w" "rt_current (emit i r e w) = rt_current w" "rt_destroyed (emit i r e w) = rt_destroyed w"
  "rt_status (emit i r e w) = rt_status w" "rt_log (emit i r e w) = rt_log w @ [(i, r, e)]" "sock (emit i r e w) j = sock w j"
  by (simp_all add: emit_def sock_def)


section \<open>The invariant\<close>

definition live :: "'c rtw \<Rightarrow> nat \<Rightarrow> bool" where
  "live w i \<longleftrightarrow> i < length (rt_sockets w) \<and> \<not> so_closed (sock w i)"

definition socket_inv :: "'c rtw \<Rightarrow> nat \<Rightarrow> bool" where
  "socket_inv w i \<longleftrightarrow> (let s = sock w i in
     (\<not> so_closed s \<longrightarrow> rt_current w = Some i \<and> so_attached s \<and> so_ready s \<noteq> NetClosed) \<and>
     (so_closed s \<longrightarrow> so_pending s = [] \<and> \<not> so_pinging s \<and> so_ready s \<in> {NetClosing, NetClosed}) \<and>
     (case so_timer s of None \<Rightarrow> True
      | Some (d, n) \<Rightarrow> rt_current w = Some i \<and> so_closed s \<and> n \<ge> 1 \<and> d = realtimeReconnectDelay n \<and> rs_attempts (rt_status w) = n))"

definition current_inv :: "'c rtw \<Rightarrow> bool" where
  "current_inv w \<longleftrightarrow> (case rt_current w of None \<Rightarrow> True
     | Some i \<Rightarrow> Suc i = length (rt_sockets w) \<and> so_attached (sock w i) \<and> so_disposer (sock w i) \<and> \<not> so_intentional (sock w i))"

text \<open>What the status says is so; in particular a reconnecting component has an attempt under way or
  its timer set.\<close>

definition status_inv :: "'c rtw \<Rightarrow> bool" where
  "status_inv w \<longleftrightarrow> (case rs_state (rt_status w) of
     CsOpen \<Rightarrow> (\<exists>i. rt_current w = Some i \<and> live w i \<and> so_ready (sock w i) \<noteq> NetConnecting \<and> so_attempt (sock w i) = 0)
   | CsReconnecting \<Rightarrow> (\<exists>i. rt_current w = Some i \<and> (live w i \<or> so_timer (sock w i) \<noteq> None))
   | CsConnecting \<Rightarrow> (case rt_current w of None \<Rightarrow> rt_sockets w = [] | Some i \<Rightarrow> live w i)
   | CsClosed \<Rightarrow> rt_current w = None)"

definition base_inv :: "'c rtw \<Rightarrow> bool" where
  "base_inv w \<longleftrightarrow> (\<forall>i < length (rt_sockets w). socket_inv w i) \<and> current_inv w \<and> status_inv w"

definition rt_inv :: "'c rtw \<Rightarrow> bool" where
  "rt_inv w \<longleftrightarrow> base_inv w \<and> (rt_destroyed w \<longrightarrow> rt_current w = None)"

lemmas inv_defs = rt_inv_def base_inv_def socket_inv_def current_inv_def status_inv_def live_def

lemma base_inv_frame:
  assumes "rt_sockets w' = rt_sockets w" "rt_current w' = rt_current w" "rt_status w' = rt_status w"
  shows "base_inv w' = base_inv w"
proof -
  have s: "sock w' = sock w" by (rule ext) (simp add: sock_def assms(1))
  show ?thesis unfolding base_inv_def socket_inv_def current_inv_def status_inv_def live_def assms s by (rule refl)
qed

lemma rt_inv_frame:
  "rt_sockets w' = rt_sockets w \<Longrightarrow> rt_current w' = rt_current w \<Longrightarrow> rt_status w' = rt_status w \<Longrightarrow>
    rt_destroyed w' = rt_destroyed w \<Longrightarrow> rt_inv w' = rt_inv w"
  using base_inv_frame [of w' w] by (simp add: rt_inv_def)

lemma base_inv_socket: "base_inv w \<Longrightarrow> i < length (rt_sockets w) \<Longrightarrow> socket_inv w i"
  by (simp add: base_inv_def)

lemma start_inv_rt: "rt_inv (start_world page c)"
  by (simp add: inv_defs start_world_def fresh_status_def)

text \<open>What disconnecting leaves: no current socket, and every socket closed.\<close>

lemma disconnect_inv:
  assumes "base_inv w"
  shows "base_inv (disconnectWebSocket w)" "rt_current (disconnectWebSocket w) = None"
    "rt_destroyed (disconnectWebSocket w) = rt_destroyed w" "rt_page (disconnectWebSocket w) = rt_page w"
    "length (rt_sockets (disconnectWebSocket w)) = length (rt_sockets w)"
proof -
  have dis: "so_disposer (sock w i)" "i < length (rt_sockets w)" if "rt_current w = Some i" for i
    using assms that by (auto simp: base_inv_def current_inv_def)
  show "rt_current (disconnectWebSocket w) = None" "rt_destroyed (disconnectWebSocket w) = rt_destroyed w"
      "rt_page (disconnectWebSocket w) = rt_page w" "length (rt_sockets (disconnectWebSocket w)) = length (rt_sockets w)"
    by (auto simp: disconnectWebSocket_def dispose_socket_def Let_def split: option.splits)
  show "base_inv (disconnectWebSocket w)"
  proof (cases "rt_current w")
    case None
    then show ?thesis using assms by (simp add: disconnectWebSocket_def)
  next
    case (Some i)
    have "socket_inv (disconnectWebSocket w) j" if "j < length (rt_sockets w)" for j
      using base_inv_socket [OF assms that] Some dis [OF Some] net_close_simps(10)
      by (auto simp: disconnectWebSocket_def dispose_socket_def socket_inv_def Let_def split: option.splits)
    then show ?thesis using Some dis [OF Some]
      by (auto simp: base_inv_def disconnectWebSocket_def dispose_socket_def current_inv_def status_inv_def Let_def)
  qed
qed


text \<open>A new attempt, when no socket is live any more.\<close>

definition all_dead :: "'c rtw \<Rightarrow> bool" where
  "all_dead w \<longleftrightarrow> (\<forall>i < length (rt_sockets w). so_closed (sock w i) \<and> so_timer (sock w i) = None \<and> so_pending (sock w i) = []
     \<and> \<not> so_pinging (sock w i) \<and> so_ready (sock w i) \<in> {NetClosing, NetClosed})"

definition new_socket :: "'c app \<Rightarrow> conn_plan \<Rightarrow> nat \<Rightarrow> 'c rtw \<Rightarrow> socket" where
  "new_socket ap first n w = \<lparr>so_first = first, so_plan = attempt_plan ap (rt_page w) first n, so_ready = NetConnecting, so_attempt = n,
     so_closed = False, so_timer = None, so_pinging = True, so_intentional = False, so_attached = True, so_disposer = True,
     so_pending = []\<rparr>"

lemma connect_simps [simp]:
  "rt_sockets (connect ap p n w) = rt_sockets w @ [new_socket ap p n w]" "rt_current (connect ap p n w) = Some (length (rt_sockets w))"
  "rt_destroyed (connect ap p n w) = rt_destroyed w" "rt_page (connect ap p n w) = rt_page w"
  "rs_state (rt_status (connect ap p n w)) = (if n = 0 then CsConnecting else CsReconnecting)"
  "rs_attempts (rt_status (connect ap p n w)) = n" "rt_log (connect ap p n w) = rt_log w"
  "sock (connect ap p n w) j = (if j < length (rt_sockets w) then sock w j else (rt_sockets w @ [new_socket ap p n w]) ! j)"
  by (auto simp: connect_def new_socket_def Let_def sock_def nth_append)

lemma connect_inv:
  assumes dead: "all_dead w" and "\<not> rt_destroyed w"
  shows "rt_inv (connect ap p n w)"
proof -
  let ?w = "connect ap p n w"
  have "socket_inv ?w j" if j: "j < length (rt_sockets ?w)" for j
  proof (cases "j < length (rt_sockets w)")
    case True
    then show ?thesis using dead by (auto simp: all_dead_def socket_inv_def Let_def)
  next
    case False
    then have "j = length (rt_sockets w)" using j by simp
    then show ?thesis by (simp add: socket_inv_def new_socket_def)
  qed
  then show ?thesis using assms(2)
    by (auto simp: rt_inv_def base_inv_def current_inv_def status_inv_def live_def new_socket_def)
qed

lemma socket_not_current:
  "socket_inv w i \<Longrightarrow> rt_current w \<noteq> Some i \<Longrightarrow> so_closed (sock w i) \<and> so_timer (sock w i) = None \<and> so_pending (sock w i) = []
    \<and> \<not> so_pinging (sock w i) \<and> so_ready (sock w i) \<in> {NetClosing, NetClosed}"
  by (auto simp: socket_inv_def Let_def split: option.splits)

lemma no_current_dead: "base_inv w \<Longrightarrow> rt_current w = None \<Longrightarrow> all_dead w"
  unfolding all_dead_def using socket_not_current base_inv_socket by (metis option.distinct(1))

lemma connectWebSocket_inv:
  assumes "rt_inv w"
  shows "rt_inv (connectWebSocket ap w)"
proof (cases "rt_destroyed w")
  case True
  then show ?thesis using assms by (simp add: connectWebSocket_def)
next
  case False
  have base: "base_inv w" using assms by (simp add: rt_inv_def)
  let ?d = "disconnectWebSocket w"
  note d = disconnect_inv [OF base]
  have closed: "rt_inv (set_status (\<lambda>s. s\<lparr>rs_state := CsClosed, rs_attempts := 0, rs_lastError := Some e\<rparr>) ?d)" for e
    using no_current_dead [OF d(1,2)] d(2)
    by (auto simp: rt_inv_def base_inv_def current_inv_def status_inv_def all_dead_def socket_inv_def Let_def)
  have "rt_inv (connect ap p 0 ?d)" for p
    by (rule connect_inv [OF no_current_dead [OF d(1,2)]]) (use False d(3) in simp)
  moreover have "rt_inv ?d" using d(1,2) by (simp add: rt_inv_def)
  moreover have "connectWebSocket ap w = (case planRealtimeConnection ap (rt_page ?d) of NoPlan \<Rightarrow> ?d
      | PlanError e \<Rightarrow> set_status (\<lambda>s. s\<lparr>rs_state := CsClosed, rs_attempts := 0, rs_lastError := Some e\<rparr>) ?d
      | Plan p \<Rightarrow> connect ap p 0 ?d)"
    using False by (simp add: connectWebSocket_def Let_def)
  ultimately show ?thesis using closed by (cases "planRealtimeConnection ap (rt_page ?d)") simp_all
qed

lemma destroy_inv:
  assumes "rt_inv w"
  shows "rt_inv (destroy_component w)"
proof -
  have "base_inv (w\<lparr>rt_destroyed := True\<rparr>)"
    using assms base_inv_frame [of "w\<lparr>rt_destroyed := True\<rparr>" w] by (simp add: rt_inv_def)
  from disconnect_inv [OF this] show ?thesis by (simp add: destroy_component_def rt_inv_def)
qed

lemma timer_inv:
  assumes "rt_inv w" "i < length (rt_sockets w)"
  shows "rt_inv (on_timer ap i w)"
proof (cases "so_timer (sock w i)")
  case None
  then show ?thesis using assms by (simp add: on_timer_def)
next
  case (Some dn)
  obtain d n where dn: "dn = (d, n)" by (cases dn)
  have base: "base_inv w" using assms(1) by (simp add: rt_inv_def)
  have i: "rt_current w = Some i" "so_closed (sock w i)"
    using base_inv_socket [OF base assms(2)] Some dn by (auto simp: socket_inv_def Let_def)
  then have alive: "\<not> rt_destroyed w" using assms(1) by (auto simp: rt_inv_def)
  have intent: "\<not> so_intentional (sock w i)" using base i by (simp add: base_inv_def current_inv_def)
  let ?u = "upd i (\<lambda>s. s\<lparr>so_timer := None\<rparr>) w"
  have "all_dead ?u"
    unfolding all_dead_def
  proof (intro allI impI)
    fix j assume "j < length (rt_sockets ?u)"
    then have j: "socket_inv w j" using base_inv_socket [OF base] by simp
    have "so_closed (sock w j) \<and> (j \<noteq> i \<longrightarrow> so_timer (sock w j) = None) \<and> so_pending (sock w j) = [] \<and> \<not> so_pinging (sock w j)
        \<and> so_ready (sock w j) \<in> {NetClosing, NetClosed}"
      using j i socket_not_current [OF j] by (cases "j = i") (simp_all add: socket_inv_def Let_def)
    then show "so_closed (sock ?u j) \<and> so_timer (sock ?u j) = None \<and> so_pending (sock ?u j) = [] \<and> \<not> so_pinging (sock ?u j)
        \<and> so_ready (sock ?u j) \<in> {NetClosing, NetClosed}"
      using assms(2) by simp
  qed
  from connect_inv [OF this] show ?thesis using Some dn i alive intent assms(2)
    by (auto simp: on_timer_def ownsSocket_def)
qed


section \<open>Handlers preserve the invariant\<close>

lemma set_ready_simps [simp]:
  "length (rt_sockets (set_ready i r w)) = length (rt_sockets w)" "rt_current (set_ready i r w) = rt_current w"
  "rt_destroyed (set_ready i r w) = rt_destroyed w" "rt_status (set_ready i r w) = rt_status w" "rt_log (set_ready i r w) = rt_log w"
  "sock (set_ready i r w) j = (if i = j \<and> i < length (rt_sockets w) then (sock w i)\<lparr>so_ready := r\<rparr> else sock w j)"
  by (simp_all add: set_ready_def)

lemma opened_inv:
  assumes "rt_inv w" "possible (NetOpened i) w"
  shows "rt_inv (handle ap (NetOpened i) w)"
proof -
  have i: "i < length (rt_sockets w)" "so_ready (sock w i) = NetConnecting" using assms(2) by simp_all
  have base: "base_inv w" using assms(1) by (simp add: rt_inv_def)
  have live: "\<not> so_closed (sock w i)" "rt_current w = Some i" "so_attached (sock w i)" "so_timer (sock w i) = None"
    using base_inv_socket [OF base i(1)] i(2) by (auto simp: socket_inv_def Let_def split: option.splits)
  have alive: "\<not> rt_destroyed w" "\<not> so_intentional (sock w i)"
    using assms(1) live by (auto simp: rt_inv_def base_inv_def current_inv_def)
  let ?w = "on_open ap i (set_ready i NetOpen w)"
  have "isCurrent i (set_ready i NetOpen w)" using i live alive by (simp add: isCurrent_def ownsSocket_def)
  then have w: "?w = set_status (\<lambda>s. s\<lparr>rs_state := CsOpen, rs_attempts := 0, rs_lastError := None\<rparr>)
       ((upd i (\<lambda>s. s\<lparr>so_attempt := 0\<rparr>) (set_ready i NetOpen w))\<lparr>rt_app := ap_reset ap (rt_app (set_ready i NetOpen w))\<rparr>)"
    by (simp add: on_open_def)
  have "socket_inv ?w j" if "j < length (rt_sockets w)" for j
    using base_inv_socket [OF base that] live i unfolding w by (auto simp: socket_inv_def Let_def split: option.splits)
  then have "rt_inv ?w" using base live i alive unfolding w
    by (auto simp: rt_inv_def base_inv_def current_inv_def status_inv_def live_def)
  then show ?thesis using i live by (simp add: attached_event_def)
qed

lemma closed_inv:
  assumes "rt_inv w" "possible (NetClosedEv i) w"
  shows "rt_inv (handle ap (NetClosedEv i) w)"
proof -
  have i: "i < length (rt_sockets w)" using assms(2) by simp
  have base: "base_inv w" using assms(1) by (simp add: rt_inv_def)
  note si = base_inv_socket [OF base i]
  show ?thesis
  proof (cases "so_closed (sock w i)")
    case True
    let ?w = "set_ready i NetClosed w"
    have "socket_inv ?w j" if "j < length (rt_sockets w)" for j
      using base_inv_socket [OF base that] True i by (auto simp: socket_inv_def Let_def split: option.splits)
    then have "rt_inv ?w" using assms(1) True i
      by (auto simp: rt_inv_def base_inv_def current_inv_def status_inv_def live_def set_ready_def split: option.splits conn_state.splits)
    then show ?thesis using True i by (auto simp: attached_event_def on_close_def)
  next
    case False
    then have live: "rt_current w = Some i" "so_attached (sock w i)" "so_timer (sock w i) = None"
      using si by (auto simp: socket_inv_def Let_def split: option.splits)
    have alive: "\<not> rt_destroyed w" "\<not> so_intentional (sock w i)" "so_disposer (sock w i)" "Suc i = length (rt_sockets w)"
      using assms(1) live by (auto simp: rt_inv_def base_inv_def current_inv_def)
    let ?w = "on_close i (set_ready i NetClosed w)"
    have "socket_inv ?w j" if "j < length (rt_sockets w)" for j
      using base_inv_socket [OF base that] live i False alive
      by (auto simp: on_close_def socket_inv_def Let_def split: option.splits)
    then have "rt_inv ?w" using live i False alive
      by (auto simp: on_close_def rt_inv_def base_inv_def current_inv_def status_inv_def live_def Let_def)
    then show ?thesis using i live by (simp add: attached_event_def)
  qed
qed

lemma errored_inv:
  assumes "rt_inv w"
  shows "rt_inv (on_error i w)"
proof (cases "isCurrent i w")
  case False
  then show ?thesis using assms by (simp add: on_error_def)
next
  case True
  let ?w = "on_error i w"
  have base: "base_inv w" using assms by (simp add: rt_inv_def)
  have "socket_inv ?w j" if "j < length (rt_sockets w)" for j
    using base_inv_socket [OF base that] True by (auto simp: on_error_def socket_inv_def Let_def split: option.splits)
  then show ?thesis using assms True
    by (auto simp: on_error_def rt_inv_def base_inv_def current_inv_def status_inv_def live_def split: option.splits conn_state.splits)
qed


text \<open>Changes of one socket that touch its pending calls only.\<close>

lemma pending_inv:
  assumes "rt_inv w" and same: "\<And>s. \<exists>p. f s = s\<lparr>so_pending := p\<rparr>"
    and dead: "so_closed (sock w i) \<longrightarrow> so_pending (f (sock w i)) = []"
  shows "rt_inv (upd i f w)"
proof -
  have base: "base_inv w" using assms(1) by (simp add: rt_inv_def)
  obtain p where p: "f (sock w i) = (sock w i)\<lparr>so_pending := p\<rparr>" using same by blast
  have "socket_inv (upd i f w) j" if j: "j < length (rt_sockets w)" for j
  proof (cases "i = j")
    case True
    then show ?thesis using base_inv_socket [OF base j] dead j p by (auto simp: socket_inv_def Let_def split: option.splits)
  next
    case False
    then show ?thesis using base_inv_socket [OF base j] by (auto simp: socket_inv_def Let_def split: option.splits)
  qed
  moreover have "current_inv (upd i f w)" using base p by (auto simp: base_inv_def current_inv_def split: option.splits)
  moreover have "status_inv (upd i f w)"
    using base p by (auto simp: base_inv_def status_inv_def live_def split: option.splits conn_state.splits)
  ultimately show ?thesis using assms(1) by (simp add: rt_inv_def base_inv_def)
qed

lemma settle_inv:
  assumes "rt_inv w" "i < length (rt_sockets w)"
  shows "rt_inv (settle_pending i r w)"
proof -
  have "socket_inv w i" using assms base_inv_socket by (auto simp: rt_inv_def)
  then have "so_closed (sock w i) \<longrightarrow> so_pending (sock w i) = []" by (simp add: socket_inv_def Let_def)
  then show ?thesis unfolding settle_pending_def by (intro pending_inv [OF assms(1)]) auto
qed

lemma emit_inv: "rt_inv (emit i r e w) = rt_inv w"
  by (rule rt_inv_frame) simp_all

lemma route_inv:
  assumes "rt_inv w" "i < length (rt_sockets w)"
  shows "rt_inv (snd (routeSocketFrame i data n w))"
proof -
  have "rt_inv (emit i r e w)" for r e using assms(1) by (simp add: emit_inv)
  moreover have "rt_inv (settle_pending i r (emit i r e w))" for r e
    by (rule settle_inv) (use calculation assms(2) in simp_all)
  ultimately show ?thesis using assms(1) by (auto simp: routeSocketFrame_def Let_def split: jsv.splits sum.splits)
qed

lemma act_inv: "rt_inv w \<Longrightarrow> rt_inv (act a w)"
  using destroy_inv disconnect_inv by (auto simp: act_def rt_inv_def split: user_act.splits)

lemma call_inv: "rt_inv w \<Longrightarrow> rt_inv (call_method ap m args w)"
proof -
  assume inv: "rt_inv w"
  obtain c a where m: "ap_method ap m args (rt_app w) = (c, a)" by fastforce
  have "rt_inv (w\<lparr>rt_app := c\<rparr>)" using inv rt_inv_frame [of "w\<lparr>rt_app := c\<rparr>" w] by simp
  then show ?thesis using act_inv by (simp add: call_method_def m)
qed

lemma handlers_inv: "rt_inv w \<Longrightarrow> rt_inv (run_handlers ap i payload hs w)"
  by (induction ap i payload hs w rule: run_handlers.induct) (auto simp: call_inv split: option.splits)

lemma finish_loading_frame:
  "rt_sockets (finish_loading a w) = rt_sockets w" "rt_current (finish_loading a w) = rt_current w"
  "rt_status (finish_loading a w) = rt_status w" "rt_destroyed (finish_loading a w) = rt_destroyed w" "rt_log (finish_loading a w) = rt_log w"
  by (auto simp: finish_loading_def split: option.splits)

lemma broadcast_inv: "rt_inv w \<Longrightarrow> rt_inv (broadcast ap i data w)"
proof -
  assume inv: "rt_inv w"
  have "rt_inv (w\<lparr>rt_app := c\<rparr>)" for c using inv rt_inv_frame [of "w\<lparr>rt_app := c\<rparr>" w] by simp
  moreover have "rt_inv (finish_loading a w)" for a
    using inv rt_inv_frame [of "finish_loading a w" w] by (simp add: finish_loading_frame)
  ultimately show ?thesis using inv handlers_inv call_inv
    by (auto simp: broadcast_def split: option.splits)
qed

lemma revoke_inv:
  assumes "rt_inv w" "isCurrent i w" "i < length (rt_sockets w)"
  shows "rt_inv (revoke i w)" "rt_current (revoke i w) = None"
proof -
  have base: "base_inv w" using assms(1) by (simp add: rt_inv_def)
  have i: "rt_current w = Some i" "\<not> so_closed (sock w i)" using assms(2) by (auto simp: isCurrent_def ownsSocket_def)
  show none: "rt_current (revoke i w) = None" using i by (simp add: revoke_def Let_def)
  have "socket_inv (revoke i w) j" if j: "j < length (rt_sockets w)" for j
  proof (cases "i = j")
    case True
    then show ?thesis using i assms(3) net_close_simps(10) by (auto simp: revoke_def socket_inv_def Let_def)
  next
    case False
    then have "rt_current w \<noteq> Some j" using i by simp
    from socket_not_current [OF base_inv_socket [OF base j] this] False
    show ?thesis by (auto simp: revoke_def socket_inv_def Let_def)
  qed
  then show "rt_inv (revoke i w)" using none i
    by (auto simp: rt_inv_def base_inv_def current_inv_def status_inv_def revoke_def Let_def)
qed

lemma message_inv:
  assumes "rt_inv w" "i < length (rt_sockets w)"
  shows "rt_inv (on_message ap i d w)"
proof -
  have "rt_inv (on_message ap i (Parsed data n) w)" if cur: "isCurrent i w" for data n
  proof -
    obtain c w' where r: "routeSocketFrame i data n w = (c, w')" by fastforce
    then have "rt_inv w'" using route_inv [OF assms, of data n] by simp
    then have "rt_inv w'" "rt_inv (broadcast ap i data w')" by (simp_all add: broadcast_inv)
    then show ?thesis using cur assms revoke_inv(1) [OF assms(1) cur assms(2)] by (auto simp: on_message_def r)
  qed
  then show ?thesis using assms(1) by (cases d) (auto simp: on_message_def)
qed

lemma start_call_inv: "rt_inv w \<Longrightarrow> rt_inv (start_call r w)"
proof -
  assume inv: "rt_inv w"
  have "rt_inv (upd i (\<lambda>s. s\<lparr>so_pending := so_pending s @ [r]\<rparr>) w)"
    if i: "rt_current w = Some i" "so_ready (sock w i) = NetOpen" for i
  proof -
    have base: "base_inv w" using inv by (simp add: rt_inv_def)
    have "i < length (rt_sockets w)" using base i by (simp add: base_inv_def current_inv_def)
    from base_inv_socket [OF base this] have "\<not> so_closed (sock w i)" using i(2) by (auto simp: socket_inv_def Let_def)
    then show ?thesis by (intro pending_inv [OF inv]) auto
  qed
  then show ?thesis using inv by (simp add: start_call_def split: option.split)
qed

lemma handle_inv:
  assumes "rt_inv w" "possible ev w"
  shows "rt_inv (handle ap ev w)"
proof (cases ev)
  case (NetOpened i) then show ?thesis using opened_inv assms by blast
next
  case (NetMessage i d) then show ?thesis using message_inv assms by (auto simp: attached_event_def)
next
  case (NetClosedEv i) then show ?thesis using closed_inv assms by blast
next
  case (NetErrored i) then show ?thesis using errored_inv assms by (auto simp: attached_event_def)
next
  case (TimerFires i) then show ?thesis using timer_inv assms by auto
next
  case AppConnect then show ?thesis using connectWebSocket_inv assms by simp
next
  case AppDisconnect then show ?thesis using disconnect_inv assms by (auto simp: rt_inv_def)
next
  case AppDestroy then show ?thesis using destroy_inv assms by simp
next
  case (AppNavigate page) then show ?thesis using rt_inv_frame [of "w\<lparr>rt_page := page\<rparr>" w] assms by simp
next
  case (AppCall r) then show ?thesis using start_call_inv assms by simp
next
  case (AppCancel i r) then show ?thesis using settle_inv assms by simp
qed

lemma reachable_inv: "reachable ap w \<Longrightarrow> rt_inv w"
  by (induction rule: reachable.induct) (auto simp: start_inv_rt handle_inv)



section \<open>One live connection\<close>

text \<open>C20. In every state the browser can reach, whatever the network and the application do and in
  whatever order: at most one socket is live and it is the component's; calls wait only on it; a
  reconnect timer is set only for the component's own, lost socket; after destruction nothing is
  live and nothing is scheduled; and the status is true: open means open, closed means that nothing
  is live or scheduled, and reconnecting means that an attempt is under way or scheduled.\<close>

theorem one_live_connection:
  assumes "reachable ap w"
  shows "(\<forall>i. live w i \<longrightarrow> rt_current w = Some i)
    \<and> (\<forall>i < length (rt_sockets w). so_pending (sock w i) \<noteq> [] \<longrightarrow> live w i)
    \<and> (\<forall>i < length (rt_sockets w). so_timer (sock w i) \<noteq> None \<longrightarrow> rt_current w = Some i \<and> \<not> live w i)
    \<and> (rt_destroyed w \<or> rs_state (rt_status w) = CsClosed \<longrightarrow> rt_current w = None)
    \<and> (rs_state (rt_status w) = CsOpen \<longrightarrow> (\<exists>i. live w i \<and> so_ready (sock w i) \<in> {NetOpen, NetClosing}))
    \<and> (rs_state (rt_status w) = CsReconnecting \<longrightarrow> (\<exists>i. rt_current w = Some i \<and> (live w i \<or> so_timer (sock w i) \<noteq> None)))"
proof -
  have inv: "rt_inv w" by (rule reachable_inv [OF assms])
  then have base: "base_inv w" by (simp add: rt_inv_def)
  have sockets: "so_closed (sock w i) \<or> rt_current w = Some i \<and> so_ready (sock w i) \<noteq> NetClosed"
      "so_closed (sock w i) \<longrightarrow> so_pending (sock w i) = []"
      "so_timer (sock w i) \<noteq> None \<longrightarrow> rt_current w = Some i \<and> so_closed (sock w i)" if "i < length (rt_sockets w)" for i
    using base_inv_socket [OF base that] by (auto simp: socket_inv_def Let_def split: option.splits)
  have st: "status_inv w" using base by (simp add: base_inv_def)
  have "\<forall>i. live w i \<longrightarrow> rt_current w = Some i" using sockets(1) by (auto simp: live_def)
  moreover have "\<forall>i < length (rt_sockets w). so_pending (sock w i) \<noteq> [] \<longrightarrow> live w i" using sockets(2) by (auto simp: live_def)
  moreover have "\<forall>i < length (rt_sockets w). so_timer (sock w i) \<noteq> None \<longrightarrow> rt_current w = Some i \<and> \<not> live w i"
    using sockets(3) by (auto simp: live_def)
  moreover have "rt_destroyed w \<or> rs_state (rt_status w) = CsClosed \<longrightarrow> rt_current w = None"
    using inv st by (auto simp: rt_inv_def status_inv_def)
  moreover have "\<exists>i. live w i \<and> so_ready (sock w i) \<in> {NetOpen, NetClosing}" if o: "rs_state (rt_status w) = CsOpen"
  proof -
    obtain i where i: "live w i" "so_ready (sock w i) \<noteq> NetConnecting" using st o by (auto simp: status_inv_def)
    moreover have "so_ready (sock w i) \<noteq> NetClosed" using sockets(1) [of i] i(1) by (auto simp: live_def)
    ultimately show ?thesis by (cases "so_ready (sock w i)") auto
  qed
  moreover have "rs_state (rt_status w) = CsReconnecting \<longrightarrow> (\<exists>i. rt_current w = Some i \<and> (live w i \<or> so_timer (sock w i) \<noteq> None))"
    using st by (auto simp: status_inv_def)
  ultimately show ?thesis by blast
qed


section \<open>A lost connection comes back\<close>

fun run :: "'c app \<Rightarrow> rt_event list \<Rightarrow> 'c rtw \<Rightarrow> 'c rtw option" where
  "run ap [] w = Some w"
| "run ap (ev # evs) w = (if possible ev w then run ap evs (handle ap ev w) else None)"

text \<open>The delays of the timers that fire in a run.\<close>

fun waited :: "'c app \<Rightarrow> rt_event list \<Rightarrow> 'c rtw \<Rightarrow> nat list" where
  "waited ap [] w = []"
| "waited ap (ev # evs) w = (case ev of TimerFires i \<Rightarrow> (case so_timer (sock w i) of None \<Rightarrow> [] | Some (d, n) \<Rightarrow> [d]) | _ \<Rightarrow> [])
     @ waited ap evs (handle ap ev w)"

text \<open>After the loss of socket \<open>i\<close>: \<open>k\<close> attempts that fail, then one that is accepted.\<close>

fun retry_events :: "nat \<Rightarrow> nat \<Rightarrow> rt_event list" where
  "retry_events i 0 = [TimerFires i, NetOpened (Suc i)]"
| "retry_events i (Suc k) = TimerFires i # NetClosedEv (Suc i) # retry_events (Suc i) k"

lemma timer_fires:
  assumes "rt_inv w" "i < length (rt_sockets w)" "so_timer (sock w i) = Some (d, n)"
  shows "\<exists>w1. handle ap (TimerFires i) w = connect ap (so_first (sock w i)) n w1 \<and> Suc i = length (rt_sockets w1) \<and> n \<ge> 1
    \<and> d = realtimeReconnectDelay n \<and> \<not> rt_destroyed w1"
proof -
  have base: "base_inv w" using assms(1) by (simp add: rt_inv_def)
  have i: "rt_current w = Some i" "n \<ge> 1" "d = realtimeReconnectDelay n"
    using base_inv_socket [OF base assms(2)] assms(3) by (auto simp: socket_inv_def Let_def)
  then have "\<not> rt_destroyed w" "\<not> so_intentional (sock w i)" "Suc i = length (rt_sockets w)"
    using assms(1) by (auto simp: rt_inv_def base_inv_def current_inv_def)
  then show ?thesis using assms(3) i
    by (intro exI [of _ "upd i (\<lambda>s. s\<lparr>so_timer := None\<rparr>) w"]) (simp add: on_timer_def ownsSocket_def)
qed

lemma lost:
  assumes "rt_inv w" "live w i"
  shows "possible (NetClosedEv i) w \<and> so_timer (sock (handle ap (NetClosedEv i) w) i)
      = Some (realtimeReconnectDelay (so_attempt (sock w i) + 1), so_attempt (sock w i) + 1)
    \<and> length (rt_sockets (handle ap (NetClosedEv i) w)) = length (rt_sockets w)"
proof -
  have base: "base_inv w" and i: "i < length (rt_sockets w)" "\<not> so_closed (sock w i)" using assms by (simp_all add: rt_inv_def live_def)
  have s: "rt_current w = Some i" "so_attached (sock w i)" "so_ready (sock w i) \<noteq> NetClosed"
    using base_inv_socket [OF base i(1)] i(2) by (auto simp: socket_inv_def Let_def)
  then have "\<not> rt_destroyed w" "\<not> so_intentional (sock w i)" using assms(1) by (auto simp: rt_inv_def base_inv_def current_inv_def)
  then show ?thesis using i s by (simp add: attached_event_def on_close_def Let_def)
qed

lemma attempt_live:
  assumes "Suc i = length (rt_sockets w1)"
  shows "live (connect ap p n w1) (Suc i)" "so_attempt (sock (connect ap p n w1) (Suc i)) = n"
    "so_ready (sock (connect ap p n w1) (Suc i)) = NetConnecting" "length (rt_sockets (connect ap p n w1)) = Suc (Suc i)"
  using assms by (simp_all add: live_def new_socket_def)

lemma accepted:
  assumes "rt_inv w" "live w i" "so_ready (sock w i) = NetConnecting"
  shows "possible (NetOpened i) w \<and> rs_state (rt_status (handle ap (NetOpened i) w)) = CsOpen
    \<and> rs_attempts (rt_status (handle ap (NetOpened i) w)) = 0 \<and> rt_current (handle ap (NetOpened i) w) = Some i"
proof -
  have base: "base_inv w" and i: "i < length (rt_sockets w)" "\<not> so_closed (sock w i)" using assms by (simp_all add: rt_inv_def live_def)
  have s: "rt_current w = Some i" "so_attached (sock w i)"
    using base_inv_socket [OF base i(1)] i(2) by (auto simp: socket_inv_def Let_def)
  then have "\<not> rt_destroyed w" "\<not> so_intentional (sock w i)" using assms(1) by (auto simp: rt_inv_def base_inv_def current_inv_def)
  then show ?thesis using i s assms(3) by (simp add: attached_event_def on_open_def isCurrent_def ownsSocket_def)
qed

lemma retries:
  assumes "rt_inv w" "Suc i = length (rt_sockets w)" "so_timer (sock w i) = Some (realtimeReconnectDelay n, n)"
  shows "\<exists>w'. run ap (retry_events i k) w = Some w' \<and> rs_state (rt_status w') = CsOpen \<and> rs_attempts (rt_status w') = 0
    \<and> rt_current w' = Some (i + k + 1) \<and> waited ap (retry_events i k) w = map realtimeReconnectDelay [n..<n + k + 1]"
  using assms
proof (induction k arbitrary: i n w)
  case 0
  have i: "i < length (rt_sockets w)" using 0(2) by simp
  have ok: "possible (TimerFires i) w" using i 0(3) by simp
  obtain w1 where w1: "handle ap (TimerFires i) w = connect ap (so_first (sock w i)) n w1" "Suc i = length (rt_sockets w1)"
    using timer_fires [OF 0(1) i 0(3)] by blast
  have inv: "rt_inv (connect ap (so_first (sock w i)) n w1)" using handle_inv [OF 0(1) ok, of ap] w1(1) by simp
  note live = attempt_live [OF w1(2), of ap "so_first (sock w i)" n]
  show ?case using accepted [OF inv live(1,3), of ap] ok w1(1) 0(3) by (simp del: handle.simps possible.simps)
next
  case (Suc k)
  have i: "i < length (rt_sockets w)" using Suc.prems(2) by simp
  have ok: "possible (TimerFires i) w" using i Suc.prems(3) by simp
  obtain w1 where w1: "handle ap (TimerFires i) w = connect ap (so_first (sock w i)) n w1" "Suc i = length (rt_sockets w1)"
    using timer_fires [OF Suc.prems(1) i Suc.prems(3)] by blast
  let ?c = "connect ap (so_first (sock w i)) n w1"
  have inv: "rt_inv ?c" using handle_inv [OF Suc.prems(1) ok, of ap] w1(1) by simp
  note live = attempt_live [OF w1(2), of ap "so_first (sock w i)" n]
  note lost = lost [OF inv live(1), of ap]
  let ?l = "handle ap (NetClosedEv (Suc i)) ?c"
  have "rt_inv ?l" using handle_inv [OF inv] lost by blast
  moreover have "Suc (Suc i) = length (rt_sockets ?l)" using lost live(4) by simp
  moreover have "so_timer (sock ?l (Suc i)) = Some (realtimeReconnectDelay (Suc n), Suc n)" using lost live(2) by simp
  ultimately obtain w' where w': "run ap (retry_events (Suc i) k) ?l = Some w'" "rs_state (rt_status w') = CsOpen"
      "rs_attempts (rt_status w') = 0" "rt_current w' = Some (Suc i + k + 1)"
      "waited ap (retry_events (Suc i) k) ?l = map realtimeReconnectDelay [Suc n..<Suc n + k + 1]"
    using Suc.IH by blast
  have "[n..<n + Suc k + 1] = n # [Suc n..<Suc n + k + 1]" by (simp add: upt_conv_Cons)
  then show ?case using w' ok lost w1(1) Suc.prems(3)
    by (simp del: handle.simps possible.simps upt_Suc)
qed

text \<open>C21. A lost connection comes back. Whenever an open connection drops, then after any number of
  attempts that fail, the first one that the server accepts makes the status open again with the
  attempt counter at zero; no step of it needs the application; and the wait before attempt \<open>m\<close> is
  \<open>min(30000, 500 * 2 ^ min(m - 1, 6))\<close> milliseconds, never less than half a second nor more than
  thirty.\<close>

theorem lost_connection_returns:
  assumes "reachable ap w" "rs_state (rt_status w) = CsOpen" "rt_current w = Some i"
  shows "\<exists>w'. run ap (NetClosedEv i # retry_events i k) w = Some w' \<and> rs_state (rt_status w') = CsOpen
    \<and> rs_attempts (rt_status w') = 0 \<and> rt_current w' = Some (i + k + 1)
    \<and> waited ap (NetClosedEv i # retry_events i k) w = map realtimeReconnectDelay [1..<k + 2]
    \<and> (\<forall>d \<in> set (waited ap (NetClosedEv i # retry_events i k) w). 500 \<le> d \<and> d \<le> 30000)"
proof -
  have inv: "rt_inv w" by (rule reachable_inv [OF assms(1)])
  have live: "live w i" "so_attempt (sock w i) = 0" "Suc i = length (rt_sockets w)"
    using inv assms(2,3) by (auto simp: rt_inv_def base_inv_def status_inv_def current_inv_def)
  note lost = lost [OF inv live(1), of ap]
  let ?l = "handle ap (NetClosedEv i) w"
  have l: "rt_inv ?l" "Suc i = length (rt_sockets ?l)" "so_timer (sock ?l i) = Some (realtimeReconnectDelay 1, 1)"
    using handle_inv [OF inv conjunct1 [OF lost]] conjunct2 [OF lost] live by simp_all
  from retries [OF l, of ap k] obtain w' where w': "run ap (retry_events i k) ?l = Some w'" "rs_state (rt_status w') = CsOpen"
      "rs_attempts (rt_status w') = 0" "rt_current w' = Some (i + k + 1)"
      "waited ap (retry_events i k) ?l = map realtimeReconnectDelay [1..<1 + k + 1]" by blast
  have waits: "waited ap (NetClosedEv i # retry_events i k) w = map realtimeReconnectDelay [1..<k + 2]" using w'(5) by simp
  have "500 \<le> realtimeReconnectDelay m \<and> realtimeReconnectDelay m \<le> 30000" for m by (simp add: realtimeReconnectDelay_def)
  then show ?thesis unfolding waits using w' lost by (simp del: handle.simps possible.simps upt_Suc)
qed


section \<open>A concrete page\<close>

definition small_app :: "nat app" where
  "small_app = \<lparr>ap_owner = \<lparr>ow_component = None, ow_descriptor = None, ow_routeId = JUndef\<rparr>, ap_stringify = (\<lambda>_. ''{}''),
     ap_reset = (\<lambda>c. c), ap_apply = (\<lambda>_ c. c + 1), ap_optimistic = (\<lambda>_ _. False), ap_client = (\<lambda>_. False),
     ap_handlers = (\<lambda>_. []), ap_has = (\<lambda>_. False), ap_method = (\<lambda>_ _ c. (c, UNothing))\<rparr>"

definition small_page :: jsv where
  "small_page = JObj [(''realtimeTarget'', JStr ''page:a''), (''routePath'', JStr ''/a'')]"

definition small_open :: "nat rtw" where
  "small_open = handle small_app (NetOpened 0) (handle small_app AppConnect (start_world small_page 0))"


lemma small_open_value: "small_open = \<lparr>rt_sockets = [\<lparr>so_first = \<lparr>pl_target = JStr ''page:a'', pl_query = [(''routePath'', JStr ''/a''), (''pathname'', JStr []), (''params'', JStr ''{}'')]\<rparr>,
    so_plan = \<lparr>pl_target = JStr ''page:a'', pl_query = [(''routePath'', JStr ''/a''), (''pathname'', JStr []), (''params'', JStr ''{}'')]\<rparr>,
    so_ready = NetOpen, so_attempt = 0, so_closed = False, so_timer = None, so_pinging = True, so_intentional = False, so_attached = True,
    so_disposer = True, so_pending = []\<rparr>], rt_current = Some 0, rt_destroyed = False,
    rt_status = \<lparr>rs_state = CsOpen, rs_attempts = 0, rs_lastEventId = None, rs_lastError = None, rs_resynced = False\<rparr>,
    rt_page = small_page, rt_loading = [], rt_log = [], rt_app = 0\<rparr>"
  by code_simp

lemma small_reachable: "reachable small_app small_open"
proof -
  have "reachable small_app (handle small_app AppConnect (start_world small_page 0))"
    by (rule reachable.step [OF reachable.start]) simp
  moreover have "possible (NetOpened 0) (handle small_app AppConnect (start_world small_page 0))" by code_simp
  ultimately show ?thesis unfolding small_open_def by (rule reachable.step)
qed

lemma one_live_connection_witness: "rt_current (handle small_app (NetClosedEv 0) small_open) = Some 0"
proof -
  have "possible (NetClosedEv 0) small_open" by (simp add: small_open_value sock_def)
  then have r: "reachable small_app (handle small_app (NetClosedEv 0) small_open)" by (rule reachable.step [OF small_reachable])
  have "0 < length (rt_sockets (handle small_app (NetClosedEv 0) small_open))"
    "so_timer (sock (handle small_app (NetClosedEv 0) small_open) 0) \<noteq> None"
    by (simp_all add: small_open_value attached_event_def on_close_def sock_def set_ready_def upd_def failPendingSocketCalls_def set_status_def)
  with one_live_connection [OF r] show ?thesis by blast
qed

lemma lost_connection_returns_witness:
  "\<exists>w'. run small_app (NetClosedEv 0 # retry_events 0 9) small_open = Some w' \<and> rs_state (rt_status w') = CsOpen
    \<and> waited small_app (NetClosedEv 0 # retry_events 0 9) small_open
      = [500, 1000, 2000, 4000, 8000, 16000, 30000, 30000, 30000, 30000]"
proof -
  have "rs_state (rt_status small_open) = CsOpen" "rt_current small_open = Some 0" by (simp_all add: small_open_value)
  from lost_connection_returns [OF small_reachable this, of 9]
  have "\<exists>w'. run small_app (NetClosedEv 0 # retry_events 0 9) small_open = Some w' \<and> rs_state (rt_status w') = CsOpen
    \<and> waited small_app (NetClosedEv 0 # retry_events 0 9) small_open = map realtimeReconnectDelay [1..<9 + 2]" by blast
  moreover have "map realtimeReconnectDelay [1..<9 + 2] = [500, 1000, 2000, 4000, 8000, 16000, 30000, 30000, 30000, 30000]"
    by (simp add: upt_rec realtimeReconnectDelay_def)
  ultimately show ?thesis by simp
qed

end
