(* ===== verification/Realtime_Calls.thy ===== *)
theory Realtime_Calls
  imports Realtime_Facts
begin

text \<open>
  Calls over a realtime connection: every call that waits on a socket hears of its end exactly once,
  by its last frame or by a local failure, and hears nothing after it; the loss of the connection,
  its closing and its revocation end every call that waits on it.
\<close>

section \<open>What a call has heard\<close>

definition terminal :: "sink_event \<Rightarrow> bool" where
  "terminal e = (case e of SinkFrame f n \<Rightarrow> \<not> is_yield f | SinkFailed c \<Rightarrow> True)"

definition events_of :: "string \<Rightarrow> 'c rtw \<Rightarrow> sink_event list" where
  "events_of r w = map (\<lambda>(i, x, e). e) (filter (\<lambda>(i, x, e). x = r) (rt_log w))"

definition waiting :: "'c rtw \<Rightarrow> string \<Rightarrow> bool" where
  "waiting w r \<longleftrightarrow> (\<exists>i < length (rt_sockets w). r \<in> set (so_pending (sock w i)))"

definition settled :: "'c rtw \<Rightarrow> string \<Rightarrow> bool" where
  "settled w r \<longleftrightarrow> list_ex terminal (events_of r w)"

definition events_ok :: "bool \<Rightarrow> sink_event list \<Rightarrow> bool" where
  "events_ok p es \<longleftrightarrow> (\<forall>e \<in> set (butlast es). \<not> terminal e) \<and> (p \<longrightarrow> (\<forall>e \<in> set es. \<not> terminal e))"

definition pend_inv :: "'c rtw \<Rightarrow> bool" where
  "pend_inv w \<longleftrightarrow> (\<forall>i < length (rt_sockets w). distinct (so_pending (sock w i)))
     \<and> (\<forall>i < length (rt_sockets w). \<forall>j < length (rt_sockets w). i \<noteq> j \<longrightarrow> set (so_pending (sock w i)) \<inter> set (so_pending (sock w j)) = {})"

definition call_inv :: "'c rtw \<Rightarrow> bool" where
  "call_inv w \<longleftrightarrow> pend_inv w \<and> (\<forall>r. events_ok (waiting w r) (events_of r w))"

lemma pend_inv_less:
  assumes "pend_inv w" "length (rt_sockets w') = length (rt_sockets w)"
    "\<And>j. j < length (rt_sockets w) \<Longrightarrow> distinct (so_pending (sock w' j)) \<and> set (so_pending (sock w' j)) \<subseteq> set (so_pending (sock w j))"
  shows "pend_inv w'"
proof -
  have "set (so_pending (sock w' i)) \<inter> set (so_pending (sock w' j)) = {}"
    if "i < length (rt_sockets w)" "j < length (rt_sockets w)" "i \<noteq> j" for i j
    using assms(1) assms(3) [OF that(1)] assms(3) [OF that(2)] that unfolding pend_inv_def by blast
  then show ?thesis using assms(2,3) by (simp add: pend_inv_def)
qed

lemma pend_inv_distinct: "call_inv w \<Longrightarrow> i < length (rt_sockets w) \<Longrightarrow> distinct (so_pending (sock w i))"
  by (simp add: call_inv_def pend_inv_def)

lemma pend_inv_disjoint:
  "call_inv w \<Longrightarrow> i < length (rt_sockets w) \<Longrightarrow> j < length (rt_sockets w) \<Longrightarrow> j \<noteq> i \<Longrightarrow> r \<in> set (so_pending (sock w i)) \<Longrightarrow>
    r \<notin> set (so_pending (sock w j))"
  unfolding call_inv_def pend_inv_def by (metis disjoint_iff)

lemma waiting_events: "call_inv w \<Longrightarrow> waiting w r \<Longrightarrow> events_ok True (events_of r w)"
  unfolding call_inv_def by metis

text \<open>\<open>keeps w w'\<close>: every call that waited still waits or has heard of its end.\<close>

definition keeps :: "'c rtw \<Rightarrow> 'c rtw \<Rightarrow> bool" where
  "keeps w w' \<longleftrightarrow> (\<forall>r. (waiting w r \<longrightarrow> waiting w' r \<or> settled w' r) \<and> (settled w r \<longrightarrow> settled w' r))"

lemma keeps_refl [simp]: "keeps w w"
  by (simp add: keeps_def)

lemma keeps_trans: "keeps w w' \<Longrightarrow> keeps w' w'' \<Longrightarrow> keeps w w''"
  by (auto simp: keeps_def)

lemma events_ok_less: "events_ok p es \<Longrightarrow> (p' \<Longrightarrow> p) \<Longrightarrow> events_ok p' es"
  by (auto simp: events_ok_def)

lemma events_ok_snoc: "events_ok True es \<Longrightarrow> (p \<Longrightarrow> \<not> terminal e) \<Longrightarrow> events_ok p (es @ [e])"
  by (auto simp: events_ok_def butlast_append)

text \<open>The pending calls and the log of a world; operations that leave both alone.\<close>

definition pends :: "'c rtw \<Rightarrow> string list list" where
  "pends w = map so_pending (rt_sockets w)"

lemma pends_nth: "i < length (rt_sockets w) \<Longrightarrow> so_pending (sock w i) = pends w ! i"
  by (simp add: pends_def sock_def)

lemma pends_length: "length (pends w) = length (rt_sockets w)"
  by (simp add: pends_def)

lemma same_pends:
  assumes "pends w' = pends w" "rt_log w' = rt_log w"
  shows "waiting w' = waiting w" "events_of r w' = events_of r w" "call_inv w' = call_inv w" "keeps w w'"
proof -
  have len: "length (rt_sockets w') = length (rt_sockets w)" using assms(1) pends_length by metis
  have pend: "so_pending (sock w' i) = so_pending (sock w i)" if "i < length (rt_sockets w)" for i
    using that len assms(1) pends_nth by metis
  show w: "waiting w' = waiting w" by (rule ext) (use len pend in \<open>auto simp: waiting_def\<close>)
  have e: "events_of r w' = events_of r w" for r by (simp add: events_of_def assms(2))
  show "events_of r w' = events_of r w" by (rule e)
  have "pend_inv w' = pend_inv w" unfolding pend_inv_def len using pend by (simp cong: conj_cong)
  then show "call_inv w' = call_inv w" unfolding call_inv_def w e by simp
  show "keeps w w'" by (simp add: keeps_def w settled_def e)
qed

lemma pends_upd: "i < length (rt_sockets w) \<Longrightarrow> so_pending (f (sock w i)) = so_pending (sock w i) \<Longrightarrow> pends (upd i f w) = pends w"
  by (simp add: pends_def map_update sock_def list_update_same_conv)

lemma pends_upd_beyond: "\<not> i < length (rt_sockets w) \<Longrightarrow> pends (upd i f w) = pends w"
  by (simp add: pends_def list_update_beyond)

lemma pends_frame [simp]:
  "pends (w\<lparr>rt_current := c\<rparr>) = pends w" "pends (w\<lparr>rt_destroyed := d\<rparr>) = pends w" "pends (w\<lparr>rt_status := st\<rparr>) = pends w"
  "pends (w\<lparr>rt_page := p\<rparr>) = pends w" "pends (w\<lparr>rt_app := a\<rparr>) = pends w" "pends (w\<lparr>rt_loading := ld\<rparr>) = pends w"
  "pends (w\<lparr>rt_log := l\<rparr>) = pends w" "pends (set_status g w) = pends w" "pends (emit i r e w) = pends w"
  by (simp_all add: pends_def set_status_def emit_def)

lemma pends_upd_any: "(\<And>s. so_pending (f s) = so_pending s) \<Longrightarrow> pends (upd i f w) = pends w"
  using pends_upd pends_upd_beyond by blast


section \<open>The three ways a call is touched\<close>

lemma events_of_emit: "events_of r (emit i x e w) = events_of r w @ (if x = r then [e] else [])"
  by (simp add: events_of_def)

lemma waiting_emit [simp]: "waiting (emit i x e w) = waiting w"
  by (rule ext) (simp add: waiting_def)

lemma emit_yield_ok:
  assumes "call_inv w" "waiting w r" "\<not> terminal e"
  shows "call_inv (emit i r e w)" "keeps w (emit i r e w)"
proof -
  have "events_ok (waiting w x) (events_of x (emit i r e w))" for x
  proof (cases "x = r")
    case True
    then show ?thesis using waiting_events [OF assms(1,2)] assms(3) by (simp add: events_of_emit events_ok_snoc)
  next
    case False
    then show ?thesis using assms(1) by (simp add: call_inv_def events_of_emit)
  qed
  then show "call_inv (emit i r e w)" using assms(1) by (simp add: call_inv_def pend_inv_def)
  show "keeps w (emit i r e w)" by (auto simp: keeps_def settled_def events_of_emit)
qed

lemma waiting_settle:
  assumes "call_inv w" "i < length (rt_sockets w)" "r \<in> set (so_pending (sock w i))"
  shows "waiting (settle_pending i r w) x \<longleftrightarrow> waiting w x \<and> x \<noteq> r"
proof -
  have "r \<notin> set (so_pending (sock w j))" if "j < length (rt_sockets w)" "j \<noteq> i" for j
    by (rule pend_inv_disjoint [OF assms(1,2) that assms(3)])
  then show ?thesis using assms(2) by (auto simp: waiting_def)
qed

lemma settle_keeps_inv:
  assumes "call_inv w" "i < length (rt_sockets w)"
  shows "call_inv (settle_pending i r w)"
proof -
  have less: "waiting (settle_pending i r w) x \<Longrightarrow> waiting w x" for x
    using assms(2) by (auto simp: waiting_def split: if_splits)
  have same: "events_of x (settle_pending i r w) = events_of x w" for x by (simp add: events_of_def)
  have "events_ok (waiting (settle_pending i r w) x) (events_of x (settle_pending i r w))" for x
    unfolding same by (rule events_ok_less [of "waiting w x", OF _ less]) (use assms(1) in \<open>auto simp: call_inv_def\<close>)
  moreover have "pend_inv (settle_pending i r w)"
    by (rule pend_inv_less [of w]) (use assms pend_inv_distinct in \<open>auto simp: call_inv_def\<close>)
  ultimately show ?thesis by (simp add: call_inv_def)
qed

lemma emit_terminal_ok:
  assumes "call_inv w" "i < length (rt_sockets w)" "r \<in> set (so_pending (sock w i))" "terminal e"
  shows "call_inv (settle_pending i r (emit i r e w))" "keeps w (settle_pending i r (emit i r e w))"
proof -
  let ?w = "settle_pending i r (emit i r e w)" and ?s = "settle_pending i r w"
  have ev: "events_of x ?w = events_of x w @ (if r = x then [e] else [])" for x by (simp add: events_of_def)
  have "sock ?w j = sock ?s j" for j by simp
  then have same: "waiting ?w = waiting ?s" by (intro ext) (simp add: waiting_def)
  have wait: "waiting ?w x \<longleftrightarrow> waiting w x \<and> x \<noteq> r" for x unfolding same by (rule waiting_settle [OF assms(1-3)])
  have here: "waiting w r" using assms(2,3) by (auto simp: waiting_def)
  have "events_ok (waiting ?w x) (events_of x ?w)" for x
  proof (cases "x = r")
    case True
    then show ?thesis using waiting_events [OF assms(1) here] by (simp add: ev wait events_ok_snoc)
  next
    case False
    then show ?thesis using assms(1) by (simp add: call_inv_def ev wait)
  qed
  moreover have "pend_inv ?w"
    by (rule pend_inv_less [of w]) (use assms(1,2) pend_inv_distinct [OF assms(1)] in \<open>auto simp: call_inv_def\<close>)
  ultimately show "call_inv ?w" by (simp add: call_inv_def)
  show "keeps w ?w" using assms(4) by (auto simp: keeps_def settled_def ev wait)
qed

lemma events_of_fail:
  "distinct xs \<Longrightarrow> map (\<lambda>(i, x, e). e) (filter (\<lambda>(i, x, e). x = r) (map (\<lambda>r. (i, r, c)) xs)) = (if r \<in> set xs then [c] else [])"
  by (induction xs) auto

lemma fail_ok:
  assumes "call_inv w" "i < length (rt_sockets w)"
  shows "call_inv (failPendingSocketCalls i w)" "keeps w (failPendingSocketCalls i w)"
proof -
  let ?w = "failPendingSocketCalls i w" and ?c = "SinkFailed ''COSSACK_RPC_TRANSPORT_CLOSED''"
  have dist: "distinct (so_pending (sock w i))" by (rule pend_inv_distinct [OF assms])
  have log: "rt_log ?w = rt_log w @ map (\<lambda>r. (i, r, ?c)) (so_pending (sock w i))" by (simp add: failPendingSocketCalls_def)
  have ev: "events_of x ?w = events_of x w @ (if x \<in> set (so_pending (sock w i)) then [?c] else [])" for x
    unfolding events_of_def log filter_append map_append events_of_fail [OF dist] by (rule refl)
  have disj: "x \<notin> set (so_pending (sock w j))" if "j < length (rt_sockets w)" "j \<noteq> i" "x \<in> set (so_pending (sock w i))" for x j
    by (rule pend_inv_disjoint [OF assms that])
  have wait: "waiting ?w x \<longleftrightarrow> waiting w x \<and> x \<notin> set (so_pending (sock w i))" for x
    using assms(2) disj by (auto simp: waiting_def split: if_splits) metis
  have here: "waiting w x" if "x \<in> set (so_pending (sock w i))" for x using that assms(2) by (auto simp: waiting_def)
  have "events_ok (waiting ?w x) (events_of x ?w)" for x
  proof (cases "x \<in> set (so_pending (sock w i))")
    case True
    then show ?thesis using waiting_events [OF assms(1) here] by (simp add: ev wait events_ok_snoc)
  next
    case False
    then show ?thesis using assms(1) by (simp add: call_inv_def ev wait)
  qed
  moreover have "pend_inv ?w"
    by (rule pend_inv_less [of w]) (use assms pend_inv_distinct [OF assms(1)] in \<open>auto simp: call_inv_def\<close>)
  ultimately show "call_inv ?w" by (simp add: call_inv_def)
  show "keeps w ?w" by (auto simp: keeps_def settled_def ev wait terminal_def)
qed



section \<open>Every handler\<close>

definition cstep :: "'c rtw \<Rightarrow> 'c rtw \<Rightarrow> bool" where
  "cstep w w' \<longleftrightarrow> (call_inv w \<longrightarrow> call_inv w' \<and> keeps w w')"

lemma cstep_refl [simp]: "cstep w w"
  by (simp add: cstep_def)

lemma cstep_trans: "cstep w w' \<Longrightarrow> cstep w' w'' \<Longrightarrow> cstep w w''"
  unfolding cstep_def using keeps_trans by blast

lemma cstep_same: "pends w' = pends w \<Longrightarrow> rt_log w' = rt_log w \<Longrightarrow> cstep w w'"
  using same_pends [of w' w] by (simp add: cstep_def)

lemma cstep_fail: "i < length (rt_sockets w) \<Longrightarrow> cstep w (failPendingSocketCalls i w)"
  by (auto simp: cstep_def fail_ok)

lemma cstep_frame: "cstep w' w'' \<Longrightarrow> pends w' = pends w \<Longrightarrow> rt_log w' = rt_log w \<Longrightarrow> cstep w w''"
  using cstep_trans cstep_same by blast

lemma cstep_then: "cstep w w' \<Longrightarrow> pends w'' = pends w' \<Longrightarrow> rt_log w'' = rt_log w' \<Longrightarrow> cstep w w''"
  using cstep_trans cstep_same by blast

text \<open>Failing the calls of a socket with changes of flags before and after.\<close>

lemma cstep_fail_between:
  fixes w w1 w2 :: "'c rtw"
  assumes "i < length (rt_sockets w)" "pends w1 = pends w" "rt_log w1 = rt_log w"
    "pends w2 = pends (failPendingSocketCalls i w1)" "rt_log w2 = rt_log (failPendingSocketCalls i w1)"
  shows "cstep w w2"
proof -
  have "length (rt_sockets w1) = length (rt_sockets w)" using assms(2) pends_length by metis
  then have "cstep w1 (failPendingSocketCalls i w1)" by (intro cstep_fail) (simp add: assms(1))
  then have "cstep w (failPendingSocketCalls i w1)" using assms(2,3) by (rule cstep_frame)
  then show ?thesis using assms(4,5) by (rule cstep_then)
qed

lemma disconnect_cstep:
  assumes "base_inv w"
  shows "cstep w (disconnectWebSocket w)"
proof (cases "rt_current w")
  case None
  then show ?thesis by (simp add: disconnectWebSocket_def)
next
  case (Some i)
  have i: "so_disposer (sock w i)" "i < length (rt_sockets w)"
    using assms Some by (auto simp: base_inv_def current_inv_def)
  let ?w0 = "set_status (\<lambda>s. s\<lparr>rs_state := CsClosed\<rparr>) (w\<lparr>rt_current := None\<rparr>)"
  let ?w1 = "upd i (\<lambda>s. s\<lparr>so_closed := True, so_intentional := True, so_pinging := False, so_timer := None, so_disposer := False,
        so_attached := False\<rparr>) ?w0"
  have "cstep w (upd i net_close (failPendingSocketCalls i ?w1))"
    by (rule cstep_fail_between [of i _ ?w1]) (use i in \<open>simp_all add: pends_upd_any\<close>)
  then show ?thesis using Some i by (simp add: disconnectWebSocket_def dispose_socket_def Let_def)
qed

lemma connect_cstep: "cstep w (connect ap p n w)"
proof -
  let ?w = "connect ap p n w"
  have pend: "so_pending (sock ?w j) = (if j < length (rt_sockets w) then so_pending (sock w j) else [])" if "j < length (rt_sockets ?w)" for j
    using that by (auto simp: new_socket_def nth_append less_Suc_eq)
  have len: "length (rt_sockets ?w) = Suc (length (rt_sockets w))" by simp
  have wait: "waiting ?w = waiting w"
  proof (rule ext)
    fix r
    have "(\<exists>i < length (rt_sockets ?w). r \<in> set (so_pending (sock ?w i))) \<longleftrightarrow> (\<exists>i < length (rt_sockets w). r \<in> set (so_pending (sock w i)))"
      using pend unfolding len by (metis empty_iff less_Suc_eq list.set(1))
    then show "waiting ?w r = waiting w r" by (simp only: waiting_def)
  qed
  have ev: "events_of x ?w = events_of x w" for x by (simp add: events_of_def)
  have "pend_inv ?w" if inv: "pend_inv w"
  proof -
    have "distinct (so_pending (sock ?w j))" if "j < length (rt_sockets ?w)" for j
      using pend [OF that] inv by (simp add: pend_inv_def del: connect_simps(8))
    moreover have "set (so_pending (sock ?w j)) \<inter> set (so_pending (sock ?w k)) = {}"
      if "j < length (rt_sockets ?w)" "k < length (rt_sockets ?w)" "j \<noteq> k" for j k
      using pend [OF that(1)] pend [OF that(2)] that(3) inv
      by (cases "j < length (rt_sockets w)"; cases "k < length (rt_sockets w)") (simp_all add: pend_inv_def del: connect_simps(8))
    ultimately show ?thesis unfolding pend_inv_def by blast
  qed
  then show ?thesis by (auto simp: cstep_def call_inv_def wait ev keeps_def settled_def)
qed

lemma connectWebSocket_cstep:
  assumes "rt_inv w"
  shows "cstep w (connectWebSocket ap w)"
proof -
  have d: "cstep w (disconnectWebSocket w)" by (rule disconnect_cstep) (use assms in \<open>simp add: rt_inv_def\<close>)
  moreover have "cstep w (connect ap p 0 (disconnectWebSocket w))" for p by (rule cstep_trans [OF d connect_cstep])
  moreover have "cstep w (set_status f (disconnectWebSocket w))" for f by (rule cstep_then [OF d]) simp_all
  ultimately show ?thesis by (auto simp: connectWebSocket_def Let_def split: planned.split)
qed

lemma destroy_cstep:
  assumes "rt_inv w"
  shows "cstep w (destroy_component w)"
proof -
  have "base_inv (w\<lparr>rt_destroyed := True\<rparr>)"
    using assms base_inv_frame [of "w\<lparr>rt_destroyed := True\<rparr>" w] by (simp add: rt_inv_def)
  then show ?thesis unfolding destroy_component_def by (rule cstep_frame [OF disconnect_cstep]) simp_all
qed

lemma timer_cstep: "cstep w (on_timer ap i w)"
proof (cases "so_timer (sock w i)")
  case None
  then show ?thesis by (simp add: on_timer_def)
next
  case (Some dn)
  obtain d n where dn: "dn = (d, n)" by (cases dn)
  let ?u = "upd i (\<lambda>s. s\<lparr>so_timer := None\<rparr>) w"
  have u: "cstep w ?u" by (rule cstep_same) (simp_all add: pends_upd_any)
  moreover have "cstep w (connect ap p n ?u)" for p by (rule cstep_trans [OF u connect_cstep])
  ultimately show ?thesis using Some dn by (simp add: on_timer_def Let_def)
qed

lemma close_cstep:
  assumes "i < length (rt_sockets w)"
  shows "cstep w (on_close i w)"
proof (cases "so_closed (sock w i)")
  case True
  then show ?thesis by (simp add: on_close_def)
next
  case False
  let ?w1 = "upd i (\<lambda>s. s\<lparr>so_closed := True, so_pinging := False\<rparr>) w"
  have "cstep w w2" if "pends w2 = pends (failPendingSocketCalls i ?w1)" "rt_log w2 = rt_log (failPendingSocketCalls i ?w1)" for w2
    by (rule cstep_fail_between [OF assms _ _ that]) (simp_all add: pends_upd_any)
  then show ?thesis using False by (simp add: on_close_def Let_def pends_upd_any)
qed

lemma revoke_cstep:
  assumes "i < length (rt_sockets w)"
  shows "cstep w (revoke i w)"
proof -
  let ?w1 = "upd i (\<lambda>s. s\<lparr>so_closed := True, so_pinging := False, so_timer := None, so_intentional := True\<rparr>) w"
  let ?w2 = "upd i (\<lambda>s. s\<lparr>so_disposer := False, so_attached := False\<rparr>) (if rt_current ?w1 = Some i then ?w1\<lparr>rt_current := None\<rparr> else ?w1)"
  have "pends ?w2 = pends w" "rt_log ?w2 = rt_log w" by (simp_all add: pends_upd_any)
  then show ?thesis unfolding revoke_def Let_def
    by (intro cstep_fail_between [OF assms, of ?w2]) (simp_all only: pends_upd_any pends_frame set_status_simps upd_simps net_close_simps)
qed

lemma route_cstep:
  assumes "i < length (rt_sockets w)"
  shows "cstep w (snd (routeSocketFrame i data n w))"
proof -
  have wait: "r \<in> set (so_pending (sock w i)) \<Longrightarrow> waiting w r" for r using assms by (auto simp: waiting_def)
  have "cstep w (settle_pending i r (emit i r e w))" if "r \<in> set (so_pending (sock w i))" "terminal e" for r e
    using emit_terminal_ok [OF _ assms that] by (simp add: cstep_def)
  moreover have "cstep w (emit i r e w)" if "r \<in> set (so_pending (sock w i))" "\<not> terminal e" for r e
    using emit_yield_ok [OF _ wait [OF that(1)] that(2)] by (simp add: cstep_def)
  ultimately show ?thesis
    by (auto simp: routeSocketFrame_def Let_def terminal_def split: jsv.splits sum.splits)
qed

lemma call_method_cstep:
  assumes "rt_inv w"
  shows "cstep w (call_method ap m args w)"
proof -
  obtain c a where m: "ap_method ap m args (rt_app w) = (c, a)" by fastforce
  have "rt_inv (w\<lparr>rt_app := c\<rparr>)" using assms rt_inv_frame [of "w\<lparr>rt_app := c\<rparr>" w] by simp
  then have "cstep (w\<lparr>rt_app := c\<rparr>) (act a (w\<lparr>rt_app := c\<rparr>))"
    by (auto simp: act_def rt_inv_def destroy_cstep disconnect_cstep split: user_act.split)
  then have "cstep w (act a (w\<lparr>rt_app := c\<rparr>))" by (rule cstep_frame) simp_all
  then show ?thesis by (simp add: call_method_def m)
qed

lemma handlers_cstep: "rt_inv w \<Longrightarrow> cstep w (run_handlers ap i payload hs w)"
proof (induction ap i payload hs w rule: run_handlers.induct)
  case (2 ap i payload h hs w)
  have "cstep w (run_handlers ap i payload hs (call_method ap h args w))" if "isCurrent i w" "ap_has ap h" "spread payload = Some args" for args
    by (rule cstep_trans [OF call_method_cstep [OF 2(3)]]) (use 2(1) that call_inv [OF 2(3)] in simp)
  then show ?case using 2 by (auto split: option.splits)
qed simp

lemma broadcast_cstep:
  assumes "rt_inv w"
  shows "cstep w (broadcast ap i data w)"
proof -
  have "cstep w (w\<lparr>rt_app := c\<rparr>)" for c by (rule cstep_same) simp_all
  moreover have "cstep w (finish_loading a w)" for a
    by (rule cstep_same) (simp_all add: pends_def finish_loading_frame)
  moreover have "cstep w (call_method ap m args w)" "cstep w (run_handlers ap i payload hs w)" for m args payload hs
    using call_method_cstep handlers_cstep assms by auto
  ultimately show ?thesis by (auto simp: broadcast_def split: option.splits)
qed

lemma message_cstep:
  assumes "rt_inv w" "i < length (rt_sockets w)"
  shows "cstep w (on_message ap i d w)"
proof -
  have "cstep w (on_message ap i (Parsed data n) w)" if cur: "isCurrent i w" for data n
  proof -
    obtain c w' where r: "routeSocketFrame i data n w = (c, w')" by fastforce
    then have "rt_inv w'" "cstep w w'" using route_inv [OF assms, of data n] route_cstep [OF assms(2), of data n] by simp_all
    then have "cstep w w'" "cstep w (broadcast ap i data w')" using cstep_trans broadcast_cstep by blast+
    then show ?thesis using cur revoke_cstep [OF assms(2)] by (auto simp: on_message_def r)
  qed
  then show ?thesis by (cases d) (auto simp: on_message_def)
qed


lemma start_call_inv_calls:
  assumes "call_inv w" "rt_inv w" "possible (AppCall r) w"
  shows "call_inv (start_call r w)" "keeps w (start_call r w)"
proof -
  have fresh: "events_of r w = []" "\<And>j. j < length (rt_sockets w) \<Longrightarrow> r \<notin> set (so_pending (sock w j))"
    using assms(3) by (auto simp: events_of_def sock_def filter_empty_conv image_iff)
  show "call_inv (start_call r w)" "keeps w (start_call r w)"
  proof (atomize (full), cases "rt_current w")
    case None
    then show "call_inv (start_call r w) \<and> keeps w (start_call r w)" using assms(1) by (simp add: start_call_def)
  next
    case (Some i)
    have i: "i < length (rt_sockets w)" using assms(2) Some by (auto simp: rt_inv_def base_inv_def current_inv_def)
    let ?w = "upd i (\<lambda>s. s\<lparr>so_pending := so_pending s @ [r]\<rparr>) w"
    have ev: "events_of x ?w = events_of x w" for x by (simp add: events_of_def)
    have wait: "waiting ?w x \<longleftrightarrow> waiting w x \<or> x = r" for x using i by (auto simp: waiting_def)
    have "events_ok (waiting ?w x) (events_of x ?w)" for x
      using assms(1) fresh(1) by (cases "x = r") (simp_all add: ev wait call_inv_def, simp add: events_ok_def)
    moreover have "pend_inv ?w"
      using assms(1) fresh(2) i by (auto simp: call_inv_def pend_inv_def)
    ultimately have "call_inv ?w" by (simp add: call_inv_def)
    moreover have "keeps w ?w" by (auto simp: keeps_def settled_def ev wait)
    ultimately show "call_inv (start_call r w) \<and> keeps w (start_call r w)" using assms(1) Some by (simp add: start_call_def)
  qed
qed

lemma opened_cstep: "cstep w (handle ap (NetOpened i) w)"
proof -
  have "cstep w (set_ready i NetOpen w)" by (rule cstep_same) (simp_all add: set_ready_def pends_upd_any)
  moreover have "cstep w (on_open ap i (set_ready i NetOpen w))"
    by (rule cstep_same) (simp_all add: on_open_def set_ready_def pends_upd_any)
  ultimately show ?thesis by (simp add: attached_event_def)
qed

lemma closed_cstep:
  assumes "i < length (rt_sockets w)"
  shows "cstep w (handle ap (NetClosedEv i) w)"
proof -
  have s: "cstep w (set_ready i NetClosed w)" by (rule cstep_same) (simp_all add: set_ready_def pends_upd_any)
  moreover have "cstep w (on_close i (set_ready i NetClosed w))" by (rule cstep_trans [OF s close_cstep]) (simp add: assms)
  ultimately show ?thesis by (simp add: attached_event_def)
qed

text \<open>Everything but a cancellation keeps the waiting calls' due.\<close>

lemma handle_cstep:
  assumes "rt_inv w" "possible ev w" "call_inv w"
  shows "call_inv (handle ap ev w) \<and> ((\<forall>i r. ev \<noteq> AppCancel i r) \<longrightarrow> keeps w (handle ap ev w))"
proof -
  have "call_inv (handle ap ev w) \<and> keeps w (handle ap ev w)" if "cstep w (handle ap ev w)" using that assms(3) by (simp add: cstep_def)
  moreover have "cstep w (handle ap ev w)" if "\<forall>i r. ev \<noteq> AppCancel i r" "\<forall>r. ev \<noteq> AppCall r"
  proof (cases ev)
    case (NetOpened i) show ?thesis unfolding NetOpened by (rule opened_cstep)
  next
    case (NetMessage i d) then show ?thesis using assms message_cstep [OF assms(1)] by (auto simp: attached_event_def)
  next
    case (NetClosedEv i) show ?thesis unfolding NetClosedEv by (rule closed_cstep) (use assms(2) NetClosedEv in simp)
  next
    case (NetErrored i)
    have "cstep w (on_error i w)" by (rule cstep_same) (simp_all add: on_error_def pends_upd_any)
    then show ?thesis using NetErrored by (simp add: attached_event_def)
  next
    case (TimerFires i) then show ?thesis by (simp add: timer_cstep)
  next
    case AppConnect then show ?thesis by (simp add: connectWebSocket_cstep assms(1))
  next
    case AppDisconnect then show ?thesis using disconnect_cstep [of w] assms(1) by (simp add: rt_inv_def)
  next
    case AppDestroy then show ?thesis by (simp add: destroy_cstep assms(1))
  next
    case (AppNavigate page)
    have "cstep w (w\<lparr>rt_page := page\<rparr>)" by (rule cstep_same) simp_all
    then show ?thesis using AppNavigate by simp
  qed (use that in auto)
  moreover have "call_inv (handle ap ev w) \<and> keeps w (handle ap ev w)" if "ev = AppCall r" for r
    using start_call_inv_calls [OF assms(3,1), of r] assms(2) that by simp
  moreover have "call_inv (handle ap ev w)" if "ev = AppCancel i r" for i r
    using settle_keeps_inv [OF assms(3), of i r] assms(2) that by simp
  ultimately show ?thesis by blast
qed

lemma reachable_calls: "reachable ap w \<Longrightarrow> call_inv w"
proof (induction rule: reachable.induct)
  case (start page c)
  show ?case by (simp add: call_inv_def pend_inv_def start_world_def waiting_def events_of_def events_ok_def)
next
  case (step w ev)
  then show ?case using handle_cstep [OF reachable_inv] by blast
qed

text \<open>C22. A call over a realtime connection is settled exactly once. In every reachable state, what a
  call's sink has been given is a run of yields with at most one ending - the result, the server's
  error, or the report that the connection is gone - and nothing follows it; a call that still waits
  has had no ending and waits on the live connection; and no event makes a call stop waiting without
  giving it its ending, except its own cancellation.\<close>

theorem calls_settle_once:
  assumes "reachable ap w" "possible ev w" "\<forall>i. ev \<noteq> AppCancel i r"
  shows "(\<forall>e \<in> set (butlast (events_of r w)). \<not> terminal e)
    \<and> (waiting w r \<longrightarrow> \<not> settled w r \<and> (\<exists>i. live w i \<and> r \<in> set (so_pending (sock w i))))
    \<and> (waiting w r \<longrightarrow> waiting (handle ap ev w) r \<or> settled (handle ap ev w) r)"
proof -
  have inv: "rt_inv w" "call_inv w" using assms(1) by (simp_all add: reachable_inv reachable_calls)
  have ok: "events_ok (waiting w r) (events_of r w)" using inv(2) by (simp add: call_inv_def)
  have "waiting (handle ap ev w) r \<or> settled (handle ap ev w) r" if w: "waiting w r"
  proof (cases "\<exists>i x. ev = AppCancel i x")
    case True
    then obtain i x where ev: "ev = AppCancel i x" "x \<noteq> r" "i < length (rt_sockets w)" using assms(2,3) by auto
    then show ?thesis using w by (auto simp: waiting_def)
  next
    case False
    then show ?thesis using handle_cstep [OF inv(1) assms(2) inv(2), of ap] w by (auto simp: keeps_def)
  qed
  moreover have "\<exists>i. live w i \<and> r \<in> set (so_pending (sock w i))" if wr: "waiting w r"
  proof -
    obtain i where i: "i < length (rt_sockets w)" "r \<in> set (so_pending (sock w i))" using wr by (auto simp: waiting_def)
    have "socket_inv w i" using inv(1) i(1) by (simp add: rt_inv_def base_inv_def)
    then show ?thesis using i by (auto simp: live_def socket_inv_def Let_def)
  qed
  ultimately show ?thesis using ok by (auto simp: events_ok_def settled_def list_ex_iff)
qed

definition small_calling :: "nat rtw" where
  "small_calling = handle small_app (AppCall ''r1'') small_open"

lemma calls_settle_once_witness: "settled (handle small_app (NetClosedEv 0) small_calling) ''r1''"
proof -
  have "reachable small_app small_calling" unfolding small_calling_def
    by (rule reachable.step [OF small_reachable]) (simp add: small_open_value)
  moreover have "possible (NetClosedEv 0) small_calling" "waiting small_calling ''r1''"
    by (simp_all add: small_calling_def small_open_value start_call_def sock_def upd_def waiting_def)
  moreover have "\<not> waiting (handle small_app (NetClosedEv 0) small_calling) ''r1''"
    by (simp add: small_calling_def small_open_value start_call_def sock_def upd_def waiting_def attached_event_def on_close_def
        set_ready_def failPendingSocketCalls_def set_status_def)
  ultimately show ?thesis using calls_settle_once [of small_app small_calling "NetClosedEv 0" "''r1''"] by blast
qed

end
