(* ===== verification/Sse_Hub.thy ===== *)
theory Sse_Hub
  imports Prelude "HOL-Library.Sublist"
begin

text \<open>
  The coordinator of one SSE scope (\<open>framework/src/SseDurableObject.ts\<close>): the authoritative
  snapshot with its cursor, the bounded event log, the one-use flash claims, held long polls, and
  the queue that lets one action at a time own the scope.

  The object is single-threaded; a method that does not await is one step. The tables are lists: the
  log in cursor order with the counter of its autoincrement key, the claims by nonce. \<open>is_object\<close>
  (a text parses as a JSON object) and \<open>correlate\<close> (the text of a state with a request id added)
  are parameters of the JSON library. A published text is kept in the form it was built from.
\<close>

section \<open>State\<close>

datatype payload = Plain string | Correlated string string

record sse_event =
  se_cursor :: nat
  se_event :: string
  se_data :: payload

(* models packages/framework/src/SseDurableObject.ts:25-33 PendingAction *)
record pending_action =
  pa_id :: string
  pa_cancelled :: bool

text \<open>
  Where the owner of the scope is: \<open>Entered\<close> when its promise is resolved but its code has not
  resumed, \<open>Acting\<close> while the callback runs, \<open>Responding\<close> while its body is read, and \<open>Abandoned\<close>
  when its code has returned without giving the scope up.
\<close>

datatype phase = Entered | Acting | Responding | Abandoned

record hub =
  hb_snapshot :: "(string \<times> nat) option"
  hb_events :: "sse_event list"
  hb_counter :: nat
  hb_claims :: "(string \<times> int) list"
  hb_alarm :: "int option"
  hb_waiters :: "string list"
  hb_queue :: "pending_action list"
  hb_active :: "(pending_action \<times> phase) option"

definition empty_hub :: hub where
  "empty_hub = \<lparr>hb_snapshot = None, hb_events = [], hb_counter = 0, hb_claims = [], hb_alarm = None, hb_waiters = [], hb_queue = [],
     hb_active = None\<rparr>"

datatype hub_error = NotInitialized | StateTooLarge | StateInvalid | RequestIdInvalid | CorrelatedTooLarge
  | EventNameInvalid | PayloadInvalid | CursorInvalid | WaitInvalid | WaiterIdInvalid

record json_lib =
  js_is_object :: "string \<Rightarrow> bool"
  js_correlate :: "string \<Rightarrow> string \<Rightarrow> string"

definition MAX_PENDING :: nat where
  "MAX_PENDING = 32"

definition MAX_EVENTS :: nat where
  "MAX_EVENTS = 128"

definition MAX_LOG_BYTES :: nat where
  "MAX_LOG_BYTES = 1024 * 1024"

definition MAX_EVENT_NAME :: nat where
  "MAX_EVENT_NAME = 64"

definition MAX_WAITERS :: nat where
  "MAX_WAITERS = 2048"

definition payload_text :: "json_lib \<Rightarrow> payload \<Rightarrow> string" where
  "payload_text js p = (case p of Plain s \<Rightarrow> s | Correlated s r \<Rightarrow> js_correlate js s r)"

text \<open>The state that a published text carries.\<close>

definition payload_state :: "payload \<Rightarrow> string" where
  "payload_state p = (case p of Plain s \<Rightarrow> s | Correlated s r \<Rightarrow> s)"

definition payload_bytes :: "json_lib \<Rightarrow> payload \<Rightarrow> nat" where
  "payload_bytes js p = utf8_length (payload_text js p)"


section \<open>Snapshot and log\<close>

(* models packages/framework/src/SseDurableObject.ts:325-329 #snapshot *)
definition hub_snapshot :: "hub \<Rightarrow> hub_error + string \<times> nat" where
  "hub_snapshot h = (case hb_snapshot h of None \<Rightarrow> Inl NotInitialized | Some s \<Rightarrow> Inr s)"

(* models packages/framework/src/SseDurableObject.ts:331-335 #validateState *)
definition validateState :: "json_lib \<Rightarrow> string \<Rightarrow> hub_error + unit" where
  "validateState js state = bindr (guardr (utf8_length state \<le> MAX_LOG_BYTES) StateTooLarge)
     (\<lambda>_. guardr (js_is_object js state) StateInvalid)"

(* models packages/framework/src/SseDurableObject.ts:87-92 initialize *)
definition initialize :: "json_lib \<Rightarrow> string \<Rightarrow> hub \<Rightarrow> (hub_error + (string \<times> nat) \<times> bool) \<times> hub" where
  "initialize js state h = (case validateState js state of
     Inl e \<Rightarrow> (Inl e, h)
   | Inr _ \<Rightarrow> (case hb_snapshot h of
        Some s \<Rightarrow> (Inr (s, False), h)
      | None \<Rightarrow> (Inr ((state, 0), True), h\<lparr>hb_snapshot := Some (state, 0)\<rparr>)))"

(* models packages/framework/src/SseDurableObject.ts:95-98 currentState *)
definition currentState :: "hub \<Rightarrow> (string \<times> nat) option" where
  "currentState h = hb_snapshot h"

text \<open>
  \<open>SUM(bytes) OVER (ORDER BY cursor DESC)\<close>, then the rows whose total fits, the newest first, at
  most \<open>MAX_EVENTS\<close> of them; the others are deleted.
\<close>

fun with_totals :: "json_lib \<Rightarrow> nat \<Rightarrow> sse_event list \<Rightarrow> (sse_event \<times> nat) list" where
  "with_totals js n [] = []"
| "with_totals js n (e # es) = (let t = n + payload_bytes js (se_data e) in (e, t) # with_totals js t es)"

definition trim_log :: "json_lib \<Rightarrow> sse_event list \<Rightarrow> sse_event list" where
  "trim_log js evs = rev (map fst (take MAX_EVENTS (filter (\<lambda>(e, t). t \<le> MAX_LOG_BYTES) (with_totals js 0 (rev evs)))))"

text \<open>Waking a held poll removes it; its caller reads again when it resumes.\<close>

(* models packages/framework/src/SseDurableObject.ts:338-359 #appendEvent *)
definition appendEvent :: "json_lib \<Rightarrow> string \<Rightarrow> payload \<Rightarrow> string \<Rightarrow> hub \<Rightarrow> (hub_error + string \<times> nat) \<times> hub" where
  "appendEvent js event data state h =
     (let cursor = hb_counter h + 1;
          row = \<lparr>se_cursor = cursor, se_event = event, se_data = data\<rparr>;
          snap = (case hb_snapshot h of None \<Rightarrow> None
            | Some (s, c) \<Rightarrow> Some (if event = ''state-update'' then state else s, cursor));
          h' = h\<lparr>hb_counter := cursor, hb_snapshot := snap, hb_events := trim_log js (hb_events h @ [row]), hb_waiters := []\<rparr>
      in (hub_snapshot h', h'))"

definition request_id_ok :: "string \<Rightarrow> bool" where
  "request_id_ok r \<longleftrightarrow> trim r \<noteq> [] \<and> length r \<le> 128"

(* models packages/framework/src/SseDurableObject.ts:157-165 publish *)
definition publish :: "json_lib \<Rightarrow> string \<Rightarrow> string option \<Rightarrow> hub \<Rightarrow> (hub_error + string \<times> nat) \<times> hub" where
  "publish js state requestId h = (case validateState js state of
     Inl e \<Rightarrow> (Inl e, h)
   | Inr _ \<Rightarrow>
      (case requestId of
         None \<Rightarrow> appendEvent js ''state-update'' (Plain state) state h
       | Some r \<Rightarrow>
          if \<not> request_id_ok r then (Inl RequestIdInvalid, h)
          else if utf8_length (js_correlate js state r) > MAX_LOG_BYTES then (Inl CorrelatedTooLarge, h)
          else appendEvent js ''state-update'' (Correlated state r) state h))"

text \<open>\<open>/^[a-zA-Z0-9:_-]+$/\<close>\<close>

definition event_name_ok :: "string \<Rightarrow> bool" where
  "event_name_ok s \<longleftrightarrow> s \<noteq> [] \<and> length s \<le> MAX_EVENT_NAME \<and> list_all (\<lambda>c. is_word c \<or> c = CHR '':'' \<or> c = CHR ''-'') s"

(* models packages/framework/src/SseDurableObject.ts:171-177 broadcast *)
definition hub_broadcast :: "json_lib \<Rightarrow> string \<Rightarrow> string \<Rightarrow> hub \<Rightarrow> (hub_error + string \<times> nat) \<times> hub" where
  "hub_broadcast js event data h =
     (if \<not> event_name_ok event then (Inl EventNameInvalid, h)
      else if utf8_length data > MAX_LOG_BYTES \<or> \<not> js_is_object js data then (Inl PayloadInvalid, h)
      else appendEvent js event (Plain data) data h)"


section \<open>Reading\<close>

record hub_updates =
  up_snapshot :: "string \<times> nat"
  up_resync :: bool
  up_events :: "sse_event list"
  up_retryAfter :: "nat option"

(* models packages/framework/src/SseDurableObject.ts:143-150 #readUpdates *)
definition readUpdates :: "nat \<Rightarrow> hub \<Rightarrow> hub_error + hub_updates" where
  "readUpdates after h = bindr (hub_snapshot h) (\<lambda>snap.
     let oldest = (case hb_events h of [] \<Rightarrow> None | e # _ \<Rightarrow> Some (se_cursor e));
         resync = after > snd snap \<or> (case oldest of None \<Rightarrow> False | Some k \<Rightarrow> int after < int k - 1)
     in Inr \<lparr>up_snapshot = snap, up_resync = resync,
         up_events = (if resync then [] else filter (\<lambda>e. se_cursor e > after) (hb_events h)), up_retryAfter = None\<rparr>)"

text \<open>A poll answers at once or is held under its id; a second poll with the same id releases the first.\<close>

datatype poll_result = Answer "hub_error + hub_updates" | Held string

definition waiter_id_ok :: "string option \<Rightarrow> bool" where
  "waiter_id_ok w \<longleftrightarrow> (case w of None \<Rightarrow> True | Some s \<Rightarrow> trim s \<noteq> [] \<and> length s \<le> 128)"

text \<open>\<open>after\<close> and \<open>waitMs\<close> as numbers that passed the type checks; \<open>fresh\<close> is \<open>crypto.randomUUID()\<close>.\<close>

(* models packages/framework/src/SseDurableObject.ts:107-130 updates *)
definition updates :: "jnum \<Rightarrow> int \<Rightarrow> string option \<Rightarrow> string \<Rightarrow> hub \<Rightarrow> poll_result \<times> hub" where
  "updates after waitMs waiterId fresh h =
     (if \<not> is_safe_integer after \<or> (case after of NInt i \<Rightarrow> i < 0 | NonInt \<Rightarrow> True) then (Answer (Inl CursorInvalid), h)
      else if waitMs < 0 then (Answer (Inl WaitInvalid), h)
      else if \<not> waiter_id_ok waiterId then (Answer (Inl WaiterIdInvalid), h)
      else (case readUpdates (case after of NInt i \<Rightarrow> nat i | NonInt \<Rightarrow> 0) h of
          Inl e \<Rightarrow> (Answer (Inl e), h)
        | Inr first \<Rightarrow>
           if waitMs = 0 \<or> up_resync first \<or> up_events first \<noteq> [] then (Answer (Inr first), h)
           else if length (hb_waiters h) \<ge> MAX_WAITERS then (Answer (Inr (first\<lparr>up_retryAfter := Some 1000\<rparr>)), h)
           else (let w = (case waiterId of None \<Rightarrow> fresh | Some s \<Rightarrow> s)
             in (Held w, h\<lparr>hb_waiters := removeAll w (hb_waiters h) @ [w]\<rparr>))))"

(* models packages/framework/src/SseDurableObject.ts:133-136 cancelWait *)
definition cancelWait :: "string \<Rightarrow> hub \<Rightarrow> hub" where
  "cancelWait w h = h\<lparr>hb_waiters := removeAll w (hb_waiters h)\<rparr>"

(* models packages/framework/src/SseDurableObject.ts:139-141 waiterCount *)
definition waiterCount :: "hub \<Rightarrow> nat" where
  "waiterCount h = length (hb_waiters h)"


section \<open>Flash claims\<close>

definition is_hex :: "char \<Rightarrow> bool" where
  "is_hex c \<longleftrightarrow> is_digit c \<or> (let l = code (to_lower_char c) in 97 \<le> l \<and> l \<le> 102)"

text \<open>The regular expression of a version 4 UUID, case-insensitive.\<close>

definition is_uuid4 :: "string \<Rightarrow> bool" where
  "is_uuid4 s \<longleftrightarrow> (let parts = split_on CHR ''-'' s in
     map length parts = [8, 4, 4, 4, 12] \<and> list_all (list_all is_hex) parts
     \<and> hd (parts ! 2) = CHR ''4'' \<and> to_lower_char (hd (parts ! 3)) \<in> {CHR ''8'', CHR ''9'', CHR ''a'', CHR ''b''})"

(* models packages/framework/src/SseDurableObject.ts:63-75 claimFlash *)
definition hub_claimFlash :: "string \<Rightarrow> string \<Rightarrow> jnum \<Rightarrow> int \<Rightarrow> hub \<Rightarrow> bool \<times> hub" where
  "hub_claimFlash name nonce expiresAt now h = (case expiresAt of
     NonInt \<Rightarrow> (False, h)
   | NInt t \<Rightarrow>
      if \<not> is_uuid4 nonce \<or> \<not> safe_int t \<or> t \<le> now \<or> name \<noteq> ''cossack.flash.v1:'' @ nonce then (False, h)
      else (let h1 = h\<lparr>hb_alarm := Some t\<rparr> in
        if map_of (hb_claims h1) nonce \<noteq> None then (False, h1)
        else (True, h1\<lparr>hb_claims := hb_claims h1 @ [(nonce, t)]\<rparr>)))"

(* models packages/framework/src/SseDurableObject.ts:78-84 alarm *)
definition hub_alarm :: "int \<Rightarrow> hub \<Rightarrow> hub" where
  "hub_alarm now h = (let left = filter (\<lambda>(n, t). t > now) (hb_claims h) in
     h\<lparr>hb_claims := left, hb_alarm := (if left = [] then None else Some (Min (snd ` set left)))\<rparr>)"


section \<open>The action queue\<close>

text \<open>The map of actions is the owner and the queue together.\<close>

definition pending_ids :: "hub \<Rightarrow> string list" where
  "pending_ids h = (case hb_active h of None \<Rightarrow> [] | Some (a, p) \<Rightarrow> [pa_id a]) @ map pa_id (hb_queue h)"

(* models packages/framework/src/SseDurableObject.ts:180-182 queueStatus *)
definition queueStatus :: "hub \<Rightarrow> nat \<times> nat \<times> bool" where
  "queueStatus h = (length (pending_ids h), length (hb_queue h), hb_active h \<noteq> None)"

datatype refusal = InvalidOperation | DuplicateOperation | Busy

text \<open>\<open>execute\<close> up to its \<open>await ready\<close>.\<close>

(* models packages/framework/src/SseDurableObject.ts:207-220 execute *)
definition hub_execute :: "string \<Rightarrow> hub \<Rightarrow> refusal option \<times> hub" where
  "hub_execute opid h =
     (if trim opid = [] \<or> length opid > 128 then (Some InvalidOperation, h)
      else if opid \<in> set (pending_ids h) then (Some DuplicateOperation, h)
      else if length (pending_ids h) \<ge> MAX_PENDING then (Some Busy, h)
      else (let a = \<lparr>pa_id = opid, pa_cancelled = False\<rparr> in
        (None, if hb_active h \<noteq> None then h\<lparr>hb_queue := hb_queue h @ [a]\<rparr> else h\<lparr>hb_active := Some (a, Entered)\<rparr>)))"

text \<open>The end of the owner: the first of the queue enters.\<close>

(* models packages/framework/src/SseDurableObject.ts:310-323 #finish *)
definition finish_active :: "hub \<Rightarrow> hub" where
  "finish_active h = (case hb_queue h of
     [] \<Rightarrow> h\<lparr>hb_active := None\<rparr>
   | a # q \<Rightarrow> h\<lparr>hb_active := Some (a, Entered), hb_queue := q\<rparr>)"

text \<open>Cancelling the owner ends it only while its body is read; a callback that runs keeps the scope.\<close>

(* models packages/framework/src/SseDurableObject.ts:185-199 cancel *)
definition hub_cancel :: "string \<Rightarrow> hub \<Rightarrow> hub" where
  "hub_cancel opid h = (case hb_active h of
     Some (a, p) \<Rightarrow>
       if pa_id a = opid then
         (if pa_cancelled a then h
          else if p = Responding then finish_active h
          else h\<lparr>hb_active := Some (a\<lparr>pa_cancelled := True\<rparr>, p)\<rparr>)
       else h\<lparr>hb_queue := filter (\<lambda>x. pa_id x \<noteq> opid) (hb_queue h)\<rparr>
   | None \<Rightarrow> h)"

text \<open>
  The rest of \<open>execute\<close>, resumed: the callback starts with the snapshot's state. One that was
  cancelled in between answers without starting and, as in the code, without giving up the scope.
\<close>

datatype resumed = Starts string | AnswersCancelled | Fails hub_error

(* models packages/framework/src/SseDurableObject.ts:222-226 execute *)
definition hub_resume :: "hub \<Rightarrow> resumed option \<times> hub" where
  "hub_resume h = (case hb_active h of
     Some (a, Entered) \<Rightarrow>
       (if pa_cancelled a then (Some AnswersCancelled, h\<lparr>hb_active := Some (a, Abandoned)\<rparr>)
        else (case hub_snapshot h of
            Inl e \<Rightarrow> (Some (Fails e), finish_active h)
          | Inr (s, c) \<Rightarrow> (Some (Starts s), h\<lparr>hb_active := Some (a, Acting)\<rparr>)))
   | _ \<Rightarrow> (None, h))"

text \<open>The callback's answer: it throws, it has no body, or its body is then read.\<close>

datatype action_answer = AnswerThrows | AnswerWithoutBody | AnswerWithBody

(* models packages/framework/src/SseDurableObject.ts:227-234 execute *)
definition hub_answer :: "action_answer \<Rightarrow> hub \<Rightarrow> hub" where
  "hub_answer r h = (case hb_active h of
     Some (a, Acting) \<Rightarrow> (if r = AnswerWithBody \<and> \<not> pa_cancelled a then h\<lparr>hb_active := Some (a, Responding)\<rparr> else finish_active h)
   | _ \<Rightarrow> h)"

text \<open>The body ends, fails or is dropped by its consumer.\<close>

(* models packages/framework/src/SseDurableObject.ts:244-259 execute *)
definition hub_body_ends :: "hub \<Rightarrow> hub" where
  "hub_body_ends h = (case hb_active h of Some (a, Responding) \<Rightarrow> finish_active h | _ \<Rightarrow> h)"

text \<open>
  One frame of an action's stream, pulled by the consumer. \<open>state\<close> is the text of the frame's state
  when that is an object, \<open>scope\<close> that of its scope state, and \<open>fits\<close> says whether the frame as it is
  sent is within the byte limit. The publication stays when the frame turns out too large.
\<close>

datatype frame_kind = YieldFrame | DoneFrame | ErrorFrame

datatype frame_result = FrameSent "nat option" | FrameFails | NoFrame

(* models packages/framework/src/SseDurableObject.ts:275-301 execute *)
definition hub_frame :: "json_lib \<Rightarrow> frame_kind \<Rightarrow> string option \<Rightarrow> string option \<Rightarrow> string option \<Rightarrow> bool \<Rightarrow> hub \<Rightarrow> frame_result \<times> hub" where
  "hub_frame js kind state scope requestId fits h = (case hb_active h of
     Some (a, Responding) \<Rightarrow>
       if kind \<noteq> ErrorFrame \<and> state = None then (FrameFails, finish_active h)
       else (case (if kind = ErrorFrame then (Inr None, h)
             else (case publish js (case scope of Some t \<Rightarrow> t | None \<Rightarrow> the state) requestId h of
                 (Inl e, h') \<Rightarrow> (Inl e, h')
               | (Inr (s, c), h') \<Rightarrow> (Inr (if scope = None then Some c else None), h'))) of
           (Inl e, h') \<Rightarrow> (FrameFails, finish_active h')
         | (Inr c, h') \<Rightarrow>
            if \<not> fits then (FrameFails, finish_active h')
            else (FrameSent c, if kind = YieldFrame then h' else finish_active h'))
   | _ \<Rightarrow> (NoFrame, h))"


section \<open>Calls of the object\<close>

text \<open>Every call, and every continuation of one, as a step; \<open>OpTimeout\<close> is the timer of a held poll.\<close>

datatype hub_op = OpInitialize string | OpPublish string "string option" | OpBroadcast string string
  | OpUpdates jnum int "string option" string | OpCancelWait string | OpTimeout string
  | OpClaim string string jnum int | OpAlarm int
  | OpExecute string | OpCancel string | OpResume | OpAnswer action_answer | OpBodyEnds
  | OpFrame frame_kind "string option" "string option" "string option" bool

fun hub_step :: "json_lib \<Rightarrow> hub_op \<Rightarrow> hub \<Rightarrow> hub" where
  "hub_step js (OpInitialize s) h = snd (initialize js s h)"
| "hub_step js (OpPublish s r) h = snd (publish js s r h)"
| "hub_step js (OpBroadcast e d) h = snd (hub_broadcast js e d h)"
| "hub_step js (OpUpdates a w i f) h = snd (updates a w i f h)"
| "hub_step js (OpCancelWait w) h = cancelWait w h"
| "hub_step js (OpTimeout w) h = cancelWait w h"
| "hub_step js (OpClaim n k t now) h = snd (hub_claimFlash n k t now h)"
| "hub_step js (OpAlarm now) h = hub_alarm now h"
| "hub_step js (OpExecute i) h = snd (hub_execute i h)"
| "hub_step js (OpCancel i) h = hub_cancel i h"
| "hub_step js OpResume h = snd (hub_resume h)"
| "hub_step js (OpAnswer r) h = hub_answer r h"
| "hub_step js OpBodyEnds h = hub_body_ends h"
| "hub_step js (OpFrame k s c r f) h = snd (hub_frame js k s c r f h)"

fun hub_run :: "json_lib \<Rightarrow> hub_op list \<Rightarrow> hub \<Rightarrow> hub" where
  "hub_run js [] h = h"
| "hub_run js (x # xs) h = hub_run js xs (hub_step js x h)"

end
