(* ===== verification/Sse_Hub_Facts.thy ===== *)
theory Sse_Hub_Facts
  imports Sse_Hub
begin

text \<open>
  What the scope coordinator keeps: the log is the end of the history of all appended events, with
  consecutive cursors, bounded in rows and bytes; the snapshot is the state of the last state event;
  one action at a time owns the scope and actions enter in the order they were accepted; a flash
  claim succeeds once.
\<close>

section \<open>Trimming\<close>

definition log_bytes :: "json_lib \<Rightarrow> sse_event list \<Rightarrow> nat" where
  "log_bytes js evs = sum_list (map (\<lambda>e. payload_bytes js (se_data e)) evs)"

lemma log_bytes_simps [simp]:
  "log_bytes js [] = 0"
  "log_bytes js (e # es) = payload_bytes js (se_data e) + log_bytes js es"
  "log_bytes js (xs @ ys) = log_bytes js xs + log_bytes js ys"
  by (simp_all add: log_bytes_def)

lemma log_bytes_rev [simp]: "log_bytes js (rev evs) = log_bytes js evs"
  by (simp add: log_bytes_def flip: rev_map)

lemma totals_over: "M < n \<Longrightarrow> filter (\<lambda>(e, t). t \<le> M) (with_totals js n es) = []"
  by (induction es arbitrary: n) (auto simp: Let_def)

lemma totals_prefix:
  assumes "n \<le> M"
  shows "\<exists>m \<le> length es. map fst (filter (\<lambda>(e, t). t \<le> M) (with_totals js n es)) = take m es
    \<and> n + log_bytes js (take m es) \<le> M \<and> (es \<noteq> [] \<longrightarrow> n + payload_bytes js (se_data (hd es)) \<le> M \<longrightarrow> 0 < m)"
  using assms
proof (induction es arbitrary: n)
  case (Cons e es)
  let ?t = "n + payload_bytes js (se_data e)"
  show ?case
  proof (cases "?t \<le> M")
    case True
    from Cons.IH [OF True] obtain m where "m \<le> length es"
      "map fst (filter (\<lambda>(e, t). t \<le> M) (with_totals js ?t es)) = take m es" "?t + log_bytes js (take m es) \<le> M"
      by blast
    with True show ?thesis by (intro exI [of _ "Suc m"]) (simp add: Let_def ac_simps)
  next
    case False
    then have "filter (\<lambda>(e, t). t \<le> M) (with_totals js ?t es) = []"
      by (simp add: totals_over)
    with False Cons.prems show ?thesis by (intro exI [of _ 0]) (simp add: Let_def)
  qed
qed simp

lemma trim_log_suffix:
  obtains k where "trim_log js evs = drop k evs" "length (trim_log js evs) \<le> MAX_EVENTS" "log_bytes js (trim_log js evs) \<le> MAX_LOG_BYTES"
    "evs \<noteq> [] \<Longrightarrow> payload_bytes js (se_data (last evs)) \<le> MAX_LOG_BYTES \<Longrightarrow> k < length evs"
proof -
  obtain m where m: "m \<le> length evs"
    "map fst (filter (\<lambda>(e, t). t \<le> MAX_LOG_BYTES) (with_totals js 0 (rev evs))) = take m (rev evs)"
    "log_bytes js (take m (rev evs)) \<le> MAX_LOG_BYTES"
    "evs \<noteq> [] \<longrightarrow> payload_bytes js (se_data (last evs)) \<le> MAX_LOG_BYTES \<longrightarrow> 0 < m"
    using totals_prefix [of 0 MAX_LOG_BYTES "rev evs" js] by (auto simp: hd_rev)
  let ?q = "min MAX_EVENTS m"
  let ?k = "length evs - ?q"
  have t: "trim_log js evs = drop ?k evs"
  proof -
    have "trim_log js evs = rev (take ?q (rev evs))"
      by (simp add: trim_log_def flip: take_map m(2) take_take)
    then show ?thesis by (simp add: take_rev)
  qed
  have "log_bytes js (drop ?k evs) \<le> log_bytes js (drop (length evs - m) evs)"
  proof -
    have e: "drop ?k evs = drop (m - ?q) (drop (length evs - m) evs)"
      using m(1) by (simp add: drop_drop)
    have "log_bytes js (drop i xs) \<le> log_bytes js xs" for i xs
      by (metis append_take_drop_id le_add2 log_bytes_simps(3))
    then show ?thesis unfolding e .
  qed
  moreover have "log_bytes js (drop (length evs - m) evs) \<le> MAX_LOG_BYTES"
    using m(3) by (simp add: take_rev)
  ultimately have b: "log_bytes js (trim_log js evs) \<le> MAX_LOG_BYTES"
    using t by simp
  have "evs \<noteq> [] \<Longrightarrow> payload_bytes js (se_data (last evs)) \<le> MAX_LOG_BYTES \<Longrightarrow> ?k < length evs"
    using m(4) by (auto simp: MAX_EVENTS_def)
  moreover have "length (trim_log js evs) \<le> MAX_EVENTS"
    using t m(1) by auto
  ultimately show thesis using t b that by blast
qed

lemma totals_within: "n + log_bytes js es \<le> M \<Longrightarrow> filter (\<lambda>(e, t). t \<le> M) (with_totals js n es) = with_totals js n es"
  by (induction es arbitrary: n) (auto simp: Let_def ac_simps)

lemma fst_totals [simp]: "map fst (with_totals js n es) = es"
  by (induction es arbitrary: n) (auto simp: Let_def)

lemma length_totals [simp]: "length (with_totals js n es) = length es"
  by (induction es arbitrary: n) (auto simp: Let_def)

lemma trim_log_small: "length evs \<le> MAX_EVENTS \<Longrightarrow> log_bytes js evs \<le> MAX_LOG_BYTES \<Longrightarrow> trim_log js evs = evs"
  by (simp add: trim_log_def totals_within)


section \<open>The log and the snapshot\<close>

text \<open>
  The history of a scope: every appended event with its payload, oldest first. \<open>numbered n hs\<close> are
  its rows when \<open>n\<close> came before; \<open>state_at s hs\<close> is the state after it.
\<close>

fun numbered :: "nat \<Rightarrow> (string \<times> payload) list \<Rightarrow> sse_event list" where
  "numbered n [] = []"
| "numbered n ((e, p) # hs) = \<lparr>se_cursor = Suc n, se_event = e, se_data = p\<rparr> # numbered (Suc n) hs"

fun state_at :: "string \<Rightarrow> (string \<times> payload) list \<Rightarrow> string" where
  "state_at s [] = s"
| "state_at s ((e, p) # hs) = state_at (if e = ''state-update'' then payload_state p else s) hs"

lemma numbered_append [simp]: "numbered n (xs @ ys) = numbered n xs @ numbered (n + length xs) ys"
  by (induction n xs rule: numbered.induct) simp_all

lemma length_numbered [simp]: "length (numbered n hs) = length hs"
  by (induction n hs rule: numbered.induct) simp_all

lemma drop_numbered: "drop k (numbered n hs) = numbered (n + k) (drop k hs)"
proof (induction n hs arbitrary: k rule: numbered.induct)
  case (2 n e p hs)
  then show ?case by (cases k) simp_all
qed simp

lemma take_numbered: "take k (numbered n hs) = numbered n (take k hs)"
proof (induction n hs arbitrary: k rule: numbered.induct)
  case (2 n e p hs)
  then show ?case by (cases k) simp_all
qed simp

lemma numbered_Cons_iff:
  "numbered n hs = e # es \<longleftrightarrow> (\<exists>h hs'. hs = h # hs' \<and> e = \<lparr>se_cursor = Suc n, se_event = fst h, se_data = snd h\<rparr> \<and> es = numbered (Suc n) hs')"
  by (cases hs) auto

lemma cursors_numbered: "e \<in> set (numbered n hs) \<Longrightarrow> n < se_cursor e \<and> se_cursor e \<le> n + length hs"
  by (induction n hs rule: numbered.induct) auto

lemma filter_numbered:
  "filter (\<lambda>e. c < se_cursor e) (numbered n hs) = numbered (max c n) (drop (c - n) hs)"
proof (induction n hs rule: numbered.induct)
  case (2 n e p hs)
  show ?case
  proof (cases "c < Suc n")
    case True
    then have "filter (\<lambda>e. c < se_cursor e) (numbered (Suc n) hs) = numbered (Suc n) hs"
      using cursors_numbered by (fastforce intro: filter_True)
    with True show ?thesis by (simp add: max_def)
  next
    case False
    then have "c - n = Suc (c - Suc n)" by simp
    with False 2 show ?thesis by (simp add: max_def)
  qed
qed simp

lemma state_at_append [simp]: "state_at s (xs @ ys) = state_at (state_at s xs) ys"
  by (induction s xs rule: state_at.induct) simp_all

text \<open>\<open>log_inv js s hs h\<close>: the tables of \<open>h\<close> after the history \<open>hs\<close> from the first state \<open>s\<close>.\<close>

definition log_inv :: "json_lib \<Rightarrow> string \<Rightarrow> (string \<times> payload) list \<Rightarrow> hub \<Rightarrow> bool" where
  "log_inv js s hs h \<longleftrightarrow> hb_counter h = length hs \<and> hb_snapshot h = Some (state_at s hs, length hs)
     \<and> length (hb_events h) \<le> MAX_EVENTS \<and> log_bytes js (hb_events h) \<le> MAX_LOG_BYTES \<and> (hs \<noteq> [] \<longrightarrow> hb_events h \<noteq> [])
     \<and> (\<exists>k \<le> length hs. hb_events h = numbered k (drop k hs))"

lemma log_inv_frame:
  "hb_counter h' = hb_counter h \<Longrightarrow> hb_snapshot h' = hb_snapshot h \<Longrightarrow> hb_events h' = hb_events h \<Longrightarrow> log_inv js s hs h \<Longrightarrow> log_inv js s hs h'"
  by (simp add: log_inv_def)

lemma log_inv_append:
  assumes inv: "log_inv js s hs h" and fits: "payload_bytes js p \<le> MAX_LOG_BYTES"
    and st: "ev = ''state-update'' \<Longrightarrow> st = payload_state p"
  shows "log_inv js s (hs @ [(ev, p)]) (snd (appendEvent js ev p st h))"
    and "fst (appendEvent js ev p st h) = Inr (state_at s (hs @ [(ev, p)]), Suc (length hs))"
proof -
  obtain k where k: "k \<le> length hs" "hb_events h = numbered k (drop k hs)"
    using inv by (auto simp: log_inv_def)
  let ?row = "\<lparr>se_cursor = Suc (length hs), se_event = ev, se_data = p\<rparr>"
  let ?full = "hb_events h @ [?row]"
  have full: "?full = numbered k (drop k (hs @ [(ev, p)]))"
    using k by simp
  obtain j where j: "trim_log js ?full = drop j ?full" "length (trim_log js ?full) \<le> MAX_EVENTS"
    "log_bytes js (trim_log js ?full) \<le> MAX_LOG_BYTES" "j < length ?full"
    using trim_log_suffix [of js ?full] fits by auto
  have "drop j ?full = numbered (k + j) (drop (k + j) (hs @ [(ev, p)]))"
    by (simp only: full drop_numbered drop_drop add.commute)
  moreover have "k + j \<le> length hs"
    using j(4) k by simp
  moreover have "drop j ?full \<noteq> []"
    using j(4) by simp
  ultimately show "log_inv js s (hs @ [(ev, p)]) (snd (appendEvent js ev p st h))"
    using inv j st unfolding log_inv_def appendEvent_def Let_def
    by (auto intro!: exI [of _ "k + j"])
  show "fst (appendEvent js ev p st h) = Inr (state_at s (hs @ [(ev, p)]), Suc (length hs))"
    using inv st by (simp add: log_inv_def appendEvent_def hub_snapshot_def Let_def)
qed

text \<open>What an accepted publication or broadcast appends.\<close>

definition published :: "string \<Rightarrow> string option \<Rightarrow> string \<times> payload" where
  "published state r = (''state-update'', case r of None \<Rightarrow> Plain state | Some r \<Rightarrow> Correlated state r)"

lemma publish_cases:
  assumes "log_inv js s hs h"
  shows "(\<exists>e. publish js state r h = (Inl e, h)) \<or>
    (\<exists>h'. publish js state r h = (Inr (state, Suc (length hs)), h') \<and> log_inv js s (hs @ [published state r]) h')"
proof (cases "validateState js state")
  case (Inl e)
  then show ?thesis by (simp add: publish_def)
next
  case (Inr u)
  then have small: "payload_bytes js (Plain state) \<le> MAX_LOG_BYTES"
    by (simp add: validateState_def payload_bytes_def payload_text_def)
  show ?thesis
  proof (cases r)
    case None
    show ?thesis
      using log_inv_append [OF assms small, of "''state-update''" state] Inr None
      by (auto simp: publish_def published_def payload_state_def prod_eq_iff)
  next
    case (Some q)
    show ?thesis
    proof (cases "request_id_ok q \<and> utf8_length (js_correlate js state q) \<le> MAX_LOG_BYTES")
      case True
      then have "payload_bytes js (Correlated state q) \<le> MAX_LOG_BYTES"
        by (simp add: payload_bytes_def payload_text_def)
      from log_inv_append [OF assms this, of "''state-update''" state] show ?thesis
        using Inr Some True by (auto simp: publish_def published_def payload_state_def prod_eq_iff)
    next
      case False
      then show ?thesis using Inr Some by (auto simp: publish_def)
    qed
  qed
qed

lemma broadcast_cases:
  assumes "log_inv js s hs h"
  shows "(\<exists>e. hub_broadcast js ev d h = (Inl e, h)) \<or>
    (\<exists>h' st. hub_broadcast js ev d h = (Inr (st, Suc (length hs)), h') \<and> log_inv js s (hs @ [(ev, Plain d)]) h')"
proof (cases "event_name_ok ev \<and> utf8_length d \<le> MAX_LOG_BYTES \<and> js_is_object js d")
  case True
  then have "payload_bytes js (Plain d) \<le> MAX_LOG_BYTES"
    by (simp add: payload_bytes_def payload_text_def)
  from log_inv_append [OF assms this, of ev d] show ?thesis
    using True by (auto simp: hub_broadcast_def payload_state_def prod_eq_iff)
next
  case False
  then show ?thesis by (auto simp: hub_broadcast_def)
qed

lemma readUpdates_exact:
  assumes inv: "log_inv js s hs h"
  obtains k where "k \<le> length hs" "hb_events h = numbered k (drop k hs)"
    "readUpdates c h = Inr \<lparr>up_snapshot = (state_at s hs, length hs), up_resync = (c > length hs \<or> c < k),
       up_events = (if c > length hs \<or> c < k then [] else numbered c (drop c hs)), up_retryAfter = None\<rparr>"
proof -
  obtain k where k: "k \<le> length hs" "hb_events h = numbered k (drop k hs)"
    using inv by (auto simp: log_inv_def)
  have rs: "(c > length hs \<or> (case (case hb_events h of [] \<Rightarrow> None | e # _ \<Rightarrow> Some (se_cursor e)) of
      None \<Rightarrow> False | Some k \<Rightarrow> int c < int k - 1)) = (c > length hs \<or> c < k)"
  proof (cases "drop k hs")
    case Nil
    moreover have "hs = []" using inv k(2) Nil by (auto simp: log_inv_def)
    ultimately show ?thesis using k by simp
  next
    case (Cons x xs)
    then show ?thesis using k(2) by (cases x) auto
  qed
  have ev: "filter (\<lambda>e. c < se_cursor e) (hb_events h) = numbered c (drop c hs)" if "\<not> (c > length hs \<or> c < k)"
  proof -
    have "max c k = c" "drop (c - k) (drop k hs) = drop c hs"
      using that by auto
    then show ?thesis using k by (simp add: filter_numbered)
  qed
  show thesis
  proof (rule that [OF k])
    have sn: "hub_snapshot h = Inr (state_at s hs, length hs)"
      using inv by (simp add: log_inv_def hub_snapshot_def)
    show "readUpdates c h = Inr \<lparr>up_snapshot = (state_at s hs, length hs), up_resync = (c > length hs \<or> c < k),
       up_events = (if c > length hs \<or> c < k then [] else numbered c (drop c hs)), up_retryAfter = None\<rparr>"
      unfolding readUpdates_def sn bindr.simps Let_def snd_conv rs using ev by simp
  qed
qed

text \<open>What one call appends, read off its result, and the history of a run.\<close>

definition frame_publishes :: "json_lib \<Rightarrow> frame_kind \<Rightarrow> string option \<Rightarrow> string option \<Rightarrow> string option \<Rightarrow> hub \<Rightarrow> bool" where
  "frame_publishes js k st sc r h \<longleftrightarrow> (case hb_active h of
     Some (a, Responding) \<Rightarrow> k \<noteq> ErrorFrame \<and> st \<noteq> None \<and> isl (fst (publish js (case sc of Some t \<Rightarrow> t | None \<Rightarrow> the st) r h)) = False
   | _ \<Rightarrow> False)"

fun appended :: "json_lib \<Rightarrow> hub_op \<Rightarrow> hub \<Rightarrow> (string \<times> payload) list" where
  "appended js (OpPublish s r) h = (if isl (fst (publish js s r h)) then [] else [published s r])"
| "appended js (OpBroadcast e d) h = (if isl (fst (hub_broadcast js e d h)) then [] else [(e, Plain d)])"
| "appended js (OpFrame k st sc r f) h =
     (if frame_publishes js k st sc r h then [published (case sc of Some t \<Rightarrow> t | None \<Rightarrow> the st) r] else [])"
| "appended js _ h = []"

fun hub_history :: "json_lib \<Rightarrow> hub_op list \<Rightarrow> hub \<Rightarrow> (string \<times> payload) list" where
  "hub_history js [] h = []"
| "hub_history js (x # xs) h = appended js x h @ hub_history js xs (hub_step js x h)"

lemma log_inv_finish [simp]: "log_inv js s hs (finish_active h) = log_inv js s hs h"
  by (auto simp: finish_active_def log_inv_def split: list.split)

lemma log_inv_queue_ops:
  assumes "log_inv js s hs h"
  shows "log_inv js s hs (snd (updates a w i f h))" "log_inv js s hs (cancelWait v h)"
    "log_inv js s hs (snd (hub_claimFlash n k t now h))" "log_inv js s hs (hub_alarm now h)"
    "log_inv js s hs (snd (hub_execute q h))" "log_inv js s hs (hub_cancel q h)" "log_inv js s hs (snd (hub_resume h))"
    "log_inv js s hs (hub_answer r h)" "log_inv js s hs (hub_body_ends h)" "log_inv js s hs (snd (initialize js t' h))"
proof -
  note fr = log_inv_frame [OF _ _ _ assms]
  show "log_inv js s hs (snd (updates a w i f h))"
    by (rule fr) (auto simp: updates_def Let_def split: sum.split)
  show "log_inv js s hs (cancelWait v h)"
    by (rule fr) (simp_all add: cancelWait_def)
  show "log_inv js s hs (snd (hub_claimFlash n k t now h))"
    by (rule fr) (simp_all add: hub_claimFlash_def Let_def split: jnum.split)
  show "log_inv js s hs (hub_alarm now h)"
    by (rule fr) (simp_all add: hub_alarm_def Let_def)
  show "log_inv js s hs (snd (hub_execute q h))"
    by (rule fr) (simp_all add: hub_execute_def Let_def)
  show "log_inv js s hs (hub_cancel q h)"
    using assms by (auto simp: hub_cancel_def intro: fr split: option.split)
  show "log_inv js s hs (snd (hub_resume h))"
    using assms by (auto simp: hub_resume_def intro: fr split: option.split phase.split sum.split)
  show "log_inv js s hs (hub_answer r h)"
    using assms by (auto simp: hub_answer_def intro: fr split: option.split phase.split)
  show "log_inv js s hs (hub_body_ends h)"
    using assms by (auto simp: hub_body_ends_def split: option.split phase.split)
  show "log_inv js s hs (snd (initialize js t' h))"
    using assms by (auto simp: initialize_def log_inv_def split: sum.split)
qed

lemma log_inv_frame_op:
  assumes inv: "log_inv js s hs h"
  shows "log_inv js s (hs @ appended js (OpFrame k st sc r f) h) (snd (hub_frame js k st sc r f h))"
proof (cases "\<exists>a. hb_active h = Some (a, Responding)")
  case False
  then have "hub_frame js k st sc r f h = (NoFrame, h)" "\<not> frame_publishes js k st sc r h"
    by (auto simp: hub_frame_def frame_publishes_def split: option.split phase.split)
  then show ?thesis using inv by simp
next
  case True
  then obtain a where a: "hb_active h = Some (a, Responding)" by blast
  let ?t = "case sc of Some t \<Rightarrow> t | None \<Rightarrow> the st"
  consider (err) "k = ErrorFrame" | (bad) "k \<noteq> ErrorFrame" "st = None" | (pub) "k \<noteq> ErrorFrame" "st \<noteq> None"
    by blast
  then show ?thesis
  proof cases
    case pub
    from publish_cases [OF inv, of ?t r] show ?thesis
    proof (elim disjE exE conjE)
      fix e assume "publish js ?t r h = (Inl e, h)"
      then show ?thesis using inv a pub by (simp add: hub_frame_def frame_publishes_def)
    next
      fix h' assume "publish js ?t r h = (Inr (?t, Suc (length hs)), h')" "log_inv js s (hs @ [published ?t r]) h'"
      then show ?thesis using a pub by (auto simp: hub_frame_def frame_publishes_def)
    qed
  qed (use a inv in \<open>simp_all add: hub_frame_def frame_publishes_def\<close>)
qed

lemma log_inv_step: "log_inv js s hs h \<Longrightarrow> log_inv js s (hs @ appended js x h) (hub_step js x h)"
proof (cases x)
  case (OpPublish st r)
  assume "log_inv js s hs h"
  with publish_cases [OF this, of st r] OpPublish show ?thesis by auto
next
  case (OpBroadcast e d)
  assume "log_inv js s hs h"
  with broadcast_cases [OF this, of e d] OpBroadcast show ?thesis by auto
next
  case (OpFrame k st sc r f)
  assume "log_inv js s hs h"
  with OpFrame show ?thesis using log_inv_frame_op by (metis hub_step.simps(14))
qed (simp_all add: log_inv_queue_ops)

lemma log_inv_run: "log_inv js s hs h \<Longrightarrow> log_inv js s (hs @ hub_history js xs h) (hub_run js xs h)"
proof (induction xs arbitrary: hs h)
  case (Cons x xs)
  from Cons.IH [OF log_inv_step [OF Cons.prems]] show ?case by simp
qed simp

lemma log_inv_initialize:
  assumes "initialize js s empty_hub = (Inr ((s, 0), True), h)"
  shows "log_inv js s [] h"
  using assms by (auto simp: initialize_def empty_hub_def log_inv_def MAX_EVENTS_def MAX_LOG_BYTES_def split: sum.splits)

text \<open>C25. After any sequence of calls on an initialized scope the snapshot is the state of the last
  state event with the number of appended events as its cursor, and the log is the end of the history
  of appended events under consecutive cursors: never empty once something was appended, at most 128 rows
  and one mebibyte.\<close>
theorem scope_log_exact:
  assumes "initialize js s empty_hub = (Inr ((s, 0), True), h0)"
  shows "hb_snapshot (hub_run js xs h0) = Some (state_at s (hub_history js xs h0), length (hub_history js xs h0))
    \<and> (\<exists>k \<le> length (hub_history js xs h0). hb_events (hub_run js xs h0) = numbered k (drop k (hub_history js xs h0)))
    \<and> (hub_history js xs h0 = [] \<or> hb_events (hub_run js xs h0) \<noteq> [])
    \<and> length (hb_events (hub_run js xs h0)) \<le> 128 \<and> log_bytes js (hb_events (hub_run js xs h0)) \<le> 1024 * 1024"
  using log_inv_run [OF log_inv_initialize [OF assms], of xs]
  by (auto simp: log_inv_def MAX_EVENTS_def MAX_LOG_BYTES_def)

definition any_json :: json_lib where
  "any_json = \<lparr>js_is_object = (\<lambda>s. s \<noteq> []), js_correlate = (\<lambda>s r. s @ r)\<rparr>"

definition sample_ops :: "hub_op list" where
  "sample_ops = [OpPublish ''{1}'' (Some ''r''), OpBroadcast ''event'' ''{2}'', OpExecute ''a'', OpResume, OpAnswer AnswerWithBody,
     OpExecute ''b'', OpFrame DoneFrame (Some ''{3}'') None None True]"

lemma any_json_simps [simp]: "js_is_object any_json s \<longleftrightarrow> s \<noteq> []" "js_correlate any_json s r = s @ r"
  by (simp_all add: any_json_def)

lemma any_valid: "s \<noteq> [] \<Longrightarrow> utf8_length s \<le> MAX_LOG_BYTES \<Longrightarrow> validateState any_json s = Inr ()"
  by (simp add: validateState_def)

lemma sample_texts: "event_name_ok ''event''" "request_id_ok ''r''" "trim ''a'' \<noteq> []" "trim ''b'' \<noteq> []"
  by code_simp+

lemmas hub_limits = utf8_length_def MAX_LOG_BYTES_def MAX_EVENTS_def MAX_PENDING_def
lemmas append_eval = appendEvent_def hub_snapshot_def Let_def published_def trim_log_small payload_bytes_def payload_text_def

lemma scope_log_exact_witness:
  "\<exists>h0. initialize any_json ''{}'' empty_hub = (Inr ((''{}'', 0), True), h0)
     \<and> hb_snapshot (hub_run any_json sample_ops h0) = Some (''{3}'', 3)"
proof -
  let ?h = "snd (initialize any_json ''{}'' empty_hub)"
  have i: "initialize any_json ''{}'' empty_hub = (Inr ((''{}'', 0), True), ?h)"
    by (simp add: initialize_def any_valid empty_hub_def hub_limits)
  have "hub_history any_json sample_ops ?h
      = [(''state-update'', Correlated ''{1}'' ''r''), (''event'', Plain ''{2}''), (''state-update'', Plain ''{3}'')]"
    apply (simp add: sample_ops_def initialize_def any_valid empty_hub_def hub_limits)
    apply (simp add: publish_def any_valid sample_texts hub_limits)
    apply (simp add: append_eval hub_limits)
    apply (simp add: hub_broadcast_def sample_texts hub_limits)
    apply (simp add: append_eval hub_limits)
    apply (simp add: hub_execute_def sample_texts pending_ids_def hub_limits hub_resume_def hub_snapshot_def hub_answer_def)
    apply (simp add: frame_publishes_def publish_def any_valid hub_limits)
    apply (simp add: append_eval hub_limits)
    done
  with scope_log_exact [OF i, of sample_ops] have "hb_snapshot (hub_run any_json sample_ops ?h) = Some (''{3}'', 3)"
    by (simp add: payload_state_def)
  with i show ?thesis by blast
qed


section \<open>One-use flash claims\<close>

text \<open>Successful claims of one signed token: its nonce and expiry are fixed by the signature.\<close>

fun claims_won :: "json_lib \<Rightarrow> string \<Rightarrow> int \<Rightarrow> hub_op list \<Rightarrow> hub \<Rightarrow> nat" where
  "claims_won js k t [] h = 0"
| "claims_won js k t (x # xs) h =
     (case x of OpClaim n k' e now \<Rightarrow> (if k' = k \<and> fst (hub_claimFlash n k' e now h) then 1 else 0) | _ \<Rightarrow> 0) + claims_won js k t xs (hub_step js x h)"

text \<open>Every claim of the nonce carries the same expiry, and the readings of the clock do not go back.\<close>

fun clocked :: "string \<Rightarrow> int \<Rightarrow> int \<Rightarrow> hub_op list \<Rightarrow> bool" where
  "clocked k t c [] = True"
| "clocked k t c (x # xs) =
     (case x of OpClaim n k' e now \<Rightarrow> c \<le> now \<and> (k' = k \<longrightarrow> e = NInt t) \<and> clocked k t now xs
      | OpAlarm now \<Rightarrow> c \<le> now \<and> clocked k t now xs | _ \<Rightarrow> clocked k t c xs)"

text \<open>A nonce that was claimed stays in the table until its expiry has passed.\<close>

definition claim_kept :: "string \<Rightarrow> int \<Rightarrow> int \<Rightarrow> hub \<Rightarrow> bool" where
  "claim_kept k t c h \<longleftrightarrow> (k, t) \<in> set (hb_claims h) \<or> t \<le> c"

lemma hub_frame_result:
  "snd (hub_frame js k s c r b h) \<in> {h, finish_active h}
     \<union> (\<lambda>t. snd (publish js t r h)) ` UNIV \<union> (\<lambda>t. finish_active (snd (publish js t r h))) ` UNIV"
proof (cases "publish js (case c of Some t \<Rightarrow> t | None \<Rightarrow> the s) r h")
  case (Pair e h')
  then have "h' \<in> (\<lambda>t. snd (publish js t r h)) ` UNIV"
    by (metis rangeI snd_conv)
  with Pair show ?thesis by (auto simp: hub_frame_def split: option.split phase.split sum.split)
qed

lemma claims_frame:
  assumes "\<And>n k t now. x \<noteq> OpClaim n k t now" "\<And>now. x \<noteq> OpAlarm now"
  shows "hb_claims (hub_step js x h) = hb_claims h"
proof -
  have f [simp]: "hb_claims (finish_active h) = hb_claims h" for h
    by (auto simp: finish_active_def split: list.split)
  have p [simp]: "hb_claims (snd (publish js s r h)) = hb_claims h" for s r h
    by (auto simp: publish_def appendEvent_def Let_def split: sum.split option.split)
  have fr: "hb_claims (snd (hub_frame js k s c r b h)) = hb_claims h" for k s c r b
    using hub_frame_result [of js k s c r b h] by auto
  show ?thesis
  proof (cases x)
    case (OpUpdates a w i g)
    then show ?thesis by (auto simp: updates_def Let_def split: sum.split)
  next
    case (OpCancel i)
    then show ?thesis by (auto simp: hub_cancel_def split: option.split)
  next
    case OpResume
    then show ?thesis by (auto simp: hub_resume_def split: option.split phase.split sum.split)
  next
    case (OpAnswer r)
    then show ?thesis by (auto simp: hub_answer_def split: option.split phase.split)
  next
    case OpBodyEnds
    then show ?thesis by (auto simp: hub_body_ends_def split: option.split phase.split)
  next
    case (OpInitialize s)
    then show ?thesis by (auto simp: initialize_def split: sum.split option.split)
  next
    case (OpBroadcast e d)
    then show ?thesis by (auto simp: hub_broadcast_def appendEvent_def Let_def)
  qed (use assms fr in \<open>auto simp: cancelWait_def hub_execute_def Let_def\<close>)
qed

lemma claim_refused: "(k, t) \<in> set (hb_claims h) \<or> t \<le> now \<Longrightarrow> \<not> fst (hub_claimFlash n k (NInt t) now h)"
proof -
  assume *: "(k, t) \<in> set (hb_claims h) \<or> t \<le> now"
  have "map_of (hb_claims h) k \<noteq> None" if "(k, t) \<in> set (hb_claims h)"
    using that by (simp add: map_of_eq_None_iff) (metis fst_conv image_eqI)
  with * show ?thesis by (auto simp: hub_claimFlash_def Let_def)
qed

lemma no_claim_after: "claim_kept k t c h \<Longrightarrow> clocked k t c xs \<Longrightarrow> claims_won js k t xs h = 0"
proof (induction xs arbitrary: c h)
  case (Cons x xs)
  show ?case
  proof (cases x)
    case (OpClaim n k' e now)
    have "k' = k \<Longrightarrow> \<not> fst (hub_claimFlash n k' e now h)"
      using Cons.prems OpClaim by (auto simp: claim_kept_def intro!: claim_refused)
    moreover have "claim_kept k t now (snd (hub_claimFlash n k' e now h))"
      using Cons.prems OpClaim by (auto simp: claim_kept_def hub_claimFlash_def Let_def split: jnum.split)
    ultimately show ?thesis using Cons.prems Cons.IH OpClaim by auto
  next
    case (OpAlarm now)
    have "claim_kept k t now (hub_alarm now h)"
      using Cons.prems OpAlarm by (auto simp: claim_kept_def hub_alarm_def Let_def)
    with Cons.prems Cons.IH OpAlarm show ?thesis by simp
  qed (use Cons.prems Cons.IH [of c] in \<open>auto simp: claim_kept_def claims_frame simp del: hub_step.simps\<close>)
qed simp

lemma claim_won_kept: "fst (hub_claimFlash n k (NInt t) now h) \<Longrightarrow> (k, t) \<in> set (hb_claims (snd (hub_claimFlash n k (NInt t) now h)))"
  by (auto simp: hub_claimFlash_def Let_def split: if_splits)

text \<open>A signed flash token is consumed at most once: whatever calls, alarms and other claims come in
  between, at most one claim of a nonce succeeds, provided its expiry is the signed one and the clock does
  not go back.\<close>
theorem flash_claimed_once:
  assumes "clocked k t c xs"
  shows "claims_won js k t xs h \<le> 1"
  using assms
proof (induction xs arbitrary: c h)
  case (Cons x xs)
  show ?case
  proof (cases x)
    case (OpClaim n k' e now)
    show ?thesis
    proof (cases "k' = k \<and> fst (hub_claimFlash n k' e now h)")
      case True
      then have "claim_kept k t now (hub_step js x h)"
        using Cons.prems OpClaim claim_won_kept [of n k t now h] by (auto simp: claim_kept_def)
      moreover have "clocked k t now xs"
        using Cons.prems OpClaim by simp
      ultimately have "claims_won js k t xs (hub_step js x h) = 0"
        by (rule no_claim_after)
      then show ?thesis using OpClaim True by simp
    next
      case False
      then show ?thesis using Cons OpClaim by auto
    qed
  next
    case (OpAlarm now)
    then show ?thesis using Cons by auto
  qed (use Cons in auto)
qed simp

definition sample_nonce :: string where
  "sample_nonce = ''01234567-89ab-4def-8123-456789abcdef''"

definition sample_claims :: "hub_op list" where
  "sample_claims = [OpClaim (''cossack.flash.v1:'' @ sample_nonce) sample_nonce (NInt 9) 1, OpAlarm 2,
    OpClaim (''cossack.flash.v1:'' @ sample_nonce) sample_nonce (NInt 9) 3]"

lemma flash_claimed_once_witness:
  "claims_won any_json sample_nonce 9 sample_claims empty_hub \<le> 1 \<and> claims_won any_json sample_nonce 9 sample_claims empty_hub \<noteq> 0"
proof
  show "claims_won any_json sample_nonce 9 sample_claims empty_hub \<le> 1"
    by (rule flash_claimed_once [of _ _ 0]) code_simp
qed code_simp

end
