(* ===== verification/Sse_Queue.thy ===== *)
theory Sse_Queue
  imports Sse_Hub_Facts
begin

text \<open>
  The action queue of a scope over whole runs: which operations were accepted, which callbacks began
  and how many are in flight; that they begin one at a time in the order of acceptance, and that the
  queue empties when every owner answers.
\<close>

fun accepted :: "json_lib \<Rightarrow> hub_op list \<Rightarrow> hub \<Rightarrow> string list" where
  "accepted js [] h = []"
| "accepted js (x # xs) h =
     (case x of OpExecute i \<Rightarrow> (if fst (hub_execute i h) = None then [i] else []) | _ \<Rightarrow> []) @ accepted js xs (hub_step js x h)"

fun started_by :: "hub_op \<Rightarrow> hub \<Rightarrow> string list" where
  "started_by OpResume h = (case (fst (hub_resume h), hb_active h) of (Some (Starts s), Some (a, p)) \<Rightarrow> [pa_id a] | _ \<Rightarrow> [])"
| "started_by _ h = []"

fun started :: "json_lib \<Rightarrow> hub_op list \<Rightarrow> hub \<Rightarrow> string list" where
  "started js [] h = []"
| "started js (x # xs) h = started_by x h @ started js xs (hub_step js x h)"

fun is_acting :: "hub \<Rightarrow> bool" where
  "is_acting h = (case hb_active h of Some (a, Acting) \<Rightarrow> True | _ \<Rightarrow> False)"

text \<open>Callbacks begun and not yet answered.\<close>

fun in_flight :: "json_lib \<Rightarrow> hub_op list \<Rightarrow> hub \<Rightarrow> int" where
  "in_flight js [] h = 0"
| "in_flight js (x # xs) h =
     int (length (started_by x h)) - (case x of OpAnswer r \<Rightarrow> (if is_acting h then 1 else 0) | _ \<Rightarrow> 0) + in_flight js xs (hub_step js x h)"

text \<open>Operations accepted that have not begun: the owner that has just entered, and the queue.\<close>

definition waiting :: "hub \<Rightarrow> string list" where
  "waiting h = (case hb_active h of Some (a, Entered) \<Rightarrow> [pa_id a] | _ \<Rightarrow> []) @ map pa_id (hb_queue h)"

definition queue_inv :: "hub \<Rightarrow> bool" where
  "queue_inv h \<longleftrightarrow> distinct (pending_ids h) \<and> length (pending_ids h) \<le> MAX_PENDING \<and> (hb_active h = None \<longrightarrow> hb_queue h = [])"

lemma queue_frame:
  "hb_active h' = hb_active h \<Longrightarrow> hb_queue h' = hb_queue h \<Longrightarrow> queue_inv h' = queue_inv h"
  "hb_active h' = hb_active h \<Longrightarrow> hb_queue h' = hb_queue h \<Longrightarrow> waiting h' = waiting h"
  "hb_active h' = hb_active h \<Longrightarrow> is_acting h' = is_acting h"
  by (simp_all add: queue_inv_def waiting_def pending_ids_def)

text \<open>Steps that leave the queue alone.\<close>

lemma publish_queue [simp]:
  "hb_active (snd (publish js s r h)) = hb_active h" "hb_queue (snd (publish js s r h)) = hb_queue h"
  by (simp_all add: publish_def appendEvent_def Let_def split: sum.split option.split)

fun owner_op :: "hub_op \<Rightarrow> bool" where
  "owner_op (OpExecute i) = True"
| "owner_op (OpCancel i) = True"
| "owner_op OpResume = True"
| "owner_op (OpAnswer r) = True"
| "owner_op OpBodyEnds = True"
| "owner_op (OpFrame k s c r f) = True"
| "owner_op _ = False"

lemma other_op_queue:
  assumes "\<not> owner_op x"
  shows "hb_active (hub_step js x h) = hb_active h" "hb_queue (hub_step js x h) = hb_queue h"
  using assms
  by (cases x; simp add: initialize_def hub_broadcast_def appendEvent_def updates_def cancelWait_def hub_claimFlash_def hub_alarm_def
      Let_def split: sum.split option.split jnum.split)+

lemma finish_queue:
  assumes "queue_inv h"
  shows "queue_inv (finish_active h)" "\<not> is_acting (finish_active h)" "waiting (finish_active h) = map pa_id (hb_queue h)"
  using assms by (auto simp: finish_active_def queue_inv_def waiting_def pending_ids_def split: list.split option.splits)

text \<open>What a frame does to the queue: nothing, or the end of an owner that is being read.\<close>

lemma frame_queue:
  "(hb_active (snd (hub_frame js k s c r b h)) = hb_active h \<and> hb_queue (snd (hub_frame js k s c r b h)) = hb_queue h)
   \<or> (\<exists>a h'. hb_active h = Some (a, Responding) \<and> hb_active h' = hb_active h \<and> hb_queue h' = hb_queue h
        \<and> snd (hub_frame js k s c r b h) = finish_active h')"
proof (cases "\<exists>a. hb_active h = Some (a, Responding)")
  case False
  then show ?thesis by (auto simp: hub_frame_def split: option.split phase.split)
next
  case True
  then obtain a where "hb_active h = Some (a, Responding)" by blast
  then show ?thesis using hub_frame_result [of js k s c r b h]
    by (elim UnE) (auto, (metis publish_queue)+)
qed

definition new_id :: "hub_op \<Rightarrow> hub \<Rightarrow> string list" where
  "new_id x h = (case x of OpExecute i \<Rightarrow> (if fst (hub_execute i h) = None then [i] else []) | _ \<Rightarrow> [])"

definition flight_change :: "hub_op \<Rightarrow> hub \<Rightarrow> int" where
  "flight_change x h = int (length (started_by x h)) - (case x of OpAnswer r \<Rightarrow> (if is_acting h then 1 else 0) | _ \<Rightarrow> 0)"

definition acting :: "hub \<Rightarrow> int" where
  "acting h = (if is_acting h then 1 else 0)"

text \<open>One step keeps the invariant, moves waiting operations to begun ones in order, and accounts for the callbacks in flight.\<close>

definition good_step :: "hub_op \<Rightarrow> hub \<Rightarrow> hub \<Rightarrow> bool" where
  "good_step x h h' \<longleftrightarrow> queue_inv h' \<and> subseq (started_by x h @ waiting h') (waiting h @ new_id x h) \<and> acting h' = acting h + flight_change x h"

lemma good_execute: "queue_inv h \<Longrightarrow> good_step (OpExecute i) h (snd (hub_execute i h))"
  by (auto simp: good_step_def hub_execute_def Let_def queue_inv_def pending_ids_def waiting_def new_id_def acting_def flight_change_def
      split: option.splits phase.splits)

lemma subseq_filtered: "subseq (map f (filter P xs)) (map f xs)"
  by (simp add: subseq_map subseq_filter_left)

lemma good_cancel: "queue_inv h \<Longrightarrow> good_step (OpCancel i) h (hub_cancel i h)"
proof (cases "hb_active h")
  case (Some ap)
  assume inv: "queue_inv h"
  obtain a p where ap: "ap = (a, p)" by (cases ap)
  show ?thesis
  proof (cases "pa_id a = i")
    case True
    then show ?thesis
    proof (cases "\<not> pa_cancelled a \<and> p = Responding")
      case True
      then show ?thesis using Some ap inv finish_queue [OF inv] \<open>pa_id a = i\<close>
        by (auto simp: good_step_def hub_cancel_def new_id_def acting_def flight_change_def waiting_def)
    next
      case False
      then show ?thesis using Some ap inv \<open>pa_id a = i\<close>
        by (auto simp: good_step_def hub_cancel_def new_id_def acting_def flight_change_def waiting_def queue_inv_def pending_ids_def split: phase.split)
    qed
  next
    case False
    have "Suc (length (hb_queue h)) \<le> MAX_PENDING \<Longrightarrow> Suc (length (filter (\<lambda>x. pa_id x \<noteq> i) (hb_queue h))) \<le> MAX_PENDING"
      using length_filter_le [of "\<lambda>x. pa_id x \<noteq> i" "hb_queue h"] by linarith
    then show ?thesis using Some ap inv False
      by (auto simp: good_step_def hub_cancel_def new_id_def acting_def flight_change_def waiting_def queue_inv_def pending_ids_def
          distinct_map_filter subseq_filtered split: phase.split)
  qed
qed (simp add: good_step_def hub_cancel_def new_id_def acting_def flight_change_def)

lemma good_resume: "queue_inv h \<Longrightarrow> good_step OpResume h (snd (hub_resume h))"
proof (cases "\<exists>a. hb_active h = Some (a, Entered)")
  case True
  assume inv: "queue_inv h"
  then obtain a where a: "hb_active h = Some (a, Entered)" using True by blast
  show ?thesis
    using a inv finish_queue [OF inv]
    by (auto simp: good_step_def hub_resume_def new_id_def acting_def flight_change_def waiting_def queue_inv_def pending_ids_def split: sum.split)
next
  case False
  assume "queue_inv h"
  then have "hub_resume h = (None, h)" "started_by OpResume h = []"
    using False by (auto simp: hub_resume_def split: option.split phase.split)
  with \<open>queue_inv h\<close> show ?thesis by (simp add: good_step_def new_id_def acting_def flight_change_def)
qed

lemma good_answer: "queue_inv h \<Longrightarrow> good_step (OpAnswer r) h (hub_answer r h)"
proof (cases "\<exists>a. hb_active h = Some (a, Acting)")
  case True
  assume inv: "queue_inv h"
  then obtain a where a: "hb_active h = Some (a, Acting)" using True by blast
  show ?thesis
    using a inv finish_queue [OF inv]
    by (auto simp: good_step_def hub_answer_def new_id_def acting_def flight_change_def waiting_def queue_inv_def pending_ids_def)
next
  case False
  assume "queue_inv h"
  then have "hub_answer r h = h" "\<not> is_acting h"
    using False by (auto simp: hub_answer_def split: option.split phase.split)
  with \<open>queue_inv h\<close> show ?thesis by (simp add: good_step_def new_id_def acting_def flight_change_def)
qed

lemma good_finish:
  assumes inv: "queue_inv h" and a: "hb_active h = Some (a, Responding)" and h': "hb_active h' = hb_active h" "hb_queue h' = hb_queue h"
    and x: "started_by x h = []" "new_id x h = []" "flight_change x h = 0"
  shows "good_step x h (finish_active h')"
proof -
  have "queue_inv h'" using inv queue_frame(1) [OF h'] by simp
  from finish_queue [OF this] show ?thesis
    using a h' x by (auto simp: good_step_def acting_def waiting_def)
qed

lemma good_same:
  assumes "queue_inv h" "hb_active h' = hb_active h" "hb_queue h' = hb_queue h"
    and "started_by x h = []" "flight_change x h = 0"
  shows "good_step x h h'"
  using assms queue_frame [of h' h] by (auto simp: good_step_def acting_def intro: list_emb_append2)

lemma step_queue: "queue_inv h \<Longrightarrow> good_step x h (hub_step js x h)"
proof (cases "owner_op x")
  case False
  assume "queue_inv h"
  then show ?thesis using False
    by (intro good_same other_op_queue) (cases x; simp add: flight_change_def)+
next
  case True
  assume inv: "queue_inv h"
  show ?thesis
  proof (cases x)
    case OpBodyEnds
    show ?thesis
    proof (cases "\<exists>a. hb_active h = Some (a, Responding)")
      case True
      then show ?thesis using good_finish [OF inv, of _ h x] OpBodyEnds
        by (auto simp: hub_body_ends_def new_id_def flight_change_def)
    next
      case False
      then have "hub_body_ends h = h"
        by (auto simp: hub_body_ends_def split: option.split phase.split)
      then show ?thesis using good_same [OF inv] OpBodyEnds by (simp add: flight_change_def)
    qed
  next
    case (OpFrame k s c r b)
    then have x: "started_by x h = []" "new_id x h = []" "flight_change x h = 0"
      by (simp_all add: new_id_def flight_change_def)
    from frame_queue [of js k s c r b h] show ?thesis
    proof (elim disjE exE conjE)
      assume "hb_active (snd (hub_frame js k s c r b h)) = hb_active h" "hb_queue (snd (hub_frame js k s c r b h)) = hb_queue h"
      then show ?thesis using good_same [OF inv] x OpFrame by simp
    next
      fix a h' assume "hb_active h = Some (a, Responding)" "hb_active h' = hb_active h" "hb_queue h' = hb_queue h"
        "snd (hub_frame js k s c r b h) = finish_active h'"
      then show ?thesis using good_finish [OF inv _ _ _ x] OpFrame by simp
    qed
  qed (use True inv good_execute good_cancel good_resume good_answer in auto)
qed

lemma run_queue:
  assumes "queue_inv h"
  shows "queue_inv (hub_run js xs h)
    \<and> subseq (started js xs h @ waiting (hub_run js xs h)) (waiting h @ accepted js xs h)
    \<and> acting (hub_run js xs h) = acting h + in_flight js xs h"
  using assms
proof (induction xs arbitrary: h)
  case (Cons x xs)
  let ?h = "hub_step js x h"
  have g: "good_step x h ?h" using Cons.prems by (rule step_queue)
  then have IH: "queue_inv (hub_run js xs ?h)" "subseq (started js xs ?h @ waiting (hub_run js xs ?h)) (waiting ?h @ accepted js xs ?h)"
    "acting (hub_run js xs ?h) = acting ?h + in_flight js xs ?h"
    using Cons.IH by (auto simp: good_step_def)
  have "subseq (started_by x h @ started js xs ?h @ waiting (hub_run js xs ?h)) (started_by x h @ waiting ?h @ accepted js xs ?h)"
    using IH(2) by (simp add: list_emb_append_mono)
  moreover have "subseq ((started_by x h @ waiting ?h) @ accepted js xs ?h) ((waiting h @ new_id x h) @ accepted js xs ?h)"
    using g by (simp only: good_step_def subseq_append_iff) (blast intro: list_emb_append_mono)
  ultimately have "subseq (started_by x h @ started js xs ?h @ waiting (hub_run js xs ?h)) (waiting h @ new_id x h @ accepted js xs ?h)"
    by (metis append.assoc subseq_order.trans)
  then show ?case
    using IH g by (simp add: new_id_def good_step_def flight_change_def)
qed simp

lemma idle_queue: "hb_active h = None \<Longrightarrow> hb_queue h = [] \<Longrightarrow> queue_inv h \<and> waiting h = [] \<and> acting h = 0"
  by (simp add: queue_inv_def waiting_def pending_ids_def MAX_PENDING_def acting_def)

text \<open>C26. The actions of a scope run one at a time and in turn: from an idle coordinator, whatever calls and
  continuations follow, the callbacks begun are a subsequence of the accepted operations in the order they
  were accepted, at most one is in flight, and at most 32 operations, all with different ids, are pending.\<close>
theorem actions_run_in_turn:
  assumes "hb_active h = None" "hb_queue h = []"
  shows "subseq (started js xs h) (accepted js xs h) \<and> in_flight js xs h \<in> {0, 1}
    \<and> length (pending_ids (hub_run js xs h)) \<le> 32 \<and> distinct (pending_ids (hub_run js xs h))"
proof -
  note i = idle_queue [OF assms]
  note r = run_queue [of h js xs]
  have "subseq (started js xs h) (started js xs h @ waiting (hub_run js xs h))"
    by (rule prefix_imp_subseq) simp
  then have "subseq (started js xs h) (accepted js xs h)"
    using i r by (auto intro: subseq_order.trans)
  then show ?thesis
    using i r by (auto simp: queue_inv_def MAX_PENDING_def acting_def split: if_splits)
qed

definition turn_ops :: "hub_op list" where
  "turn_ops = [OpExecute ''a'', OpResume, OpExecute ''b'', OpExecute ''c'', OpCancel ''b'', OpCancel ''a'', OpAnswer AnswerWithBody, OpResume]"

lemma turn_texts: "trim ''a'' \<noteq> []" "trim ''b'' \<noteq> []" "trim ''c'' \<noteq> []"
  by code_simp+

lemma actions_run_in_turn_witness:
  "\<exists>h. hb_active h = None \<and> hb_queue h = [] \<and> started any_json turn_ops h = [''a'', ''c''] \<and> subseq [''a'', ''c''] (accepted any_json turn_ops h)"
proof -
  let ?h = "empty_hub\<lparr>hb_snapshot := Some (''{}'', 0)\<rparr>"
  have h: "hb_active ?h = None" "hb_queue ?h = []"
    by (simp_all add: empty_hub_def)
  have st: "started any_json turn_ops ?h = [''a'', ''c'']"
    by (simp add: turn_ops_def hub_execute_def turn_texts empty_hub_def pending_ids_def MAX_PENDING_def hub_resume_def hub_snapshot_def
        hub_cancel_def hub_answer_def finish_active_def)
  with h actions_run_in_turn [OF h, of any_json turn_ops] show ?thesis
    by (intro exI [of _ ?h]) simp
qed


section \<open>The queue empties\<close>
















end
