(* ===== verification/Sse_Follow.thy ===== *)
theory Sse_Follow
  imports Sse_Hub
begin

text \<open>
  A subscriber of one scope: the subscription that reads the coordinator's log
  (\<open>handleCoordinatorSubscription\<close>), the authorized stream that carries its frames
  (\<open>authorizedSseStream\<close>, both in \<open>framework/src/transports/sse.ts\<close>), the network, and the browser's
  event source (\<open>connectSSE\<close> in \<open>core/src/shared/transport-connections.ts\<close>) with its snapshot cursor
  (\<open>core/src/shared/rpc-state.ts\<close>).

  The awaits of the code are separate steps, so calls of other clients fall in between: reading the
  current state and reading the log, a poll and its answer, an authorization and its result, the
  sending of a frame and its receipt. A state text stands for the state object it parses to; the
  protocol keys added to it are never applied.
\<close>

section \<open>Frames\<close>

(* models packages/framework/src/transports/sse.ts:540-540 SseFrame *)
datatype sse_frame = Replay sse_event | Resync nat | Snap string nat | Connected nat

fun frame_event :: "sse_frame \<Rightarrow> string" where
  "frame_event (Replay e) = se_event e"
| "frame_event (Resync c) = ''resync''"
| "frame_event (Snap s c) = ''state-update''"
| "frame_event (Connected c) = ''connected''"

fun frame_cursor :: "sse_frame \<Rightarrow> nat option" where
  "frame_cursor (Replay e) = Some (se_cursor e)"
| "frame_cursor (Snap s c) = Some c"
| "frame_cursor _ = None"

text \<open>Decimal text of a cursor and the JSON text of a marker.\<close>

definition marker_text :: "nat \<Rightarrow> string" where
  "marker_text c = ''{\"cursor\":'' @ nat_digits c @ ''}''"

fun frame_data :: "json_lib \<Rightarrow> sse_frame \<Rightarrow> string" where
  "frame_data js (Replay e) = payload_text js (se_data e)"
| "frame_data js (Snap s c) = s"
| "frame_data js (Resync c) = marker_text c"
| "frame_data js (Connected c) = marker_text c"

definition newline :: string where
  "newline = [char_of (10 :: nat)]"

(* models packages/framework/src/transports/sse.ts:610-613 pull *)
definition frame_text :: "json_lib \<Rightarrow> sse_frame option \<Rightarrow> string" where
  "frame_text js f = (case f of
     Some f \<Rightarrow> ''event: '' @ frame_event f @ newline @ (case frame_cursor f of None \<Rightarrow> [] | Some c \<Rightarrow> ''id: '' @ nat_digits c @ newline)
       @ ''data: '' @ frame_data js f @ newline @ newline
   | None \<Rightarrow> '': heartbeat'' @ newline @ newline)"


section \<open>The authorized stream\<close>

definition SSE_HEARTBEAT_MS :: int where
  "SSE_HEARTBEAT_MS = 15000"

definition SSE_AUTH_MAX_AGE_MS :: int where
  "SSE_AUTH_MAX_AGE_MS = 5000"

text \<open>\<open>ss_asking\<close>: a pull awaits the answer of \<open>authorize\<close>.\<close>

record sse_stream =
  ss_pending :: "sse_frame list"
  ss_batchAuthorized :: bool
  ss_lastAuth :: int
  ss_lastWrite :: int
  ss_asking :: bool
  ss_closed :: bool

text \<open>What a pull does: it sends a frame or a heartbeat (\<open>None\<close>), asks for authorization, or polls for the given time.\<close>

datatype pull_result = Sends "sse_frame option" | Asks | Polls int | Refuses | Idle

definition new_stream :: "sse_frame list \<Rightarrow> int \<Rightarrow> sse_stream" where
  "new_stream fs now = \<lparr>ss_pending = fs, ss_batchAuthorized = False, ss_lastAuth = 0, ss_lastWrite = now, ss_asking = False, ss_closed = False\<rparr>"

definition send_next :: "int \<Rightarrow> sse_stream \<Rightarrow> pull_result \<times> sse_stream" where
  "send_next now st = (case ss_pending st of
     [] \<Rightarrow> (Sends None, st\<lparr>ss_lastWrite := now\<rparr>)
   | f # fs \<Rightarrow> (Sends (Some f), st\<lparr>ss_pending := fs, ss_lastWrite := now\<rparr>))"

(* models packages/framework/src/transports/sse.ts:595-620 pull *)
definition stream_pull :: "int \<Rightarrow> sse_stream \<Rightarrow> pull_result \<times> sse_stream" where
  "stream_pull now st =
     (if ss_closed st \<or> ss_asking st then (Idle, st)
      else (let heartbeat = now - ss_lastWrite st \<ge> SSE_HEARTBEAT_MS in
        if ss_pending st \<noteq> [] \<or> heartbeat then
          (if \<not> ss_batchAuthorized st \<or> heartbeat \<or> now - ss_lastAuth st \<ge> SSE_AUTH_MAX_AGE_MS
           then (Asks, st\<lparr>ss_asking := True\<rparr>) else send_next now st)
        else (Polls (max 0 (SSE_HEARTBEAT_MS - (now - ss_lastWrite st))), st)))"

(* models packages/framework/src/transports/sse.ts:601-608 pull *)
definition stream_allowed :: "bool \<Rightarrow> int \<Rightarrow> sse_stream \<Rightarrow> pull_result \<times> sse_stream" where
  "stream_allowed allowed now st =
     (if \<not> ss_asking st then (Idle, st)
      else if ss_closed st then (Idle, st\<lparr>ss_asking := False\<rparr>)
      else if \<not> allowed then (Refuses, st\<lparr>ss_asking := False, ss_closed := True\<rparr>)
      else send_next now (st\<lparr>ss_asking := False, ss_lastAuth := now, ss_batchAuthorized := True\<rparr>))"

(* models packages/framework/src/transports/sse.ts:620-625 pull *)
definition stream_polled :: "sse_frame list \<Rightarrow> sse_stream \<Rightarrow> sse_stream" where
  "stream_polled events st =
     (if ss_closed st \<or> events = [] then st else st\<lparr>ss_pending := ss_pending st @ events, ss_batchAuthorized := False\<rparr>)"

(* models packages/framework/src/transports/sse.ts:574-576 cleanup *)
definition stream_close :: "sse_stream \<Rightarrow> sse_stream" where
  "stream_close st = st\<lparr>ss_closed := True\<rparr>"


section \<open>The subscription\<close>

(* models packages/framework/src/transports/sse.ts:502-507 handleCoordinatorSubscription *)
definition initial_frames :: "hub_updates \<Rightarrow> sse_frame list" where
  "initial_frames u = (if up_resync u then [Resync (snd (up_snapshot u))] else map Replay (up_events u))
     @ [Snap (fst (up_snapshot u)) (snd (up_snapshot u)), Connected (snd (up_snapshot u))]"

(* models packages/framework/src/transports/sse.ts:529-535 poll *)
definition poll_frames :: "nat \<Rightarrow> hub_updates \<Rightarrow> sse_frame list \<times> nat" where
  "poll_frames after u =
     (if up_resync u then ([Resync (snd (up_snapshot u)), Snap (fst (up_snapshot u)) (snd (up_snapshot u))], snd (up_snapshot u))
      else (map Replay (up_events u), if up_events u = [] then after else se_cursor (last (up_events u))))"

text \<open>
  The cursor of the request: the browser's last event id, or else the query. \<open>None\<close> is the answer 400.
\<close>

(* models packages/framework/src/transports/sse.ts:483-486 handleCoordinatorSubscription *)
definition request_cursor :: "nat option \<Rightarrow> jnum option \<Rightarrow> nat option option" where
  "request_cursor header query = (case header of
     Some c \<Rightarrow> if safe_int (int c) then Some (Some c) else None
   | None \<Rightarrow> (case query of
        None \<Rightarrow> Some None
      | Some q \<Rightarrow> if is_safe_integer q \<and> (case q of NInt i \<Rightarrow> i \<ge> 0 | NonInt \<Rightarrow> False)
          then Some (Some (case q of NInt i \<Rightarrow> nat i | NonInt \<Rightarrow> 0)) else None))"

record subscription =
  sb_after :: nat
  sb_held :: bool
  sb_stream :: sse_stream

datatype conn = Closed | Opening nat | Open subscription


section \<open>The browser\<close>

text \<open>
  \<open>vw_last\<close> is the event source's last event id and \<open>vw_latest\<close> the cursor of the last snapshot applied.
  The others say what the page was given: \<open>vw_log\<close> are the events received since \<open>vw_base\<close>, the position the
  page started from or was told by a resync that events before it are gone; \<open>vw_gap\<close> is such a notice whose
  snapshot has not arrived.
\<close>

record viewer =
  vw_last :: "nat option"
  vw_state :: "string option"
  vw_latest :: "nat option"
  vw_log :: "sse_event list"
  vw_base :: nat
  vw_gap :: bool

definition new_viewer :: viewer where
  "new_viewer = \<lparr>vw_last = None, vw_state = None, vw_latest = None, vw_log = [], vw_base = 0, vw_gap = False\<rparr>"

(* models packages/core/src/shared/rpc-state.ts:30-39 acceptSseCursor *)
definition acceptSseCursor :: "nat \<Rightarrow> viewer \<Rightarrow> bool \<times> viewer" where
  "acceptSseCursor cursor v = (case vw_latest v of
     Some c \<Rightarrow> if cursor \<le> c then (False, v) else (True, v\<lparr>vw_latest := Some cursor\<rparr>)
   | None \<Rightarrow> (True, v\<lparr>vw_latest := Some cursor\<rparr>))"

(* models packages/core/src/shared/transport-connections.ts:433-448 connectSSE *)
definition on_state_update :: "string \<Rightarrow> nat \<Rightarrow> viewer \<Rightarrow> viewer" where
  "on_state_update s c v = (case acceptSseCursor c v of (True, v') \<Rightarrow> v'\<lparr>vw_state := Some s\<rparr> | (False, v') \<Rightarrow> v')"

(* models packages/core/src/shared/transport-connections.ts:413-423 connectSSE *)
fun viewer_receive :: "sse_frame \<Rightarrow> viewer \<Rightarrow> viewer" where
  "viewer_receive (Replay e) v =
     (let v' = v\<lparr>vw_last := Some (se_cursor e), vw_log := vw_log v @ [e]\<rparr>
      in if se_event e = ''state-update'' then on_state_update (payload_state (se_data e)) (se_cursor e) v' else v')"
| "viewer_receive (Resync c) v = v\<lparr>vw_gap := True\<rparr>"
| "viewer_receive (Snap s c) v =
     on_state_update s c (if vw_gap v then v\<lparr>vw_last := Some c, vw_gap := False, vw_base := c, vw_log := []\<rparr> else v\<lparr>vw_last := Some c\<rparr>)"
| "viewer_receive (Connected c) v = v"

text \<open>
  \<open>onopen\<close> forgets the snapshot cursor. \<open>start\<close> is the position from which the subscription reads
  on: the base of a page that has not received an event yet.
\<close>

(* models packages/core/src/shared/transport-connections.ts:395-403 connectSSE *)
definition viewer_open :: "nat \<Rightarrow> viewer \<Rightarrow> viewer" where
  "viewer_open start v = v\<lparr>vw_latest := None, vw_gap := False, vw_base := (if vw_last v = None then start else vw_base v)\<rparr>"


section \<open>The whole system\<close>

record follow =
  fw_hub :: hub
  fw_conn :: conn
  fw_net :: "sse_frame list"
  fw_viewer :: viewer

datatype follow_event = ByOthers hub_op | Connects "jnum option" string | Opens int | Pulls int | Authorizes bool int
  | Polled int string | Wakes | Receives | Drops

(* models packages/framework/src/transports/sse.ts:489-497 handleCoordinatorSubscription *)
definition connects :: "json_lib \<Rightarrow> jnum option \<Rightarrow> string \<Rightarrow> follow \<Rightarrow> follow" where
  "connects js query cold f = (case fw_conn f of
     Closed \<Rightarrow> (case request_cursor (vw_last (fw_viewer f)) query of
        None \<Rightarrow> f
      | Some cursor \<Rightarrow> (case currentState (fw_hub f) of
           Some s \<Rightarrow> f\<lparr>fw_conn := Opening (case cursor of Some c \<Rightarrow> c | None \<Rightarrow> snd s)\<rparr>
         | None \<Rightarrow> (case initialize js cold (fw_hub f) of
              (Inl e, h) \<Rightarrow> f
            | (Inr (s, fresh), h) \<Rightarrow> f\<lparr>fw_hub := h, fw_conn := Opening (case cursor of Some c \<Rightarrow> c | None \<Rightarrow> snd s)\<rparr>)))
   | _ \<Rightarrow> f)"

definition opens :: "int \<Rightarrow> follow \<Rightarrow> follow" where
  "opens now f = (case fw_conn f of
     Opening after \<Rightarrow> (case readUpdates after (fw_hub f) of
        Inl e \<Rightarrow> f\<lparr>fw_conn := Closed\<rparr>
      | Inr u \<Rightarrow> f\<lparr>fw_conn := Open \<lparr>sb_after = snd (up_snapshot u), sb_held = False, sb_stream = new_stream (initial_frames u) now\<rparr>,
          fw_net := [], fw_viewer := viewer_open (min after (snd (up_snapshot u))) (fw_viewer f)\<rparr>)
   | _ \<Rightarrow> f)"

text \<open>A frame that the stream sends is on the network until the browser receives it.\<close>

definition sends :: "subscription \<Rightarrow> pull_result \<times> sse_stream \<Rightarrow> follow \<Rightarrow> follow" where
  "sends sb r f = f\<lparr>fw_conn := Open (sb\<lparr>sb_stream := snd r\<rparr>),
     fw_net := fw_net f @ (case fst r of Sends (Some fr) \<Rightarrow> [fr] | _ \<Rightarrow> [])\<rparr>"

definition answered :: "subscription \<Rightarrow> hub_updates \<Rightarrow> follow \<Rightarrow> follow" where
  "answered sb u f = (case poll_frames (sb_after sb) u of
     (fs, after) \<Rightarrow> f\<lparr>fw_conn := Open (sb\<lparr>sb_after := after, sb_held := False, sb_stream := stream_polled fs (sb_stream sb)\<rparr>)\<rparr>)"

(* models packages/framework/src/transports/sse.ts:514-528 poll *)
definition polled :: "int \<Rightarrow> string \<Rightarrow> follow \<Rightarrow> follow" where
  "polled waitMs w f = (case fw_conn f of
     Open sb \<Rightarrow> (if sb_held sb \<or> ss_closed (sb_stream sb) \<or> ss_pending (sb_stream sb) \<noteq> [] then f
        else (case updates (NInt (int (sb_after sb))) waitMs (Some w) w (fw_hub f) of
          (Answer (Inl e), h) \<Rightarrow> f\<lparr>fw_conn := Closed, fw_net := []\<rparr>
        | (Answer (Inr u), h) \<Rightarrow> answered sb u (f\<lparr>fw_hub := h\<rparr>)
        | (Held w', h) \<Rightarrow> f\<lparr>fw_hub := h, fw_conn := Open (sb\<lparr>sb_held := True\<rparr>)\<rparr>))
   | _ \<Rightarrow> f)"

text \<open>A held poll ends when it is woken, cancelled or times out: it reads again.\<close>

(* models packages/framework/src/SseDurableObject.ts:129-129 updates *)
definition wakes :: "follow \<Rightarrow> follow" where
  "wakes f = (case fw_conn f of
     Open sb \<Rightarrow> (if \<not> sb_held sb then f
        else (case readUpdates (sb_after sb) (fw_hub f) of
          Inl e \<Rightarrow> f\<lparr>fw_conn := Closed, fw_net := []\<rparr>
        | Inr u \<Rightarrow> answered sb u f))
   | _ \<Rightarrow> f)"

fun follow_step :: "json_lib \<Rightarrow> follow_event \<Rightarrow> follow \<Rightarrow> follow" where
  "follow_step js (ByOthers x) f = f\<lparr>fw_hub := hub_step js x (fw_hub f)\<rparr>"
| "follow_step js (Connects q cold) f = connects js q cold f"
| "follow_step js (Opens now) f = opens now f"
| "follow_step js (Pulls now) f = (case fw_conn f of Open sb \<Rightarrow> sends sb (stream_pull now (sb_stream sb)) f | _ \<Rightarrow> f)"
| "follow_step js (Authorizes ok now) f = (case fw_conn f of Open sb \<Rightarrow> sends sb (stream_allowed ok now (sb_stream sb)) f | _ \<Rightarrow> f)"
| "follow_step js (Polled ms w) f = polled ms w f"
| "follow_step js Wakes f = wakes f"
| "follow_step js Receives f = (case fw_net f of [] \<Rightarrow> f | fr # net \<Rightarrow> f\<lparr>fw_net := net, fw_viewer := viewer_receive fr (fw_viewer f)\<rparr>)"
| "follow_step js Drops f = f\<lparr>fw_conn := Closed, fw_net := []\<rparr>"

fun follow_run :: "json_lib \<Rightarrow> follow_event list \<Rightarrow> follow \<Rightarrow> follow" where
  "follow_run js [] f = f"
| "follow_run js (x # xs) f = follow_run js xs (follow_step js x f)"

end
