(* ===== verification/Sse_Follow_Facts.thy ===== *)
theory Sse_Follow_Facts
  imports Sse_Follow Sse_Hub_Facts "HOL-Library.Code_Target_Numeral"
begin

text \<open>
  A subscriber misses nothing: the frames on their way lead from the browser's position to the position
  of the subscription, every event once and in order, and a gap only after a resync notice with a
  new snapshot. Nothing is sent without a recent authorization.
\<close>

section \<open>Frames as a walk through the history\<close>










section \<open>The invariant of a subscriber\<close>








lemma on_state_update_fields [simp]:
  "vw_last (on_state_update st c v) = vw_last v" "vw_log (on_state_update st c v) = vw_log v"
  "vw_base (on_state_update st c v) = vw_base v" "vw_gap (on_state_update st c v) = vw_gap v"
  by (auto simp: on_state_update_def acceptSseCursor_def split: option.split)







section \<open>Steps of the system\<close>


























section \<open>Catching up\<close>













section \<open>Authorization\<close>

text \<open>
  A stream from its start, with the time of the last granted authorization since the batch at hand
  arrived; \<open>deliveries\<close> lists when something was sent and the grant it was sent under.
\<close>

datatype stream_event = SPull int | SAnswer bool int | SPolled "sse_frame list" | SClose

definition sent :: "pull_result \<Rightarrow> int \<Rightarrow> int option \<Rightarrow> (int \<times> int option) list" where
  "sent r now grant = (case r of Sends fr \<Rightarrow> [(now, grant)] | _ \<Rightarrow> [])"

fun deliveries :: "stream_event list \<Rightarrow> int option \<Rightarrow> sse_stream \<Rightarrow> (int \<times> int option) list" where
  "deliveries [] g st = []"
| "deliveries (SPull now # xs) g st = (case stream_pull now st of (r, st') \<Rightarrow> sent r now g @ deliveries xs g st')"
| "deliveries (SAnswer allowed now # xs) g st =
     (let g' = (if ss_asking st then (if allowed then Some now else None) else g)
      in case stream_allowed allowed now st of (r, st') \<Rightarrow> sent r now g' @ deliveries xs g' st')"
| "deliveries (SPolled fs # xs) g st = deliveries xs (if fs = [] then g else None) (stream_polled fs st)"
| "deliveries (SClose # xs) g st = deliveries xs g (stream_close st)"

text \<open>A batch marked authorized has a grant, at the time the stream noted.\<close>

definition granted :: "int option \<Rightarrow> sse_stream \<Rightarrow> bool" where
  "granted g st \<longleftrightarrow> ss_closed st \<or> (ss_batchAuthorized st \<longrightarrow> g = Some (ss_lastAuth st))"

definition recent :: "int \<times> int option \<Rightarrow> bool" where
  "recent d \<longleftrightarrow> (case d of (t, Some u) \<Rightarrow> t - u < 5000 | (t, None) \<Rightarrow> False)"

lemma granted_pull:
  assumes "granted g st" "stream_pull now st = (r, st')"
  shows "granted g st'" "list_all recent (sent r now g)"
  using assms
  by (auto simp: granted_def stream_pull_def send_next_def sent_def recent_def SSE_AUTH_MAX_AGE_MS_def Let_def split: if_splits list.splits)

lemma granted_answer:
  assumes "granted g st" "stream_allowed ok now st = (r, st')" "g' = (if ss_asking st then (if ok then Some now else None) else g)"
  shows "granted g' st'" "list_all recent (sent r now g')"
  using assms
  by (auto simp: granted_def stream_allowed_def send_next_def sent_def recent_def split: if_splits list.splits)

lemma deliveries_granted: "granted g st \<Longrightarrow> list_all recent (deliveries xs g st)"
proof (induction xs g st rule: deliveries.induct)
  case (2 now xs g st)
  then show ?case by (auto split: prod.split dest: granted_pull)
next
  case (3 ok now xs g st)
  let ?g = "if ss_asking st then (if ok then Some now else None) else g"
  obtain r st' where r: "stream_allowed ok now st = (r, st')" by fastforce
  from granted_answer [OF 3(2) r refl] 3(1) [OF refl r [symmetric]] show ?case
    by (simp add: r Let_def)
next
  case (4 fs xs g st)
  then show ?case by (auto simp: granted_def stream_polled_def)
next
  case (5 xs g st)
  then show ?case by (simp add: granted_def stream_close_def)
qed simp

text \<open>C30. Nothing reaches a subscriber without a live authorization: in every interleaving of pulls, answers of
  the authorization check, polls and closing, each frame and each heartbeat is sent under a check
  that was granted after the batch at hand arrived and less than five seconds before; after a refusal nothing
  is sent.\<close>
theorem nothing_sent_unauthorized:
  "list_all recent (deliveries xs None (new_stream initial now))"
  by (rule deliveries_granted) (simp add: granted_def new_stream_def)

end
