(* ===== verification/Socket_Delivery.thy ===== *)
theory Socket_Delivery
  imports Prelude
begin

text \<open>
  Outbound delivery to one WebSocket peer (\<open>core/src/shared/socket-delivery.ts\<close>): frames wait in a
  bounded queue, state updates that follow each other are merged, and a drain sends them in batches,
  each after an authorization.

  The weak map from peers to queues is the list \<open>pr_queues\<close> with \<open>pr_cur\<close> as the entry of this peer: a
  queue that was removed is still held by its drain. A drain is a control point: it has been
  called and not yet resumed, or it awaits the authorization of a batch. What is sent is kept as the
  message; its JSON text is what the socket gets.
\<close>

datatype frame_kind = StateFrame | ActionFrame | OtherFrame

(* models packages/core/src/shared/socket-delivery.ts:34-37 QueuedFrame *)
record queued_frame =
  qf_message :: jsv
  qf_kind :: frame_kind

datatype drain = NoDrain | Starting | Authorizing "queued_frame list"

(* models packages/core/src/shared/socket-delivery.ts:39-45 QueueState *)
record queue_state =
  qs_frames :: "queued_frame list"
  qs_active :: bool
  qs_retired :: bool
  qs_drain :: drain

record peer =
  pr_queues :: "queue_state list"
  pr_cur :: "nat option"
  pr_open :: bool
  pr_sent :: "jsv list"
  pr_closed :: "nat option"

fun is_state_record :: "jsv \<Rightarrow> bool" where
  "is_state_record (JObj ps) = True"
| "is_state_record _ = False"

(* models packages/core/src/shared/socket-delivery.ts:63-68 frameKind *)
definition frameKind :: "jsv \<Rightarrow> frame_kind" where
  "frameKind m = (case m of
     JStr s \<Rightarrow> OtherFrame
   | _ \<Rightarrow> if jget m ''type'' = JStr ''client-action'' then ActionFrame
          else if jget m ''type'' = JStr ''state-update'' \<and> is_state_record (jget m ''state'') then StateFrame
          else OtherFrame)"

text \<open>\<open>{ ...a, ...b }\<close>: the properties of \<open>b\<close> overwrite in place, new ones follow.\<close>

fun props :: "jsv \<Rightarrow> (string \<times> jsv) list" where
  "props (JObj ps) = ps"
| "props _ = []"

definition spread :: "jsv \<Rightarrow> jsv \<Rightarrow> jsv" where
  "spread a b = JObj (map (\<lambda>(k, v). (k, case map_of (props b) k of Some w \<Rightarrow> w | None \<Rightarrow> v)) (props a)
     @ filter (\<lambda>(k, v). k \<notin> fst ` set (props a)) (props b))"

(* models packages/core/src/shared/socket-delivery.ts:118-121 send *)
definition merge_states :: "jsv \<Rightarrow> jsv \<Rightarrow> jsv" where
  "merge_states previous next' =
     spread (spread previous next') (JObj [(''state'', spread (jget previous ''state'') (jget next' ''state''))])"

definition AUTH_CHANGED :: jsv where
  "AUTH_CHANGED = JObj [(''type'', JStr ''authorization-error''), (''code'', JStr ''COSSACK_REALTIME_AUTH_CHANGED''),
     (''message'', JStr ''Realtime authorization changed. Reload the page to reconnect.'')]"

definition close_peer :: "nat \<Rightarrow> peer \<Rightarrow> peer" where
  "close_peer status p = (if pr_open p then p\<lparr>pr_open := False, pr_closed := Some status\<rparr> else p)"

(* models packages/core/src/shared/socket-delivery.ts:21-27 closeUnauthorizedSocket *)
definition closeUnauthorizedSocket :: "peer \<Rightarrow> peer" where
  "closeUnauthorizedSocket p = close_peer 1008 (if pr_open p then p\<lparr>pr_sent := pr_sent p @ [AUTH_CHANGED]\<rparr> else p)"

definition with_queue :: "nat \<Rightarrow> (queue_state \<Rightarrow> queue_state) \<Rightarrow> peer \<Rightarrow> peer" where
  "with_queue i f p = p\<lparr>pr_queues := (pr_queues p)[i := f (pr_queues p ! i)]\<rparr>"

text \<open>\<open>i\<close> is the queue given to the method, or the peer's own; a peer without a queue is only closed.\<close>

(* models packages/core/src/shared/socket-delivery.ts:179-191 retire *)
definition retire :: "nat option \<Rightarrow> nat \<Rightarrow> bool \<Rightarrow> peer \<Rightarrow> peer" where
  "retire i status authorizationChanged p =
     (let cur = (case i of Some j \<Rightarrow> Some j | None \<Rightarrow> pr_cur p) in
      if (case cur of Some j \<Rightarrow> qs_retired (pr_queues p ! j) | None \<Rightarrow> False) then p
      else (let p1 = (case cur of Some j \<Rightarrow> with_queue j (\<lambda>q. q\<lparr>qs_retired := True, qs_frames := []\<rparr>) p | None \<Rightarrow> p)
        in if authorizationChanged then closeUnauthorizedSocket p1 else close_peer status p1))"

(* models packages/core/src/shared/socket-delivery.ts:193-201 remove *)
definition remove_peer :: "peer \<Rightarrow> peer" where
  "remove_peer p = (case pr_cur p of
     Some i \<Rightarrow> (with_queue i (\<lambda>q. q\<lparr>qs_retired := True, qs_frames := []\<rparr>) p)\<lparr>pr_cur := None\<rparr>
   | None \<Rightarrow> p)"

definition new_queue :: queue_state where
  "new_queue = \<lparr>qs_frames = [], qs_active = False, qs_retired = False, qs_drain = NoDrain\<rparr>"

text \<open>The queue of the peer, created when it has none.\<close>

definition own_queue :: "peer \<Rightarrow> nat \<times> peer" where
  "own_queue p = (case pr_cur p of
     Some i \<Rightarrow> (i, p)
   | None \<Rightarrow> (length (pr_queues p), p\<lparr>pr_queues := pr_queues p @ [new_queue], pr_cur := Some (length (pr_queues p))\<rparr>))"

definition starts_drain :: "queue_state \<Rightarrow> queue_state" where
  "starts_drain q = (if qs_active q then q else q\<lparr>qs_active := True, qs_drain := Starting\<rparr>)"

definition maxPending :: nat where
  "maxPending = 32"

text \<open>\<open>send\<close> with an authorizer; without one the frame is sent at once when the peer is open.\<close>

(* models packages/core/src/shared/socket-delivery.ts:107-133 send *)
definition socket_send :: "jsv \<Rightarrow> peer \<Rightarrow> peer" where
  "socket_send m p =
     (case own_queue p of (i, p1) \<Rightarrow>
       let q = pr_queues p1 ! i; frames = qs_frames q in
       if qs_retired q then p1
       else if frameKind m = StateFrame \<and> frames \<noteq> [] \<and> qf_kind (last frames) = StateFrame then
         with_queue i (\<lambda>q. starts_drain (q\<lparr>qs_frames := butlast frames @ [(last frames)\<lparr>qf_message := merge_states (qf_message (last frames)) m\<rparr>]\<rparr>)) p1
       else if length frames \<ge> maxPending then retire (Some i) 1013 False p1
       else with_queue i (\<lambda>q. starts_drain (q\<lparr>qs_frames := frames @ [\<lparr>qf_message = m, qf_kind = frameKind m\<rparr>]\<rparr>)) p1)"

(* models packages/core/src/shared/socket-delivery.ts:103-106 send *)
definition socket_send_now :: "jsv \<Rightarrow> peer \<Rightarrow> peer" where
  "socket_send_now m p = (if pr_open p then p\<lparr>pr_sent := pr_sent p @ [m]\<rparr> else p)"

text \<open>A batch is everything before the next action, or that action alone.\<close>

(* models packages/core/src/shared/socket-delivery.ts:149-150 drain *)
definition next_batch :: "queued_frame list \<Rightarrow> queued_frame list \<times> queued_frame list" where
  "next_batch frames =
     (let before = takeWhile (\<lambda>f. qf_kind f \<noteq> ActionFrame) frames; n = (if before = [] then 1 else length before)
      in (take n frames, drop n frames))"

text \<open>
  The loop up to its next authorization. Batches of a peer that is not open are dropped, all of
  them, since it stays so; the drain then ends.
\<close>

definition end_drain :: "queue_state \<Rightarrow> queue_state" where
  "end_drain q = q\<lparr>qs_frames := (if qs_retired q then [] else qs_frames q), qs_active := False, qs_drain := NoDrain\<rparr>"

(* models packages/core/src/shared/socket-delivery.ts:146-151 drain *)
definition drain_loop :: "bool \<Rightarrow> queue_state \<Rightarrow> queue_state" where
  "drain_loop open' q =
     (if qs_retired q \<or> qs_frames q = [] then end_drain q
      else if \<not> open' then end_drain (q\<lparr>qs_frames := []\<rparr>)
      else q\<lparr>qs_frames := snd (next_batch (qs_frames q)), qs_drain := Authorizing (fst (next_batch (qs_frames q)))\<rparr>)"

(* models packages/core/src/shared/socket-delivery.ts:145-145 drain *)
definition drain_starts :: "nat \<Rightarrow> peer \<Rightarrow> peer" where
  "drain_starts i p = (if i < length (pr_queues p) \<and> qs_drain (pr_queues p ! i) = Starting
     then with_queue i (drain_loop (pr_open p)) p else p)"

text \<open>
  The answer of the authorizer: what it returned (\<open>False\<close> when it threw) and whether it ran the operation.
  \<open>works\<close> is the number of frames the socket accepts before \<open>send\<close> throws, when it does.
\<close>

(* models packages/core/src/shared/socket-delivery.ts:159-175 drain *)
definition drain_answered :: "nat \<Rightarrow> bool \<Rightarrow> bool \<Rightarrow> nat option \<Rightarrow> peer \<Rightarrow> peer" where
  "drain_answered i allowed operationRan works p =
     (if i < length (pr_queues p) then
        (case qs_drain (pr_queues p ! i) of
           Authorizing batch \<Rightarrow>
             (if \<not> allowed \<or> \<not> operationRan then with_queue i end_drain (retire (Some i) 1008 True p)
              else if qs_retired (pr_queues p ! i) \<or> \<not> pr_open p then with_queue i (drain_loop (pr_open p)) p
              else (case works of
                  Some n \<Rightarrow> if n < length batch
                    then with_queue i end_drain (retire (Some i) 1011 False (p\<lparr>pr_sent := pr_sent p @ map qf_message (take n batch)\<rparr>))
                    else with_queue i (drain_loop True) (p\<lparr>pr_sent := pr_sent p @ map qf_message batch\<rparr>)
                | None \<Rightarrow> with_queue i (drain_loop True) (p\<lparr>pr_sent := pr_sent p @ map qf_message batch\<rparr>)))
         | _ \<Rightarrow> p)
      else p)"

datatype peer_event = Send jsv | SendNow jsv | DrainStarts nat | Answered nat bool bool "nat option" | Retire nat | Remove | Closes

fun peer_step :: "peer_event \<Rightarrow> peer \<Rightarrow> peer" where
  "peer_step (Send m) p = socket_send m p"
| "peer_step (SendNow m) p = socket_send_now m p"
| "peer_step (DrainStarts i) p = drain_starts i p"
| "peer_step (Answered i a r w) p = drain_answered i a r w p"
| "peer_step (Retire c) p = retire None c False p"
| "peer_step Remove p = remove_peer p"
| "peer_step Closes p = p\<lparr>pr_open := False\<rparr>"

fun peer_run :: "peer_event list \<Rightarrow> peer \<Rightarrow> peer" where
  "peer_run [] p = p"
| "peer_run (x # xs) p = peer_run xs (peer_step x p)"

definition new_peer :: peer where
  "new_peer = \<lparr>pr_queues = [], pr_cur = None, pr_open = True, pr_sent = [], pr_closed = None\<rparr>"

end
