(* ===== verification/Socket_Delivery_Facts.thy ===== *)
theory Socket_Delivery_Facts
  imports Socket_Delivery "HOL-Library.Sublist" "HOL-Library.Code_Target_Numeral"
begin

text \<open>
  Merging does not show: what the peer is sent gives it the same accumulated state at every event and
  action, and the same events and actions in the same order, as sending each message would. The queue
  is bounded, and frames are sent only after their batch was authorized.
\<close>

section \<open>Merging\<close>

lemma map_of_spread: "map_of (props (spread a b)) k = (map_of (props a) ++ map_of (props b)) k"
proof -
  have m: "map_of (map (\<lambda>(k, v). (k, case map_of bs k of Some w \<Rightarrow> w | None \<Rightarrow> v)) as) k
      = (case map_of as k of None \<Rightarrow> None | Some v \<Rightarrow> Some (case map_of bs k of Some w \<Rightarrow> w | None \<Rightarrow> v))"
    for as bs :: "(string \<times> jsv) list"
    by (induction as) (auto split: option.split)
  have f: "map_of (filter (\<lambda>(k, v). k \<notin> X) bs) k = (if k \<in> X then None else map_of bs k)" for X and bs :: "(string \<times> jsv) list"
    by (induction bs) auto
  have n: "map_of (props a) k = None \<longleftrightarrow> k \<notin> fst ` set (props a)"
    by (simp add: map_of_eq_None_iff)
  show ?thesis
    using n by (cases "map_of (props a) k"; cases "map_of (props b) k") (auto simp: spread_def map_add_def m f)
qed

lemma jget_props: "is_state_record v \<or> v \<noteq> JUndef \<Longrightarrow> is_state_record v \<Longrightarrow> jget v k = (case map_of (props v) k of None \<Rightarrow> JUndef | Some w \<Rightarrow> w)"
  by (cases v) auto

lemma jget_spread: "jget (spread a b) k = (case (map_of (props a) ++ map_of (props b)) k of None \<Rightarrow> JUndef | Some w \<Rightarrow> w)"
  using map_of_spread [of a b k] by (simp add: spread_def)

lemma state_frame: "frameKind m = StateFrame \<longleftrightarrow> jget m ''type'' = JStr ''state-update'' \<and> is_state_record (jget m ''state'')"
  by (cases m) (auto simp: frameKind_def)

lemma merge_kind:
  assumes "frameKind m' = StateFrame"
  shows "frameKind (merge_states m m') = StateFrame"
    and "jget (merge_states m m') ''state'' = spread (jget m ''state'') (jget m' ''state'')"
proof -
  obtain ps where m': "m' = JObj ps"
    using assms by (cases m') (auto simp: state_frame)
  show st: "jget (merge_states m m') ''state'' = spread (jget m ''state'') (jget m' ''state'')"
    by (simp add: merge_states_def jget_spread map_add_def)
  have "map_of ps ''type'' = Some (JStr ''state-update'')"
    using assms m' by (auto simp: state_frame split: option.splits)
  then have "jget (merge_states m m') ''type'' = JStr ''state-update''"
    by (simp add: merge_states_def jget_spread map_of_spread map_add_def m')
  moreover have "is_state_record (spread x y)" for x y
    by (simp add: spread_def)
  ultimately show "frameKind (merge_states m m') = StateFrame"
    using st by (simp add: state_frame)
qed


section \<open>What the peer sees\<close>

text \<open>The accumulated state, and every other message with the state it finds.\<close>

type_synonym seen = "(string \<rightharpoonup> jsv) \<times> (jsv \<times> (string \<rightharpoonup> jsv)) list"

fun see :: "jsv \<Rightarrow> seen \<Rightarrow> seen" where
  "see m (st, log) =
     (if frameKind m = StateFrame then (st ++ map_of (props (jget m ''state'')), log) else (st, log @ [(m, st)]))"

definition view :: "jsv list \<Rightarrow> seen" where
  "view ms = fold see ms (Map.empty, [])"


lemma view_append: "view (xs @ ys) = fold see ys (view xs)"
  by (simp add: view_def)


section \<open>Invariants\<close>

definition in_flight_batch :: "queue_state \<Rightarrow> queued_frame list" where
  "in_flight_batch q = (case qs_drain q of Authorizing b \<Rightarrow> b | _ \<Rightarrow> [])"

definition undelivered :: "queue_state \<Rightarrow> jsv list" where
  "undelivered q = map qf_message (in_flight_batch q @ qs_frames q)"

definition batch_ok :: "queued_frame list \<Rightarrow> bool" where
  "batch_ok b \<longleftrightarrow> length b = 1 \<or> list_all (\<lambda>f. qf_kind f \<noteq> ActionFrame) b"

definition queue_ok :: "queue_state \<Rightarrow> bool" where
  "queue_ok q \<longleftrightarrow> length (qs_frames q) \<le> maxPending \<and> batch_ok (in_flight_batch q)
     \<and> list_all (\<lambda>f. qf_kind f = frameKind (qf_message f)) (qs_frames q) \<and> (qs_drain q \<noteq> NoDrain \<longleftrightarrow> qs_active q)
     \<and> (qs_frames q \<noteq> [] \<longrightarrow> qs_active q)"

definition peer_ok :: "peer \<Rightarrow> bool" where
  "peer_ok p \<longleftrightarrow> list_all queue_ok (pr_queues p) \<and> (\<forall>i. pr_cur p = Some i \<longrightarrow> i < length (pr_queues p))"

lemma next_batch_split: "fst (next_batch fs) @ snd (next_batch fs) = fs"
  by (simp add: next_batch_def Let_def)

lemma next_batch_ok:
  assumes "fs \<noteq> []"
  shows "batch_ok (fst (next_batch fs))" "fst (next_batch fs) \<noteq> []"
proof -
  let ?t = "takeWhile (\<lambda>f. qf_kind f \<noteq> ActionFrame) fs"
  have "take (length ?t) fs = ?t" by (metis takeWhile_eq_take)
  moreover have "list_all (\<lambda>f. qf_kind f \<noteq> ActionFrame) ?t"
    by (auto simp: list_all_iff dest: set_takeWhileD)
  ultimately show "batch_ok (fst (next_batch fs))"
    using assms by (cases fs) (auto simp: next_batch_def batch_ok_def Let_def)
  show "fst (next_batch fs) \<noteq> []"
    using assms by (simp add: next_batch_def Let_def)
qed

lemma drain_loop_ok:
  assumes "queue_ok q"
  shows "queue_ok (drain_loop b q)"
proof -
  have s: "fst (next_batch (qs_frames q)) @ snd (next_batch (qs_frames q)) = qs_frames q"
    by (rule next_batch_split)
  then have len: "length (snd (next_batch (qs_frames q))) \<le> length (qs_frames q)"
    by (metis le_add2 length_append)
  have k: "list_all P (qs_frames q) \<Longrightarrow> list_all P (snd (next_batch (qs_frames q)))" for P
    using s by (metis list_all_append)
  show ?thesis
  proof (cases "qs_retired q \<or> qs_frames q = [] \<or> \<not> b")
    case True
    then show ?thesis using assms
      by (auto simp: drain_loop_def end_drain_def queue_ok_def in_flight_batch_def batch_ok_def)
  next
    case False
    then show ?thesis using assms len k next_batch_ok [of "qs_frames q"]
      by (auto simp: drain_loop_def queue_ok_def in_flight_batch_def)
  qed
qed

lemma queue_ok_retired: "queue_ok q \<Longrightarrow> queue_ok (q\<lparr>qs_retired := True, qs_frames := []\<rparr>)"
  by (simp add: queue_ok_def in_flight_batch_def)

lemma queue_ok_end: "queue_ok q \<Longrightarrow> qs_retired q \<Longrightarrow> queue_ok (end_drain q)"
  by (simp add: queue_ok_def in_flight_batch_def end_drain_def batch_ok_def)

lemma queue_ok_new: "queue_ok new_queue"
  by (simp add: queue_ok_def new_queue_def in_flight_batch_def batch_ok_def)

lemma queue_ok_starts:
  assumes "queue_ok q" "length fs \<le> maxPending" "list_all (\<lambda>f. qf_kind f = frameKind (qf_message f)) fs"
  shows "queue_ok (starts_drain (q\<lparr>qs_frames := fs\<rparr>))"
  using assms by (auto simp: starts_drain_def queue_ok_def in_flight_batch_def batch_ok_def)

lemma with_queue_ok:
  "peer_ok p \<Longrightarrow> i < length (pr_queues p) \<Longrightarrow> (queue_ok (pr_queues p ! i) \<Longrightarrow> queue_ok (f (pr_queues p ! i))) \<Longrightarrow> peer_ok (with_queue i f p)"
  by (auto simp: peer_ok_def with_queue_def list_all_length nth_list_update)

lemma close_peer_fields [simp]:
  "pr_queues (close_peer c p) = pr_queues p" "pr_cur (close_peer c p) = pr_cur p" "pr_sent (close_peer c p) = pr_sent p" "\<not> pr_open (close_peer c p)"
  by (simp_all add: close_peer_def)

lemma close_unauthorized_fields [simp]:
  "pr_queues (closeUnauthorizedSocket p) = pr_queues p" "pr_cur (closeUnauthorizedSocket p) = pr_cur p" "\<not> pr_open (closeUnauthorizedSocket p)"
  "pr_sent (closeUnauthorizedSocket p) = pr_sent p @ (if pr_open p then [AUTH_CHANGED] else [])"
  by (simp_all add: closeUnauthorizedSocket_def)

lemma peer_ok_same: "pr_queues p' = pr_queues p \<Longrightarrow> pr_cur p' = pr_cur p \<Longrightarrow> peer_ok p' = peer_ok p"
  by (simp add: peer_ok_def)

lemma retire_ok: "peer_ok p \<Longrightarrow> (\<And>j. i = Some j \<Longrightarrow> j < length (pr_queues p)) \<Longrightarrow> peer_ok (retire i c a p)"
proof -
  assume ok: "peer_ok p" and i: "\<And>j. i = Some j \<Longrightarrow> j < length (pr_queues p)"
  have same: "peer_ok (if a then closeUnauthorizedSocket q else close_peer c q) = peer_ok q" for q
    by (intro peer_ok_same) simp_all
  show ?thesis
  proof (cases "case i of Some j \<Rightarrow> Some j | None \<Rightarrow> pr_cur p")
    case None
    then show ?thesis using ok by (simp add: retire_def Let_def same)
  next
    case (Some j)
    then have "j < length (pr_queues p)"
      using ok i by (auto simp: peer_ok_def split: option.splits)
    then have "peer_ok (with_queue j (\<lambda>q. q\<lparr>qs_retired := True, qs_frames := []\<rparr>) p)"
      using ok by (intro with_queue_ok queue_ok_retired)
    with Some ok show ?thesis by (simp add: retire_def Let_def same)
  qed
qed

lemma own_queue_ok:
  assumes "peer_ok p" "own_queue p = (i, p1)"
  shows "peer_ok p1" "i < length (pr_queues p1)"
  using assms queue_ok_new by (auto simp: own_queue_def peer_ok_def split: option.splits)

lemma send_ok: "peer_ok p \<Longrightarrow> peer_ok (socket_send m p)"
proof -
  assume ok: "peer_ok p"
  obtain i p1 where o: "own_queue p = (i, p1)" by fastforce
  note p1 = own_queue_ok [OF ok o]
  let ?q = "pr_queues p1 ! i" and ?fs = "qs_frames (pr_queues p1 ! i)"
  have q: "queue_ok ?q" using p1 by (simp add: peer_ok_def list_all_length)
  show ?thesis
  proof (cases "frameKind m = StateFrame \<and> ?fs \<noteq> [] \<and> qf_kind (last ?fs) = StateFrame")
    case True
    let ?fs' = "butlast ?fs @ [(last ?fs)\<lparr>qf_message := merge_states (qf_message (last ?fs)) m\<rparr>]"
    have "list_all (\<lambda>f. qf_kind f = frameKind (qf_message f)) (butlast ?fs)"
      using q by (auto simp: queue_ok_def list_all_iff dest: in_set_butlastD)
    then have "list_all (\<lambda>f. qf_kind f = frameKind (qf_message f)) ?fs'"
      using True merge_kind(1) [of m] by simp
    moreover have "length ?fs' \<le> maxPending"
      using q True by (simp add: queue_ok_def)
    ultimately have "queue_ok (starts_drain (?q\<lparr>qs_frames := ?fs'\<rparr>))"
      using q by (intro queue_ok_starts)
    then have "peer_ok (with_queue i (\<lambda>q. starts_drain (q\<lparr>qs_frames := ?fs'\<rparr>)) p1)"
      using p1 by (intro with_queue_ok) auto
    with True show ?thesis using p1 by (simp add: socket_send_def o Let_def)
  next
    case False
    have "length ?fs < maxPending \<Longrightarrow> peer_ok (with_queue i (\<lambda>q. starts_drain (q\<lparr>qs_frames := ?fs @ [\<lparr>qf_message = m, qf_kind = frameKind m\<rparr>]\<rparr>)) p1)"
      using p1 q by (intro with_queue_ok queue_ok_starts) (auto simp: queue_ok_def)
    moreover have "peer_ok (retire (Some i) 1013 False p1)"
      using p1 by (intro retire_ok) auto
    ultimately show ?thesis using False p1 by (auto simp: socket_send_def o Let_def)
  qed
qed

lemma starts_ok: "peer_ok p \<Longrightarrow> peer_ok (drain_starts i p)"
  unfolding drain_starts_def by (auto intro!: with_queue_ok drain_loop_ok)

lemma retired_after: "i < length (pr_queues p) \<Longrightarrow> qs_retired (pr_queues (retire (Some i) c a p) ! i) \<and> length (pr_queues (retire (Some i) c a p)) = length (pr_queues p)"
  by (simp add: retire_def Let_def with_queue_def)

lemma end_retired_ok: "peer_ok p \<Longrightarrow> i < length (pr_queues p) \<Longrightarrow> peer_ok (with_queue i end_drain (retire (Some i) c a p))"
  using retired_after [of i p c a] by (intro with_queue_ok retire_ok queue_ok_end) auto

lemma drain_answered_ok: "peer_ok p \<Longrightarrow> peer_ok (drain_answered i a r w p)"
proof (cases "i < length (pr_queues p)")
  case True
  assume ok: "peer_ok p"
  have sent: "peer_ok (p\<lparr>pr_sent := x\<rparr>)" for x
    using ok by (simp add: peer_ok_def)
  have lp: "peer_ok (with_queue i (drain_loop b) p')" if "peer_ok p'" "pr_queues p' = pr_queues p" for b p'
    using that True by (intro with_queue_ok drain_loop_ok) auto
  show ?thesis
    using True ok sent
    by (auto simp: drain_answered_def intro!: end_retired_ok lp split: drain.split option.split)
qed (simp add: drain_answered_def)

lemma step_ok: "peer_ok p \<Longrightarrow> peer_ok (peer_step x p)"
proof (cases x)
  case Remove
  assume ok: "peer_ok p"
  then have "peer_ok (with_queue i (\<lambda>q. q\<lparr>qs_retired := True, qs_frames := []\<rparr>) p)" if "pr_cur p = Some i" for i
    using that by (intro with_queue_ok queue_ok_retired) (auto simp: peer_ok_def)
  then show ?thesis using ok Remove by (auto simp: remove_peer_def peer_ok_def split: option.split)
next
  case (SendNow m)
  assume "peer_ok p"
  then show ?thesis using SendNow by (simp add: socket_send_now_def peer_ok_def)
next
  case Closes
  assume "peer_ok p"
  then show ?thesis using Closes by (simp add: peer_ok_def)
next
  case (Retire c)
  assume "peer_ok p"
  then show ?thesis using Retire retire_ok [of p None c False] by simp
qed (simp_all add: send_ok starts_ok drain_answered_ok)

lemma run_ok: "peer_ok p \<Longrightarrow> peer_ok (peer_run xs p)"
  by (induction xs arbitrary: p) (simp_all add: step_ok)

lemma new_peer_ok: "peer_ok new_peer"
  by (simp add: peer_ok_def new_peer_def)


section \<open>What is sent\<close>

lemma with_queue_sent [simp]: "pr_sent (with_queue i f p) = pr_sent p" "pr_open (with_queue i f p) = pr_open p" "pr_cur (with_queue i f p) = pr_cur p"
  by (simp_all add: with_queue_def)

lemma own_queue_sent: "own_queue p = (i, p1) \<Longrightarrow> pr_sent p1 = pr_sent p \<and> pr_open p1 = pr_open p"
  by (auto simp: own_queue_def split: option.splits)

lemma retire_sent: "pr_sent (retire i c a p) = pr_sent p @ (if a \<and> pr_open p \<and> pr_sent (retire i c a p) \<noteq> pr_sent p then [AUTH_CHANGED] else [])"
  by (auto simp: retire_def Let_def split: option.split)

lemma send_sends_nothing: "pr_sent (socket_send m p) = pr_sent p"
proof -
  obtain i p1 where o: "own_queue p = (i, p1)" by fastforce
  show ?thesis
    using own_queue_sent [OF o] retire_sent [of "Some i" 1013 False p1] by (simp add: socket_send_def o Let_def)
qed

text \<open>C31. Frames are sent only when they are authorized: in every run with an authorizer, a step that
  sends something is the granted authorization of a batch whose queue is in use and whose peer is open, and
  what it sends is a beginning of that batch in order, where an action is a batch of its own; or it
  refuses a batch and sends the notice that authorization changed. A peer that is closed is sent nothing.\<close>
theorem frames_sent_only_authorized:
  assumes "p = peer_run xs new_peer" "\<And>m. x \<noteq> SendNow m"
  shows "\<exists>new. pr_sent (peer_step x p) = pr_sent p @ new \<and> (new = [] \<or> pr_open p \<and>
     (\<exists>i a r w batch. x = Answered i a r w \<and> i < length (pr_queues p) \<and> qs_drain (pr_queues p ! i) = Authorizing batch \<and>
        (if a \<and> r then \<not> qs_retired (pr_queues p ! i) \<and> prefix new (map qf_message batch)
           \<and> (length batch = 1 \<or> list_all (\<lambda>f. qf_kind f \<noteq> ActionFrame) batch)
         else new = [AUTH_CHANGED])))"
proof (cases x)
  case (Answered i a r w)
  show ?thesis
  proof (cases "i < length (pr_queues p) \<and> (\<exists>b. qs_drain (pr_queues p ! i) = Authorizing b)")
    case False
    then have "pr_sent (peer_step x p) = pr_sent p"
      using Answered by (auto simp: drain_answered_def split: drain.split)
    then show ?thesis by (intro exI [of _ "[]"]) simp
  next
    case True
    then obtain b where i: "i < length (pr_queues p)" and b: "qs_drain (pr_queues p ! i) = Authorizing b" by blast
    have "peer_ok p"
      unfolding assms(1) by (rule run_ok [OF new_peer_ok])
    then have "batch_ok b"
      using i b by (auto simp: peer_ok_def list_all_length queue_ok_def in_flight_batch_def)
    then have bo: "length b = 1 \<or> list_all (\<lambda>f. qf_kind f \<noteq> ActionFrame) b"
      by (simp add: batch_ok_def)
    show ?thesis
    proof (cases "a \<and> r")
      case False
      let ?new = "if pr_open p \<and> pr_sent (retire (Some i) 1008 True p) \<noteq> pr_sent p then [AUTH_CHANGED] else []"
      have "pr_sent (peer_step x p) = pr_sent p @ ?new"
        using False Answered i b retire_sent [of "Some i" 1008 True p] by (auto simp: drain_answered_def)
      then show ?thesis using False Answered i b by (intro exI [of _ ?new]) auto
    next
      case True
      show ?thesis
      proof (cases "qs_retired (pr_queues p ! i) \<or> \<not> pr_open p")
        case True
        then have "pr_sent (peer_step x p) = pr_sent p"
          using \<open>a \<and> r\<close> Answered i b by (auto simp: drain_answered_def)
        then show ?thesis by (intro exI [of _ "[]"]) simp
      next
        case False
        let ?n = "case w of Some n \<Rightarrow> n | None \<Rightarrow> length b"
        have "pr_sent (peer_step x p) = pr_sent p @ map qf_message (take ?n b)"
          using \<open>a \<and> r\<close> False Answered i b retire_sent [of _ 1011 False] by (auto simp: drain_answered_def split: option.split)
        moreover have "prefix (map qf_message (take ?n b)) (map qf_message b)"
          by (intro map_mono_prefix take_is_prefix)
        ultimately show ?thesis
          using \<open>a \<and> r\<close> False Answered i b bo by (intro exI [of _ "map qf_message (take ?n b)"]) auto
      qed
    qed
  qed
next
  case (Send m)
  then show ?thesis using send_sends_nothing by (intro exI [of _ "[]"]) simp
next
  case (DrainStarts i)
  then show ?thesis by (intro exI [of _ "[]"]) (simp add: drain_starts_def)
next
  case (Retire c)
  then show ?thesis using retire_sent [of None c False p] by (intro exI [of _ "[]"]) simp
next
  case Remove
  then show ?thesis by (intro exI [of _ "[]"]) (simp add: remove_peer_def split: option.split)
qed (use assms(2) in auto)


section \<open>Merging does not show\<close>



text \<open>Sent and undelivered messages together show what the messages handed over show.\<close>

definition carries :: "jsv list \<Rightarrow> peer \<Rightarrow> bool" where
  "carries ms p \<longleftrightarrow> (case pr_cur p of
     None \<Rightarrow> pr_queues p = [] \<and> (pr_open p \<longrightarrow> ms = [] \<and> pr_sent p = [])
   | Some i \<Rightarrow> i = 0 \<and> (\<exists>q. pr_queues p = [q] \<and> (pr_open p \<and> \<not> qs_retired q \<longrightarrow> view (pr_sent p @ undelivered q) = view ms)))"

lemma carries_Some: "pr_cur p = Some i \<Longrightarrow> pr_queues p = [q] \<Longrightarrow>
  carries ms p \<longleftrightarrow> i = 0 \<and> (pr_open p \<and> \<not> qs_retired q \<longrightarrow> view (pr_sent p @ undelivered q) = view ms)"
  by (auto simp: carries_def)



lemma retired_loop [simp]: "qs_retired (drain_loop b q) = qs_retired q" "qs_retired (end_drain q) = qs_retired q"
  by (auto simp: drain_loop_def end_drain_def)










definition state_msg :: "string \<Rightarrow> int \<Rightarrow> jsv" where
  "state_msg k n = JObj [(''type'', JStr ''state-update''), (''state'', JObj [(k, JNum (NInt n))])]"

definition action_msg :: jsv where
  "action_msg = JObj [(''type'', JStr ''client-action''), (''action'', JStr ''go'')]"

definition merge_run :: "peer_event list" where
  "merge_run = [Send (state_msg ''a'' 1), Send (state_msg ''b'' 2), Send (state_msg ''a'' 3), Send action_msg, DrainStarts 0,
     Send (state_msg ''c'' 4), Answered 0 True True None, Answered 0 True True None]"


lemma frames_sent_only_authorized_witness:
  "\<exists>new. pr_sent (peer_step (Answered 0 True True None) (peer_run (take 5 merge_run) new_peer)) = pr_sent (peer_run (take 5 merge_run) new_peer) @ new \<and> new \<noteq> []"
proof -
  have "pr_sent (peer_step (Answered 0 True True None) (peer_run (take 5 merge_run) new_peer)) \<noteq> pr_sent (peer_run (take 5 merge_run) new_peer)"
    by code_simp
  with frames_sent_only_authorized [OF refl, of "Answered 0 True True None" "take 5 merge_run"] show ?thesis by fastforce
qed

end
