(* ===== verification/Url_Codec.thy ===== *)
theory Url_Codec
  imports Prelude "HOL-Library.Code_Target_Numeral"
begin

text \<open>
  Query text: the percent encoding of \<open>URLSearchParams\<close> and the decoding of \<open>decodeURIComponent\<close>, which
  \<open>core/src/shared/url-state.ts\<close> uses in opposite directions. A decoded string is the list of its
  Unicode code points (a surrogate that is not part of a pair is a code point of its own); the text of
  a query is a list of characters, which after the URL parser are ASCII.
\<close>

type_synonym ustring = "nat list"

definition valid_cp :: "nat \<Rightarrow> bool" where
  "valid_cp n \<longleftrightarrow> n < 55296 \<or> 57344 \<le> n \<and> n < 1114112"

text \<open>\<open>length\<close> counts UTF-16 code units.\<close>

definition utf16_length :: "ustring \<Rightarrow> nat" where
  "utf16_length s = sum_list (map (\<lambda>n. if n < 65536 then 1 else 2) s)"

definition ascii :: "string \<Rightarrow> ustring" where
  "ascii s = map code s"


section \<open>Encoding\<close>

definition utf8 :: "nat \<Rightarrow> nat list" where
  "utf8 n = (if n < 128 then [n]
     else if n < 2048 then [192 + n div 64, 128 + n mod 64]
     else if n < 65536 then [224 + n div 4096, 128 + n div 64 mod 64, 128 + n mod 64]
     else [240 + n div 262144, 128 + n div 4096 mod 64, 128 + n div 64 mod 64, 128 + n mod 64])"

definition hex_digit :: "nat \<Rightarrow> char" where
  "hex_digit d = (if d < 10 then char_of (48 + d) else char_of (55 + d))"

definition unreserved :: "nat \<Rightarrow> bool" where
  "unreserved b \<longleftrightarrow> 48 \<le> b \<and> b \<le> 57 \<or> 65 \<le> b \<and> b \<le> 90 \<or> 97 \<le> b \<and> b \<le> 122 \<or> b \<in> {42, 45, 46, 95}"

definition enc_byte :: "nat \<Rightarrow> string" where
  "enc_byte b = (if b = 32 then ''+'' else if unreserved b then [char_of b] else [CHR ''%'', hex_digit (b div 16), hex_digit (b mod 16)])"

text \<open>A name or a value in the text of \<open>new URLSearchParams(...).toString()\<close>.\<close>

definition form_encode :: "ustring \<Rightarrow> string" where
  "form_encode s = concat (map enc_byte (concat (map utf8 s)))"


section \<open>Decoding\<close>

definition hex_value :: "char \<Rightarrow> nat option" where
  "hex_value c = (let n = code c in if 48 \<le> n \<and> n \<le> 57 then Some (n - 48) else if 65 \<le> n \<and> n \<le> 70 then Some (n - 55)
     else if 97 \<le> n \<and> n \<le> 102 then Some (n - 87) else None)"

text \<open>One escaped byte at the front, and \<open>k\<close> escaped continuation bytes.\<close>

fun pct_byte :: "string \<Rightarrow> (nat \<times> string) option" where
  "pct_byte (p # h # l # rest) = (if p \<noteq> CHR ''%'' then None
     else (case (hex_value h, hex_value l) of (Some a, Some b) \<Rightarrow> Some (16 * a + b, rest) | _ \<Rightarrow> None))"
| "pct_byte _ = None"

fun conts :: "nat \<Rightarrow> nat \<Rightarrow> string \<Rightarrow> (nat \<times> string) option" where
  "conts 0 v s = Some (v, s)"
| "conts (Suc k) v s = (case pct_byte s of
     Some (b, rest) \<Rightarrow> if 128 \<le> b \<and> b < 192 then conts k (64 * v + (b - 128)) rest else None
   | None \<Rightarrow> None)"

lemma pct_byte_length: "pct_byte s = Some (b, r) \<Longrightarrow> length r < length s"
  by (cases s rule: pct_byte.cases) (auto split: if_splits option.splits)

lemma conts_length: "conts k v s = Some (w, r) \<Longrightarrow> length r \<le> length s"
  by (induction k arbitrary: v s) (auto split: option.splits if_splits dest!: pct_byte_length, fastforce)

text \<open>The lead byte, its continuations, and the test that rejects overlong forms, surrogates and values out of range.\<close>

definition decode_point :: "string \<Rightarrow> (nat \<times> string) option" where
  "decode_point s = (case pct_byte s of
     None \<Rightarrow> None
   | Some (b, rest) \<Rightarrow>
      if b < 128 then Some (b, rest)
      else if 192 \<le> b \<and> b < 224 then (case conts 1 (b - 192) rest of Some (n, r) \<Rightarrow> if 128 \<le> n then Some (n, r) else None | None \<Rightarrow> None)
      else if 224 \<le> b \<and> b < 240 then (case conts 2 (b - 224) rest of
          Some (n, r) \<Rightarrow> if 2048 \<le> n \<and> valid_cp n then Some (n, r) else None | None \<Rightarrow> None)
      else if 240 \<le> b \<and> b < 248 then (case conts 3 (b - 240) rest of
          Some (n, r) \<Rightarrow> if 65536 \<le> n \<and> valid_cp n then Some (n, r) else None | None \<Rightarrow> None)
      else None)"

lemma decode_point_length: "decode_point s = Some (n, r) \<Longrightarrow> length r < length s"
  unfolding decode_point_def
  by (auto split: option.splits if_splits dest!: pct_byte_length conts_length)

text \<open>\<open>decodeURIComponent\<close>; \<open>None\<close> is its exception.\<close>

function uri_decode :: "string \<Rightarrow> ustring option" where
  "uri_decode [] = Some []"
| "uri_decode (c # s) =
     (if c \<noteq> CHR ''%'' then map_option (\<lambda>t. code c # t) (uri_decode s)
      else (case decode_point (c # s) of None \<Rightarrow> None | Some (n, r) \<Rightarrow> map_option (\<lambda>t. n # t) (uri_decode r)))"
  by pat_completeness auto
termination
  by (relation "measure length") (auto dest: decode_point_length)

(* models packages/core/src/shared/url-state.ts:158-158 decode *)
definition decode :: "string \<Rightarrow> ustring option" where
  "decode raw = uri_decode (map (\<lambda>c. if c = CHR ''+'' then CHR '' '' else c) raw)"


section \<open>Round trip\<close>

lemma hex_value_digit: "d < 16 \<Longrightarrow> hex_value (hex_digit d) = Some d"
proof -
  assume "d < 16"
  then have "d \<in> set [0..<16]" by simp
  moreover have "list_all (\<lambda>d. hex_value (hex_digit d) = Some d) [0..<16]" by code_simp
  ultimately show ?thesis by (simp only: list_all_iff)
qed

lemma hex_digit_plain: "d < 16 \<Longrightarrow> hex_digit d \<noteq> CHR ''+'' \<and> hex_digit d \<noteq> CHR ''&'' \<and> hex_digit d \<noteq> CHR ''=''"
proof -
  assume "d < 16"
  then have "d \<in> set [0..<16]" by simp
  moreover have "list_all (\<lambda>d. hex_digit d \<noteq> CHR ''+'' \<and> hex_digit d \<noteq> CHR ''&'' \<and> hex_digit d \<noteq> CHR ''='') [0..<16]" by code_simp
  ultimately show ?thesis unfolding list_all_iff by blast
qed

abbreviation unplus :: "char \<Rightarrow> char" where
  "unplus c \<equiv> if c = CHR ''+'' then CHR '' '' else c"

text \<open>A byte that is escaped, or one that stands for itself.\<close>

lemma enc_byte_low:
  assumes "b < 128" "b = 32 \<or> unreserved b"
  shows "\<exists>c. map unplus (enc_byte b) = [c] \<and> code c = b \<and> c \<noteq> CHR ''%''"
proof -
  have "list_all (\<lambda>b. b = 32 \<or> unreserved b \<longrightarrow> (case map unplus (enc_byte b) of [c] \<Rightarrow> code c = b \<and> c \<noteq> CHR ''%'' | _ \<Rightarrow> False)) [0..<128]"
    by code_simp
  moreover have "b \<in> set [0..<128]" using assms(1) by simp
  ultimately have "case map unplus (enc_byte b) of [c] \<Rightarrow> code c = b \<and> c \<noteq> CHR ''%'' | _ \<Rightarrow> False"
    using assms(2) by (simp only: list_all_iff)
  then show ?thesis by (auto split: list.splits)
qed

lemma pct_enc_byte:
  assumes "b < 256" "\<not> (b = 32 \<or> unreserved b)"
  shows "pct_byte (map unplus (enc_byte b) @ rest) = Some (b, rest)"
proof -
  have "b div 16 < 16" "b mod 16 < 16" using assms(1) by auto
  then show ?thesis using assms(2)
    by (simp add: enc_byte_def hex_value_digit hex_digit_plain)
qed

lemma high_escaped: "128 \<le> b \<Longrightarrow> \<not> (b = 32 \<or> unreserved b)"
  by (auto simp: unreserved_def)

lemma conts_enc:
  assumes "list_all (\<lambda>x. x < 64) xs" "length xs = k"
  shows "conts k v (map unplus (concat (map (\<lambda>x. enc_byte (128 + x)) xs)) @ rest) = Some (foldl (\<lambda>v x. 64 * v + x) v xs, rest)"
  using assms
proof (induction xs arbitrary: v k)
  case (Cons x xs)
  then obtain j where k: "k = Suc j" "length xs = j" by (cases k) auto
  have "pct_byte (map unplus (enc_byte (128 + x)) @ map unplus (concat (map (\<lambda>x. enc_byte (128 + x)) xs)) @ rest)
      = Some (128 + x, map unplus (concat (map (\<lambda>x. enc_byte (128 + x)) xs)) @ rest)"
    using Cons.prems by (intro pct_enc_byte high_escaped) auto
  with Cons k show ?case by simp
qed simp

lemma uri_decode_step:
  "decode_point (map unplus (enc_byte b) @ s) = Some (n, r) \<Longrightarrow> \<not> (b = 32 \<or> unreserved b) \<Longrightarrow>
    uri_decode (map unplus (enc_byte b) @ s) = map_option (\<lambda>t. n # t) (uri_decode r)"
  by (simp add: enc_byte_def)

lemma div_64: "n div 4096 = n div 64 div 64" "n div 262144 = n div 64 div 64 div 64" for n :: nat
  by (simp_all add: div_mult2_eq [symmetric])

lemma utf8_decodes:
  assumes "valid_cp n"
  shows "uri_decode (map unplus (concat (map enc_byte (utf8 n))) @ rest) = map_option (\<lambda>t. n # t) (uri_decode rest)"
proof -
  consider "n < 128" | "128 \<le> n" "n < 2048" | "2048 \<le> n" "n < 65536" | "65536 \<le> n" "n < 1114112"
  proof -
    have "n < 1114112" using assms by (auto simp: valid_cp_def)
    then show thesis using that by linarith
  qed
  then show ?thesis
  proof cases
    case 1
    show ?thesis
    proof (cases "n = 32 \<or> unreserved n")
      case True
      obtain c where "map unplus (enc_byte n) = [c]" "code c = n" "c \<noteq> CHR ''%''"
        using enc_byte_low [OF 1 True] by (elim exE conjE) (rule that)
      with 1 show ?thesis by (simp add: utf8_def)
    next
      case False
      have "pct_byte (map unplus (enc_byte n) @ rest) = Some (n, rest)"
        using 1 False by (intro pct_enc_byte) auto
      then have "decode_point (map unplus (enc_byte n) @ rest) = Some (n, rest)"
        using 1 by (simp add: decode_point_def)
      with 1 uri_decode_step [OF _ False] show ?thesis by (simp add: utf8_def)
    qed
  next
    case 2
    let ?b = "192 + n div 64" and ?xs = "[n mod 64]"
    have b: "?b < 224" using 2 by auto
    have p: "pct_byte (map unplus (enc_byte ?b) @ t) = Some (?b, t)" for t
      using b by (intro pct_enc_byte high_escaped) auto
    have c: "conts 1 (n div 64) (map unplus (concat (map (\<lambda>x. enc_byte (128 + x)) ?xs)) @ rest) = Some (foldl (\<lambda>v x. 64 * v + x) (n div 64) ?xs, rest)"
      by (rule conts_enc) auto
    have "decode_point (map unplus (enc_byte ?b) @ (map unplus (concat (map (\<lambda>x. enc_byte (128 + x)) ?xs)) @ rest)) = Some (n, rest)"
      using 2 b c by (simp add: decode_point_def p)
    from uri_decode_step [OF this high_escaped] 2 show ?thesis by (simp add: utf8_def)
  next
    case 3
    let ?b = "224 + n div 4096" and ?xs = "[n div 64 mod 64, n mod 64]"
    have b: "?b < 240" using 3 by auto
    have p: "pct_byte (map unplus (enc_byte ?b) @ t) = Some (?b, t)" for t
      using b by (intro pct_enc_byte high_escaped) auto
    have v: "foldl (\<lambda>v x. 64 * v + x) (n div 4096) ?xs = n"
      by (simp add: div_64)
    have c: "conts 2 (n div 4096) (map unplus (concat (map (\<lambda>x. enc_byte (128 + x)) ?xs)) @ rest) = Some (n, rest)"
      by (rule conts_enc [of ?xs 2 "n div 4096" rest, unfolded v]) auto
    have "decode_point (map unplus (enc_byte ?b) @ (map unplus (concat (map (\<lambda>x. enc_byte (128 + x)) ?xs)) @ rest)) = Some (n, rest)"
      using 3 b c assms by (simp add: decode_point_def p)
    from uri_decode_step [OF this high_escaped] 3 show ?thesis by (simp add: utf8_def)
  next
    case 4
    let ?b = "240 + n div 262144" and ?xs = "[n div 4096 mod 64, n div 64 mod 64, n mod 64]"
    have b: "?b < 248" using 4 by auto
    have p: "pct_byte (map unplus (enc_byte ?b) @ t) = Some (?b, t)" for t
      using b by (intro pct_enc_byte high_escaped) auto
    have v: "foldl (\<lambda>v x. 64 * v + x) (n div 262144) ?xs = n"
      by (simp add: div_64)
    have c: "conts 3 (n div 262144) (map unplus (concat (map (\<lambda>x. enc_byte (128 + x)) ?xs)) @ rest) = Some (n, rest)"
      by (rule conts_enc [of ?xs 3 "n div 262144" rest, unfolded v]) auto
    have "decode_point (map unplus (enc_byte ?b) @ (map unplus (concat (map (\<lambda>x. enc_byte (128 + x)) ?xs)) @ rest)) = Some (n, rest)"
      using 4 b c assms by (simp add: decode_point_def p)
    from uri_decode_step [OF this high_escaped] 4 show ?thesis by (simp add: utf8_def)
  qed
qed

lemma decode_form_encode:
  assumes "list_all valid_cp s"
  shows "decode (form_encode s) = Some s"
proof -
  have "uri_decode (map unplus (concat (map enc_byte (concat (map utf8 s))))) = Some s"
    using assms
  proof (induction s)
    case (Cons n s)
    then show ?case
      using utf8_decodes [of n "map unplus (concat (map enc_byte (concat (map utf8 s))))"] by simp
  qed simp
  then show ?thesis by (simp add: decode_def form_encode_def)
qed

text \<open>Encoded text has no separator of a query, and is empty only for the empty string.\<close>

lemma enc_byte_plain:
  assumes "b < 256"
  shows "CHR ''&'' \<notin> set (enc_byte b) \<and> CHR ''='' \<notin> set (enc_byte b) \<and> enc_byte b \<noteq> []"
proof -
  have "char_of b \<noteq> CHR ''&'' \<and> char_of b \<noteq> CHR ''=''" if "unreserved b"
  proof -
    have "(of_char (char_of b :: char) :: nat) = b" using assms by simp
    moreover have "b \<noteq> of_char (CHR ''&'')" "b \<noteq> of_char (CHR ''='')" using that by (auto simp: unreserved_def)
    ultimately show ?thesis by metis
  qed
  moreover have "b div 16 < 16" "b mod 16 < 16" using assms by auto
  note this [THEN hex_digit_plain]
  ultimately show ?thesis by (simp add: enc_byte_def) metis
qed

lemma utf8_bytes:
  assumes "valid_cp n" "b \<in> set (utf8 n)"
  shows "b < 256"
proof -
  have n: "n div 262144 \<le> 4"
  proof -
    have "n < 5 * 262144" using assms(1) by (auto simp: valid_cp_def)
    then have "n div 262144 < 5" by (rule less_mult_imp_div_less)
    then show ?thesis by simp
  qed
  have m: "128 + n div 64 mod 64 < 256" "128 + n div 4096 mod 64 < 256" "128 + n mod 64 < 256"
    by (simp_all add: trans_less_add2 [of _ 64] add.commute)
  consider "n < 128" | "128 \<le> n" "n < 2048" | "2048 \<le> n" "n < 65536" | "65536 \<le> n"
    by linarith
  then show ?thesis
  proof cases
    case 1
    then show ?thesis using assms(2) by (simp add: utf8_def)
  next
    case 2
    then have "192 + n div 64 < 256" by (simp add: less_mult_imp_div_less)
    then show ?thesis using 2 m assms(2) by (simp add: utf8_def) linarith
  next
    case 3
    then have "224 + n div 4096 < 256" by (simp add: less_mult_imp_div_less)
    then show ?thesis using 3 m assms(2) by (simp add: utf8_def) linarith
  next
    case 4
    then show ?thesis using n m assms(2) by (simp add: utf8_def) linarith
  qed
qed

lemma form_encode_bytes:
  assumes "list_all valid_cp s" "c \<in> set (form_encode s)"
  obtains b where "b < 256" "c \<in> set (enc_byte b)"
proof -
  from assms(2) obtain n b where "n \<in> set s" "b \<in> set (utf8 n)" "c \<in> set (enc_byte b)"
    unfolding form_encode_def by auto
  then show thesis using that assms(1) utf8_bytes by (auto simp: list_all_iff)
qed

lemma form_encode_plain:
  assumes "list_all valid_cp s"
  shows "CHR ''&'' \<notin> set (form_encode s)" "CHR ''='' \<notin> set (form_encode s)" "form_encode s = [] \<longleftrightarrow> s = []"
proof -
  show "CHR ''&'' \<notin> set (form_encode s)" "CHR ''='' \<notin> set (form_encode s)"
    using enc_byte_plain form_encode_bytes [OF assms] by blast+
  show "form_encode s = [] \<longleftrightarrow> s = []"
  proof (cases s)
    case (Cons n t)
    obtain b bs where b: "utf8 n = b # bs" by (cases "utf8 n") (auto simp: utf8_def split: if_splits)
    have "b < 256" using utf8_bytes [of n b] assms Cons b by simp
    then have "enc_byte b \<noteq> []" using enc_byte_plain by blast
    then show ?thesis using Cons b by (simp add: form_encode_def)
  qed (simp add: form_encode_def)
qed

end
