(* ===== verification/Url_State.thy ===== *)
theory Url_State
  imports Url_Codec
begin

text \<open>
  Page query state (\<open>core/src/shared/url-state.ts\<close>): codecs for the fields of a page's query, reading
  the values of a query with the issues found, and building the query for changed values.

  A URL is its path, its query (without the question mark) and its fragment; parsing a URL text into
  these is the URL parser's. Numbers are those of the argument \<open>nums\<close>, up to \<open>===\<close> (the sign of zero is
  not told apart). A function of an application-owned codec that throws, or returns something of the wrong
  type, returns \<open>None\<close>.
\<close>

section \<open>Values and codecs\<close>

datatype 'n uscalar = UStr ustring | UNum 'n | UBool bool

datatype 'n uvalue = UUndef | UScalar "'n uscalar" | UArr "'n uscalar list"

record 'n nums =
  nm_finite :: "'n \<Rightarrow> bool"
  nm_le :: "'n \<Rightarrow> 'n \<Rightarrow> bool"
  nm_safe_integer :: "'n \<Rightarrow> bool"
  nm_parse :: "ustring \<Rightarrow> 'n"
  nm_text :: "'n \<Rightarrow> ustring"

record 'n item =
  it_parse :: "ustring \<Rightarrow> 'n uscalar option option"
  it_accepts :: "'n uscalar \<Rightarrow> bool"
  it_encode :: "'n uscalar \<Rightarrow> ustring option"

text \<open>A scalar codec, or with \<open>cd_maxItems\<close> one for arrays of such items.\<close>

(* models packages/core/src/shared/url-state.ts:38-45 Codec *)
record 'n codec =
  cd_item :: "'n item"
  cd_maxItems :: "nat option"
  cd_default :: "'n uvalue"

datatype url_error = ConfigInvalid | DefaultInvalid | CodecInvalid | DeclarationInvalid | Limit
  | FieldUnknown ustring | ValueInvalid ustring | CodecFailed ustring

definition MAX_QUERY_LENGTH :: nat where
  "MAX_QUERY_LENGTH = 65536"

definition MAX_PAIRS :: nat where
  "MAX_PAIRS = 1024"

definition MAX_FIELDS :: nat where
  "MAX_FIELDS = 128"

definition MAX_STRING_LENGTH :: nat where
  "MAX_STRING_LENGTH = 2048"

definition MAX_ARRAY_ITEMS :: nat where
  "MAX_ARRAY_ITEMS = 100"

(* models packages/core/src/shared/url-state.ts:56-61 scalar *)
fun scalar :: "'n nums \<Rightarrow> 'n uscalar \<Rightarrow> bool" where
  "scalar nm (UNum x) = nm_finite nm x"
| "scalar nm (UBool b) = True"
| "scalar nm (UStr s) = (utf16_length s \<le> MAX_STRING_LENGTH \<and> list_all valid_cp s)"

(* models packages/core/src/shared/url-state.ts:75-86 accepts *)
fun codec_accepts :: "'n nums \<Rightarrow> 'n codec \<Rightarrow> 'n uvalue \<Rightarrow> bool" where
  "codec_accepts nm cd UUndef = (case cd_default cd of UUndef \<Rightarrow> True | _ \<Rightarrow> False)"
| "codec_accepts nm cd (UScalar x) = (cd_maxItems cd = None \<and> scalar nm x \<and> it_accepts (cd_item cd) x)"
| "codec_accepts nm cd (UArr xs) = (case cd_maxItems cd of
     None \<Rightarrow> False
   | Some mx \<Rightarrow> length xs \<le> mx \<and> list_all (\<lambda>x. scalar nm x \<and> it_accepts (cd_item cd) x) xs)"

(* models packages/core/src/shared/url-state.ts:87-93 register *)
definition codec_register :: "'n nums \<Rightarrow> 'n codec \<Rightarrow> url_error + 'n codec" where
  "codec_register nm cd = (if codec_accepts nm cd (cd_default cd) then Inr cd else Inl DefaultInvalid)"

text \<open>\<open>/^[+-]?(?:\d+(?:\.\d*)?|\.\d+)(?:e[+-]?\d+)?$/i\<close>\<close>

definition digit_cp :: "nat \<Rightarrow> bool" where
  "digit_cp n \<longleftrightarrow> 48 \<le> n \<and> n \<le> 57"

definition drop_sign :: "ustring \<Rightarrow> ustring" where
  "drop_sign s = (case s of n # t \<Rightarrow> if n = 43 \<or> n = 45 then t else s | [] \<Rightarrow> [])"

definition exponent :: "ustring \<Rightarrow> bool" where
  "exponent s = (case s of
     [] \<Rightarrow> True
   | n # t \<Rightarrow> (n = 101 \<or> n = 69) \<and> drop_sign t \<noteq> [] \<and> list_all digit_cp (drop_sign t))"

definition decimal_text :: "ustring \<Rightarrow> bool" where
  "decimal_text s = (let t = drop_sign s; r = dropWhile digit_cp t; f = (case r of n # u \<Rightarrow> if n = 46 then Some u else None | [] \<Rightarrow> None) in
     if t \<noteq> r then exponent (case f of Some u \<Rightarrow> dropWhile digit_cp u | None \<Rightarrow> r)
     else (case f of Some u \<Rightarrow> dropWhile digit_cp u \<noteq> u \<and> exponent (dropWhile digit_cp u) | None \<Rightarrow> False))"

definition number_ok :: "'n nums \<Rightarrow> 'n \<Rightarrow> 'n \<Rightarrow> bool \<Rightarrow> 'n uscalar \<Rightarrow> bool" where
  "number_ok nm mn mx integer v = (case v of
     UNum x \<Rightarrow> nm_finite nm x \<and> nm_le nm mn x \<and> nm_le nm x mx \<and> (\<not> integer \<or> nm_safe_integer nm x)
   | _ \<Rightarrow> False)"

text \<open>The options of a codec are arguments; the defaults of the code are its caller's.\<close>

(* models packages/core/src/shared/url-state.ts:94-102 numberCodec *)
definition numberCodec :: "'n nums \<Rightarrow> 'n \<Rightarrow> 'n \<Rightarrow> bool \<Rightarrow> 'n \<Rightarrow> url_error + 'n codec" where
  "numberCodec nm mn mx integer defaultValue =
     (if \<not> nm_finite nm mn \<or> \<not> nm_finite nm mx \<or> \<not> nm_le nm mn mx then Inl ConfigInvalid
      else codec_register nm \<lparr>cd_item = \<lparr>
          it_parse = (\<lambda>raw. if \<not> decimal_text raw then Some None
             else (let v = UNum (nm_parse nm raw) in Some (if number_ok nm mn mx integer v then Some v else None))),
          it_accepts = number_ok nm mn mx integer,
          it_encode = (\<lambda>v. case v of UNum x \<Rightarrow> Some (nm_text nm x) | _ \<Rightarrow> None)\<rparr>,
        cd_maxItems = None, cd_default = UScalar (UNum defaultValue)\<rparr>)"

definition string_ok :: "'n nums \<Rightarrow> int \<Rightarrow> int \<Rightarrow> 'n uscalar \<Rightarrow> bool" where
  "string_ok nm mn mx v = (case v of UStr s \<Rightarrow> scalar nm v \<and> mn \<le> int (utf16_length s) \<and> int (utf16_length s) \<le> mx | _ \<Rightarrow> False)"

(* models packages/core/src/shared/url-state.ts:105-110 string *)
definition stringCodec :: "'n nums \<Rightarrow> int \<Rightarrow> int \<Rightarrow> ustring \<Rightarrow> url_error + 'n codec" where
  "stringCodec nm minLength maxLength defaultValue =
     (if \<not> safe_int minLength \<or> \<not> safe_int maxLength \<or> minLength < 0 \<or> maxLength < minLength \<or> maxLength > int MAX_STRING_LENGTH
      then Inl ConfigInvalid
      else codec_register nm \<lparr>cd_item = \<lparr>
          it_parse = (\<lambda>raw. Some (if string_ok nm minLength maxLength (UStr raw) then Some (UStr raw) else None)),
          it_accepts = string_ok nm minLength maxLength,
          it_encode = (\<lambda>v. case v of UStr s \<Rightarrow> Some s | _ \<Rightarrow> None)\<rparr>,
        cd_maxItems = None, cd_default = UScalar (UStr defaultValue)\<rparr>)"

(* models packages/core/src/shared/url-state.ts:115-119 boolean *)
definition booleanCodec :: "'n nums \<Rightarrow> bool \<Rightarrow> url_error + 'n codec" where
  "booleanCodec nm defaultValue = codec_register nm \<lparr>cd_item = \<lparr>
      it_parse = (\<lambda>raw. Some (if raw = ascii ''true'' then Some (UBool True) else if raw = ascii ''false'' then Some (UBool False) else None)),
      it_accepts = (\<lambda>v. case v of UBool b \<Rightarrow> True | _ \<Rightarrow> False),
      it_encode = (\<lambda>v. case v of UBool b \<Rightarrow> Some (ascii (if b then ''true'' else ''false'')) | _ \<Rightarrow> None)\<rparr>,
    cd_maxItems = None, cd_default = UScalar (UBool defaultValue)\<rparr>"

(* models packages/core/src/shared/url-state.ts:120-128 enum *)
definition enumCodec :: "'n nums \<Rightarrow> ustring list \<Rightarrow> ustring option \<Rightarrow> url_error + 'n codec" where
  "enumCodec nm allowed defaultValue =
     (if length allowed > MAX_ARRAY_ITEMS \<or> \<not> list_all (\<lambda>s. scalar nm (UStr s)) allowed then Inl (ValueInvalid [])
      else if allowed = [] \<or> \<not> distinct allowed then Inl ConfigInvalid
      else codec_register nm \<lparr>cd_item = \<lparr>
          it_parse = (\<lambda>raw. Some (if raw \<in> set allowed then Some (UStr raw) else None)),
          it_accepts = (\<lambda>v. case v of UStr s \<Rightarrow> s \<in> set allowed | _ \<Rightarrow> False),
          it_encode = (\<lambda>v. case v of UStr s \<Rightarrow> Some s | _ \<Rightarrow> None)\<rparr>,
        cd_maxItems = None, cd_default = UScalar (UStr (case defaultValue of Some d \<Rightarrow> d | None \<Rightarrow> hd allowed))\<rparr>)"

(* models packages/core/src/shared/url-state.ts:129-135 array *)
definition arrayCodec :: "'n nums \<Rightarrow> 'n codec \<Rightarrow> int \<Rightarrow> 'n uscalar list \<Rightarrow> url_error + 'n codec" where
  "arrayCodec nm item maxItems defaultValue =
     (if cd_maxItems item \<noteq> None \<or> (case cd_default item of UUndef \<Rightarrow> True | _ \<Rightarrow> False) \<or> \<not> safe_int maxItems \<or> maxItems < 0
         \<or> maxItems > int MAX_ARRAY_ITEMS
      then Inl ConfigInvalid
      else codec_register nm \<lparr>cd_item = cd_item item, cd_maxItems = Some (nat maxItems), cd_default = UArr defaultValue\<rparr>)"

(* models packages/core/src/shared/url-state.ts:136-138 optional *)
definition optionalCodec :: "'n nums \<Rightarrow> 'n codec \<Rightarrow> url_error + 'n codec" where
  "optionalCodec nm cd = codec_register nm (cd\<lparr>cd_default := UUndef\<rparr>)"

fun same_kind :: "'n uscalar \<Rightarrow> 'n uscalar \<Rightarrow> bool" where
  "same_kind (UStr a) (UStr b) = True"
| "same_kind (UNum a) (UNum b) = True"
| "same_kind (UBool a) (UBool b) = True"
| "same_kind _ _ = False"

(* models packages/core/src/shared/url-state.ts:140-148 custom *)
definition customCodec :: "'n nums \<Rightarrow> 'n uscalar \<Rightarrow> (ustring \<Rightarrow> 'n uscalar option option) \<Rightarrow> ('n uscalar \<Rightarrow> ustring option) \<Rightarrow> url_error + 'n codec" where
  "customCodec nm defaultValue parse serialize =
     (if \<not> scalar nm defaultValue then Inl ConfigInvalid
      else (let valid = (\<lambda>v. scalar nm v \<and> same_kind v defaultValue) in
        codec_register nm \<lparr>cd_item = \<lparr>
          it_parse = (\<lambda>raw. case parse raw of Some (Some v) \<Rightarrow> if valid v then Some (Some v) else None | r \<Rightarrow> r),
          it_accepts = valid,
          it_encode = (\<lambda>v. case serialize v of Some t \<Rightarrow> if scalar nm (UStr t) then Some t else None | None \<Rightarrow> None)\<rparr>,
        cd_maxItems = None, cd_default = UScalar defaultValue\<rparr>))"


section \<open>Pairs of a query\<close>

(* models packages/core/src/shared/url-state.ts:151-151 Pair *)
record qpair =
  qp_key :: ustring
  qp_value :: "ustring option"
  qp_invalid :: bool
  qp_raw :: "string option"

text \<open>The part before the first \<open>=\<close> and what follows it, when there is one.\<close>

definition split_pair :: "string \<Rightarrow> string \<times> string option" where
  "split_pair part = (let k = takeWhile (\<lambda>c. c \<noteq> CHR ''='') part in
     (k, if length k = length part then None else Some (drop (Suc (length k)) part)))"

definition read_pair :: "string \<Rightarrow> qpair" where
  "read_pair part = (case split_pair part of (k, v) \<Rightarrow> (case decode k of
     None \<Rightarrow> \<lparr>qp_key = [], qp_value = None, qp_invalid = True, qp_raw = Some part\<rparr>
   | Some key \<Rightarrow> (case v of
        None \<Rightarrow> \<lparr>qp_key = key, qp_value = None, qp_invalid = False, qp_raw = Some part\<rparr>
      | Some t \<Rightarrow> (case decode t of
           None \<Rightarrow> \<lparr>qp_key = key, qp_value = None, qp_invalid = True, qp_raw = Some part\<rparr>
         | Some value \<Rightarrow> \<lparr>qp_key = key, qp_value = Some value, qp_invalid = False, qp_raw = Some part\<rparr>))))"

(* models packages/core/src/shared/url-state.ts:159-171 pairs *)
definition query_pairs :: "string \<Rightarrow> url_error + qpair list" where
  "query_pairs query =
     (if length query > MAX_QUERY_LENGTH then Inl Limit
      else (let parts = filter (\<lambda>p. p \<noteq> []) (split_on CHR ''&'' query) in
        if length parts > MAX_PAIRS then Inl Limit else Inr (map read_pair parts)))"


section \<open>Reading\<close>

datatype issue = InvalidEncoding | RepeatedScalar | InvalidValue

text \<open>The parser of the items over the values of the entries: \<open>None\<close> when it throws for one.\<close>

fun parse_all :: "'n item \<Rightarrow> qpair list \<Rightarrow> 'n uscalar option list option" where
  "parse_all it [] = Some []"
| "parse_all it (e # es) = (case (case qp_value e of None \<Rightarrow> Some None | Some v \<Rightarrow> it_parse it v) of
     None \<Rightarrow> None
   | Some r \<Rightarrow> map_option (\<lambda>rs. r # rs) (parse_all it es))"

fun all_some :: "'a option list \<Rightarrow> 'a list option" where
  "all_some [] = Some []"
| "all_some (None # xs) = None"
| "all_some (Some x # xs) = map_option (\<lambda>ys. x # ys) (all_some xs)"

(* models packages/core/src/shared/url-state.ts:192-211 read *)
definition read_field :: "'n nums \<Rightarrow> 'n codec \<Rightarrow> qpair list \<Rightarrow> ('n uvalue \<times> issue option) option" where
  "read_field nm cd entries =
     (let bad = (\<lambda>i. Some (cd_default cd, Some i));
          bare = (length entries = 1 \<and> qp_value (hd entries) = None) in
      if list_ex qp_invalid entries then bad InvalidEncoding
      else if cd_maxItems cd = None \<and> length entries > 1 then bad RepeatedScalar
      else if entries = [] then Some (cd_default cd, None)
      else (case cd_maxItems cd of
         Some mx \<Rightarrow>
           if length entries > mx \<and> \<not> bare then bad InvalidValue
           else (case (if bare then Some [] else parse_all (cd_item cd) entries) of
               None \<Rightarrow> None
             | Some decoded \<Rightarrow> (case all_some decoded of
                  Some xs \<Rightarrow> if codec_accepts nm cd (UArr xs) then Some (UArr xs, None) else bad InvalidValue
                | None \<Rightarrow> bad InvalidValue))
       | None \<Rightarrow>
           (case it_parse (cd_item cd) (case qp_value (hd entries) of Some v \<Rightarrow> v | None \<Rightarrow> []) of
               None \<Rightarrow> None
             | Some None \<Rightarrow> bad InvalidValue
             | Some (Some x) \<Rightarrow> if codec_accepts nm cd (UScalar x) then Some (UScalar x, None) else bad InvalidValue)))"

text \<open>The values and issues of all fields, in the order of the keys.\<close>

(* models packages/core/src/shared/url-state.ts:187-217 read *)
definition url_read :: "'n nums \<Rightarrow> (ustring \<times> 'n codec) list \<Rightarrow> string \<Rightarrow> url_error + (ustring \<times> 'n uvalue \<times> issue option) list" where
  "url_read nm fs query = bindr (query_pairs query) (\<lambda>ps.
     mapr (\<lambda>(k, cd). case read_field nm cd (filter (\<lambda>p. qp_key p = k) ps) of
        None \<Rightarrow> Inl (CodecFailed k) | Some (v, i) \<Rightarrow> Inr (k, v, i)) fs)"


section \<open>Building a query\<close>

text \<open>The texts of one field: the value must be accepted, and each item must read back as itself.\<close>

(* models packages/core/src/shared/url-state.ts:236-239 url *)
definition encode_item :: "'n nums \<Rightarrow> ustring \<Rightarrow> 'n item \<Rightarrow> 'n uscalar \<Rightarrow> url_error + qpair" where
  "encode_item nm k it x = (case it_encode it x of
     None \<Rightarrow> Inl (CodecFailed k)
   | Some t \<Rightarrow> if scalar nm (UStr t) \<and> it_parse it t = Some (Some x)
        then Inr \<lparr>qp_key = k, qp_value = Some t, qp_invalid = False, qp_raw = None\<rparr> else Inl (CodecFailed k))"

definition requested :: "'n codec \<Rightarrow> 'n uvalue option \<Rightarrow> 'n uvalue \<Rightarrow> 'n uvalue" where
  "requested cd change previous = (case change of Some UUndef \<Rightarrow> cd_default cd | Some v \<Rightarrow> v | None \<Rightarrow> previous)"

(* models packages/core/src/shared/url-state.ts:228-232 url *)
definition field_pairs :: "'n nums \<Rightarrow> bool \<Rightarrow> ustring \<Rightarrow> 'n codec \<Rightarrow> 'n uvalue \<Rightarrow> url_error + qpair list" where
  "field_pairs nm include k cd v =
     (if \<not> codec_accepts nm cd v then Inl (ValueInvalid k)
      else if v = UUndef \<or> \<not> include \<and> v = cd_default cd then Inr []
      else (case v of
         UArr [] \<Rightarrow> Inr [\<lparr>qp_key = k, qp_value = None, qp_invalid = False, qp_raw = None\<rparr>]
       | UArr xs \<Rightarrow> mapr (encode_item nm k (cd_item cd)) xs
       | UScalar x \<Rightarrow> mapr (encode_item nm k (cd_item cd)) [x]
       | UUndef \<Rightarrow> Inr []))"

(* models packages/core/src/shared/url-state.ts:242-246 url *)
definition pair_text :: "qpair \<Rightarrow> string" where
  "pair_text p = (case qp_raw p of
     Some raw \<Rightarrow> raw
   | None \<Rightarrow> form_encode (qp_key p) @ (case qp_value p of None \<Rightarrow> [] | Some v \<Rightarrow> CHR ''='' # form_encode v))"

(* models packages/core/src/shared/url-state.ts:220-249 url *)
definition url_query :: "'n nums \<Rightarrow> (ustring \<times> 'n codec) list \<Rightarrow> bool \<Rightarrow> string \<Rightarrow> (ustring \<times> 'n uvalue) list \<Rightarrow> url_error + string" where
  "url_query nm fs include query patch = bindr (url_read nm fs query) (\<lambda>previous.
     bindr (mapr (\<lambda>(k, v). guardr (k \<in> set (map fst fs)) (FieldUnknown k)) patch) (\<lambda>_.
     bindr (query_pairs query) (\<lambda>ps.
     bindr (mapr (\<lambda>((k, cd), (k', v, i)). field_pairs nm include k cd (requested cd (map_of patch k) v)) (zip fs previous)) (\<lambda>new.
       let result = filter (\<lambda>p. qp_key p \<notin> set (map fst fs)) ps @ concat new; q = join_with ''&'' (map pair_text result)
       in if length q > MAX_QUERY_LENGTH \<or> length result > MAX_PAIRS then Inl Limit else Inr q))))"

text \<open>The text of the new URL.\<close>

definition url_text :: "string \<Rightarrow> string \<Rightarrow> string \<Rightarrow> string" where
  "url_text pathname query hash = pathname @ (if query = [] then [] else CHR ''?'' # query) @ hash"

text \<open>The keys of a declaration in the order of their UTF-16 code units.\<close>

definition utf16 :: "ustring \<Rightarrow> nat list" where
  "utf16 s = concat (map (\<lambda>n. if n < 65536 then [n] else [55296 + (n - 65536) div 1024, 56320 + (n - 65536) mod 1024]) s)"

fun units_cmp :: "nat list \<Rightarrow> nat list \<Rightarrow> int" where
  "units_cmp [] [] = 0"
| "units_cmp [] ys = - 1"
| "units_cmp xs [] = 1"
| "units_cmp (x # xs) (y # ys) = (if x < y then - 1 else if y < x then 1 else units_cmp xs ys)"

(* models packages/core/src/shared/url-state.ts:182-186 defineUrlState *)
definition defineUrlState :: "'n nums \<Rightarrow> (ustring \<times> 'n codec) list \<Rightarrow> url_error + (ustring \<times> 'n codec) list" where
  "defineUrlState nm shape =
     (let keys = map fst shape in
      if keys = [] \<or> length keys > MAX_FIELDS \<or> list_ex (\<lambda>k. k = [] \<or> utf16_length k > 128 \<or> \<not> scalar nm (UStr k)) keys then Inl DeclarationInvalid
      else Inr (sort_by (\<lambda>a b. units_cmp (utf16 (fst a)) (utf16 (fst b))) shape))"

end
