(* ===== verification/Url_State_Facts.thy ===== *)
theory Url_State_Facts
  imports Url_State
begin

text \<open>
  Reading what was built gives the values asked for; foreign pairs of the query survive byte for byte;
  every value read is one its codec accepts.
\<close>

section \<open>Pairs and their texts\<close>

lemma read_pair_raw [simp]: "qp_raw (read_pair part) = Some part"
  by (auto simp: read_pair_def split: prod.split option.split)

lemma pair_text_read [simp]: "pair_text (read_pair part) = part"
  by (simp add: pair_text_def)

text \<open>A pair that \<open>url\<close> makes itself, and how it reads back.\<close>

definition own_pair :: "qpair \<Rightarrow> bool" where
  "own_pair p \<longleftrightarrow> qp_raw p = None \<and> \<not> qp_invalid p \<and> qp_key p \<noteq> [] \<and> list_all valid_cp (qp_key p)
     \<and> (case qp_value p of None \<Rightarrow> True | Some v \<Rightarrow> list_all valid_cp v)"

lemma split_pair_none: "CHR ''='' \<notin> set k \<Longrightarrow> split_pair k = (k, None)"
proof -
  assume "CHR ''='' \<notin> set k"
  then have "takeWhile (\<lambda>c. c \<noteq> CHR ''='') k = k" by (induction k) auto
  then show ?thesis by (simp add: split_pair_def del: takeWhile_eq_all_conv)
qed

lemma split_pair_some: "CHR ''='' \<notin> set k \<Longrightarrow> split_pair (k @ CHR ''='' # v) = (k, Some v)"
proof -
  assume "CHR ''='' \<notin> set k"
  then have "takeWhile (\<lambda>c. c \<noteq> CHR ''='') (k @ CHR ''='' # v) = k" by (induction k) auto
  then show ?thesis by (simp add: split_pair_def)
qed

lemma read_own_pair:
  assumes "own_pair p"
  shows "qp_key (read_pair (pair_text p)) = qp_key p" "qp_value (read_pair (pair_text p)) = qp_value p"
    "\<not> qp_invalid (read_pair (pair_text p))" "pair_text p \<noteq> []" "CHR ''&'' \<notin> set (pair_text p)"
proof -
  let ?k = "form_encode (qp_key p)"
  have k: "list_all valid_cp (qp_key p)" "qp_key p \<noteq> []"
    using assms by (auto simp: own_pair_def)
  note ke = form_encode_plain [OF k(1)]
  have "read_pair (pair_text p) = \<lparr>qp_key = qp_key p, qp_value = qp_value p, qp_invalid = False, qp_raw = Some (pair_text p)\<rparr>
     \<and> pair_text p \<noteq> [] \<and> CHR ''&'' \<notin> set (pair_text p)"
  proof (cases "qp_value p")
    case None
    then have "pair_text p = ?k" using assms by (simp add: pair_text_def own_pair_def)
    then show ?thesis using None ke k split_pair_none [OF ke(2)] decode_form_encode [OF k(1)]
      by (simp add: read_pair_def)
  next
    case (Some v)
    then have v: "list_all valid_cp v" using assms by (simp add: own_pair_def)
    have "pair_text p = ?k @ CHR ''='' # form_encode v" using assms Some by (simp add: pair_text_def own_pair_def)
    then show ?thesis
      using Some ke k split_pair_some [OF ke(2)] decode_form_encode [OF k(1)] decode_form_encode [OF v] form_encode_plain [OF v]
      by (simp add: read_pair_def)
  qed
  then show "qp_key (read_pair (pair_text p)) = qp_key p" "qp_value (read_pair (pair_text p)) = qp_value p"
    "\<not> qp_invalid (read_pair (pair_text p))" "pair_text p \<noteq> []" "CHR ''&'' \<notin> set (pair_text p)"
    by simp_all
qed

text \<open>The texts of pairs, joined, split into the same texts.\<close>

lemma split_joined:
  assumes "\<And>t. t \<in> set ts \<Longrightarrow> t \<noteq> [] \<and> CHR ''&'' \<notin> set t"
  shows "filter (\<lambda>p. p \<noteq> []) (split_on CHR ''&'' (join_with ''&'' ts)) = ts"
proof (cases "ts = []")
  case False
  have "split_on CHR ''&'' (join_with ''&'' ts) = ts"
    by (rule split_join_with [OF False]) (use assms in auto)
  then show ?thesis using assms by (auto intro: filter_True)
qed simp

lemma query_pairs_parts:
  assumes "query_pairs query = Inr ps" "p \<in> set ps"
  shows "p = read_pair (pair_text p) \<and> pair_text p \<noteq> [] \<and> CHR ''&'' \<notin> set (pair_text p)"
proof -
  obtain t where "t \<in> set (split_on CHR ''&'' query)" "t \<noteq> []" "p = read_pair t"
    using assms by (auto simp: query_pairs_def Let_def split: if_splits)
  then show ?thesis using split_on_parts [of t "CHR ''&''" query] by simp
qed

lemma query_pairs_built:
  assumes "\<And>p. p \<in> set ps \<Longrightarrow> pair_text p \<noteq> [] \<and> CHR ''&'' \<notin> set (pair_text p)"
    and "length (join_with ''&'' (map pair_text ps)) \<le> MAX_QUERY_LENGTH" "length ps \<le> MAX_PAIRS"
  shows "query_pairs (join_with ''&'' (map pair_text ps)) = Inr (map (\<lambda>p. read_pair (pair_text p)) ps)"
proof -
  have "filter (\<lambda>p. p \<noteq> []) (split_on CHR ''&'' (join_with ''&'' (map pair_text ps))) = map pair_text ps"
    by (rule split_joined) (use assms(1) in auto)
  then show ?thesis using assms(2,3) by (simp add: query_pairs_def)
qed


section \<open>One field\<close>

lemma encode_item_pair:
  assumes "encode_item nm k it x = Inr p" "k \<noteq> []" "list_all valid_cp k"
  shows "own_pair p" "qp_key p = k" "\<exists>t. qp_value p = Some t \<and> it_parse it t = Some (Some x)"
  using assms by (auto simp: encode_item_def own_pair_def split: option.splits if_splits)

lemma mapr_encode:
  assumes "mapr (encode_item nm k it) xs = Inr ps" "k \<noteq> []" "list_all valid_cp k"
  shows "list_all (\<lambda>p. own_pair p \<and> qp_key p = k \<and> qp_value p \<noteq> None) ps" "parse_all it ps = Some (map Some xs)" "length ps = length xs"
  using assms
proof (induction xs arbitrary: ps)
  case (Cons x xs)
  case 1
  with Cons encode_item_pair show ?case by (fastforce simp: list_all_iff)
next
  case (Cons x xs)
  case 2
  then obtain p qs where p: "encode_item nm k it x = Inr p" "mapr (encode_item nm k it) xs = Inr qs" "ps = p # qs" by auto
  with Cons 2 encode_item_pair(3) [OF p(1)] show ?case by auto
next
  case (Cons x xs)
  case 3
  with Cons show ?case by auto
qed simp_all

lemma parse_all_values: "map qp_value es = map qp_value ps \<Longrightarrow> parse_all it es = parse_all it ps"
proof (induction es arbitrary: ps)
  case (Cons e es)
  then obtain p ps' where ps: "ps = p # ps'" "qp_value e = qp_value p" "map qp_value es = map qp_value ps'"
    by (cases ps) auto
  with Cons.IH [OF ps(3)] show ?case by (simp split: option.split)
qed simp

lemma all_some_map [simp]: "all_some (map Some xs) = Some xs"
  by (induction xs) auto

text \<open>What one field contributes reads back as its value.\<close>

lemma read_field_built:
  assumes fp: "field_pairs nm include k cd v = Inr ps" and k: "k \<noteq> []" "list_all valid_cp k"
    and es: "map qp_value es = map qp_value ps" "\<not> list_ex qp_invalid es"
  shows "read_field nm cd es = Some (v, None)"
proof -
  have acc: "codec_accepts nm cd v"
    using fp by (simp add: field_pairs_def split: if_splits)
  have len: "length es = length ps" using es(1) by (metis length_map)
  show ?thesis
  proof (cases "v = UUndef \<or> \<not> include \<and> v = cd_default cd")
    case True
    then have "ps = []" using fp acc by (simp add: field_pairs_def)
    moreover have "v = cd_default cd" using True acc by (auto split: uvalue.splits)
    ultimately show ?thesis using len by (simp add: read_field_def)
  next
    case False
    show ?thesis
    proof (cases v)
      case (UScalar x)
      then obtain p where p: "ps = [p]" "encode_item nm k (cd_item cd) x = Inr p"
        using fp acc False by (auto simp: field_pairs_def split: if_splits)
      then obtain t where t: "qp_value p = Some t" "it_parse (cd_item cd) t = Some (Some x)"
        using encode_item_pair(3) [OF p(2) k] by blast
      obtain e where e: "es = [e]" "qp_value e = Some t"
        using es(1) p t by (auto simp: map_eq_Cons_conv)
      have "cd_maxItems cd = None" using acc UScalar by simp
      with e t es(2) acc UScalar show ?thesis by (simp add: read_field_def)
    next
      case (UArr xs)
      then obtain mx where mx: "cd_maxItems cd = Some mx" "length xs \<le> mx"
        using acc by (auto split: option.splits)
      show ?thesis
      proof (cases xs)
        case Nil
        then have "ps = [\<lparr>qp_key = k, qp_value = None, qp_invalid = False, qp_raw = None\<rparr>]"
          using fp acc False UArr by (simp add: field_pairs_def split: if_splits)
        then obtain e where "es = [e]" "qp_value e = None"
          using es(1) by (auto simp: map_eq_Cons_conv)
        with es(2) mx acc UArr Nil show ?thesis by (simp add: read_field_def)
      next
        case (Cons y ys)
        then have ps: "mapr (encode_item nm k (cd_item cd)) xs = Inr ps"
          using fp acc False UArr by (simp add: field_pairs_def split: if_splits)
        note m = mapr_encode [OF ps k]
        have "parse_all (cd_item cd) es = Some (map Some xs)"
          by (simp add: parse_all_values [OF es(1)] m(2))
        moreover have "es \<noteq> []" "length es \<le> mx" using len m(3) Cons mx by auto
        moreover have "qp_value (hd es) \<noteq> None"
        proof -
          obtain e es' where "es = e # es'" using \<open>es \<noteq> []\<close> by (cases es) auto
          then obtain p ps' where "ps = p # ps'" "qp_value e = qp_value p" using es(1) by (auto simp: map_eq_Cons_conv)
          then show ?thesis using m(1) \<open>es = e # es'\<close> by simp
        qed
        ultimately show ?thesis using es(2) mx acc UArr by (auto simp: read_field_def)
      qed
    qed (use False in simp)
  qed
qed



section \<open>All fields\<close>

text \<open>The pairs a field contributes carry its key.\<close>

lemma field_pairs_own:
  assumes "field_pairs nm include k cd v = Inr ps" "k \<noteq> []" "list_all valid_cp k"
  shows "list_all (\<lambda>p. own_pair p \<and> qp_key p = k) ps"
proof -
  have e: "own_pair \<lparr>qp_key = k, qp_value = None, qp_invalid = False, qp_raw = None\<rparr>"
    using assms(2,3) by (simp add: own_pair_def)
  have m: "mapr (encode_item nm k (cd_item cd)) xs = Inr ps \<Longrightarrow> list_all (\<lambda>p. own_pair p \<and> qp_key p = k) ps" for xs
    using mapr_encode(1) [OF _ assms(2,3)] by (fastforce simp: list_all_iff)
  show ?thesis
    using assms(1) e m by (auto simp: field_pairs_def simp del: mapr.simps split: if_splits uvalue.splits list.splits)
qed

lemma filter_concat_keys:
  assumes "list_all2 (\<lambda>k qs. list_all (\<lambda>p. qp_key p = k) qs) ks qss" "distinct ks"
  shows "list_all2 (\<lambda>k qs. filter (\<lambda>p. qp_key p = k) (concat qss) = qs) ks qss"
  using assms
proof (induction ks qss rule: list_all2_induct)
  case (Cons k ks qs qss)
  have none: "filter (\<lambda>p. qp_key p = k) (concat qss) = []"
  proof -
    have "p \<in> set (concat qss) \<Longrightarrow> qp_key p \<in> set ks" for p
      using Cons(2) by (induction ks qss rule: list_all2_induct) (auto simp: list_all_iff)
    then show ?thesis using Cons.prems by (fastforce simp: filter_empty_conv)
  qed
  have own: "filter (\<lambda>p. qp_key p = k') qs = []" if "k' \<in> set ks" for k'
    using that Cons by (auto simp: filter_empty_conv list_all_iff)
  have "list_all2 (\<lambda>k' qs'. filter (\<lambda>p. qp_key p = k') (concat (qs # qss)) = qs') ks qss"
    using Cons.IH Cons.prems own by (auto simp: list_all2_conv_all_nth)
  then show ?case using Cons none by (auto simp: list_all_iff filter_id_conv)
qed simp

lemma mapr_zip:
  "mapr f xs = Inr ys \<longleftrightarrow> list_all2 (\<lambda>x y. f x = Inr y) xs ys"
  by (induction xs arbitrary: ys) (auto simp: list_all2_Cons1)

text \<open>The declaration: distinct, non-empty keys of valid text.\<close>

definition declared :: "(ustring \<times> 'n codec) list \<Rightarrow> bool" where
  "declared fs \<longleftrightarrow> distinct (map fst fs) \<and> list_all (\<lambda>k. k \<noteq> [] \<and> list_all valid_cp k) (map fst fs)"

lemma defineUrlState_declared:
  assumes "defineUrlState nm shape = Inr fs" "distinct (map fst shape)"
  shows "declared fs"
proof -
  let ?s = "sort_by (\<lambda>a b. units_cmp (utf16 (fst a)) (utf16 (fst b))) shape"
  have fs: "fs = ?s" and ok: "\<And>k. k \<in> set (map fst shape) \<Longrightarrow> k \<noteq> [] \<and> list_all valid_cp k"
    using assms(1) by (auto simp: defineUrlState_def Let_def list_ex_iff split: if_splits)
  have "distinct (map fst ?s)"
    using assms(2) by (simp add: distinct_map)
  with fs ok show ?thesis by (simp add: declared_def list_all_iff)
qed

text \<open>The values a query is built for.\<close>

definition wanted :: "(ustring \<times> 'n codec) list \<Rightarrow> (ustring \<times> 'n uvalue) list \<Rightarrow> (ustring \<times> 'n uvalue \<times> issue option) list
    \<Rightarrow> (ustring \<times> 'n uvalue \<times> issue option) list" where
  "wanted fs patch previous = map (\<lambda>((k, cd), (k', v, i)). (k, requested cd (map_of patch k) v, None)) (zip fs previous)"

lemma url_query_parts:
  assumes "url_query nm fs include query patch = Inr q"
  obtains previous ps new where "url_read nm fs query = Inr previous" "query_pairs query = Inr ps"
    "mapr (\<lambda>((k, cd), (k', v, i)). field_pairs nm include k cd (requested cd (map_of patch k) v)) (zip fs previous) = Inr new"
    "q = join_with ''&'' (map pair_text (filter (\<lambda>p. qp_key p \<notin> set (map fst fs)) ps @ concat new))"
    "length q \<le> MAX_QUERY_LENGTH" "length (filter (\<lambda>p. qp_key p \<notin> set (map fst fs)) ps @ concat new) \<le> MAX_PAIRS"
  using assms unfolding url_query_def by (auto simp: Let_def simp del: length_append split: if_splits)

lemma url_read_length: "url_read nm fs query = Inr previous \<Longrightarrow> length previous = length fs"
  by (auto simp: url_read_def dest: mapr_Inr_length)

lemma all_own:
  assumes "list_all2 (\<lambda>f qs. list_all (\<lambda>p. own_pair p \<and> qp_key p = fst f) qs) fs new" "p \<in> set (concat new)"
  shows "own_pair p"
  using assms by (induction fs new rule: list_all2_induct) (auto simp: list_all_iff)

text \<open>The pairs of a built query: the foreign ones as they were, then those of each field.\<close>

lemma built_pairs:
  assumes decl: "declared fs" and ps: "query_pairs query = Inr ps" and len: "length previous = length fs"
    and new: "mapr (\<lambda>((k, cd), (k', v, i)). field_pairs nm include k cd (requested cd (map_of patch k) v)) (zip fs previous) = Inr new"
    and q: "q = join_with ''&'' (map pair_text (filter (\<lambda>p. qp_key p \<notin> set (map fst fs)) ps @ concat new))"
    and lim: "length q \<le> MAX_QUERY_LENGTH" "length (filter (\<lambda>p. qp_key p \<notin> set (map fst fs)) ps @ concat new) \<le> MAX_PAIRS"
  shows "query_pairs q = Inr (filter (\<lambda>p. qp_key p \<notin> set (map fst fs)) ps @ map (\<lambda>p. read_pair (pair_text p)) (concat new))"
    and "list_all2 (\<lambda>f qs. list_all (\<lambda>p. own_pair p \<and> qp_key p = fst f) qs) fs new"
proof -
  let ?others = "filter (\<lambda>p. qp_key p \<notin> set (map fst fs)) ps"
  have n: "length new = length fs" using new len by (auto dest: mapr_Inr_length)
  show own: "list_all2 (\<lambda>f qs. list_all (\<lambda>p. own_pair p \<and> qp_key p = fst f) qs) fs new"
  proof (rule list_all2_all_nthI)
    fix j assume j: "j < length fs"
    obtain k cd where f: "fs ! j = (k, cd)" by fastforce
    obtain k' v i where p: "previous ! j = (k', v, i)" by (metis prod_cases3)
    have "field_pairs nm include k cd (requested cd (map_of patch k) v) = Inr (new ! j)"
      using mapr_Inr_nth [OF new, of j] j len f p by simp
    moreover have "k \<noteq> []" "list_all valid_cp k"
      using decl j f nth_mem [OF j] by (auto simp: declared_def list_all_iff)
    ultimately show "list_all (\<lambda>p. own_pair p \<and> qp_key p = fst (fs ! j)) (new ! j)"
      using field_pairs_own f by fastforce
  qed (simp add: n)
  have others: "read_pair (pair_text p) = p \<and> pair_text p \<noteq> [] \<and> CHR ''&'' \<notin> set (pair_text p)" if "p \<in> set ?others" for p
    using query_pairs_parts [OF ps, of p] that by auto
  have mine: "own_pair p" if "p \<in> set (concat new)" for p
    using all_own [OF own that] .
  have "query_pairs q = Inr (map (\<lambda>p. read_pair (pair_text p)) (?others @ concat new))"
    unfolding q
  proof (rule query_pairs_built)
    fix p assume "p \<in> set (?others @ concat new)"
    then consider "p \<in> set ?others" | "p \<in> set (concat new)" by (metis Un_iff set_append)
    then show "pair_text p \<noteq> [] \<and> CHR ''&'' \<notin> set (pair_text p)"
      using others mine read_own_pair(4,5) by cases blast+
  qed (use lim q in simp_all)
  moreover have "map (\<lambda>p. read_pair (pair_text p)) ?others = ?others"
    using others by (intro map_idI) blast
  ultimately show "query_pairs q = Inr (?others @ map (\<lambda>p. read_pair (pair_text p)) (concat new))"
    by simp
qed

lemma built_entries:
  assumes decl: "declared fs" and own: "list_all2 (\<lambda>f qs. list_all (\<lambda>p. own_pair p \<and> qp_key p = fst f) qs) fs new"
    and j: "j < length fs"
    and es_def: "es = filter (\<lambda>p. qp_key p = fst (fs ! j)) (filter (\<lambda>p. qp_key p \<notin> set (map fst fs)) ps @ map (\<lambda>p. read_pair (pair_text p)) (concat new))"
  shows "map qp_value es = map qp_value (new ! j)" "\<not> list_ex qp_invalid es"
proof -
  let ?R = "\<lambda>p. read_pair (pair_text p)"
  have mine: "own_pair p" if "p \<in> set (concat new)" for p
    using all_own [OF own that] .
  have k: "fst (fs ! j) \<in> set (map fst fs)" using j by simp
  then have "filter (\<lambda>p. qp_key p = fst (fs ! j)) (filter (\<lambda>p. qp_key p \<notin> set (map fst fs)) ps) = []"
    unfolding filter_empty_conv by (metis (mono_tags, lifting) mem_Collect_eq set_filter)
  then have "es = filter (\<lambda>p. qp_key p = fst (fs ! j)) (map ?R (concat new))"
    by (simp add: es_def del: filter_filter)
  also have "\<dots> = map ?R (filter (\<lambda>p. qp_key p = fst (fs ! j)) (concat new))"
    unfolding filter_map comp_def using mine read_own_pair(1) by (intro arg_cong [where f = "map ?R"] filter_cong) auto
  also have "filter (\<lambda>p. qp_key p = fst (fs ! j)) (concat new) = new ! j"
  proof -
    have "list_all2 (\<lambda>k qs. list_all (\<lambda>p. qp_key p = k) qs) (map fst fs) new"
      using own by (auto simp: list_all2_conv_all_nth list_all_iff)
    from filter_concat_keys [OF this] decl j show ?thesis by (auto simp: declared_def list_all2_conv_all_nth)
  qed
  finally have es: "es = map ?R (new ! j)" .
  have mj: "own_pair p" if "p \<in> set (new ! j)" for p
    using own that j by (auto simp: list_all2_conv_all_nth list_all_iff)
  then show "map qp_value es = map qp_value (new ! j)" "\<not> list_ex qp_invalid es"
    using read_own_pair(2,3) by (auto simp: es list_ex_iff)
qed

text \<open>C33. A query that is built reads back: when \<open>url\<close> returns a query for changed values, reading it succeeds,
  reports no issue, and gives each field the value asked for, its default where the change was \<open>undefined\<close>,
  and its previous value where nothing was asked; for any codecs, application-owned ones included, and any
  foreign pairs in the query.\<close>
theorem built_query_reads_back:
  assumes "defineUrlState nm shape = Inr fs" "distinct (map fst shape)"
    and "url_query nm fs include query patch = Inr q" "url_read nm fs query = Inr previous"
  shows "url_read nm fs q = Inr (wanted fs patch previous)"
proof -
  note decl = defineUrlState_declared [OF assms(1,2)]
  obtain ps new where ps: "query_pairs query = Inr ps"
    and new: "mapr (\<lambda>((k, cd), (k', v, i)). field_pairs nm include k cd (requested cd (map_of patch k) v)) (zip fs previous) = Inr new"
    and q: "q = join_with ''&'' (map pair_text (filter (\<lambda>p. qp_key p \<notin> set (map fst fs)) ps @ concat new))"
    and lim: "length q \<le> MAX_QUERY_LENGTH" "length (filter (\<lambda>p. qp_key p \<notin> set (map fst fs)) ps @ concat new) \<le> MAX_PAIRS"
    by (rule url_query_parts [OF assms(3)]) (use assms(4) in auto)
  have len: "length previous = length fs" by (rule url_read_length [OF assms(4)])
  note b = built_pairs [OF decl ps len new q lim]
  show ?thesis
    unfolding url_read_def b(1) bindr.simps mapr_zip
  proof (rule list_all2_all_nthI)
    fix j assume j: "j < length fs"
    obtain k cd where f: "fs ! j = (k, cd)" by fastforce
    obtain k' v i where p: "previous ! j = (k', v, i)" by (metis prod_cases3)
    have "field_pairs nm include k cd (requested cd (map_of patch k) v) = Inr (new ! j)"
      using mapr_Inr_nth [OF new, of j] j len f p by simp
    moreover have "k \<noteq> []" "list_all valid_cp k"
      using decl j f nth_mem [OF j] by (auto simp: declared_def list_all_iff)
    ultimately have "read_field nm cd (filter (\<lambda>p. qp_key p = k) (filter (\<lambda>p. qp_key p \<notin> set (map fst fs)) ps @ map (\<lambda>p. read_pair (pair_text p)) (concat new)))
        = Some (requested cd (map_of patch k) v, None)"
      by (rule read_field_built) (use built_entries [OF decl b(2) j] f in auto)
    then show "(case fs ! j of (k, cd) \<Rightarrow> case read_field nm cd (filter (\<lambda>p. qp_key p = k)
          (filter (\<lambda>p. qp_key p \<notin> set (map fst fs)) ps @ map (\<lambda>p. read_pair (pair_text p)) (concat new))) of
        None \<Rightarrow> Inl (CodecFailed k) | Some (v, i) \<Rightarrow> Inr (k, v, i)) = Inr (wanted fs patch previous ! j)"
      using j len f p by (simp add: wanted_def)
  qed (simp add: wanted_def len)
qed

definition int_nums :: "int nums" where
  "int_nums = \<lparr>nm_finite = (\<lambda>x. True), nm_le = (\<le>), nm_safe_integer = safe_int,
     nm_parse = foldl (\<lambda>n d. 10 * n + (int d - 48)) 0, nm_text = (\<lambda>x. ascii (int_text x))\<rparr>"

definition sample_shape :: "(ustring \<times> int codec) list" where
  "sample_shape = (case (stringCodec int_nums 0 2048 [], numberCodec int_nums 1 1000 True 1) of
     (Inr s, Inr n) \<Rightarrow> (case arrayCodec int_nums s 100 [] of Inr a \<Rightarrow> [(ascii ''page'', n), (ascii ''q'', s), (ascii ''tags'', a)] | _ \<Rightarrow> [])
   | _ \<Rightarrow> [])"

definition sample_patch :: "(ustring \<times> int uvalue) list" where
  "sample_patch = [(ascii ''q'', UScalar (UStr [38, 38634])), (ascii ''tags'', UArr [UStr [], UStr (ascii ''a b'')])]"

definition sample_fields :: "(ustring \<times> int codec) list" where
  "sample_fields = (case defineUrlState int_nums sample_shape of Inr fs \<Rightarrow> fs | Inl e \<Rightarrow> [])"

lemma sample_declared: "defineUrlState int_nums sample_shape = Inr sample_fields" "distinct (map fst sample_shape)"
proof -
  have "\<not> isl (defineUrlState int_nums sample_shape)" by code_simp
  then show "defineUrlState int_nums sample_shape = Inr sample_fields"
    by (cases "defineUrlState int_nums sample_shape") (simp_all add: sample_fields_def)
  show "distinct (map fst sample_shape)" by code_simp
qed

definition built_query :: string where
  "built_query = ''x=%&page=3&q=%26%E9%9B%AA&tags=&tags=a+b''"

lemma sample_built:
  "url_query int_nums sample_fields False ''page=3&x=%&tags=z'' sample_patch = Inr built_query"
  "url_read int_nums sample_fields ''page=3&x=%&tags=z'' = Inr [(ascii ''page'', UScalar (UNum 3), None), (ascii ''q'', UScalar (UStr []), None),
     (ascii ''tags'', UArr [UStr (ascii ''z'')], None)]"
  by code_simp+

lemma built_query_reads_back_witness:
  "url_read int_nums sample_fields built_query = Inr [(ascii ''page'', UScalar (UNum 3), None), (ascii ''q'', UScalar (UStr [38, 38634]), None),
     (ascii ''tags'', UArr [UStr [], UStr (ascii ''a b'')], None)]"
proof -
  have "wanted sample_fields sample_patch [(ascii ''page'', UScalar (UNum 3), None), (ascii ''q'', UScalar (UStr []), None),
      (ascii ''tags'', UArr [UStr (ascii ''z'')], None)]
    = [(ascii ''page'', UScalar (UNum 3), None), (ascii ''q'', UScalar (UStr [38, 38634]), None), (ascii ''tags'', UArr [UStr [], UStr (ascii ''a b'')], None)]"
    by code_simp
  with built_query_reads_back [OF sample_declared sample_built] show ?thesis by simp
qed


section \<open>What is left alone, and what is read\<close>

text \<open>The texts of the pairs whose key is not declared, in order.\<close>

definition foreign :: "(ustring \<times> 'n codec) list \<Rightarrow> string \<Rightarrow> string list" where
  "foreign fs query = (case query_pairs query of
     Inl e \<Rightarrow> [] | Inr ps \<Rightarrow> map pair_text (filter (\<lambda>p. qp_key p \<notin> set (map fst fs)) ps))"

text \<open>Building a query leaves foreign pairs alone: the pairs of the query whose key is not declared, malformed
  ones included, are the same texts in the same order before and after.\<close>
theorem foreign_pairs_survive:
  assumes "defineUrlState nm shape = Inr fs" "distinct (map fst shape)" "url_query nm fs include query patch = Inr q"
  shows "foreign fs q = foreign fs query"
proof -
  note decl = defineUrlState_declared [OF assms(1,2)]
  obtain previous ps new where rd: "url_read nm fs query = Inr previous" and ps: "query_pairs query = Inr ps"
    and new: "mapr (\<lambda>((k, cd), (k', v, i)). field_pairs nm include k cd (requested cd (map_of patch k) v)) (zip fs previous) = Inr new"
    and q: "q = join_with ''&'' (map pair_text (filter (\<lambda>p. qp_key p \<notin> set (map fst fs)) ps @ concat new))"
    and lim: "length q \<le> MAX_QUERY_LENGTH" "length (filter (\<lambda>p. qp_key p \<notin> set (map fst fs)) ps @ concat new) \<le> MAX_PAIRS"
    by (rule url_query_parts [OF assms(3)])
  note b = built_pairs [OF decl ps url_read_length [OF rd] new q lim]
  have "qp_key (read_pair (pair_text p)) \<in> set (map fst fs)" if "p \<in> set (concat new)" for p
  proof -
    have "qp_key p \<in> set (map fst fs)"
      using b(2) that by (induction fs new rule: list_all2_induct) (auto simp: list_all_iff)
    then show ?thesis using all_own [OF b(2) that] read_own_pair(1) by metis
  qed
  then have "filter (\<lambda>p. qp_key p \<notin> set (map fst fs)) (map (\<lambda>p. read_pair (pair_text p)) (concat new)) = []"
    unfolding filter_empty_conv by (metis (no_types, lifting) imageE set_map)
  then show ?thesis by (simp add: foreign_def b(1) ps)
qed

lemma foreign_pairs_survive_witness: "foreign sample_fields built_query = [''x=%'']"
proof -
  have "foreign sample_fields ''page=3&x=%&tags=z'' = [''x=%'']" by code_simp
  then show ?thesis using foreign_pairs_survive [OF sample_declared sample_built(1)] by simp
qed

text \<open>Codecs made by the constructors accept their default.\<close>

lemma codec_register_accepts: "codec_register nm cd = Inr cd' \<Longrightarrow> codec_accepts nm cd' (cd_default cd')"
  by (auto simp: codec_register_def split: if_splits)

lemma read_field_accepted:
  "codec_accepts nm cd (cd_default cd) \<Longrightarrow> read_field nm cd es = Some (v, i) \<Longrightarrow> codec_accepts nm cd v \<and> (i = None \<or> v = cd_default cd)"
  by (auto simp: read_field_def Let_def split: if_splits option.splits)

text \<open>C34. Every value read is of its field's type: whatever the query is, reading either fails as a whole or
  gives each declared field, in order, a value its codec accepts, which is the default wherever an
  issue is reported.\<close>
theorem read_values_accepted:
  assumes "list_all (\<lambda>(k, cd). codec_accepts nm cd (cd_default cd)) fs" "url_read nm fs query = Inr vs"
  shows "list_all2 (\<lambda>(k, cd) (k', v, i). k' = k \<and> codec_accepts nm cd v \<and> (i = None \<or> v = cd_default cd)) fs vs"
proof -
  obtain ps where "list_all2 (\<lambda>x y. (case x of (k, cd) \<Rightarrow> case read_field nm cd (filter (\<lambda>p. qp_key p = k) ps) of
      None \<Rightarrow> Inl (CodecFailed k) | Some (v, i) \<Rightarrow> Inr (k, v, i)) = Inr y) fs vs"
    using assms(2) by (auto simp: url_read_def mapr_zip)
  then show ?thesis using assms(1)
    by (induction fs vs rule: list_all2_induct) (auto split: option.splits prod.splits dest: read_field_accepted)
qed

lemma read_values_accepted_witness:
  "list_all2 (\<lambda>(k, cd) (k', v, i). k' = k \<and> codec_accepts int_nums cd v \<and> (i = None \<or> v = cd_default cd)) sample_fields
     [(ascii ''page'', UScalar (UNum 1), Some InvalidValue), (ascii ''q'', UScalar (UStr []), Some RepeatedScalar), (ascii ''tags'', UArr [], Some InvalidEncoding)]"
proof (rule read_values_accepted)
  show "list_all (\<lambda>(k, cd). codec_accepts int_nums cd (cd_default cd)) sample_fields" by code_simp
  show "url_read int_nums sample_fields ''page=0&q=a&q=b&tags=%FF'' = Inr [(ascii ''page'', UScalar (UNum 1), Some InvalidValue),
      (ascii ''q'', UScalar (UStr []), Some RepeatedScalar), (ascii ''tags'', UArr [], Some InvalidEncoding)]"
    by code_simp
qed

end
