(* ===== verification/Html_Tokenizer.thy ===== *)
theory Html_Tokenizer
  imports Prelude
begin

text \<open>
  The HTML tokenizer of the renderer (\<open>renderer/src/template-analysis.ts\<close>): a state machine that
  reads at a position and jumps over runs of characters that cannot change its state. It drives the analysis
  of templates and the splitting of markup into tokens.

  A position in a string is represented by the rest of the string from there; every look-up of the code is
  at or after the position. A step returns how many characters it consumed; none, when the character is
  read again in the new state.
\<close>

section \<open>Characters\<close>

(* models packages/renderer/src/template-analysis.ts:145-145 isSpace *)
definition isSpace :: "char \<Rightarrow> bool" where
  "isSpace ch \<longleftrightarrow> ch = CHR '' '' \<or> ch = CHR 0x0A \<or> ch = CHR 0x09 \<or> ch = CHR 0x0D \<or> ch = CHR 0x0C"

lemma not_space [simp]: "\<not> isSpace CHR ''/''" "\<not> isSpace CHR ''>''" "\<not> isSpace CHR ''=''" "\<not> isSpace CHR ''<''"
  "\<not> isSpace CHR 0x22" "\<not> isSpace CHR 0x27"
  by (simp_all add: isSpace_def)

(* models packages/renderer/src/template-analysis.ts:146-146 isAsciiAlpha *)
definition isAsciiAlpha :: "char option \<Rightarrow> bool" where
  "isAsciiAlpha ch = (case ch of Some c \<Rightarrow> is_lower c \<or> is_upper c | None \<Rightarrow> False)"

text \<open>\<open>str[j + k]\<close>, \<open>undefined\<close> past the end.\<close>

definition char_at :: "string \<Rightarrow> nat \<Rightarrow> char option" where
  "char_at s k = (if k < length s then Some (s ! k) else None)"

(* models packages/renderer/src/template-analysis.ts:178-181 runEnd *)
definition runEnd :: "char \<Rightarrow> string \<Rightarrow> nat" where
  "runEnd stop s = length (takeWhile (\<lambda>c. c \<noteq> stop) s)"

definition name_stop :: "bool \<Rightarrow> char \<Rightarrow> bool" where
  "name_stop stopAtEquals c \<longleftrightarrow> isSpace c \<or> c = CHR ''/'' \<or> c = CHR ''>'' \<or> c = CHR ''='' \<and> stopAtEquals"

(* models packages/renderer/src/template-analysis.ts:185-193 nameEnd *)
definition nameEnd :: "bool \<Rightarrow> string \<Rightarrow> nat" where
  "nameEnd stopAtEquals s = length (takeWhile (\<lambda>c. \<not> name_stop stopAtEquals c) s)"

(* models packages/renderer/src/template-analysis.ts:15-15 RAW_TEXT_TAGS *)
definition RAW_TEXT_TAGS :: "string list" where
  "RAW_TEXT_TAGS = [''script'', ''style'', ''textarea'', ''title'']"


section \<open>The machine\<close>

(* models packages/renderer/src/template-analysis.ts:129-142 State *)
datatype html_state = SData | STagName | SBeforeAttrName | SAttrName | SAfterAttrName | SBeforeAttrValue
  | SAttrValueQuoted | SAttrValueUnquoted | SEndTag | SComment | SBogusComment | SRawText

(* models packages/renderer/src/template-analysis.ts:149-161 Tokenizer *)
record tokenizer =
  tk_state :: html_state
  tk_tagName :: string
  tk_rawTextTag :: string
  tk_quote :: char
  tk_commentTail :: string

(* models packages/renderer/src/template-analysis.ts:164-164 createTokenizer *)
definition createTokenizer :: tokenizer where
  "createTokenizer = \<lparr>tk_state = SData, tk_tagName = [], tk_rawTextTag = [], tk_quote = CHR 0x22, tk_commentTail = []\<rparr>"

(* models packages/renderer/src/template-analysis.ts:167-174 endStartTag *)
definition endStartTag :: "tokenizer \<Rightarrow> tokenizer" where
  "endStartTag t = (if tk_tagName t \<in> set RAW_TEXT_TAGS
     then t\<lparr>tk_state := SRawText, tk_rawTextTag := tk_tagName t\<rparr> else t\<lparr>tk_state := SData\<rparr>)"

definition last_two :: "'a list \<Rightarrow> 'a list" where
  "last_two xs = drop (length xs - 2) xs"

text \<open>Whether the text at \<open><\<close> in a raw-text element ends the element.\<close>

definition ends_raw :: "string \<Rightarrow> string \<Rightarrow> bool" where
  "ends_raw tag s \<longleftrightarrow> char_at s 1 = Some CHR ''/'' \<and> to_lower (take (length tag) (drop 2 s)) = tag \<and>
     (case char_at s (2 + length tag) of None \<Rightarrow> True | Some c \<Rightarrow> isSpace c \<or> c = CHR ''/'' \<or> c = CHR ''>'')"

(* models packages/renderer/src/template-analysis.ts:204-298 step *)
definition html_step :: "tokenizer \<Rightarrow> string \<Rightarrow> tokenizer \<times> nat" where
  "html_step t s = (let ch = hd s; to = (\<lambda>st. t\<lparr>tk_state := st\<rparr>) in case tk_state t of
     SData \<Rightarrow>
       if ch \<noteq> CHR ''<'' then (t, runEnd CHR ''<'' s)
       else if isAsciiAlpha (char_at s 1) then (t\<lparr>tk_state := STagName, tk_tagName := []\<rparr>, 1)
       else if char_at s 1 = Some CHR ''/'' \<and> isAsciiAlpha (char_at s 2) then (to SEndTag, 1)
       else if char_at s 1 = Some CHR ''!'' \<and> char_at s 2 = Some CHR ''-'' \<and> char_at s 3 = Some CHR ''-''
         then (t\<lparr>tk_state := SComment, tk_commentTail := ''--''\<rparr>, 4)
       else if char_at s 1 = Some CHR ''!'' \<or> char_at s 1 = Some CHR ''?'' \<or> char_at s 1 = Some CHR ''/'' \<and> char_at s 2 \<noteq> None
         then (to SBogusComment, 1)
       else (t, 1)
   | STagName \<Rightarrow>
       let end' = nameEnd False s in
       if end' = 0 then (to SBeforeAttrName, 0)
       else (t\<lparr>tk_tagName := tk_tagName t @ to_lower (take end' s)\<rparr>, end')
   | SBeforeAttrName \<Rightarrow>
       if ch = CHR ''>'' then (endStartTag t, 1)
       else if ch = CHR ''/'' then (to SBeforeAttrName, 1)
       else if \<not> isSpace ch then (to SAttrName, 1) else (t, 1)
   | SAfterAttrName \<Rightarrow>
       if ch = CHR ''>'' then (endStartTag t, 1)
       else if ch = CHR ''/'' then (to SBeforeAttrName, 1)
       else if ch = CHR ''='' then (to SBeforeAttrValue, 1)
       else if \<not> isSpace ch then (to SAttrName, 1) else (t, 1)
   | SAttrName \<Rightarrow>
       if isSpace ch then (to SAfterAttrName, 1)
       else if ch = CHR ''/'' \<or> ch = CHR ''>'' then (to SBeforeAttrName, 0)
       else if ch = CHR ''='' then (to SBeforeAttrValue, 1)
       else (t, nameEnd True s)
   | SBeforeAttrValue \<Rightarrow>
       if ch = CHR 0x22 \<or> ch = CHR 0x27 then (t\<lparr>tk_quote := ch, tk_state := SAttrValueQuoted\<rparr>, 1)
       else if ch = CHR ''>'' then (endStartTag t, 1)
       else if \<not> isSpace ch then (to SAttrValueUnquoted, 1) else (t, 1)
   | SAttrValueQuoted \<Rightarrow>
       if ch \<noteq> tk_quote t then (t, runEnd (tk_quote t) s) else (to SBeforeAttrName, 1)
   | SAttrValueUnquoted \<Rightarrow>
       if isSpace ch \<or> ch = CHR ''>'' then (to SBeforeAttrName, 0)
       else (t, if ch = CHR ''/'' then 1 else nameEnd False s)
   | SEndTag \<Rightarrow> if ch \<noteq> CHR ''>'' then (t, runEnd CHR ''>'' s) else (to SData, 1)
   | SBogusComment \<Rightarrow> if ch \<noteq> CHR ''>'' then (t, runEnd CHR ''>'' s) else (to SData, 1)
   | SComment \<Rightarrow>
       if ch = CHR ''>'' \<and> tk_commentTail t = ''--'' then (to SData, 1)
       else (let end' = max (runEnd CHR ''>'' s) 1 in
         (t\<lparr>tk_commentTail := last_two (tk_commentTail t @ drop (end' - 2) (take end' s))\<rparr>, end'))
   | SRawText \<Rightarrow>
       if ch \<noteq> CHR ''<'' then (t, runEnd CHR ''<'' s)
       else (if ends_raw (tk_rawTextTag t) s then to SEndTag else t, 1))"

text \<open>A step that consumes nothing leaves a state for one in which every step consumes.\<close>

definition rereads :: "html_state \<Rightarrow> bool" where
  "rereads st \<longleftrightarrow> st = STagName \<or> st = SAttrName \<or> st = SAttrValueUnquoted"

lemma run_positive: "c \<noteq> stop \<Longrightarrow> 0 < runEnd stop (c # s)" "\<not> name_stop b c \<Longrightarrow> 0 < nameEnd b (c # s)"
  by (simp_all add: runEnd_def nameEnd_def)

lemma endStartTag_state: "tk_state (endStartTag t) = SRawText \<or> tk_state (endStartTag t) = SData"
  by (simp add: endStartTag_def)

lemma html_step_consumes:
  assumes "html_step t (c # s) = (t', 0)"
  shows "rereads (tk_state t) \<and> tk_state t' = SBeforeAttrName"
proof -
  have p: "runEnd stop (c # s) = 0 \<longleftrightarrow> c = stop" "nameEnd b (c # s) = 0 \<longleftrightarrow> name_stop b c" for stop b
    by (simp_all add: runEnd_def nameEnd_def)
  show ?thesis
    using assms
    by (cases "tk_state t") (auto simp: html_step_def Let_def rereads_def p name_stop_def split: if_splits)
qed

lemma run_le: "runEnd stop s \<le> length s" "nameEnd b s \<le> length s"
  by (simp_all add: runEnd_def nameEnd_def length_takeWhile_le)

lemma html_step_le:
  assumes "html_step t (c # s) = (t', n)"
  shows "n \<le> length (c # s)"
proof -
  have "char_at (c # s) 3 \<noteq> None \<Longrightarrow> 4 \<le> length (c # s)"
    by (simp add: char_at_def split: if_splits)
  moreover note run_le [of _ "c # s"]
  ultimately show ?thesis
    using assms
    by (cases "tk_state t") (force simp: html_step_def Let_def simp del: length_Cons split: if_splits)+
qed

definition tok_measure :: "tokenizer \<Rightarrow> string \<Rightarrow> nat" where
  "tok_measure t s = 2 * length s + (if rereads (tk_state t) then 1 else 0)"

lemma html_step_measure:
  assumes "html_step t (c # s) = (t', n)"
  shows "tok_measure t' (drop n (c # s)) < tok_measure t (c # s)"
proof (cases n)
  case 0
  with html_step_consumes assms show ?thesis by (auto simp: tok_measure_def rereads_def)
next
  case (Suc m)
  then have "length (drop n (c # s)) \<le> length s" by simp
  then show ?thesis by (simp add: tok_measure_def)
qed

text \<open>The state after a string.\<close>

function tok_run :: "tokenizer \<Rightarrow> string \<Rightarrow> tokenizer" where
  "tok_run t [] = t"
| "tok_run t (c # s) = (case html_step t (c # s) of (t', n) \<Rightarrow> tok_run t' (drop n (c # s)))"
  by pat_completeness auto
termination
  by (relation "measure (\<lambda>(t, s). tok_measure t s)") (auto simp: html_step_measure simp del: drop.simps drop_Cons')

end
