(* ===== verification/Html_Reference.thy ===== *)
theory Html_Reference
  imports Html_Tokenizer
begin

text \<open>
  A reference for reading HTML: an automaton in the manner of the HTML standard that reads one character at
  a time and reports everything it recognises. The tokenizer of the renderer, which jumps over runs of
  characters, refines it.
\<close>

section \<open>The reference automaton\<close>

text \<open>
  Inside a tag the state carries the tag's name, and inside a name or a value what was read of it.
  \<open>MOpening\<close> is the rest of \<open><!--\<close>.
\<close>

datatype mstate = MData | MOpening nat | MTag string | MBefore string | MName string string | MAfter string
  | MValue string | MQuoted string char string | MUnquoted string string | MEnd string | MComment string | MBogus | MRaw string

text \<open>Text is reported character by character, an end tag as what stands between its brackets.\<close>

datatype mark = Chr char | Tag string | Attr string | Value string | TagEnd | EndTag string | CommentEnd | BogusEnd

definition after_tag :: "string \<Rightarrow> mstate" where
  "after_tag n = (if n \<in> set RAW_TEXT_TAGS then MRaw n else MData)"

definition before_step :: "string \<Rightarrow> char \<Rightarrow> mstate \<times> mark list" where
  "before_step n c = (if c = CHR ''>'' then (after_tag n, [TagEnd])
     else if c = CHR ''/'' \<or> isSpace c then (MBefore n, []) else (MName n [c], []))"

definition opens_comment :: "string \<Rightarrow> bool" where
  "opens_comment s \<longleftrightarrow> starts_with s ''!--''"

definition data_step :: "string \<Rightarrow> mstate" where
  "data_step s = (case s of
     [] \<Rightarrow> MData
   | c # r \<Rightarrow>
      if isAsciiAlpha (Some c) then MTag []
      else if c = CHR ''/'' then (case r of [] \<Rightarrow> MData | d # _ \<Rightarrow> if isAsciiAlpha (Some d) then MEnd [] else MBogus)
      else if opens_comment s then MOpening 3
      else if c = CHR ''!'' \<or> c = CHR ''?'' then MBogus else MData)"

text \<open>A step, and the marks it reports before those of the next one.\<close>

definition report :: "mark list \<Rightarrow> mstate \<times> mark list \<Rightarrow> mstate \<times> mark list" where
  "report ks r = (fst r, ks @ snd r)"

fun ref_step :: "mstate \<Rightarrow> char \<Rightarrow> string \<Rightarrow> mstate \<times> mark list" where
  "ref_step MData c s = (if c \<noteq> CHR ''<'' then (MData, [Chr c])
     else (data_step s, if data_step s = MData then [Chr c] else []))"
| "ref_step (MOpening k) c s = (if k \<le> 1 then MComment ''--'' else MOpening (k - 1), [])"
| "ref_step (MTag n) c s = (if name_stop False c then report [Tag n] (before_step n c) else (MTag (n @ [to_lower_char c]), []))"
| "ref_step (MBefore n) c s = before_step n c"
| "ref_step (MName n a) c s = (if isSpace c then (MAfter n, [Attr a])
     else if c = CHR ''='' then (MValue n, [Attr a])
     else if name_stop True c then report [Attr a] (before_step n c)
     else (MName n (a @ [c]), []))"
| "ref_step (MAfter n) c s = (if c = CHR ''='' then (MValue n, []) else if isSpace c then (MAfter n, []) else before_step n c)"
| "ref_step (MValue n) c s = (if c = CHR 0x22 \<or> c = CHR 0x27 then (MQuoted n c [], [])
     else if c = CHR ''>'' then (after_tag n, [Value [], TagEnd]) else if isSpace c then (MValue n, []) else (MUnquoted n [c], []))"
| "ref_step (MQuoted n q v) c s = (if c = q then (MBefore n, [Value v]) else (MQuoted n q (v @ [c]), []))"
| "ref_step (MUnquoted n v) c s = (if isSpace c \<or> c = CHR ''>'' then report [Value v] (before_step n c) else (MUnquoted n (v @ [c]), []))"
| "ref_step (MEnd a) c s = (if c = CHR ''>'' then (MData, [EndTag a]) else (MEnd (a @ [c]), []))"
| "ref_step (MComment tail) c s = (if c = CHR ''>'' \<and> tail = ''--'' then (MData, [CommentEnd]) else (MComment (last_two (tail @ [c])), []))"
| "ref_step MBogus c s = (if c = CHR ''>'' then (MData, [BogusEnd]) else (MBogus, []))"
| "ref_step (MRaw n) c s = (if c = CHR ''<'' \<and> ends_raw n (c # s) then (MEnd [], []) else (MRaw n, [Chr c]))"

fun ref_run :: "mstate \<Rightarrow> string \<Rightarrow> mstate \<times> mark list" where
  "ref_run m [] = (m, [])"
| "ref_run m (c # s) = report (snd (ref_step m c s)) (ref_run (fst (ref_step m c s)) s)"

lemma report_simps [simp]: "report [] r = r" "report ks (m, js) = (m, ks @ js)" "fst (report ks r) = fst r"
  "snd (report ks r) = ks @ snd r" "report ks (report js r) = report (ks @ js) r"
  by (simp_all add: report_def)


section \<open>A step of the tokenizer, seen in the reference\<close>

text \<open>
  What a step over \<open>n\<close> characters of \<open>s\<close> means for the state of the reference; nothing is consumed
  where the character is read again.
\<close>

fun jump :: "mstate \<Rightarrow> string \<Rightarrow> nat \<Rightarrow> mstate \<times> mark list" where
  "jump MData s n = (if hd s \<noteq> CHR ''<'' then (MData, map Chr (take n s))
     else if opens_comment (tl s) then (MComment ''--'', [])
     else ref_step MData (hd s) (tl s))"
| "jump (MTag nm) s n = (if n = 0 then (MBefore nm, [Tag nm]) else (MTag (nm @ to_lower (take n s)), []))"
| "jump (MName nm a) s n = (if n = 0 then (MBefore nm, [Attr a])
     else if isSpace (hd s) \<or> hd s = CHR ''='' then ref_step (MName nm a) (hd s) (tl s) else (MName nm (a @ take n s), []))"
| "jump (MUnquoted nm v) s n = (if n = 0 then (MBefore nm, [Value v]) else (MUnquoted nm (v @ take n s), []))"
| "jump (MQuoted nm q v) s n = (if hd s = q then (MBefore nm, [Value v]) else (MQuoted nm q (v @ take n s), []))"
| "jump (MEnd a) s n = (if hd s = CHR ''>'' then (MData, [EndTag a]) else (MEnd (a @ take n s), []))"
| "jump (MComment tail) s n = (if hd s = CHR ''>'' \<and> tail = ''--'' then (MData, [CommentEnd])
     else (MComment (last_two (tail @ take n s)), []))"
| "jump MBogus s n = (if hd s = CHR ''>'' then (MData, [BogusEnd]) else (MBogus, []))"
| "jump (MRaw nm) s n = (if hd s \<noteq> CHR ''<'' then (MRaw nm, map Chr (take n s)) else ref_step (MRaw nm) (hd s) (tl s))"
| "jump m s n = ref_step m (hd s) (tl s)"

text \<open>Runs, read character by character.\<close>

lemma run_text: "list_all (\<lambda>c. c \<noteq> CHR ''<'') xs \<Longrightarrow> ref_run MData (xs @ s) = report (map Chr xs) (ref_run MData s)"
  "list_all (\<lambda>c. c \<noteq> CHR ''<'') xs \<Longrightarrow> ref_run (MRaw nm) (xs @ s) = report (map Chr xs) (ref_run (MRaw nm) s)"
  by (induction xs) auto

lemma run_tag: "list_all (\<lambda>c. \<not> name_stop False c) xs \<Longrightarrow> ref_run (MTag n) (xs @ s) = ref_run (MTag (n @ to_lower xs)) s"
  by (induction xs arbitrary: n) (auto simp: to_lower_def)

lemma run_name: "list_all (\<lambda>c. \<not> name_stop True c) xs \<Longrightarrow> ref_run (MName n a) (xs @ s) = ref_run (MName n (a @ xs)) s"
proof (induction xs arbitrary: a)
  case (Cons c xs)
  then have "\<not> isSpace c" "c \<noteq> CHR ''=''" "\<not> name_stop True c" by (auto simp: name_stop_def)
  with Cons show ?case by simp
qed simp

lemma run_unquoted: "list_all (\<lambda>c. \<not> (isSpace c \<or> c = CHR ''>'')) xs \<Longrightarrow> ref_run (MUnquoted n v) (xs @ s) = ref_run (MUnquoted n (v @ xs)) s"
  by (induction xs arbitrary: v) auto

lemma run_quoted: "list_all (\<lambda>c. c \<noteq> q) xs \<Longrightarrow> ref_run (MQuoted n q v) (xs @ s) = ref_run (MQuoted n q (v @ xs)) s"
  by (induction xs arbitrary: v) auto

lemma run_end_tag: "list_all (\<lambda>c. c \<noteq> CHR ''>'') xs \<Longrightarrow> ref_run (MEnd a) (xs @ s) = ref_run (MEnd (a @ xs)) s"
  by (induction xs arbitrary: a) auto

lemma run_bogus: "list_all (\<lambda>c. c \<noteq> CHR ''>'') xs \<Longrightarrow> ref_run MBogus (xs @ s) = ref_run MBogus s"
  by (induction xs) auto

lemma last_two_append: "last_two (last_two xs @ ys) = last_two (xs @ ys)" "last_two (ys @ last_two xs) = last_two (ys @ xs)"
  by (cases "length xs \<le> 2"; auto simp: last_two_def add.commute)+

lemma run_comment:
  "list_all (\<lambda>c. c \<noteq> CHR ''>'') xs \<Longrightarrow> xs \<noteq> [] \<Longrightarrow> ref_run (MComment tail) (xs @ s) = ref_run (MComment (last_two (tail @ xs))) s"
proof (induction xs arbitrary: tail)
  case (Cons c xs)
  then show ?case
    using last_two_append(1) [of "tail @ [c]" xs] by (cases "xs = []") auto
qed simp

lemma run_opening: "opens_comment s \<Longrightarrow> ref_run (MOpening 3) s = ref_run (MComment ''--'') (drop 3 s)"
  by (auto simp: opens_comment_def starts_with_iff)

lemma take_takeWhile: "take (length (takeWhile P xs)) xs = takeWhile P xs"
  by (metis takeWhile_eq_take)

lemma runEnd_take: "list_all (\<lambda>c. c \<noteq> stop) (take (runEnd stop s) s)"
  by (simp add: runEnd_def take_takeWhile list_all_iff) (metis set_takeWhileD)

lemma nameEnd_take: "list_all (\<lambda>c. \<not> name_stop b c) (take (nameEnd b s) s)"
  by (simp add: nameEnd_def take_takeWhile list_all_iff) (metis set_takeWhileD)

lemma stop_before: "name_stop b c \<Longrightarrow> nameEnd b (c # s) = 0" "nameEnd b (c # s) = 0 \<longleftrightarrow> name_stop b c"
  "0 < nameEnd b (c # s) \<longleftrightarrow> \<not> name_stop b c"
  by (simp_all add: nameEnd_def)

text \<open>How far the tokenizer goes in a state of the reference.\<close>

fun reach :: "mstate \<Rightarrow> string \<Rightarrow> nat" where
  "reach MData s = (if hd s \<noteq> CHR ''<'' then runEnd CHR ''<'' s else if opens_comment (tl s) then 4 else 1)"
| "reach (MTag nm) s = nameEnd False s"
| "reach (MName nm a) s = (if isSpace (hd s) \<or> hd s = CHR ''='' then 1 else nameEnd True s)"
| "reach (MUnquoted nm v) s = (if isSpace (hd s) \<or> hd s = CHR ''>'' then 0 else if hd s = CHR ''/'' then 1 else nameEnd False s)"
| "reach (MQuoted nm q v) s = (if hd s = q then 1 else runEnd q s)"
| "reach (MEnd a) s = (if hd s = CHR ''>'' then 1 else runEnd CHR ''>'' s)"
| "reach (MComment tail) s = max (runEnd CHR ''>'' s) 1"
| "reach MBogus s = (if hd s = CHR ''>'' then 1 else runEnd CHR ''>'' s)"
| "reach (MRaw nm) s = (if hd s \<noteq> CHR ''<'' then runEnd CHR ''<'' s else 1)"
| "reach m s = 1"

text \<open>Jumping is the same as reading character by character.\<close>

lemma jump_run:
  assumes "n = reach m (c # s)" "\<And>k. m \<noteq> MOpening k"
  shows "ref_run m (c # s) = report (snd (jump m (c # s) n)) (ref_run (fst (jump m (c # s) n)) (drop n (c # s)))"
proof -
  let ?x = "take n (c # s)" and ?r = "drop n (c # s)"
  have s: "ref_run m (c # s) = ref_run m (?x @ ?r)" by simp
  show ?thesis
  proof (cases m)
    case MData
    show ?thesis
    proof (cases "c = CHR ''<''")
      case False
      with MData assms runEnd_take [of "CHR ''<''" "c # s"] run_text(1) [of ?x ?r] show ?thesis by simp
    next
      case lt: True
      show ?thesis
      proof (cases "opens_comment s")
        case True
        then have d: "data_step s = MOpening 3"
          by (auto simp: opens_comment_def starts_with_iff data_step_def isAsciiAlpha_def is_lower_def is_upper_def code_def)
        with lt True MData assms run_opening [OF True] show ?thesis by simp
      qed (use lt MData assms in simp)
    qed
  next
    case (MTag nm)
    with assms nameEnd_take [of False "c # s"] run_tag [of ?x nm ?r] show ?thesis
      by (cases "name_stop False c") (auto simp: stop_before)
  next
    case (MName nm a)
    show ?thesis
    proof (cases "isSpace c \<or> c = CHR ''=''")
      case False
      with MName assms nameEnd_take [of True "c # s"] run_name [of ?x nm a ?r] show ?thesis
        by (cases "name_stop True c") (auto simp: stop_before)
    qed (use MName assms in auto)
  next
    case (MUnquoted nm v)
    have "list_all (\<lambda>c. \<not> (isSpace c \<or> c = CHR ''>'')) ?x" if "\<not> (isSpace c \<or> c = CHR ''>'')"
      using that MUnquoted assms nameEnd_take [of False "c # s"] by (auto simp: list_all_iff name_stop_def)
    moreover have "n \<noteq> 0" if "\<not> (isSpace c \<or> c = CHR ''>'')"
      using that MUnquoted assms by (simp add: stop_before name_stop_def)
    ultimately show ?thesis
      using MUnquoted assms(1) run_unquoted [of ?x nm v ?r] by (cases "isSpace c \<or> c = CHR ''>''") (simp_all del: drop.simps take_Suc_Cons)
  next
    case (MQuoted nm q v)
    with assms runEnd_take [of q "c # s"] run_quoted [of q ?x nm v ?r] show ?thesis by (cases "c = q") auto
  next
    case (MEnd a)
    with assms runEnd_take [of "CHR ''>''" "c # s"] run_end_tag [of ?x a ?r] show ?thesis by (cases "c = CHR ''>''") auto
  next
    case (MComment tail)
    show ?thesis
    proof (cases "c = CHR ''>''")
      case True
      with MComment assms show ?thesis by (auto simp: runEnd_def)
    next
      case False
      with MComment assms have n: "n = runEnd CHR ''>'' (c # s)" "?x \<noteq> []" by (auto simp: runEnd_def)
      with MComment False runEnd_take [of "CHR ''>''" "c # s"] run_comment [of ?x tail ?r] show ?thesis by simp
    qed
  next
    case MBogus
    with assms runEnd_take [of "CHR ''>''" "c # s"] run_bogus [of ?x ?r] show ?thesis by (cases "c = CHR ''>''") auto
  next
    case (MRaw nm)
    with assms runEnd_take [of "CHR ''<''" "c # s"] run_text(2) [of ?x nm ?r] show ?thesis by (cases "c = CHR ''<''") auto
  qed (use assms in auto)
qed


section \<open>Refinement\<close>

text \<open>What the tokenizer's fields stand for in each of its states.\<close>

fun stands_for :: "tokenizer \<Rightarrow> mstate \<Rightarrow> bool" where
  "stands_for t MData = (tk_state t = SData)"
| "stands_for t (MOpening k) = False"
| "stands_for t (MTag n) = (tk_state t = STagName \<and> tk_tagName t = n)"
| "stands_for t (MBefore n) = (tk_state t = SBeforeAttrName \<and> tk_tagName t = n)"
| "stands_for t (MName n a) = (tk_state t = SAttrName \<and> tk_tagName t = n)"
| "stands_for t (MAfter n) = (tk_state t = SAfterAttrName \<and> tk_tagName t = n)"
| "stands_for t (MValue n) = (tk_state t = SBeforeAttrValue \<and> tk_tagName t = n)"
| "stands_for t (MQuoted n q v) = (tk_state t = SAttrValueQuoted \<and> tk_tagName t = n \<and> tk_quote t = q)"
| "stands_for t (MUnquoted n v) = (tk_state t = SAttrValueUnquoted \<and> tk_tagName t = n)"
| "stands_for t (MEnd a) = (tk_state t = SEndTag)"
| "stands_for t (MComment tail) = (tk_state t = SComment \<and> tk_commentTail t = tail)"
| "stands_for t MBogus = (tk_state t = SBogusComment)"
| "stands_for t (MRaw n) = (tk_state t = SRawText \<and> tk_rawTextTag t = n)"

lemma stands_after: "tk_tagName t = n \<Longrightarrow> stands_for (endStartTag t) (after_tag n)"
  by (simp add: endStartTag_def after_tag_def)

lemma isAsciiAlpha_None [simp]: "\<not> isAsciiAlpha None"
  by (simp add: isAsciiAlpha_def)

lemma comment_open: "opens_comment s \<longleftrightarrow> char_at (c # s) 1 = Some CHR ''!'' \<and> char_at (c # s) 2 = Some CHR ''-'' \<and> char_at (c # s) 3 = Some CHR ''-''"
proof -
  consider "s = []" | a where "s = [a]" | a b where "s = [a, b]" | a b d r where "s = a # b # d # r"
    by (metis neq_Nil_conv)
  then show ?thesis by cases (auto simp: opens_comment_def starts_with_def char_at_def nth_Cons')
qed

lemma sim_data:
  assumes "tk_state t = SData" "html_step t (c # s) = (t', n)"
  shows "n = reach MData (c # s) \<and> stands_for t' (fst (jump MData (c # s) n))"
proof (cases "c = CHR ''<''")
  case True
  show ?thesis
  proof (cases "opens_comment s")
    case oc: True
    then have "\<not> isAsciiAlpha (char_at (c # s) 1)" "char_at (c # s) 1 \<noteq> Some CHR ''/''"
      unfolding comment_open [of s c] by (auto simp: isAsciiAlpha_def is_lower_def is_upper_def code_def)
    then have "t' = t\<lparr>tk_state := SComment, tk_commentTail := ''--''\<rparr>" "n = 4"
      using assms True oc unfolding comment_open [of s c] by (simp_all add: html_step_def)
    with True oc show ?thesis by simp
  next
    case False
    have "n = 1 \<and> stands_for t' (data_step s)"
      using assms True False comment_open [of s c]
      by (cases s; cases "tl s") (auto simp: html_step_def Let_def char_at_def data_step_def split: if_splits)
    with True False show ?thesis by simp
  qed
qed (use assms in \<open>auto simp: html_step_def\<close>)

lemma last_two_drop: "n \<le> length s \<Longrightarrow> drop (n - 2) (take n s) = last_two (take n s)"
  by (simp add: last_two_def min_def)

lemma sim_comment:
  assumes "stands_for t (MComment tail)" "html_step t (c # s) = (t', n)"
  shows "n = reach (MComment tail) (c # s) \<and> stands_for t' (fst (jump (MComment tail) (c # s) n))"
proof (cases "c = CHR ''>'' \<and> tail = ''--''")
  case True
  with assms show ?thesis by (auto simp: html_step_def runEnd_def)
next
  case False
  with assms have n: "n = max (runEnd CHR ''>'' (c # s)) 1"
    and t': "t' = t\<lparr>tk_commentTail := last_two (tail @ drop (n - 2) (take n (c # s)))\<rparr>"
    by (auto simp: html_step_def Let_def simp del: take_Suc_Cons)
  have "n \<le> length (c # s)" using html_step_le [OF assms(2)] .
  then have "t' = t\<lparr>tk_commentTail := last_two (tail @ take n (c # s))\<rparr>"
    unfolding t' by (simp only: last_two_drop last_two_append)
  with False n assms show ?thesis by auto
qed

lemma sim_step:
  assumes "stands_for t m" "html_step t (c # s) = (t', n)"
  shows "n = reach m (c # s) \<and> stands_for t' (fst (jump m (c # s) n))"
proof (cases m)
  case MData
  with assms sim_data show ?thesis by simp
next
  case (MComment tail)
  show ?thesis unfolding MComment
    by (rule sim_comment [OF assms(1) [unfolded MComment] assms(2)])
next
  case (MTag nm)
  with assms show ?thesis by (auto simp: html_step_def Let_def split: if_splits)
next
  case (MName nm a)
  have "\<not> isSpace CHR ''/''" "\<not> isSpace CHR ''>''" "\<not> isSpace CHR ''=''"
    by (simp_all add: isSpace_def)
  with MName assms show ?thesis
    by (cases "isSpace c"; cases "c = CHR ''=''"; cases "c = CHR ''/'' \<or> c = CHR ''>''") (auto simp: html_step_def stop_before name_stop_def)
next
  case (MUnquoted nm v)
  with assms show ?thesis
    by (cases "isSpace c \<or> c = CHR ''>''"; cases "c = CHR ''/''") (auto simp: html_step_def stop_before name_stop_def)
next
  case (MAfter nm)
  with assms show ?thesis
    by (cases "c = CHR ''>''"; cases "c = CHR ''/''"; cases "c = CHR ''=''"; cases "isSpace c") (auto simp: html_step_def before_step_def stands_after)
next
  case (MBefore nm)
  with assms show ?thesis
    by (cases "c = CHR ''>''"; cases "c = CHR ''/''"; cases "isSpace c") (auto simp: html_step_def before_step_def stands_after)
next
  case (MValue nm)
  with assms show ?thesis
    by (cases "c = CHR ''>''"; cases "c = CHR 0x22 \<or> c = CHR 0x27"; cases "isSpace c") (auto simp: html_step_def stands_after)
next
  case (MQuoted nm q v)
  with assms show ?thesis by (cases "c = q") (auto simp: html_step_def)
next
  case (MEnd a)
  with assms show ?thesis by (cases "c = CHR ''>''") (auto simp: html_step_def)
next
  case MBogus
  with assms show ?thesis by (cases "c = CHR ''>''") (auto simp: html_step_def)
next
  case (MRaw nm)
  with assms show ?thesis by (cases "c = CHR ''<''") (auto simp: html_step_def split: if_splits)
qed (use assms in simp)

lemma stands_not_opening: "stands_for t m \<Longrightarrow> m \<noteq> MOpening k"
  by (cases m) auto

lemma tokenizer_refines:
  assumes "stands_for t m"
  shows "stands_for (tok_run t s) (fst (ref_run m s))"
  using assms
proof (induction t s arbitrary: m rule: tok_run.induct)
  case (2 t c s)
  obtain t' n where st: "html_step t (c # s) = (t', n)" by (cases "html_step t (c # s)")
  note n = sim_step [OF 2(2) st, THEN conjunct1] and m' = sim_step [OF 2(2) st, THEN conjunct2]
  have "tok_run t (c # s) = tok_run t' (drop n (c # s))" using st by simp
  moreover have "stands_for (tok_run t' (drop n (c # s))) (fst (ref_run (fst (jump m (c # s) n)) (drop n (c # s))))"
    by (rule 2(1) [OF st [symmetric] m'])
  ultimately show ?case
    using jump_run [OF n stands_not_opening [OF 2(2)]] by (simp only: report_simps)
qed simp

text \<open>C35. The renderer's tokenizer, which jumps over runs of characters and reads some characters twice, is at the
  end of any text in the state that the reference automaton, reading one character at a time, has
  reached: the same state, tag name, quote, raw-text element and comment tail.\<close>
theorem tokenizer_refines_reference:
  assumes "stands_for t m"
  shows "stands_for (tok_run t s) (fst (ref_run m s))"
  by (rule tokenizer_refines [OF assms])

lemma tokenizer_refines_reference_witness:
  "tk_state (tok_run createTokenizer ''<p a=1>x<!-- - --><b'') = STagName
    \<and> fst (ref_run MData ''<p a=1>x<!-- - --><b'') = MTag ''b''"
proof -
  have "stands_for createTokenizer MData" by (simp add: createTokenizer_def)
  from tokenizer_refines_reference [OF this, of "''<p a=1>x<!-- - --><b''"]
  moreover have "fst (ref_run MData ''<p a=1>x<!-- - --><b'') = MTag ''b''" by code_simp
  ultimately show ?thesis by simp
qed

end
