(* ===== verification/Html_Tokens.thy ===== *)
theory Html_Tokens
  imports Html_Reference
begin

text \<open>
  Splitting markup into tokens (\<open>forEachHtmlToken\<close> and \<open>tokenizeHtml\<close> of
  \<open>renderer/src/template-analysis.ts\<close>). The tokens tile the source, and they report what the reference
  automaton reports.
\<close>

section \<open>Tokens\<close>

text \<open>An offset that is -1 in the code is \<open>None\<close>. The attribute that is being read is the last one.\<close>

(* models packages/renderer/src/template-analysis.ts:577-584 MutableAttribute *)
record html_attribute =
  ha_name :: string
  ha_nameStart :: nat
  ha_nameEnd :: "nat option"
  ha_valueStart :: "nat option"
  ha_valueEnd :: "nat option"
  ha_quote :: "char option"

(* models packages/renderer/src/template-analysis.ts:556-575 HtmlToken *)
datatype html_token = TextTok nat nat
  | RawTok nat nat string
  | StartTok nat nat string nat "html_attribute list" bool bool
  | EndTok nat nat string nat
  | CommentTok nat nat
  | OtherTok nat nat

record walk =
  wk_start :: nat
  wk_nameEnd :: "nat option"
  wk_attrs :: "html_attribute list"
  wk_slash :: bool
  wk_tokens :: "html_token list"

definition slice :: "'a list \<Rightarrow> nat \<Rightarrow> nat \<Rightarrow> 'a list" where
  "slice xs a b = take (b - a) (drop a xs)"

definition update_last :: "('a \<Rightarrow> 'a) \<Rightarrow> 'a list \<Rightarrow> 'a list" where
  "update_last f xs = (if xs = [] then [] else butlast xs @ [f (last xs)])"

definition visit :: "html_token \<Rightarrow> walk \<Rightarrow> walk" where
  "visit k w = w\<lparr>wk_tokens := wk_tokens w @ [k]\<rparr>"

(* models packages/renderer/src/template-analysis.ts:602-609 startTag *)
definition startTag :: "tokenizer \<Rightarrow> nat \<Rightarrow> bool \<Rightarrow> walk \<Rightarrow> walk" where
  "startTag t end' closed w =
     (let attrs = update_last (\<lambda>a. a\<lparr>ha_nameEnd := (case ha_nameEnd a of None \<Rightarrow> Some end' | x \<Rightarrow> x),
          ha_valueEnd := (case (ha_valueStart a, ha_valueEnd a) of (Some b, None) \<Rightarrow> Some end' | (_, x) \<Rightarrow> x)\<rparr>) (wk_attrs w)
      in visit (StartTok (wk_start w) end' (tk_tagName t) (case wk_nameEnd w of None \<Rightarrow> end' | Some e \<Rightarrow> e) attrs
          (closed \<and> wk_slash w) closed) (w\<lparr>wk_attrs := attrs\<rparr>))"

definition new_attr :: "nat \<Rightarrow> html_attribute" where
  "new_attr j = \<lparr>ha_name = [], ha_nameStart = j, ha_nameEnd = None, ha_valueStart = None, ha_valueEnd = None, ha_quote = None\<rparr>"

text \<open>What the walk does at a step from state \<open>st\<close>, at \<open>j\<close> over \<open>ch\<close>, to \<open>t\<close> and the position \<open>next'\<close>.\<close>

(* models packages/renderer/src/template-analysis.ts:612-690 forEachHtmlToken *)
definition walk_step :: "string \<Rightarrow> html_state \<Rightarrow> nat \<Rightarrow> char \<Rightarrow> tokenizer \<Rightarrow> nat \<Rightarrow> walk \<Rightarrow> walk" where
  "walk_step source st j ch t next' w = (let to = tk_state t in case st of
     SData \<Rightarrow>
       if to \<noteq> SData then
         (let w1 = (if j > wk_start w then visit (TextTok (wk_start w) j) w else w)\<lparr>wk_start := j\<rparr>
          in if to = STagName then w1\<lparr>wk_nameEnd := None, wk_attrs := [], wk_slash := False\<rparr> else w1)
       else w
   | SRawText \<Rightarrow>
       if to = SEndTag then (if j > wk_start w then visit (RawTok (wk_start w) j (tk_rawTextTag t)) w else w)\<lparr>wk_start := j\<rparr> else w
   | SEndTag \<Rightarrow>
       if to = SData then
         (let end' = wk_start w + 2 + nameEnd False (slice source (wk_start w + 2) next') in
          (visit (EndTok (wk_start w) next' (to_lower (slice source (wk_start w + 2) end')) end') w)\<lparr>wk_start := next'\<rparr>)
       else w
   | SComment \<Rightarrow> if to = SData then (visit (CommentTok (wk_start w) next') w)\<lparr>wk_start := next'\<rparr> else w
   | SBogusComment \<Rightarrow> if to = SData then (visit (OtherTok (wk_start w) next') w)\<lparr>wk_start := next'\<rparr> else w
   | STagName \<Rightarrow> if to \<noteq> STagName then w\<lparr>wk_nameEnd := Some j\<rparr> else w
   | SAttrName \<Rightarrow>
       if to \<noteq> SAttrName then w\<lparr>wk_attrs := update_last (\<lambda>a. a\<lparr>ha_nameEnd := Some j, ha_name := slice source (ha_nameStart a) j\<rparr>) (wk_attrs w)\<rparr>
       else w
   | SBeforeAttrValue \<Rightarrow>
       if wk_attrs w = [] then w
       else if to = SAttrValueQuoted then w\<lparr>wk_attrs := update_last (\<lambda>a. a\<lparr>ha_quote := Some (tk_quote t), ha_valueStart := Some (Suc j)\<rparr>) (wk_attrs w)\<rparr>
       else if to = SAttrValueUnquoted then w\<lparr>wk_attrs := update_last (\<lambda>a. a\<lparr>ha_valueStart := Some j\<rparr>) (wk_attrs w)\<rparr>
       else if to = SData \<or> to = SRawText then
         (startTag t next' True (w\<lparr>wk_attrs := update_last (\<lambda>a. a\<lparr>ha_valueStart := Some j, ha_valueEnd := Some j\<rparr>) (wk_attrs w)\<rparr>))\<lparr>wk_start := next'\<rparr>
       else w
   | SAttrValueQuoted \<Rightarrow> if to = SBeforeAttrName then w\<lparr>wk_attrs := update_last (\<lambda>a. a\<lparr>ha_valueEnd := Some j\<rparr>) (wk_attrs w)\<rparr> else w
   | SAttrValueUnquoted \<Rightarrow> if to = SBeforeAttrName then w\<lparr>wk_attrs := update_last (\<lambda>a. a\<lparr>ha_valueEnd := Some j\<rparr>) (wk_attrs w)\<rparr> else w
   | _ \<Rightarrow> \<comment> \<open>before or after an attribute name\<close>
       (let w1 = (if to = SAttrName then w\<lparr>wk_attrs := wk_attrs w @ [new_attr j]\<rparr>
           else if to = SData \<or> to = SRawText then (startTag t next' True w)\<lparr>wk_start := next'\<rparr> else w)
        in w1\<lparr>wk_slash := (ch = CHR ''/'')\<rparr>))"

text \<open>The walk over what is left of the source from \<open>j\<close>.\<close>

function walk_run :: "string \<Rightarrow> tokenizer \<Rightarrow> string \<Rightarrow> nat \<Rightarrow> walk \<Rightarrow> tokenizer \<times> walk" where
  "walk_run source t [] j w = (t, w)"
| "walk_run source t (c # s) j w = (case html_step t (c # s) of (t', n) \<Rightarrow>
     walk_run source t' (drop n (c # s)) (j + n) (walk_step source (tk_state t) j c t' (j + n) w))"
  by pat_completeness auto
termination
  by (relation "measure (\<lambda>(source, t, s, j, w). tok_measure t s)") (auto simp: html_step_measure simp del: drop.simps drop_Cons')

(* models packages/renderer/src/template-analysis.ts:693-717 forEachHtmlToken *)
definition walk_end :: "string \<Rightarrow> tokenizer \<Rightarrow> walk \<Rightarrow> walk" where
  "walk_end source t w = (let end' = length source in
     if wk_start w < end' then
       (case tk_state t of
          SData \<Rightarrow> visit (TextTok (wk_start w) end') w
        | SRawText \<Rightarrow> visit (RawTok (wk_start w) end' (tk_rawTextTag t)) w
        | SEndTag \<Rightarrow> visit (OtherTok (wk_start w) end') w
        | SComment \<Rightarrow> visit (OtherTok (wk_start w) end') w
        | SBogusComment \<Rightarrow> visit (OtherTok (wk_start w) end') w
        | _ \<Rightarrow> startTag t end' False (w\<lparr>wk_attrs := update_last (\<lambda>a. if ha_name a = []
              then a\<lparr>ha_name := slice source (ha_nameStart a) (case ha_nameEnd a of None \<Rightarrow> end' | Some e \<Rightarrow> e)\<rparr> else a) (wk_attrs w)\<rparr>))
     else w)"

definition new_walk :: walk where
  "new_walk = \<lparr>wk_start = 0, wk_nameEnd = None, wk_attrs = [], wk_slash = False, wk_tokens = []\<rparr>"

(* models packages/renderer/src/template-analysis.ts:587-591 tokenizeHtml *)
definition tokenizeHtml :: "string \<Rightarrow> html_token list" where
  "tokenizeHtml source = (case walk_run source createTokenizer source 0 new_walk of (t, w) \<Rightarrow> wk_tokens (walk_end source t w))"


section \<open>The tokens tile the source\<close>

fun tok_span :: "html_token \<Rightarrow> nat \<times> nat" where
  "tok_span (TextTok a b) = (a, b)"
| "tok_span (RawTok a b tag) = (a, b)"
| "tok_span (StartTok a b n e at sc cl) = (a, b)"
| "tok_span (EndTok a b n e) = (a, b)"
| "tok_span (CommentTok a b) = (a, b)"
| "tok_span (OtherTok a b) = (a, b)"

fun tiles :: "nat \<Rightarrow> html_token list \<Rightarrow> nat \<Rightarrow> bool" where
  "tiles a [] b = (a = b)"
| "tiles a (k # ks) b = (fst (tok_span k) = a \<and> a < snd (tok_span k) \<and> tiles (snd (tok_span k)) ks b)"

lemma tiles_snoc: "tiles a (ks @ [k]) c \<longleftrightarrow> tiles a ks (fst (tok_span k)) \<and> fst (tok_span k) < snd (tok_span k) \<and> snd (tok_span k) = c"
  by (induction ks arbitrary: a) auto

lemma startTag_tokens: "wk_start (startTag t e cl w) = wk_start w"
  "\<exists>k. wk_tokens (startTag t e cl w) = wk_tokens w @ [k] \<and> tok_span k = (wk_start w, e)"
  by (simp_all add: startTag_def Let_def visit_def)

definition in_markup :: "html_state \<Rightarrow> bool" where
  "in_markup st \<longleftrightarrow> st \<noteq> SData \<and> st \<noteq> SRawText"


section \<open>What the tokens report\<close>

definition attr_marks :: "string \<Rightarrow> html_attribute \<Rightarrow> mark list" where
  "attr_marks source a = Attr (ha_name a) # (case ha_valueStart a of None \<Rightarrow> [] | Some b \<Rightarrow> [Value (slice source b (the (ha_valueEnd a)))])"

fun token_marks :: "string \<Rightarrow> html_token \<Rightarrow> mark list" where
  "token_marks source (TextTok a b) = map Chr (slice source a b)"
| "token_marks source (RawTok a b tag) = map Chr (slice source a b)"
| "token_marks source (StartTok a b n e at sc cl) = Tag n # concat (map (attr_marks source) at) @ [TagEnd]"
| "token_marks source (EndTok a b n e) = [EndTag (slice source (a + 1) (b - 1))]"
| "token_marks source (CommentTok a b) = [CommentEnd]"
| "token_marks source (OtherTok a b) = [BogusEnd]"

abbreviation tokens_marks :: "string \<Rightarrow> html_token list \<Rightarrow> mark list" where
  "tokens_marks source ks \<equiv> concat (map (token_marks source) ks)"

text \<open>What the open token has reported, and what the walk knows of it, in each state of the reference.\<close>

fun open_marks :: "string \<Rightarrow> mstate \<Rightarrow> nat \<Rightarrow> walk \<Rightarrow> mark list" where
  "open_marks source MData j w = map Chr (slice source (wk_start w) j)"
| "open_marks source (MRaw n) j w = map Chr (slice source (wk_start w) j)"
| "open_marks source (MBefore n) j w = Tag n # concat (map (attr_marks source) (wk_attrs w))"
| "open_marks source (MAfter n) j w = Tag n # concat (map (attr_marks source) (wk_attrs w))"
| "open_marks source (MValue n) j w = Tag n # concat (map (attr_marks source) (wk_attrs w))"
| "open_marks source (MName n a) j w = Tag n # concat (map (attr_marks source) (butlast (wk_attrs w)))"
| "open_marks source (MQuoted n q v) j w = Tag n # concat (map (attr_marks source) (butlast (wk_attrs w))) @ [Attr (ha_name (last (wk_attrs w)))]"
| "open_marks source (MUnquoted n v) j w = Tag n # concat (map (attr_marks source) (butlast (wk_attrs w))) @ [Attr (ha_name (last (wk_attrs w)))]"
| "open_marks source m j w = []"

definition complete :: "html_attribute \<Rightarrow> bool" where
  "complete a \<longleftrightarrow> (ha_valueStart a \<noteq> None \<longrightarrow> ha_valueEnd a \<noteq> None)"

definition reads_value :: "string \<Rightarrow> nat \<Rightarrow> string \<Rightarrow> html_attribute list \<Rightarrow> bool" where
  "reads_value source j v as \<longleftrightarrow> as \<noteq> [] \<and> list_all complete (butlast as) \<and>
     (case ha_valueStart (last as) of None \<Rightarrow> False | Some b \<Rightarrow> b \<le> j \<and> slice source b j = v)"

fun open_ok :: "string \<Rightarrow> mstate \<Rightarrow> nat \<Rightarrow> walk \<Rightarrow> bool" where
  "open_ok source MData j w = True"
| "open_ok source (MRaw n) j w = True"
| "open_ok source (MEnd a) j w = (wk_start w < j \<and> slice source (Suc (wk_start w)) j = a)"
| "open_ok source (MTag n) j w = (wk_start w < j \<and> wk_attrs w = [])"
| "open_ok source (MBefore n) j w = (wk_start w < j \<and> list_all complete (wk_attrs w))"
| "open_ok source (MAfter n) j w = (wk_start w < j \<and> list_all complete (wk_attrs w) \<and> wk_attrs w \<noteq> [] \<and> ha_valueStart (last (wk_attrs w)) = None)"
| "open_ok source (MValue n) j w = (wk_start w < j \<and> list_all complete (wk_attrs w) \<and> wk_attrs w \<noteq> [] \<and> ha_valueStart (last (wk_attrs w)) = None)"
| "open_ok source (MName n a) j w = (wk_start w < j \<and> wk_attrs w \<noteq> [] \<and> list_all complete (butlast (wk_attrs w))
     \<and> ha_valueStart (last (wk_attrs w)) = None \<and> ha_nameStart (last (wk_attrs w)) \<le> j \<and> slice source (ha_nameStart (last (wk_attrs w))) j = a)"
| "open_ok source (MQuoted n q v) j w = (wk_start w < j \<and> reads_value source j v (wk_attrs w))"
| "open_ok source (MUnquoted n v) j w = (wk_start w < j \<and> reads_value source j v (wk_attrs w))"
| "open_ok source m j w = (wk_start w < j)"

definition walk_ok :: "string \<Rightarrow> mstate \<Rightarrow> nat \<Rightarrow> walk \<Rightarrow> mark list \<Rightarrow> bool" where
  "walk_ok source m j w done \<longleftrightarrow> tiles 0 (wk_tokens w) (wk_start w) \<and> wk_start w \<le> j \<and> open_ok source m j w
     \<and> tokens_marks source (wk_tokens w) @ open_marks source m j w = done"

lemma walk_ok_slash [simp]: "walk_ok source m j (w\<lparr>wk_slash := b\<rparr>) K = walk_ok source m j w K"
  by (cases m) (auto simp: walk_ok_def)

lemma slice_extend: "a \<le> j \<Longrightarrow> slice src a (j + n) = slice src a j @ take n (drop j src)"
proof -
  assume "a \<le> j"
  then obtain i where "j = a + i" using le_Suc_ex by blast
  then show ?thesis by (simp add: slice_def take_add add.assoc add.commute [of i a])
qed

lemma slice_empty [simp]: "slice src a a = []"
  by (simp add: slice_def)

lemma slice_one: "drop j src = c # s \<Longrightarrow> slice src j (Suc j) = [c]"
  by (simp add: slice_def)

lemma update_last_simps [simp]: "update_last f xs = [] \<longleftrightarrow> xs = []" "butlast (update_last f xs) = butlast xs"
  "xs \<noteq> [] \<Longrightarrow> last (update_last f xs) = f (last xs)" "update_last f [] = []"
  by (simp_all add: update_last_def)

lemma list_all_last: "xs \<noteq> [] \<Longrightarrow> list_all P xs \<longleftrightarrow> list_all P (butlast xs) \<and> P (last xs)"
  by (cases xs rule: rev_cases) auto

lemma map_last: "xs \<noteq> [] \<Longrightarrow> concat (map f xs) = concat (map f (butlast xs)) @ f (last xs)"
  by (cases xs rule: rev_cases) auto

lemma startTag_closed:
  assumes "list_all complete (wk_attrs w)" "tk_tagName t = n"
  shows "tokens_marks src (wk_tokens (startTag t e True w)) = tokens_marks src (wk_tokens w) @ Tag n # concat (map (attr_marks src) (wk_attrs w)) @ [TagEnd]"
proof -
  let ?f = "\<lambda>a. a\<lparr>ha_nameEnd := (case ha_nameEnd a of None \<Rightarrow> Some e | x \<Rightarrow> x),
          ha_valueEnd := (case (ha_valueStart a, ha_valueEnd a) of (Some b, None) \<Rightarrow> Some e | (_, x) \<Rightarrow> x)\<rparr>"
  have "attr_marks src (?f a) = attr_marks src a" if "complete a" for a
    using that by (cases "ha_valueStart a"; cases "ha_valueEnd a") (simp_all add: attr_marks_def complete_def)
  then have "concat (map (attr_marks src) (update_last ?f (wk_attrs w))) = concat (map (attr_marks src) (wk_attrs w))"
    using assms(1) map_last [of "update_last ?f (wk_attrs w)" "attr_marks src"] map_last [of "wk_attrs w" "attr_marks src"]
    by (cases "wk_attrs w = []") (simp_all add: list_all_last)
  with assms(2) show ?thesis by (simp add: startTag_def Let_def visit_def)
qed


text \<open>One step of the walk, for each state it starts in.\<close>

definition step_ok :: "string \<Rightarrow> mstate \<Rightarrow> nat \<Rightarrow> walk \<Rightarrow> mark list \<Rightarrow> html_state \<Rightarrow> string \<Rightarrow> tokenizer \<Rightarrow> nat \<Rightarrow> bool" where
  "step_ok source m j w done st s t' n \<longleftrightarrow>
     walk_ok source (fst (jump m s n)) (j + n) (walk_step source st j (hd s) t' (j + n) w) (done @ snd (jump m s n))"

definition flush_text :: "nat \<Rightarrow> html_token \<Rightarrow> walk \<Rightarrow> walk" where
  "flush_text j k w = (if j > wk_start w then visit k w else w)\<lparr>wk_start := j\<rparr>"

lemma flush_text_ok:
  assumes "tiles 0 (wk_tokens w) (wk_start w)" "wk_start w \<le> j" "k = TextTok (wk_start w) j \<or> k = RawTok (wk_start w) j tag"
  shows "tiles 0 (wk_tokens (flush_text j k w)) j" "wk_start (flush_text j k w) = j"
    "tokens_marks src (wk_tokens (flush_text j k w)) = tokens_marks src (wk_tokens w) @ map Chr (slice src (wk_start w) j)"
  using assms by (auto simp: flush_text_def visit_def tiles_snoc)

fun state_of :: "mstate \<Rightarrow> html_state" where
  "state_of (MTag n) = STagName"
| "state_of (MBefore n) = SBeforeAttrName"
| "state_of (MName n a) = SAttrName"
| "state_of (MAfter n) = SAfterAttrName"
| "state_of (MValue n) = SBeforeAttrValue"
| "state_of (MQuoted n q v) = SAttrValueQuoted"
| "state_of (MUnquoted n v) = SAttrValueUnquoted"
| "state_of (MEnd a) = SEndTag"
| "state_of (MComment tail) = SComment"
| "state_of MBogus = SBogusComment"
| "state_of (MRaw n) = SRawText"
| "state_of m = SData"

lemma stands_state: "stands_for t m \<Longrightarrow> tk_state t = state_of m"
  by (cases m) auto

lemma data_step_cases: "\<not> opens_comment s \<Longrightarrow> data_step s = MTag [] \<or> data_step s = MEnd [] \<or> data_step s = MBogus \<or> data_step s = MData"
  by (auto simp: data_step_def split: list.splits)

lemma walk_data:
  assumes ok: "walk_ok src MData j w K" and d: "drop j src = c # s"
    and n: "n = reach MData (c # s)" and t': "stands_for t' (fst (jump MData (c # s) n))"
  shows "step_ok src MData j w K SData (c # s) t' n"
proof (cases "c = CHR ''<''")
  case False
  then show ?thesis using ok d n t' slice_extend [of "wk_start w" j src n]
    by (auto simp: step_ok_def walk_ok_def walk_step_def)
next
  case lt: True
  let ?k = "TextTok (wk_start w) j"
  note fl = flush_text_ok [where w = w and j = j and k = ?k]
  have st: "tk_state t' = state_of (fst (jump MData (c # s) n))" by (rule stands_state [OF t'])
  have ws: "walk_step src SData j c t' (j + n) w = (if tk_state t' \<noteq> SData then
      (let w1 = flush_text j ?k w in if tk_state t' = STagName then w1\<lparr>wk_nameEnd := None, wk_attrs := [], wk_slash := False\<rparr> else w1) else w)"
    by (simp add: walk_step_def flush_text_def Let_def)
  show ?thesis
  proof (cases "opens_comment s")
    case True
    with ok n lt st fl ws show ?thesis by (auto simp: step_ok_def walk_ok_def)
  next
    case False
    have one: "slice src (wk_start w) (Suc j) = slice src (wk_start w) j @ [c]" if "wk_start w \<le> j"
      using slice_extend [OF that, of src 1] d by simp
    have "slice src j (Suc j) = [c]" by (rule slice_one [OF d])
    with False data_step_cases [OF False] ok n lt st fl ws one show ?thesis
      by (auto simp: step_ok_def walk_ok_def slice_def)
  qed
qed

lemma ends_raw_cases: "fst (ref_step (MRaw nm) c s) = MEnd [] \<or> fst (ref_step (MRaw nm) c s) = MRaw nm"
  by simp

lemma walk_raw:
  assumes ok: "walk_ok src (MRaw nm) j w K" and d: "drop j src = c # s"
    and n: "n = reach (MRaw nm) (c # s)" and t': "stands_for t' (fst (jump (MRaw nm) (c # s) n))"
  shows "step_ok src (MRaw nm) j w K SRawText (c # s) t' n"
proof (cases "c = CHR ''<''")
  case False
  then show ?thesis using ok d n t' slice_extend [of "wk_start w" j src n]
    by (auto simp: step_ok_def walk_ok_def walk_step_def)
next
  case lt: True
  let ?k = "RawTok (wk_start w) j (tk_rawTextTag t')"
  note fl = flush_text_ok [where w = w and j = j and k = ?k and tag = "tk_rawTextTag t'"]
  have one: "slice src (wk_start w) (Suc j) = slice src (wk_start w) j @ [c]" if "wk_start w \<le> j"
    using slice_extend [OF that, of src 1] d by simp
  have ws: "walk_step src SRawText j c t' (j + n) w = (if tk_state t' = SEndTag then flush_text j ?k w else w)"
    by (simp add: walk_step_def flush_text_def Let_def)
  with lt ok n t' fl one show ?thesis
    by (cases "ends_raw nm (c # s)") (auto simp: step_ok_def walk_ok_def)
qed

lemma walk_tag:
  assumes ok: "walk_ok src (MTag nm) j w K" and n: "n = reach (MTag nm) (c # s)" and t': "stands_for t' (fst (jump (MTag nm) (c # s) n))"
  shows "step_ok src (MTag nm) j w K STagName (c # s) t' n"
  using ok n t' by (cases "n = 0") (auto simp: step_ok_def walk_ok_def walk_step_def)

text \<open>A start tag's bracket: the tag and its attributes are complete.\<close>

lemma closing_ok:
  assumes "tiles 0 (wk_tokens w) (wk_start w)" "wk_start w \<le> j" "list_all complete (wk_attrs w)" "tk_tagName t = nm"
  shows "walk_ok src (after_tag nm) (Suc j) ((startTag t (Suc j) True w)\<lparr>wk_start := Suc j\<rparr>)
     (tokens_marks src (wk_tokens w) @ Tag nm # concat (map (attr_marks src) (wk_attrs w)) @ [TagEnd])"
proof -
  obtain k where "wk_tokens (startTag t (Suc j) True w) = wk_tokens w @ [k]" "tok_span k = (wk_start w, Suc j)"
    using startTag_tokens(2) by blast
  then have "tiles 0 (wk_tokens (startTag t (Suc j) True w)) (Suc j)"
    using assms(1,2) by (simp add: tiles_snoc)
  then show ?thesis
    using startTag_closed [OF assms(3,4)] by (simp add: walk_ok_def after_tag_def)
qed

lemma new_attr_simps [simp]: "complete (new_attr j)" "ha_valueStart (new_attr j) = None" "ha_nameStart (new_attr j) = j"
  by (simp_all add: new_attr_def complete_def)

lemma walk_before_step:
  assumes ok: "tiles 0 (wk_tokens w) (wk_start w)" "wk_start w < j" "list_all complete (wk_attrs w)" and d: "drop j src = c # s"
    and t': "stands_for t' (fst (before_step nm c))" "tk_tagName t' = nm" and st: "st = SBeforeAttrName \<or> st = SAfterAttrName"
    and K: "tokens_marks src (wk_tokens w) @ Tag nm # concat (map (attr_marks src) (wk_attrs w)) = K"
  shows "walk_ok src (fst (before_step nm c)) (Suc j) (walk_step src st j c t' (Suc j) w) (K @ snd (before_step nm c))"
proof -
  have ws: "walk_step src st j c t' (Suc j) w = (if tk_state t' = SAttrName then w\<lparr>wk_attrs := wk_attrs w @ [new_attr j]\<rparr>
      else if tk_state t' = SData \<or> tk_state t' = SRawText then (startTag t' (Suc j) True w)\<lparr>wk_start := Suc j\<rparr> else w)\<lparr>wk_slash := (c = CHR ''/'')\<rparr>"
    using st by (auto simp: walk_step_def Let_def)
  consider "c = CHR ''>''" | "c = CHR ''/'' \<or> isSpace c" | "c \<noteq> CHR ''>''" "c \<noteq> CHR ''/''" "\<not> isSpace c"
    by blast
  then show ?thesis
  proof cases
    case 1
    then have "tk_state t' = SData \<or> tk_state t' = SRawText"
      using t' by (auto simp: before_step_def after_tag_def split: if_splits)
    with 1 ws closing_ok [of w j t' nm src, OF ok(1) _ ok(3) t'(2)] ok(2) K show ?thesis
      by (auto simp: before_step_def)
  next
    case 2
    with t' ws ok K show ?thesis by (auto simp: before_step_def walk_ok_def)
  next
    case 3
    with t' ws ok K slice_one [OF d] show ?thesis by (auto simp: before_step_def walk_ok_def)
  qed
qed


lemma attr_last: "xs \<noteq> [] \<Longrightarrow> concat (map f (update_last g xs)) = concat (map f (butlast xs)) @ f (g (last xs))"
  by (simp add: map_last)

lemma complete_last: "xs \<noteq> [] \<Longrightarrow> list_all complete (update_last g xs) \<longleftrightarrow> list_all complete (butlast xs) \<and> complete (g (last xs))"
  by (simp add: list_all_last)

lemma walk_name:
  assumes ok: "walk_ok src (MName nm a) j w K" and d: "drop j src = c # s"
    and n: "n = reach (MName nm a) (c # s)" and t': "stands_for t' (fst (jump (MName nm a) (c # s) n))"
  shows "step_ok src (MName nm a) j w K SAttrName (c # s) t' n"
proof -
  let ?l = "last (wk_attrs w)"
  have ext: "slice src (ha_nameStart ?l) (j + n) = slice src (ha_nameStart ?l) j @ take n (c # s)" if "ha_nameStart ?l \<le> j"
    using slice_extend [OF that, of src n] d by simp
  show ?thesis
  proof (cases "isSpace c \<or> c = CHR ''=''")
    case True
    with ok n t' show ?thesis
      by (auto simp: step_ok_def walk_ok_def walk_step_def attr_last complete_last attr_marks_def complete_def)
  next
    case False
    show ?thesis
    proof (cases "n = 0")
      case True
      with False ok n t' show ?thesis
        by (auto simp: step_ok_def walk_ok_def walk_step_def attr_last complete_last attr_marks_def complete_def)
    next
      case n0: False
      with False ok n t' ext show ?thesis
        by (auto simp: step_ok_def walk_ok_def walk_step_def)
    qed
  qed
qed

lemma walk_value:
  assumes ok: "walk_ok src (MValue nm) j w K" and d: "drop j src = c # s"
    and t': "stands_for t' (fst (jump (MValue nm) (c # s) 1))" "tk_tagName t' = nm"
  shows "step_ok src (MValue nm) j w K SBeforeAttrValue (c # s) t' 1"
proof -
  have at: "wk_attrs w \<noteq> []" "ha_valueStart (last (wk_attrs w)) = None" "list_all complete (wk_attrs w)"
    and st: "wk_start w < j" "tiles 0 (wk_tokens w) (wk_start w)"
    and K: "K = tokens_marks src (wk_tokens w) @ Tag nm # concat (map (attr_marks src) (wk_attrs w))"
    using ok by (auto simp: walk_ok_def)
  have bl: "list_all complete (butlast (wk_attrs w))"
    and ml: "concat (map (attr_marks src) (wk_attrs w)) = concat (map (attr_marks src) (butlast (wk_attrs w))) @ [Attr (ha_name (last (wk_attrs w)))]"
    using at by (simp_all add: list_all_last map_last attr_marks_def)
  consider "c = CHR 0x22 \<or> c = CHR 0x27" | "c = CHR ''>''" | "isSpace c" | "\<not> isSpace c" "c \<noteq> CHR ''>''" "c \<noteq> CHR 0x22" "c \<noteq> CHR 0x27"
    by blast
  then show ?thesis
  proof cases
    case 1
    with t' at st K bl ml slice_empty [of src "Suc j"] show ?thesis
      by (auto simp: step_ok_def walk_ok_def walk_step_def reads_value_def)
  next
    case 2
    let ?w = "w\<lparr>wk_attrs := update_last (\<lambda>a. a\<lparr>ha_valueStart := Some j, ha_valueEnd := Some j\<rparr>) (wk_attrs w)\<rparr>"
    have "list_all complete (wk_attrs ?w)" using at bl by (simp add: complete_last complete_def)
    moreover have "concat (map (attr_marks src) (wk_attrs ?w)) = concat (map (attr_marks src) (wk_attrs w)) @ [Value []]"
      using at ml by (simp add: attr_last attr_marks_def)
    ultimately have "walk_ok src (after_tag nm) (Suc j) ((startTag t' (Suc j) True ?w)\<lparr>wk_start := Suc j\<rparr>)
        (K @ [Value [], TagEnd])"
      using closing_ok [of ?w j t' nm src] st K t'(2) by simp
    moreover have "tk_state t' = SData \<or> tk_state t' = SRawText"
      using 2 t' by (auto simp: after_tag_def split: if_splits)
    ultimately show ?thesis
      using 2 at by (auto simp: step_ok_def walk_step_def)
  next
    case 3
    then have "c \<noteq> CHR 0x22" "c \<noteq> CHR 0x27" "c \<noteq> CHR ''>''" by auto
    with 3 t' at st K show ?thesis by (auto simp: step_ok_def walk_ok_def walk_step_def)
  next
    case 4
    with t' at st K bl ml slice_one [OF d] show ?thesis
      by (auto simp: step_ok_def walk_ok_def walk_step_def reads_value_def)
  qed
qed

lemma value_ends:
  assumes ok: "walk_ok src m j w K" and m: "m = MQuoted nm q v \<or> m = MUnquoted nm v"
    and j': "j \<le> j'" "wk_start w < j'"
  shows "walk_ok src (MBefore nm) j' (w\<lparr>wk_attrs := update_last (\<lambda>a. a\<lparr>ha_valueEnd := Some j\<rparr>) (wk_attrs w)\<rparr>) (K @ [Value v])"
  using ok m j' by (auto simp: walk_ok_def reads_value_def attr_last complete_last attr_marks_def complete_def split: option.splits)

lemma value_goes_on:
  assumes ok: "walk_ok src m j w K" and m: "m = MQuoted nm q v \<and> m' = MQuoted nm q (v @ xs) \<or> m = MUnquoted nm v \<and> m' = MUnquoted nm (v @ xs)"
    and d: "drop j src = c # s" and xs: "xs = take n (c # s)"
  shows "walk_ok src m' (j + n) w K"
proof -
  have "slice src b (j + n) = slice src b j @ xs" if "b \<le> j" for b
    using slice_extend [OF that, of src n] d xs by simp
  then show ?thesis using ok m by (auto simp: walk_ok_def reads_value_def split: option.splits)
qed

lemma walk_quoted:
  assumes ok: "walk_ok src (MQuoted nm q v) j w K" and d: "drop j src = c # s"
    and n: "n = reach (MQuoted nm q v) (c # s)" and t': "stands_for t' (fst (jump (MQuoted nm q v) (c # s) n))"
  shows "step_ok src (MQuoted nm q v) j w K SAttrValueQuoted (c # s) t' n"
proof (cases "c = q")
  case True
  have "wk_start w < j + 1" using ok by (auto simp: walk_ok_def)
  with value_ends [OF ok, of nm q v "j + 1"] True n t' show ?thesis
    by (auto simp: step_ok_def walk_step_def)
next
  case False
  with value_goes_on [OF ok _ d refl, of nm q v "MQuoted nm q (v @ take n (c # s))" n] n t' show ?thesis
    by (auto simp: step_ok_def walk_step_def)
qed

lemma walk_unquoted:
  assumes ok: "walk_ok src (MUnquoted nm v) j w K" and d: "drop j src = c # s"
    and n: "n = reach (MUnquoted nm v) (c # s)" and t': "stands_for t' (fst (jump (MUnquoted nm v) (c # s) n))"
  shows "step_ok src (MUnquoted nm v) j w K SAttrValueUnquoted (c # s) t' n"
proof (cases "n = 0")
  case True
  have "wk_start w < j" using ok by (auto simp: walk_ok_def)
  with value_ends [OF ok, of nm q v j] True t' show ?thesis
    by (auto simp: step_ok_def walk_step_def)
next
  case False
  with value_goes_on [OF ok _ d refl, of nm _ v "MUnquoted nm (v @ take n (c # s))" n] t' show ?thesis
    by (auto simp: step_ok_def walk_step_def)
qed

lemma walk_end_tag:
  assumes ok: "walk_ok src (MEnd a) j w K" and d: "drop j src = c # s"
    and n: "n = reach (MEnd a) (c # s)" and t': "stands_for t' (fst (jump (MEnd a) (c # s) n))"
  shows "step_ok src (MEnd a) j w K SEndTag (c # s) t' n"
proof -
  have "slice src (Suc (wk_start w)) (j + n) = slice src (Suc (wk_start w)) j @ take n (c # s)" if "wk_start w < j"
    using slice_extend [of "Suc (wk_start w)" j src n] that d by simp
  with ok n t' show ?thesis
    by (cases "c = CHR ''>''") (auto simp: step_ok_def walk_ok_def walk_step_def Let_def visit_def tiles_snoc)
qed

lemma walk_comments:
  assumes "walk_ok src m j w K" "n = reach m (c # s)" "stands_for t' (fst (jump m (c # s) n))"
  shows "m = MComment tail \<Longrightarrow> step_ok src m j w K SComment (c # s) t' n"
    and "m = MBogus \<Longrightarrow> step_ok src m j w K SBogusComment (c # s) t' n"
  using assms
  by (auto simp: step_ok_def walk_ok_def walk_step_def Let_def visit_def tiles_snoc runEnd_def split: if_splits)

lemma html_step_tagName:
  assumes "html_step t (c # s) = (t', n)" "tk_state t = SBeforeAttrName \<or> tk_state t = SAfterAttrName \<or> tk_state t = SBeforeAttrValue"
  shows "tk_tagName t' = tk_tagName t"
proof -
  have "tk_tagName (fst (html_step t (c # s))) = tk_tagName t"
    using assms(2) by (elim disjE) (simp_all add: html_step_def endStartTag_def)
  with assms(1) show ?thesis by simp
qed

lemma walk_one:
  assumes ok: "walk_ok src m j w K" and d: "drop j src = c # s" and t: "stands_for t m" and st: "html_step t (c # s) = (t', n)"
  shows "step_ok src m j w K (tk_state t) (c # s) t' n"
proof -
  have n: "n = reach m (c # s)" and t': "stands_for t' (fst (jump m (c # s) n))"
    using sim_step [OF t st] by blast+
  show ?thesis
  proof (cases m)
    case MData
    then show ?thesis using walk_data [of src j w K c s n t'] ok d n t' t by simp
  next
    case (MTag nm)
    then show ?thesis using walk_tag [of src nm j w K n c s t'] ok n t' t by simp
  next
    case (MName nm a)
    then show ?thesis using walk_name [of src nm a j w K c s n t'] ok d n t' t by simp
  next
    case (MValue nm)
    then show ?thesis using walk_value [of src nm j w K c s t'] ok d n t' t html_step_tagName [OF st] by simp
  next
    case (MQuoted nm q v)
    then show ?thesis using walk_quoted [of src nm q v j w K c s n t'] ok d n t' t by simp
  next
    case (MUnquoted nm v)
    then show ?thesis using walk_unquoted [of src nm v j w K c s n t'] ok d n t' t by simp
  next
    case (MEnd a)
    then show ?thesis using walk_end_tag [of src a j w K c s n t'] ok d n t' t by simp
  next
    case (MComment tail)
    then show ?thesis using walk_comments(1) [OF ok n t', of tail] t by simp
  next
    case MBogus
    then show ?thesis using walk_comments(2) [OF ok n t'] t by simp
  next
    case (MRaw nm)
    then show ?thesis using walk_raw [of src nm j w K c s n t'] ok d n t' t by simp
  next
    case (MBefore nm)
    then show ?thesis
      using walk_before_step [of w j src c s t' nm SBeforeAttrName K] ok d n t' t html_step_tagName [OF st]
      by (auto simp: step_ok_def walk_ok_def)
  next
    case (MAfter nm)
    show ?thesis
    proof (cases "c = CHR ''='' \<or> isSpace c")
      case True
      then have "c \<noteq> CHR ''/''" "c \<noteq> CHR ''>''" by auto
      with True MAfter ok n t' t show ?thesis
        by (cases "c = CHR ''=''") (simp_all add: step_ok_def walk_ok_def walk_step_def Let_def)
    next
      case False
      with MAfter show ?thesis
        using walk_before_step [of w j src c s t' nm SAfterAttrName K] ok d n t' t html_step_tagName [OF st]
        by (auto simp: step_ok_def walk_ok_def)
    qed
  qed (use t in simp)
qed


lemma walk_run_ok:
  assumes "walk_ok src m j w K" "drop j src = s" "stands_for t m" "j \<le> length src" "walk_run src t s j w = (t2, w2)"
  shows "walk_ok src (fst (ref_run m s)) (length src) w2 (K @ snd (ref_run m s)) \<and> stands_for t2 (fst (ref_run m s))"
  using assms
proof (induction src t s j w arbitrary: m K rule: walk_run.induct)
  case (1 src t j w)
  then show ?case by (auto simp: walk_ok_def)
next
  case (2 src t c s j w)
  obtain t' n where st: "html_step t (c # s) = (t', n)" by (cases "html_step t (c # s)")
  let ?m = "fst (jump m (c # s) n)" and ?k = "snd (jump m (c # s) n)" and ?r = "drop n (c # s)"
  have n: "n = reach m (c # s)" and t': "stands_for t' ?m"
    using sim_step [OF 2(4) st] by blast+
  have ok: "walk_ok src ?m (j + n) (walk_step src (tk_state t) j c t' (j + n) w) (K @ ?k)"
    using walk_one [OF 2(2) 2(3) 2(4) st] by (simp add: step_ok_def)
  have d: "drop (j + n) src = ?r"
    unfolding 2(3) [symmetric] drop_drop by (simp add: add.commute)
  have "n \<le> length (c # s)" by (rule html_step_le [OF st])
  moreover have "length src - j = length (c # s)" using 2(3) by (metis length_drop)
  ultimately have le: "j + n \<le> length src" using 2(5) by linarith
  have run: "walk_run src t' ?r (j + n) (walk_step src (tk_state t) j c t' (j + n) w) = (t2, w2)"
    using 2(6) st by simp
  have jr: "ref_run m (c # s) = report ?k (ref_run ?m ?r)"
    using stands_not_opening [OF 2(4)] by (intro jump_run [OF n])
  show ?case
    using 2(1) [OF st [symmetric] ok d t' le run] unfolding jr report_simps by (simp only: append_assoc)
qed

lemma tokenize_walk:
  assumes "walk_run src createTokenizer src 0 new_walk = (t, w)"
  shows "walk_ok src (fst (ref_run MData src)) (length src) w (snd (ref_run MData src))" "stands_for t (fst (ref_run MData src))"
proof -
  have "walk_ok src MData 0 new_walk []" by (simp add: walk_ok_def new_walk_def)
  moreover have "stands_for createTokenizer MData" by (simp add: createTokenizer_def)
  ultimately show "walk_ok src (fst (ref_run MData src)) (length src) w (snd (ref_run MData src))" "stands_for t (fst (ref_run MData src))"
    using walk_run_ok [of src MData 0 new_walk "[]" src createTokenizer t w] assms by auto
qed

lemma walk_end_tiles:
  assumes "tiles 0 (wk_tokens w) (wk_start w)" "wk_start w \<le> length src"
  shows "tiles 0 (wk_tokens (walk_end src t w)) (length src)"
proof (cases "wk_start w < length src")
  case True
  let ?w = "w\<lparr>wk_attrs := update_last (\<lambda>a. if ha_name a = []
     then a\<lparr>ha_name := slice src (ha_nameStart a) (case ha_nameEnd a of None \<Rightarrow> length src | Some e \<Rightarrow> e)\<rparr> else a) (wk_attrs w)\<rparr>"
  obtain k where "wk_tokens (startTag t (length src) False ?w) = wk_tokens w @ [k]" "tok_span k = (wk_start w, length src)"
    using startTag_tokens(2) [of t "length src" False ?w] by auto
  with True assms show ?thesis
    by (cases "tk_state t") (simp_all add: walk_end_def Let_def visit_def tiles_snoc)
qed (use assms in \<open>simp add: walk_end_def\<close>)

definition token_text :: "string \<Rightarrow> html_token \<Rightarrow> string" where
  "token_text source k = slice source (fst (tok_span k)) (snd (tok_span k))"

lemma tiles_text: "tiles a ks b \<Longrightarrow> b \<le> length src \<Longrightarrow> a \<le> b \<and> concat (map (token_text src) ks) = slice src a b"
proof (induction ks arbitrary: a)
  case (Cons k ks)
  let ?e = "snd (tok_span k)"
  have IH: "?e \<le> b" "concat (map (token_text src) ks) = slice src ?e b"
    using Cons by auto
  have "a < ?e" "fst (tok_span k) = a" using Cons.prems by auto
  moreover have "slice src a ?e @ slice src ?e b = slice src a b"
    using slice_extend [of a ?e src "b - ?e"] IH(1) \<open>a < ?e\<close> by (simp add: slice_def)
  moreover have "token_text src k = slice src (fst (tok_span k)) ?e" by (simp add: token_text_def)
  ultimately show ?case using IH by simp
qed simp

text \<open>C39. The tokens of any markup, finished or not, follow each other without gaps or overlaps: none is empty, and
  their texts joined are the markup.\<close>
theorem tokens_tile_source:
  "tiles 0 (tokenizeHtml src) (length src) \<and> concat (map (token_text src) (tokenizeHtml src)) = src"
proof -
  obtain t w where run: "walk_run src createTokenizer src 0 new_walk = (t, w)"
    by (cases "walk_run src createTokenizer src 0 new_walk")
  have "tiles 0 (tokenizeHtml src) (length src)"
    using tokenize_walk(1) [OF run] run by (auto simp: walk_ok_def tokenizeHtml_def intro: walk_end_tiles)
  with tiles_text [OF this] show ?thesis by (simp add: slice_def)
qed

text \<open>C40. The tokens report what the reference reads: when the markup ends outside any tag or comment, the tags with
  their attributes and values, the end tags, comments and text characters of the tokens, in order, are
  those that the reference automaton recognises character by character.\<close>
theorem tokens_report_reference:
  assumes "fst (ref_run MData src) = MData \<or> fst (ref_run MData src) = MRaw tag"
  shows "concat (map (token_marks src) (tokenizeHtml src)) = snd (ref_run MData src)"
proof -
  obtain t w where run: "walk_run src createTokenizer src 0 new_walk = (t, w)"
    by (cases "walk_run src createTokenizer src 0 new_walk")
  note ok = tokenize_walk [OF run]
  have st: "tk_state t = SData \<or> tk_state t = SRawText"
    using ok(2) assms by auto
  have K: "tokens_marks src (wk_tokens w) @ map Chr (slice src (wk_start w) (length src)) = snd (ref_run MData src)"
    using ok(1) assms by (auto simp: walk_ok_def)
  have e: "slice src (length src) (length src) = []" by simp
  show ?thesis
  proof (cases "wk_start w < length src")
    case True
    with st K run show ?thesis by (auto simp: tokenizeHtml_def walk_end_def Let_def visit_def)
  next
    case False
    then have "wk_start w = length src" using ok(1) by (auto simp: walk_ok_def)
    with K run show ?thesis by (simp add: tokenizeHtml_def walk_end_def)
  qed
qed

lemma tokens_report_reference_witness:
  "concat (map (token_marks ''<p a=1>x</p>'') (tokenizeHtml ''<p a=1>x</p>''))
     = [Tag ''p'', Attr ''a'', Value ''1'', TagEnd, Chr CHR ''x'', EndTag ''/p'']"
proof -
  have "ref_run MData ''<p a=1>x</p>'' = (MData, [Tag ''p'', Attr ''a'', Value ''1'', TagEnd, Chr CHR ''x'', EndTag ''/p''])"
    by code_simp
  with tokens_report_reference [of "''<p a=1>x</p>''"] show ?thesis by (simp del: ref_run.simps)
qed

end
