(* ===== verification/Template_Analysis.thy ===== *)
theory Template_Analysis
  imports Html_Tokens
begin

text \<open>
  The analysis of template strings (\<open>analyzeTemplate\<close> of \<open>renderer/src/template-analysis.ts\<close>): the
  tokenizer is driven over the strings of a template and every binding between them is classified, with
  what the renderers need to place or remove its value.

  There is one binding between two strings, so bindings are named by their index. The objects the code
  changes later (\<open>directValue\<close>, \<open>whole\<close>, the end of the tag) are updated in the list of bindings.
\<close>

(* models packages/renderer/src/template-analysis.ts:49-75 AttributeBinding *)
record attr_binding =
  ab_name :: string
  ab_start :: bool
  ab_whole :: bool
  ab_quote :: "char option"
  ab_prefixStart :: "nat option"
  ab_directValue :: bool
  ab_tagString :: nat
  ab_tagOffset :: nat
  ab_tagEndString :: "nat option"
  ab_tagEndOffset :: "nat option"

(* models packages/renderer/src/template-analysis.ts:17-47 BindingInfo *)
datatype binding_info = NodeB | AttrB attr_binding | RawB string bool | CommentB | ElementB | TagB bool

(* models packages/renderer/src/template-analysis.ts:78-84 AttributeGroup *)
record attr_group =
  ag_indices :: "nat list"
  ag_prefix :: string
  ag_suffixLength :: nat

(* models packages/renderer/src/template-analysis.ts:92-101 TemplateAnalysis *)
record template_analysis =
  ta_strings :: "string list"
  ta_bindings :: "binding_info list"
  ta_groups :: "(nat \<times> attr_group) list"

(* models packages/renderer/src/template-analysis.ts:302-312 OpenAttribute *)
record open_attr =
  oa_name :: string
  oa_stringIndex :: nat
  oa_nameStart :: nat
  oa_spaceStart :: nat
  oa_indices :: "nat list"
  oa_prefix :: string

record analysis =
  as_t :: tokenizer
  as_rawTextEmpty :: bool
  as_valueEmpty :: bool
  as_attr :: "open_attr option"
  as_spaceStart :: "nat option"
  as_tagBindings :: "nat list"
  as_tagHasStaticValue :: bool
  as_tagString :: nat
  as_tagOffset :: nat
  as_bindings :: "binding_info list"
  as_groups :: "(nat \<times> attr_group) list"
  as_out :: string
  as_strings :: "string list"

definition update_attr :: "nat \<Rightarrow> (attr_binding \<Rightarrow> attr_binding) \<Rightarrow> binding_info list \<Rightarrow> binding_info list" where
  "update_attr i f bs = (if i < length bs then (case bs ! i of AttrB b \<Rightarrow> bs[i := AttrB (f b)] | _ \<Rightarrow> bs) else bs)"

(* models packages/renderer/src/template-analysis.ts:344-361 closeAttribute *)
definition closeAttribute :: "nat \<Rightarrow> nat \<Rightarrow> analysis \<Rightarrow> analysis" where
  "closeAttribute i endInThisString a = (case as_attr a of
     None \<Rightarrow> a
   | Some at \<Rightarrow>
      (let a1 = (if oa_indices at = [] \<and> to_lower (oa_name at) = ''value'' then a\<lparr>as_tagHasStaticValue := True\<rparr> else a);
           a2 = (if oa_indices at \<noteq> [] \<and> oa_stringIndex at = hd (oa_indices at) then
             (let first = hd (oa_indices at);
                  suffixLength = (if i = Suc (last (oa_indices at)) then endInThisString else 0);
                  quoted = (case as_bindings a ! first of AttrB b \<Rightarrow> ab_quote b \<noteq> None | _ \<Rightarrow> False)
              in a1\<lparr>as_groups := as_groups a1 @ [(first, \<lparr>ag_indices = oa_indices at, ag_prefix = oa_prefix at, ag_suffixLength = suffixLength\<rparr>)],
                as_bindings := (if length (oa_indices at) > 1 \<or> suffixLength \<noteq> (if quoted then 1 else 0)
                  then update_attr first (\<lambda>b. b\<lparr>ab_whole := False\<rparr>) (as_bindings a1) else as_bindings a1)\<rparr>)
             else a1)
       in a2\<lparr>as_attr := None\<rparr>))"

(* models packages/renderer/src/template-analysis.ts:363-373 tagEnded *)
definition tagEnded :: "nat \<Rightarrow> analysis \<Rightarrow> analysis" where
  "tagEnded i a =
     (let a1 = closeAttribute i 0 a; t = as_t a1;
          direct = (tk_tagName t \<noteq> ''textarea'' \<and> tk_tagName t \<noteq> ''select'' \<and> \<not> as_tagHasStaticValue a1);
          resolve = (\<lambda>b. b\<lparr>ab_directValue := direct, ab_tagEndString := Some i, ab_tagEndOffset := Some (length (as_out a1))\<rparr>)
      in a1\<lparr>as_bindings := fold (\<lambda>k. update_attr k resolve) (as_tagBindings a1) (as_bindings a1), as_tagBindings := [],
        as_rawTextEmpty := (if tk_state t = SRawText then True else as_rawTextEmpty a1)\<rparr>)"

text \<open>
  The bookkeeping of one step in string \<open>i\<close>, from state \<open>st\<close> at \<open>j\<close> over \<open>ch\<close>; the tokenizer is already
  past it, and \<open>read\<close> is what the step read.
\<close>

(* models packages/renderer/src/template-analysis.ts:375-449 analyzeTemplate *)
definition analyze_step :: "string \<Rightarrow> nat \<Rightarrow> nat \<Rightarrow> char \<Rightarrow> html_state \<Rightarrow> string \<Rightarrow> analysis \<Rightarrow> analysis" where
  "analyze_step scopeAttr i j ch st read a = (let to = tk_state (as_t a); pos = length (as_out a);
     a' = (case st of
       SData \<Rightarrow> if to = STagName then a\<lparr>as_tagBindings := [], as_tagHasStaticValue := False, as_tagString := i, as_tagOffset := pos\<rparr> else a
     | STagName \<Rightarrow> if to \<noteq> STagName then a\<lparr>as_out := as_out a @ scopeAttr, as_spaceStart := None\<rparr> else a
     | SAttrName \<Rightarrow>
         if to = SAttrName then a\<lparr>as_attr := map_option (\<lambda>at. at\<lparr>oa_name := oa_name at @ read\<rparr>) (as_attr a)\<rparr>
         else if to = SAfterAttrName then a\<lparr>as_spaceStart := Some pos\<rparr>
         else if to = SBeforeAttrName then (closeAttribute i j a)\<lparr>as_spaceStart := None\<rparr>
         else a
     | SBeforeAttrValue \<Rightarrow>
         if to = SAttrValueQuoted then a\<lparr>as_valueEmpty := True\<rparr>
         else if to = SData \<or> to = SRawText then tagEnded i (closeAttribute i j a)
         else a
     | SAttrValueQuoted \<Rightarrow>
         if to = SBeforeAttrName then (closeAttribute i (Suc j) a)\<lparr>as_spaceStart := None\<rparr> else a\<lparr>as_valueEmpty := False\<rparr>
     | SAttrValueUnquoted \<Rightarrow> if to = SBeforeAttrName then (closeAttribute i j a)\<lparr>as_spaceStart := None\<rparr> else a
     | SRawText \<Rightarrow> if to = SRawText then a\<lparr>as_rawTextEmpty := False\<rparr> else a
     | SEndTag \<Rightarrow> a
     | SComment \<Rightarrow> a
     | SBogusComment \<Rightarrow> a
     | _ \<Rightarrow> \<comment> \<open>before or after an attribute name\<close>
         if to = SAttrName then
           (closeAttribute i j a)\<lparr>as_attr := Some \<lparr>oa_name = [ch], oa_stringIndex = i, oa_nameStart = pos,
              oa_spaceStart = (case as_spaceStart a of None \<Rightarrow> pos | Some p \<Rightarrow> p), oa_indices = [], oa_prefix = []\<rparr>, as_spaceStart := None\<rparr>
         else if isSpace ch then a\<lparr>as_spaceStart := (case as_spaceStart a of None \<Rightarrow> Some pos | p \<Rightarrow> p)\<rparr>
         else if ch = CHR ''/'' then a\<lparr>as_spaceStart := None\<rparr>
         else if to \<noteq> SBeforeAttrValue then tagEnded i a
         else a)
   in a'\<lparr>as_out := as_out a' @ read\<rparr>)"

function analyze_string :: "string \<Rightarrow> nat \<Rightarrow> nat \<Rightarrow> string \<Rightarrow> analysis \<Rightarrow> analysis" where
  "analyze_string scopeAttr i j [] a = a"
| "analyze_string scopeAttr i j (c # s) a = (case html_step (as_t a) (c # s) of (t', n) \<Rightarrow>
     analyze_string scopeAttr i (j + n) (drop n (c # s))
       ((analyze_step scopeAttr i j c (tk_state (as_t a)) (take n (c # s)) (a\<lparr>as_t := t'\<rparr>))\<lparr>as_t := t'\<rparr>))"
  by pat_completeness auto
termination
  by (relation "measure (\<lambda>(scopeAttr, i, j, s, a). tok_measure (as_t a) s)") (auto simp: html_step_measure simp del: drop.simps drop_Cons')

text \<open>The binding after string \<open>i\<close>.\<close>

(* models packages/renderer/src/template-analysis.ts:454-528 analyzeTemplate *)
definition classify :: "nat \<Rightarrow> string \<Rightarrow> analysis \<Rightarrow> analysis" where
  "classify i str a = (let t = as_t a; push = (\<lambda>b a. a\<lparr>as_bindings := as_bindings a @ [b]\<rparr>);
       to = (\<lambda>st a. a\<lparr>as_t := (as_t a)\<lparr>tk_state := st\<rparr>\<rparr>) in
     if tk_state t = SData then
       (if ends_with str ''</'' then to SEndTag (push (TagB True) a)
        else if ends_with str ''<'' then
          (push (TagB False) a)\<lparr>as_t := t\<lparr>tk_state := SBeforeAttrName, tk_tagName := []\<rparr>, as_tagBindings := [],
             as_tagHasStaticValue := False, as_tagString := i, as_tagOffset := length (as_out a) - 1, as_spaceStart := None\<rparr>
        else push NodeB a)
     else if tk_state t = SComment \<or> tk_state t = SBogusComment then push CommentB a
     else if tk_state t = SRawText then (push (RawB (tk_rawTextTag t) (as_rawTextEmpty a)) a)\<lparr>as_rawTextEmpty := False\<rparr>
     else if tk_state t = SBeforeAttrValue \<or> tk_state t = SAttrValueQuoted \<or> tk_state t = SAttrValueUnquoted then
       (case as_attr a of
          None \<Rightarrow> push ElementB a
        | Some at \<Rightarrow>
           (let quoted = (tk_state t = SAttrValueQuoted);
                start = ((tk_state t = SBeforeAttrValue \<or> quoted \<and> as_valueEmpty a) \<and> oa_stringIndex at = i);
                at' = at\<lparr>oa_prefix := (if oa_indices at = [] \<and> oa_stringIndex at = i then drop (oa_spaceStart at) (as_out a) else oa_prefix at),
                   oa_indices := oa_indices at @ [i]\<rparr>;
                b = \<lparr>ab_name = oa_name at, ab_start = start, ab_whole = start, ab_quote = (if quoted then Some (tk_quote t) else None),
                   ab_prefixStart = (if start then Some (oa_nameStart at) else None), ab_directValue = False,
                   ab_tagString = as_tagString a, ab_tagOffset = as_tagOffset a, ab_tagEndString = None, ab_tagEndOffset = None\<rparr>;
                a1 = (push (AttrB b) a)\<lparr>as_attr := Some at', as_tagBindings := as_tagBindings a @ [i], as_valueEmpty := False\<rparr>
            in if tk_state t = SBeforeAttrValue then to SAttrValueUnquoted a1 else a1))
     else (let a1 = push ElementB a in
       if tk_state t = SAttrName \<or> tk_state t = SAfterAttrName then closeAttribute i 0 a1 else a1))"

fun analyze_all :: "string \<Rightarrow> nat \<Rightarrow> string list \<Rightarrow> analysis \<Rightarrow> analysis" where
  "analyze_all scopeAttr i [] a = a"
| "analyze_all scopeAttr i (str # rest) a =
     (let a1 = analyze_string scopeAttr i 0 str (a\<lparr>as_out := []\<rparr>);
          a2 = (if rest \<noteq> [] then classify i str a1 else a1)
      in analyze_all scopeAttr (Suc i) rest (a2\<lparr>as_strings := as_strings a2 @ [as_out a2]\<rparr>))"

definition new_analysis :: analysis where
  "new_analysis = \<lparr>as_t = createTokenizer, as_rawTextEmpty = True, as_valueEmpty = True, as_attr = None, as_spaceStart = None,
     as_tagBindings = [], as_tagHasStaticValue = False, as_tagString = 0, as_tagOffset = 0, as_bindings = [], as_groups = [],
     as_out = [], as_strings = []\<rparr>"

definition scope_attr :: "string option \<Rightarrow> string" where
  "scope_attr scopeId = (case scopeId of None \<Rightarrow> []
     | Some s \<Rightarrow> if s = [] then [] else '' data-cossack-scope='' @ [CHR 0x22] @ s @ [CHR 0x22])"

(* models packages/renderer/src/template-analysis.ts:321-342 analyzeTemplate *)
definition analyzeTemplate :: "string list \<Rightarrow> string option \<Rightarrow> template_analysis" where
  "analyzeTemplate input scopeId = (let a = analyze_all (scope_attr scopeId) 0 input new_analysis in
     \<lparr>ta_strings = as_strings a, ta_bindings = as_bindings a, ta_groups = as_groups a\<rparr>)"

end
