(* ===== verification/Ssr_Render.thy ===== *)
theory Ssr_Render
  imports Template_Analysis
begin

text \<open>
  Rendering templates to markup on the server (the server part of \<open>renderer/src/cossack-html.ts\<close>): the text a
  value contributes in each kind of position, the spreads of an element, and the scanner that walks over
  the analysed strings of a template and edits what it has written so far.

  A value is what the template got, with what running user code gives in its place: the field behind a
  binding directive, the items of \<open>repeat\<close>, the result of a \<open>guard\<close> factory, what a component's
  \<open>render\<close> returned. Numbers and plain objects carry the text that \<open>String\<close> gives for them, functions
  their source. \<open>None\<close> is the \<open>TypeError\<close> of turning an array with a symbol into text.
\<close>

section \<open>Values and their text\<close>

datatype ssr_value = VUndef | VNull | VNothing | VBool bool | VNum string | VStr string | VFun string
  | VObj "(string \<times> ssr_value) list" string
  | VArr "ssr_value list"
  | VTpl "string list" "ssr_value list" "string option"
  | VLive ssr_value | VIfDefined ssr_value | VBind ssr_value
  | VRepeat "ssr_value list" | VKey ssr_value | VGuard ssr_value | VCache ssr_value
  | VComp ssr_value
  | VUnsafe string

fun truthy :: "ssr_value \<Rightarrow> bool" where
  "truthy VUndef = False"
| "truthy VNull = False"
| "truthy (VBool b) = b"
| "truthy (VNum s) = (s \<noteq> ''0'' \<and> s \<noteq> ''NaN'')"
| "truthy (VStr s) = (s \<noteq> [])"
| "truthy v = True"

fun all_some :: "'a option list \<Rightarrow> 'a list option" where
  "all_some [] = Some []"
| "all_some (x # xs) = Option.bind x (\<lambda>a. map_option ((#) a) (all_some xs))"

text \<open>\<open>String(value)\<close>. The text of an array joins its elements, of which \<open>null\<close> and \<open>undefined\<close> give none.\<close>

function string_of :: "ssr_value \<Rightarrow> string option" where
  "string_of VUndef = Some ''undefined''"
| "string_of VNull = Some ''null''"
| "string_of VNothing = Some ''Symbol(cossack-nothing)''"
| "string_of (VBool b) = Some (if b then ''true'' else ''false'')"
| "string_of (VNum s) = Some s"
| "string_of (VStr s) = Some s"
| "string_of (VFun s) = Some s"
| "string_of (VObj ps s) = Some s"
| "string_of (VArr vs) = map_option (join_with '','') (all_some (map (\<lambda>v. if v = VUndef \<or> v = VNull then Some []
     else if v = VNothing then None else string_of v) vs))"
| "string_of (VTpl ss vs sc) = Some ''[object Object]''"
| "string_of (VLive v) = Some ''[object Object]''"
| "string_of (VIfDefined v) = Some ''[object Object]''"
| "string_of (VBind v) = Some ''[object Object]''"
| "string_of (VRepeat vs) = Some ''[object Object]''"
| "string_of (VKey v) = Some ''[object Object]''"
| "string_of (VGuard v) = Some ''[object Object]''"
| "string_of (VCache v) = Some ''[object Object]''"
| "string_of (VComp v) = Some ''[object Object]''"
| "string_of (VUnsafe s) = Some ''[object Object]''"
  by pat_completeness auto
termination
  by (relation "measure size") (auto simp: less_Suc_eq_le size_list_estimation')

(* models packages/renderer/src/cossack-html.ts:159-159 HTML_ESCAPES *)
definition HTML_ESCAPES :: "char \<Rightarrow> string option" where
  "HTML_ESCAPES c = (if c = CHR ''&'' then Some ''&amp;'' else if c = CHR ''<'' then Some ''&lt;'' else if c = CHR ''>'' then Some ''&gt;''
     else if c = CHR 0x22 then Some ''&quot;'' else if c = CHR 0x27 then Some ''&#039;'' else None)"

(* models packages/renderer/src/cossack-html.ts:165-168 escapeHtml *)
definition escapeHtml :: "string \<Rightarrow> string" where
  "escapeHtml str = (if list_ex (\<lambda>c. HTML_ESCAPES c \<noteq> None) str
     then concat (map (\<lambda>c. case HTML_ESCAPES c of Some e \<Rightarrow> e | None \<Rightarrow> [c]) str) else str)"

(* models packages/renderer/src/cossack-html.ts:177-177 nodeValueText *)
definition nodeValueText :: "ssr_value \<Rightarrow> string option" where
  "nodeValueText v = (case v of VFun s \<Rightarrow> Some [] | _ \<Rightarrow> string_of v)"

(* models packages/renderer/src/cossack-html.ts:183-189 unwrapNodeValue *)
fun unwrapNodeValue :: "ssr_value \<Rightarrow> ssr_value" where
  "unwrapNodeValue (VLive v) = unwrapNodeValue v"
| "unwrapNodeValue (VIfDefined v) = unwrapNodeValue v"
| "unwrapNodeValue (VBind v) = unwrapNodeValue v"
| "unwrapNodeValue v = v"

(* models packages/renderer/src/cossack-html.ts:198-202 attributeValueText *)
definition attributeValueText :: "ssr_value \<Rightarrow> string option" where
  "attributeValueText value = (case unwrapNodeValue value of
     VNothing \<Rightarrow> Some [] | VNull \<Rightarrow> Some [] | VUndef \<Rightarrow> Some [] | VFun s \<Rightarrow> Some [] | v \<Rightarrow> string_of v)"

definition special_name :: "string \<Rightarrow> bool" where
  "special_name n \<longleftrightarrow> (case n of c # _ \<Rightarrow> c = CHR ''.'' \<or> c = CHR ''?'' \<or> c = CHR ''@'' | [] \<Rightarrow> False)"

(* models packages/renderer/src/cossack-html.ts:211-212 interpolatesText *)
definition interpolatesText :: "attr_binding \<Rightarrow> bool" where
  "interpolatesText b \<longleftrightarrow> \<not> ab_whole b \<and> \<not> special_name (ab_name b) \<and> ab_name b \<noteq> ''ref'' \<and> ab_name b \<noteq> ''...''"

text \<open>The text of raw-text elements.\<close>

(* models packages/renderer/src/cossack-html.ts:592-598 rawTextString *)
fun rawTextString :: "ssr_value \<Rightarrow> string option" where
  "rawTextString (VLive v) = rawTextString v"
| "rawTextString (VIfDefined v) = rawTextString v"
| "rawTextString (VBind v) = rawTextString v"
| "rawTextString VNothing = Some []"
| "rawTextString VNull = Some []"
| "rawTextString VUndef = Some []"
| "rawTextString (VBool b) = Some (if b then ''true'' else [])"
| "rawTextString (VArr vs) = map_option concat (all_some (map rawTextString vs))"
| "rawTextString (VUnsafe s) = Some s"
| "rawTextString v = nodeValueText v"

text \<open>\<open>replace(/<\/(tag)/gi, '<\\/$1')\<close> and \<open>replace(/<!--/g, '\\u003c!--')\<close>.\<close>

fun guard_end :: "string \<Rightarrow> string \<Rightarrow> string" where
  "guard_end tag [] = []"
| "guard_end tag (c # s) = (if c = CHR ''<'' \<and> starts_with (to_lower s) (CHR ''/'' # tag)
     then [CHR ''<'', CHR 0x5C] @ take (Suc (length tag)) s @ guard_end tag (drop (Suc (length tag)) s) else c # guard_end tag s)"

fun guard_comment :: "string \<Rightarrow> string" where
  "guard_comment [] = []"
| "guard_comment (c # s) = (if c = CHR ''<'' \<and> starts_with s ''!--'' then CHR 0x5C # ''u003c!--'' @ guard_comment (drop 3 s)
     else c # guard_comment s)"

(* models packages/renderer/src/cossack-html.ts:607-612 rawTextContent *)
definition rawTextContent :: "string \<Rightarrow> ssr_value \<Rightarrow> string option" where
  "rawTextContent tag value = map_option (\<lambda>text.
     if tag = ''script'' then guard_comment (guard_end ''script'' text)
     else if tag = ''style'' then guard_end ''style'' text else text) (rawTextString value)"

(* models packages/renderer/src/cossack-html.ts:614-621 rawTextSSR *)
definition rawTextSSR :: "string \<Rightarrow> ssr_value \<Rightarrow> bool \<Rightarrow> string option" where
  "rawTextSSR tag value first = map_option (\<lambda>text.
     if tag = ''script'' \<or> tag = ''style'' then text
     else (let escaped = escapeHtml text in
       if tag = ''textarea'' \<and> first \<and> starts_with escaped [CHR 0x0A] then CHR 0x0A # escaped else escaped)) (rawTextContent tag value)"


section \<open>Attributes\<close>

(* models packages/renderer/src/cossack-html.ts:355-360 BOOLEAN_ATTRS *)
definition BOOLEAN_ATTRS :: "string list" where
  "BOOLEAN_ATTRS = [''allowfullscreen'', ''async'', ''autofocus'', ''autoplay'', ''checked'', ''controls'',
     ''default'', ''defer'', ''disabled'', ''formnovalidate'', ''hidden'', ''inert'', ''ismap'',
     ''itemscope'', ''loop'', ''multiple'', ''muted'', ''nomodule'', ''novalidate'', ''open'',
     ''playsinline'', ''readonly'', ''required'', ''reversed'', ''selected'']"

(* models packages/renderer/src/cossack-html.ts:362-365 serializeBooleanAttribute *)
definition serializeBooleanAttribute :: "string \<Rightarrow> bool \<Rightarrow> string option" where
  "serializeBooleanAttribute name value = (if to_lower name \<in> set BOOLEAN_ATTRS then (if value then Some [] else None)
     else Some (if value then ''true'' else ''false''))"

definition quoted_attr :: "string \<Rightarrow> string \<Rightarrow> string" where
  "quoted_attr name text = '' '' @ name @ [CHR ''='', CHR 0x22] @ text @ [CHR 0x22]"

definition boolean_markup :: "string \<Rightarrow> bool \<Rightarrow> string option" where
  "boolean_markup name b = map_option (\<lambda>s. if s = [] then '' '' @ name else quoted_attr name s) (serializeBooleanAttribute name b)"

(* models packages/renderer/src/cossack-html.ts:430-441 propertyBindingSSR *)
definition propertyBindingSSR :: "string \<Rightarrow> ssr_value \<Rightarrow> bool \<Rightarrow> string option" where
  "propertyBindingSSR prop value directValue =
     (let v1 = (case value of VBind v \<Rightarrow> v | v \<Rightarrow> v); v2 = (case v1 of VLive v \<Rightarrow> v | v \<Rightarrow> v) in
      if v2 = VNothing then Some []
      else if prop = ''value'' then
        map_option (\<lambda>s. quoted_attr (if directValue then ''value'' else ''.value'') (escapeHtml s))
          (if v2 = VUndef \<or> v2 = VNull then Some [] else string_of v2)
      else if to_lower prop \<in> set BOOLEAN_ATTRS then Some (if truthy v2 then '' '' @ to_lower prop else [])
      else Some [])"

(* models packages/renderer/src/cossack-html.ts:372-376 spreadClassText *)
definition spreadClassText :: "ssr_value \<Rightarrow> string option" where
  "spreadClassText value = (case value of
     VIfDefined v \<Rightarrow> if v = VUndef then Some [] else string_of v
   | VNothing \<Rightarrow> Some [] | VNull \<Rightarrow> Some [] | VUndef \<Rightarrow> Some [] | VBool False \<Rightarrow> Some [] | VFun s \<Rightarrow> Some []
   | v \<Rightarrow> string_of v)"

fun split_space :: "string \<Rightarrow> string list" where
  "split_space [] = [[]]"
| "split_space (c # s) = (if isSpace c then [] # split_space s else (case split_space s of p # ps \<Rightarrow> (c # p) # ps | [] \<Rightarrow> [[c]]))"

(* models packages/renderer/src/cossack-html.ts:379-379 classTokens *)
definition classTokens :: "string \<Rightarrow> string list" where
  "classTokens text = filter (\<lambda>t. t \<noteq> []) (split_space text)"

text \<open>
  The spreads of an element merged. Event keys are for the client only. Templates and directives, which are
  objects too, are not represented as spreads.
\<close>

fun own_entries :: "ssr_value \<Rightarrow> (string \<times> ssr_value) list" where
  "own_entries (VObj ps s) = ps"
| "own_entries (VArr vs) = zip (map nat_digits [0..<length vs]) vs"
| "own_entries v = []"

definition merge_entry :: "string \<times> ssr_value \<Rightarrow> (string \<times> ssr_value) list \<times> string list \<Rightarrow> ((string \<times> ssr_value) list \<times> string list) option" where
  "merge_entry kv m = (case (kv, m) of ((key, val), entries, classes) \<Rightarrow>
     if key = ''class'' \<or> key = ''className'' then map_option (\<lambda>t. (entries, classes @ classTokens t)) (spreadClassText val)
     else if starts_with key ''@'' then Some (entries, classes)
     else Some (AList.delete key entries @ [(key, val)], classes))"

fun merge_entries :: "(string \<times> ssr_value) list \<Rightarrow> (string \<times> ssr_value) list \<times> string list \<Rightarrow> ((string \<times> ssr_value) list \<times> string list) option" where
  "merge_entries [] m = Some m"
| "merge_entries (kv # kvs) m = Option.bind (merge_entry kv m) (merge_entries kvs)"

(* models packages/renderer/src/cossack-html.ts:402-419 mergeSpreads *)
definition mergeSpreads :: "ssr_value list \<Rightarrow> ((string \<times> ssr_value) list \<times> string list) option" where
  "mergeSpreads values = merge_entries (concat (map own_entries values)) ([], [])"

text \<open>\<open>Some None\<close> is the null that removes the attribute.\<close>

(* models packages/renderer/src/cossack-html.ts:448-459 spreadAttributeSSR *)
definition spreadAttributeSSR :: "string \<Rightarrow> ssr_value \<Rightarrow> string option option" where
  "spreadAttributeSSR name value = (case value of
     VNothing \<Rightarrow> Some None | VNull \<Rightarrow> Some None | VUndef \<Rightarrow> Some None | VFun s \<Rightarrow> Some None
   | VIfDefined v \<Rightarrow> if v = VUndef then Some None else map_option (\<lambda>s. Some (quoted_attr name (escapeHtml s))) (string_of v)
   | VBool b \<Rightarrow> Some (boolean_markup name b)
   | v \<Rightarrow> map_option (\<lambda>s. Some (quoted_attr name (escapeHtml s))) (string_of v))"

definition spread_entry :: "bool \<Rightarrow> string \<times> ssr_value \<Rightarrow> (string \<times> string option) list \<Rightarrow> (string \<times> string option) list option" where
  "spread_entry directValue kv attributes = (case kv of (key, value) \<Rightarrow>
     let put = (\<lambda>name markup. AList.delete (to_lower name) attributes @ [(to_lower name, markup)]) in
     if starts_with key ''?'' then Some (put (tl key) (if value \<noteq> VNothing \<and> truthy value then Some ('' '' @ tl key) else None))
     else if starts_with key ''.'' then
       (let prop = tl key;
            name = (if prop = ''value'' then Some (if directValue then ''value'' else ''.value'')
              else if to_lower prop \<in> set BOOLEAN_ATTRS then Some prop else None) in
        case name of None \<Rightarrow> Some attributes
        | Some n \<Rightarrow> map_option (\<lambda>m. put n (if m = [] then None else Some m)) (propertyBindingSSR prop value directValue))
     else map_option (put key) (spreadAttributeSSR key value))"

(* models packages/renderer/src/cossack-html.ts:467-487 spreadAttributesSSR *)
fun spreadAttributesSSR :: "bool \<Rightarrow> (string \<times> ssr_value) list \<Rightarrow> (string \<times> string option) list \<Rightarrow> (string \<times> string option) list option" where
  "spreadAttributesSSR directValue [] attributes = Some attributes"
| "spreadAttributesSSR directValue (e # es) attributes = Option.bind (spread_entry directValue e attributes) (spreadAttributesSSR directValue es)"

text \<open>The start tag at \<open>tagStart\<close>, when there is one.\<close>

definition tag_at :: "string \<Rightarrow> nat \<Rightarrow> (nat \<times> html_attribute list \<times> bool \<times> bool) option" where
  "tag_at result tagStart = (case tokenizeHtml (drop tagStart result) of
     StartTok a b n e at sc cl # _ \<Rightarrow> Some (b, at, sc, cl) | _ \<Rightarrow> None)"

definition replace_quotes :: "string \<Rightarrow> string" where
  "replace_quotes s = replace_all CHR 0x22 ''&quot;'' s"

(* models packages/renderer/src/cossack-html.ts:498-516 mergeSpreadClasses *)
definition mergeSpreadClasses :: "string \<Rightarrow> nat \<Rightarrow> string list \<Rightarrow> string" where
  "mergeSpreadClasses result tagStart tokens = (case tag_at result tagStart of
     None \<Rightarrow> result
   | Some (end', attrs, selfClosing, closed) \<Rightarrow>
      (let attr = List.find (\<lambda>a. to_lower (ha_name a) = ''class'') attrs;
           existing = (case attr of Some a \<Rightarrow> (case ha_valueStart a of Some b \<Rightarrow>
               classTokens (slice result (tagStart + b) (tagStart + the (ha_valueEnd a))) | None \<Rightarrow> []) | None \<Rightarrow> []);
           merged = join_with '' '' (uniq (existing @ map escapeHtml tokens)) in
       case attr of
         None \<Rightarrow>
           (let at = tagStart + (if closed then end' - (if selfClosing then 2 else 1) else end') in
            take at result @ quoted_attr ''class'' merged @ drop at result)
       | Some a \<Rightarrow>
           (let from' = tagStart + (case ha_valueStart a of Some b \<Rightarrow> b | None \<Rightarrow> ha_nameStart a);
                to' = tagStart + (case ha_valueStart a of Some b \<Rightarrow> the (ha_valueEnd a) | None \<Rightarrow> the (ha_nameEnd a)) in
            if ha_valueStart a \<noteq> None \<and> ha_quote a \<noteq> None then take from' result @ merged @ drop to' result
            else (let value = [CHR 0x22] @ replace_quotes merged @ [CHR 0x22] in
              take from' result @ (if ha_valueStart a \<noteq> None then value else ''class='' @ value) @ drop to' result))))"

text \<open>Removal of one attribute with the whitespace before it; the last attribute first.\<close>

definition cut_attr :: "nat \<Rightarrow> html_attribute \<Rightarrow> string \<Rightarrow> string" where
  "cut_attr tagStart a result =
     (let start = tagStart + ha_nameStart a;
          end' = tagStart + (if ha_valueStart a \<noteq> None then the (ha_valueEnd a) + (if ha_quote a \<noteq> None then 1 else 0) else the (ha_nameEnd a));
          spaces = length (takeWhile isSpace (rev (slice result tagStart start)))
      in take (start - spaces) result @ drop end' result)"

(* models packages/renderer/src/cossack-html.ts:536-561 removeSpreadOverrides *)
definition removeSpreadOverrides :: "string \<Rightarrow> nat \<Rightarrow> nat \<Rightarrow> nat \<Rightarrow> string list \<Rightarrow> string" where
  "removeSpreadOverrides result tagStart ownStart ownEnd names =
     (let rest = to_lower (slice result tagStart ownStart @ drop ownEnd result) in
      if \<not> list_ex (contains rest) names then result
      else (case tag_at result tagStart of
          None \<Rightarrow> result
        | Some (end', attrs, selfClosing, closed) \<Rightarrow>
            foldr (\<lambda>a r. if ownStart \<le> tagStart + ha_nameStart a \<and> tagStart + ha_nameStart a < ownEnd \<or> to_lower (ha_name a) \<notin> set names
              then r else cut_attr tagStart a r) attrs result))"

(* models packages/renderer/src/cossack-html.ts:519-528 PendingSpreads *)
record pending_spreads =
  ps_tagStart :: nat
  ps_insertAt :: nat
  ps_values :: "ssr_value list"
  ps_directValue :: bool
  ps_endString :: "nat option"
  ps_endOffset :: nat

(* models packages/renderer/src/cossack-html.ts:569-578 finishSpreads *)
definition finishSpreads :: "string \<Rightarrow> pending_spreads \<Rightarrow> string option" where
  "finishSpreads result pending =
     Option.bind (mergeSpreads (ps_values pending)) (\<lambda>(entries, classes).
     map_option (\<lambda>attributes.
       let markup = concat (map (\<lambda>(n, m). case m of Some s \<Rightarrow> s | None \<Rightarrow> []) attributes);
           at = ps_insertAt pending;
           r1 = take at result @ markup @ drop at result;
           r2 = (if attributes \<noteq> [] then removeSpreadOverrides r1 (ps_tagStart pending) at (at + length markup) (map fst attributes) else r1)
       in if classes \<noteq> [] then mergeSpreadClasses r2 (ps_tagStart pending) classes else r2)
     (spreadAttributesSSR (ps_directValue pending) entries []))"


section \<open>The scanner\<close>

record ssr_scan =
  sc_result :: string
  sc_charIdx :: nat
  sc_stringStarts :: "int list"
  sc_pending :: "pending_spreads option"

definition trimEnd :: "string \<Rightarrow> string" where
  "trimEnd s = rev (dropWhile is_ws (rev s))"

text \<open>
  Emitting string \<open>i\<close> from the character after what an attribute consumed. When the start tag of waiting
  spreads ends in this string, they are applied as soon as its bracket is out.
\<close>

(* models packages/renderer/src/cossack-html.ts:650-664 SSRScanner.scan *)
definition emit_string :: "nat \<Rightarrow> string \<Rightarrow> ssr_scan \<Rightarrow> ssr_scan option" where
  "emit_string i str st = (case sc_pending st of
     Some p \<Rightarrow>
       if ps_endString p = Some i then
         (let tagEnd = Suc (ps_endOffset p) in
          map_option (\<lambda>r. st\<lparr>sc_result := r @ drop tagEnd str, sc_charIdx := 0, sc_pending := None,
              sc_stringStarts := sc_stringStarts st @ [int (length r) - int tagEnd]\<rparr>)
            (finishSpreads (sc_result st @ slice str (sc_charIdx st) tagEnd) p))
       else Some (st\<lparr>sc_result := sc_result st @ drop (sc_charIdx st) str, sc_charIdx := 0,
          sc_stringStarts := sc_stringStarts st @ [int (length (sc_result st)) - int (sc_charIdx st)]\<rparr>)
   | None \<Rightarrow> Some (st\<lparr>sc_result := sc_result st @ drop (sc_charIdx st) str, sc_charIdx := 0,
          sc_stringStarts := sc_stringStarts st @ [int (length (sc_result st)) - int (sc_charIdx st)]\<rparr>))"

text \<open>
  A binding that is an attribute's whole value, or has a prefix that takes all of it: the text \<open>full\<close> from
  the attribute's name on is taken back, and what stands for the value is written. The result comes with the
  characters of the next string to skip.
\<close>

(* models packages/renderer/src/cossack-html.ts:715-776 SSRScanner.scan *)
definition whole_attr :: "attr_binding \<Rightarrow> string \<Rightarrow> string \<Rightarrow> ssr_value \<Rightarrow> string \<Rightarrow> (string \<times> nat) option" where
  "whole_attr b full nextStr val result =
     (let r = take (length result - length full) result; trimmed = trimEnd r; name = ab_name b;
          skip = (case ab_quote b of Some q \<Rightarrow> if starts_with nextStr [q] then 1 else 0 | None \<Rightarrow> 0) in
      if name = ''ref'' \<or> starts_with name ''@'' then Some (trimmed, skip)
      else if starts_with name ''?'' then Some (if truthy val then trimmed @ '' '' @ tl name else trimmed, skip)
      else if starts_with name ''.'' then map_option (\<lambda>m. (trimmed @ m, skip)) (propertyBindingSSR (tl name) val (ab_directValue b))
      else (case val of
          VIfDefined v \<Rightarrow> if v = VUndef then Some (trimmed, skip)
            else map_option (\<lambda>s. (trimmed @ quoted_attr name (escapeHtml s), skip)) (string_of v)
        | VNull \<Rightarrow> Some (trimmed, skip)
        | VUndef \<Rightarrow> Some (trimmed, skip)
        | VNothing \<Rightarrow> Some (trimmed, skip)
        | VBool v \<Rightarrow> Some (trimmed @ (case boolean_markup name v of Some m \<Rightarrow> m | None \<Rightarrow> []), skip)
        | v \<Rightarrow> map_option (\<lambda>s. if ab_quote b \<noteq> None then (r @ full @ escapeHtml s, 0)
              else (r @ full @ [CHR 0x22] @ escapeHtml s @ [CHR 0x22], 0)) (attributeValueText val)))"

text \<open>A spread is noted, and applied when its start tag is complete.\<close>

(* models packages/renderer/src/cossack-html.ts:696-715 SSRScanner.scan *)
definition note_spread :: "attr_binding \<Rightarrow> string \<Rightarrow> ssr_value \<Rightarrow> ssr_scan \<Rightarrow> ssr_scan" where
  "note_spread b full val st =
     (let trimmed = trimEnd (take (length (sc_result st) - length full) (sc_result st));
          tagStart = nat (sc_stringStarts st ! ab_tagString b + int (ab_tagOffset b));
          fresh = \<lparr>ps_tagStart = tagStart, ps_insertAt = length trimmed, ps_values = [val], ps_directValue = ab_directValue b,
            ps_endString = ab_tagEndString b, ps_endOffset = (case ab_tagEndOffset b of Some e \<Rightarrow> e | None \<Rightarrow> 0)\<rparr>
      in st\<lparr>sc_result := trimmed, sc_pending := Some (case sc_pending st of
           Some p \<Rightarrow> if ps_tagStart p = tagStart then p\<lparr>ps_values := ps_values p @ [val], ps_insertAt := length trimmed\<rparr> else fresh
         | None \<Rightarrow> fresh)\<rparr>)"

text \<open>
  The value of binding \<open>i\<close>, whose markup in a child position is \<open>rendered\<close>. \<open>Some l\<close> is the last string
  that was dealt with.
\<close>

definition in_group :: "(nat \<times> attr_group) list \<Rightarrow> nat \<Rightarrow> ssr_value list \<Rightarrow> attr_group option" where
  "in_group groups i values = (case map_of groups i of
     Some g \<Rightarrow> if list_ex (\<lambda>k. k < length values \<and> values ! k = VNothing) (ag_indices g) then Some g else None
   | None \<Rightarrow> None)"

(* models packages/renderer/src/cossack-html.ts:666-806 SSRScanner.scan *)
definition scan_binding :: "bool \<Rightarrow> template_analysis \<Rightarrow> ssr_value list \<Rightarrow> string option list \<Rightarrow> nat \<Rightarrow> ssr_scan \<Rightarrow> (nat \<times> ssr_scan) option" where
  "scan_binding hydrate an values rendered i st =
     (let strings = ta_strings an; write_out = (\<lambda>s. (i, st\<lparr>sc_result := sc_result st @ s\<rparr>)); v = values ! i in
      case ta_bindings an ! i of
        AttrB b \<Rightarrow>
          (let val = (case v of VLive w \<Rightarrow> w | w \<Rightarrow> w) in
           case (if ab_name b = ''...'' then None else in_group (ta_groups an) i values) of
             Some g \<Rightarrow>
               Some (last (ag_indices g), st\<lparr>sc_result := (if ends_with (sc_result st) (ag_prefix g)
                   then take (length (sc_result st) - length (ag_prefix g)) (sc_result st) else sc_result st),
                 sc_charIdx := ag_suffixLength g\<rparr>)
           | None \<Rightarrow>
               if ab_start b \<and> \<not> interpolatesText b then
                 (let full = drop (case ab_prefixStart b of Some p \<Rightarrow> p | None \<Rightarrow> 0) (strings ! i); nextStr = strings ! Suc i in
                  if ab_name b = ''...'' then
                    Some (i, (note_spread b full val st)\<lparr>sc_charIdx :=
                      (case ab_quote b of Some q \<Rightarrow> if starts_with nextStr [q] then 1 else 0 | None \<Rightarrow> 0)\<rparr>)
                  else map_option (\<lambda>(r, k). (i, st\<lparr>sc_result := r, sc_charIdx := k\<rparr>)) (whole_attr b full nextStr val (sc_result st)))
               else map_option (\<lambda>s. write_out (escapeHtml s)) (attributeValueText val))
      | RawB tag first \<Rightarrow> map_option write_out (rawTextSSR tag v first)
      | CommentB \<Rightarrow> Some (i, st)
      | ElementB \<Rightarrow> Some (i, st)
      | _ \<Rightarrow> map_option (\<lambda>s. write_out (if hydrate then ''<!--CRP_'' @ nat_digits i @ ''-->'' @ s @ ''<!--/CRP-->'' else s)) (rendered ! i))"

text \<open>
  The loop over the strings. A removed attribute goes on after the last string it spans; its indices
  ascend, and \<open>max\<close> says no more than that.
\<close>

(* models packages/renderer/src/cossack-html.ts:644-664 SSRScanner.scan *)
function scan_loop :: "bool \<Rightarrow> template_analysis \<Rightarrow> ssr_value list \<Rightarrow> string option list \<Rightarrow> nat \<Rightarrow> ssr_scan \<Rightarrow> string option" where
  "scan_loop hydrate an values rendered i st =
     (if i < length (ta_strings an) then
        Option.bind (emit_string i (ta_strings an ! i) st) (\<lambda>st1.
        if Suc i < length (ta_strings an) then
          Option.bind (scan_binding hydrate an values rendered i st1) (\<lambda>(l, st2). scan_loop hydrate an values rendered (Suc (max i l)) st2)
        else scan_loop hydrate an values rendered (Suc i) st1)
      else (case sc_pending st of Some p \<Rightarrow> finishSpreads (sc_result st) p | None \<Rightarrow> Some (sc_result st)))"
  by pat_completeness auto
termination
  by (relation "measure (\<lambda>(hydrate, an, values, rendered, i, st). length (ta_strings an) - i)") auto

declare scan_loop.simps [simp del]

definition new_scan :: ssr_scan where
  "new_scan = \<lparr>sc_result = [], sc_charIdx = 0, sc_stringStarts = [], sc_pending = None\<rparr>"

definition scan_template :: "bool \<Rightarrow> string list \<Rightarrow> ssr_value list \<Rightarrow> string option \<Rightarrow> string option list \<Rightarrow> string option" where
  "scan_template hydrate strings values scopeId rendered =
     scan_loop hydrate (analyzeTemplate strings scopeId) values rendered 0 new_scan"


section \<open>Child positions\<close>

definition list_item :: "bool \<Rightarrow> string \<Rightarrow> string" where
  "list_item hydrate s = (if hydrate then ''<!--CSA-S-->'' @ s @ ''<!--CSA-E-->'' else s)"

text \<open>What a component's \<open>render\<close> returned: nothing when falsy, else a template or a value put into one.\<close>

(* models packages/renderer/src/cossack-html.ts:253-255 renderComponentSSR *)
definition component_markup :: "bool \<Rightarrow> ssr_value \<Rightarrow> string option \<Rightarrow> string option" where
  "component_markup hydrate v rendered = (if \<not> truthy v then Some [] else (case v of
     VTpl ss vs sc \<Rightarrow> rendered
   | _ \<Rightarrow> scan_template hydrate [[], []] [v] None [rendered]))"

(* models packages/renderer/src/cossack-html.ts:257-349 valueToString *)
function valueToString :: "bool \<Rightarrow> ssr_value \<Rightarrow> string option" where
  "valueToString h VNothing = Some []"
| "valueToString h VNull = Some []"
| "valueToString h VUndef = Some []"
| "valueToString h (VBool b) = Some (if b then ''true'' else [])"
| "valueToString h (VNum s) = Some (escapeHtml s)"
| "valueToString h (VStr s) = Some (escapeHtml s)"
| "valueToString h (VFun s) = Some []"
| "valueToString h (VObj ps s) = Some (escapeHtml s)"
| "valueToString h (VArr vs) = map_option (\<lambda>ss. concat (map (list_item h) ss)) (all_some (map (valueToString h) vs))"
| "valueToString h (VTpl ss vs sc) = scan_template h ss vs sc (map (valueToString h) vs)"
| "valueToString h (VLive v) = valueToString h v"
| "valueToString h (VIfDefined v) = valueToString h v"
| "valueToString h (VRepeat vs) = map_option (\<lambda>ss. concat (map (list_item h) ss)) (all_some (map (valueToString h) vs))"
| "valueToString h (VKey v) = valueToString h v"
| "valueToString h (VGuard v) = valueToString h v"
| "valueToString h (VCache v) = valueToString h v"
| "valueToString h (VBind v) = valueToString h v"
| "valueToString h (VComp v) = component_markup h v (valueToString h v)"
| "valueToString h (VUnsafe s) = Some s"
  by pat_completeness auto
termination
  by (relation "measure (\<lambda>(h, v). size v)") (auto simp: less_Suc_eq_le size_list_estimation' trans_le_add1)

end
