(* ===== verification/Html_Reading.thy ===== *)
theory Html_Reading
  imports Html_Reference
begin

text \<open>
  How the reference automaton reads markup that is put together from pieces: when a piece can be read on
  its own, what does not depend on the text of values, and when a start tag can go on after an
  attribute was taken out of it.
\<close>

section \<open>Pieces\<close>

text \<open>A piece is settled when what it looks ahead for lies within it.\<close>

definition decided :: "mstate \<Rightarrow> char \<Rightarrow> string \<Rightarrow> bool" where
  "decided m c s \<longleftrightarrow> c \<noteq> CHR ''<'' \<or> (case m of
     MData \<Rightarrow> s \<noteq> [] \<and> (hd s = CHR ''/'' \<longrightarrow> 2 \<le> length s) \<and> (hd s = CHR ''!'' \<longrightarrow> 3 \<le> length s)
   | MRaw n \<Rightarrow> s \<noteq> [] \<and> (hd s = CHR ''/'' \<longrightarrow> length n + 2 \<le> length s)
   | _ \<Rightarrow> True)"

fun settled :: "mstate \<Rightarrow> string \<Rightarrow> bool" where
  "settled m [] = True"
| "settled m (c # s) = (decided m c s \<and> settled (fst (ref_step m c s)) s)"

lemma ends_raw_append:
  assumes "s \<noteq> []" "hd s = CHR ''/'' \<Longrightarrow> length n + 2 \<le> length s"
  shows "ends_raw n (c # s @ r) = ends_raw n (c # s)"
proof (cases "hd s = CHR ''/''")
  case True
  then have "length n + 2 \<le> length s" by (rule assms(2))
  then show ?thesis by (auto simp: ends_raw_def char_at_def nth_append nth_Cons' split: if_splits)
next
  case False
  then show ?thesis using assms(1) by (cases s) (auto simp: ends_raw_def char_at_def)
qed

lemma data_step_append:
  assumes "s \<noteq> []" "hd s = CHR ''/'' \<Longrightarrow> 2 \<le> length s" "hd s = CHR ''!'' \<Longrightarrow> 3 \<le> length s"
  shows "data_step (s @ r) = data_step s"
proof -
  obtain c s' where s: "s = c # s'" using assms(1) by (cases s) auto
  have "opens_comment (s @ r) = opens_comment s" if "c = CHR ''!''"
    using assms(3) s that by (auto simp: opens_comment_def starts_with_def)
  moreover have "opens_comment (s @ r) = opens_comment s" if "c \<noteq> CHR ''!''"
    using s that by (auto simp: opens_comment_def starts_with_def)
  ultimately have "opens_comment (s @ r) = opens_comment s" by blast
  then show ?thesis using s assms(2)
    by (cases s') (auto simp: data_step_def split: list.splits)
qed

lemma decided_step: "decided m c s \<Longrightarrow> ref_step m c (s @ r) = ref_step m c s"
  by (cases m) (auto simp: decided_def data_step_append ends_raw_append)

lemma settled_run: "settled m s \<Longrightarrow> ref_run m (s @ r) = report (snd (ref_run m s)) (ref_run (fst (ref_run m s)) r)"
proof (induction s arbitrary: m)
  case (Cons c s)
  have "ref_step m c (s @ r) = ref_step m c s" using Cons.prems by (intro decided_step) simp
  with Cons show ?case by simp
qed simp

lemma plain_settled: "list_all (\<lambda>c. c \<noteq> CHR ''<'') s \<Longrightarrow> settled m s"
  by (induction s arbitrary: m) (auto simp: decided_def)

lemma ref_run_plain: "list_all (\<lambda>c. c \<noteq> CHR ''<'') s \<Longrightarrow>
  ref_run m (s @ r) = report (snd (ref_run m s)) (ref_run (fst (ref_run m s)) r)"
  by (rule settled_run [OF plain_settled])


section \<open>What does not depend on text\<close>

text \<open>The state without the value read so far, and the marks of tags and attribute names.\<close>

fun erase :: "mstate \<Rightarrow> mstate" where
  "erase (MQuoted n q v) = MQuoted n q []"
| "erase (MUnquoted n v) = MUnquoted n []"
| "erase m = m"

fun is_shown :: "mark \<Rightarrow> bool" where
  "is_shown (Chr c) = False"
| "is_shown (Value v) = False"
| "is_shown k = True"

definition shown :: "mark list \<Rightarrow> mark list" where
  "shown ks = filter is_shown ks"

lemma shown_simps [simp]: "shown [] = []" "shown (ks @ js) = shown ks @ shown js" "shown (map Chr s) = []"
  "shown (k # ks) = (if is_shown k then k # shown ks else shown ks)"
  by (induction s) (simp_all add: shown_def)

lemma erase_step:
  assumes "erase m = erase m'"
  shows "erase (fst (ref_step m c s)) = erase (fst (ref_step m' c s)) \<and> shown (snd (ref_step m c s)) = shown (snd (ref_step m' c s))"
  using assms by (cases m; cases m') auto

lemma erase_run:
  "erase m = erase m' \<Longrightarrow> erase (fst (ref_run m s)) = erase (fst (ref_run m' s)) \<and> shown (snd (ref_run m s)) = shown (snd (ref_run m' s))"
proof (induction s arbitrary: m m')
  case (Cons c s)
  note e = erase_step [OF Cons.prems, of c s]
  with Cons.IH [OF conjunct1 [OF e]] show ?case by simp
qed simp

lemma erase_settled: "erase m = erase m' \<Longrightarrow> settled m s = settled m' s"
proof (induction s arbitrary: m m')
  case (Cons c s)
  have "decided m c s = decided m' c s"
    using Cons.prems by (cases m; cases m') (auto simp: decided_def)
  with Cons.IH [OF conjunct1 [OF erase_step [OF Cons.prems]]] show ?case by simp
qed simp

lemma erase_MBefore [simp]: "erase x = MBefore n \<longleftrightarrow> x = MBefore n" "MBefore n = erase x \<longleftrightarrow> x = MBefore n"
  "erase x = MData \<longleftrightarrow> x = MData" "MData = erase x \<longleftrightarrow> x = MData"
  by (cases x; auto)+


section \<open>Going on in a start tag\<close>

text \<open>Text that ends what a start tag was reading and does not bind a value to a name before it.\<close>

definition clean :: "string \<Rightarrow> bool" where
  "clean rest \<longleftrightarrow> rest \<noteq> [] \<and> (isSpace (hd rest) \<or> hd rest = CHR ''/'' \<or> hd rest = CHR ''>'') \<and>
     (let r = dropWhile isSpace rest in r \<noteq> [] \<and> hd r \<noteq> CHR ''='')"

lemma clean_append: "clean s \<Longrightarrow> clean (s @ r)"
proof -
  assume c: "clean s"
  then have "dropWhile isSpace (s @ r) = dropWhile isSpace s @ r"
    by (auto simp: clean_def Let_def dropWhile_append)
  with c show ?thesis by (auto simp: clean_def Let_def)
qed

text \<open>States in which a start tag can be left off, and what is reported of them.\<close>

fun left_off :: "mstate \<Rightarrow> (string \<times> mark list) option" where
  "left_off (MTag n) = Some (n, [Tag n])"
| "left_off (MBefore n) = Some (n, [])"
| "left_off (MName n a) = Some (n, [Attr a])"
| "left_off (MAfter n) = Some (n, [])"
| "left_off m = None"

lemma run_after: "s \<noteq> [] \<Longrightarrow> (let r = dropWhile isSpace s in r \<noteq> [] \<and> hd r \<noteq> CHR ''='') \<Longrightarrow> ref_run (MAfter n) s = ref_run (MBefore n) s"
proof (induction s)
  case (Cons c s)
  show ?case
  proof (cases "isSpace c")
    case True
    then have "c \<noteq> CHR ''=''" "c \<noteq> CHR ''>''" by auto
    with True Cons show ?thesis by (cases s) (auto simp: before_step_def Let_def)
  next
    case False
    with Cons.prems show ?thesis by (simp add: Let_def)
  qed
qed simp

lemma left_off_run:
  assumes "left_off m = Some (n, ks)" "clean rest"
  shows "ref_run m rest = report ks (ref_run (MBefore n) rest)"
proof -
  obtain c r where rest: "rest = c # r" using assms(2) by (cases rest) (auto simp: clean_def)
  have sep: "isSpace c \<or> c = CHR ''/'' \<or> c = CHR ''>''" and nx: "let r = dropWhile isSpace rest in r \<noteq> [] \<and> hd r \<noteq> CHR ''=''"
    using assms(2) rest by (auto simp: clean_def)
  show ?thesis
  proof (cases m)
    case (MTag k)
    with assms rest sep show ?thesis by (auto simp: name_stop_def)
  next
    case (MBefore k)
    with assms show ?thesis by (simp add: report_def prod_eq_iff)
  next
    case (MAfter k)
    with assms rest nx run_after [of rest n] show ?thesis by (auto simp: report_def prod_eq_iff)
  next
    case (MName k a)
    show ?thesis
    proof (cases "isSpace c")
      case True
      then have "c \<noteq> CHR ''=''" "c \<noteq> CHR ''>''" by auto
      with True nx rest have "ref_run (MAfter n) r = ref_run (MBefore n) r"
        by (intro run_after) (auto simp: Let_def)
      with True MName assms rest \<open>c \<noteq> CHR ''>''\<close> show ?thesis by (simp add: before_step_def report_def)
    next
      case False
      with sep MName assms rest show ?thesis by (auto simp: name_stop_def report_def)
    qed
  qed (use assms in auto)
qed

end
