(* ===== verification/Ssr_Safety.thy ===== *)
theory Ssr_Safety
  imports Ssr_Render Html_Reading
begin

text \<open>
  What a rendered page is made of. A template whose attributes are written so that they can be taken out
  one by one is planned: the plan follows the reference automaton through the strings. For a planned
  template, whatever the values are, the tags of the page are those of the templates, in order, and the
  attributes are among those the templates name.
\<close>

section \<open>Tags and attribute names\<close>

fun is_tag :: "mark \<Rightarrow> bool" where
  "is_tag (Chr c) = False"
| "is_tag (Value v) = False"
| "is_tag (Attr a) = False"
| "is_tag k = True"

definition tags :: "mark list \<Rightarrow> mark list" where
  "tags ks = filter is_tag ks"

fun attr_of :: "mark \<Rightarrow> string list" where
  "attr_of (Attr a) = [a]"
| "attr_of k = []"

definition attrs :: "mark list \<Rightarrow> string list" where
  "attrs ks = concat (map attr_of ks)"

text \<open>The names under which an attribute of a template can appear: its own, or without its prefix.\<close>

definition derived :: "string \<Rightarrow> string list" where
  "derived a = (if special_name a then [a, tl a, to_lower (tl a)] else [a])"

definition derived_names :: "mark list \<Rightarrow> string set" where
  "derived_names ks = set (concat (map derived (attrs ks)))"

lemma tags_simps [simp]: "tags [] = []" "tags (ks @ js) = tags ks @ tags js" "tags (k # ks) = (if is_tag k then k # tags ks else tags ks)"
  by (simp_all add: tags_def)

lemma attrs_simps [simp]: "attrs [] = []" "attrs (ks @ js) = attrs ks @ attrs js" "attrs (k # ks) = attr_of k @ attrs ks"
  by (simp_all add: attrs_def)

lemma derived_simps [simp]: "derived_names [] = {}" "derived_names (ks @ js) = derived_names ks \<union> derived_names js"
  "derived_names (k # ks) = set (concat (map derived (attr_of k))) \<union> derived_names ks"
  by (simp_all add: derived_names_def)

lemma tags_shown [simp]: "tags (shown ks) = tags ks" "attrs (shown ks) = attrs ks"
proof -
  have "is_tag k \<Longrightarrow> is_shown k" for k by (cases k) auto
  then show "tags (shown ks) = tags ks" by (auto simp: tags_def shown_def intro: filter_cong)
  have "\<not> is_shown k \<Longrightarrow> attr_of k = []" for k by (cases k) auto
  then show "attrs (shown ks) = attrs ks" by (induction ks) (auto simp: shown_def)
qed


section \<open>Where the page stands\<close>

text \<open>Everything that follows the text \<open>R\<close> is read from \<open>m\<close>, up to the value that is being read.\<close>

definition direct :: "string \<Rightarrow> mstate \<Rightarrow> mark list \<Rightarrow> bool" where
  "direct R m K \<longleftrightarrow> (\<exists>x ks. erase x = m \<and> shown ks = K \<and> (\<forall>rest. ref_run MData (R @ rest) = report ks (ref_run x rest)))"

text \<open>What can follow an attribute is read after \<open>R\<close> as after a complete attribute of the tag \<open>n\<close>.\<close>

definition flush :: "string \<Rightarrow> string \<Rightarrow> mark list \<Rightarrow> bool" where
  "flush R n K \<longleftrightarrow> R \<noteq> [] \<and> \<not> is_ws (last R) \<and>
     (\<exists>ks. shown ks = K \<and> (\<forall>rest. clean rest \<longrightarrow> ref_run MData (R @ rest) = report ks (ref_run (MBefore n) rest)))"

lemma direct_append:
  assumes "direct R m K" "settled m s"
  shows "direct (R @ s) (erase (fst (ref_run m s))) (K @ shown (snd (ref_run m s)))"
proof -
  obtain x ks where x: "erase x = m" "shown ks = K" "\<And>rest. ref_run MData (R @ rest) = report ks (ref_run x rest)"
    using assms(1) unfolding direct_def by blast
  have e: "erase x = erase m"
    using x(1) by (cases x) auto
  note er = erase_run [OF e, of s]
  have "ref_run MData ((R @ s) @ rest) = report (ks @ snd (ref_run x s)) (ref_run (fst (ref_run x s)) rest)" for rest
    using x(3) settled_run [of x s] erase_settled [OF e, of s] assms(2) by simp
  then show ?thesis unfolding direct_def
    using er x(2) by (intro exI [of _ "fst (ref_run x s)"] exI [of _ "ks @ snd (ref_run x s)"]) simp
qed

lemma flush_append:
  assumes "flush R n K" "clean s" "settled (MBefore n) s"
  shows "direct (R @ s) (erase (fst (ref_run (MBefore n) s))) (K @ shown (snd (ref_run (MBefore n) s)))"
proof -
  obtain ks where ks: "shown ks = K" "\<And>rest. clean rest \<Longrightarrow> ref_run MData (R @ rest) = report ks (ref_run (MBefore n) rest)"
    using assms(1) unfolding flush_def by blast
  have "ref_run MData ((R @ s) @ rest) = report (ks @ snd (ref_run (MBefore n) s)) (ref_run (fst (ref_run (MBefore n) s)) rest)" for rest
    using ks(2) [OF clean_append [OF assms(2)]] settled_run [OF assms(3)] by simp
  then show ?thesis unfolding direct_def
    using ks(1) by (intro exI [of _ "fst (ref_run (MBefore n) s)"] exI [of _ "ks @ snd (ref_run (MBefore n) s)"]) simp
qed

lemma erase_left_off: "left_off m \<noteq> None \<Longrightarrow> erase x = m \<Longrightarrow> x = m"
  by (cases m; cases x) auto

lemma direct_flush:
  assumes "direct R m K" "left_off m = Some (n, pend)" "R \<noteq> []" "\<not> is_ws (last R)"
  shows "flush R n (K @ shown pend)"
proof -
  obtain x ks where x: "erase x = m" "shown ks = K" "\<And>rest. ref_run MData (R @ rest) = report ks (ref_run x rest)"
    using assms(1) unfolding direct_def by blast
  have "x = m" using erase_left_off [OF _ x(1)] assms(2) by simp
  then have "clean rest \<Longrightarrow> ref_run MData (R @ rest) = report (ks @ pend) (ref_run (MBefore n) rest)" for rest
    using x(3) left_off_run [OF assms(2)] by simp
  then show ?thesis unfolding flush_def
    using assms(3,4) x(2) by (intro conjI exI [of _ "ks @ pend"]) auto
qed

lemma direct_text: "direct R MData K \<Longrightarrow> list_all (\<lambda>c. c \<noteq> CHR ''<'') s \<Longrightarrow> direct (R @ s) MData K"
  using direct_append [of R MData K s] plain_settled [of s MData] run_text(1) [of s "[]"] by simp

lemma direct_raw: "direct R (MRaw n) K \<Longrightarrow> list_all (\<lambda>c. c \<noteq> CHR ''<'') s \<Longrightarrow> direct (R @ s) (MRaw n) K"
  using direct_append [of R "MRaw n" K s] plain_settled [of s "MRaw n"] run_text(2) [of s n "[]"] by simp

lemma direct_quoted:
  assumes "direct R (MQuoted n q []) K" "list_all (\<lambda>c. c \<noteq> CHR ''<'' \<and> c \<noteq> q) s"
  shows "direct (R @ s) (MQuoted n q []) K"
proof -
  have "list_all (\<lambda>c. c \<noteq> CHR ''<'') s" "list_all (\<lambda>c. c \<noteq> q) s" using assms(2) by (auto simp: list_all_iff)
  then show ?thesis
    using direct_append [OF assms(1), of s] plain_settled [of s "MQuoted n q []"] run_quoted [of q s n "[]" "[]"] by simp
qed


section \<open>Escaped text\<close>

lemma escape_list: "escapeHtml s = concat (map (\<lambda>c. case HTML_ESCAPES c of Some e \<Rightarrow> e | None \<Rightarrow> [c]) s)"
proof -
  have "list_all (\<lambda>c. HTML_ESCAPES c = None) s \<Longrightarrow> concat (map (\<lambda>c. case HTML_ESCAPES c of Some e \<Rightarrow> e | None \<Rightarrow> [c]) s) = s"
    by (induction s) auto
  moreover have "\<not> list_ex (\<lambda>c. HTML_ESCAPES c \<noteq> None) s \<longleftrightarrow> list_all (\<lambda>c. HTML_ESCAPES c = None) s"
    by (auto simp: list_ex_iff list_all_iff)
  ultimately show ?thesis unfolding escapeHtml_def by auto
qed

definition inert :: "string \<Rightarrow> bool" where
  "inert s \<longleftrightarrow> list_all (\<lambda>c. c \<noteq> CHR ''<'' \<and> c \<noteq> CHR ''>'' \<and> c \<noteq> CHR 0x22 \<and> c \<noteq> CHR 0x27) s"

lemma escape_inert: "inert (escapeHtml s)"
proof -
  have "inert (case HTML_ESCAPES c of Some e \<Rightarrow> e | None \<Rightarrow> [c])" for c
    by (auto simp: inert_def HTML_ESCAPES_def)
  then show ?thesis by (induction s) (auto simp: escape_list inert_def)
qed

lemma inert_parts: "inert s \<Longrightarrow> list_all (\<lambda>c. c \<noteq> CHR ''<'') s"
  "inert s \<Longrightarrow> q = CHR 0x22 \<or> q = CHR 0x27 \<Longrightarrow> list_all (\<lambda>c. c \<noteq> CHR ''<'' \<and> c \<noteq> q) s"
  by (auto simp: inert_def list_all_iff)

text \<open>\<open> name\<close> and \<open> name="text"\<close> in a tag that can go on.\<close>

definition plain_chars :: "string \<Rightarrow> bool" where
  "plain_chars s \<longleftrightarrow> s \<noteq> [] \<and> list_all (\<lambda>c. \<not> name_stop True c \<and> \<not> is_ws c \<and> c \<noteq> CHR ''<'') s"

lemma run_new_name:
  assumes "plain_chars s"
  shows "ref_run (MBefore n) (CHR '' '' # s) = (MName n s, [])"
proof -
  obtain c r where s: "s = c # r" using assms by (cases s) (auto simp: plain_chars_def)
  have "\<not> name_stop True c" "list_all (\<lambda>c. \<not> name_stop True c) r" using assms s by (auto simp: plain_chars_def list_all_iff)
  moreover have "isSpace CHR '' ''" by (simp add: isSpace_def)
  ultimately show ?thesis using s run_name [of r n "[c]" "[]"] by (auto simp: before_step_def name_stop_def)
qed

lemma clean_name: "plain_chars s \<Longrightarrow> clean (CHR '' '' # s)"
  by (cases s) (auto simp: clean_def plain_chars_def name_stop_def isSpace_def)

lemma plain_chars_settled: "plain_chars s \<Longrightarrow> settled m (CHR '' '' # s)"
  by (intro plain_settled) (auto simp: plain_chars_def list_all_iff)

lemma flush_bare:
  assumes "flush R n K" "plain_chars s"
  shows "direct (R @ '' '' @ s) (MName n s) K"
  using flush_append [OF assms(1) clean_name [OF assms(2)] plain_chars_settled [OF assms(2)]] run_new_name [OF assms(2)]
  by (simp del: ref_run.simps)

lemma plain_last: "plain_chars s \<Longrightarrow> \<not> is_ws (last s)"
  by (simp add: plain_chars_def list_all_iff)

lemma flush_name:
  assumes "flush R n K" "plain_chars s"
  shows "flush (R @ '' '' @ s) n (K @ [Attr s])"
proof -
  have "s \<noteq> []" using assms(2) by (simp add: plain_chars_def)
  then show ?thesis
    using direct_flush [OF flush_bare [OF assms], of n "[Attr s]"] plain_last [OF assms(2)] by simp
qed

lemma not_ws_quote: "\<not> is_ws CHR 0x22" "\<not> is_ws CHR 0x27"
  by (simp_all add: is_ws_def code_def Let_def)

lemma flush_value:
  assumes "flush R n K" "plain_chars s" "inert v"
  shows "flush (R @ quoted_attr s v) n (K @ [Attr s])"
proof -
  let ?q = "CHR 0x22"
  have d: "direct (R @ '' '' @ s) (MName n s) K" by (rule flush_bare [OF assms(1,2)])
  have "direct ((R @ '' '' @ s) @ [CHR ''='', ?q]) (MQuoted n ?q []) (K @ [Attr s])"
    using direct_append [OF d, of "[CHR ''='', ?q]"] by (simp add: decided_def)
  from direct_quoted [OF this inert_parts(2) [OF assms(3)]]
  have "direct (((R @ '' '' @ s) @ [CHR ''='', ?q]) @ v) (MQuoted n ?q []) (K @ [Attr s])"
    by simp
  from direct_append [OF this, of "[?q]"]
  have "direct (R @ quoted_attr s v) (MBefore n) (K @ [Attr s])"
    by (simp add: decided_def quoted_attr_def)
  from direct_flush [OF this, of n "[]"] show ?thesis
    by (simp add: quoted_attr_def not_ws_quote)
qed


section \<open>Plans\<close>

text \<open>
  How a string is entered: in a state, or (\<open>en_flush\<close>) after an attribute that may have been taken out, behind
  the \<open>en_skip\<close> characters that close it. \<open>en_group\<close> is the last binding of the quoted attribute the entry
  lies in, and how many characters after it still belong to it.
\<close>

record entry =
  en_state :: mstate
  en_flush :: bool
  en_skip :: nat
  en_group :: "(nat \<times> nat) option"

definition enter :: "mstate \<Rightarrow> entry" where
  "enter m = \<lparr>en_state = m, en_flush = False, en_skip = 0, en_group = None\<rparr>"

definition behind :: "string \<Rightarrow> nat \<Rightarrow> entry" where
  "behind n k = \<lparr>en_state = MBefore n, en_flush = True, en_skip = k, en_group = None\<rparr>"

definition en_text :: "entry \<Rightarrow> string \<Rightarrow> string" where
  "en_text en s = drop (en_skip en) s"

definition en_marks :: "entry \<Rightarrow> string \<Rightarrow> mark list" where
  "en_marks en s = shown (snd (ref_run (en_state en) (en_text en s)))"

definition en_end :: "entry \<Rightarrow> string \<Rightarrow> mstate" where
  "en_end en s = erase (fst (ref_run (en_state en) (en_text en s)))"

definition text_ok :: "entry \<Rightarrow> string \<Rightarrow> bool" where
  "text_ok en s \<longleftrightarrow> settled (en_state en) (en_text en s) \<and>
     (en_flush en \<longrightarrow> clean (en_text en s) \<and> (case en_state en of MBefore n \<Rightarrow> True | _ \<Rightarrow> False)) \<and>
     (en_group en \<noteq> None \<longrightarrow> en_marks en s = [] \<and> en_end en s = en_state en)"

text \<open>The tag that can go on after \<open>A\<close>, and what is reported up to there.\<close>

definition base_of :: "entry \<Rightarrow> string \<Rightarrow> (string \<times> mark list) option" where
  "base_of en A = (if A = [] then
       (case en_state en of MBefore n \<Rightarrow> if en_flush en then Some (n, []) else None | _ \<Rightarrow> None)
     else if settled (en_state en) A \<and> (en_flush en \<longrightarrow> clean A \<and> (case en_state en of MBefore n \<Rightarrow> True | _ \<Rightarrow> False)) \<and> \<not> is_ws (last A)
       then (case left_off (erase (fst (ref_run (en_state en) A))) of
           Some (n, pend) \<Rightarrow> Some (n, shown (snd (ref_run (en_state en) A)) @ shown pend) | None \<Rightarrow> None)
     else None)"

definition closes_quote :: "string \<Rightarrow> char \<Rightarrow> string \<Rightarrow> bool" where
  "closes_quote n q pre \<longleftrightarrow> (q = CHR 0x22 \<or> q = CHR 0x27) \<and> pre \<noteq> [] \<and> last pre = q \<and> settled (MQuoted n q []) pre \<and>
     fst (ref_run (MQuoted n q []) pre) = MBefore n \<and> shown (snd (ref_run (MQuoted n q []) pre)) = []"

definition name_ok :: "string \<Rightarrow> bool" where
  "name_ok name \<longleftrightarrow> plain_chars name \<and> (special_name name \<longrightarrow> plain_chars (tl name))"

text \<open>The binding is its attribute's whole value: the attribute can be taken back from its name on.\<close>

definition gap_whole :: "(nat \<times> attr_group) list \<Rightarrow> nat \<Rightarrow> entry \<Rightarrow> string \<Rightarrow> string \<Rightarrow> attr_binding \<Rightarrow> entry option" where
  "gap_whole groups i en s s' x = (case ab_prefixStart x of None \<Rightarrow> None | Some p \<Rightarrow>
     let A = trimEnd (slice s (en_skip en) p); k = (if ab_quote x = None then 0 else 1) in
     (case base_of en A of None \<Rightarrow> None | Some (n, base) \<Rightarrow>
       if en_skip en \<le> p \<and> p \<le> length s \<and> name_ok (ab_name x) \<and> en_marks en s = base @ [Attr (ab_name x)]
          \<and> en_end en s = (case ab_quote x of None \<Rightarrow> MValue n | Some q \<Rightarrow> MQuoted n q [])
          \<and> (case ab_quote x of None \<Rightarrow> True | Some q \<Rightarrow> closes_quote n q (take 1 s'))
          \<and> (case map_of groups i of None \<Rightarrow> True
             | Some g \<Rightarrow> ag_indices g = [i] \<and> ag_suffixLength g = k \<and> en_text en s = A @ ag_prefix g)
       then Some (behind n k) else None))"

definition in_quotes :: "string \<Rightarrow> char \<Rightarrow> nat \<Rightarrow> string \<Rightarrow> nat \<times> nat \<Rightarrow> entry option" where
  "in_quotes n q i s' g = (case g of (l, suf) \<Rightarrow>
     if i = l then (if closes_quote n q (take suf s') then Some (behind n suf) else None)
     else if i < l then Some \<lparr>en_state = MQuoted n q [], en_flush = False, en_skip = 0, en_group = Some (l, suf)\<rparr> else None)"

text \<open>The binding adds text to a quoted value: the first of its attribute, or a later one.\<close>

definition gap_text :: "(nat \<times> attr_group) list \<Rightarrow> nat \<Rightarrow> entry \<Rightarrow> string \<Rightarrow> string \<Rightarrow> attr_binding \<Rightarrow> entry option" where
  "gap_text groups i en s s' x = (case (en_end en s, ab_quote x) of
     (MQuoted n q v, Some q') \<Rightarrow>
       if q' \<noteq> q \<or> q \<noteq> CHR 0x22 \<and> q \<noteq> CHR 0x27 then None
       else (case map_of groups i of
         Some g \<Rightarrow>
           (let A = take (length (en_text en s) - length (ag_prefix g)) (en_text en s) in
            case base_of en A of None \<Rightarrow> None | Some (n', base) \<Rightarrow>
              if n' = n \<and> en_text en s = A @ ag_prefix g \<and> en_group en = None \<and> en_marks en s = base @ [Attr (ab_name x)]
                \<and> ag_indices g \<noteq> [] then in_quotes n q i s' (last (ag_indices g), ag_suffixLength g)
              else None)
       | None \<Rightarrow>
           if en_state en = MQuoted n q [] \<and> \<not> en_flush en \<and> en_skip en = 0 \<and> en_marks en s = []
           then (case en_group en of Some g \<Rightarrow> in_quotes n q i s' g | None \<Rightarrow> None) else None)
   | _ \<Rightarrow> None)"

definition gap :: "(nat \<times> attr_group) list \<Rightarrow> nat \<Rightarrow> entry \<Rightarrow> string \<Rightarrow> string \<Rightarrow> binding_info \<Rightarrow> entry option" where
  "gap groups i en s s' b =
     (if \<not> text_ok en s then None
      else (case b of
        NodeB \<Rightarrow> if en_end en s = MData then Some (enter MData) else None
      | RawB tag first \<Rightarrow> if en_end en s = MRaw tag \<and> tag \<noteq> ''script'' \<and> tag \<noteq> ''style'' then Some (enter (MRaw tag)) else None
      | CommentB \<Rightarrow> (case en_end en s of MComment tail \<Rightarrow> Some (enter (MComment tail)) | MBogus \<Rightarrow> Some (enter MBogus) | _ \<Rightarrow> None)
      | AttrB x \<Rightarrow>
          if ab_name x = ''...'' then None
          else if ab_start x \<and> \<not> interpolatesText x then gap_whole groups i en s s' x else gap_text groups i en s s' x
      | _ \<Rightarrow> None))"

text \<open>The marks of each string, when the template can be planned to its end.\<close>

fun plan :: "(nat \<times> attr_group) list \<Rightarrow> nat \<Rightarrow> entry \<Rightarrow> string list \<Rightarrow> binding_info list \<Rightarrow> mark list list option" where
  "plan groups i en (s # s' # ss) (b # bs) = (case gap groups i en s s' b of None \<Rightarrow> None
     | Some en' \<Rightarrow> map_option ((#) (en_marks en s)) (plan groups (Suc i) en' (s' # ss) bs))"
| "plan groups i en [s] [] = (if text_ok en s \<and> en_end en s = MData then Some [en_marks en s] else None)"
| "plan groups i en ss bs = None"

definition plan_template :: "string list \<Rightarrow> string option \<Rightarrow> mark list list option" where
  "plan_template strings scopeId = (let an = analyzeTemplate strings scopeId in
     plan (ta_groups an) 0 (enter MData) (ta_strings an) (ta_bindings an))"

text \<open>The tags of a page: those of the strings, with those of the children in their places.\<close>

definition node_marks :: "bool \<Rightarrow> mark list \<Rightarrow> mark list" where
  "node_marks h ks = (if h then [CommentEnd] @ ks @ [CommentEnd] else ks)"

fun weave :: "bool \<Rightarrow> mark list list \<Rightarrow> binding_info list \<Rightarrow> mark list list \<Rightarrow> mark list" where
  "weave h (S # Ss) (b # bs) (k # ks) = tags S @ (if b = NodeB then node_marks h k else []) @ weave h Ss bs ks"
| "weave h Ss bs ks = tags (concat Ss)"

end
