(* ===== verification/Ssr_Safety_Facts.thy ===== *)
theory Ssr_Safety_Facts
  imports Ssr_Safety "HOL-Library.Code_Target_Numeral"
begin

text \<open>
  The scanner keeps to the plan: after every string and value the page stands where the plan says, with
  the tags of the plan and no attributes but its own.
\<close>

section \<open>At a string\<close>

definition at_string :: "string \<Rightarrow> entry \<Rightarrow> mark list \<Rightarrow> bool" where
  "at_string R en K \<longleftrightarrow> (if en_flush en then (\<exists>n. en_state en = MBefore n \<and> flush R n K) else direct R (en_state en) K)"

text \<open>The result \<open>R\<close>, from which \<open>ci\<close> characters of the next string are skipped.\<close>

definition ready :: "string \<Rightarrow> nat \<Rightarrow> entry \<Rightarrow> string \<Rightarrow> mark list \<Rightarrow> bool" where
  "ready R ci en s K \<longleftrightarrow> (\<exists>R0. R @ drop ci s = R0 @ en_text en s \<and> at_string R0 en K)"

lemma at_string_text:
  assumes "at_string R en K" "text_ok en s"
  shows "direct (R @ en_text en s) (en_end en s) (K @ en_marks en s)"
proof (cases "en_flush en")
  case True
  then obtain n where "en_state en = MBefore n" "flush R n K" using assms(1) by (auto simp: at_string_def)
  with True assms(2) flush_append show ?thesis by (auto simp: text_ok_def en_end_def en_marks_def)
next
  case False
  with assms direct_append show ?thesis by (auto simp: at_string_def text_ok_def en_end_def en_marks_def)
qed

lemma at_string_base:
  assumes "at_string R en K" "base_of en A = Some (n, base)"
  shows "flush (R @ A) n (K @ base)"
proof (cases "A = []")
  case True
  with assms show ?thesis by (auto simp: base_of_def at_string_def split: mstate.splits if_splits)
next
  case False
  obtain pend where p: "left_off (erase (fst (ref_run (en_state en) A))) = Some (n, pend)" "base = shown (snd (ref_run (en_state en) A)) @ shown pend"
    and st: "settled (en_state en) A" "\<not> is_ws (last A)" "en_flush en \<longrightarrow> clean A"
    using assms(2) False by (auto simp: base_of_def split: option.splits if_splits prod.splits)
  have "direct (R @ A) (erase (fst (ref_run (en_state en) A))) (K @ shown (snd (ref_run (en_state en) A)))"
  proof (cases "en_flush en")
    case True
    then obtain k where "en_state en = MBefore k" "flush R k K" using assms(1) by (auto simp: at_string_def)
    with True st flush_append show ?thesis by auto
  next
    case f: False
    with assms(1) st direct_append show ?thesis by (auto simp: at_string_def)
  qed
  from direct_flush [OF this p(1)] False st(2) show ?thesis by (simp add: p(2))
qed

lemma at_enter [simp]: "at_string R (enter m) K = direct R m K"
  by (simp add: at_string_def enter_def)

lemma at_behind [simp]: "at_string R (behind n k) K = flush R n K"
  by (simp add: at_string_def behind_def)

lemma text_simps [simp]: "en_text (enter m) s = s" "en_text (behind n k) s = drop k s"
  by (simp_all add: en_text_def enter_def behind_def)

text \<open>The closing quote after a value that was written into it.\<close>

lemma quote_closed:
  assumes "direct R (MQuoted n q []) K" "closes_quote n q pre"
  shows "flush (R @ pre) n K"
proof -
  have "direct (R @ pre) (MBefore n) K"
    using direct_append [OF assms(1), of pre] assms(2) by (simp add: closes_quote_def)
  from direct_flush [OF this, of n "[]"] assms(2) not_ws_quote show ?thesis by (auto simp: closes_quote_def)
qed

lemma ready_quoted:
  assumes "direct R (MQuoted n q []) K" "closes_quote n q (take k s)"
  shows "ready R 0 (behind n k) s K"
  using quote_closed [OF assms] unfolding ready_def by (intro exI [of _ "R @ take k s"]) simp

lemma ready_flush: "flush R n K \<Longrightarrow> ready R k (behind n k) s K"
  unfolding ready_def by (intro exI [of _ R]) simp

lemma ready_enter: "direct R m K \<Longrightarrow> ready R 0 (enter m) s K"
  unfolding ready_def by (intro exI [of _ R]) simp


section \<open>Taking back an attribute\<close>

lemma trimEnd_append: "trimEnd s \<noteq> [] \<Longrightarrow> trimEnd (R @ s) = R @ trimEnd s"
  by (auto simp: trimEnd_def dropWhile_append)

lemma trimEnd_blank: "trimEnd s = [] \<Longrightarrow> R \<noteq> [] \<Longrightarrow> \<not> is_ws (last R) \<Longrightarrow> trimEnd (R @ s) = R"
proof -
  assume s: "trimEnd s = []" and R: "R \<noteq> []" "\<not> is_ws (last R)"
  have "rev R \<noteq> []" "\<not> is_ws (hd (rev R))" using R by (simp_all add: hd_rev)
  then have "dropWhile is_ws (rev R) = rev R" by (cases "rev R") auto
  with s show ?thesis by (simp add: trimEnd_def dropWhile_append)
qed

lemma base_trims:
  assumes "at_string R en K" "base_of en (trimEnd A) = Some (n, base)"
  shows "trimEnd (R @ A) = R @ trimEnd A"
proof (cases "trimEnd A = []")
  case True
  then have "en_flush en" using assms(2) by (auto simp: base_of_def split: mstate.splits if_splits)
  then have "R \<noteq> []" "\<not> is_ws (last R)" using assms(1) by (auto simp: at_string_def flush_def)
  with True show ?thesis by (simp add: trimEnd_blank)
qed (simp add: trimEnd_append)

text \<open>What the page gained, against what the plan has for it.\<close>

definition covers :: "mark list \<Rightarrow> mark list \<Rightarrow> bool" where
  "covers J S \<longleftrightarrow> tags J = tags S \<and> set (attrs J) \<subseteq> derived_names S"

lemma covers_refl [simp]: "covers S S"
  by (auto simp: covers_def derived_names_def derived_def)

lemma covers_append: "covers J S \<Longrightarrow> covers J' S' \<Longrightarrow> covers (J @ J') (S @ S')"
  by (auto simp: covers_def)

lemma covers_base: "covers base (base @ [Attr a])"
  by (auto simp: covers_def derived_names_def derived_def)

lemma covers_attr: "a \<in> set (derived b) \<Longrightarrow> covers (base @ [Attr a]) (base @ [Attr b])"
  by (auto simp: covers_def derived_names_def derived_def)

lemma boolean_plain: "n \<in> set BOOLEAN_ATTRS \<Longrightarrow> plain_chars n"
proof -
  have "list_all plain_chars BOOLEAN_ATTRS" by code_simp
  then show "n \<in> set BOOLEAN_ATTRS \<Longrightarrow> plain_chars n" by (simp only: list_all_iff)
qed

lemma value_plain: "plain_chars ''value''" "plain_chars ''.value''" "inert ''true''" "inert ''false''"
  by code_simp+

text \<open>Every text that can stand for a removable attribute.\<close>

definition attr_text :: "string \<Rightarrow> string \<Rightarrow> bool" where
  "attr_text name m \<longleftrightarrow> m = [] \<or> (\<exists>a v. a \<in> set (derived name) \<and> plain_chars a \<and> (m = '' '' @ a \<or> m = quoted_attr a v \<and> inert v))"

lemma attr_text_flush:
  assumes "flush R n (K @ base)" "attr_text name m"
  shows "\<exists>J. covers J (base @ [Attr name]) \<and> flush (R @ m) n (K @ J)"
proof -
  consider "m = []" | a where "a \<in> set (derived name)" "plain_chars a" "m = '' '' @ a"
    | a v where "a \<in> set (derived name)" "plain_chars a" "m = quoted_attr a v" "inert v"
    using assms(2) by (auto simp: attr_text_def)
  then show ?thesis
  proof cases
    case 1
    with assms(1) covers_base show ?thesis by auto
  next
    case 2
    with flush_name [OF assms(1), of a] covers_attr [OF 2(1), of base] show ?thesis by (intro exI [of _ "base @ [Attr a]"]) simp
  next
    case 3
    with flush_value [OF assms(1), of a v] covers_attr [OF 3(1), of base] show ?thesis by (intro exI [of _ "base @ [Attr a]"]) simp
  qed
qed

lemma attr_text_intros:
  "attr_text name []"
  "plain_chars a \<Longrightarrow> a \<in> set (derived name) \<Longrightarrow> attr_text name ('' '' @ a)"
  "plain_chars a \<Longrightarrow> a \<in> set (derived name) \<Longrightarrow> inert v \<Longrightarrow> attr_text name (quoted_attr a v)"
  by (auto simp: attr_text_def)

lemma own_derived: "a \<in> set (derived a)" "special_name a \<Longrightarrow> tl a \<in> set (derived a)"
  by (simp_all add: derived_def)

lemma boolean_markup_text: "plain_chars name \<Longrightarrow> boolean_markup name b = Some m \<Longrightarrow> attr_text name m"
  using attr_text_intros(2,3) [of name name] own_derived(1) [of name] value_plain
  by (auto simp: boolean_markup_def serializeBooleanAttribute_def split: if_splits)

lemma starts_with_one: "starts_with name [c] \<longleftrightarrow> (\<exists>r. name = c # r)"
  by (simp add: starts_with_iff)

lemma property_text:
  assumes "propertyBindingSSR (tl name) val d = Some m" "starts_with name ''.''"
  shows "attr_text name m"
proof -
  obtain r where n: "name = CHR ''.'' # r" using assms(2) by (auto simp: starts_with_one)
  show ?thesis
    using assms(1) attr_text_intros [where name = name] boolean_plain [of "to_lower r"] value_plain escape_inert
    by (auto simp: propertyBindingSSR_def Let_def n derived_def special_name_def split: if_splits)
qed


definition quote_skip :: "attr_binding \<Rightarrow> string \<Rightarrow> nat" where
  "quote_skip x nextStr = (case ab_quote x of Some q \<Rightarrow> if starts_with nextStr [q] then 1 else 0 | None \<Rightarrow> 0)"

lemma whole_attr_text:
  assumes w: "whole_attr x full s' val (B @ full) = Some (r, k)" and ok: "name_ok (ab_name x)"
  shows "(\<exists>m. attr_text (ab_name x) m \<and> r = trimEnd B @ m \<and> k = quote_skip x s') \<or>
     (\<exists>v. inert v \<and> k = 0 \<and> r = B @ full @ (if ab_quote x \<noteq> None then v else [CHR 0x22] @ v @ [CHR 0x22]))"
proof -
  let ?name = "ab_name x"
  have pn: "plain_chars ?name" using ok by (simp add: name_ok_def)
  have cut: "take (length (B @ full) - length full) (B @ full) = B" by simp
  have def': "whole_attr x full s' val (B @ full) =
     (if ?name = ''ref'' \<or> starts_with ?name ''@'' then Some (trimEnd B, quote_skip x s')
      else if starts_with ?name ''?'' then Some (if truthy val then trimEnd B @ '' '' @ tl ?name else trimEnd B, quote_skip x s')
      else if starts_with ?name ''.'' then map_option (\<lambda>m. (trimEnd B @ m, quote_skip x s')) (propertyBindingSSR (tl ?name) val (ab_directValue x))
      else (case val of
          VIfDefined v \<Rightarrow> if v = VUndef then Some (trimEnd B, quote_skip x s')
            else map_option (\<lambda>s. (trimEnd B @ quoted_attr ?name (escapeHtml s), quote_skip x s')) (string_of v)
        | VNull \<Rightarrow> Some (trimEnd B, quote_skip x s')
        | VUndef \<Rightarrow> Some (trimEnd B, quote_skip x s')
        | VNothing \<Rightarrow> Some (trimEnd B, quote_skip x s')
        | VBool v \<Rightarrow> Some (trimEnd B @ (case boolean_markup ?name v of Some m \<Rightarrow> m | None \<Rightarrow> []), quote_skip x s')
        | v \<Rightarrow> map_option (\<lambda>s. if ab_quote x \<noteq> None then (B @ full @ escapeHtml s, 0)
              else (B @ full @ [CHR 0x22] @ escapeHtml s @ [CHR 0x22], 0)) (attributeValueText val)))"
    unfolding whole_attr_def Let_def cut quote_skip_def by (rule refl)
  note w' = w [unfolded def']
  have putm: ?thesis if "attr_text ?name m" "(r, k) = (trimEnd B @ m, quote_skip x s')" for m
    using that by (intro disjI1) auto
  have kept: ?thesis if "map_option (\<lambda>s. if ab_quote x \<noteq> None then (B @ full @ escapeHtml s, 0)
              else (B @ full @ [CHR 0x22] @ escapeHtml s @ [CHR 0x22], 0)) (attributeValueText val) = Some (r, k)"
    using that escape_inert by (intro disjI2) (auto split: if_splits)
  note none = putm [OF attr_text_intros(1)]
  consider "?name = ''ref'' \<or> starts_with ?name ''@''"
    | "\<not> (?name = ''ref'' \<or> starts_with ?name ''@'')" "starts_with ?name ''?''"
    | "\<not> (?name = ''ref'' \<or> starts_with ?name ''@'')" "\<not> starts_with ?name ''?''" "starts_with ?name ''.''"
    | "\<not> (?name = ''ref'' \<or> starts_with ?name ''@'')" "\<not> starts_with ?name ''?''" "\<not> starts_with ?name ''.''"
    by blast
  then show ?thesis
  proof cases
    case 1
    with w' show ?thesis by (intro none) simp
  next
    case 2
    then have sp: "special_name ?name" by (auto simp: special_name_def starts_with_one)
    then have "plain_chars (tl ?name)" using ok by (simp add: name_ok_def)
    then have "attr_text ?name ('' '' @ tl ?name)" by (intro attr_text_intros own_derived sp)
    with 2 w' show ?thesis
      using putm [of "'' '' @ tl ?name"] none by (cases "truthy val") simp_all
  next
    case 3
    with w' obtain m where "propertyBindingSSR (tl ?name) val (ab_directValue x) = Some m" "(r, k) = (trimEnd B @ m, quote_skip x s')"
      by auto
    with 3(3) show ?thesis by (intro putm [of m] property_text) auto
  next
    case 4
    show ?thesis
    proof (cases val)
      case (VIfDefined v)
      have "attr_text ?name (quoted_attr ?name (escapeHtml u))" for u
        by (intro attr_text_intros pn own_derived escape_inert)
      note at = this
      show ?thesis
      proof (cases "v = VUndef")
        case True
        with 4 VIfDefined w' show ?thesis using none by simp
      next
        case False
        with 4 VIfDefined w' obtain u where "(r, k) = (trimEnd B @ quoted_attr ?name (escapeHtml u), quote_skip x s')"
          by (cases "string_of v") auto
        with at show ?thesis by (rule putm)
      qed
    next
      case (VBool b)
      show ?thesis
      proof (cases "boolean_markup ?name b")
        case None
        with 4 VBool w' show ?thesis by (intro none) simp
      next
        case (Some m)
        with 4 VBool w' show ?thesis by (intro putm [of m] boolean_markup_text [OF pn, of b]) simp_all
      qed
    next
      case VNull
      with 4 w' show ?thesis using none by simp
    next
      case VUndef
      with 4 w' show ?thesis using none by simp
    next
      case VNothing
      with 4 w' show ?thesis using none by simp
      qed (insert 4 w', (rule kept, simp)+)
  qed
qed

lemma whole_attr_ready:
  assumes at: "at_string R en K" and ok: "text_ok en s" and g: "gap_whole groups i en s s' x = Some en'"
    and p: "ab_prefixStart x = Some p" and w: "whole_attr x (drop p s) s' val (R @ en_text en s) = Some (r, k)"
  shows "\<exists>J. covers J (en_marks en s) \<and> ready r k en' s' (K @ J)"
proof -
  let ?A = "slice s (en_skip en) p" and ?k = "if ab_quote x = None then 0 else 1 :: nat"
  obtain n base where b: "base_of en (trimEnd ?A) = Some (n, base)" and pr: "en_skip en \<le> p" "p \<le> length s" "name_ok (ab_name x)"
    and m: "en_marks en s = base @ [Attr (ab_name x)]"
    and e: "en_end en s = (case ab_quote x of None \<Rightarrow> MValue n | Some q \<Rightarrow> MQuoted n q [])"
    and cq: "case ab_quote x of None \<Rightarrow> True | Some q \<Rightarrow> closes_quote n q (take 1 s')" and en': "en' = behind n ?k"
    using g p by (auto simp: gap_whole_def Let_def split: option.splits if_splits prod.splits)
  have t: "en_text en s = ?A @ drop p s"
    using pr by (simp add: en_text_def slice_def) (metis append_take_drop_id drop_drop le_add_diff_inverse2)
  have qs: "quote_skip x s' = ?k"
    using cq by (cases "ab_quote x"; cases s') (auto simp: quote_skip_def closes_quote_def starts_with_def)
  have tr: "trimEnd (R @ ?A) = R @ trimEnd ?A" by (rule base_trims [OF at b])
  have fl: "flush (R @ trimEnd ?A) n (K @ base)" by (rule at_string_base [OF at b])
  have dr: "direct (R @ en_text en s) (en_end en s) (K @ en_marks en s)" by (rule at_string_text [OF at ok])
  have "whole_attr x (drop p s) s' val ((R @ ?A) @ drop p s) = Some (r, k)" using w t by simp
  from whole_attr_text [OF this pr(3)]
  consider mk where "attr_text (ab_name x) mk" "r = trimEnd (R @ ?A) @ mk" "k = ?k"
    | v where "inert v" "k = 0" "r = (R @ ?A) @ drop p s @ (if ab_quote x \<noteq> None then v else [CHR 0x22] @ v @ [CHR 0x22])"
    unfolding qs by blast
  then show ?thesis
  proof cases
    case 1
    from attr_text_flush [OF fl 1(1)] obtain J where "covers J (base @ [Attr (ab_name x)])" "flush ((R @ trimEnd ?A) @ mk) n (K @ J)"
      by blast
    with 1 m tr en' show ?thesis by (auto intro: ready_flush)
  next
    case 2
    have r: "r = (R @ en_text en s) @ (if ab_quote x \<noteq> None then v else [CHR 0x22] @ v @ [CHR 0x22])" using 2(3) t by simp
    show ?thesis
    proof (cases "ab_quote x")
      case (Some q)
      have q: "q = CHR 0x22 \<or> q = CHR 0x27" "closes_quote n q (take 1 s')" using cq Some by (auto simp: closes_quote_def)
      have "direct (R @ en_text en s) (MQuoted n q []) (K @ en_marks en s)" using dr e Some by simp
      from direct_quoted [OF this inert_parts(2) [OF 2(1) q(1)]]
      have "ready r 0 (behind n 1) s' (K @ en_marks en s)"
        using r Some q(2) by (intro ready_quoted) auto
      with 2(2) Some en' show ?thesis by (intro exI [of _ "en_marks en s"]) simp
    next
      case None
      let ?q = "CHR 0x22"
      have "direct (R @ en_text en s) (MValue n) (K @ en_marks en s)" using dr e None by simp
      from direct_append [OF this, of "[?q]"]
      have "direct ((R @ en_text en s) @ [?q]) (MQuoted n ?q []) (K @ en_marks en s)" by (simp add: decided_def)
      from direct_quoted [OF this inert_parts(2) [OF 2(1)]]
      have "direct (((R @ en_text en s) @ [?q]) @ v) (MQuoted n ?q []) (K @ en_marks en s)" by simp
      moreover have "closes_quote n ?q [?q]" by (simp add: closes_quote_def decided_def)
      ultimately have "flush ((((R @ en_text en s) @ [?q]) @ v) @ [?q]) n (K @ en_marks en s)" by (rule quote_closed)
      then have "flush r n (K @ en_marks en s)" using r None by simp
      with 2(2) None en' show ?thesis by (intro exI [of _ "en_marks en s"]) (simp add: ready_flush)
    qed
  qed
qed


section \<open>One binding\<close>

text \<open>Markup that leaves the page between tags where it was, with the tags \<open>S\<close> and attributes in \<open>N\<close>.\<close>

definition closed :: "string \<Rightarrow> mark list \<Rightarrow> string set \<Rightarrow> bool" where
  "closed out S N \<longleftrightarrow> (\<exists>J. (\<forall>R K. direct R MData K \<longrightarrow> direct (R @ out) MData (K @ J)) \<and> tags J = S \<and> set (attrs J) \<subseteq> N)"

lemma closedE:
  assumes "closed out S N" "direct R MData K"
  obtains J where "direct (R @ out) MData (K @ J)" "tags J = S" "set (attrs J) \<subseteq> N"
  using assms unfolding closed_def by blast

lemma closed_plain: "list_all (\<lambda>c. c \<noteq> CHR ''<'') s \<Longrightarrow> closed s [] N"
  unfolding closed_def using direct_text by (intro exI [of _ "[]"]) auto

lemma closed_append:
  assumes "closed o1 S1 N1" "closed o2 S2 N2"
  shows "closed (o1 @ o2) (S1 @ S2) (N1 \<union> N2)"
proof -
  obtain J1 where J1: "\<And>R K. direct R MData K \<Longrightarrow> direct (R @ o1) MData (K @ J1)" "tags J1 = S1" "set (attrs J1) \<subseteq> N1"
    using assms(1) unfolding closed_def by blast
  obtain J2 where J2: "\<And>R K. direct R MData K \<Longrightarrow> direct (R @ o2) MData (K @ J2)" "tags J2 = S2" "set (attrs J2) \<subseteq> N2"
    using assms(2) unfolding closed_def by blast
  have "direct (R @ o1 @ o2) MData (K @ J1 @ J2)" if "direct R MData K" for R K
    using J2(1) [OF J1(1) [OF that]] by simp
  with J1 J2 show ?thesis unfolding closed_def by (intro exI [of _ "J1 @ J2"]) auto
qed

lemma closed_mono: "closed out S N \<Longrightarrow> N \<subseteq> N' \<Longrightarrow> closed out S N'"
  unfolding closed_def by blast

text \<open>A marker comment.\<close>

lemma comment_closed:
  assumes "list_all (\<lambda>c. c \<noteq> CHR ''>'' \<and> c \<noteq> CHR ''<'') d"
  shows "closed (''<!--'' @ d @ ''-->'') [CommentEnd] {}"
proof -
  let ?x = "d @ ''--''"
  have p: "list_all (\<lambda>c. c \<noteq> CHR ''>'') ?x" using assms by (auto simp: list_all_iff)
  have l2: "last_two (''--'' @ ?x) = ''--''" by (simp add: last_two_def)
  have oc: "opens_comment (''!--'' @ d @ ''-->'')" by (simp add: opens_comment_def starts_with_iff)
  have ds: "data_step (''!--'' @ d @ ''-->'') = MOpening 3"
    by (simp add: data_step_def opens_comment_def starts_with_def isAsciiAlpha_def is_lower_def is_upper_def code_def)
  have "ref_run (MOpening 3) (''!--'' @ d @ ''-->'') = ref_run (MComment ''--'') (?x @ ''>'')"
    using run_opening [OF oc] by simp
  also have "\<dots> = ref_run (MComment ''--'') ''>''"
    using run_comment [OF p, of "''--''" "''>''"] l2 by simp
  finally have r: "ref_run (MOpening 3) (''!--'' @ d @ ''-->'') = (MData, [CommentEnd])" by simp
  have run: "ref_run MData (''<!--'' @ d @ ''-->'') = (MData, [CommentEnd])"
    using ds r by simp
  have "list_all (\<lambda>c. c \<noteq> CHR ''<'') (''!--'' @ d @ ''-->'')" using assms by (auto simp: list_all_iff)
  from plain_settled [OF this, of "MOpening 3"] have st: "settled MData (''<!--'' @ d @ ''-->'')"
    using ds by (simp add: decided_def)
  have "direct (R @ ''<!--'' @ d @ ''-->'') MData (K @ [CommentEnd])" if "direct R MData K" for R K
    using direct_append [OF that st] unfolding run by simp
  then show ?thesis unfolding closed_def by (intro exI [of _ "[CommentEnd]"]) auto
qed

lemma digits_plain: "list_all (\<lambda>c. c \<noteq> CHR ''>'' \<and> c \<noteq> CHR ''<'') (nat_digits n)"
proof (induction n rule: nat_digits.induct)
  case (1 n)
  have d: "k < 10 \<Longrightarrow> (char_of (48 + k) :: char) \<noteq> CHR ''>'' \<and> (char_of (48 + k) :: char) \<noteq> CHR ''<''" for k :: nat
  proof -
    assume "k < 10"
    then have "k \<in> set [0..<10]" by simp
    moreover have "list_all (\<lambda>k. (char_of (48 + k :: nat) :: char) \<noteq> CHR ''>'' \<and> (char_of (48 + k) :: char) \<noteq> CHR ''<'') [0..<10]" by code_simp
    ultimately show ?thesis unfolding list_all_iff by blast
  qed
  show ?case
  proof (cases "n < 10")
    case True
    with d show ?thesis by (simp add: nat_digits.simps [of n])
  next
    case False
    with 1 d [of "n mod 10"] show ?thesis by (simp add: nat_digits.simps [of n])
  qed
qed

lemma node_closed:
  assumes "closed out S N"
  shows "closed (if h then ''<!--CRP_'' @ nat_digits i @ ''-->'' @ out @ ''<!--/CRP-->'' else out) (node_marks h S) N"
proof (cases h)
  case True
  have "closed (''<!--'' @ (''CRP_'' @ nat_digits i) @ ''-->'') [CommentEnd] {}"
    using digits_plain [of i] by (intro comment_closed) simp
  moreover have "closed (''<!--'' @ ''/CRP'' @ ''-->'') [CommentEnd] {}"
    by (intro comment_closed) simp
  ultimately have "closed ((''<!--'' @ (''CRP_'' @ nat_digits i) @ ''-->'') @ out @ (''<!--'' @ ''/CRP'' @ ''-->'')) ([CommentEnd] @ S @ [CommentEnd]) ({} \<union> (N \<union> {}))"
    by (intro closed_append assms)
  with True show ?thesis by (simp add: node_marks_def)
qed (use assms in \<open>simp add: node_marks_def\<close>)

lemma in_quotes_ready:
  assumes "direct R (MQuoted n q []) K" "in_quotes n q i s' g = Some en'"
  shows "ready R 0 en' s' K"
proof (cases g)
  case (Pair l suf)
  show ?thesis
  proof (cases "i = l")
    case True
    with assms Pair show ?thesis by (auto simp: in_quotes_def intro: ready_quoted split: if_splits)
  next
    case False
    with assms Pair have "en' = \<lparr>en_state = MQuoted n q [], en_flush = False, en_skip = 0, en_group = Some (l, suf)\<rparr>"
      by (auto simp: in_quotes_def split: if_splits)
    then show ?thesis using assms(1) unfolding ready_def by (intro exI [of _ R]) (simp add: at_string_def en_text_def)
  qed
qed

lemma gap_text_kept:
  assumes at: "at_string R en K" and ok: "text_ok en s" and g: "gap_text groups i en s s' x = Some en'" and v: "inert v"
  shows "ready ((R @ en_text en s) @ v) 0 en' s' (K @ en_marks en s)"
proof -
  have dr: "direct (R @ en_text en s) (en_end en s) (K @ en_marks en s)" by (rule at_string_text [OF at ok])
  obtain n q u where e: "en_end en s = MQuoted n q u" and q: "q = CHR 0x22 \<or> q = CHR 0x27"
    and iq: "\<exists>gr. in_quotes n q i s' gr = Some en'"
    using g by (auto simp: gap_text_def Let_def split: mstate.splits option.splits if_splits prod.splits)
  have "u = []"
  proof -
    have "erase (en_end en s) = en_end en s"
      by (cases "fst (ref_run (en_state en) (en_text en s))") (simp_all add: en_end_def)
    then show ?thesis using e by simp
  qed
  with dr e have "direct (R @ en_text en s) (MQuoted n q []) (K @ en_marks en s)" by simp
  from direct_quoted [OF this inert_parts(2) [OF v q]] iq show ?thesis
    using in_quotes_ready by blast
qed

text \<open>A removed attribute that lies in several strings.\<close>

lemma ends_with_suffix: "ends_with (a @ p) p" "take (length (a @ p) - length p) (a @ p) = a"
  by (simp_all add: ends_with_def starts_with_iff)

lemma gap_text_removed:
  assumes at: "at_string R en K" and g: "gap_text groups i en s s' x = Some en'" and gr: "map_of groups i = Some gr"
  shows "\<exists>n q J A. en_text en s = A @ ag_prefix gr \<and> covers J (en_marks en s) \<and> flush (R @ A) n (K @ J)
     \<and> in_quotes n q i s' (last (ag_indices gr), ag_suffixLength gr) = Some en'"
proof -
  let ?A = "take (length (en_text en s) - length (ag_prefix gr)) (en_text en s)"
  obtain n q base where b: "base_of en ?A = Some (n, base)" "en_text en s = ?A @ ag_prefix gr" "en_marks en s = base @ [Attr (ab_name x)]"
    "in_quotes n q i s' (last (ag_indices gr), ag_suffixLength gr) = Some en'"
    using g gr by (auto simp: gap_text_def Let_def split: mstate.splits option.splits if_splits prod.splits)
  have "flush (R @ ?A) n (K @ base)" by (rule at_string_base [OF at b(1)])
  moreover have "covers base (en_marks en s)" unfolding b(3) by (rule covers_base)
  ultimately show ?thesis using b by blast
qed

lemma gap_whole_removed:
  assumes at: "at_string R en K" and g: "gap_whole groups i en s s' x = Some en'" and gr: "map_of groups i = Some gr"
  shows "\<exists>n J A. en_text en s = A @ ag_prefix gr \<and> covers J (en_marks en s) \<and> flush (R @ A) n (K @ J)
     \<and> ag_indices gr = [i] \<and> en' = behind n (ag_suffixLength gr)"
proof -
  obtain p n base where b: "base_of en (trimEnd (slice s (en_skip en) p)) = Some (n, base)"
    "en_text en s = trimEnd (slice s (en_skip en) p) @ ag_prefix gr" "en_marks en s = base @ [Attr (ab_name x)]"
    "ag_indices gr = [i]" "en' = behind n (ag_suffixLength gr)"
    using g gr by (auto simp: gap_whole_def Let_def split: option.splits if_splits prod.splits)
  have "flush (R @ trimEnd (slice s (en_skip en) p)) n (K @ base)" by (rule at_string_base [OF at b(1)])
  moreover have "covers base (en_marks en s)" unfolding b(3) by (rule covers_base)
  ultimately show ?thesis using b by blast
qed


text \<open>The page after binding \<open>i\<close>: on to the next string, or behind an attribute that spans more strings.\<close>

definition binding_done :: "bool \<Rightarrow> nat \<Rightarrow> binding_info \<Rightarrow> mark list \<Rightarrow> mark list \<Rightarrow> string set \<Rightarrow> mark list \<Rightarrow> entry \<Rightarrow> string \<Rightarrow> nat \<Rightarrow> string \<Rightarrow> nat \<Rightarrow> bool" where
  "binding_done h i b M S N K en' s' l r ci \<longleftrightarrow>
     (l = i \<and> (\<exists>J J'. covers J M \<and> tags J' = (if b = NodeB then node_marks h S else []) \<and> set (attrs J') \<subseteq> N \<and> ready r ci en' s' (K @ J @ J')))
   \<or> (i < l \<and> b \<noteq> NodeB \<and> (\<exists>n q J. en' = \<lparr>en_state = MQuoted n q [], en_flush = False, en_skip = 0, en_group = Some (l, ci)\<rparr> \<and> covers J M \<and> flush r n (K @ J)))"

lemma done_here: "covers J M \<Longrightarrow> b \<noteq> NodeB \<Longrightarrow> ready r ci en' s' (K @ J) \<Longrightarrow> binding_done h i b M S N K en' s' i r ci"
  unfolding binding_done_def by (intro disjI1 conjI refl exI [of _ J] exI [of _ "[]"]) simp_all

lemma attr_done:
  assumes at: "at_string R en K" and ok: "text_ok en s"
    and g: "(if ab_start x \<and> \<not> interpolatesText x then gap_whole groups i en s s' x else gap_text groups i en s s' x) = Some en'"
    and st: "sc_result st = R @ en_text en s" "ab_name x \<noteq> ''...''" "sc_charIdx st = 0" and ss: "strings ! i = s" "strings ! Suc i = s'"
    and sc: "scan_binding h an values rendered i st = Some (l, st2)" "ta_bindings an ! i = AttrB x" "ta_groups an = groups" "ta_strings an = strings"
  shows "binding_done h i (AttrB x) (en_marks en s) S N K en' s' l (sc_result st2) (sc_charIdx st2)
     \<and> sc_pending st2 = sc_pending st"
proof -
  let ?val = "case values ! i of VLive w \<Rightarrow> w | w \<Rightarrow> w"
  show ?thesis
  proof (cases "in_group groups i values")
    case (Some gr)
    then have gr: "map_of groups i = Some gr" by (auto simp: in_group_def split: option.splits if_splits)
    have l: "l = last (ag_indices gr)"
      and r: "sc_result st2 = (if ends_with (sc_result st) (ag_prefix gr) then take (length (sc_result st) - length (ag_prefix gr)) (sc_result st) else sc_result st)"
      and ci: "sc_charIdx st2 = ag_suffixLength gr" and pd: "sc_pending st2 = sc_pending st"
      using sc st(2) Some by (auto simp: scan_binding_def Let_def)
    have cut: "sc_result st2 = R @ A" if "en_text en s = A @ ag_prefix gr" for A
      using r ends_with_suffix [of "R @ A" "ag_prefix gr"] st(1) that by simp
    show ?thesis
    proof (cases "ab_start x \<and> \<not> interpolatesText x")
      case True
      then have gw: "gap_whole groups i en s s' x = Some en'" using g by simp
      from gap_whole_removed [OF at gw gr]
      obtain n J A where w: "en_text en s = A @ ag_prefix gr" "covers J (en_marks en s)" "flush (R @ A) n (K @ J)"
        "ag_indices gr = [i]" "en' = behind n (ag_suffixLength gr)" by blast
      then have "ready (sc_result st2) (sc_charIdx st2) en' s' (K @ J)" using cut ci by (simp add: ready_flush)
      with w(2,4) l pd show ?thesis by (auto intro: done_here)
    next
      case False
      then have "gap_text groups i en s s' x = Some en'" using g by (simp split: if_splits)
      from gap_text_removed [OF at this gr]
      obtain n q J A where w: "en_text en s = A @ ag_prefix gr" "covers J (en_marks en s)" "flush (R @ A) n (K @ J)"
        "in_quotes n q i s' (last (ag_indices gr), ag_suffixLength gr) = Some en'" by blast
      have fl: "flush (sc_result st2) n (K @ J)" using w cut by simp
      show ?thesis
      proof (cases "i = l")
        case True
        then have "en' = behind n (ag_suffixLength gr)" using w(4) l by (auto simp: in_quotes_def split: if_splits)
        then have "ready (sc_result st2) (sc_charIdx st2) en' s' (K @ J)" using fl ci by (simp add: ready_flush)
        with w(2) True pd show ?thesis by (auto intro: done_here)
      next
        case False
        then have "i < l" "en' = \<lparr>en_state = MQuoted n q [], en_flush = False, en_skip = 0, en_group = Some (l, sc_charIdx st2)\<rparr>"
          using w(4) l ci by (auto simp: in_quotes_def split: if_splits)
        with w(2) fl pd show ?thesis by (auto simp: binding_done_def)
      qed
    qed
  next
    case none: None
    show ?thesis
    proof (cases "ab_start x \<and> \<not> interpolatesText x")
      case True
      then have gw: "gap_whole groups i en s s' x = Some en'" using g by simp
      then obtain p where p: "ab_prefixStart x = Some p" by (auto simp: gap_whole_def split: option.splits)
      obtain r k where w: "whole_attr x (drop p s) s' ?val (R @ en_text en s) = Some (r, k)"
        "l = i" "st2 = st\<lparr>sc_result := r, sc_charIdx := k\<rparr>"
        using sc st none True p ss by (auto simp: scan_binding_def Let_def)
      obtain J where "covers J (en_marks en s)" "ready r k en' s' (K @ J)"
        using whole_attr_ready [OF at ok gw p w(1)] by blast
      with w show ?thesis by (auto intro: done_here)
    next
      case False
      then have gt: "gap_text groups i en s s' x = Some en'" using g by (simp split: if_splits)
      obtain v where w: "l = i" "st2 = st\<lparr>sc_result := sc_result st @ escapeHtml v\<rparr>"
        using sc st none False by (auto simp: scan_binding_def Let_def)
      have "ready (sc_result st2) 0 en' s' (K @ en_marks en s)"
        using gap_text_kept [OF at ok gt escape_inert] w st(1) by simp
      with w st(3) show ?thesis by (auto intro!: done_here [of "en_marks en s"])
    qed
  qed
qed


lemma binding_planned:
  assumes at: "at_string R en K" and g: "gap groups i en s s' b = Some en'"
    and st: "sc_result st = R @ en_text en s" "sc_charIdx st = 0"
    and ss: "strings ! i = s" "strings ! Suc i = s'" and an: "ta_bindings an ! i = b" "ta_groups an = groups" "ta_strings an = strings"
    and node: "\<And>out. b = NodeB \<Longrightarrow> rendered ! i = Some out \<Longrightarrow> closed out S N"
    and sc: "scan_binding h an values rendered i st = Some (l, st2)"
  shows "binding_done h i b (en_marks en s) S N K en' s' l (sc_result st2) (sc_charIdx st2) \<and> sc_pending st2 = sc_pending st"
proof -
  have ok: "text_ok en s" using g by (auto simp: gap_def split: if_splits)
  have dr: "direct (R @ en_text en s) (en_end en s) (K @ en_marks en s)" by (rule at_string_text [OF at ok])
  show ?thesis
  proof (cases b)
    case (AttrB x)
    have nm: "ab_name x \<noteq> ''...''" and g': "(if ab_start x \<and> \<not> interpolatesText x then gap_whole groups i en s s' x else gap_text groups i en s s' x) = Some en'"
      using g ok AttrB by (auto simp: gap_def split: if_splits)
    from attr_done [OF at ok g' st(1) nm st(2) ss sc] an AttrB show ?thesis by simp
  next
    case NodeB
    then have en': "en' = enter MData" and e: "en_end en s = MData" using g ok by (auto simp: gap_def split: if_splits)
    obtain out where out: "rendered ! i = Some out" and l: "l = i"
      and st2: "st2 = st\<lparr>sc_result := sc_result st @ (if h then ''<!--CRP_'' @ nat_digits i @ ''-->'' @ out @ ''<!--/CRP-->'' else out)\<rparr>"
      using sc an NodeB by (auto simp: scan_binding_def Let_def)
    have "direct (sc_result st) MData (K @ en_marks en s)" using dr e st(1) by simp
    from closedE [OF node_closed [OF node [OF NodeB out], of h i] this]
    obtain J where "direct (sc_result st2) MData ((K @ en_marks en s) @ J)" "tags J = node_marks h S" "set (attrs J) \<subseteq> N"
      using st2 by auto
    then show ?thesis using en' l NodeB st2 st(2)
      unfolding binding_done_def by (intro conjI disjI1 exI [of _ "en_marks en s"] exI [of _ J]) (auto intro: ready_enter)
  next
    case (RawB tag first)
    then have en': "en' = enter (MRaw tag)" "en_end en s = MRaw tag" "tag \<noteq> ''script''" "tag \<noteq> ''style''"
      using g ok by (auto simp: gap_def split: if_splits)
    obtain o' where o': "rawTextSSR tag (values ! i) first = Some o'" and st2: "l = i" "st2 = st\<lparr>sc_result := sc_result st @ o'\<rparr>"
      using sc an RawB by (auto simp: scan_binding_def Let_def)
    have "list_all (\<lambda>c. c \<noteq> CHR ''<'') o'"
      using o' en'(3,4) inert_parts(1) [OF escape_inert] by (auto simp: rawTextSSR_def Let_def)
    from direct_raw [OF dr [unfolded en'(2)] this] st(1) st2
    have "direct (sc_result st2) (MRaw tag) (K @ en_marks en s)" by simp
    then show ?thesis using en'(1) st2 st(2) RawB by (auto intro!: done_here [of "en_marks en s"] ready_enter)
  next
    case CommentB
    then have en': "en' = enter (en_end en s)" using g ok by (auto simp: gap_def split: mstate.splits)
    have "l = i" "st2 = st" using sc an CommentB by (auto simp: scan_binding_def)
    then show ?thesis using en' dr st CommentB by (auto intro!: done_here [of "en_marks en s"] ready_enter)
  qed (use g ok in \<open>auto simp: gap_def\<close>)
qed


section \<open>The whole template\<close>

abbreviation quoted_entry :: "string \<Rightarrow> char \<Rightarrow> nat \<Rightarrow> nat \<Rightarrow> entry" where
  "quoted_entry n q l suf \<equiv> \<lparr>en_state = MQuoted n q [], en_flush = False, en_skip = 0, en_group = Some (l, suf)\<rparr>"

text \<open>In a quoted value the plan only goes on, to the end of the attribute.\<close>

lemma gap_in_quotes:
  assumes "gap groups j (quoted_entry n q l suf) s s' b = Some en'"
  shows "b \<noteq> NodeB \<and> en_marks (quoted_entry n q l suf) s = [] \<and> in_quotes n q j s' (l, suf) = Some en'"
proof -
  let ?en = "quoted_entry n q l suf"
  have ok: "text_ok ?en s" using assms by (auto simp: gap_def split: if_splits)
  then have m: "en_marks ?en s = []" "en_end ?en s = MQuoted n q []" by (auto simp: text_ok_def)
  obtain x where b: "b = AttrB x" using assms ok m by (auto simp: gap_def split: binding_info.splits if_splits)
  have "gap_whole groups j ?en s s' x = None"
    using m(1) by (auto simp: gap_whole_def Let_def split: option.split prod.split)
  then have "gap_text groups j ?en s s' x = Some en'"
    using assms ok b by (auto simp: gap_def split: if_splits)
  then have "in_quotes n q j s' (l, suf) = Some en'"
    using m by (auto simp: gap_text_def Let_def split: option.splits if_splits prod.splits)
  with m b show ?thesis by simp
qed

lemma plan_Cons:
  assumes "plan groups i en (drop i strs) (drop i bs) = Some Ss" "length strs = Suc (length bs)" "i < length bs"
  obtains en' Ss' where "gap groups i en (strs ! i) (strs ! Suc i) (bs ! i) = Some en'" "Ss = en_marks en (strs ! i) # Ss'"
    "plan groups (Suc i) en' (drop (Suc i) strs) (drop (Suc i) bs) = Some Ss'"
proof -
  have d: "drop i strs = strs ! i # strs ! Suc i # drop (Suc (Suc i)) strs" "drop i bs = bs ! i # drop (Suc i) bs"
    "drop (Suc i) strs = strs ! Suc i # drop (Suc (Suc i)) strs"
    using assms(2,3) by (simp_all add: Cons_nth_drop_Suc)
  from assms(1) show thesis
    unfolding d(1,2) using that d(3) by (auto split: option.splits)
qed

lemma skip_group:
  assumes "plan groups j (quoted_entry n q l suf) (drop j strs) (drop j bs) = Some Ss" "length strs = Suc (length bs)" "j \<le> l" "j < length strs"
  shows "\<exists>Ss'. Suc l < length strs \<and> plan groups (Suc l) (behind n suf) (drop (Suc l) strs) (drop (Suc l) bs) = Some Ss'
    \<and> (\<forall>sks. length sks = length bs \<longrightarrow> weave h Ss (drop j bs) (drop j sks) = weave h Ss' (drop (Suc l) bs) (drop (Suc l) sks))
    \<and> derived_names (concat Ss) = derived_names (concat Ss')"
  using assms
proof (induction "l - j" arbitrary: j Ss)
  have last: "j < length bs" if "plan groups j (quoted_entry n q l suf) (drop j strs) (drop j bs) = Some Ss" "length strs = Suc (length bs)" "j < length strs" for j Ss
  proof (rule ccontr)
    assume "\<not> j < length bs"
    then have "drop j strs = [strs ! j]" "drop j bs = []" using that by (simp_all add: Cons_nth_drop_Suc [symmetric])
    with that(1) show False by (auto simp: text_ok_def split: if_splits)
  qed
  have one: "weave h (en_marks en s # Ss') (drop j bs) (drop j sks) = weave h Ss' (drop (Suc j) bs) (drop (Suc j) sks)"
    if "j < length bs" "length sks = length bs" "bs ! j \<noteq> NodeB" "en_marks en s = []" for en s Ss' j sks
    using that by (simp add: Cons_nth_drop_Suc [symmetric])
  {
    case 0
    have j: "j < length bs" by (rule last [OF 0(2,3,5)])
    obtain en' Ss' where p: "gap groups j (quoted_entry n q l suf) (strs ! j) (strs ! Suc j) (bs ! j) = Some en'"
      "Ss = en_marks (quoted_entry n q l suf) (strs ! j) # Ss'" "plan groups (Suc j) en' (drop (Suc j) strs) (drop (Suc j) bs) = Some Ss'"
      by (rule plan_Cons [OF 0(2,3) j])
    note g = gap_in_quotes [OF p(1)]
    have jl: "j = l" using 0(1,4) by simp
    then have "en' = behind n suf" using g by (auto simp: in_quotes_def split: if_splits)
    with p g jl j 0(3) one [OF j] show ?case by (intro exI [of _ Ss']) auto
  next
    case (Suc d)
    have j: "j < length bs" by (rule last [OF Suc(3,4,6)])
    obtain en' Ss' where p: "gap groups j (quoted_entry n q l suf) (strs ! j) (strs ! Suc j) (bs ! j) = Some en'"
      "Ss = en_marks (quoted_entry n q l suf) (strs ! j) # Ss'" "plan groups (Suc j) en' (drop (Suc j) strs) (drop (Suc j) bs) = Some Ss'"
      by (rule plan_Cons [OF Suc(3,4) j])
    note g = gap_in_quotes [OF p(1)]
    have jl: "j < l" using Suc(2) by simp
    then have "en' = quoted_entry n q l suf" using g by (auto simp: in_quotes_def split: if_splits)
    then have pl: "plan groups (Suc j) (quoted_entry n q l suf) (drop (Suc j) strs) (drop (Suc j) bs) = Some Ss'" using p(3) by simp
    have "d = l - Suc j" "Suc j \<le> l" "Suc j < length strs" using Suc(2) jl j Suc(4) by auto
    from Suc(1) [OF this(1) pl Suc(4) this(2,3)] obtain Ss2 where r: "Suc l < length strs"
      "plan groups (Suc l) (behind n suf) (drop (Suc l) strs) (drop (Suc l) bs) = Some Ss2"
      "\<forall>sks. length sks = length bs \<longrightarrow> weave h Ss' (drop (Suc j) bs) (drop (Suc j) sks) = weave h Ss2 (drop (Suc l) bs) (drop (Suc l) sks)"
      "derived_names (concat Ss') = derived_names (concat Ss2)" by blast
    with p(2) g one [OF j] show ?case by (intro exI [of _ Ss2]) auto
  }
qed

lemma emit_plain:
  assumes "sc_pending st = None" "emit_string i s st = Some st1"
  shows "sc_result st1 = sc_result st @ drop (sc_charIdx st) s" "sc_charIdx st1 = 0" "sc_pending st1 = None"
  using assms by (auto simp: emit_string_def)

lemma scan_planned:
  assumes "plan (ta_groups an) i en (drop i (ta_strings an)) (drop i (ta_bindings an)) = Some Ss"
    and len: "length (ta_strings an) = Suc (length (ta_bindings an))" "length sks = length (ta_bindings an)"
    and "i < length (ta_strings an)" "sc_pending st = None" "ready (sc_result st) (sc_charIdx st) en (ta_strings an ! i) K"
    and node: "\<And>j out. j < length (ta_bindings an) \<Longrightarrow> ta_bindings an ! j = NodeB \<Longrightarrow> rendered ! j = Some out \<Longrightarrow> closed out (sks ! j) N"
    and "scan_loop h an vals rendered i st = Some out"
  shows "\<exists>J. direct out MData (K @ J) \<and> tags J = weave h Ss (drop i (ta_bindings an)) (drop i sks) \<and> set (attrs J) \<subseteq> derived_names (concat Ss) \<union> N"
  using assms(1,4,5,6,8)
proof (induction "length (ta_strings an) - i" arbitrary: i en Ss st K rule: less_induct)
  case less
  let ?strs = "ta_strings an" and ?bs = "ta_bindings an"
  obtain R0 where R0: "sc_result st @ drop (sc_charIdx st) (?strs ! i) = R0 @ en_text en (?strs ! i)" "at_string R0 en K"
    using less.prems(4) unfolding ready_def by blast
  obtain st1 where em: "emit_string i (?strs ! i) st = Some st1"
    using less.prems(2,5) by (subst (asm) scan_loop.simps) (auto simp: bind_eq_Some_conv)
  note st1 = emit_plain [OF less.prems(3) em]
  have res1: "sc_result st1 = R0 @ en_text en (?strs ! i)" using st1(1) R0(1) by simp
  show ?case
  proof (cases "i < length ?bs")
    case False
    then have i: "Suc i = length ?strs" using len(1) less.prems(2) by simp
    then have d: "drop i ?strs = [?strs ! i]" "drop i ?bs = []" using False by (simp_all add: Cons_nth_drop_Suc [symmetric])
    have ok: "text_ok en (?strs ! i)" "en_end en (?strs ! i) = MData" "Ss = [en_marks en (?strs ! i)]"
      using less.prems(1) unfolding d by (auto split: if_splits)
    have "scan_loop h an vals rendered (Suc i) st1 = Some out"
      using less.prems(2,5) em i by (subst (asm) scan_loop.simps) simp
    then have "out = sc_result st1" using i st1(3) by (subst (asm) scan_loop.simps) simp
    then have "direct out MData (K @ en_marks en (?strs ! i))"
      using at_string_text [OF R0(2) ok(1)] ok(2) res1 by simp
    with ok(3) d(2) show ?thesis
      by (intro exI [of _ "en_marks en (?strs ! i)"]) (auto simp: derived_names_def derived_def)
  next
    case True
    obtain en' Ss' where p: "gap (ta_groups an) i en (?strs ! i) (?strs ! Suc i) (?bs ! i) = Some en'" "Ss = en_marks en (?strs ! i) # Ss'"
      "plan (ta_groups an) (Suc i) en' (drop (Suc i) ?strs) (drop (Suc i) ?bs) = Some Ss'"
      by (rule plan_Cons [OF less.prems(1) len(1) True])
    obtain l st2 where sc: "scan_binding h an vals rendered i st1 = Some (l, st2)" and rest: "scan_loop h an vals rendered (Suc (max i l)) st2 = Some out"
      using less.prems(2,5) em True len(1) by (subst (asm) scan_loop.simps) (auto simp: bind_eq_Some_conv)
    have cl: "\<And>o'. ?bs ! i = NodeB \<Longrightarrow> rendered ! i = Some o' \<Longrightarrow> closed o' (sks ! i) N" by (rule node [OF True])
    note bp = binding_planned [OF R0(2) p(1) res1 st1(2) refl refl refl refl refl cl sc]
    have pend: "sc_pending st2 = None" using bp st1(3) by simp
    have dr: "drop i ?bs = ?bs ! i # drop (Suc i) ?bs" "drop i sks = sks ! i # drop (Suc i) sks"
      using True len(2) by (simp_all add: Cons_nth_drop_Suc)
    from bp consider
      (here) J J' where "l = i" "covers J (en_marks en (?strs ! i))" "tags J' = (if ?bs ! i = NodeB then node_marks h (sks ! i) else [])"
        "set (attrs J') \<subseteq> N" "ready (sc_result st2) (sc_charIdx st2) en' (?strs ! Suc i) (K @ J @ J')"
      | (far) n q J where "i < l" "?bs ! i \<noteq> NodeB" "en' = quoted_entry n q l (sc_charIdx st2)" "covers J (en_marks en (?strs ! i))"
        "flush (sc_result st2) n (K @ J)"
      unfolding binding_done_def by blast
    then show ?thesis
    proof cases
      case here
      have r: "scan_loop h an vals rendered (Suc i) st2 = Some out" using rest here(1) by simp
      have "length ?strs - Suc i < length ?strs - i" "Suc i < length ?strs" using True len(1) by auto
      from less.hyps [OF this(1) p(3) this(2) pend here(5) r] obtain J2 where J2: "direct out MData ((K @ J @ J') @ J2)"
        "tags J2 = weave h Ss' (drop (Suc i) ?bs) (drop (Suc i) sks)" "set (attrs J2) \<subseteq> derived_names (concat Ss') \<union> N" by blast
      with here(2-4) p(2) dr show ?thesis by (intro exI [of _ "J @ J' @ J2"]) (auto simp: covers_def)
    next
      case far
      have "Suc i \<le> l" "Suc i < length ?strs" using far(1) True len(1) by auto
      from skip_group [OF p(3) [unfolded far(3)] len(1) this, of h] obtain Ss2 where s2: "Suc l < length ?strs"
        "plan (ta_groups an) (Suc l) (behind n (sc_charIdx st2)) (drop (Suc l) ?strs) (drop (Suc l) ?bs) = Some Ss2"
        "\<forall>sks. length sks = length ?bs \<longrightarrow> weave h Ss' (drop (Suc i) ?bs) (drop (Suc i) sks) = weave h Ss2 (drop (Suc l) ?bs) (drop (Suc l) sks)"
        "derived_names (concat Ss') = derived_names (concat Ss2)" by blast
      have r: "scan_loop h an vals rendered (Suc l) st2 = Some out" using rest far(1) by (simp add: max_def)
      have "length ?strs - Suc l < length ?strs - i" using far(1) s2(1) by simp
      from less.hyps [OF this s2(2,1) pend ready_flush [OF far(5)] r] obtain J2 where J2: "direct out MData ((K @ J) @ J2)"
        "tags J2 = weave h Ss2 (drop (Suc l) ?bs) (drop (Suc l) sks)" "set (attrs J2) \<subseteq> derived_names (concat Ss2) \<union> N" by blast
      with far(2,4) p(2) dr s2(3) len(2) s2(4) show ?thesis by (intro exI [of _ "J @ J2"]) (auto simp: covers_def)
    qed
  qed
qed

end
