(* ===== verification/Ssr_Pages.thy ===== *)
theory Ssr_Pages
  imports Ssr_Safety_Facts
begin

text \<open>
  Whole pages: values in values, lists, components. The tags of a page and the names its attributes can
  have are read off its templates alone.
\<close>

section \<open>The strings of a template\<close>









section \<open>Safe values\<close>









section \<open>Pages\<close>








end
