(* ===== verification/Template_Facts.thy ===== *)
theory Template_Facts
  imports Template_Analysis "HOL-Library.Code_Target_Numeral"
begin

text \<open>
  Every binding of a template is classified by where it stands when the template is read as HTML: the
  analysis agrees with the reference automaton that reads the strings of the template, with a value in
  each gap.
\<close>


text \<open>
  What a binding must be in each state. In the value of an attribute it is part of that attribute, or dropped
  when another binding interrupted the attribute's name.
\<close>

fun stands_in :: "mstate \<Rightarrow> binding_info \<Rightarrow> bool" where
  "stands_in MData b = (b = NodeB)"
| "stands_in (MComment tail) b = (b = CommentB)"
| "stands_in MBogus b = (b = CommentB)"
| "stands_in (MRaw n) b = (case b of RawB tag first \<Rightarrow> tag = n | _ \<Rightarrow> False)"
| "stands_in (MQuoted n q v) b = (case b of AttrB x \<Rightarrow> ab_quote x = Some q | ElementB \<Rightarrow> True | _ \<Rightarrow> False)"
| "stands_in (MValue n) b = (case b of AttrB x \<Rightarrow> ab_quote x = None | ElementB \<Rightarrow> True | _ \<Rightarrow> False)"
| "stands_in (MUnquoted n v) b = (case b of AttrB x \<Rightarrow> ab_quote x = None | ElementB \<Rightarrow> True | _ \<Rightarrow> False)"
| "stands_in m b = (b = ElementB)"

text \<open>A value in a gap starts an unquoted attribute value and changes no other state; a dropped one changes none.\<close>

definition hole :: "mstate \<Rightarrow> binding_info \<Rightarrow> mstate" where
  "hole m b = (case m of MValue n \<Rightarrow> if b = ElementB then m else MUnquoted n [] | _ \<Rightarrow> m)"

text \<open>The reference reads the strings from \<open>m\<close>, with the bindings in the gaps.\<close>

fun reads_as :: "mstate \<Rightarrow> string list \<Rightarrow> binding_info list \<Rightarrow> bool" where
  "reads_as m (s # s' # ss) (b # bs) = (let m' = fst (ref_run m s) in stands_in m' b \<and> reads_as (hole m' b) (s' # ss) bs)"
| "reads_as m (s # s' # ss) [] = False"
| "reads_as m ss bs = (bs = [])"

definition same_kind :: "binding_info \<Rightarrow> binding_info \<Rightarrow> bool" where
  "same_kind b c \<longleftrightarrow> (case (b, c) of (AttrB x, AttrB y) \<Rightarrow> ab_quote x = ab_quote y | _ \<Rightarrow> b = c)"

lemma same_kind_stands: "same_kind b c \<Longrightarrow> stands_in m b = stands_in m c"
  by (cases m; cases b; cases c) (auto simp: same_kind_def)

lemma same_kind_refl [simp]: "same_kind b b"
  by (cases b) (auto simp: same_kind_def)


lemma same_kind_ElementB: "same_kind b c \<Longrightarrow> b = ElementB \<longleftrightarrow> c = ElementB"
  by (cases b; cases c) (auto simp: same_kind_def)

lemma same_kind_hole: "same_kind b c \<Longrightarrow> hole m b = hole m c"
  by (cases m) (simp_all add: hole_def same_kind_ElementB)

abbreviation same_kinds :: "binding_info list \<Rightarrow> binding_info list \<Rightarrow> bool" where
  "same_kinds \<equiv> list_all2 same_kind"

lemma same_kinds_refl [simp]: "same_kinds bs bs"
  by (simp add: list_all2_refl)











lemma reads_as_kinds: "same_kinds bs cs \<Longrightarrow> reads_as m ss bs = reads_as m ss cs"
proof (induction m ss bs arbitrary: cs rule: reads_as.induct)
  case (1 m s s' ss b bs)
  then obtain c cs' where "cs = c # cs'" "same_kind b c" "same_kinds bs cs'"
    by (auto simp: list_all2_Cons1)
  then show ?case
    using 1(1) [OF refl, of cs'] same_kind_stands [of b c] same_kind_hole [of b c] by (simp add: Let_def)
qed (auto simp: list_all2_Cons1)





end
