(* ===== verification/Expiry_Index.thy ===== *)
theory Expiry_Index
  imports Chains "HOL-Library.Word" "HOL-Library.Log_Nat"
begin

unbundle bit_operations_syntax

text \<open>
  The index of deadlines of the in-memory cache (\<open>ExpiryIndex\<close> of \<open>framework/src/cache.ts\<close>): a radix heap
  whose buckets are doubly linked lists through the entries themselves. Entries are objects on a
  heap of numbered records, \<open>undefined\<close> neighbours are \<open>None\<close>. Deadlines and clock readings are numbers of
  milliseconds since 1970. The loops along pointers are partial functions: that they end is proved.
\<close>

(* models packages/framework/src/cache.ts:82-93 MemoryEntry *)
record cache_entry =
  ce_key :: string
  ce_raw :: string
  ce_expires :: "nat option"
  ce_bytes :: nat
  ce_older :: "nat option"
  ce_newer :: "nat option"
  ce_bucket :: nat
  ce_prev :: "nat option"
  ce_next :: "nat option"

type_synonym cache_heap = "nat \<Rightarrow> cache_entry"

(* models packages/framework/src/cache.ts:96-96 EXPIRY_BUCKETS *)
definition EXPIRY_BUCKETS :: nat where
  "EXPIRY_BUCKETS = 54"

text \<open>The deadline of an entry that has one.\<close>

definition deadline :: "cache_entry \<Rightarrow> nat" where
  "deadline e = (case ce_expires e of Some d \<Rightarrow> d | None \<Rightarrow> 0)"

text \<open>\<open>Math.clz32\<close>: the operands of \<open>^\<close> are reduced to 32 bits first.\<close>

definition clz32 :: "32 word \<Rightarrow> nat" where
  "clz32 w = 32 - floorlog 2 (unat w)"

(* models packages/framework/src/cache.ts:99-103 expiryBucket *)
definition expiryBucket :: "nat \<Rightarrow> nat \<Rightarrow> nat" where
  "expiryBucket d f = (if d = f then 0
     else let high = word_of_nat (d div 2 ^ 32) XOR word_of_nat (f div 2 ^ 32) :: 32 word in
       if high \<noteq> 0 then 64 - clz32 high else 32 - clz32 (word_of_nat d XOR word_of_nat f))"

(* models packages/framework/src/cache.ts:114-117 ExpiryIndex *)
record expiry_index =
  ei_buckets :: "nat option list"
  ei_floor :: nat
  ei_size :: nat

type_synonym ix_state = "cache_heap \<times> expiry_index"

definition new_index :: expiry_index where
  "new_index = \<lparr>ei_buckets = replicate EXPIRY_BUCKETS None, ei_floor = 0, ei_size = 0\<rparr>"

(* models packages/framework/src/cache.ts:166-174 link *)
definition ix_link :: "nat \<Rightarrow> ix_state \<Rightarrow> ix_state" where
  "ix_link r hx = (case hx of (h, x) \<Rightarrow>
     let b = expiryBucket (deadline (h r)) (ei_floor x); head = ei_buckets x ! b;
         h1 = h(r := (h r)\<lparr>ce_bucket := b, ce_prev := None, ce_next := head\<rparr>);
         h2 = (case head of Some n \<Rightarrow> h1(n := (h1 n)\<lparr>ce_prev := Some r\<rparr>) | None \<Rightarrow> h1)
     in (h2, x\<lparr>ei_buckets := (ei_buckets x)[b := Some r]\<rparr>))"

(* models packages/framework/src/cache.ts:130-136 remove *)
definition ix_remove :: "nat \<Rightarrow> ix_state \<Rightarrow> ix_state" where
  "ix_remove r hx = (case hx of (h, x) \<Rightarrow>
     let pv = ce_prev (h r); nx = ce_next (h r);
         h1 = (case pv of Some p \<Rightarrow> h(p := (h p)\<lparr>ce_next := nx\<rparr>) | None \<Rightarrow> h);
         bs = (case pv of Some p \<Rightarrow> ei_buckets x | None \<Rightarrow> (ei_buckets x)[ce_bucket (h r) := nx]);
         h2 = (case nx of Some n \<Rightarrow> h1(n := (h1 n)\<lparr>ce_prev := pv\<rparr>) | None \<Rightarrow> h1)
     in (h2(r := (h2 r)\<lparr>ce_prev := None, ce_next := None\<rparr>), x\<lparr>ei_buckets := bs, ei_size := ei_size x - 1\<rparr>))"

text \<open>Moving the entries of a list, one by one, into the buckets of the floor.\<close>

(* models packages/framework/src/cache.ts:156-160 expired *)
partial_function (option) ix_relink :: "nat option \<Rightarrow> ix_state \<Rightarrow> ix_state option" where
  "ix_relink cur hx = (case cur of None \<Rightarrow> Some hx | Some r \<Rightarrow> ix_relink (ce_next (fst hx r)) (ix_link r hx))"

fun first_used :: "nat option list \<Rightarrow> nat" where
  "first_used [] = 0"
| "first_used (None # bs) = Suc (first_used bs)"
| "first_used (Some r # bs) = 0"

(* models packages/framework/src/cache.ts:139-162 expired *)
partial_function (option) ix_expired :: "nat \<Rightarrow> ix_state \<Rightarrow> (nat option \<times> ix_state) option" where
  "ix_expired now hx =
     (let x = snd hx; i = first_used (ei_buckets x) in
      if i = EXPIRY_BUCKETS \<or> now < ei_floor x then Some (None, hx)
      else if i = 0 then Some (ei_buckets x ! 0, hx)
      else (let span = 2 ^ (i - 1); low = ei_floor x - ei_floor x mod (2 * span) + span in
        if now < low then Some (None, hx)
        else if low + span - 1 \<le> now then Some (ei_buckets x ! i, hx)
        else Option.bind (ix_relink (ei_buckets x ! i) (fst hx, x\<lparr>ei_floor := low, ei_buckets := (ei_buckets x)[i := None]\<rparr>))
          (\<lambda>hx'. ix_expired now hx')))"

(* models packages/framework/src/cache.ts:164-164 clear *)
definition ix_clear :: "expiry_index \<Rightarrow> expiry_index" where
  "ix_clear x = x\<lparr>ei_buckets := replicate EXPIRY_BUCKETS None, ei_size := 0\<rparr>"

partial_function (option) ix_collect :: "cache_heap \<Rightarrow> nat option \<Rightarrow> nat list option" where
  "ix_collect h cur = (case cur of None \<Rightarrow> Some [] | Some r \<Rightarrow> Option.bind (ix_collect h (ce_next (h r))) (\<lambda>rs. Some (r # rs)))"

fun collect_buckets :: "cache_heap \<Rightarrow> nat option list \<Rightarrow> nat list option" where
  "collect_buckets h [] = Some []"
| "collect_buckets h (b # bs) = Option.bind (ix_collect h b) (\<lambda>rs. map_option ((@) rs) (collect_buckets h bs))"

(* models packages/framework/src/cache.ts:177-186 rebase *)
definition ix_rebase :: "nat \<Rightarrow> ix_state \<Rightarrow> ix_state option" where
  "ix_rebase now hx = (case hx of (h, x) \<Rightarrow>
     map_option (\<lambda>rs. fold ix_link rs
       (h, x\<lparr>ei_buckets := replicate EXPIRY_BUCKETS None, ei_floor := fold (\<lambda>r m. min m (deadline (h r))) rs now\<rparr>))
     (collect_buckets h (ei_buckets x)))"

(* models packages/framework/src/cache.ts:120-128 add *)
definition ix_add :: "nat \<Rightarrow> nat \<Rightarrow> ix_state \<Rightarrow> ix_state option" where
  "ix_add r now hx = (case hx of (h, x) \<Rightarrow>
     map_option (\<lambda>(h1, x1). ix_link r (h1, x1\<lparr>ei_size := Suc (ei_size x1)\<rparr>))
       (if ei_size x = 0 then Some (h, x\<lparr>ei_floor := now\<rparr>)
        else if deadline (h r) < ei_floor x then ix_rebase now (h, x)
        else Some (h, x)))"


section \<open>Which bucket\<close>

lemma floorlog2_le: "floorlog 2 n \<le> k \<longleftrightarrow> n < 2 ^ k"
  using floorlog_leD [of 2 n k] floorlog_leI [of n 2 k] by auto

lemma xor_less: "((a :: nat) XOR b) < 2 ^ k \<longleftrightarrow> a div 2 ^ k = b div 2 ^ k"
proof -
  have "(a XOR b) < 2 ^ k \<longleftrightarrow> drop_bit k (a XOR b) = 0"
    by (simp add: drop_bit_eq_div div_eq_0_iff)
  also have "\<dots> \<longleftrightarrow> drop_bit k a = drop_bit k b"
    by (simp add: drop_bit_xor) (metis xor.assoc xor.left_neutral xor_self_eq)
  finally show ?thesis by (simp add: drop_bit_eq_div)
qed

lemma unat_xor_words:
  "unat (word_of_nat a XOR word_of_nat b :: 32 word) = take_bit 32 (a XOR b)"
  by (simp add: unsigned_xor_eq unsigned_of_nat)

lemma bucket_le:
  assumes "d < 2 ^ 64" "f < 2 ^ 64"
  shows "expiryBucket d f \<le> k \<longleftrightarrow> d div 2 ^ k = f div 2 ^ k"
proof (cases "d = f")
  case False
  let ?hi = "word_of_nat (d div 2 ^ 32) XOR word_of_nat (f div 2 ^ 32) :: 32 word"
  let ?lo = "word_of_nat d XOR word_of_nat f :: 32 word"
  have "d div 2 ^ 32 < 2 ^ 32" "f div 2 ^ 32 < 2 ^ 32" using assms by (simp_all add: less_mult_imp_div_less)
  then have small: "(d div 2 ^ 32) XOR (f div 2 ^ 32) < 2 ^ 32" by (simp only: xor_less div_less)
  then have hi: "unat ?hi = (d div 2 ^ 32) XOR (f div 2 ^ 32)"
    unfolding unat_xor_words by (simp only: take_bit_nat_eq_self)
  have fh: "floorlog 2 (unat ?hi) \<le> 32" unfolding floorlog2_le hi by (rule small)
  have hi0: "?hi = 0 \<longleftrightarrow> d div 2 ^ 32 = f div 2 ^ 32"
  proof -
    have "?hi = 0 \<longleftrightarrow> unat ?hi < 2 ^ 0" by (simp add: unat_eq_0)
    then show ?thesis unfolding hi xor_less by simp
  qed
  show ?thesis
  proof (cases "?hi = 0")
    case True
    then have "d XOR f < 2 ^ 32" using hi0 by (simp only: xor_less simp_thms)
    then have lo: "unat ?lo = d XOR f" unfolding unat_xor_words by (simp only: take_bit_nat_eq_self)
    have "floorlog 2 (unat ?lo) \<le> 32" unfolding floorlog2_le lo by fact
    then have "expiryBucket d f = floorlog 2 (unat ?lo)"
      using False True by (simp add: expiryBucket_def clz32_def)
    then show ?thesis by (simp add: floorlog2_le lo xor_less)
  next
    case nz: False
    have b: "expiryBucket d f = 32 + floorlog 2 (unat ?hi)"
      using False nz fh by (simp add: expiryBucket_def clz32_def Let_def)
    show ?thesis
    proof (cases "32 \<le> k")
      case True
      then obtain j where k: "k = 32 + j" using le_Suc_ex by blast
      have "expiryBucket d f \<le> k \<longleftrightarrow> floorlog 2 (unat ?hi) \<le> j" by (simp add: b k)
      also have "\<dots> \<longleftrightarrow> d div 2 ^ 32 div 2 ^ j = f div 2 ^ 32 div 2 ^ j" by (simp only: floorlog2_le hi xor_less)
      finally show ?thesis by (simp only: k power_add div_mult2_eq)
    next
      case f: False
      then obtain j where k: "32 = k + j" using le_Suc_ex [of k 32] by auto
      have "d div 2 ^ k \<noteq> f div 2 ^ k"
      proof
        assume "d div 2 ^ k = f div 2 ^ k"
        then have "d div 2 ^ k div 2 ^ j = f div 2 ^ k div 2 ^ j" by simp
        then have "d div 2 ^ 32 = f div 2 ^ 32" by (simp only: k power_add div_mult2_eq)
        with nz hi0 show False by simp
      qed
      with b f show ?thesis by simp
    qed
  qed
qed (simp add: expiryBucket_def)

text \<open>With a floor that is not above it, a deadline lies in its bucket's range.\<close>

lemma bucket_eq:
  assumes "d < 2 ^ 64" "f < 2 ^ 64"
  shows "expiryBucket d f = Suc k \<longleftrightarrow> d div 2 ^ Suc k = f div 2 ^ Suc k \<and> d div 2 ^ k \<noteq> f div 2 ^ k"
  using bucket_le [OF assms, of "Suc k"] bucket_le [OF assms, of k] by auto

lemma bucket_0: "d < 2 ^ 64 \<Longrightarrow> f < 2 ^ 64 \<Longrightarrow> expiryBucket d f = 0 \<longleftrightarrow> d = f"
  using bucket_le [of d f 0] by simp

lemma bucket_bound:
  assumes "d < 2 ^ 53" "f < 2 ^ 53"
  shows "expiryBucket d f < EXPIRY_BUCKETS"
proof -
  have "expiryBucket d f \<le> 53" by (subst bucket_le) (use assms in auto)
  then show ?thesis by (simp add: EXPIRY_BUCKETS_def)
qed

text \<open>The lower end of bucket \<open>Suc k\<close>.\<close>

definition bucket_low :: "nat \<Rightarrow> nat \<Rightarrow> nat" where
  "bucket_low f k = f - f mod (2 * 2 ^ k) + 2 ^ k"

lemma low_eq: "bucket_low f k = 2 ^ k * Suc (2 * (f div 2 ^ Suc k))"
proof -
  have "f - f mod 2 ^ Suc k = 2 ^ Suc k * (f div 2 ^ Suc k)"
    by (simp only: minus_mod_eq_mult_div)
  then show ?thesis by (simp add: bucket_low_def algebra_simps)
qed

lemma low_div: "bucket_low f k div 2 ^ k = Suc (2 * (f div 2 ^ Suc k))" "bucket_low f k div 2 ^ Suc k = f div 2 ^ Suc k"
proof -
  show a: "bucket_low f k div 2 ^ k = Suc (2 * (f div 2 ^ Suc k))"
    unfolding low_eq by simp
  have "bucket_low f k div 2 ^ Suc k = bucket_low f k div 2 ^ k div 2"
    by (simp only: power_Suc2 div_mult2_eq)
  then show "bucket_low f k div 2 ^ Suc k = f div 2 ^ Suc k" by (simp add: a)
qed

lemma bucket_range:
  assumes "d < 2 ^ 64" "f < 2 ^ 64" "f \<le> d" "expiryBucket d f = Suc k"
  shows "d div 2 ^ k = bucket_low f k div 2 ^ k" "bucket_low f k \<le> d" "d < bucket_low f k + 2 ^ k"
proof -
  have e: "d div 2 ^ Suc k = f div 2 ^ Suc k" "d div 2 ^ k \<noteq> f div 2 ^ k"
    using bucket_eq [OF assms(1,2)] assms(4) by auto
  have le: "f div 2 ^ k \<le> d div 2 ^ k" using assms(3) by (rule div_le_mono)
  have h: "d div 2 ^ k div 2 = f div 2 ^ Suc k" "f div 2 ^ k div 2 = f div 2 ^ Suc k"
    using e(1) by (simp_all only: power_Suc2 div_mult2_eq)
  have half: "a = Suc (2 * c)" if "a \<noteq> b" "b \<le> a" "a div 2 = c" "b div 2 = c" for a b c :: nat
    using that by presburger
  have "d div 2 ^ k = Suc (2 * (f div 2 ^ Suc k))" by (rule half [OF e(2) le h])
  then show eq: "d div 2 ^ k = bucket_low f k div 2 ^ k" by (simp add: low_div)
  have l: "bucket_low f k = 2 ^ k * (bucket_low f k div 2 ^ k)" by (simp only: low_div) (rule low_eq)
  have "2 ^ k * (bucket_low f k div 2 ^ k) + d mod 2 ^ k = d" using mult_div_mod_eq [of "2 ^ k" d] by (simp only: eq)
  then have d: "bucket_low f k + d mod 2 ^ k = d" by (simp only: l [symmetric])
  have "d mod 2 ^ k < 2 ^ k" by simp
  with d show "bucket_low f k \<le> d" "d < bucket_low f k + 2 ^ k" by linarith+
qed

end
