(* ===== verification/Cache_Store.thy ===== *)
theory Cache_Store
  imports Expiry_Index
begin

text \<open>
  The in-memory cache (\<open>InMemoryCacheStore\<close> of \<open>framework/src/cache.ts\<close>) with its policy checks
  (\<open>framework/src/cache-policy.ts\<close>): a map of entries that form a recency list, and the index of deadlines.
  JSON text is a parameter of the operations that use it: \<open>stringify\<close> gives no text where
  \<open>JSON.stringify\<close> throws or gives \<open>undefined\<close>, \<open>parse\<close> none where \<open>JSON.parse\<close> throws. Clock readings are
  arguments. A result of \<open>None\<close> is a loop that does not end.
\<close>

datatype cache_error = CEKey | CETtl | CEValue | CEBatch | CEEntry | CEBatchBytes | CEMaxEntries | CEMaxBytes | CEBudget | CENamespace

section \<open>Checks\<close>

(* models packages/framework/src/cache-policy.ts:2-2 CACHE_MAX_KEY_BYTES *)
definition CACHE_MAX_KEY_BYTES :: nat where
  "CACHE_MAX_KEY_BYTES = 512"

(* models packages/framework/src/cache-policy.ts:3-3 CACHE_MAX_VALUE_BYTES *)
definition CACHE_MAX_VALUE_BYTES :: nat where
  "CACHE_MAX_VALUE_BYTES = 1024 * 1024"

(* models packages/framework/src/cache-policy.ts:4-4 CACHE_MAX_BATCH_ENTRIES *)
definition CACHE_MAX_BATCH_ENTRIES :: nat where
  "CACHE_MAX_BATCH_ENTRIES = 128"

(* models packages/framework/src/cache-policy.ts:5-5 CACHE_MAX_BATCH_BYTES *)
definition CACHE_MAX_BATCH_BYTES :: nat where
  "CACHE_MAX_BATCH_BYTES = 2 * 1024 * 1024"

text \<open>Code units below 256 always encode, so the round trip through UTF-8 is the identity.\<close>

(* models packages/framework/src/cache-policy.ts:8-13 cacheKey *)
definition cacheKey :: "jsv \<Rightarrow> cache_error + string" where
  "cacheKey key = (case key of
     JStr k \<Rightarrow> if k = [] \<or> utf8_length k > CACHE_MAX_KEY_BYTES then Inl CEKey else Inr k
   | _ \<Rightarrow> Inl CEKey)"

(* models packages/framework/src/cache-policy.ts:15-25 cacheExpiry *)
definition cacheExpiry :: "jsv \<Rightarrow> nat \<Rightarrow> cache_error + nat option" where
  "cacheExpiry ttl now = (case ttl of
     JUndef \<Rightarrow> Inr None
   | JNum (NInt t) \<Rightarrow>
       if \<not> safe_int t \<or> t < 0 then Inl CETtl
       else if int now + t > 8640000000000000 then Inl CETtl else Inr (Some (nat (int now + t)))
   | _ \<Rightarrow> Inl CETtl)"

(* models packages/framework/src/cache-policy.ts:31-40 cacheJsonValue *)
definition cacheJsonValue :: "(jsv \<Rightarrow> string option) \<Rightarrow> jsv \<Rightarrow> cache_error + (string \<times> nat) option" where
  "cacheJsonValue stringify value = (if value = JUndef then Inr None
     else (case stringify value of
         None \<Rightarrow> Inl CEValue
       | Some raw \<Rightarrow> if utf8_length raw > CACHE_MAX_VALUE_BYTES then Inl CEValue else Inr (Some (raw, utf8_length raw))))"

(* models packages/framework/src/cache-policy.ts:42-44 cacheJson *)
definition cacheJson :: "(jsv \<Rightarrow> string option) \<Rightarrow> jsv \<Rightarrow> cache_error + string option" where
  "cacheJson stringify value = bindr (cacheJsonValue stringify value) (\<lambda>j. Inr (map_option fst j))"

(* models packages/framework/src/cache-policy.ts:46-51 cacheKeys *)
definition cacheKeys :: "jsv \<Rightarrow> cache_error + string list" where
  "cacheKeys keys = (case keys of
     JArr ks \<Rightarrow> if length ks > CACHE_MAX_BATCH_ENTRIES then Inl CEBatch else mapr cacheKey ks
   | _ \<Rightarrow> Inl CEBatch)"

(* models packages/framework/src/cache-policy.ts:53-53 PreparedCacheEntry *)
record prepared_entry =
  pe_key :: string
  pe_json :: "(string \<times> nat) option"
  pe_expires :: "nat option"
  pe_ttl :: jsv

text \<open>The clock is read once for each entry.\<close>

fun prepare_from :: "(jsv \<Rightarrow> string option) \<Rightarrow> nat \<Rightarrow> jsv list \<Rightarrow> nat list \<Rightarrow> cache_error + prepared_entry list" where
  "prepare_from stringify bytes (entry # entries) (now # nows) = (case entry of
     JObj ps \<Rightarrow>
       if has_key ps ''ttlSeconds'' then Inl CEEntry
       else bindr (cacheKey (jget entry ''key'')) (\<lambda>key.
         bindr (cacheExpiry (jget entry ''ttlMs'') now) (\<lambda>expiresAt.
         bindr (cacheJsonValue stringify (jget entry ''value'')) (\<lambda>json.
         let bytes' = bytes + utf8_length key + (case json of Some (raw, b) \<Rightarrow> b | None \<Rightarrow> 0) + 128 in
         if bytes' > CACHE_MAX_BATCH_BYTES then Inl CEBatchBytes
         else bindr (prepare_from stringify bytes' entries nows) (\<lambda>rest.
           Inr (\<lparr>pe_key = key, pe_json = json, pe_expires = expiresAt, pe_ttl = jget entry ''ttlMs''\<rparr> # rest)))))
   | _ \<Rightarrow> Inl CEEntry)"
| "prepare_from stringify bytes entries nows = Inr []"

(* models packages/framework/src/cache-policy.ts:56-72 prepareCacheEntries *)
definition prepareCacheEntries :: "(jsv \<Rightarrow> string option) \<Rightarrow> jsv \<Rightarrow> nat list \<Rightarrow> cache_error + prepared_entry list" where
  "prepareCacheEntries stringify entries nows = (case entries of
     JArr es \<Rightarrow> if length es > CACHE_MAX_BATCH_ENTRIES then Inl CEBatch else prepare_from stringify 0 es nows
   | _ \<Rightarrow> Inl CEBatch)"

(* models packages/framework/src/cache-policy.ts:74-78 cacheNamespace *)
definition cacheNamespace :: "jsv \<Rightarrow> cache_error + string" where
  "cacheNamespace namespace = (case namespace of
     JStr n \<Rightarrow> if utf8_length n > CACHE_MAX_KEY_BYTES then Inl CENamespace else Inr n | _ \<Rightarrow> Inl CENamespace)"


section \<open>The store\<close>

(* models packages/framework/src/cache.ts:199-207 InMemoryCacheStore *)
record cache_store =
  cs_heap :: cache_heap
  cs_fresh :: nat
  cs_entries :: "(string \<times> nat) list"
  cs_expiry :: expiry_index
  cs_maxEntries :: nat
  cs_maxBytes :: nat
  cs_oldest :: "nat option"
  cs_newest :: "nat option"
  cs_bytes :: int

definition blank_entry :: cache_entry where
  "blank_entry = \<lparr>ce_key = [], ce_raw = [], ce_expires = None, ce_bytes = 0, ce_older = None, ce_newer = None,
     ce_bucket = 0, ce_prev = None, ce_next = None\<rparr>"

definition small_int :: "jnum \<Rightarrow> int \<Rightarrow> bool" where
  "small_int n mx = (case n of NInt i \<Rightarrow> safe_int i \<and> 1 \<le> i \<and> i \<le> mx | NonInt \<Rightarrow> False)"

definition nat_of :: "jnum \<Rightarrow> nat" where
  "nat_of n = (case n of NInt i \<Rightarrow> nat i | NonInt \<Rightarrow> 0)"

(* models packages/framework/src/cache.ts:209-217 constructor *)
definition cache_create :: "jnum \<Rightarrow> jnum \<Rightarrow> cache_error + cache_store" where
  "cache_create maxEntries maxBytes =
     (if \<not> small_int maxEntries 100000 then Inl CEMaxEntries
      else if \<not> small_int maxBytes (64 * 1024 * 1024) then Inl CEMaxBytes
      else Inr \<lparr>cs_heap = (\<lambda>_. blank_entry), cs_fresh = 0, cs_entries = [], cs_expiry = new_index,
        cs_maxEntries = nat_of maxEntries, cs_maxBytes = nat_of maxBytes, cs_oldest = None, cs_newest = None, cs_bytes = 0\<rparr>)"

definition point_newer :: "nat \<Rightarrow> nat option \<Rightarrow> cache_store \<Rightarrow> cache_store" where
  "point_newer r v s = s\<lparr>cs_heap := (cs_heap s)(r := (cs_heap s r)\<lparr>ce_newer := v\<rparr>)\<rparr>"

definition point_older :: "nat \<Rightarrow> nat option \<Rightarrow> cache_store \<Rightarrow> cache_store" where
  "point_older r v s = s\<lparr>cs_heap := (cs_heap s)(r := (cs_heap s r)\<lparr>ce_older := v\<rparr>)\<rparr>"

definition with_index :: "ix_state \<Rightarrow> cache_store \<Rightarrow> cache_store" where
  "with_index hx s = s\<lparr>cs_heap := fst hx, cs_expiry := snd hx\<rparr>"

definition join_older :: "nat \<Rightarrow> cache_store \<Rightarrow> cache_store" where
  "join_older r s = (case ce_older (cs_heap s r) of
     Some p \<Rightarrow> point_newer p (ce_newer (cs_heap s r)) s | None \<Rightarrow> s\<lparr>cs_oldest := ce_newer (cs_heap s r)\<rparr>)"

definition join_newer :: "nat \<Rightarrow> cache_store \<Rightarrow> cache_store" where
  "join_newer r s = (case ce_newer (cs_heap s r) of
     Some n \<Rightarrow> point_older n (ce_older (cs_heap s r)) s | None \<Rightarrow> s\<lparr>cs_newest := ce_older (cs_heap s r)\<rparr>)"

(* models packages/framework/src/cache.ts:268-275 remove *)
definition cache_remove :: "nat \<Rightarrow> cache_store \<Rightarrow> cache_store" where
  "cache_remove r s =
     (let s1 = point_older r None (point_newer r None (join_newer r (join_older r s)));
          s2 = (if ce_expires (cs_heap s1 r) \<noteq> None then with_index (ix_remove r (cs_heap s1, cs_expiry s1)) s1 else s1)
      in s2\<lparr>cs_entries := AList.delete (ce_key (cs_heap s2 r)) (cs_entries s2), cs_bytes := cs_bytes s2 - int (ce_bytes (cs_heap s2 r))\<rparr>)"

(* models packages/framework/src/cache.ts:263-266 removeKey *)
definition cache_removeKey :: "string \<Rightarrow> cache_store \<Rightarrow> cache_store" where
  "cache_removeKey key s = (case map_of (cs_entries s) key of Some r \<Rightarrow> cache_remove r s | None \<Rightarrow> s)"

text \<open>An entry that is not the newest has a newer one, and then there is a newest one.\<close>

(* models packages/framework/src/cache.ts:278-287 touch *)
definition cache_touch :: "nat \<Rightarrow> cache_store \<Rightarrow> cache_store" where
  "cache_touch r s = (if cs_newest s = Some r then s
     else (let s1 = join_older r s;
               s2 = (case ce_newer (cs_heap s1 r) of Some n \<Rightarrow> point_older n (ce_older (cs_heap s1 r)) s1 | None \<Rightarrow> s1);
               s3 = point_newer r None (point_older r (cs_newest s2) s2);
               s4 = (case cs_newest s3 of Some n \<Rightarrow> point_newer n (Some r) s3 | None \<Rightarrow> s3)
           in s4\<lparr>cs_newest := Some r\<rparr>))"

(* models packages/framework/src/cache.ts:289-294 entryBytes *)
definition entryBytes :: "cache_store \<Rightarrow> string \<Rightarrow> (string \<times> nat) option \<Rightarrow> cache_error + nat" where
  "entryBytes s key json = (case json of None \<Rightarrow> Inr 0
     | Some (raw, b) \<Rightarrow> if utf8_length key + b > cs_maxBytes s then Inl CEBudget else Inr (utf8_length key + b))"

(* models packages/framework/src/cache.ts:300-300 write *)
definition cache_full :: "nat \<Rightarrow> cache_store \<Rightarrow> bool" where
  "cache_full bytes s \<longleftrightarrow> length (cs_entries s) \<ge> cs_maxEntries s \<or> cs_bytes s + int bytes > int (cs_maxBytes s)"

text \<open>The loops of \<open>write\<close>: every expired entry, then the oldest ones while there is no room.\<close>

(* models packages/framework/src/cache.ts:302-304 write *)
partial_function (option) drop_all_expired :: "nat \<Rightarrow> cache_store \<Rightarrow> cache_store option" where
  "drop_all_expired now s = Option.bind (ix_expired now (cs_heap s, cs_expiry s)) (\<lambda>(res, hx).
     case res of None \<Rightarrow> Some (with_index hx s) | Some r \<Rightarrow> drop_all_expired now (cache_remove r (with_index hx s)))"

(* models packages/framework/src/cache.ts:305-305 write *)
partial_function (option) evict_oldest :: "nat \<Rightarrow> cache_store \<Rightarrow> cache_store option" where
  "evict_oldest bytes s = (case cs_oldest s of None \<Rightarrow> Some s
     | Some r \<Rightarrow> if cache_full bytes s then evict_oldest bytes (cache_remove r s) else Some s)"

(* models packages/framework/src/cache.ts:307-312 write *)
definition cache_append :: "string \<Rightarrow> string \<Rightarrow> nat option \<Rightarrow> nat \<Rightarrow> nat \<Rightarrow> cache_store \<Rightarrow> cache_store option" where
  "cache_append key raw expiresAt bytes now s =
     (let r = cs_fresh s;
          e = \<lparr>ce_key = key, ce_raw = raw, ce_expires = expiresAt, ce_bytes = bytes, ce_older = cs_newest s, ce_newer = None,
            ce_bucket = 0, ce_prev = None, ce_next = None\<rparr>;
          s1 = s\<lparr>cs_heap := (cs_heap s)(r := e), cs_fresh := Suc r\<rparr>;
          s2 = (case cs_newest s1 of Some n \<Rightarrow> point_newer n (Some r) s1 | None \<Rightarrow> s1\<lparr>cs_oldest := Some r\<rparr>);
          s3 = s2\<lparr>cs_newest := Some r, cs_entries := AList.update key r (cs_entries s2)\<rparr>
      in map_option (\<lambda>s4. s4\<lparr>cs_bytes := cs_bytes s4 + int bytes\<rparr>)
        (case expiresAt of None \<Rightarrow> Some s3
         | Some d \<Rightarrow> map_option (\<lambda>hx. with_index hx s3) (ix_add r now (cs_heap s3, cs_expiry s3))))"

(* models packages/framework/src/cache.ts:316-318 isExpired *)
definition past :: "nat option \<Rightarrow> nat \<Rightarrow> bool" where
  "past expiresAt now = (case expiresAt of Some d \<Rightarrow> d \<le> now | None \<Rightarrow> False)"

(* models packages/framework/src/cache.ts:296-313 write *)
definition cache_write :: "string \<Rightarrow> (string \<times> nat) option \<Rightarrow> nat option \<Rightarrow> nat \<Rightarrow> nat \<Rightarrow> cache_store \<Rightarrow> cache_store option" where
  "cache_write key json expiresAt bytes now s =
     (let s1 = cache_removeKey key s in
      case json of None \<Rightarrow> Some s1
      | Some (raw, b) \<Rightarrow>
          if past expiresAt now then Some s1
          else Option.bind (if cache_full bytes s1 then Option.bind (drop_all_expired now s1) (evict_oldest bytes) else Some s1)
            (cache_append key raw expiresAt bytes now))"

(* models packages/framework/src/cache.ts:219-229 get *)
definition cache_get :: "(string \<Rightarrow> jsv option) \<Rightarrow> jsv \<Rightarrow> nat \<Rightarrow> cache_store \<Rightarrow> (cache_error + jsv) \<times> cache_store" where
  "cache_get parse key now s = (case cacheKey key of Inl e \<Rightarrow> (Inl e, s)
     | Inr k \<Rightarrow> (case map_of (cs_entries s) k of None \<Rightarrow> (Inr JUndef, s)
       | Some r \<Rightarrow> if past (ce_expires (cs_heap s r)) now then (Inr JUndef, cache_remove r s)
           else (case parse (ce_raw (cs_heap s r)) of Some v \<Rightarrow> (Inr v, cache_touch r s) | None \<Rightarrow> (Inr JUndef, cache_remove r s))))"

(* models packages/framework/src/cache.ts:242-242 has *)
definition cache_has :: "(string \<Rightarrow> jsv option) \<Rightarrow> jsv \<Rightarrow> nat \<Rightarrow> cache_store \<Rightarrow> (cache_error + bool) \<times> cache_store" where
  "cache_has parse key now s = (case cache_get parse key now s of (r, s') \<Rightarrow> (bindr r (\<lambda>v. Inr (v \<noteq> JUndef)), s'))"

(* models packages/framework/src/cache.ts:243-243 delete *)
definition cache_delete :: "jsv \<Rightarrow> cache_store \<Rightarrow> (cache_error + unit) \<times> cache_store" where
  "cache_delete key s = (case cacheKey key of Inl e \<Rightarrow> (Inl e, s) | Inr k \<Rightarrow> (Inr (), cache_removeKey k s))"

(* models packages/framework/src/cache.ts:244-247 flush *)
definition cache_flush :: "cache_store \<Rightarrow> cache_store" where
  "cache_flush s = s\<lparr>cs_entries := [], cs_expiry := ix_clear (cs_expiry s), cs_oldest := None, cs_newest := None, cs_bytes := 0\<rparr>"

text \<open>The clock is read for the deadline and again when the entry is written.\<close>

(* models packages/framework/src/cache.ts:238-240 writeJson *)
definition cache_writeJson :: "string \<Rightarrow> (string \<times> nat) option \<Rightarrow> jsv \<Rightarrow> nat \<Rightarrow> nat \<Rightarrow> cache_store \<Rightarrow> ((cache_error + unit) \<times> cache_store) option" where
  "cache_writeJson key json ttl t0 t1 s =
     (case bindr (cacheExpiry ttl t0) (\<lambda>ex. bindr (entryBytes s key json) (\<lambda>b. Inr (ex, b))) of
        Inl e \<Rightarrow> Some (Inl e, s)
      | Inr (ex, b) \<Rightarrow> map_option (Pair (Inr ())) (cache_write key json ex b t1 s))"

(* models packages/framework/src/cache.ts:231-236 set *)
definition cache_set :: "(jsv \<Rightarrow> string option) \<Rightarrow> jsv \<Rightarrow> jsv \<Rightarrow> jsv \<Rightarrow> nat \<Rightarrow> nat \<Rightarrow> cache_store \<Rightarrow> ((cache_error + unit) \<times> cache_store) option" where
  "cache_set stringify key value ttl t0 t1 s =
     (case bindr (cacheKey key) (\<lambda>k. bindr (cacheExpiry ttl t0) (\<lambda>ex. bindr (cacheJsonValue stringify value) (\<lambda>json.
         bindr (entryBytes s k json) (\<lambda>b. Inr (k, ex, json, b))))) of
        Inl e \<Rightarrow> Some (Inl e, s)
      | Inr (k, ex, json, b) \<Rightarrow> map_option (Pair (Inr ())) (cache_write k json ex b t1 s))"

fun get_each :: "(string \<Rightarrow> jsv option) \<Rightarrow> string list \<Rightarrow> nat list \<Rightarrow> cache_store \<Rightarrow> jsv list \<times> cache_store" where
  "get_each parse (k # ks) (now # nows) s = (case cache_get parse (JStr k) now s of (r, s1) \<Rightarrow>
     (case get_each parse ks nows s1 of (vs, s2) \<Rightarrow> ((case r of Inr v \<Rightarrow> v | Inl e \<Rightarrow> JUndef) # vs, s2)))"
| "get_each parse ks nows s = ([], s)"

(* models packages/framework/src/cache.ts:248-250 getMany *)
definition cache_getMany :: "(string \<Rightarrow> jsv option) \<Rightarrow> jsv \<Rightarrow> nat list \<Rightarrow> cache_store \<Rightarrow> (cache_error + jsv list) \<times> cache_store" where
  "cache_getMany parse keys nows s = (case cacheKeys keys of Inl e \<Rightarrow> (Inl e, s)
     | Inr ks \<Rightarrow> (case get_each parse ks nows s of (vs, s') \<Rightarrow> (Inr vs, s')))"

fun write_each :: "(prepared_entry \<times> nat) list \<Rightarrow> nat list \<Rightarrow> cache_store \<Rightarrow> cache_store option" where
  "write_each ((p, b) # ps) (now # nows) s =
     Option.bind (cache_write (pe_key p) (pe_json p) (pe_expires p) b now s) (write_each ps nows)"
| "write_each ps nows s = Some s"

(* models packages/framework/src/cache.ts:254-258 writeManyJson *)
definition cache_writeMany :: "prepared_entry list \<Rightarrow> nat list \<Rightarrow> cache_store \<Rightarrow> ((cache_error + unit) \<times> cache_store) option" where
  "cache_writeMany prepared nows s = (case mapr (\<lambda>p. entryBytes s (pe_key p) (pe_json p)) prepared of
     Inl e \<Rightarrow> Some (Inl e, s)
   | Inr sizes \<Rightarrow> map_option (Pair (Inr ())) (write_each (zip prepared sizes) nows s))"

(* models packages/framework/src/cache.ts:251-253 setMany *)
definition cache_setMany :: "(jsv \<Rightarrow> string option) \<Rightarrow> jsv \<Rightarrow> nat list \<Rightarrow> nat list \<Rightarrow> cache_store \<Rightarrow> ((cache_error + unit) \<times> cache_store) option" where
  "cache_setMany stringify entries t0s t1s s = (case prepareCacheEntries stringify entries t0s of
     Inl e \<Rightarrow> Some (Inl e, s) | Inr ps \<Rightarrow> cache_writeMany ps t1s s)"

(* models packages/framework/src/cache.ts:259-261 deleteMany *)
definition cache_deleteMany :: "jsv \<Rightarrow> cache_store \<Rightarrow> (cache_error + unit) \<times> cache_store" where
  "cache_deleteMany keys s = (case cacheKeys keys of Inl e \<Rightarrow> (Inl e, s) | Inr ks \<Rightarrow> (Inr (), fold cache_removeKey ks s))"

end
