(* ===== verification/Expiry_Facts.thy ===== *)
theory Expiry_Facts
  imports Expiry_Index
begin

text \<open>
  The radix heap is right: whatever was added and removed, looking for an expired entry ends, finds one
  whenever there is one, and changes nothing that can be observed.
\<close>

section \<open>Representation\<close>

text \<open>What the index does not touch.\<close>

definition core :: "cache_entry \<Rightarrow> string \<times> string \<times> nat option \<times> nat \<times> nat option \<times> nat option" where
  "core e = (ce_key e, ce_raw e, ce_expires e, ce_bytes e, ce_older e, ce_newer e)"

lemma core_deadline: "core e = core e' \<Longrightarrow> deadline e = deadline e'"
  by (simp add: core_def deadline_def)

definition MAX_TIME :: nat where
  "MAX_TIME = 2 ^ 53"

lemma max_time_64: "d < MAX_TIME \<Longrightarrow> d < 2 ^ 64"
  by (simp add: MAX_TIME_def)

definition placed :: "nat \<Rightarrow> cache_entry \<Rightarrow> nat \<Rightarrow> bool" where
  "placed f e b \<longleftrightarrow> f \<le> deadline e \<and> deadline e < MAX_TIME \<and> expiryBucket (deadline e) f = b"

definition ix_lists :: "ix_state \<Rightarrow> (nat \<Rightarrow> nat list) \<Rightarrow> bool" where
  "ix_lists hx L \<longleftrightarrow> (case hx of (h, x) \<Rightarrow> length (ei_buckets x) = EXPIRY_BUCKETS \<and> ei_floor x < MAX_TIME \<and>
     (\<forall>b < EXPIRY_BUCKETS. ei_buckets x ! b = hd_or (L b) None \<and> distinct (L b) \<and>
        dlinks (\<lambda>r. ce_prev (h r)) (\<lambda>r. ce_next (h r)) None (L b) None \<and>
        (\<forall>r \<in> set (L b). ce_bucket (h r) = b \<and> placed (ei_floor x) (h r) b)))"

definition members :: "(nat \<Rightarrow> nat list) \<Rightarrow> nat set" where
  "members L = (\<Union>b < EXPIRY_BUCKETS. set (L b))"

definition ix_rep :: "ix_state \<Rightarrow> nat set \<Rightarrow> bool" where
  "ix_rep hx M \<longleftrightarrow> (\<exists>L. ix_lists hx L \<and> members L = M) \<and> ei_size (snd hx) = card M"

lemma lists_at:
  assumes "ix_lists (h, x) L" "b < EXPIRY_BUCKETS"
  shows "ei_buckets x ! b = hd_or (L b) None" "distinct (L b)" "dlinks (\<lambda>r. ce_prev (h r)) (\<lambda>r. ce_next (h r)) None (L b) None"
    "r \<in> set (L b) \<Longrightarrow> ce_bucket (h r) = b \<and> placed (ei_floor x) (h r) b"
  using assms by (auto simp: ix_lists_def)

lemma lists_member:
  assumes "ix_lists (h, x) L" "r \<in> members L"
  shows "r \<in> set (L (ce_bucket (h r)))" "ce_bucket (h r) < EXPIRY_BUCKETS" "ei_floor x \<le> deadline (h r)" "deadline (h r) < MAX_TIME"
    "ce_bucket (h r) = expiryBucket (deadline (h r)) (ei_floor x)"
proof -
  obtain b where b: "b < EXPIRY_BUCKETS" "r \<in> set (L b)" using assms(2) by (auto simp: members_def)
  from lists_at(4) [OF assms(1) b] b show "r \<in> set (L (ce_bucket (h r)))" "ce_bucket (h r) < EXPIRY_BUCKETS"
    "ei_floor x \<le> deadline (h r)" "deadline (h r) < MAX_TIME" "ce_bucket (h r) = expiryBucket (deadline (h r)) (ei_floor x)"
    by (auto simp: placed_def)
qed

lemma finite_members [simp]: "finite (members L)"
  by (simp add: members_def)


section \<open>Linking\<close>

lemma link_heap:
  assumes "ix_link r (h, x) = (h', x')" "ei_buckets x ! expiryBucket (deadline (h r)) (ei_floor x) \<noteq> Some r"
  shows "core (h' j) = core (h j)" "j \<noteq> r \<Longrightarrow> ce_next (h' j) = ce_next (h j)" "j \<noteq> r \<Longrightarrow> ce_bucket (h' j) = ce_bucket (h j)"
    "ce_bucket (h' r) = expiryBucket (deadline (h r)) (ei_floor x)" "ce_prev (h' r) = None"
    "ce_next (h' r) = ei_buckets x ! expiryBucket (deadline (h r)) (ei_floor x)"
    "j \<noteq> r \<Longrightarrow> ce_prev (h' j) = (if ei_buckets x ! expiryBucket (deadline (h r)) (ei_floor x) = Some j then Some r else ce_prev (h j))"
    "x' = x\<lparr>ei_buckets := (ei_buckets x)[expiryBucket (deadline (h r)) (ei_floor x) := Some r]\<rparr>"
  using assms by (auto simp: ix_link_def Let_def core_def split: option.splits)

definition pushed :: "nat \<Rightarrow> nat \<Rightarrow> (nat \<Rightarrow> nat list) \<Rightarrow> nat \<Rightarrow> nat list" where
  "pushed r b L = L(b := r # L b)"

lemma link_lists:
  assumes l: "ix_lists (h, x) L" and r: "r \<notin> members L" "ei_floor x \<le> deadline (h r)" "deadline (h r) < MAX_TIME"
    and lk: "ix_link r (h, x) = (h', x')"
  shows "ix_lists (h', x') (pushed r (expiryBucket (deadline (h r)) (ei_floor x)) L)"
    and "members (pushed r (expiryBucket (deadline (h r)) (ei_floor x)) L) = insert r (members L)"
proof -
  let ?b = "expiryBucket (deadline (h r)) (ei_floor x)"
  let ?L = "pushed r ?b L"
  have fl: "ei_floor x < MAX_TIME" and len: "length (ei_buckets x) = EXPIRY_BUCKETS" using l by (auto simp: ix_lists_def)
  have b: "?b < EXPIRY_BUCKETS" using bucket_bound r(3) fl by (simp add: MAX_TIME_def)
  then show "members ?L = insert r (members L)" by (auto simp: members_def pushed_def split: if_splits)
  have nr: "r \<notin> set (L c)" if "c < EXPIRY_BUCKETS" for c using r(1) that by (auto simp: members_def)
  note at = lists_at [OF l]
  have hd: "ei_buckets x ! ?b = hd_or (L ?b) None" by (rule at(1) [OF b])
  have ne: "ei_buckets x ! ?b \<noteq> Some r" using hd nr [OF b] by (auto dest: hd_or_mem)
  note hp = link_heap [OF lk ne]
  have dl: "deadline (h' j) = deadline (h j)" for j using core_deadline [OF hp(1)] .
  have one: "ei_buckets x' ! c = hd_or (?L c) None \<and> distinct (?L c) \<and>
      dlinks (\<lambda>r. ce_prev (h' r)) (\<lambda>r. ce_next (h' r)) None (?L c) None \<and>
      (\<forall>r \<in> set (?L c). ce_bucket (h' r) = c \<and> placed (ei_floor x') (h' r) c)" if c: "c < EXPIRY_BUCKETS" for c
  proof (cases "c = ?b")
    case True
    have "dlinks (\<lambda>r. ce_prev (h' r)) (\<lambda>r. ce_next (h' r)) None (r # L ?b) None"
    proof (rule dlinks_push [OF at(3) [OF b] at(2) [OF b] nr [OF b]])
      fix j assume "j \<in> set (L ?b)"
      then have "j \<noteq> r" using nr [OF b] by auto
      then show "ce_next (h' j) = ce_next (h j) \<and> ce_prev (h' j) = (if hd_or (L ?b) None = Some j then Some r else ce_prev (h j))"
        using hp(2,7) hd by simp
    qed (use hp hd in simp_all)
    moreover have "ce_bucket (h' j) = ?b \<and> placed (ei_floor x) (h' j) ?b" if "j \<in> set (r # L ?b)" for j
    proof (cases "j = r")
      case True
      then show ?thesis using hp(4) dl r by (simp add: placed_def)
    next
      case False
      then show ?thesis using that at(4) [OF b, of j] hp(3) dl by (simp add: placed_def)
    qed
    ultimately show ?thesis using True at(2) [OF b] nr [OF b] b len hp(8) by (simp add: pushed_def)
  next
    case False
    have ch: "dlinks (\<lambda>r. ce_prev (h' r)) (\<lambda>r. ce_next (h' r)) None (L c) None"
    proof (subst dlinks_cong)
      fix j assume j: "j \<in> set (L c)"
      then have "j \<noteq> r" using nr [OF c] by auto
      moreover have "hd_or (L ?b) None \<noteq> Some j"
        using at(4) [OF b, of j] at(4) [OF c j] False by (auto dest: hd_or_mem)
      ultimately show "ce_prev (h' j) = ce_prev (h j) \<and> ce_next (h' j) = ce_next (h j)" using hp(2,7) hd by simp
    qed (rule at(3) [OF c])
    have "ce_bucket (h' j) = c \<and> placed (ei_floor x) (h' j) c" if "j \<in> set (L c)" for j
    proof -
      have "j \<noteq> r" using nr [OF c] that by auto
      then show ?thesis using at(4) [OF c that] hp(3) dl by (simp add: placed_def)
    qed
    with ch show ?thesis using False at(1,2) [OF c] hp(8) by (auto simp: pushed_def)
  qed
  then show "ix_lists (h', x') ?L" using hp(8) len fl unfolding ix_lists_def by auto
qed

text \<open>Linking several entries.\<close>

lemma fold_link:
  assumes "ix_lists (h, x) L" "distinct rs" "set rs \<inter> members L = {}"
    and "\<And>r. r \<in> set rs \<Longrightarrow> ei_floor x \<le> deadline (h r) \<and> deadline (h r) < MAX_TIME"
    and "fold ix_link rs (h, x) = (h', x')"
  shows "\<exists>L'. ix_lists (h', x') L' \<and> members L' = members L \<union> set rs \<and> (\<forall>j. core (h' j) = core (h j))
    \<and> ei_floor x' = ei_floor x \<and> ei_size x' = ei_size x"
  using assms
proof (induction rs arbitrary: h x L)
  case (Cons r rs)
  obtain h1 x1 where lk: "ix_link r (h, x) = (h1, x1)" by (cases "ix_link r (h, x)")
  let ?L = "pushed r (expiryBucket (deadline (h r)) (ei_floor x)) L"
  have r: "r \<notin> members L" "ei_floor x \<le> deadline (h r)" "deadline (h r) < MAX_TIME" using Cons.prems(3,4) by auto
  note l1 = link_lists [OF Cons.prems(1) r lk]
  have ne: "ei_buckets x ! expiryBucket (deadline (h r)) (ei_floor x) \<noteq> Some r"
  proof -
    have "expiryBucket (deadline (h r)) (ei_floor x) < EXPIRY_BUCKETS"
      using Cons.prems(1) r(3) by (intro bucket_bound) (auto simp: ix_lists_def MAX_TIME_def)
    with lists_at(1) [OF Cons.prems(1) this] r(1) show ?thesis by (auto simp: members_def dest: hd_or_mem)
  qed
  note hp = link_heap [OF lk ne]
  have x1: "ei_floor x1 = ei_floor x" "ei_size x1 = ei_size x" using hp(8) by simp_all
  have "\<exists>L'. ix_lists (h', x') L' \<and> members L' = members ?L \<union> set rs \<and> (\<forall>j. core (h' j) = core (h1 j))
    \<and> ei_floor x' = ei_floor x1 \<and> ei_size x' = ei_size x1"
  proof (rule Cons.IH [OF l1(1)])
    show "set rs \<inter> members ?L = {}" using Cons.prems(2,3) l1(2) by auto
    show "ei_floor x1 \<le> deadline (h1 j) \<and> deadline (h1 j) < MAX_TIME" if "j \<in> set rs" for j
      using Cons.prems(4) [of j] that core_deadline [OF hp(1)] x1 by simp
  qed (use Cons.prems(2,5) lk in simp_all)
  with l1(2) hp(1) x1 show ?case by auto
qed auto

text \<open>Following the pointers while linking visits the list as it was.\<close>

fun follows :: "(nat \<Rightarrow> nat option) \<Rightarrow> nat list \<Rightarrow> bool" where
  "follows nx [] = True"
| "follows nx (r # rs) = (nx r = hd_or rs None \<and> follows nx rs)"

lemma dlinks_follows: "dlinks pv nx p rs None \<Longrightarrow> follows nx rs"
  by (induction rs arbitrary: p) auto

lemma follows_cong: "(\<And>r. r \<in> set rs \<Longrightarrow> nx' r = nx r) \<Longrightarrow> follows nx' rs = follows nx rs"
  by (induction rs) auto

lemma link_next: "j \<noteq> r \<Longrightarrow> ce_next (fst (ix_link r hx) j) = ce_next (fst hx j)"
  by (cases hx) (auto simp: ix_link_def Let_def split: option.splits)

lemma relink_fold:
  assumes "follows (\<lambda>r. ce_next (fst hx r)) rs" "distinct rs"
  shows "ix_relink (hd_or rs None) hx = Some (fold ix_link rs hx)"
  using assms
proof (induction rs arbitrary: hx)
  case Nil
  show ?case by (subst ix_relink.simps) simp
next
  case (Cons r rs)
  have "follows (\<lambda>j. ce_next (fst (ix_link r hx) j)) rs"
  proof (subst follows_cong)
    fix j assume "j \<in> set rs"
    then have "j \<noteq> r" using Cons.prems(2) by auto
    then show "ce_next (fst (ix_link r hx) j) = ce_next (fst hx j)" by (rule link_next)
  qed (use Cons.prems(1) in simp)
  with Cons.IH [of "ix_link r hx"] Cons.prems show ?case
    by (subst ix_relink.simps) (simp add: link_next)
qed

lemma collect_follows: "follows (\<lambda>r. ce_next (h r)) rs \<Longrightarrow> ix_collect h (hd_or rs None) = Some rs"
proof (induction rs)
  case Nil
  show ?case by (subst ix_collect.simps) simp
next
  case (Cons r rs)
  then show ?case by (subst ix_collect.simps) simp
qed

section \<open>Looking for an expired entry\<close>

lemma first_used_le: "first_used bs \<le> length bs"
  by (induction bs rule: first_used.induct) auto

lemma first_used_before: "b < first_used bs \<Longrightarrow> bs ! b = None"
proof (induction bs arbitrary: b rule: first_used.induct)
  case (2 bs)
  then show ?case by (cases b) auto
qed auto

lemma first_used_at: "first_used bs < length bs \<Longrightarrow> bs ! first_used bs \<noteq> None"
  by (induction bs rule: first_used.induct) auto

text \<open>The floor can go up to the lower end of the first bucket in use: only that bucket is split.\<close>

lemma raise_floor:
  assumes l: "ix_lists (h, x) L" and i: "first_used (ei_buckets x) = Suc k" "Suc k < EXPIRY_BUCKETS"
  defines "low \<equiv> bucket_low (ei_floor x) k"
  shows "r \<in> members L \<Longrightarrow> low \<le> deadline (h r)"
    and "ix_lists (h, x\<lparr>ei_floor := low, ei_buckets := (ei_buckets x)[Suc k := None]\<rparr>) (L(Suc k := []))"
    and "r \<in> set (L (Suc k)) \<Longrightarrow> expiryBucket (deadline (h r)) low < Suc k"
    and "r \<in> members L \<Longrightarrow> r \<notin> set (L (Suc k)) \<Longrightarrow> expiryBucket (deadline (h r)) low = expiryBucket (deadline (h r)) (ei_floor x)"
    and "L (Suc k) \<noteq> []" and "members L = members (L(Suc k := [])) \<union> set (L (Suc k))" "set (L (Suc k)) \<inter> members (L(Suc k := [])) = {}"
proof -
  let ?f = "ei_floor x"
  have len: "length (ei_buckets x) = EXPIRY_BUCKETS" and fl: "?f < MAX_TIME" using l by (auto simp: ix_lists_def)
  note at = lists_at [OF l] and mem = lists_member [OF l]
  have empty: "L b = []" if "b < Suc k" for b
  proof -
    have "ei_buckets x ! b = None" using first_used_before [of b "ei_buckets x"] that i by simp
    with at(1) [of b] that i(2) show ?thesis by simp
  qed
  show ne: "L (Suc k) \<noteq> []"
    using first_used_at [of "ei_buckets x"] at(1) [of "Suc k"] i len by auto
  have le: "Suc k \<le> ce_bucket (h r)" if "r \<in> members L" for r
  proof (rule ccontr)
    assume "\<not> Suc k \<le> ce_bucket (h r)"
    with empty [of "ce_bucket (h r)"] mem(1) [OF that] show False by simp
  qed
  have up: "low div 2 ^ b = ?f div 2 ^ b" if kb: "Suc k \<le> b" for b
  proof -
    obtain j where b: "b = Suc k + j" using le_Suc_ex [OF kb] ..
    have "low div 2 ^ Suc k div 2 ^ j = ?f div 2 ^ Suc k div 2 ^ j" unfolding low_def low_div(2) ..
    then show ?thesis unfolding b power_add div_mult2_eq .
  qed
  have low_le: "low \<le> deadline (h r)" and low64: "low < 2 ^ 64" if r: "r \<in> members L" for r
  proof -
    have d: "deadline (h r) < 2 ^ 64" "?f < 2 ^ 64" using max_time_64 mem(4) [OF r] fl by auto
    show le': "low \<le> deadline (h r)"
    proof (cases "ce_bucket (h r) = Suc k")
      case True
      then show ?thesis using bucket_range(2) [OF d mem(3) [OF r]] mem(5) [OF r] by (simp add: low_def)
    next
      case False
      then obtain b where b: "ce_bucket (h r) = Suc b" "Suc k \<le> b" using le [OF r] by (cases "ce_bucket (h r)") auto
      then have "deadline (h r) div 2 ^ b \<noteq> ?f div 2 ^ b" using bucket_eq [OF d, of b] mem(5) [OF r] by simp
      moreover have "?f div 2 ^ b \<le> deadline (h r) div 2 ^ b" using mem(3) [OF r] by (rule div_le_mono)
      ultimately have "low div 2 ^ b < deadline (h r) div 2 ^ b" using up [OF b(2)] by simp
      then have "\<not> deadline (h r) \<le> low" by (meson div_le_mono leD)
      then show ?thesis by simp
    qed
    then show "low < 2 ^ 64" using d(1) by simp
  qed
  then show "r \<in> members L \<Longrightarrow> low \<le> deadline (h r)" for r by blast
  have same: "expiryBucket (deadline (h r)) low = expiryBucket (deadline (h r)) ?f"
    if r: "r \<in> members L" and b: "Suc k < ce_bucket (h r)" for r
  proof -
    have d: "deadline (h r) < 2 ^ 64" "?f < 2 ^ 64" using max_time_64 mem(4) [OF r] fl by auto
    obtain c where c: "ce_bucket (h r) = Suc c" "Suc k \<le> c" using b by (cases "ce_bucket (h r)") auto
    have "expiryBucket (deadline (h r)) low = Suc c"
      using bucket_eq [OF d(1) low64 [OF r], of c] bucket_eq [OF d, of c] mem(5) [OF r] c up [of c] up [of "Suc c"]
      by (simp del: power_Suc)
    with mem(5) [OF r] c show ?thesis by simp
  qed
  show "r \<in> set (L (Suc k)) \<Longrightarrow> expiryBucket (deadline (h r)) low < Suc k" for r
  proof -
    assume r: "r \<in> set (L (Suc k))"
    then have m: "r \<in> members L" using i(2) by (auto simp: members_def)
    have d: "deadline (h r) < 2 ^ 64" "?f < 2 ^ 64" using max_time_64 mem(4) [OF m] fl by auto
    have "expiryBucket (deadline (h r)) ?f = Suc k" using at(4) [OF i(2) r] mem(5) [OF m] by simp
    from bucket_range(1) [OF d mem(3) [OF m] this] have "deadline (h r) div 2 ^ k = low div 2 ^ k" by (simp add: low_def)
    with bucket_le [OF d(1) low64 [OF m], of k] show "expiryBucket (deadline (h r)) low < Suc k" by simp
  qed
  have other: "Suc k < ce_bucket (h r)" if "r \<in> members L" "r \<notin> set (L (Suc k))" for r
    using le [OF that(1)] mem(1) [OF that(1)] that(2) by (cases "ce_bucket (h r) = Suc k") auto
  show "r \<in> members L \<Longrightarrow> r \<notin> set (L (Suc k)) \<Longrightarrow> expiryBucket (deadline (h r)) low = expiryBucket (deadline (h r)) ?f" for r
    using same other by blast
  have lowmax: "low < MAX_TIME"
  proof -
    obtain r where "r \<in> set (L (Suc k))" using ne by (cases "L (Suc k)") auto
    then have "r \<in> members L" using i(2) by (auto simp: members_def)
    from low_le [OF this] mem(4) [OF this] show ?thesis by simp
  qed
  show "ix_lists (h, x\<lparr>ei_floor := low, ei_buckets := (ei_buckets x)[Suc k := None]\<rparr>) (L(Suc k := []))"
  proof -
    have "placed low (h r) b" if "b < EXPIRY_BUCKETS" "b \<noteq> Suc k" "r \<in> set (L b)" for b r
    proof -
      have m: "r \<in> members L" using that by (auto simp: members_def)
      have bk: "ce_bucket (h r) = b" using at(4) [OF that(1,3)] by simp
      then have "Suc k < b" using le [OF m] that(2) by simp
      then show ?thesis using low_le [OF m] mem(4) [OF m] same [OF m] mem(5) [OF m] bk by (simp add: placed_def)
    qed
    then show ?thesis using at i(2) len lowmax unfolding ix_lists_def by (auto simp: nth_list_update)
  qed
  show "members L = members (L(Suc k := [])) \<union> set (L (Suc k))" using i(2) by (auto simp: members_def split: if_splits)
  show "set (L (Suc k)) \<inter> members (L(Suc k := [])) = {}"
  proof -
    have False if "r \<in> set (L (Suc k))" "b < EXPIRY_BUCKETS" "b \<noteq> Suc k" "r \<in> set (L b)" for r b
      using at(4) [OF i(2) that(1)] at(4) [OF that(2,4)] that(3) by simp
    then show ?thesis by (auto simp: members_def split: if_splits)
  qed
qed

text \<open>What looking for an expired entry does: it ends, keeps the entries and what they hold, and answers right.\<close>

definition finds :: "nat \<Rightarrow> cache_heap \<Rightarrow> nat set \<Rightarrow> nat option \<Rightarrow> bool" where
  "finds now h M res \<longleftrightarrow> (case res of None \<Rightarrow> \<forall>r\<in>M. now < deadline (h r) | Some r \<Rightarrow> r \<in> M \<and> deadline (h r) \<le> now)"

lemma finds_core: "(\<And>j. core (h' j) = core (h j)) \<Longrightarrow> finds now h' M res = finds now h M res"
proof -
  assume "\<And>j. core (h' j) = core (h j)"
  then have "deadline (h' j) = deadline (h j)" for j by (rule core_deadline)
  then show ?thesis by (simp add: finds_def split: option.split)
qed

lemma sum_less:
  assumes "finite M" "\<And>r. r \<in> M \<Longrightarrow> f r \<le> (g r :: nat)" "r \<in> M" "f r < g r"
  shows "sum f M < sum g M"
  by (rule sum_strict_mono_ex1) (use assms in auto)

lemma expired_lists:
  assumes "ix_lists (h, x) L"
  shows "\<exists>res h' x' L'. ix_expired now (h, x) = Some (res, h', x') \<and> ix_lists (h', x') L' \<and> members L' = members L
    \<and> (\<forall>j. core (h' j) = core (h j)) \<and> ei_size x' = ei_size x \<and> finds now h (members L) res"
  using assms
proof (induction "\<Sum>r\<in>members L. expiryBucket (deadline (h r)) (ei_floor x)" arbitrary: h x L rule: less_induct)
  case less
  note l = less.prems and at = lists_at [OF less.prems] and mem = lists_member [OF less.prems]
  let ?i = "first_used (ei_buckets x)"
  have len: "length (ei_buckets x) = EXPIRY_BUCKETS" using l by (auto simp: ix_lists_def)
  have none: ?case if "\<And>r. r \<in> members L \<Longrightarrow> now < deadline (h r)" "ix_expired now (h, x) = Some (None, h, x)"
    using l that by (intro exI [of _ None] exI [of _ h] exI [of _ x] exI [of _ L]) (simp add: finds_def)
  have some: ?case if "r \<in> members L" "deadline (h r) \<le> now" "ix_expired now (h, x) = Some (Some r, h, x)" for r
    using l that by (intro exI [of _ "Some r"] exI [of _ h] exI [of _ x] exI [of _ L]) (simp add: finds_def)
  have eq: "ix_expired now (h, x) = (if ?i = EXPIRY_BUCKETS \<or> now < ei_floor x then Some (None, h, x)
      else if ?i = 0 then Some (ei_buckets x ! 0, h, x)
      else (let span = 2 ^ (?i - 1); low = ei_floor x - ei_floor x mod (2 * span) + span in
        if now < low then Some (None, h, x)
        else if low + span - 1 \<le> now then Some (ei_buckets x ! ?i, h, x)
        else Option.bind (ix_relink (ei_buckets x ! ?i) (h, x\<lparr>ei_floor := low, ei_buckets := (ei_buckets x)[?i := None]\<rparr>))
          (\<lambda>hx'. ix_expired now hx')))"
    by (subst ix_expired.simps) (simp add: Let_def)
  consider "?i = EXPIRY_BUCKETS" | "?i < EXPIRY_BUCKETS" "now < ei_floor x" | "?i = 0" "\<not> now < ei_floor x"
    | k where "?i = Suc k" "Suc k < EXPIRY_BUCKETS" "\<not> now < ei_floor x"
    using first_used_le [of "ei_buckets x"] len by (cases ?i) (auto simp: le_less)
  then show ?case
  proof cases
    case 1
    have "L b = []" if "b < EXPIRY_BUCKETS" for b
      using first_used_before [of b "ei_buckets x"] at(1) [OF that] that 1 by simp
    then have "members L = {}" by (simp add: members_def)
    with 1 show ?thesis by (intro none) (simp_all add: eq)
  next
    case 2
    then show ?thesis using mem(3) by (intro none) (auto simp: eq intro: less_le_trans)
  next
    case 3
    have z: "0 < EXPIRY_BUCKETS" by (simp add: EXPIRY_BUCKETS_def)
    have "L 0 \<noteq> []" using first_used_at [of "ei_buckets x"] at(1) [OF z] 3 len z by auto
    then obtain r rs where L0: "L 0 = r # rs" by (cases "L 0") auto
    have r0: "r \<in> members L" using L0 z unfolding members_def by (intro UN_I [of 0]) auto
    moreover have "deadline (h r) = ei_floor x"
    proof -
      have "expiryBucket (deadline (h r)) (ei_floor x) = 0" using at(4) [OF z, of r] L0 by (simp add: placed_def)
      moreover have "ei_floor x < MAX_TIME" using l by (simp add: ix_lists_def)
      ultimately show ?thesis using bucket_0 [OF max_time_64 max_time_64] mem(4) [OF r0] by simp
    qed
    ultimately show ?thesis using 3 at(1) [OF z] L0 z by (intro some [of r]) (simp_all add: eq)
  next
    case (4 k)
    let ?low = "bucket_low (ei_floor x) k"
    note rf = raise_floor [OF l 4(1,2)]
    have eqk: "ix_expired now (h, x) = (if now < ?low then Some (None, h, x)
        else if ?low + 2 ^ k - 1 \<le> now then Some (ei_buckets x ! Suc k, h, x)
        else Option.bind (ix_relink (ei_buckets x ! Suc k) (h, x\<lparr>ei_floor := ?low, ei_buckets := (ei_buckets x)[Suc k := None]\<rparr>))
          (\<lambda>hx'. ix_expired now hx'))"
      using 4 by (simp add: eq Let_def bucket_low_def)
    obtain r rs where Lk: "L (Suc k) = r # rs" using rf(5) by (cases "L (Suc k)") auto
    have r: "r \<in> members L" using Lk 4(2) by (force simp: members_def)
    have hd: "ei_buckets x ! Suc k = Some r" using at(1) [OF 4(2)] Lk by simp
    show ?thesis
    proof (cases "now < ?low \<or> ?low + 2 ^ k - 1 \<le> now")
      case True
      show ?thesis
      proof (cases "now < ?low")
        case lo: True
        then show ?thesis using rf(1) by (intro none) (auto simp: eqk intro: less_le_trans)
      next
        case False
        have "ei_floor x < MAX_TIME" using l by (simp add: ix_lists_def)
        note d = max_time_64 [OF mem(4) [OF r]] max_time_64 [OF this]
        have "expiryBucket (deadline (h r)) (ei_floor x) = Suc k" using at(4) [OF 4(2), of r] Lk by (simp add: placed_def)
        from bucket_range(3) [OF d mem(3) [OF r] this] have "deadline (h r) \<le> now" using False True by linarith
        with False True r hd show ?thesis by (intro some [of r]) (simp_all add: eqk)
      qed
    next
      case False
      let ?x1 = "x\<lparr>ei_floor := ?low, ei_buckets := (ei_buckets x)[Suc k := None]\<rparr>"
      obtain h2 x2 where f: "fold ix_link (L (Suc k)) (h, ?x1) = (h2, x2)" by (cases "fold ix_link (L (Suc k)) (h, ?x1)")
      have "follows (\<lambda>r. ce_next (fst (h, ?x1) r)) (L (Suc k))" using dlinks_follows [OF at(3) [OF 4(2)]] by simp
      from relink_fold [OF this at(2) [OF 4(2)]] have rl: "ix_relink (ei_buckets x ! Suc k) (h, ?x1) = Some (h2, x2)"
        by (simp add: f at(1) [OF 4(2), symmetric])
      have "ei_floor ?x1 \<le> deadline (h j) \<and> deadline (h j) < MAX_TIME" if "j \<in> set (L (Suc k))" for j
      proof -
        have "j \<in> members L" using that 4(2) by (auto simp: members_def)
        then show ?thesis using rf(1) mem(4) by simp
      qed
      from fold_link [OF rf(2) at(2) [OF 4(2)] rf(7) this f] obtain L2 where L2: "ix_lists (h2, x2) L2" "members L2 = members L"
        "\<And>j. core (h2 j) = core (h j)" "ei_floor x2 = ?low" "ei_size x2 = ei_size x"
        using rf(6) by auto
      have dl: "deadline (h2 j) = deadline (h j)" for j by (rule core_deadline [OF L2(3)])
      have "(\<Sum>r\<in>members L2. expiryBucket (deadline (h2 r)) (ei_floor x2)) < (\<Sum>r\<in>members L. expiryBucket (deadline (h r)) (ei_floor x))"
        unfolding L2(2,4) dl
      proof (rule sum_less [OF _ _ r])
        have rk: "expiryBucket (deadline (h j)) (ei_floor x) = Suc k" if "j \<in> set (L (Suc k))" for j
          using at(4) [OF 4(2) that] by (simp add: placed_def)
        show "expiryBucket (deadline (h j)) ?low \<le> expiryBucket (deadline (h j)) (ei_floor x)" if "j \<in> members L" for j
          using rf(3,4) [of j] rk [of j] that by (cases "j \<in> set (L (Suc k))") auto
        show "expiryBucket (deadline (h r)) ?low < expiryBucket (deadline (h r)) (ei_floor x)"
          using rf(3) [of r] rk [of r] Lk by simp
      qed simp
      from less.hyps [OF this L2(1)] obtain res h' x' L' where R: "ix_expired now (h2, x2) = Some (res, h', x')" "ix_lists (h', x') L'"
        "members L' = members L2" "\<forall>j. core (h' j) = core (h2 j)" "ei_size x' = ei_size x2" "finds now h2 (members L2) res" by blast
      have "finds now h (members L) res" using R(6) finds_core [of h2 h now "members L" res] L2(2,3) by simp
      moreover have "ix_expired now (h, x) = Some (res, h', x')" using False rl R(1) by (simp add: eqk)
      ultimately show ?thesis using R L2 by (intro exI [of _ res] exI [of _ h'] exI [of _ x'] exI [of _ L']) simp
    qed
  qed
qed

lemma expired_rep:
  assumes "ix_rep (h, x) M"
  shows "\<exists>res h' x'. ix_expired now (h, x) = Some (res, h', x') \<and> ix_rep (h', x') M
    \<and> (\<forall>j. core (h' j) = core (h j)) \<and> finds now h M res"
proof -
  obtain L where L: "ix_lists (h, x) L" "members L = M" "ei_size x = card M" using assms by (auto simp: ix_rep_def)
  from expired_lists [OF L(1), of now] L(2,3) show ?thesis unfolding ix_rep_def by fastforce
qed


section \<open>Adding and removing\<close>

lemma remove_heap:
  assumes "ix_remove r (h, x) = (h', x')" "ce_prev (h r) \<noteq> Some r" "ce_next (h r) \<noteq> Some r"
  shows "core (h' j) = core (h j)" "ce_bucket (h' j) = ce_bucket (h j)"
    "j \<noteq> r \<Longrightarrow> ce_prev (h' j) = (if ce_next (h r) = Some j then ce_prev (h r) else ce_prev (h j))"
    "j \<noteq> r \<Longrightarrow> ce_next (h' j) = (if ce_prev (h r) = Some j then ce_next (h r) else ce_next (h j))"
    "x' = x\<lparr>ei_buckets := (if ce_prev (h r) = None then (ei_buckets x)[ce_bucket (h r) := ce_next (h r)] else ei_buckets x),
       ei_size := ei_size x - 1\<rparr>"
  using assms by (auto simp: ix_remove_def Let_def core_def split: option.splits)

lemma remove_lists:
  assumes l: "ix_lists (h, x) L" and r: "r \<in> members L" and rm: "ix_remove r (h, x) = (h', x')"
  shows "ix_lists (h', x') (L(ce_bucket (h r) := remove1 r (L (ce_bucket (h r)))))"
    "members (L(ce_bucket (h r) := remove1 r (L (ce_bucket (h r))))) = members L - {r}" "core (h' j) = core (h j)"
proof -
  let ?b = "ce_bucket (h r)"
  note at = lists_at [OF l] and mem = lists_member [OF l]
  have len: "length (ei_buckets x) = EXPIRY_BUCKETS" and fl: "ei_floor x < MAX_TIME" using l by (auto simp: ix_lists_def)
  have b: "?b < EXPIRY_BUCKETS" by (rule mem(2) [OF r])
  obtain ys zs where Lb: "L ?b = ys @ r # zs" using mem(1) [OF r] by (meson split_list)
  have d: "distinct (ys @ r # zs)" using at(2) [OF b] Lb by simp
  have ends: "ce_prev (h r) = last_or None ys" "ce_next (h r) = hd_or zs None"
    using at(3) [OF b] Lb by (auto simp: dlinks_append)
  have ne: "ce_prev (h r) \<noteq> Some r" "ce_next (h r) \<noteq> Some r" using d ends by (auto dest: hd_or_mem last_or_mem)
  note hp = remove_heap [OF rm ne]
  show "core (h' j) = core (h j)" for j by (rule hp(1))
  have dl: "deadline (h' j) = deadline (h j)" for j by (rule core_deadline [OF hp(1)])
  have rem: "remove1 r (L ?b) = ys @ zs" using d Lb by (simp add: remove1_append)
  have own: "r \<notin> set (L c)" if "c < EXPIRY_BUCKETS" "c \<noteq> ?b" for c using at(4) [OF that(1), of r] that(2) by auto
  have "set (ys @ zs) = set (L ?b) - {r}" using d Lb by auto
  then show "members (L(?b := remove1 r (L ?b))) = members L - {r}"
    using own b unfolding rem members_def by (auto split: if_splits)
  have one: "ei_buckets x' ! c = hd_or ((L(?b := remove1 r (L ?b))) c) None \<and> distinct ((L(?b := remove1 r (L ?b))) c) \<and>
      dlinks (\<lambda>r. ce_prev (h' r)) (\<lambda>r. ce_next (h' r)) None ((L(?b := remove1 r (L ?b))) c) None \<and>
      (\<forall>j \<in> set ((L(?b := remove1 r (L ?b))) c). ce_bucket (h' j) = c \<and> placed (ei_floor x') (h' j) c)" if c: "c < EXPIRY_BUCKETS" for c
  proof (cases "c = ?b")
    case True
    have "dlinks (\<lambda>r. ce_prev (h' r)) (\<lambda>r. ce_next (h' r)) None (ys @ zs) None"
    proof (rule dlinks_remove [OF at(3) [OF b, unfolded Lb] d])
      fix j assume "j \<in> set (ys @ zs)"
      then have "j \<noteq> r" using d by auto
      then show "ce_prev (h' j) = (if ce_next (h r) = Some j then ce_prev (h r) else ce_prev (h j))"
        "ce_next (h' j) = (if ce_prev (h r) = Some j then ce_next (h r) else ce_next (h j))" by (rule hp(3), rule hp(4))
    qed
    moreover have "ei_buckets x' ! ?b = hd_or (ys @ zs) None"
      using hp(5) ends at(1) [OF b] Lb b len by (cases ys) (auto simp: last_or_def)
    moreover have "ce_bucket (h' j) = ?b \<and> placed (ei_floor x) (h' j) ?b" if "j \<in> set (ys @ zs)" for j
      using at(4) [OF b, of j] that Lb hp(2) dl by (auto simp: placed_def)
    ultimately show ?thesis using True d rem hp(5) by simp
  next
    case False
    have nj: "j \<noteq> r \<and> ce_next (h r) \<noteq> Some j \<and> ce_prev (h r) \<noteq> Some j" if "j \<in> set (L c)" for j
    proof -
      have "j \<notin> set (L ?b)" using at(4) [OF c that] at(4) [OF b, of j] False by auto
      then show ?thesis using Lb ends by (auto dest: hd_or_mem last_or_mem)
    qed
    then have "dlinks (\<lambda>r. ce_prev (h' r)) (\<lambda>r. ce_next (h' r)) None (L c) None"
      using at(3) [OF c] by (subst dlinks_cong) (use hp(3,4) in auto)
    moreover have "ce_bucket (h' j) = c \<and> placed (ei_floor x) (h' j) c" if "j \<in> set (L c)" for j
      using at(4) [OF c that] hp(2) dl by (simp add: placed_def)
    moreover have "ei_buckets x' ! c = ei_buckets x ! c" using hp(5) False by simp
    ultimately show ?thesis using False at(1,2) [OF c] hp(5) by simp
  qed
  have "ei_floor x' = ei_floor x" "length (ei_buckets x') = EXPIRY_BUCKETS" using hp(5) len by auto
  with one fl show "ix_lists (h', x') (L(?b := remove1 r (L ?b)))" unfolding ix_lists_def by auto
qed

lemma ix_remove_rep:
  assumes "ix_rep (h, x) M" "r \<in> M" "ix_remove r (h, x) = (h', x')"
  shows "ix_rep (h', x') (M - {r})" "core (h' j) = core (h j)"
proof -
  obtain L where L: "ix_lists (h, x) L" "members L = M" "ei_size x = card M" using assms(1) by (auto simp: ix_rep_def)
  note rl = remove_lists [OF L(1) _ assms(3), unfolded L(2), OF assms(2)]
  have "finite M" using L(2) finite_members [of L] by simp
  moreover have "ei_size x' = ei_size x - 1" using assms(3) by (auto simp: ix_remove_def Let_def)
  ultimately show "ix_rep (h', x') (M - {r})" using rl(1,2) L(3) assms(2) unfolding ix_rep_def by auto
  show "core (h' j) = core (h j)" by (rule rl(3))
qed

lemma empty_lists: "f < MAX_TIME \<Longrightarrow> ei_buckets x = replicate EXPIRY_BUCKETS None \<Longrightarrow> ei_floor x = f \<Longrightarrow> ix_lists (h, x) (\<lambda>b. [])"
  by (simp add: ix_lists_def)

lemma empty_members [simp]: "members (\<lambda>b. []) = {}"
  by (simp add: members_def)

lemma clear_rep: "ix_rep (h, x) M \<Longrightarrow> ix_rep (h', ix_clear x) {}"
proof -
  assume "ix_rep (h, x) M"
  then have "ei_floor (ix_clear x) < MAX_TIME" by (auto simp: ix_rep_def ix_lists_def ix_clear_def)
  from empty_lists [OF this _ refl, of h'] show ?thesis
    unfolding ix_rep_def by (intro conjI exI [of _ "\<lambda>b. []"]) (simp_all add: ix_clear_def)
qed

lemma new_rep: "ix_rep (h, new_index) {}"
proof -
  have "ei_floor new_index < MAX_TIME" by (simp add: new_index_def MAX_TIME_def)
  from empty_lists [OF this _ refl, of h] show ?thesis
    unfolding ix_rep_def by (intro conjI exI [of _ "\<lambda>b. []"]) (simp_all add: new_index_def)
qed

lemma collect_lists:
  assumes "ix_lists (h, x) L"
  shows "collect_buckets h (ei_buckets x) = Some (concat (map L [0..<EXPIRY_BUCKETS]))"
proof -
  have len: "length (ei_buckets x) = EXPIRY_BUCKETS" using assms by (simp add: ix_lists_def)
  have "collect_buckets h (drop b (ei_buckets x)) = Some (concat (map L [b..<EXPIRY_BUCKETS]))" if "b \<le> EXPIRY_BUCKETS" for b
    using that
  proof (induction "EXPIRY_BUCKETS - b" arbitrary: b)
    case 0
    then show ?case using len by simp
  next
    case (Suc n)
    then have b: "b < EXPIRY_BUCKETS" by simp
    have "ix_collect h (ei_buckets x ! b) = Some (L b)"
      using collect_follows [of h "L b"] dlinks_follows [OF lists_at(3) [OF assms b]] lists_at(1) [OF assms b] by simp
    moreover have "drop b (ei_buckets x) = ei_buckets x ! b # drop (Suc b) (ei_buckets x)" using b len by (simp add: Cons_nth_drop_Suc)
    moreover have "collect_buckets h (drop (Suc b) (ei_buckets x)) = Some (concat (map L [Suc b..<EXPIRY_BUCKETS]))"
      using Suc(1) [of "Suc b"] Suc(2) b by simp
    ultimately show ?case using b by (simp add: upt_conv_Cons)
  qed
  from this [of 0] show ?thesis by simp
qed

lemma lists_distinct:
  assumes "ix_lists (h, x) L"
  shows "distinct (concat (map L [0..<EXPIRY_BUCKETS]))"
proof -
  have "distinct (concat (map L [0..<n]))" if "n \<le> EXPIRY_BUCKETS" for n
    using that
  proof (induction n)
    case (Suc n)
    have "j \<notin> set (L b)" if "b < n" "j \<in> set (L n)" for b j
      using lists_at(4) [OF assms, of n j] lists_at(4) [OF assms, of b j] that Suc(2) by auto
    with Suc lists_at(2) [OF assms, of n] show ?case by auto
  qed simp
  then show ?thesis by blast
qed

lemma fold_min: "fold (\<lambda>r m. min m (g r)) rs (a :: nat) \<le> a" "r \<in> set rs \<Longrightarrow> fold (\<lambda>r m. min m (g r)) rs a \<le> g r"
proof (induction rs arbitrary: a)
  case (Cons s rs)
  {
    case 1
    show ?case using Cons(1) [of "min a (g s)"] by simp
  next
    case 2
    then show ?case using Cons(1,2) [of "min a (g s)"] by (auto intro: le_trans)
  }
qed simp_all

lemma add_rep:
  assumes rep: "ix_rep (h, x) M" and r: "r \<notin> M" and d: "now < deadline (h r)" "deadline (h r) < MAX_TIME"
  shows "\<exists>h' x'. ix_add r now (h, x) = Some (h', x') \<and> ix_rep (h', x') (insert r M) \<and> (\<forall>j. core (h' j) = core (h j))"
proof -
  obtain L where L: "ix_lists (h, x) L" "members L = M" and sz: "ei_size x = card M" using rep by (auto simp: ix_rep_def)
  have fin: "finite M" using L(2) finite_members [of L] by simp
  let ?base = "if ei_size x = 0 then Some (h, x\<lparr>ei_floor := now\<rparr>)
        else if deadline (h r) < ei_floor x then ix_rebase now (h, x) else Some (h, x)"
  have "\<exists>h1 x1 L1. ?base = Some (h1, x1) \<and> ix_lists (h1, x1) L1 \<and> members L1 = M \<and> (\<forall>j. core (h1 j) = core (h j))
      \<and> ei_floor x1 \<le> deadline (h r) \<and> ei_size x1 = ei_size x"
  proof -
    consider "ei_size x = 0" | "ei_size x \<noteq> 0" "deadline (h r) < ei_floor x" | "ei_size x \<noteq> 0" "\<not> deadline (h r) < ei_floor x" by blast
    then show ?thesis
    proof cases
      case 1
      then have "M = {}" using sz fin by simp
      then have "L b = []" if "b < EXPIRY_BUCKETS" for b using L(2) that by (auto simp: members_def)
      then have "ix_lists (h, x\<lparr>ei_floor := now\<rparr>) L" using L(1) d by (auto simp: ix_lists_def)
      with 1 L d show ?thesis by (intro exI [of _ h] exI [of _ "x\<lparr>ei_floor := now\<rparr>"] exI [of _ L]) simp
    next
      case 2
      let ?rs = "concat (map L [0..<EXPIRY_BUCKETS])"
      let ?f = "fold (\<lambda>r m. min m (deadline (h r))) ?rs now"
      let ?x1 = "x\<lparr>ei_buckets := replicate EXPIRY_BUCKETS None, ei_floor := ?f\<rparr>"
      have f: "?f \<le> now" by (rule fold_min)
      have M: "set ?rs = M" unfolding L(2) [symmetric] by (auto simp: members_def)
      obtain h1 x1 where fo: "fold ix_link ?rs (h, ?x1) = (h1, x1)" by (cases "fold ix_link ?rs (h, ?x1)")
      have "ix_lists (h, ?x1) (\<lambda>b. [])" by (rule empty_lists [where f = ?f]) (use f d in auto)
      moreover have "ei_floor ?x1 \<le> deadline (h j) \<and> deadline (h j) < MAX_TIME" if "j \<in> set ?rs" for j
      proof -
        have "j \<in> members L" using that unfolding M L(2) .
        then show ?thesis using fold_min(2) [OF that, of "\<lambda>r. deadline (h r)" now] lists_member(4) [OF L(1)] by simp
      qed
      ultimately obtain L1 where L1: "ix_lists (h1, x1) L1" "members L1 = set ?rs" "\<And>j. core (h1 j) = core (h j)"
        "ei_floor x1 = ?f" "ei_size x1 = ei_size x"
        using fold_link [OF _ lists_distinct [OF L(1)] _ _ fo, of "\<lambda>b. []"] by auto
      have "ix_rebase now (h, x) = Some (h1, x1)" using collect_lists [OF L(1)] fo by (simp add: ix_rebase_def)
      moreover have "?f \<le> deadline (h r)" using f d(1) by simp
      ultimately show ?thesis using 2 L1 M by (intro exI [of _ h1] exI [of _ x1] exI [of _ L1]) simp
    next
      case 3
      with L show ?thesis by (intro exI [of _ h] exI [of _ x] exI [of _ L]) simp
    qed
  qed
  then obtain h1 x1 L1 where b: "?base = Some (h1, x1)" "ix_lists (h1, x1) L1" "members L1 = M" "\<And>j. core (h1 j) = core (h j)"
    "ei_floor x1 \<le> deadline (h r)" "ei_size x1 = ei_size x" by blast
  have dl: "deadline (h1 r) = deadline (h r)" by (rule core_deadline [OF b(4)])
  have l2: "ix_lists (h1, x1\<lparr>ei_size := Suc (ei_size x1)\<rparr>) L1" using b(2) by (simp add: ix_lists_def)
  obtain h2 x2 where lk: "fold ix_link [r] (h1, x1\<lparr>ei_size := Suc (ei_size x1)\<rparr>) = (h2, x2)"
    by (cases "fold ix_link [r] (h1, x1\<lparr>ei_size := Suc (ei_size x1)\<rparr>)")
  from fold_link [OF l2 _ _ _ lk] obtain L2 where L2: "ix_lists (h2, x2) L2" "members L2 = insert r M" "\<And>j. core (h2 j) = core (h1 j)"
    "ei_size x2 = Suc (ei_size x1)"
    using r d b dl by auto
  have "ix_add r now (h, x) = Some (h2, x2)" using b(1) lk by (simp add: ix_add_def)
  moreover have "ix_rep (h2, x2) (insert r M)" using L2 b(6) sz r fin unfolding ix_rep_def by auto
  ultimately show ?thesis using L2(3) b(4) by auto
qed

end
