(* ===== verification/Cache_Facts.thy ===== *)
theory Cache_Facts
  imports Cache_Store Expiry_Facts
begin

text \<open>
  The cache against a reference that is a plain list of items, least recently used first: every operation
  ends and does to the list what the reference does, whatever the clock reads.
\<close>

section \<open>Representation\<close>

type_synonym cache_item = "string \<times> string \<times> nat option \<times> nat"

definition cache_item :: "cache_entry \<Rightarrow> cache_item" where
  "cache_item e = (ce_key e, ce_raw e, ce_expires e, ce_bytes e)"

abbreviation item_key :: "cache_item \<Rightarrow> string" where
  "item_key it \<equiv> fst it"

abbreviation item_expires :: "cache_item \<Rightarrow> nat option" where
  "item_expires it \<equiv> fst (snd (snd it))"

abbreviation item_bytes :: "cache_item \<Rightarrow> nat" where
  "item_bytes it \<equiv> snd (snd (snd it))"

lemma item_simps [simp]: "fst (cache_item e) = ce_key e" "fst (snd (cache_item e)) = ce_raw e" "fst (snd (snd (cache_item e))) = ce_expires e"
  "snd (snd (snd (cache_item e))) = ce_bytes e"
  by (simp_all add: cache_item_def)

definition timed :: "cache_store \<Rightarrow> nat list \<Rightarrow> nat set" where
  "timed s xs = {r \<in> set xs. ce_expires (cs_heap s r) \<noteq> None}"

definition cs_rep :: "cache_store \<Rightarrow> nat list \<Rightarrow> bool" where
  "cs_rep s xs \<longleftrightarrow> distinct xs \<and> (\<forall>r\<in>set xs. r < cs_fresh s) \<and>
     dlinks (\<lambda>r. ce_older (cs_heap s r)) (\<lambda>r. ce_newer (cs_heap s r)) None xs None \<and>
     cs_oldest s = hd_or xs None \<and> cs_newest s = last_or None xs \<and>
     distinct (map (\<lambda>r. ce_key (cs_heap s r)) xs) \<and> distinct (map fst (cs_entries s)) \<and>
     set (cs_entries s) = (\<lambda>r. (ce_key (cs_heap s r), r)) ` set xs \<and>
     ix_rep (cs_heap s, cs_expiry s) (timed s xs) \<and> cs_bytes s = int (sum_list (map (\<lambda>r. ce_bytes (cs_heap s r)) xs))"

definition items :: "cache_store \<Rightarrow> nat list \<Rightarrow> cache_item list" where
  "items s xs = map (\<lambda>r. cache_item (cs_heap s r)) xs"

lemma rep_entry:
  assumes "cs_rep s xs"
  shows "map_of (cs_entries s) k = Some r \<longleftrightarrow> r \<in> set xs \<and> ce_key (cs_heap s r) = k"
proof -
  have "map_of (cs_entries s) k = Some r \<longleftrightarrow> (k, r) \<in> set (cs_entries s)" using assms by (simp add: cs_rep_def)
  then show ?thesis using assms by (auto simp: cs_rep_def)
qed

lemma rep_size: "cs_rep s xs \<Longrightarrow> length (cs_entries s) = length xs"
proof -
  assume rep: "cs_rep s xs"
  have "distinct (cs_entries s)" using rep by (auto simp: cs_rep_def distinct_map)
  then have "length (cs_entries s) = card ((\<lambda>r. (ce_key (cs_heap s r), r)) ` set xs)"
    using rep by (metis cs_rep_def distinct_card)
  also have "\<dots> = card (set xs)" by (rule card_image) (auto simp: inj_on_def)
  also have "\<dots> = length xs" using rep by (simp add: cs_rep_def distinct_card)
  finally show ?thesis .
qed

lemma rep_index: "cs_rep s xs \<Longrightarrow> ix_rep (cs_heap s, cs_expiry s) (timed s xs)"
  by (simp add: cs_rep_def)

text \<open>The index sees only its own fields and the deadlines.\<close>

lemma index_frame:
  assumes "ix_rep (h, x) M"
    and "\<And>j. j \<in> M \<Longrightarrow> ce_prev (h' j) = ce_prev (h j) \<and> ce_next (h' j) = ce_next (h j) \<and> ce_bucket (h' j) = ce_bucket (h j) \<and> deadline (h' j) = deadline (h j)"
  shows "ix_rep (h', x) M"
proof -
  obtain L where L: "ix_lists (h, x) L" "members L = M" using assms(1) by (auto simp: ix_rep_def)
  have "ix_lists (h', x) L"
    unfolding ix_lists_def prod.case
  proof (intro conjI allI impI)
    show "length (ei_buckets x) = EXPIRY_BUCKETS" "ei_floor x < MAX_TIME" using L(1) by (auto simp: ix_lists_def)
    fix b assume b: "b < EXPIRY_BUCKETS"
    have f: "ce_prev (h' j) = ce_prev (h j) \<and> ce_next (h' j) = ce_next (h j) \<and> ce_bucket (h' j) = ce_bucket (h j) \<and> deadline (h' j) = deadline (h j)"
      if "j \<in> set (L b)" for j
      using assms(2) [of j] that b L(2) by (auto simp: members_def)
    note at = lists_at [OF L(1) b]
    show "ei_buckets x ! b = hd_or (L b) None" "distinct (L b)" by (rule at(1), rule at(2))
    show "dlinks (\<lambda>r. ce_prev (h' r)) (\<lambda>r. ce_next (h' r)) None (L b) None"
      using at(3) f by (subst dlinks_cong) auto
    show "\<forall>r \<in> set (L b). ce_bucket (h' r) = b \<and> placed (ei_floor x) (h' r) b"
      using at(4) f by (auto simp: placed_def)
  qed
  with L(2) assms(1) show ?thesis by (auto simp: ix_rep_def)
qed


section \<open>Pointer steps\<close>

lemma point_simps [simp]:
  "cache_item (cs_heap (point_newer r v s) j) = cache_item (cs_heap s j)" "cache_item (cs_heap (point_older r v s) j) = cache_item (cs_heap s j)"
  "ce_older (cs_heap (point_newer r v s) j) = ce_older (cs_heap s j)"
  "ce_newer (cs_heap (point_newer r v s) j) = (if j = r then v else ce_newer (cs_heap s j))"
  "ce_newer (cs_heap (point_older r v s) j) = ce_newer (cs_heap s j)"
  "ce_older (cs_heap (point_older r v s) j) = (if j = r then v else ce_older (cs_heap s j))"
  by (simp_all add: point_newer_def point_older_def cache_item_def)

text \<open>What pointer steps keep: the index's fields, the items, and everything but the ends of the list.\<close>

definition relinked :: "cache_store \<Rightarrow> cache_store \<Rightarrow> bool" where
  "relinked s s' \<longleftrightarrow> (\<forall>j. cache_item (cs_heap s' j) = cache_item (cs_heap s j) \<and> ce_prev (cs_heap s' j) = ce_prev (cs_heap s j)
      \<and> ce_next (cs_heap s' j) = ce_next (cs_heap s j) \<and> ce_bucket (cs_heap s' j) = ce_bucket (cs_heap s j)) \<and>
     cs_fresh s' = cs_fresh s \<and> cs_entries s' = cs_entries s \<and> cs_expiry s' = cs_expiry s \<and> cs_maxEntries s' = cs_maxEntries s
     \<and> cs_maxBytes s' = cs_maxBytes s \<and> cs_bytes s' = cs_bytes s"

lemma relinked_trans: "relinked s s1 \<Longrightarrow> relinked s1 s2 \<Longrightarrow> relinked s s2"
  by (simp add: relinked_def)

lemma relinked_point: "relinked s (point_newer r v s)" "relinked s (point_older r v s)" "relinked s (s\<lparr>cs_oldest := v\<rparr>)"
  "relinked s (s\<lparr>cs_newest := v\<rparr>)" "relinked s s"
  by (simp_all add: relinked_def point_newer_def point_older_def cache_item_def)

lemma relinked_join: "relinked s (join_older r s)" "relinked s (join_newer r s)"
  by (auto simp: join_older_def join_newer_def relinked_point split: option.split)

lemma join_older_simps [simp]:
  "ce_older (cs_heap (join_older r s) j) = ce_older (cs_heap s j)"
  "ce_newer (cs_heap (join_older r s) j) = (if ce_older (cs_heap s r) = Some j then ce_newer (cs_heap s r) else ce_newer (cs_heap s j))"
  "cs_newest (join_older r s) = cs_newest s"
  "cs_oldest (join_older r s) = (if ce_older (cs_heap s r) = None then ce_newer (cs_heap s r) else cs_oldest s)"
  by (auto simp: join_older_def point_newer_def split: option.split)

lemma join_newer_simps [simp]:
  "ce_newer (cs_heap (join_newer r s) j) = ce_newer (cs_heap s j)"
  "ce_older (cs_heap (join_newer r s) j) = (if ce_newer (cs_heap s r) = Some j then ce_older (cs_heap s r) else ce_older (cs_heap s j))"
  "cs_oldest (join_newer r s) = cs_oldest s"
  "cs_newest (join_newer r s) = (if ce_newer (cs_heap s r) = None then ce_older (cs_heap s r) else cs_newest s)"
  by (auto simp: join_newer_def point_older_def split: option.split)

lemma relinked_index:
  assumes "relinked s s'" "ix_rep (cs_heap s, cs_expiry s) M"
  shows "ix_rep (cs_heap s', cs_expiry s') M"
proof -
  have "deadline (cs_heap s' j) = deadline (cs_heap s j)" for j
    using assms(1) item_simps(3) by (metis deadline_def relinked_def)
  then show ?thesis using assms index_frame [of "cs_heap s" "cs_expiry s" M "cs_heap s'"] by (simp add: relinked_def)
qed

lemma relinked_items: "relinked s s' \<Longrightarrow> items s' xs = items s xs"
  by (simp add: relinked_def items_def)

lemma relinked_fields: "relinked s s' \<Longrightarrow> ce_key (cs_heap s' j) = ce_key (cs_heap s j) \<and> ce_raw (cs_heap s' j) = ce_raw (cs_heap s j)
    \<and> ce_expires (cs_heap s' j) = ce_expires (cs_heap s j) \<and> ce_bytes (cs_heap s' j) = ce_bytes (cs_heap s j)"
  by (simp add: relinked_def cache_item_def)


section \<open>Removing\<close>

lemma unlink_chain:
  assumes "dlinks (\<lambda>r. ce_older (cs_heap s r)) (\<lambda>r. ce_newer (cs_heap s r)) None (ys @ r # zs) None" "distinct (ys @ r # zs)"
    and "cs_oldest s = hd_or (ys @ r # zs) None" "cs_newest s = last_or None (ys @ r # zs)"
  defines "s' \<equiv> join_newer r (join_older r s)"
  shows "dlinks (\<lambda>r. ce_older (cs_heap s' r)) (\<lambda>r. ce_newer (cs_heap s' r)) None (ys @ zs) None"
    "cs_oldest s' = hd_or (ys @ zs) None" "cs_newest s' = last_or None (ys @ zs)"
proof -
  have e: "ce_older (cs_heap s r) = last_or None ys" "ce_newer (cs_heap s r) = hd_or zs None"
    using assms(1) by (auto simp: dlinks_append)
  have ne: "ce_older (cs_heap s r) \<noteq> Some r" using e assms(2) by (auto dest: last_or_mem)
  show "dlinks (\<lambda>r. ce_older (cs_heap s' r)) (\<lambda>r. ce_newer (cs_heap s' r)) None (ys @ zs) None"
    by (rule dlinks_remove [OF assms(1,2)]) (use ne in \<open>simp_all add: s'_def\<close>)
  show "cs_oldest s' = hd_or (ys @ zs) None" using e ne assms(3) by (cases ys) (auto simp: s'_def last_or_def)
  show "cs_newest s' = last_or None (ys @ zs)" using e ne assms(4) by (cases zs) (auto simp: s'_def last_or_def)
qed

lemma core_fields:
  "core e = core e' \<Longrightarrow> cache_item e = cache_item e' \<and> ce_older e = ce_older e' \<and> ce_newer e = ce_newer e'"
  by (simp add: core_def cache_item_def)

lemma cache_remove_rep:
  assumes rep: "cs_rep s xs" and r: "r \<in> set xs"
  shows "cs_rep (cache_remove r s) (remove1 r xs)" "cache_item (cs_heap (cache_remove r s) j) = cache_item (cs_heap s j)"
    "cs_maxEntries (cache_remove r s) = cs_maxEntries s" "cs_maxBytes (cache_remove r s) = cs_maxBytes s" "cs_fresh (cache_remove r s) = cs_fresh s"
proof -
  obtain ys zs where xs: "xs = ys @ r # zs" using r by (meson split_list)
  have d: "distinct (ys @ r # zs)" using rep xs by (simp add: cs_rep_def)
  have rem: "remove1 r xs = ys @ zs" using d xs by (simp add: remove1_append)
  let ?s0 = "join_newer r (join_older r s)"
  let ?s1 = "point_older r None (point_newer r None ?s0)"
  let ?s2 = "if ce_expires (cs_heap ?s1 r) \<noteq> None then with_index (ix_remove r (cs_heap ?s1, cs_expiry ?s1)) ?s1 else ?s1"
  have eq: "cache_remove r s = ?s2\<lparr>cs_entries := AList.delete (ce_key (cs_heap ?s2 r)) (cs_entries ?s2), cs_bytes := cs_bytes ?s2 - int (ce_bytes (cs_heap ?s2 r))\<rparr>"
    by (simp add: cache_remove_def Let_def)
  have rl: "relinked s ?s1"
    by (rule relinked_trans [OF relinked_trans [OF relinked_trans [OF relinked_join(1) relinked_join(2)] relinked_point(1)] relinked_point(2)])
  note rf = relinked_fields [OF rl]
  note ul = unlink_chain [of s ys r zs]
  have lk: "dlinks (\<lambda>r. ce_older (cs_heap s r)) (\<lambda>r. ce_newer (cs_heap s r)) None (ys @ r # zs) None"
    "cs_oldest s = hd_or (ys @ r # zs) None" "cs_newest s = last_or None (ys @ r # zs)" using rep xs by (auto simp: cs_rep_def)
  have ch: "dlinks (\<lambda>r. ce_older (cs_heap ?s1 r)) (\<lambda>r. ce_newer (cs_heap ?s1 r)) None (ys @ zs) None"
    using ul(1) [OF lk(1) d lk(2,3)] d by (subst dlinks_cong) auto
  have ends: "cs_oldest ?s1 = hd_or (ys @ zs) None" "cs_newest ?s1 = last_or None (ys @ zs)"
    using ul(2,3) [OF lk(1) d lk(2,3)] by (simp_all add: point_newer_def point_older_def)
  have ix1: "ix_rep (cs_heap ?s1, cs_expiry ?s1) (timed s xs)" by (rule relinked_index [OF rl rep_index [OF rep]])
  have core2: "\<And>j. core (cs_heap ?s2 j) = core (cs_heap ?s1 j)"
    and ix2: "ix_rep (cs_heap ?s2, cs_expiry ?s2) (timed s xs - {r})"
    and keep: "cs_fresh ?s2 = cs_fresh ?s1" "cs_entries ?s2 = cs_entries ?s1" "cs_oldest ?s2 = cs_oldest ?s1" "cs_newest ?s2 = cs_newest ?s1"
      "cs_bytes ?s2 = cs_bytes ?s1" "cs_maxEntries ?s2 = cs_maxEntries ?s1" "cs_maxBytes ?s2 = cs_maxBytes ?s1"
  proof -
    have "(\<forall>j. core (cs_heap ?s2 j) = core (cs_heap ?s1 j)) \<and> ix_rep (cs_heap ?s2, cs_expiry ?s2) (timed s xs - {r})"
    proof (cases "ce_expires (cs_heap ?s1 r) = None")
      case True
      then have "timed s xs - {r} = timed s xs" using rf by (auto simp: timed_def)
      with True ix1 show ?thesis by simp
    next
      case False
      obtain h' x' where rm: "ix_remove r (cs_heap ?s1, cs_expiry ?s1) = (h', x')" by (cases "ix_remove r (cs_heap ?s1, cs_expiry ?s1)")
      have "r \<in> timed s xs" using False rf r by (auto simp: timed_def)
      from ix_remove_rep [OF ix1 this rm] rm False show ?thesis by (auto simp: with_index_def)
    qed
    then show "core (cs_heap ?s2 j) = core (cs_heap ?s1 j)" "ix_rep (cs_heap ?s2, cs_expiry ?s2) (timed s xs - {r})" for j by auto
  qed (auto simp: with_index_def)
  note cf = core_fields [OF core2]
  have it: "cache_item (cs_heap ?s2 j) = cache_item (cs_heap s j)" for j using cf rl by (simp add: relinked_def)
  then show "cache_item (cs_heap (cache_remove r s) j) = cache_item (cs_heap s j)" by (simp only: eq) simp
  have fl: "ce_key (cs_heap ?s2 j) = ce_key (cs_heap s j)" "ce_expires (cs_heap ?s2 j) = ce_expires (cs_heap s j)" "ce_bytes (cs_heap ?s2 j) = ce_bytes (cs_heap s j)" for j
    using it [of j] by (simp_all add: cache_item_def)
  show "cs_maxEntries (cache_remove r s) = cs_maxEntries s" "cs_maxBytes (cache_remove r s) = cs_maxBytes s" "cs_fresh (cache_remove r s) = cs_fresh s"
    using rl keep by (simp_all only: eq) (simp_all add: relinked_def)
  have keep1: "cs_fresh ?s1 = cs_fresh s" "cs_entries ?s1 = cs_entries s" "cs_bytes ?s1 = cs_bytes s" using rl by (auto simp: relinked_def)
  let ?s3 = "cache_remove r s"
  have s3: "cs_heap ?s3 = cs_heap ?s2" "cs_expiry ?s3 = cs_expiry ?s2" "cs_oldest ?s3 = cs_oldest ?s2" "cs_newest ?s3 = cs_newest ?s2"
    "cs_fresh ?s3 = cs_fresh s" "cs_entries ?s3 = AList.delete (ce_key (cs_heap s r)) (cs_entries s)" "cs_bytes ?s3 = cs_bytes s - int (ce_bytes (cs_heap s r))"
    using keep keep1 fl by (simp_all only: eq) simp_all
  have f3: "ce_key (cs_heap ?s3 j) = ce_key (cs_heap s j)" "ce_expires (cs_heap ?s3 j) = ce_expires (cs_heap s j)"
    "ce_bytes (cs_heap ?s3 j) = ce_bytes (cs_heap s j)" for j
    using fl [of j] by (simp_all only: s3(1))
  have keys: "distinct (map (\<lambda>r. ce_key (cs_heap s r)) (ys @ r # zs))" and ents: "set (cs_entries s) = (\<lambda>r. (ce_key (cs_heap s r), r)) ` set (ys @ r # zs)"
    and de: "distinct (map fst (cs_entries s))" and bytes: "cs_bytes s = int (sum_list (map (\<lambda>r. ce_bytes (cs_heap s r)) (ys @ r # zs)))"
    and fresh: "\<forall>r\<in>set (ys @ r # zs). r < cs_fresh s"
    using rep xs by (simp_all add: cs_rep_def)
  have "set (AList.delete (ce_key (cs_heap s r)) (cs_entries s)) = {e \<in> set (cs_entries s). fst e \<noteq> ce_key (cs_heap s r)}"
    by (auto simp: delete_conv' AList.delete_eq)
  also have "\<dots> = (\<lambda>r. (ce_key (cs_heap s r), r)) ` set (ys @ zs)"
  proof -
    have n: "ce_key (cs_heap s r) \<notin> (\<lambda>r. ce_key (cs_heap s r)) ` (set ys \<union> set zs)" using keys by auto
    have "ce_key (cs_heap s j) \<noteq> ce_key (cs_heap s r)" if "j \<in> set ys \<or> j \<in> set zs" for j
      using n that by (metis UnCI image_eqI)
    then show ?thesis unfolding ents by auto
  qed
  finally have e3: "set (cs_entries ?s3) = (\<lambda>r. (ce_key (cs_heap ?s3 r), r)) ` set (ys @ zs)"
    by (simp add: s3(6) f3)
  have t3: "timed ?s3 (ys @ zs) = timed s xs - {r}" using d by (auto simp: timed_def f3 xs)
  have c3: "dlinks (\<lambda>r. ce_older (cs_heap ?s3 r)) (\<lambda>r. ce_newer (cs_heap ?s3 r)) None (ys @ zs) None"
  proof (subst dlinks_cong)
    show "ce_older (cs_heap ?s3 j) = ce_older (cs_heap ?s1 j) \<and> ce_newer (cs_heap ?s3 j) = ce_newer (cs_heap ?s1 j)" for j
      unfolding s3(1) using cf by blast
  qed (rule ch)
  show "cs_rep ?s3 (remove1 r xs)"
    unfolding rem cs_rep_def
  proof (intro conjI)
    show "distinct (map (\<lambda>r. ce_key (cs_heap ?s3 r)) (ys @ zs))" using keys by (simp add: f3)
    show "distinct (map fst (cs_entries ?s3))" using de by (simp add: s3(6) distinct_delete)
    show "ix_rep (cs_heap ?s3, cs_expiry ?s3) (timed ?s3 (ys @ zs))" using ix2 by (simp only: t3 s3(1,2))
    show "cs_bytes ?s3 = int (sum_list (map (\<lambda>r. ce_bytes (cs_heap ?s3 r)) (ys @ zs)))" using bytes by (simp add: s3(7) f3)
    show "cs_oldest ?s3 = hd_or (ys @ zs) None" "cs_newest ?s3 = last_or None (ys @ zs)" by (simp_all only: s3(3,4) keep(3,4) ends)
    show "\<forall>r\<in>set (ys @ zs). r < cs_fresh ?s3" using fresh by (simp add: s3(5))
  qed (use d c3 e3 in simp_all)
qed

lemma removed_items: "cs_rep s xs \<Longrightarrow> r \<in> set xs \<Longrightarrow> items (cache_remove r s) (remove1 r xs) = items s (remove1 r xs)"
  using cache_remove_rep(2) by (simp add: items_def)

section \<open>The reference\<close>

definition lru_drop :: "string \<Rightarrow> cache_item list \<Rightarrow> cache_item list" where
  "lru_drop key l = filter (\<lambda>it. item_key it \<noteq> key) l"

definition lru_live :: "nat \<Rightarrow> cache_item \<Rightarrow> bool" where
  "lru_live now it \<longleftrightarrow> \<not> past (item_expires it) now"

definition lru_full :: "nat \<Rightarrow> nat \<Rightarrow> nat \<Rightarrow> cache_item list \<Rightarrow> bool" where
  "lru_full maxEntries maxBytes bytes l \<longleftrightarrow> maxEntries \<le> length l \<or> maxBytes < sum_list (map item_bytes l) + bytes"

fun lru_fit :: "nat \<Rightarrow> nat \<Rightarrow> nat \<Rightarrow> cache_item list \<Rightarrow> cache_item list" where
  "lru_fit maxEntries maxBytes bytes [] = []"
| "lru_fit maxEntries maxBytes bytes (it # l) =
     (if lru_full maxEntries maxBytes bytes (it # l) then lru_fit maxEntries maxBytes bytes l else it # l)"

definition lru_write :: "nat \<Rightarrow> nat \<Rightarrow> string \<Rightarrow> (string \<times> nat) option \<Rightarrow> nat option \<Rightarrow> nat \<Rightarrow> nat \<Rightarrow> cache_item list \<Rightarrow> cache_item list" where
  "lru_write maxEntries maxBytes key json expiresAt bytes now l =
     (let l1 = lru_drop key l in
      case json of None \<Rightarrow> l1
      | Some (raw, b) \<Rightarrow> if past expiresAt now then l1
          else (if lru_full maxEntries maxBytes bytes l1 then lru_fit maxEntries maxBytes bytes (filter (lru_live now) l1) else l1)
            @ [(key, raw, expiresAt, bytes)])"

definition lru_find :: "string \<Rightarrow> cache_item list \<Rightarrow> cache_item option" where
  "lru_find key l = List.find (\<lambda>it. item_key it = key) l"

definition lru_get :: "(string \<Rightarrow> jsv option) \<Rightarrow> string \<Rightarrow> nat \<Rightarrow> cache_item list \<Rightarrow> jsv \<times> cache_item list" where
  "lru_get parse key now l = (case lru_find key l of None \<Rightarrow> (JUndef, l)
     | Some it \<Rightarrow> if \<not> lru_live now it then (JUndef, lru_drop key l)
         else (case parse (fst (snd it)) of Some v \<Rightarrow> (v, lru_drop key l @ [it]) | None \<Rightarrow> (JUndef, lru_drop key l)))"

text \<open>A removed entry is the one with its key.\<close>

lemma drop_items:
  assumes "cs_rep s xs" "r \<in> set xs"
  shows "lru_drop (ce_key (cs_heap s r)) (items s xs) = items s (remove1 r xs)"
proof -
  have d: "distinct xs" and k: "inj_on (\<lambda>r. ce_key (cs_heap s r)) (set xs)" using assms(1) by (auto simp: cs_rep_def distinct_map)
  have "filter (\<lambda>j. ce_key (cs_heap s j) \<noteq> ce_key (cs_heap s r)) xs = filter (\<lambda>j. j \<noteq> r) xs"
    using inj_onD [OF k] assms(2) by (intro filter_cong) auto
  then show ?thesis using d
    by (simp add: lru_drop_def items_def filter_map o_def distinct_remove1_removeAll removeAll_filter_not_eq eq_commute [of r])
qed

lemma drop_absent: "cs_rep s xs \<Longrightarrow> map_of (cs_entries s) key = None \<Longrightarrow> lru_drop key (items s xs) = items s xs"
proof -
  assume rep: "cs_rep s xs" and "map_of (cs_entries s) key = None"
  then have "\<And>r. r \<in> set xs \<Longrightarrow> ce_key (cs_heap s r) \<noteq> key" using rep_entry [OF rep] by (metis option.distinct(1))
  then show ?thesis by (simp add: lru_drop_def items_def filter_map o_def)
qed

lemma find_items:
  assumes "cs_rep s xs"
  shows "lru_find key (items s xs) = map_option (\<lambda>r. cache_item (cs_heap s r)) (map_of (cs_entries s) key)"
proof (cases "map_of (cs_entries s) key")
  case None
  then have "\<And>r. r \<in> set xs \<Longrightarrow> ce_key (cs_heap s r) \<noteq> key" using rep_entry [OF assms] by (metis option.distinct(1))
  then have "List.find (\<lambda>it. item_key it = key) (items s xs) = None" by (auto simp: find_None_iff items_def)
  with None show ?thesis by (simp add: lru_find_def)
next
  case (Some r)
  then have r: "r \<in> set xs" "ce_key (cs_heap s r) = key" using rep_entry [OF assms] by auto
  then obtain it where it: "List.find (\<lambda>it. item_key it = key) (items s xs) = Some it"
    by (cases "List.find (\<lambda>it. item_key it = key) (items s xs)") (auto simp: find_None_iff items_def)
  from find_Some_iff2 [OF it] obtain j where j: "j \<in> set xs" "it = cache_item (cs_heap s j)" "ce_key (cs_heap s j) = key" by (auto simp: items_def)
  then have "map_of (cs_entries s) key = Some j" using rep_entry [OF assms] by simp
  with Some it j(2) show ?thesis by (simp add: lru_find_def)
qed

text \<open>The limits of a store, which no operation changes.\<close>

definition limits :: "cache_store \<Rightarrow> nat \<times> nat" where
  "limits s = (cs_maxEntries s, cs_maxBytes s)"

lemma removeKey_ref:
  assumes rep: "cs_rep s xs"
  shows "\<exists>xs'. cs_rep (cache_removeKey key s) xs' \<and> items (cache_removeKey key s) xs' = lru_drop key (items s xs)
    \<and> limits (cache_removeKey key s) = limits s"
proof (cases "map_of (cs_entries s) key")
  case None
  with rep drop_absent [OF rep None] show ?thesis by (auto simp: cache_removeKey_def)
next
  case (Some r)
  then have r: "r \<in> set xs" "ce_key (cs_heap s r) = key" using rep_entry [OF rep] by auto
  from cache_remove_rep [OF rep r(1)] removed_items [OF rep r(1)] drop_items [OF rep r(1)] Some r(2) show ?thesis
    by (auto simp: cache_removeKey_def limits_def)
qed

lemma full_ref: "cs_rep s xs \<Longrightarrow> cache_full bytes s = lru_full (cs_maxEntries s) (cs_maxBytes s) bytes (items s xs)"
proof -
  assume rep: "cs_rep s xs"
  have "cs_bytes s = int (sum_list (map item_bytes (items s xs)))" using rep by (simp add: cs_rep_def items_def o_def)
  then show ?thesis using rep_size [OF rep] by (auto simp: cache_full_def lru_full_def items_def)
qed

lemma evict_ref:
  assumes "cs_rep s xs"
  shows "\<exists>s' xs'. evict_oldest bytes s = Some s' \<and> cs_rep s' xs' \<and> items s' xs' = lru_fit (cs_maxEntries s) (cs_maxBytes s) bytes (items s xs)
    \<and> limits s' = limits s"
  using assms
proof (induction xs arbitrary: s)
  case Nil
  then have "cs_oldest s = None" by (simp add: cs_rep_def)
  with Nil show ?case by (subst evict_oldest.simps) (auto simp: items_def)
next
  case (Cons r xs)
  have o: "cs_oldest s = Some r" using Cons.prems by (simp add: cs_rep_def)
  have it: "items s (r # xs) = cache_item (cs_heap s r) # items s xs" by (simp add: items_def)
  show ?case
  proof (cases "cache_full bytes s")
    case True
    have r: "r \<in> set (r # xs)" by simp
    note rm = cache_remove_rep [OF Cons.prems r] and ri = removed_items [OF Cons.prems r]
    from Cons.IH [of "cache_remove r s"] rm(1) obtain s' xs' where "evict_oldest bytes (cache_remove r s) = Some s'" "cs_rep s' xs'"
      "items s' xs' = lru_fit (cs_maxEntries s) (cs_maxBytes s) bytes (items s xs)" "limits s' = limits s"
      using ri rm(3,4) by (auto simp: limits_def)
    with True o it full_ref [OF Cons.prems] show ?thesis by (subst evict_oldest.simps) auto
  next
    case False
    with Cons.prems o it full_ref [OF Cons.prems] show ?thesis by (subst evict_oldest.simps) auto
  qed
qed

text \<open>A new state of the index.\<close>

lemma index_swap:
  assumes rep: "cs_rep s xs" and ix: "ix_rep (h', x') (timed s xs)" and c: "\<And>j. core (h' j) = core (cs_heap s j)"
  shows "cs_rep (with_index (h', x') s) xs" "items (with_index (h', x') s) xs = items s xs" "limits (with_index (h', x') s) = limits s"
proof -
  note cf = core_fields [OF c]
  have f: "ce_key (h' j) = ce_key (cs_heap s j)" "ce_expires (h' j) = ce_expires (cs_heap s j)" "ce_bytes (h' j) = ce_bytes (cs_heap s j)"
    "ce_older (h' j) = ce_older (cs_heap s j)" "ce_newer (h' j) = ce_newer (cs_heap s j)" for j
    using c [of j] by (simp_all add: core_def)
  have "timed (with_index (h', x') s) xs = timed s xs" by (simp add: timed_def with_index_def f)
  with rep ix show "cs_rep (with_index (h', x') s) xs" by (simp add: cs_rep_def with_index_def f)
  show "items (with_index (h', x') s) xs = items s xs" "limits (with_index (h', x') s) = limits s"
    using cf by (simp_all add: items_def with_index_def limits_def)
qed

lemma expires_deadline: "ce_expires e \<noteq> None \<Longrightarrow> past (ce_expires e) now \<longleftrightarrow> deadline e \<le> now"
  by (auto simp: past_def deadline_def)

lemma drop_expired_ref:
  assumes "cs_rep s xs"
  shows "\<exists>s' xs'. drop_all_expired now s = Some s' \<and> cs_rep s' xs' \<and> items s' xs' = filter (lru_live now) (items s xs) \<and> limits s' = limits s"
  using assms
proof (induction "length xs" arbitrary: s xs rule: less_induct)
  case less
  obtain res h' x' where ex: "ix_expired now (cs_heap s, cs_expiry s) = Some (res, h', x')" "ix_rep (h', x') (timed s xs)"
    "\<And>j. core (h' j) = core (cs_heap s j)" "finds now (cs_heap s) (timed s xs) res"
    using expired_rep [OF rep_index [OF less.prems], of now] by blast
  let ?s = "with_index (h', x') s"
  note sw = index_swap [OF less.prems ex(2,3)]
  show ?case
  proof (cases res)
    case None
    have "lru_live now (cache_item (cs_heap s r))" if "r \<in> set xs" for r
      using ex(4) None that expires_deadline [of "cs_heap s r" now]
      by (cases "ce_expires (cs_heap s r)") (auto simp: finds_def timed_def lru_live_def past_def)
    then have "filter (lru_live now) (items s xs) = items s xs" by (simp add: items_def filter_map o_def)
    moreover have "drop_all_expired now s = Some ?s" using ex(1) None by (subst drop_all_expired.simps) simp
    ultimately show ?thesis using sw by auto
  next
    case (Some r)
    have r: "r \<in> set xs" "past (ce_expires (cs_heap s r)) now"
      using ex(4) Some expires_deadline [of "cs_heap s r" now] by (auto simp: finds_def timed_def)
    have eq: "drop_all_expired now s = drop_all_expired now (cache_remove r ?s)" using ex(1) Some by (subst drop_all_expired.simps) simp
    have "length (remove1 r xs) < length xs" using r(1) length_pos_if_in_set [OF r(1)] by (simp add: length_remove1)
    from less.hyps [OF this cache_remove_rep(1) [OF sw(1) r(1)]] obtain s' xs' where IH: "drop_all_expired now (cache_remove r ?s) = Some s'"
      "cs_rep s' xs'" "items s' xs' = filter (lru_live now) (items (cache_remove r ?s) (remove1 r xs))" "limits s' = limits (cache_remove r ?s)" by blast
    have "items (cache_remove r ?s) (remove1 r xs) = items s (remove1 r xs)"
      using removed_items [OF sw(1) r(1)] sw(2) core_fields [OF ex(3)] by (simp add: items_def with_index_def)
    moreover have "filter (lru_live now) (items s (remove1 r xs)) = filter (lru_live now) (items s xs)"
    proof -
      have "\<not> lru_live now (cache_item (cs_heap s r))" using r(2) by (simp add: lru_live_def)
      then have "filter (\<lambda>j. lru_live now (cache_item (cs_heap s j))) (remove1 r xs) = filter (\<lambda>j. lru_live now (cache_item (cs_heap s j))) xs"
        by (induction xs) auto
      then show ?thesis by (simp add: items_def filter_map o_def)
    qed
    moreover have "limits (cache_remove r ?s) = limits s" using cache_remove_rep(3,4) [OF sw(1) r(1)] sw(3) by (simp add: limits_def)
    ultimately show ?thesis using IH eq by auto
  qed
qed


section \<open>Using and adding\<close>

text \<open>A store whose pointers form another list of the same entries.\<close>

lemma relinked_rep:
  assumes rep: "cs_rep s xs" and rl: "relinked s s'" and xs': "distinct xs'" "set xs' = set xs"
    and ch: "dlinks (\<lambda>r. ce_older (cs_heap s' r)) (\<lambda>r. ce_newer (cs_heap s' r)) None xs' None"
    and ends: "cs_oldest s' = hd_or xs' None" "cs_newest s' = last_or None xs'"
  shows "cs_rep s' xs'"
proof -
  note rf = relinked_fields [OF rl]
  have d: "distinct xs" and k: "inj_on (\<lambda>r. ce_key (cs_heap s r)) (set xs)" using rep by (auto simp: cs_rep_def distinct_map)
  have b: "sum_list (map (\<lambda>r. ce_bytes (cs_heap s r)) xs') = sum_list (map (\<lambda>r. ce_bytes (cs_heap s r)) xs)"
    using d xs' by (simp add: sum_list_distinct_conv_sum_set)
  have "timed s' xs' = timed s xs" using rf xs'(2) by (auto simp: timed_def)
  with relinked_index [OF rl rep_index [OF rep]] have "ix_rep (cs_heap s', cs_expiry s') (timed s' xs')" by simp
  moreover have "distinct (map (\<lambda>r. ce_key (cs_heap s' r)) xs')" using k xs' rf by (simp add: distinct_map)
  ultimately show ?thesis using rep rl rf xs' ch ends b unfolding cs_rep_def by (simp add: relinked_def)
qed

lemma touch_rep:
  assumes rep: "cs_rep s xs" and r: "r \<in> set xs"
  shows "cs_rep (cache_touch r s) (remove1 r xs @ [r])" "items (cache_touch r s) (remove1 r xs @ [r]) = items s (remove1 r xs) @ [cache_item (cs_heap s r)]"
    "limits (cache_touch r s) = limits s"
proof -
  obtain ys zs where xs: "xs = ys @ r # zs" using r by (meson split_list)
  have d: "distinct (ys @ r # zs)" using rep xs by (simp add: cs_rep_def)
  have rem: "remove1 r xs = ys @ zs" using d xs by (simp add: remove1_append)
  have lk: "dlinks (\<lambda>r. ce_older (cs_heap s r)) (\<lambda>r. ce_newer (cs_heap s r)) None (ys @ r # zs) None"
    "cs_oldest s = hd_or (ys @ r # zs) None" "cs_newest s = last_or None (ys @ r # zs)" using rep xs by (auto simp: cs_rep_def)
  have "relinked s (cache_touch r s) \<and> cs_rep (cache_touch r s) (ys @ zs @ [r])"
  proof (cases "zs = []")
    case True
    then have "cs_newest s = Some r" using lk(3) by (simp add: last_or_def)
    then have "cache_touch r s = s" by (simp add: cache_touch_def)
    with True rep xs relinked_point(5) show ?thesis by simp
  next
    case False
    then obtain n where n: "last_or None zs = Some n" "n \<in> set zs" by (auto simp: last_or_def)
    obtain z ws where z: "zs = z # ws" using False by (cases zs) auto
    have nw: "cs_newest s = Some n" using lk(3) n(1) False by (auto simp: last_or_def)
    have nr: "n \<noteq> r" using n(2) d by auto
    have newer: "ce_newer (cs_heap s r) = Some z" using lk(1) z by (simp add: dlinks_append)
    have o: "ce_older (cs_heap s r) = last_or None ys" using lk(1) by (simp add: dlinks_append)
    have ner: "ce_older (cs_heap s r) \<noteq> Some r" using o d by (auto dest: last_or_mem)
    let ?s0 = "join_newer r (join_older r s)"
    have j2: "(case ce_newer (cs_heap (join_older r s) r) of Some n \<Rightarrow> point_older n (ce_older (cs_heap (join_older r s) r)) (join_older r s) | None \<Rightarrow> join_older r s) = ?s0"
      using newer ner by (simp add: join_newer_def)
    have n0: "cs_newest ?s0 = Some n" using newer ner nw by simp
    let ?s3 = "point_newer n (Some r) (point_newer r None (point_older r (Some n) ?s0))"
    have eq: "cache_touch r s = ?s3\<lparr>cs_newest := Some r\<rparr>"
    proof -
      have "cs_newest (point_newer r None (point_older r (cs_newest ?s0) ?s0)) = Some n"
        using n0 by (simp add: point_newer_def point_older_def)
      then show ?thesis using nw nr n0 unfolding cache_touch_def Let_def j2 by simp
    qed
    have rl: "relinked s (cache_touch r s)" unfolding eq
      by (rule relinked_trans [OF relinked_trans [OF relinked_trans [OF relinked_trans [OF relinked_trans [OF relinked_join(1) relinked_join(2)]
        relinked_point(2)] relinked_point(1)] relinked_point(1)] relinked_point(4)])
    note ul = unlink_chain [OF lk(1) d lk(2,3)]
    have l0: "last_or None (ys @ zs) = Some n" using n(1) False by (simp add: last_or_def)
    have "dlinks (\<lambda>j. ce_older (cs_heap (cache_touch r s) j)) (\<lambda>j. ce_newer (cs_heap (cache_touch r s) j)) None ((ys @ zs) @ [r]) None"
      unfolding eq by (rule dlinks_snoc [OF ul(1)]) (use d l0 nr in auto)
    moreover have "cs_oldest (cache_touch r s) = hd_or ((ys @ zs) @ [r]) None"
      using ul(2) z unfolding eq by (cases ys) (simp_all add: point_newer_def point_older_def)
    moreover have "cs_newest (cache_touch r s) = last_or None ((ys @ zs) @ [r])" by (simp add: eq last_or_def)
    ultimately have "cs_rep (cache_touch r s) ((ys @ zs) @ [r])"
      by (intro relinked_rep [OF rep rl]) (use d xs in auto)
    with rl show ?thesis by simp
  qed
  then show "cs_rep (cache_touch r s) (remove1 r xs @ [r])" "items (cache_touch r s) (remove1 r xs @ [r]) = items s (remove1 r xs) @ [cache_item (cs_heap s r)]"
    "limits (cache_touch r s) = limits s"
    by (auto simp: rem relinked_def items_def limits_def)
qed

lemma append_rep:
  assumes rep: "cs_rep s xs" and new: "map_of (cs_entries s) key = None"
    and ex: "\<And>d. expiresAt = Some d \<Longrightarrow> now < d \<and> d < MAX_TIME"
  shows "\<exists>s' xs'. cache_append key raw expiresAt bytes now s = Some s' \<and> cs_rep s' xs'
    \<and> items s' xs' = items s xs @ [(key, raw, expiresAt, bytes)] \<and> limits s' = limits s"
proof -
  let ?r = "cs_fresh s"
  let ?e = "\<lparr>ce_key = key, ce_raw = raw, ce_expires = expiresAt, ce_bytes = bytes, ce_older = cs_newest s, ce_newer = None,
            ce_bucket = 0, ce_prev = None, ce_next = None\<rparr>"
  let ?s1 = "s\<lparr>cs_heap := (cs_heap s)(?r := ?e), cs_fresh := Suc ?r\<rparr>"
  let ?s2 = "case cs_newest ?s1 of Some n \<Rightarrow> point_newer n (Some ?r) ?s1 | None \<Rightarrow> ?s1\<lparr>cs_oldest := Some ?r\<rparr>"
  let ?s3 = "?s2\<lparr>cs_newest := Some ?r, cs_entries := AList.update key ?r (cs_entries ?s2)\<rparr>"
  have d: "distinct xs" and fr: "\<And>j. j \<in> set xs \<Longrightarrow> j < ?r" and nw: "cs_newest s = last_or None xs" and od: "cs_oldest s = hd_or xs None"
    and ch: "dlinks (\<lambda>r. ce_older (cs_heap s r)) (\<lambda>r. ce_newer (cs_heap s r)) None xs None" using rep by (auto simp: cs_rep_def)
  have fresh: "?r \<notin> set xs" using fr by auto
  have nr: "cs_newest s \<noteq> Some ?r" using nw fresh by (auto dest: last_or_mem)
  have h3: "cache_item (cs_heap ?s3 j) = (if j = ?r then (key, raw, expiresAt, bytes) else cache_item (cs_heap s j))"
    "ce_older (cs_heap ?s3 j) = (if j = ?r then cs_newest s else ce_older (cs_heap s j))"
    "ce_newer (cs_heap ?s3 j) = (if j = ?r then None else if cs_newest s = Some j then Some ?r else ce_newer (cs_heap s j))"
    "j \<noteq> ?r \<Longrightarrow> ce_prev (cs_heap ?s3 j) = ce_prev (cs_heap s j) \<and> ce_next (cs_heap ?s3 j) = ce_next (cs_heap s j) \<and> ce_bucket (cs_heap ?s3 j) = ce_bucket (cs_heap s j)"
    for j
    using nr by (auto simp: point_newer_def cache_item_def split: option.split)
  have o3: "cs_fresh ?s3 = Suc ?r" "cs_expiry ?s3 = cs_expiry s" "cs_newest ?s3 = Some ?r" "cs_bytes ?s3 = cs_bytes s"
    "cs_entries ?s3 = cs_entries s @ [(key, ?r)]" "limits ?s3 = limits s" "cs_oldest ?s3 = hd_or (xs @ [?r]) None"
    using new nw od by (cases xs rule: rev_cases; cases xs; auto simp: point_newer_def limits_def last_or_def map_of_eq_None_iff update_new split: option.split)+
  note flds = arg_cong [OF h3(1), of fst] arg_cong [OF h3(1), of "\<lambda>i. fst (snd (snd i))"] arg_cong [OF h3(1), of "\<lambda>i. snd (snd (snd i))"]
  have f3: "ce_key (cs_heap ?s3 j) = (if j = ?r then key else ce_key (cs_heap s j))"
    "ce_expires (cs_heap ?s3 j) = (if j = ?r then expiresAt else ce_expires (cs_heap s j))"
    "ce_bytes (cs_heap ?s3 j) = (if j = ?r then bytes else ce_bytes (cs_heap s j))" for j
    using flds [of j] by (simp_all del: cache_store.simps cache_entry.simps split: if_splits)
  define s3 where "s3 = ?s3"
  note h3 = h3 [folded s3_def] and o3 = o3 [folded s3_def] and f3 = f3 [folded s3_def]
  have t3: "timed s3 (xs @ [?r]) = (if expiresAt = None then timed s xs else insert ?r (timed s xs))"
    unfolding timed_def f3(2) using fresh by auto
  have ix3: "ix_rep (cs_heap s3, cs_expiry s3) (timed s xs)"
    unfolding o3(2)
  proof (rule index_frame [OF rep_index [OF rep]])
    fix j assume "j \<in> timed s xs"
    then have j: "j \<noteq> ?r" using fresh by (auto simp: timed_def)
    have "ce_expires (cs_heap s3 j) = ce_expires (cs_heap s j)" using f3(2) [of j] j by simp
    then have "deadline (cs_heap s3 j) = deadline (cs_heap s j)" by (simp only: deadline_def)
    with h3(4) [OF j] show "ce_prev (cs_heap s3 j) = ce_prev (cs_heap s j) \<and> ce_next (cs_heap s3 j) = ce_next (cs_heap s j) \<and>
        ce_bucket (cs_heap s3 j) = ce_bucket (cs_heap s j) \<and> deadline (cs_heap s3 j) = deadline (cs_heap s j)" by blast
  qed
  have fin: "cs_rep (s4\<lparr>cs_bytes := cs_bytes s4 + int bytes\<rparr>) (xs @ [?r])
      \<and> items (s4\<lparr>cs_bytes := cs_bytes s4 + int bytes\<rparr>) (xs @ [?r]) = items s xs @ [(key, raw, expiresAt, bytes)]
      \<and> limits (s4\<lparr>cs_bytes := cs_bytes s4 + int bytes\<rparr>) = limits s"
    if s4: "s4 = with_index (h', x') s3" and ix: "ix_rep (h', x') (timed s3 (xs @ [?r]))" and c: "\<And>j. core (h' j) = core (cs_heap s3 j)" for s4 h' x'
  proof -
    note cf = core_fields [OF c]
    have f4: "ce_key (h' j) = (if j = ?r then key else ce_key (cs_heap s j))" "ce_bytes (h' j) = (if j = ?r then bytes else ce_bytes (cs_heap s j))"
      "ce_expires (h' j) = ce_expires (cs_heap s3 j)" for j
      using c [of j] f3 [of j] by (simp_all only: core_def prod.inject)
    have it: "cache_item (h' j) = (if j = ?r then (key, raw, expiresAt, bytes) else cache_item (cs_heap s j))" for j
      using cf [of j] h3(1) [of j] by (simp only:)
    have ch4: "dlinks (\<lambda>j. ce_older (h' j)) (\<lambda>j. ce_newer (h' j)) None (xs @ [?r]) None"
    proof (rule dlinks_snoc [OF ch d fresh])
      show "ce_older (h' ?r) = last_or None xs" "ce_newer (h' ?r) = None" using cf [of ?r] h3(2,3) [of ?r] nw by simp_all
      fix j assume "j \<in> set xs"
      then have "j \<noteq> ?r" using fresh by auto
      then show "ce_older (h' j) = ce_older (cs_heap s j) \<and> ce_newer (h' j) = (if last_or None xs = Some j then Some ?r else ce_newer (cs_heap s j))"
        using cf [of j] h3(2,3) [of j] nw by simp
    qed
    let ?s5 = "s4\<lparr>cs_bytes := cs_bytes s4 + int bytes\<rparr>"
    have s5: "cs_heap ?s5 = h'" "cs_expiry ?s5 = x'" "cs_fresh ?s5 = Suc ?r" "cs_newest ?s5 = Some ?r" "cs_bytes ?s5 = cs_bytes s + int bytes"
      "cs_entries ?s5 = cs_entries s @ [(key, ?r)]" "limits ?s5 = limits s" "cs_oldest ?s5 = hd_or (xs @ [?r]) None"
      using o3 unfolding s4 by (simp_all add: with_index_def limits_def)
    have nk: "key \<notin> fst ` set (cs_entries s)" using new by (simp add: map_of_eq_None_iff)
    have ents: "set (cs_entries s) = (\<lambda>r. (ce_key (cs_heap s r), r)) ` set xs" and dk: "distinct (map (\<lambda>r. ce_key (cs_heap s r)) xs)"
      and de: "distinct (map fst (cs_entries s))" and bys: "cs_bytes s = int (sum_list (map (\<lambda>r. ce_bytes (cs_heap s r)) xs))"
      using rep by (simp_all add: cs_rep_def)
    have same: "map (\<lambda>j. ce_key (h' j)) xs = map (\<lambda>j. ce_key (cs_heap s j)) xs" "map (\<lambda>j. ce_bytes (h' j)) xs = map (\<lambda>j. ce_bytes (cs_heap s j)) xs"
      "map (\<lambda>j. cache_item (h' j)) xs = map (\<lambda>j. cache_item (cs_heap s j)) xs"
      "(\<lambda>j. (ce_key (h' j), j)) ` set xs = (\<lambda>j. (ce_key (cs_heap s j), j)) ` set xs"
      using fresh by (auto simp: f4 it intro!: image_cong)
    have nk': "key \<notin> (\<lambda>r. ce_key (cs_heap s r)) ` set xs" using nk unfolding ents by (simp add: image_image)
    have "timed ?s5 (xs @ [?r]) = timed s3 (xs @ [?r])" by (simp only: timed_def s5(1) f4(3))
    then have ix5: "ix_rep (cs_heap ?s5, cs_expiry ?s5) (timed ?s5 (xs @ [?r]))" using ix by (simp only: s5(1,2))
    have "cs_rep ?s5 (xs @ [?r])"
      unfolding cs_rep_def
    proof (intro conjI)
      show "set (cs_entries ?s5) = (\<lambda>r. (ce_key (cs_heap ?s5 r), r)) ` set (xs @ [?r])"
        unfolding s5(1,6) set_append image_Un same(4) ents by (simp add: f4(1))
      show "distinct (map (\<lambda>r. ce_key (cs_heap ?s5 r)) (xs @ [?r]))" unfolding s5(1) map_append same(1) using dk nk' by (simp add: f4(1))
      show "cs_bytes ?s5 = int (sum_list (map (\<lambda>r. ce_bytes (cs_heap ?s5 r)) (xs @ [?r])))" unfolding s5(1,5) map_append same(2) bys by (simp add: f4(2))
      show "dlinks (\<lambda>r. ce_older (cs_heap ?s5 r)) (\<lambda>r. ce_newer (cs_heap ?s5 r)) None (xs @ [?r]) None" unfolding s5(1) by (rule ch4)
      show "distinct (map fst (cs_entries ?s5))" unfolding s5(6) using de nk by simp
      show "\<forall>r\<in>set (xs @ [?r]). r < cs_fresh ?s5" unfolding s5(3) using fr by (auto simp: less_Suc_eq)
    qed (use d fresh ix5 s5(4,8) in simp_all)
    moreover have "items ?s5 (xs @ [?r]) = items s xs @ [(key, raw, expiresAt, bytes)]" unfolding items_def s5(1) map_append same(3) by (simp add: it)
    ultimately show ?thesis using s5(7) by blast
  qed
  have eq: "cache_append key raw expiresAt bytes now s = map_option (\<lambda>s4. s4\<lparr>cs_bytes := cs_bytes s4 + int bytes\<rparr>)
      (case expiresAt of None \<Rightarrow> Some s3 | Some d \<Rightarrow> map_option (\<lambda>hx. with_index hx s3) (ix_add ?r now (cs_heap s3, cs_expiry s3)))"
    by (simp only: cache_append_def Let_def s3_def)
  show ?thesis
  proof (cases expiresAt)
    case None
    have w: "s3 = with_index (cs_heap s3, cs_expiry s3) s3" by (simp add: with_index_def)
    have ixn: "ix_rep (cs_heap s3, cs_expiry s3) (timed s3 (xs @ [?r]))" using ix3 None by (simp add: t3)
    note f = fin [OF w ixn refl]
    have "cache_append key raw expiresAt bytes now s = Some (s3\<lparr>cs_bytes := cs_bytes s3 + int bytes\<rparr>)"
      unfolding eq using None by simp
    with f show ?thesis by blast
  next
    case (Some dl)
    have dd: "deadline (cs_heap s3 ?r) = dl" using f3(2) [of ?r] Some by (simp add: deadline_def)
    have "?r \<notin> timed s xs" using fresh by (auto simp: timed_def)
    moreover have "now < deadline (cs_heap s3 ?r)" "deadline (cs_heap s3 ?r) < MAX_TIME" unfolding dd using ex [OF Some] by auto
    ultimately obtain h' x' where add: "ix_add ?r now (cs_heap s3, cs_expiry s3) = Some (h', x')" "ix_rep (h', x') (insert ?r (timed s xs))"
      "\<And>j. core (h' j) = core (cs_heap s3 j)"
      using add_rep [OF ix3] by blast
    have "ix_rep (h', x') (timed s3 (xs @ [?r]))" using add(2) Some by (simp add: t3)
    note f = fin [OF refl this add(3)]
    have "cache_append key raw expiresAt bytes now s = Some ((with_index (h', x') s3)\<lparr>cs_bytes := cs_bytes (with_index (h', x') s3) + int bytes\<rparr>)"
      unfolding eq using Some add(1) by simp
    with f show ?thesis by blast
  qed
qed

end
