(* ===== verification/Cache_Reference.thy ===== *)
theory Cache_Reference
  imports Cache_Facts "HOL-Library.Code_Target_Numeral"
begin

text \<open>
  Runs of the cache against runs of the reference, and what the reference makes evident: the limits.
\<close>

section \<open>Single operations\<close>

lemma absent_iff: "cs_rep s xs \<Longrightarrow> map_of (cs_entries s) key = None \<longleftrightarrow> key \<notin> item_key ` set (items s xs)"
proof -
  assume rep: "cs_rep s xs"
  have "set (cs_entries s) = (\<lambda>r. (ce_key (cs_heap s r), r)) ` set xs" using rep by (simp add: cs_rep_def)
  then have "fst ` set (cs_entries s) = item_key ` set (items s xs)" by (auto simp: items_def image_image)
  then show ?thesis by (simp add: map_of_eq_None_iff)
qed

lemma fit_suffix: "\<exists>pre. l = pre @ lru_fit mE mB b l"
proof (induction l)
  case (Cons it l)
  then obtain pre where "l = pre @ lru_fit mE mB b l" by blast
  then have "it # l = (it # pre) @ lru_fit mE mB b l" by simp
  then show ?case by (cases "lru_full mE mB b (it # l)") (auto intro: exI [of _ "it # pre"] exI [of _ "[]"])
qed simp

lemma fit_subset: "set (lru_fit mE mB b l) \<subseteq> set l"
  using fit_suffix [of l mE mB b] by (metis set_append Un_upper2)

lemma write_ref:
  assumes rep: "cs_rep s xs" and ex: "\<And>d. expiresAt = Some d \<Longrightarrow> d < MAX_TIME"
  shows "\<exists>s' xs'. cache_write key json expiresAt bytes now s = Some s' \<and> cs_rep s' xs'
    \<and> items s' xs' = lru_write (cs_maxEntries s) (cs_maxBytes s) key json expiresAt bytes now (items s xs) \<and> limits s' = limits s"
proof -
  let ?s1 = "cache_removeKey key s"
  obtain xs1 where r1: "cs_rep ?s1 xs1" "items ?s1 xs1 = lru_drop key (items s xs)" "limits ?s1 = limits s"
    using removeKey_ref [OF rep] by blast
  show ?thesis
  proof (cases "json = None \<or> past expiresAt now")
    case True
    then have "cache_write key json expiresAt bytes now s = Some ?s1" by (auto simp: cache_write_def Let_def split: option.split)
    with True r1 show ?thesis by (auto simp: lru_write_def Let_def split: option.split)
  next
    case False
    then obtain raw b where j: "json = Some (raw, b)" by auto
    let ?room = "if cache_full bytes ?s1 then Option.bind (drop_all_expired now ?s1) (evict_oldest bytes) else Some ?s1"
    let ?kept = "if lru_full (cs_maxEntries s) (cs_maxBytes s) bytes (items ?s1 xs1)
      then lru_fit (cs_maxEntries s) (cs_maxBytes s) bytes (filter (lru_live now) (items ?s1 xs1)) else items ?s1 xs1"
    have m: "cs_maxEntries ?s1 = cs_maxEntries s" "cs_maxBytes ?s1 = cs_maxBytes s" using r1(3) by (simp_all add: limits_def)
    have "\<exists>s2 xs2. ?room = Some s2 \<and> cs_rep s2 xs2 \<and> items s2 xs2 = ?kept \<and> limits s2 = limits s"
    proof (cases "cache_full bytes ?s1")
      case t: True
      obtain s2 xs2 where d: "drop_all_expired now ?s1 = Some s2" "cs_rep s2 xs2" "items s2 xs2 = filter (lru_live now) (items ?s1 xs1)" "limits s2 = limits ?s1"
        using drop_expired_ref [OF r1(1)] by blast
      from evict_ref [OF d(2), of bytes] obtain s3 xs3 where "evict_oldest bytes s2 = Some s3" "cs_rep s3 xs3"
        "items s3 xs3 = lru_fit (cs_maxEntries s2) (cs_maxBytes s2) bytes (items s2 xs2)" "limits s3 = limits s2" by blast
      with t d m r1(3) full_ref [OF r1(1), of bytes] show ?thesis by (auto simp: limits_def)
    next
      case f: False
      with r1 m full_ref [OF r1(1), of bytes] show ?thesis by auto
    qed
    then obtain s2 xs2 where s2: "?room = Some s2" "cs_rep s2 xs2" "items s2 xs2 = ?kept" "limits s2 = limits s" by blast
    have "set ?kept \<subseteq> set (items ?s1 xs1)" using fit_subset by (auto split: if_splits) (meson subsetD fit_subset filter_is_subset)
    then have "key \<notin> item_key ` set (items s2 xs2)" unfolding s2(3) r1(2) by (auto simp: lru_drop_def)
    then have new: "map_of (cs_entries s2) key = None" using absent_iff [OF s2(2)] by simp
    have "now < d \<and> d < MAX_TIME" if "expiresAt = Some d" for d using False ex [OF that] that by (simp add: past_def)
    from append_rep [OF s2(2) new this, where raw = raw and bytes = bytes and expiresAt = expiresAt] obtain s' xs' where a: "cache_append key raw expiresAt bytes now s2 = Some s'" "cs_rep s' xs'"
      "items s' xs' = items s2 xs2 @ [(key, raw, expiresAt, bytes)]" "limits s' = limits s2" by auto
    have "cache_write key json expiresAt bytes now s = Some s'"
      using False j s2(1) a(1) by (simp add: cache_write_def Let_def)
    moreover have "items s' xs' = lru_write (cs_maxEntries s) (cs_maxBytes s) key json expiresAt bytes now (items s xs)"
      using False j a(3) s2(3) r1(2) by (simp add: lru_write_def Let_def)
    ultimately show ?thesis using a(2,4) s2(4) by auto
  qed
qed

lemma get_ref:
  assumes rep: "cs_rep s xs" and k: "cacheKey key = Inr k"
  shows "\<exists>s' xs'. cache_get parse key now s = (Inr (fst (lru_get parse k now (items s xs))), s') \<and> cs_rep s' xs'
    \<and> items s' xs' = snd (lru_get parse k now (items s xs)) \<and> limits s' = limits s"
proof (cases "map_of (cs_entries s) k")
  case None
  then show ?thesis using rep k find_items [OF rep, of k] by (auto simp: cache_get_def lru_get_def)
next
  case (Some r)
  then have r: "r \<in> set xs" "ce_key (cs_heap s r) = k" using rep_entry [OF rep] by auto
  have f: "lru_find k (items s xs) = Some (cache_item (cs_heap s r))" using find_items [OF rep, of k] Some by simp
  have d: "lru_drop k (items s xs) = items s (remove1 r xs)" using drop_items [OF rep r(1)] r(2) by simp
  have rm: "\<exists>xs'. cs_rep (cache_remove r s) xs' \<and> items (cache_remove r s) xs' = lru_drop k (items s xs) \<and> limits (cache_remove r s) = limits s"
    using cache_remove_rep [OF rep r(1)] removed_items [OF rep r(1)] d by (auto simp: limits_def)
  show ?thesis
  proof (cases "past (ce_expires (cs_heap s r)) now")
    case True
    then show ?thesis using rm k Some f by (simp add: cache_get_def lru_get_def lru_live_def)
  next
    case False
    show ?thesis
    proof (cases "parse (ce_raw (cs_heap s r))")
      case None
      then show ?thesis using rm k Some f False by (simp add: cache_get_def lru_get_def lru_live_def)
    next
      case v: (Some v)
      from touch_rep [OF rep r(1)] d show ?thesis using k Some f False v by (auto simp: cache_get_def lru_get_def lru_live_def)
    qed
  qed
qed


section \<open>Runs\<close>

datatype cache_op = OpGet jsv nat | OpHas jsv nat | OpSet jsv jsv jsv nat nat | OpDelete jsv | OpFlush
  | OpGetMany jsv "nat list" | OpSetMany jsv "nat list" "nat list" | OpDeleteMany jsv

datatype cache_answer = Got "cache_error + jsv" | Had "cache_error + bool" | Done "cache_error + unit" | GotMany "cache_error + jsv list"

definition cache_exec :: "(jsv \<Rightarrow> string option) \<Rightarrow> (string \<Rightarrow> jsv option) \<Rightarrow> cache_op \<Rightarrow> cache_store \<Rightarrow> (cache_answer \<times> cache_store) option" where
  "cache_exec stringify parse op s = (case op of
     OpGet key now \<Rightarrow> (case cache_get parse key now s of (r, s') \<Rightarrow> Some (Got r, s'))
   | OpHas key now \<Rightarrow> (case cache_has parse key now s of (r, s') \<Rightarrow> Some (Had r, s'))
   | OpSet key value ttl t0 t1 \<Rightarrow> map_option (\<lambda>(r, s'). (Done r, s')) (cache_set stringify key value ttl t0 t1 s)
   | OpDelete key \<Rightarrow> (case cache_delete key s of (r, s') \<Rightarrow> Some (Done r, s'))
   | OpFlush \<Rightarrow> Some (Done (Inr ()), cache_flush s)
   | OpGetMany keys nows \<Rightarrow> (case cache_getMany parse keys nows s of (r, s') \<Rightarrow> Some (GotMany r, s'))
   | OpSetMany entries t0s t1s \<Rightarrow> map_option (\<lambda>(r, s'). (Done r, s')) (cache_setMany stringify entries t0s t1s s)
   | OpDeleteMany keys \<Rightarrow> (case cache_deleteMany keys s of (r, s') \<Rightarrow> Some (Done r, s')))"

fun cache_run :: "(jsv \<Rightarrow> string option) \<Rightarrow> (string \<Rightarrow> jsv option) \<Rightarrow> cache_op list \<Rightarrow> cache_store \<Rightarrow> (cache_answer list \<times> cache_store) option" where
  "cache_run stringify parse [] s = Some ([], s)"
| "cache_run stringify parse (op # ops) s = Option.bind (cache_exec stringify parse op s) (\<lambda>(a, s').
     map_option (\<lambda>(as, s2). (a # as, s2)) (cache_run stringify parse ops s'))"

text \<open>The reference: limits and a list.\<close>

definition lru_bytes :: "nat \<Rightarrow> string \<Rightarrow> (string \<times> nat) option \<Rightarrow> cache_error + nat" where
  "lru_bytes maxBytes key json = (case json of None \<Rightarrow> Inr 0
     | Some (raw, b) \<Rightarrow> if utf8_length key + b > maxBytes then Inl CEBudget else Inr (utf8_length key + b))"

fun lru_get_each :: "(string \<Rightarrow> jsv option) \<Rightarrow> string list \<Rightarrow> nat list \<Rightarrow> cache_item list \<Rightarrow> jsv list \<times> cache_item list" where
  "lru_get_each parse (k # ks) (now # nows) l = (case lru_get parse k now l of (v, l1) \<Rightarrow>
     (case lru_get_each parse ks nows l1 of (vs, l2) \<Rightarrow> (v # vs, l2)))"
| "lru_get_each parse ks nows l = ([], l)"

fun lru_write_each :: "nat \<Rightarrow> nat \<Rightarrow> (prepared_entry \<times> nat) list \<Rightarrow> nat list \<Rightarrow> cache_item list \<Rightarrow> cache_item list" where
  "lru_write_each mE mB ((p, b) # ps) (now # nows) l =
     lru_write_each mE mB ps nows (lru_write mE mB (pe_key p) (pe_json p) (pe_expires p) b now l)"
| "lru_write_each mE mB ps nows l = l"

definition lru_exec :: "nat \<Rightarrow> nat \<Rightarrow> (jsv \<Rightarrow> string option) \<Rightarrow> (string \<Rightarrow> jsv option) \<Rightarrow> cache_op \<Rightarrow> cache_item list \<Rightarrow> cache_answer \<times> cache_item list" where
  "lru_exec mE mB stringify parse op l = (case op of
     OpGet key now \<Rightarrow> (case cacheKey key of Inl e \<Rightarrow> (Got (Inl e), l)
       | Inr k \<Rightarrow> (Got (Inr (fst (lru_get parse k now l))), snd (lru_get parse k now l)))
   | OpHas key now \<Rightarrow> (case cacheKey key of Inl e \<Rightarrow> (Had (Inl e), l)
       | Inr k \<Rightarrow> (Had (Inr (fst (lru_get parse k now l) \<noteq> JUndef)), snd (lru_get parse k now l)))
   | OpSet key value ttl t0 t1 \<Rightarrow>
       (case bindr (cacheKey key) (\<lambda>k. bindr (cacheExpiry ttl t0) (\<lambda>ex. bindr (cacheJsonValue stringify value) (\<lambda>json.
           bindr (lru_bytes mB k json) (\<lambda>b. Inr (k, ex, json, b))))) of
         Inl e \<Rightarrow> (Done (Inl e), l) | Inr (k, ex, json, b) \<Rightarrow> (Done (Inr ()), lru_write mE mB k json ex b t1 l))
   | OpDelete key \<Rightarrow> (case cacheKey key of Inl e \<Rightarrow> (Done (Inl e), l) | Inr k \<Rightarrow> (Done (Inr ()), lru_drop k l))
   | OpFlush \<Rightarrow> (Done (Inr ()), [])
   | OpGetMany keys nows \<Rightarrow> (case cacheKeys keys of Inl e \<Rightarrow> (GotMany (Inl e), l)
       | Inr ks \<Rightarrow> (GotMany (Inr (fst (lru_get_each parse ks nows l))), snd (lru_get_each parse ks nows l)))
   | OpSetMany entries t0s t1s \<Rightarrow>
       (case bindr (prepareCacheEntries stringify entries t0s) (\<lambda>ps. bindr (mapr (\<lambda>p. lru_bytes mB (pe_key p) (pe_json p)) ps) (\<lambda>bs. Inr (zip ps bs))) of
         Inl e \<Rightarrow> (Done (Inl e), l) | Inr ws \<Rightarrow> (Done (Inr ()), lru_write_each mE mB ws t1s l))
   | OpDeleteMany keys \<Rightarrow> (case cacheKeys keys of Inl e \<Rightarrow> (Done (Inl e), l) | Inr ks \<Rightarrow> (Done (Inr ()), fold lru_drop ks l)))"

fun lru_run :: "nat \<Rightarrow> nat \<Rightarrow> (jsv \<Rightarrow> string option) \<Rightarrow> (string \<Rightarrow> jsv option) \<Rightarrow> cache_op list \<Rightarrow> cache_item list \<Rightarrow> cache_answer list \<times> cache_item list" where
  "lru_run mE mB stringify parse [] l = ([], l)"
| "lru_run mE mB stringify parse (op # ops) l = (case lru_exec mE mB stringify parse op l of (a, l1) \<Rightarrow>
     (case lru_run mE mB stringify parse ops l1 of (as, l2) \<Rightarrow> (a # as, l2)))"

lemma expiry_bound: "cacheExpiry ttl t = Inr (Some d) \<Longrightarrow> d < MAX_TIME"
  by (auto simp: cacheExpiry_def MAX_TIME_def split: jsv.splits jnum.splits if_splits)

lemma prepared_bound: "prepare_from stringify b es ts = Inr ps \<Longrightarrow> p \<in> set ps \<Longrightarrow> pe_expires p = Some d \<Longrightarrow> d < MAX_TIME"
proof (induction stringify b es ts arbitrary: ps rule: prepare_from.induct)
  case (1 stringify bytes entry entries now nows)
  then show ?case by (cases entry) (auto simp: Let_def expiry_bound split: if_splits)
qed auto

lemma bytes_lru: "entryBytes s = lru_bytes (cs_maxBytes s)"
  by (intro ext) (simp add: entryBytes_def lru_bytes_def)

lemma cacheKeys_ok: "cacheKeys keys = Inr ks \<Longrightarrow> list_all (\<lambda>k. cacheKey (JStr k) = Inr k) ks"
proof -
  assume "cacheKeys keys = Inr ks"
  then obtain js where m: "mapr cacheKey js = Inr ks" by (auto simp: cacheKeys_def split: jsv.splits if_splits)
  have "cacheKey j = Inr k \<Longrightarrow> cacheKey (JStr k) = Inr k" for j k
    by (auto simp: cacheKey_def split: jsv.splits if_splits)
  with m show ?thesis by (induction js arbitrary: ks) auto
qed

lemma get_each_ref:
  assumes "cs_rep s xs" "list_all (\<lambda>k. cacheKey (JStr k) = Inr k) ks"
  shows "\<exists>s' xs'. get_each parse ks nows s = (fst (lru_get_each parse ks nows (items s xs)), s') \<and> cs_rep s' xs'
    \<and> items s' xs' = snd (lru_get_each parse ks nows (items s xs)) \<and> limits s' = limits s"
  using assms
proof (induction parse ks nows s arbitrary: xs rule: get_each.induct)
  case (1 parse k ks now nows s)
  have k: "cacheKey (JStr k) = Inr k" using 1(3) by simp
  obtain s1 xs1 where g: "cache_get parse (JStr k) now s = (Inr (fst (lru_get parse k now (items s xs))), s1)" "cs_rep s1 xs1"
    "items s1 xs1 = snd (lru_get parse k now (items s xs))" "limits s1 = limits s"
    using get_ref [OF 1(2) k, of parse now] by blast
  obtain s2 xs2 where h: "get_each parse ks nows s1 = (fst (lru_get_each parse ks nows (items s1 xs1)), s2)" "cs_rep s2 xs2"
    "items s2 xs2 = snd (lru_get_each parse ks nows (items s1 xs1))" "limits s2 = limits s1"
    using 1(1) [OF g(1) [symmetric] g(2)] 1(3) by auto
  from g h show ?case by (intro exI [of _ s2] exI [of _ xs2]) (simp add: split_beta)
qed auto

definition timely :: "prepared_entry \<Rightarrow> bool" where
  "timely p \<longleftrightarrow> (case pe_expires p of Some d \<Rightarrow> d < MAX_TIME | None \<Rightarrow> True)"

lemma write_each_ref:
  assumes "cs_rep s xs" "list_all (\<lambda>w. timely (fst w)) ps"
  shows "\<exists>s' xs'. write_each ps nows s = Some s' \<and> cs_rep s' xs'
    \<and> items s' xs' = lru_write_each (cs_maxEntries s) (cs_maxBytes s) ps nows (items s xs) \<and> limits s' = limits s"
  using assms
proof (induction ps nows s arbitrary: xs rule: write_each.induct)
  case (1 p b ps now nows s)
  have "d < MAX_TIME" if "pe_expires p = Some d" for d using 1(3) that by (simp add: timely_def)
  from write_ref [OF 1(2) this, where key = "pe_key p" and json = "pe_json p" and expiresAt = "pe_expires p" and bytes = b and now = now]
  obtain s1 xs1 where w: "cache_write (pe_key p) (pe_json p) (pe_expires p) b now s = Some s1" "cs_rep s1 xs1"
    "items s1 xs1 = lru_write (cs_maxEntries s) (cs_maxBytes s) (pe_key p) (pe_json p) (pe_expires p) b now (items s xs)" "limits s1 = limits s"
    by auto
  have "list_all (\<lambda>w. timely (fst w)) ps" using 1(3) by simp
  from 1(1) [OF w(1,2) this] obtain s2 xs2 where "write_each ps nows s1 = Some s2" "cs_rep s2 xs2"
    "items s2 xs2 = lru_write_each (cs_maxEntries s1) (cs_maxBytes s1) ps nows (items s1 xs1)" "limits s2 = limits s1" by auto
  with w show ?case by (auto simp: limits_def)
qed auto

lemma flush_rep: "cs_rep s xs \<Longrightarrow> cs_rep (cache_flush s) [] \<and> limits (cache_flush s) = limits s"
  using clear_rep [of "cs_heap s" "cs_expiry s" "timed s xs" "cs_heap s"]
  by (simp add: cs_rep_def cache_flush_def limits_def timed_def)

lemma delete_each_ref:
  "cs_rep s xs \<Longrightarrow> \<exists>xs'. cs_rep (fold cache_removeKey ks s) xs' \<and> items (fold cache_removeKey ks s) xs' = fold lru_drop ks (items s xs)
    \<and> limits (fold cache_removeKey ks s) = limits s"
proof (induction ks arbitrary: s xs)
  case (Cons k ks)
  obtain xs1 where "cs_rep (cache_removeKey k s) xs1" "items (cache_removeKey k s) xs1 = lru_drop k (items s xs)"
    "limits (cache_removeKey k s) = limits s" using removeKey_ref [OF Cons.prems] by blast
  with Cons.IH [OF this(1)] show ?case by auto
qed auto

lemma exec_ref:
  assumes rep: "cs_rep s xs"
  shows "\<exists>s' xs'. cache_exec stringify parse op s = Some (fst (lru_exec (cs_maxEntries s) (cs_maxBytes s) stringify parse op (items s xs)), s')
    \<and> cs_rep s' xs' \<and> items s' xs' = snd (lru_exec (cs_maxEntries s) (cs_maxBytes s) stringify parse op (items s xs)) \<and> limits s' = limits s"
proof (cases op)
  case (OpGet key now)
  show ?thesis
  proof (cases "cacheKey key")
    case (Inl e)
    with OpGet rep show ?thesis by (auto simp: cache_exec_def cache_get_def lru_exec_def)
  next
    case (Inr k)
    from get_ref [OF rep Inr, of parse now] OpGet Inr show ?thesis by (auto simp: cache_exec_def lru_exec_def)
  qed
next
  case (OpHas key now)
  show ?thesis
  proof (cases "cacheKey key")
    case (Inl e)
    with OpHas rep show ?thesis by (auto simp: cache_exec_def cache_has_def cache_get_def lru_exec_def)
  next
    case (Inr k)
    from get_ref [OF rep Inr, of parse now] OpHas Inr show ?thesis by (auto simp: cache_exec_def cache_has_def lru_exec_def)
  qed
next
  case (OpSet key v ttl t0 t1)
  let ?checks = "bindr (cacheKey key) (\<lambda>k. bindr (cacheExpiry ttl t0) (\<lambda>ex. bindr (cacheJsonValue stringify v) (\<lambda>json.
           bindr (lru_bytes (cs_maxBytes s) k json) (\<lambda>b. Inr (k, ex, json, b)))))"
  show ?thesis
  proof (cases ?checks)
    case (Inl e)
    with OpSet rep show ?thesis by (auto simp: cache_exec_def cache_set_def bytes_lru lru_exec_def)
  next
    case (Inr w)
    obtain k ex json b where w: "w = (k, ex, json, b)" by (cases w) auto
    have "d < MAX_TIME" if "ex = Some d" for d using Inr w that expiry_bound by auto
    from write_ref [OF rep this, where key = k and json = json and expiresAt = ex and bytes = b and now = t1] obtain s' xs' where
      "cache_write k json ex b t1 s = Some s'" "cs_rep s' xs'"
      "items s' xs' = lru_write (cs_maxEntries s) (cs_maxBytes s) k json ex b t1 (items s xs)" "limits s' = limits s" by blast
    with OpSet Inr w show ?thesis by (auto simp: cache_exec_def cache_set_def bytes_lru lru_exec_def)
  qed
next
  case (OpDelete key)
  show ?thesis
  proof (cases "cacheKey key")
    case (Inl e)
    with OpDelete rep show ?thesis by (auto simp: cache_exec_def cache_delete_def lru_exec_def)
  next
    case (Inr k)
    from removeKey_ref [OF rep, of k] OpDelete Inr show ?thesis by (auto simp: cache_exec_def cache_delete_def lru_exec_def)
  qed
next
  case OpFlush
  with flush_rep [OF rep] show ?thesis by (intro exI [of _ "cache_flush s"] exI [of _ "[]"]) (simp add: cache_exec_def lru_exec_def items_def)
next
  case (OpGetMany keys nows)
  show ?thesis
  proof (cases "cacheKeys keys")
    case (Inl e)
    with OpGetMany rep show ?thesis by (auto simp: cache_exec_def cache_getMany_def lru_exec_def)
  next
    case (Inr ks)
    from get_each_ref [OF rep cacheKeys_ok [OF Inr], of parse nows] OpGetMany Inr show ?thesis
      by (auto simp: cache_exec_def cache_getMany_def lru_exec_def)
  qed
next
  case (OpSetMany entries t0s t1s)
  let ?checks = "bindr (prepareCacheEntries stringify entries t0s) (\<lambda>ps. bindr (mapr (\<lambda>p. lru_bytes (cs_maxBytes s) (pe_key p) (pe_json p)) ps) (\<lambda>bs. Inr (zip ps bs)))"
  have eq: "cache_setMany stringify entries t0s t1s s = (case ?checks of Inl e \<Rightarrow> Some (Inl e, s) | Inr ws \<Rightarrow> map_option (Pair (Inr ())) (write_each ws t1s s))"
    by (auto simp: cache_setMany_def cache_writeMany_def bytes_lru split: sum.split)
  show ?thesis
  proof (cases ?checks)
    case (Inl e)
    with OpSetMany rep eq show ?thesis by (auto simp: cache_exec_def lru_exec_def)
  next
    case (Inr ws)
    obtain ps bs where ps: "prepareCacheEntries stringify entries t0s = Inr ps" "ws = zip ps bs" using Inr by auto
    have "timely p" if "p \<in> set ps" for p
      using ps(1) that by (auto simp: prepareCacheEntries_def timely_def dest: prepared_bound split: jsv.splits if_splits option.splits)
    then have "list_all (\<lambda>w. timely (fst w)) ws" using ps(2) by (auto simp: list_all_iff dest: set_zip_leftD)
    from write_each_ref [OF rep this, where nows = t1s] OpSetMany Inr eq show ?thesis by (auto simp: cache_exec_def lru_exec_def)
  qed
next
  case (OpDeleteMany keys)
  show ?thesis
  proof (cases "cacheKeys keys")
    case (Inl e)
    with OpDeleteMany rep show ?thesis by (auto simp: cache_exec_def cache_deleteMany_def lru_exec_def)
  next
    case (Inr ks)
    from delete_each_ref [OF rep, of ks] OpDeleteMany Inr show ?thesis by (auto simp: cache_exec_def cache_deleteMany_def lru_exec_def)
  qed
qed

lemma run_ref:
  assumes "cs_rep s xs"
  shows "\<exists>s' xs'. cache_run stringify parse ops s = Some (fst (lru_run (cs_maxEntries s) (cs_maxBytes s) stringify parse ops (items s xs)), s')
    \<and> cs_rep s' xs' \<and> items s' xs' = snd (lru_run (cs_maxEntries s) (cs_maxBytes s) stringify parse ops (items s xs)) \<and> limits s' = limits s"
  using assms
proof (induction ops arbitrary: s xs)
  case (Cons op ops)
  obtain s1 xs1 where e: "cache_exec stringify parse op s = Some (fst (lru_exec (cs_maxEntries s) (cs_maxBytes s) stringify parse op (items s xs)), s1)"
    "cs_rep s1 xs1" "items s1 xs1 = snd (lru_exec (cs_maxEntries s) (cs_maxBytes s) stringify parse op (items s xs))" "limits s1 = limits s"
    using exec_ref [OF Cons.prems] by blast
  obtain s2 xs2 where "cache_run stringify parse ops s1 = Some (fst (lru_run (cs_maxEntries s1) (cs_maxBytes s1) stringify parse ops (items s1 xs1)), s2)"
    "cs_rep s2 xs2" "items s2 xs2 = snd (lru_run (cs_maxEntries s1) (cs_maxBytes s1) stringify parse ops (items s1 xs1))" "limits s2 = limits s1"
    using Cons.IH [OF e(2)] by blast
  with e show ?case by (intro exI [of _ s2] exI [of _ xs2]) (simp add: limits_def split_beta)
qed auto

lemma create_rep: "cache_create a b = Inr s \<Longrightarrow> cs_rep s [] \<and> items s [] = [] \<and> cs_maxEntries s = nat_of a \<and> cs_maxBytes s = nat_of b \<and> 0 < nat_of a"
  using new_rep [of "\<lambda>_. blank_entry"]
  by (auto simp: cache_create_def cs_rep_def items_def timed_def small_int_def nat_of_def split: if_splits jnum.splits)


section \<open>Limits\<close>

definition lru_within :: "nat \<Rightarrow> nat \<Rightarrow> cache_item list \<Rightarrow> bool" where
  "lru_within mE mB l \<longleftrightarrow> length l \<le> mE \<and> sum_list (map item_bytes l) \<le> mB"

lemma filter_bytes: "sum_list (map g (filter P l)) \<le> sum_list (map (g :: 'a \<Rightarrow> nat) l)"
  by (induction l) auto

lemma within_filter: "lru_within mE mB l \<Longrightarrow> lru_within mE mB (filter P l)"
  by (auto simp: lru_within_def intro: le_trans [OF length_filter_le] le_trans [OF filter_bytes])

lemma fit_room: "0 < mE \<Longrightarrow> b \<le> mB \<Longrightarrow> \<not> lru_full mE mB b (lru_fit mE mB b l)"
  by (induction l) (auto simp: lru_full_def)

lemma within_write:
  assumes "lru_within mE mB l" "0 < mE" "b \<le> mB"
  shows "lru_within mE mB (lru_write mE mB key json ex b now l)"
proof -
  let ?l1 = "lru_drop key l"
  have l1: "lru_within mE mB ?l1" unfolding lru_drop_def by (rule within_filter [OF assms(1)])
  have "\<not> lru_full mE mB b (if lru_full mE mB b ?l1 then lru_fit mE mB b (filter (lru_live now) ?l1) else ?l1)"
    using fit_room [OF assms(2,3)] by auto
  with l1 show ?thesis by (auto simp: lru_write_def Let_def lru_full_def lru_within_def split: option.split)
qed

lemma find_drop: "lru_find k l = Some it \<Longrightarrow> \<exists>pre post. l = pre @ it # post \<and> item_key it = k"
  by (auto simp: lru_find_def find_Some_iff) (metis id_take_nth_drop)

lemma within_get: "lru_within mE mB l \<Longrightarrow> lru_within mE mB (snd (lru_get parse k now l))"
proof -
  assume w: "lru_within mE mB l"
  have d: "lru_within mE mB (lru_drop k l)" unfolding lru_drop_def by (rule within_filter [OF w])
  have "lru_within mE mB (lru_drop k l @ [it])" if f: "lru_find k l = Some it" for it
  proof -
    obtain pre post where l: "l = pre @ it # post" "item_key it = k" using find_drop [OF f] by blast
    have "length (lru_drop k l) \<le> length (pre @ post)" "sum_list (map item_bytes (lru_drop k l)) \<le> sum_list (map item_bytes (pre @ post))"
      using l length_filter_le [of "\<lambda>it. item_key it \<noteq> k" "pre @ post"] filter_bytes [of item_bytes "\<lambda>it. item_key it \<noteq> k" "pre @ post"]
      by (simp_all add: lru_drop_def)
    with w l show ?thesis by (auto simp: lru_within_def)
  qed
  with w d show ?thesis by (auto simp: lru_get_def split: option.split)
qed

lemma lru_bytes_bound: "lru_bytes mB k json = Inr b \<Longrightarrow> b \<le> mB"
  by (auto simp: lru_bytes_def split: option.splits if_splits)

lemma within_exec:
  assumes "lru_within mE mB l" "0 < mE"
  shows "lru_within mE mB (snd (lru_exec mE mB stringify parse op l))"
proof -
  have ge: "lru_within mE mB l \<Longrightarrow> lru_within mE mB (snd (lru_get_each parse ks nows l))" for ks nows l
  proof (induction parse ks nows l rule: lru_get_each.induct)
    case (1 parse k ks now nows l)
    obtain v l1 where g: "lru_get parse k now l = (v, l1)" by (cases "lru_get parse k now l")
    have "lru_within mE mB l1" using within_get [OF 1(2), of parse k now] g by simp
    from 1(1) [OF g [symmetric] this] show ?case by (simp add: g split_beta)
  qed auto
  have we: "0 < mE \<Longrightarrow> lru_within mE mB l \<Longrightarrow> list_all (\<lambda>(p, b). b \<le> mB) ws \<Longrightarrow> lru_within mE mB (lru_write_each mE mB ws nows l)" for ws nows l
    by (induction mE mB ws nows l rule: lru_write_each.induct) (use within_write in auto)
  have zips: "list_all (\<lambda>(p, b). b \<le> mB) (zip ps bs)" if "mapr (\<lambda>p. lru_bytes mB (pe_key p) (pe_json p)) ps = Inr bs" for ps bs
    using that by (induction ps arbitrary: bs) (auto dest: lru_bytes_bound)
  have fd: "lru_within mE mB l \<Longrightarrow> lru_within mE mB (fold lru_drop ks l)" for ks l
    by (induction ks arbitrary: l) (auto simp: lru_drop_def intro: within_filter)
  show ?thesis
    using assms within_get [OF assms(1)] ge [OF assms(1)] fd [OF assms(1)] within_filter [OF assms(1)]
    by (cases op) (auto simp: lru_exec_def lru_drop_def lru_within_def [of mE mB "[]"]
      intro: within_write we dest: lru_bytes_bound zips split: sum.split)
qed

lemma within_run: "lru_within mE mB l \<Longrightarrow> 0 < mE \<Longrightarrow> lru_within mE mB (snd (lru_run mE mB stringify parse ops l))"
proof (induction ops arbitrary: l)
  case (Cons op ops)
  from Cons.IH [OF within_exec [OF Cons.prems, of stringify parse op] Cons.prems(2)] show ?case by (simp add: split_beta)
qed simp


section \<open>The properties of the cache\<close>

text \<open>JSON text of strings, for examples.\<close>

definition plain_json :: "jsv \<Rightarrow> string option" where
  "plain_json v = (case v of JStr s \<Rightarrow> Some (CHR 0x22 # s @ [CHR 0x22]) | _ \<Rightarrow> None)"

definition parse_json :: "string \<Rightarrow> jsv option" where
  "parse_json s = (if 2 \<le> length s then Some (JStr (butlast (tl s))) else None)"

text \<open>Two entries fit: the expired one goes before the older live one, then the one used least recently.\<close>

definition sample_cache_ops :: "cache_op list" where
  "sample_cache_ops = [OpSet (JStr ''a'') (JStr ''1'') JUndef 100 100, OpSet (JStr ''b'') (JStr ''2'') (JNum (NInt 10)) 100 100,
     OpSet (JStr ''c'') (JStr ''3'') (JNum (NInt 50)) 120 120, OpGet (JStr ''a'') 120, OpSet (JStr ''d'') (JStr ''4'') (JNum (NInt 5)) 90 90,
     OpGetMany (JArr [JStr ''a'', JStr ''b'', JStr ''c'', JStr ''d'']) [91, 91, 91, 91], OpHas (JStr ''d'') 95]"

text \<open>C0. The in-memory cache, with its two linked structures and the radix heap of deadlines, answers every
  sequence of operations exactly as a plain list of items in order of use does: a write over a full
  cache first drops whatever has expired and only then what was used least recently, a read moves its
  cache_item to the end, and an expired cache_item is never read; whatever the clock does, backwards steps included.
  Every operation ends.\<close>
theorem cache_refines_reference:
  assumes "cache_create maxEntries maxBytes = Inr s"
  shows "\<exists>s'. cache_run stringify parse ops s =
    Some (fst (lru_run (nat_of maxEntries) (nat_of maxBytes) stringify parse ops []), s')"
  using run_ref [of s "[]" stringify parse ops] create_rep [OF assms] by auto

lemma cache_refines_reference_witness:
  "case cache_create (NInt 2) (NInt 100) of Inl e \<Rightarrow> False
   | Inr s \<Rightarrow> \<exists>s'. cache_run plain_json parse_json sample_cache_ops s =
     Some ([Done (Inr ()), Done (Inr ()), Done (Inr ()), Got (Inr (JStr ''1'')), Done (Inr ()),
       GotMany (Inr [JStr ''1'', JUndef, JUndef, JStr ''4'']), Had (Inr False)], s')"
proof (cases "cache_create (NInt 2) (NInt 100)")
  case (Inl e)
  then show ?thesis by (simp add: cache_create_def small_int_def safe_int_def MAX_SAFE_def)
next
  case (Inr s)
  have "fst (lru_run (nat_of (NInt 2)) (nat_of (NInt 100)) plain_json parse_json sample_cache_ops []) =
      [Done (Inr ()), Done (Inr ()), Done (Inr ()), Got (Inr (JStr ''1'')), Done (Inr ()),
       GotMany (Inr [JStr ''1'', JUndef, JUndef, JStr ''4'']), Had (Inr False)]" by code_simp
  with cache_refines_reference [OF Inr, of plain_json parse_json sample_cache_ops] Inr show ?thesis by simp
qed

text \<open>C0. After any operations the in-memory cache holds no more entries and no more bytes than it was created with, and
  the bytes it has counted are the keys and values it holds.\<close>
theorem cache_within_limits:
  assumes "cache_create maxEntries maxBytes = Inr s" "cache_run stringify parse ops s = Some (answers, s')"
  shows "length (cs_entries s') \<le> nat_of maxEntries \<and> 0 \<le> cs_bytes s' \<and> cs_bytes s' \<le> int (nat_of maxBytes)
    \<and> cs_bytes s' = int (sum_list (map (\<lambda>(k, r). ce_bytes (cs_heap s' r)) (cs_entries s')))"
proof -
  note c = create_rep [OF assms(1)]
  obtain s2 xs where r: "cache_run stringify parse ops s = Some (fst (lru_run (nat_of maxEntries) (nat_of maxBytes) stringify parse ops []), s2)"
    "cs_rep s2 xs" "items s2 xs = snd (lru_run (nat_of maxEntries) (nat_of maxBytes) stringify parse ops [])"
    using run_ref [of s "[]" stringify parse ops] c by auto
  have s': "s' = s2" using r(1) assms(2) by simp
  have "lru_within (nat_of maxEntries) (nat_of maxBytes) (items s2 xs)"
    unfolding r(3) by (rule within_run) (use c in \<open>simp_all add: lru_within_def\<close>)
  then have "length xs \<le> nat_of maxEntries" "sum_list (map (\<lambda>r. ce_bytes (cs_heap s2 r)) xs) \<le> nat_of maxBytes"
    by (simp_all add: lru_within_def items_def o_def)
  moreover have "cs_bytes s2 = int (sum_list (map (\<lambda>r. ce_bytes (cs_heap s2 r)) xs))" using r(2) by (simp add: cs_rep_def)
  moreover have "sum_list (map (\<lambda>(k, r). ce_bytes (cs_heap s2 r)) (cs_entries s2)) = sum_list (map (\<lambda>r. ce_bytes (cs_heap s2 r)) xs)"
  proof -
    have d: "distinct (cs_entries s2)" "distinct xs" and e: "set (cs_entries s2) = (\<lambda>r. (ce_key (cs_heap s2 r), r)) ` set xs"
      using r(2) by (auto simp: cs_rep_def distinct_map)
    have "sum_list (map (\<lambda>(k, r). ce_bytes (cs_heap s2 r)) (cs_entries s2)) = (\<Sum>(k, r)\<in>(\<lambda>r. (ce_key (cs_heap s2 r), r)) ` set xs. ce_bytes (cs_heap s2 r))"
      using d(1) e by (simp add: sum_list_distinct_conv_sum_set)
    also have "\<dots> = (\<Sum>r\<in>set xs. ce_bytes (cs_heap s2 r))" by (subst sum.reindex) (auto simp: inj_on_def)
    finally show ?thesis using d(2) by (simp add: sum_list_distinct_conv_sum_set)
  qed
  ultimately show ?thesis using rep_size [OF r(2)] unfolding s' by simp
qed

lemma cache_within_limits_witness:
  "case cache_create (NInt 2) (NInt 100) of Inl e \<Rightarrow> False
   | Inr s \<Rightarrow> (case cache_run plain_json parse_json sample_cache_ops s of None \<Rightarrow> False | Some (answers, s') \<Rightarrow> length (cs_entries s') \<le> 2 \<and> cs_bytes s' \<le> 100)"
proof (cases "cache_create (NInt 2) (NInt 100)")
  case (Inl e)
  then show ?thesis by (simp add: cache_create_def small_int_def safe_int_def MAX_SAFE_def)
next
  case (Inr s)
  obtain answers s' where r: "cache_run plain_json parse_json sample_cache_ops s = Some (answers, s')"
    using run_ref [of s "[]" plain_json parse_json sample_cache_ops] create_rep [OF Inr] by blast
  from cache_within_limits [OF Inr r] Inr r show ?thesis by (simp add: nat_of_def)
qed

text \<open>What can happen to an index of deadlines, with the entries it holds.\<close>

datatype ix_op = IxAdd nat nat | IxRemove nat | IxExpired nat

fun ix_history :: "ix_op list \<Rightarrow> ix_state \<Rightarrow> nat set \<Rightarrow> (ix_state \<times> nat set) option" where
  "ix_history [] hx M = Some (hx, M)"
| "ix_history (IxAdd r now # ops) hx M =
     (if r \<notin> M \<and> now < deadline (fst hx r) \<and> deadline (fst hx r) < MAX_TIME
      then Option.bind (ix_add r now hx) (\<lambda>hx'. ix_history ops hx' (insert r M)) else None)"
| "ix_history (IxRemove r # ops) hx M = (if r \<in> M then ix_history ops (ix_remove r hx) (M - {r}) else None)"
| "ix_history (IxExpired now # ops) hx M = Option.bind (ix_expired now hx) (\<lambda>(res, hx'). ix_history ops hx' M)"

lemma history_rep:
  assumes "ix_rep hx M" "\<And>j. core (fst hx j) = core (h j)" "ix_history ops hx M = Some (hx', M')"
  shows "ix_rep hx' M' \<and> (\<forall>j. core (fst hx' j) = core (h j))"
  using assms
proof (induction ops hx M rule: ix_history.induct)
  case (2 r now ops hx M)
  obtain g x where hx: "hx = (g, x)" by (cases hx)
  have c: "r \<notin> M" "now < deadline (g r)" "deadline (g r) < MAX_TIME" using 2(4) hx by (auto split: if_splits)
  obtain g' x' where a: "ix_add r now (g, x) = Some (g', x')" "ix_rep (g', x') (insert r M)" "\<And>j. core (g' j) = core (g j)"
    using add_rep [OF 2(2) [unfolded hx] c] by blast
  show ?case
    by (rule 2(1) [of "(g', x')"]) (use 2 hx a c in simp_all)
next
  case (3 r ops hx M)
  obtain g x g' x' where hx: "hx = (g, x)" "ix_remove r hx = (g', x')" by (cases hx; cases "ix_remove r hx")
  have r: "r \<in> M" using 3(4) by (auto split: if_splits)
  note rr = ix_remove_rep [OF 3(2) [unfolded hx(1)] r hx(2) [unfolded hx(1)]]
  show ?case
    by (rule 3(1)) (use 3 hx rr r in simp_all)
next
  case (4 now ops hx M)
  obtain g x where hx: "hx = (g, x)" by (cases hx)
  obtain res g' x' where e: "ix_expired now (g, x) = Some (res, g', x')" "ix_rep (g', x') M" "\<And>j. core (g' j) = core (g j)"
    using expired_rep [OF 4(2) [unfolded hx], of now] by blast
  show ?case
    by (rule 4(1) [of "(res, g', x')" res "(g', x')"]) (use 4 hx e in simp_all)
qed auto

text \<open>C0. Whatever was added to the index of deadlines and removed from it, and however the clock moved, looking for an expired
  entry ends: it finds an entry that has expired whenever there is one, and otherwise says that there is
  none.\<close>
theorem index_finds_expired:
  assumes "ix_history ops (h, new_index) {} = Some (hx, M)"
  shows "\<exists>res hx'. ix_expired now hx = Some (res, hx') \<and>
    (case res of None \<Rightarrow> \<forall>r\<in>M. now < deadline (h r) | Some r \<Rightarrow> r \<in> M \<and> deadline (h r) \<le> now)"
proof -
  have rep: "ix_rep hx M" and c: "\<And>j. core (fst hx j) = core (h j)" using history_rep [OF new_rep _ assms] by auto
  obtain g x where hx: "hx = (g, x)" by (cases hx)
  obtain res g' x' where e: "ix_expired now (g, x) = Some (res, g', x')" "finds now g M res"
    using expired_rep [OF rep [unfolded hx], of now] by blast
  have "finds now h M res" using e(2) finds_core [of g h now M res] c hx by simp
  with e(1) hx show ?thesis by (auto simp: finds_def)
qed

text \<open>Which entries an index holds after operations that it accepts: nothing the index does can get stuck.\<close>

fun held_after :: "cache_heap \<Rightarrow> ix_op list \<Rightarrow> nat set \<Rightarrow> nat set option" where
  "held_after h [] M = Some M"
| "held_after h (IxAdd r now # ops) M =
     (if r \<notin> M \<and> now < deadline (h r) \<and> deadline (h r) < MAX_TIME then held_after h ops (insert r M) else None)"
| "held_after h (IxRemove r # ops) M = (if r \<in> M then held_after h ops (M - {r}) else None)"
| "held_after h (IxExpired now # ops) M = held_after h ops M"

lemma history_runs:
  assumes "ix_rep hx M" "\<And>j. core (fst hx j) = core (h j)" "held_after h ops M = Some M'"
  shows "\<exists>hx'. ix_history ops hx M = Some (hx', M')"
  using assms
proof (induction h ops M arbitrary: hx rule: held_after.induct)
  case (2 h r now ops M)
  obtain g x where hx: "hx = (g, x)" by (cases hx)
  have d: "deadline (g r) = deadline (h r)" using 2(3) [of r] hx by (simp add: core_def deadline_def)
  have c: "r \<notin> M" "now < deadline (g r)" "deadline (g r) < MAX_TIME" using 2(4) d by (auto split: if_splits)
  obtain g' x' where a: "ix_add r now (g, x) = Some (g', x')" "ix_rep (g', x') (insert r M)" "\<And>j. core (g' j) = core (g j)"
    using add_rep [OF 2(2) [unfolded hx] c] by blast
  have "\<exists>hx'. ix_history ops (g', x') (insert r M) = Some (hx', M')"
    by (rule 2(1)) (use 2(3,4) hx a c d in simp_all)
  then show ?case using a c hx by simp
next
  case (3 h r ops M)
  obtain g x g' x' where hx: "hx = (g, x)" "ix_remove r hx = (g', x')" by (cases hx; cases "ix_remove r hx")
  have r: "r \<in> M" using 3(4) by (auto split: if_splits)
  note rr = ix_remove_rep [OF 3(2) [unfolded hx(1)] r hx(2) [unfolded hx(1)]]
  have "\<exists>hx'. ix_history ops (g', x') (M - {r}) = Some (hx', M')"
    by (rule 3(1)) (use 3 hx rr r in simp_all)
  then show ?case using r hx by simp
next
  case (4 h now ops M)
  obtain g x where hx: "hx = (g, x)" by (cases hx)
  obtain res g' x' where e: "ix_expired now (g, x) = Some (res, g', x')" "ix_rep (g', x') M" "\<And>j. core (g' j) = core (g j)"
    using expired_rep [OF 4(2) [unfolded hx], of now] by blast
  have "\<exists>hx'. ix_history ops (g', x') M = Some (hx', M')"
    by (rule 4(1)) (use 4 hx e in simp_all)
  then show ?case using e hx by simp
qed auto

definition sample_heap :: cache_heap where
  "sample_heap r = blank_entry\<lparr>ce_expires := Some (if r = 0 then 1000 else if r = 1 then 5000000000 else 1500)\<rparr>"

definition sample_history :: "ix_op list" where
  "sample_history = [IxAdd 0 10, IxAdd 1 20, IxExpired 30, IxAdd 2 1200, IxExpired 1300, IxRemove 0, IxExpired 1400]"

lemma index_finds_expired_witness:
  "\<exists>hx M res hx'. ix_history sample_history (sample_heap, new_index) {} = Some (hx, M) \<and> M = {1, 2} \<and> ix_expired 1600 hx = Some (res, hx')
    \<and> (case res of None \<Rightarrow> \<forall>r\<in>{1, 2}. 1600 < deadline (sample_heap r) | Some r \<Rightarrow> r \<in> {1, 2} \<and> deadline (sample_heap r) \<le> 1600)"
proof -
  have held: "held_after sample_heap sample_history {} = Some {1, 2}"
    by (auto simp: sample_history_def sample_heap_def deadline_def blank_entry_def MAX_TIME_def)
  obtain hx where h: "ix_history sample_history (sample_heap, new_index) {} = Some (hx, {1, 2})"
    using history_runs [OF new_rep _ held, of sample_heap] by auto
  from index_finds_expired [OF h, of 1600] h show ?thesis by blast
qed

end
